(* ===== verification/Prelude.thy ===== *)
theory Prelude
  imports Main "HOL-Library.Word"
begin

text \<open>
  Shared vocabulary of the development: the machine types of the C++ sources on the x86-64
  target they are built for (little-endian, 32-bit \<open>int\<close>), the memory representation of a
  machine integer as a byte list, \<open>memcpy\<close> into and out of a byte buffer, and the two locales for
  statements about sequences of operations. The named collections below gather the facts
  that the component theories feed to the simplifier.
\<close>

unbundle bit_operations_syntax

named_theorems buf_simps \<open>reading and writing byte buffers\<close>
named_theorems wire_defs \<open>definitions of the wire codecs\<close>

type_synonym byte = "8 word"
type_synonym u16 = "16 word"
type_synonym u32 = "32 word"
type_synonym u64 = "64 word"

section \<open>Machine integers in memory\<close>

text \<open>The bytes of an integer object, lowest address first: little-endian.\<close>

definition le_bytes :: "nat \<Rightarrow> 'a::len word \<Rightarrow> byte list" where
  "le_bytes n w = map (\<lambda>i. ucast (drop_bit (8 * i) w)) [0..<n]"

primrec le_word :: "byte list \<Rightarrow> 'a::len word" where
  "le_word [] = 0"
| "le_word (b # bs) = ucast b OR push_bit 8 (le_word bs)"

lemma length_le_bytes [simp]: "length (le_bytes n w) = n"
  by (simp add: le_bytes_def)

lemma nth_le_bytes: "i < n \<Longrightarrow> le_bytes n w ! i = ucast (drop_bit (8 * i) w)"
  by (simp add: le_bytes_def)

lemma bit_le_word:
  "bit (le_word bs :: 'a::len word) k \<longleftrightarrow>
     k < LENGTH('a) \<and> k div 8 < length bs \<and> bit (bs ! (k div 8)) (k mod 8)"
proof (induction bs arbitrary: k)
  case Nil
  then show ?case by simp
next
  case (Cons b bs)
  show ?case
  proof (cases "k < 8")
    case True
    then show ?thesis by (auto simp: bit_simps)
  next
    case False
    then have k: "k div 8 = Suc ((k - 8) div 8)" "k mod 8 = (k - 8) mod 8"
      by (simp_all add: le_div_geq le_mod_geq)
    have "\<not> bit b k" using False by (auto dest: bit_imp_le_length)
    with False k show ?thesis
      by (auto simp: bit_simps Cons.IH)
  qed
qed

lemma le_word_le_bytes:
  assumes "LENGTH('a) \<le> 8 * n"
  shows "le_word (le_bytes n w) = (w :: 'a::len word)"
proof (rule bit_word_eqI)
  fix k assume k: "k < LENGTH('a)"
  then have n: "k div 8 < n" using assms by linarith
  have "8 * (k div 8) + k mod 8 = k" by simp
  then show "bit (le_word (le_bytes n w) :: 'a word) k \<longleftrightarrow> bit w k"
    using k n by (simp add: bit_le_word nth_le_bytes bit_simps)
qed

lemma le_bytes_le_word:
  assumes "length bs = n" "8 * n \<le> LENGTH('a)"
  shows "le_bytes n (le_word bs :: 'a::len word) = bs"
proof (rule nth_equalityI)
  show "length (le_bytes n (le_word bs :: 'a word)) = length bs" by (simp add: assms)
next
  fix i assume "i < length (le_bytes n (le_word bs :: 'a word))"
  then have i: "i < n" by simp
  show "le_bytes n (le_word bs :: 'a word) ! i = bs ! i"
  proof (rule bit_word_eqI)
    fix k assume k: "k < LENGTH(8)"
    then have "(8 * i + k) div 8 = i" "(8 * i + k) mod 8 = k" "8 * i + k < LENGTH('a)"
      using i assms by (auto simp: div_add1_eq)
    then show "bit (le_bytes n (le_word bs :: 'a word) ! i) k \<longleftrightarrow> bit (bs ! i) k"
      using i k assms by (simp add: nth_le_bytes bit_simps bit_le_word)
  qed
qed

lemma le_bytes4_u32 [simp]: "le_word (le_bytes 4 (w :: u32)) = w"
  by (rule le_word_le_bytes) simp

lemma le_bytes8_u64 [simp]: "le_word (le_bytes 8 (w :: u64)) = w"
  by (rule le_word_le_bytes) simp

lemma le_bytes2_u16 [simp]: "le_word (le_bytes 2 (w :: u16)) = w"
  by (rule le_word_le_bytes) simp

lemma unat_u32_of_nat: "n < 2 ^ 32 \<Longrightarrow> unat (of_nat n :: u32) = n"
  by (simp add: unat_of_nat take_bit_nat_eq_self)

section \<open>Byte buffers\<close>

text \<open>
  \<open>memcpy_to buf off bs\<close> is the buffer after \<open>memcpy(buf + off, bs, |bs|)\<close>;
  \<open>mem_read buf off n\<close> the \<open>n\<close> bytes at \<open>buf + off\<close>.
\<close>

definition memcpy_to :: "'a list \<Rightarrow> nat \<Rightarrow> 'a list \<Rightarrow> 'a list" where
  "memcpy_to buf off bs = take off buf @ bs @ drop (off + length bs) buf"

definition mem_read :: "'a list \<Rightarrow> nat \<Rightarrow> nat \<Rightarrow> 'a list" where
  "mem_read buf off n = take n (drop off buf)"

lemma length_memcpy_to [simp, buf_simps]:
  "off + length bs \<le> length buf \<Longrightarrow> length (memcpy_to buf off bs) = length buf"
  by (simp add: memcpy_to_def)

lemma memcpy_to_Nil [simp]: "memcpy_to buf p [] = buf"
  by (simp add: memcpy_to_def)

lemma length_mem_read [simp, buf_simps]:
  "off + n \<le> length buf \<Longrightarrow> length (mem_read buf off n) = n"
  by (simp add: mem_read_def)

lemma nth_memcpy_to:
  assumes "off + length bs \<le> length buf" "i < length buf"
  shows "memcpy_to buf off bs ! i =
           (if off \<le> i \<and> i < off + length bs then bs ! (i - off) else buf ! i)"
  using assms by (auto simp: memcpy_to_def nth_append min_def)

lemma nth_mem_read [simp]:
  "i < n \<Longrightarrow> off + n \<le> length buf \<Longrightarrow> mem_read buf off n ! i = buf ! (off + i)"
  by (simp add: mem_read_def)

lemma mem_read_memcpy_same [buf_simps]:
  "off + length bs \<le> length buf \<Longrightarrow> n = length bs \<Longrightarrow> mem_read (memcpy_to buf off bs) off n = bs"
  by (simp add: mem_read_def memcpy_to_def)

lemma mem_read_memcpy_sub [buf_simps]:
  assumes "p \<le> length buf" "i + n \<le> length bs"
  shows "mem_read (memcpy_to buf p bs) (p + i) n = mem_read bs i n"
  using assms by (simp add: mem_read_def memcpy_to_def)

lemma memcpy_to_append [buf_simps]:
  assumes "p \<le> length buf"
  shows "memcpy_to (memcpy_to buf p xs) (p + length xs) ys = memcpy_to buf p (xs @ ys)"
  using assms by (simp add: memcpy_to_def ac_simps)

lemma mem_read_append:
  "mem_read buf p (m + n) = mem_read buf p m @ mem_read buf (p + m) n"
  by (simp add: mem_read_def take_add ac_simps)

lemma memcpy_to_mem_read [buf_simps]:
  "p + n \<le> length buf \<Longrightarrow> memcpy_to buf p (mem_read buf p n) = buf"
  by (intro nth_equalityI) (auto simp: nth_memcpy_to)

lemma mem_read_memcpy_other [buf_simps]:
  assumes "off + length bs \<le> length buf" "p + n \<le> length buf"
    and "p + n \<le> off \<or> off + length bs \<le> p"
  shows "mem_read (memcpy_to buf off bs) p n = mem_read buf p n"
  using assms by (intro nth_equalityI) (auto simp: nth_memcpy_to)

lemma mem_read_here [simp]:
  "length xs = n \<Longrightarrow> mem_read (xs @ ys) 0 n = xs" "length xs = n \<Longrightarrow> mem_read xs 0 n = xs"
  by (simp_all add: mem_read_def)

lemma mem_read_skip: "length xs \<le> i \<Longrightarrow> mem_read (xs @ ys) i n = mem_read ys (i - length xs) n"
  by (simp add: mem_read_def)

lemma mem_read_Cons [simp]:
  "mem_read xs i 0 = []" "mem_read (x # xs) 0 (Suc n) = x # mem_read xs 0 n"
  "mem_read (x # xs) (Suc i) n = mem_read xs i n"
  by (simp_all add: mem_read_def)

section \<open>Runs and simulation\<close>

text \<open>
  A component with operations \<open>'e\<close> and observable results \<open>'r\<close> is a step function; \<open>run\<close> performs
  a sequence of operations. The locale states a forward simulation between a detailed and an
  abstract step function, for operations that satisfy \<open>ok\<close> in the detailed state; its lemma lifts
  the simulation to whole runs: same results, related final states.
\<close>

fun run :: "('s \<Rightarrow> 'e \<Rightarrow> 'r \<times> 's) \<Rightarrow> 's \<Rightarrow> 'e list \<Rightarrow> 'r list \<times> 's" where
  "run step s [] = ([], s)"
| "run step s (e # es) =
     (let (r, s') = step s e; (rs, s'') = run step s' es in (r # rs, s''))"

locale simulation =
  fixes R :: "'c \<Rightarrow> 'a \<Rightarrow> bool"
    and cstep :: "'c \<Rightarrow> 'e \<Rightarrow> 'r \<times> 'c"
    and astep :: "'a \<Rightarrow> 'e \<Rightarrow> 'r \<times> 'a"
    and ok :: "'e \<Rightarrow> bool"
  assumes sim: "R c a \<Longrightarrow> ok e \<Longrightarrow>
    fst (cstep c e) = fst (astep a e) \<and> R (snd (cstep c e)) (snd (astep a e))"
begin

lemma run_sim:
  "R c a \<Longrightarrow> \<forall>e\<in>set es. ok e \<Longrightarrow>
     fst (run cstep c es) = fst (run astep a es) \<and> R (snd (run cstep c es)) (snd (run astep a es))"
proof (induction es arbitrary: c a)
  case (Cons e es)
  from Cons.prems sim [of c a e]
  have "fst (cstep c e) = fst (astep a e)" "R (snd (cstep c e)) (snd (astep a e))" by simp_all
  with Cons.IH [of "snd (cstep c e)" "snd (astep a e)"] Cons.prems show ?case
    by (simp add: case_prod_unfold Let_def)
qed simp

end

text \<open>
  A loop that handles its inputs one by one and stops when a step does not return. A preorder that
  every step stays within holds between the first and the last state.
\<close>

locale event_loop =
  fixes R :: "'s \<Rightarrow> 's \<Rightarrow> bool" and step :: "'s \<Rightarrow> 'e \<Rightarrow> 's option" and loop :: "'s \<Rightarrow> 'e list \<Rightarrow> 's option"
  assumes R_refl: "R s s" and R_trans: "R s s' \<Longrightarrow> R s' s'' \<Longrightarrow> R s s''"
    and loop_Nil: "loop s [] = Some s"
    and loop_Cons: "loop s (e # es) = (case step s e of None \<Rightarrow> None | Some s' \<Rightarrow> loop s' es)"
    and step_R: "step s e = Some s' \<Longrightarrow> R s s'"
begin

lemma loop_R: "loop s es = Some s' \<Longrightarrow> R s s'"
proof (induction es arbitrary: s)
  case (Cons e es)
  then obtain s1 where "step s e = Some s1" "loop s1 es = Some s'"
    by (auto simp: loop_Cons split: option.splits)
  with Cons.IH R_trans step_R show ?case by blast
qed (simp add: loop_Nil R_refl)

end

end
