(* ===== verification/Wire.thy ===== *)
theory Wire
  imports Prelude
begin

text \<open>
  The wire codecs: \<open>CBuffTool\<close> of \<^verbatim>\<open>mmlib/util/util.cpp\<close> and the three packet headers,
  \<open>BusHeader\<close> (\<^verbatim>\<open>include/bus_header.h\<close>), \<open>XYHeader\<close> and \<open>XYHeaderIn\<close>
  (\<^verbatim>\<open>include/header.h\<close>). A write takes the buffer, the position the C++ pointer
  \<open>Buff + Offset\<close> denotes and the value; it returns the new buffer and the number of bytes the
  C++ function returns. A read returns the value and that number. For every header the theory
  gives its byte image, the closed form of \<open>Write\<close> and \<open>Read\<close>, and both round trips.
\<close>

section \<open>Byte order\<close>

text \<open>On a little-endian host \<open>htons\<close> and \<open>htonl\<close> reverse the bytes of the object.\<close>

definition htons :: "u16 \<Rightarrow> u16" where
  "htons v = le_word (rev (le_bytes 2 v))"

definition htonl :: "u32 \<Rightarrow> u32" where
  "htonl v = le_word (rev (le_bytes 4 v))"

definition htonll :: "u64 \<Rightarrow> u64" where
  "htonll llHost =
     (let tmpLow = push_bit 32 (ucast (htonl (ucast llHost)) :: u64);
          tmpHigh = ucast (htonl (ucast (drop_bit 32 llHost))) :: u64
      in tmpLow OR tmpHigh)"

definition ntohll :: "u64 \<Rightarrow> u64" where
  "ntohll llNet =
     (let tmpLow = push_bit 32 (ucast (htonl (ucast llNet)) :: u64);
          tmpHigh = ucast (htonl (ucast (drop_bit 32 llNet))) :: u64
      in tmpLow OR tmpHigh)"

section \<open>CBuffTool\<close>

definition ReadByte :: "byte list \<Rightarrow> nat \<Rightarrow> byte \<times> nat" where
  "ReadByte buf p = (le_word (mem_read buf p 1), 1)"

definition WriteByte :: "byte list \<Rightarrow> nat \<Rightarrow> byte \<Rightarrow> byte list \<times> nat" where
  "WriteByte buf p ucVal = (memcpy_to buf p (le_bytes 1 ucVal), 1)"

definition ReadShort :: "byte list \<Rightarrow> nat \<Rightarrow> int \<Rightarrow> u16 \<times> nat" where
  "ReadShort buf p iToHostOrder =
     (let v = le_word (mem_read buf p 2) in (if iToHostOrder = 1 then htons v else v, 2))"

definition WriteShort :: "byte list \<Rightarrow> nat \<Rightarrow> u16 \<Rightarrow> int \<Rightarrow> byte list \<times> nat" where
  "WriteShort buf p ushVal iToNetOrder =
     (memcpy_to buf p (le_bytes 2 (if iToNetOrder = 1 then htons ushVal else ushVal)), 2)"

definition ReadInt :: "byte list \<Rightarrow> nat \<Rightarrow> int \<Rightarrow> u32 \<times> nat" where
  "ReadInt buf p iToHostOrder =
     (let v = le_word (mem_read buf p 4) in (if iToHostOrder = 1 then htonl v else v, 4))"

definition WriteInt :: "byte list \<Rightarrow> nat \<Rightarrow> u32 \<Rightarrow> int \<Rightarrow> byte list \<times> nat" where
  "WriteInt buf p uiVal iToNetOrder =
     (memcpy_to buf p (le_bytes 4 (if iToNetOrder = 1 then htonl uiVal else uiVal)), 4)"

text \<open>\<open>long\<close> values travel as 32-bit integers: the write truncates, the read zero-extends.\<close>

definition ReadLong :: "byte list \<Rightarrow> nat \<Rightarrow> int \<Rightarrow> u64 \<times> nat" where
  "ReadLong buf p iToHostOrder =
     (let uiVal = le_word (mem_read buf p 4) :: u32;
          uiVal = (if iToHostOrder = 1 then htonl uiVal else uiVal)
      in (ucast uiVal, 4))"

definition WriteLong :: "byte list \<Rightarrow> nat \<Rightarrow> u64 \<Rightarrow> int \<Rightarrow> byte list \<times> nat" where
  "WriteLong buf p ulVal iToNetOrder =
     (let uiVal = ucast ulVal :: u32
      in (memcpy_to buf p (le_bytes 4 (if iToNetOrder = 1 then htonl uiVal else uiVal)), 4))"

definition ReadLongLong :: "byte list \<Rightarrow> nat \<Rightarrow> int \<Rightarrow> u64 \<times> nat" where
  "ReadLongLong buf p iToHostOrder =
     (let v = le_word (mem_read buf p 8) in (if iToHostOrder = 1 then ntohll v else v, 8))"

definition WriteLongLong :: "byte list \<Rightarrow> nat \<Rightarrow> u64 \<Rightarrow> int \<Rightarrow> byte list \<times> nat" where
  "WriteLongLong buf p ullVal iToNetOrder =
     (memcpy_to buf p (le_bytes 8 (if iToNetOrder = 1 then htonll ullVal else ullVal)), 8)"

definition ReadBuf :: "byte list \<Rightarrow> nat \<Rightarrow> nat \<Rightarrow> byte list \<times> nat" where
  "ReadBuf buf p iLen = (mem_read buf p iLen, iLen)"

definition WriteBuf :: "byte list \<Rightarrow> nat \<Rightarrow> byte list \<Rightarrow> nat \<Rightarrow> byte list \<times> nat" where
  "WriteBuf buf p src iLen = (memcpy_to buf p (take iLen src), iLen)"

lemmas bufftool_defs = ReadByte_def WriteByte_def ReadShort_def WriteShort_def ReadInt_def
  WriteInt_def ReadLong_def WriteLong_def ReadLongLong_def WriteLongLong_def ReadBuf_def
  WriteBuf_def

section \<open>The headers\<close>

record BusHeader =
  bh_PkgLen :: u32
  bh_CmdID :: u32
  bh_SrcID :: u32
  bh_DstID :: u32
  bh_PkgTime :: u64
  bh_SendType :: byte
  bh_Flag :: byte

definition BusHeader_new :: BusHeader where
  "BusHeader_new = \<lparr>bh_PkgLen = 0, bh_CmdID = 0, bh_SrcID = 0, bh_DstID = 0, bh_PkgTime = 0,
                    bh_SendType = 0, bh_Flag = 0\<rparr>"

definition BusHeader_GetHeaderLen :: nat where
  "BusHeader_GetHeaderLen = 26"

definition BusHeader_Write :: "BusHeader \<Rightarrow> byte list \<Rightarrow> nat \<Rightarrow> byte list \<times> nat" where
  "BusHeader_Write h Buff p =
     (let Offset = 0;
          (Buff, n) = WriteInt Buff (p + Offset) (bh_PkgLen h) 1; Offset = Offset + n;
          (Buff, n) = WriteInt Buff (p + Offset) (bh_CmdID h) 1; Offset = Offset + n;
          (Buff, n) = WriteInt Buff (p + Offset) (bh_SrcID h) 1; Offset = Offset + n;
          (Buff, n) = WriteInt Buff (p + Offset) (bh_DstID h) 1; Offset = Offset + n;
          (Buff, n) = WriteLongLong Buff (p + Offset) (bh_PkgTime h) 0; Offset = Offset + n;
          (Buff, n) = WriteByte Buff (p + Offset) (bh_SendType h); Offset = Offset + n;
          (Buff, n) = WriteByte Buff (p + Offset) (bh_Flag h); Offset = Offset + n
      in (Buff, Offset))"

definition BusHeader_Read :: "byte list \<Rightarrow> nat \<Rightarrow> BusHeader \<times> nat" where
  "BusHeader_Read Buff p =
     (let Offset = 0;
          (PkgLen, n) = ReadInt Buff (p + Offset) 1; Offset = Offset + n;
          (CmdID, n) = ReadInt Buff (p + Offset) 1; Offset = Offset + n;
          (SrcID, n) = ReadInt Buff (p + Offset) 1; Offset = Offset + n;
          (DstID, n) = ReadInt Buff (p + Offset) 1; Offset = Offset + n;
          (PkgTime, n) = ReadLongLong Buff (p + Offset) 0; Offset = Offset + n;
          (SendType, n) = ReadByte Buff (p + Offset); Offset = Offset + n;
          (Flag, n) = ReadByte Buff (p + Offset); Offset = Offset + n
      in (\<lparr>bh_PkgLen = PkgLen, bh_CmdID = CmdID, bh_SrcID = SrcID, bh_DstID = DstID,
           bh_PkgTime = PkgTime, bh_SendType = SendType, bh_Flag = Flag\<rparr>, Offset))"

record XYHeader =
  xh_PkgLen :: u32
  xh_CmdID :: u32
  xh_SN :: u32
  xh_CkSum :: u16
  xh_Ret :: u16
  xh_Compresse :: byte

definition XYHeader_new :: XYHeader where
  "XYHeader_new = \<lparr>xh_PkgLen = 0, xh_CmdID = 0, xh_SN = 0, xh_CkSum = 0, xh_Ret = 0,
                   xh_Compresse = 0\<rparr>"

definition XYHeader_GetHeadLen :: nat where
  "XYHeader_GetHeadLen = 17"

definition XYHeader_Write :: "XYHeader \<Rightarrow> byte list \<Rightarrow> nat \<Rightarrow> byte list \<times> nat" where
  "XYHeader_Write h Buff p =
     (let Offset = 0;
          (Buff, n) = WriteInt Buff (p + Offset) (xh_PkgLen h) 1; Offset = Offset + n;
          (Buff, n) = WriteInt Buff (p + Offset) (xh_CmdID h) 1; Offset = Offset + n;
          (Buff, n) = WriteInt Buff (p + Offset) (xh_SN h) 1; Offset = Offset + n;
          (Buff, n) = WriteShort Buff (p + Offset) (xh_CkSum h) 1; Offset = Offset + n;
          (Buff, n) = WriteShort Buff (p + Offset) (xh_Ret h) 1; Offset = Offset + n;
          (Buff, n) = WriteByte Buff (p + Offset) (xh_Compresse h); Offset = Offset + n
      in (Buff, Offset))"

definition XYHeader_Read :: "byte list \<Rightarrow> nat \<Rightarrow> XYHeader \<times> nat" where
  "XYHeader_Read Buff p =
     (let Offset = 0;
          (PkgLen, n) = ReadInt Buff (p + Offset) 1; Offset = Offset + n;
          (CmdID, n) = ReadInt Buff (p + Offset) 1; Offset = Offset + n;
          (SN, n) = ReadInt Buff (p + Offset) 1; Offset = Offset + n;
          (CkSum, n) = ReadShort Buff (p + Offset) 1; Offset = Offset + n;
          (Ret, n) = ReadShort Buff (p + Offset) 1; Offset = Offset + n;
          (Compresse, n) = ReadByte Buff (p + Offset); Offset = Offset + n
      in (\<lparr>xh_PkgLen = PkgLen, xh_CmdID = CmdID, xh_SN = SN, xh_CkSum = CkSum, xh_Ret = Ret,
           xh_Compresse = Compresse\<rparr>, Offset))"

record XYHeaderIn =
  hi_SrcID :: u32
  hi_CmdID :: u32
  hi_SN :: u32
  hi_ConnPos :: u32
  hi_UserID :: u64
  hi_PkgTime :: u64
  hi_Ret :: u16

definition XYHeaderIn_new :: XYHeaderIn where
  "XYHeaderIn_new = \<lparr>hi_SrcID = 0, hi_CmdID = 0, hi_SN = 0, hi_ConnPos = 0, hi_UserID = 0,
                     hi_PkgTime = 0, hi_Ret = 0\<rparr>"

definition XYHeaderIn_GetHeaderLen :: nat where
  "XYHeaderIn_GetHeaderLen = 34"

definition XYHeaderIn_Write :: "XYHeaderIn \<Rightarrow> byte list \<Rightarrow> nat \<Rightarrow> byte list \<times> nat" where
  "XYHeaderIn_Write h Buff p =
     (let Offset = 0;
          (Buff, n) = WriteInt Buff (p + Offset) (hi_SrcID h) 1; Offset = Offset + n;
          (Buff, n) = WriteInt Buff (p + Offset) (hi_CmdID h) 1; Offset = Offset + n;
          (Buff, n) = WriteInt Buff (p + Offset) (hi_SN h) 1; Offset = Offset + n;
          (Buff, n) = WriteInt Buff (p + Offset) (hi_ConnPos h) 1; Offset = Offset + n;
          (Buff, n) = WriteLongLong Buff (p + Offset) (hi_UserID h) 0; Offset = Offset + n;
          (Buff, n) = WriteLongLong Buff (p + Offset) (hi_PkgTime h) 0; Offset = Offset + n;
          (Buff, n) = WriteShort Buff (p + Offset) (hi_Ret h) 1; Offset = Offset + n
      in (Buff, Offset))"

definition XYHeaderIn_Read :: "byte list \<Rightarrow> nat \<Rightarrow> XYHeaderIn \<times> nat" where
  "XYHeaderIn_Read Buff p =
     (let Offset = 0;
          (SrcID, n) = ReadInt Buff (p + Offset) 1; Offset = Offset + n;
          (CmdID, n) = ReadInt Buff (p + Offset) 1; Offset = Offset + n;
          (SN, n) = ReadInt Buff (p + Offset) 1; Offset = Offset + n;
          (ConnPos, n) = ReadInt Buff (p + Offset) 1; Offset = Offset + n;
          (UserID, n) = ReadLongLong Buff (p + Offset) 0; Offset = Offset + n;
          (PkgTime, n) = ReadLongLong Buff (p + Offset) 0; Offset = Offset + n;
          (Ret, n) = ReadShort Buff (p + Offset) 1; Offset = Offset + n
      in (\<lparr>hi_SrcID = SrcID, hi_CmdID = CmdID, hi_SN = SN, hi_ConnPos = ConnPos,
           hi_UserID = UserID, hi_PkgTime = PkgTime, hi_Ret = Ret\<rparr>, Offset))"

text \<open>
  \<open>CoverToXYHeader(int PkgLen)\<close>: the client header of an internal packet of \<open>PkgLen\<close> bytes.
  The length is computed in \<open>int\<close> and stored in an unsigned field.
\<close>

definition CoverToXYHeader :: "XYHeaderIn \<Rightarrow> int \<Rightarrow> XYHeader" where
  "CoverToXYHeader h PkgLen = XYHeader_new
     \<lparr>xh_PkgLen := word_of_int (PkgLen - int XYHeaderIn_GetHeaderLen + int XYHeader_GetHeadLen),
      xh_CmdID := hi_CmdID h, xh_SN := hi_SN h, xh_Ret := hi_Ret h\<rparr>"

section \<open>Byte-order lemmas\<close>

lemma htons_htons [simp]: "htons (htons v) = v"
  by (simp add: htons_def le_bytes_le_word)

lemma htonl_htonl [simp]: "htonl (htonl v) = v"
  by (simp add: htonl_def le_bytes_le_word)

lemma htonll_eq_ntohll: "htonll = ntohll"
  by (simp add: htonll_def ntohll_def fun_eq_iff)

lemma htonll_low: "ucast (htonll v) = htonl (ucast (drop_bit 32 v))"
  by (rule bit_word_eqI) (auto simp: htonll_def bit_simps)

lemma htonll_high: "ucast (drop_bit 32 (htonll v)) = htonl (ucast v)"
proof (rule bit_word_eqI)
  fix k assume k: "k < LENGTH(32)"
  have "\<not> bit (htonl (ucast (drop_bit 32 v))) (32 + k)"
    by (auto dest: bit_imp_le_length)
  with k show "bit (ucast (drop_bit 32 (htonll v)) :: u32) k \<longleftrightarrow> bit (htonl (ucast v)) k"
    by (auto simp: htonll_def bit_simps)
qed

lemma ntohll_htonll [simp]: "ntohll (htonll v) = v"
proof -
  have "ntohll (htonll v) = push_bit 32 (ucast (ucast (drop_bit 32 v) :: u32)) OR ucast (ucast v :: u32)"
    unfolding ntohll_def Let_def htonll_low htonll_high by simp
  also have "\<dots> = v"
    by (rule bit_word_eqI) (auto simp: bit_simps)
  finally show ?thesis .
qed

section \<open>Closed forms\<close>

text \<open>The byte image of each header; the integers are big-endian, the times are not swapped.\<close>

definition be4 :: "u32 \<Rightarrow> byte list" where
  "be4 v = le_bytes 4 (htonl v)"

definition be2 :: "u16 \<Rightarrow> byte list" where
  "be2 v = le_bytes 2 (htons v)"

definition BusHeader_bytes :: "BusHeader \<Rightarrow> byte list" where
  "BusHeader_bytes h = be4 (bh_PkgLen h) @ be4 (bh_CmdID h) @ be4 (bh_SrcID h) @ be4 (bh_DstID h)
     @ le_bytes 8 (bh_PkgTime h) @ le_bytes 1 (bh_SendType h) @ le_bytes 1 (bh_Flag h)"

definition XYHeader_bytes :: "XYHeader \<Rightarrow> byte list" where
  "XYHeader_bytes h = be4 (xh_PkgLen h) @ be4 (xh_CmdID h) @ be4 (xh_SN h) @ be2 (xh_CkSum h)
     @ be2 (xh_Ret h) @ le_bytes 1 (xh_Compresse h)"

definition XYHeaderIn_bytes :: "XYHeaderIn \<Rightarrow> byte list" where
  "XYHeaderIn_bytes h = be4 (hi_SrcID h) @ be4 (hi_CmdID h) @ be4 (hi_SN h) @ be4 (hi_ConnPos h)
     @ le_bytes 8 (hi_UserID h) @ le_bytes 8 (hi_PkgTime h) @ be2 (hi_Ret h)"

lemma length_be [simp]: "length (be4 v) = 4" "length (be2 s) = 2"
  by (simp_all add: be4_def be2_def)

lemma le_word_be [simp]: "htonl (le_word (be4 v)) = v" "htons (le_word (be2 s)) = s"
  by (simp_all add: be4_def be2_def)

lemma be_le_word: "length bs = 4 \<Longrightarrow> be4 (htonl (le_word bs)) = bs"
  "length cs = 2 \<Longrightarrow> be2 (htons (le_word cs)) = cs"
  by (simp_all add: be4_def be2_def le_bytes_le_word)

lemma le_bytes1_byte [simp]: "le_bytes 1 (b :: byte) = [b]" "le_bytes (Suc 0) (b :: byte) = [b]"
  by (simp_all add: le_bytes_def)

lemma length_header_bytes [simp]:
  "length (BusHeader_bytes h) = 26" "length (XYHeader_bytes x) = 17" "length (XYHeaderIn_bytes i) = 34"
  by (simp_all add: BusHeader_bytes_def XYHeader_bytes_def XYHeaderIn_bytes_def)

text \<open>A sequence of field writes is one write of the concatenated fields.\<close>

lemma memcpy_to_next:
  "p \<le> length buf \<Longrightarrow> q = p + length xs \<Longrightarrow>
     memcpy_to (memcpy_to buf p xs) q ys = memcpy_to buf p (xs @ ys)"
  by (simp add: memcpy_to_append)

lemma BusHeader_Write_eq [wire_defs]:
  "p \<le> length Buff \<Longrightarrow> BusHeader_Write h Buff p = (memcpy_to Buff p (BusHeader_bytes h), 26)"
  by (simp add: BusHeader_Write_def BusHeader_bytes_def bufftool_defs be4_def memcpy_to_next)

lemma XYHeader_Write_eq [wire_defs]:
  "p \<le> length Buff \<Longrightarrow> XYHeader_Write x Buff p = (memcpy_to Buff p (XYHeader_bytes x), 17)"
  by (simp add: XYHeader_Write_def XYHeader_bytes_def bufftool_defs be4_def be2_def memcpy_to_next)

lemma XYHeaderIn_Write_eq [wire_defs]:
  "p \<le> length Buff \<Longrightarrow> XYHeaderIn_Write i Buff p = (memcpy_to Buff p (XYHeaderIn_bytes i), 34)"
  by (simp add: XYHeaderIn_Write_def XYHeaderIn_bytes_def bufftool_defs be4_def be2_def
      memcpy_to_next)

text \<open>Reading a header depends only on the bytes it occupies.\<close>

lemma mem_read_slice:
  "i + n \<le> m \<Longrightarrow> mem_read (mem_read buf p m) i n = mem_read buf (p + i) n"
  by (simp add: mem_read_def min_def ac_simps drop_take)

lemma BusHeader_Read_eq:
  "BusHeader_Read buf p =
     (\<lparr>bh_PkgLen = htonl (le_word (mem_read buf p 4)),
       bh_CmdID = htonl (le_word (mem_read buf (p + 4) 4)),
       bh_SrcID = htonl (le_word (mem_read buf (p + 8) 4)),
       bh_DstID = htonl (le_word (mem_read buf (p + 12) 4)),
       bh_PkgTime = le_word (mem_read buf (p + 16) 8),
       bh_SendType = le_word (mem_read buf (p + 24) 1),
       bh_Flag = le_word (mem_read buf (p + 25) 1)\<rparr>, 26)"
  by (simp add: BusHeader_Read_def bufftool_defs, simp add: add.commute)

lemma XYHeader_Read_eq:
  "XYHeader_Read buf p =
     (\<lparr>xh_PkgLen = htonl (le_word (mem_read buf p 4)),
       xh_CmdID = htonl (le_word (mem_read buf (p + 4) 4)),
       xh_SN = htonl (le_word (mem_read buf (p + 8) 4)),
       xh_CkSum = htons (le_word (mem_read buf (p + 12) 2)),
       xh_Ret = htons (le_word (mem_read buf (p + 14) 2)),
       xh_Compresse = le_word (mem_read buf (p + 16) 1)\<rparr>, 17)"
  by (simp add: XYHeader_Read_def bufftool_defs, simp add: add.commute)

lemma XYHeaderIn_Read_eq:
  "XYHeaderIn_Read buf p =
     (\<lparr>hi_SrcID = htonl (le_word (mem_read buf p 4)),
       hi_CmdID = htonl (le_word (mem_read buf (p + 4) 4)),
       hi_SN = htonl (le_word (mem_read buf (p + 8) 4)),
       hi_ConnPos = htonl (le_word (mem_read buf (p + 12) 4)),
       hi_UserID = le_word (mem_read buf (p + 16) 8),
       hi_PkgTime = le_word (mem_read buf (p + 24) 8),
       hi_Ret = htons (le_word (mem_read buf (p + 32) 2))\<rparr>, 34)"
  by (simp add: XYHeaderIn_Read_def bufftool_defs)

lemma BusHeader_Read_slice: "BusHeader_Read buf p = BusHeader_Read (mem_read buf p 26) 0"
  by (simp add: BusHeader_Read_eq mem_read_slice)

lemma XYHeader_Read_slice: "XYHeader_Read buf p = XYHeader_Read (mem_read buf p 17) 0"
  by (simp add: XYHeader_Read_eq mem_read_slice)

lemma XYHeaderIn_Read_slice: "XYHeaderIn_Read buf p = XYHeaderIn_Read (mem_read buf p 34) 0"
  by (simp add: XYHeaderIn_Read_eq mem_read_slice)

lemma snd_Read [simp]:
  "snd (BusHeader_Read buf p) = 26" "snd (XYHeader_Read buf p) = 17" "snd (XYHeaderIn_Read buf p) = 34"
  by (simp_all add: BusHeader_Read_eq XYHeader_Read_eq XYHeaderIn_Read_eq)

lemma le_word_single [simp]: "le_word [b] = (b :: byte)"
  by simp

lemma BusHeader_Read_bytes [simp]: "BusHeader_Read (BusHeader_bytes h) 0 = (h, 26)"
  by (simp add: BusHeader_Read_eq BusHeader_bytes_def mem_read_skip)

lemma XYHeader_Read_bytes [simp]: "XYHeader_Read (XYHeader_bytes x) 0 = (x, 17)"
  by (simp add: XYHeader_Read_eq XYHeader_bytes_def mem_read_skip)

lemma XYHeaderIn_Read_bytes [simp]: "XYHeaderIn_Read (XYHeaderIn_bytes i) 0 = (i, 34)"
  by (simp add: XYHeaderIn_Read_eq XYHeaderIn_bytes_def mem_read_skip)

text \<open>
  The codec interface the packet handlers rely on: a header type with a fixed width, whose write
  fills exactly that many bytes with its image and whose read inverts the image and looks at
  nothing else. The lemmas of the locale hold for the three headers alike.
\<close>

locale header_codec =
  fixes enc :: "'h \<Rightarrow> byte list"
    and wr :: "'h \<Rightarrow> byte list \<Rightarrow> nat \<Rightarrow> byte list \<times> nat"
    and rd :: "byte list \<Rightarrow> nat \<Rightarrow> 'h \<times> nat"
    and width :: nat
  assumes enc_width: "length (enc h) = width"
    and wr_enc: "p \<le> length buf \<Longrightarrow> wr h buf p = (memcpy_to buf p (enc h), width)"
    and rd_enc: "rd (enc h) 0 = (h, width)"
    and rd_local: "rd buf p = rd (mem_read buf p width) 0"
begin

lemma rd_cong: "mem_read b p width = mem_read c q width \<Longrightarrow> rd b p = rd c q"
  using rd_local by metis

lemma rd_wr: "p + width \<le> length buf \<Longrightarrow> rd (fst (wr h buf p)) p = (h, width)"
  by (subst rd_local) (simp add: wr_enc mem_read_memcpy_same enc_width rd_enc)

lemma wr_frame:
  assumes "p + width \<le> length buf"
  shows "length (fst (wr h buf p)) = length buf"
    and "take p (fst (wr h buf p)) = take p buf"
    and "drop (p + width) (fst (wr h buf p)) = drop (p + width) buf"
  using assms by (simp_all add: wr_enc enc_width memcpy_to_def)

lemma wr_wr: "p + width \<le> length buf \<Longrightarrow> fst (wr h (fst (wr k buf p)) p) = fst (wr h buf p)"
  by (simp add: wr_enc enc_width memcpy_to_def)

lemma rd_packet: "rd (enc h @ body) 0 = (h, width)"
  by (subst rd_local) (simp add: mem_read_def enc_width rd_enc)

end

interpretation bush: header_codec BusHeader_bytes BusHeader_Write BusHeader_Read 26
  by unfold_locales (simp_all add: wire_defs flip: BusHeader_Read_slice)

interpretation xyh: header_codec XYHeader_bytes XYHeader_Write XYHeader_Read 17
  by unfold_locales (simp_all add: wire_defs flip: XYHeader_Read_slice)

interpretation xyin: header_codec XYHeaderIn_bytes XYHeaderIn_Write XYHeaderIn_Read 34
  by unfold_locales (simp_all add: wire_defs flip: XYHeaderIn_Read_slice)

text \<open>The other direction: writing back what was read restores the bytes.\<close>

lemma BusHeader_bytes_Read:
  assumes "p + 26 \<le> length buf"
  shows "BusHeader_bytes (fst (BusHeader_Read buf p)) = mem_read buf p 26"
proof -
  have "p + 24 + 1 = p + 25" by simp
  then have "mem_read buf (p + 24) 2 = mem_read buf (p + 24) 1 @ mem_read buf (p + 25) 1"
    using mem_read_append one_add_one by metis
  then have "mem_read buf p 26 = mem_read buf p 4 @ mem_read buf (p + 4) 4 @ mem_read buf (p + 8) 4
      @ mem_read buf (p + 12) 4 @ mem_read buf (p + 16) 8 @ mem_read buf (p + 24) 1
      @ mem_read buf (p + 25) 1"
    using mem_read_append [of buf p 4 22] mem_read_append [of buf "p + 4" 4 18]
      mem_read_append [of buf "p + 8" 4 14] mem_read_append [of buf "p + 12" 4 10]
      mem_read_append [of buf "p + 16" 8 2]
    by (simp add: add.assoc)
  then show ?thesis
    using assms by (simp add: BusHeader_Read_eq BusHeader_bytes_def be_le_word le_bytes_le_word
        del: le_bytes1_byte)
qed

section \<open>Properties\<close>

text \<open>
  C27: the bus header codec round-trips. \<open>Write\<close> at any position with room for the header
  reports \<open>GetHeaderLen()\<close> bytes, changes no byte outside them, and \<open>Read\<close> there returns exactly
  the header written; conversely writing back a header that was read leaves the buffer as it was.
\<close>

theorem BusHeader_roundtrip:
  assumes "p + BusHeader_GetHeaderLen \<le> length buf"
  shows "snd (BusHeader_Write h buf p) = BusHeader_GetHeaderLen
    \<and> BusHeader_Read (fst (BusHeader_Write h buf p)) p = (h, BusHeader_GetHeaderLen)
    \<and> length (fst (BusHeader_Write h buf p)) = length buf
    \<and> take p (fst (BusHeader_Write h buf p)) = take p buf
    \<and> drop (p + BusHeader_GetHeaderLen) (fst (BusHeader_Write h buf p))
        = drop (p + BusHeader_GetHeaderLen) buf
    \<and> BusHeader_Write (fst (BusHeader_Read buf p)) buf p = (buf, BusHeader_GetHeaderLen)"
  using assms bush.rd_wr [of p buf h] bush.wr_frame [of p buf h] unfolding BusHeader_GetHeaderLen_def
  by (simp add: wire_defs BusHeader_bytes_Read memcpy_to_mem_read)

theorem BusHeader_roundtrip_witness:
  "BusHeader_Read (fst (BusHeader_Write (BusHeader_new\<lparr>bh_PkgLen := 30, bh_DstID := 401\<rparr>)
     (replicate 30 7) 2)) 2 = (BusHeader_new\<lparr>bh_PkgLen := 30, bh_DstID := 401\<rparr>, 26)"
proof -
  have "2 + BusHeader_GetHeaderLen \<le> length (replicate 30 (7::byte))"
    by (simp add: BusHeader_GetHeaderLen_def)
  from BusHeader_roundtrip [OF this, of "BusHeader_new\<lparr>bh_PkgLen := 30, bh_DstID := 401\<rparr>"]
  show ?thesis by (simp add: BusHeader_GetHeaderLen_def)
qed

text \<open>
  the client header and the internal header round-trip in the same way: \<open>Read\<close> after \<open>Write\<close>
  returns the header and the fixed length (17 and 34 bytes), and the rest of the buffer is kept.
\<close>

lemma XYHeaders_roundtrip:
  assumes "p + XYHeader_GetHeadLen \<le> length buf" and "q + XYHeaderIn_GetHeaderLen \<le> length buf'"
  shows "XYHeader_Read (fst (XYHeader_Write x buf p)) p = (x, XYHeader_GetHeadLen)
    \<and> take p (fst (XYHeader_Write x buf p)) = take p buf
    \<and> drop (p + XYHeader_GetHeadLen) (fst (XYHeader_Write x buf p))
        = drop (p + XYHeader_GetHeadLen) buf
    \<and> XYHeaderIn_Read (fst (XYHeaderIn_Write i buf' q)) q = (i, XYHeaderIn_GetHeaderLen)
    \<and> take q (fst (XYHeaderIn_Write i buf' q)) = take q buf'
    \<and> drop (q + XYHeaderIn_GetHeaderLen) (fst (XYHeaderIn_Write i buf' q))
        = drop (q + XYHeaderIn_GetHeaderLen) buf'"
  using assms unfolding XYHeader_GetHeadLen_def XYHeaderIn_GetHeaderLen_def
  by (simp add: xyh.rd_wr xyh.wr_frame xyin.rd_wr xyin.wr_frame)

lemma XYHeaders_roundtrip_witness:
  "XYHeader_Read (fst (XYHeader_Write XYHeader_new (replicate 20 1) 3)) 3 = (XYHeader_new, 17)"
proof -
  have a: "3 + XYHeader_GetHeadLen \<le> length (replicate 20 (1::byte))"
    and b: "0 + XYHeaderIn_GetHeaderLen \<le> length (replicate 34 (1::byte))"
    by (simp_all add: XYHeader_GetHeadLen_def XYHeaderIn_GetHeaderLen_def)
  from XYHeaders_roundtrip [OF a b, of XYHeader_new XYHeaderIn_new] show ?thesis
    by (simp add: XYHeader_GetHeadLen_def)
qed

text \<open>
  \<open>CoverToXYHeader\<close> gives the client packet its true length: the internal packet's length with
  the internal header replaced by the client header, for every packet that holds an internal header
  and is short enough for \<open>int\<close>; command, sequence number and return code are carried over.
\<close>

lemma CoverToXYHeader_len:
  assumes "34 \<le> n" "n < 2 ^ 31"
  shows "unat (xh_PkgLen (CoverToXYHeader h (int n))) = n - XYHeaderIn_GetHeaderLen + XYHeader_GetHeadLen
    \<and> xh_CmdID (CoverToXYHeader h (int n)) = hi_CmdID h
    \<and> xh_SN (CoverToXYHeader h (int n)) = hi_SN h
    \<and> xh_Ret (CoverToXYHeader h (int n)) = hi_Ret h"
proof -
  from assms(1) obtain m where n: "n = m + 34" by (metis add.commute le_Suc_ex)
  have "unat (word_of_int (int (m + 17)) :: u32) = m + 17"
    using assms n unat_u32_of_nat [of "m + 17"] by simp
  then show ?thesis
    by (simp add: n CoverToXYHeader_def XYHeaderIn_GetHeaderLen_def XYHeader_GetHeadLen_def)
qed

lemma CoverToXYHeader_len_witness:
  "unat (xh_PkgLen (CoverToXYHeader XYHeaderIn_new 40)) = 23"
  using CoverToXYHeader_len [of 40 XYHeaderIn_new]
  by (simp add: XYHeaderIn_GetHeaderLen_def XYHeader_GetHeadLen_def)

end
