(* ===== verification/Ring.thy ===== *)
theory Ring
  imports Prelude
begin

text \<open>
  Reading and writing a list as a ring: positions are taken modulo its length. The lemmas connect
  ring accesses with the one or two linear copies a C routine makes, and say what a ring holds
  after a block is appended behind the used region.
\<close>

definition ring_read :: "'a list \<Rightarrow> nat \<Rightarrow> nat \<Rightarrow> 'a list" where
  "ring_read d off k = map (\<lambda>i. d ! ((off + i) mod length d)) [0..<k]"

definition ring_write :: "'a list \<Rightarrow> nat \<Rightarrow> 'a list \<Rightarrow> 'a list" where
  "ring_write d off bs =
     map (\<lambda>j. let k = (j + length d - off) mod length d in if k < length bs then bs ! k else d ! j)
         [0..<length d]"

lemma length_ring [simp]:
  "length (ring_read d off k) = k" "length (ring_write d off bs) = length d"
  by (simp_all add: ring_read_def ring_write_def)

lemma nth_ring_read [simp]: "i < k \<Longrightarrow> ring_read d off k ! i = d ! ((off + i) mod length d)"
  by (simp add: ring_read_def)

lemma ring_read_0 [simp]: "ring_read d off 0 = []"
  by (simp add: ring_read_def)

lemma ring_read_linear: "off + k \<le> length d \<Longrightarrow> ring_read d off k = mem_read d off k"
  by (intro nth_equalityI) auto

lemma ring_read_mod [simp]: "ring_read d (off mod length d) k = ring_read d off k"
  by (simp add: ring_read_def mod_add_left_eq)

lemma ring_read_add: "ring_read d off (a + b) = ring_read d off a @ ring_read d (off + a) b"
  by (intro nth_equalityI) (auto simp: nth_append add.assoc)

lemma ring_read_wrap:
  assumes "off < length d" "k \<le> length d" "length d \<le> off + k"
  shows "ring_read d off k = mem_read d off (length d - off) @ mem_read d 0 (k - (length d - off))"
proof -
  let ?e = "length d - off"
  have "ring_read d off k = ring_read d off (?e + (k - ?e))" using assms by simp
  also have "\<dots> = ring_read d off ?e @ ring_read d (off + ?e) (k - ?e)"
    by (rule ring_read_add)
  also have "ring_read d (off + ?e) (k - ?e) = ring_read d 0 (k - ?e)"
    using assms ring_read_mod [of d "length d"] by simp
  finally show ?thesis using assms by (simp add: ring_read_linear)
qed

lemma ring_distance:
  assumes "h < n" "u \<le> n" "i < (n::nat)"
  shows "((h + i) mod n + n - (h + u) mod n) mod n = (if u \<le> i then i - u else n + i - u)"
proof -
  have a: "(h + i) mod n = (if h + i < n then h + i else h + i - n)"
    using assms by (auto simp: mod_if)
  have b: "(h + u) mod n = (if h + u < n then h + u else if h + u - n < n then h + u - n else 0)"
    using assms by (auto simp: mod_if)
  show ?thesis
    unfolding a b using assms by (auto simp: mod_if)
qed

lemma nth_ring_write:
  "j < length d \<Longrightarrow> ring_write d off bs ! j =
     (if (j + length d - off) mod length d < length bs then bs ! ((j + length d - off) mod length d)
      else d ! j)"
  by (simp add: ring_write_def Let_def)

lemma ring_read_append_block:
  assumes "h < length d" "u + length bs \<le> length d"
  shows "ring_read (ring_write d ((h + u) mod length d) bs) h (u + length bs) = ring_read d h u @ bs"
proof (rule nth_equalityI)
  fix i assume "i < length (ring_read (ring_write d ((h + u) mod length d) bs) h (u + length bs))"
  then have i: "i < u + length bs" by simp
  with assms have "i < length d" by simp
  moreover from this have "(h + i) mod length d < length d" by (intro mod_less_divisor) linarith
  ultimately show "ring_read (ring_write d ((h + u) mod length d) bs) h (u + length bs) ! i
      = (ring_read d h u @ bs) ! i"
    using i assms by (auto simp: nth_ring_write ring_distance nth_append)
qed simp

lemma ring_pos:
  assumes "j < n" "off < (n::nat)"
  shows "(j + n - off) mod n = (if off \<le> j then j - off else j + n - off)"
proof (cases "off \<le> j")
  case True
  then have "j + n - off = (j - off) + n" by simp
  with assms True show ?thesis by (simp del: Nat.add_diff_assoc2)
qed (use assms in simp)

lemma ring_write_linear:
  assumes "off + length bs \<le> length d" "off < length d"
  shows "memcpy_to d off bs = ring_write d off bs"
proof (rule nth_equalityI)
  fix j assume "j < length (memcpy_to d off bs)"
  then have j: "j < length d" using assms by simp
  from j assms show "memcpy_to d off bs ! j = ring_write d off bs ! j"
    by (auto simp: nth_memcpy_to nth_ring_write ring_pos)
qed (use assms in simp)

lemma ring_write_wrap:
  assumes "off < length d" "length bs \<le> length d" "length d \<le> off + length bs"
  shows "memcpy_to (memcpy_to d off (take (length d - off) bs)) 0 (drop (length d - off) bs)
           = ring_write d off bs"
proof (rule nth_equalityI)
  let ?l = "memcpy_to (memcpy_to d off (take (length d - off) bs)) 0 (drop (length d - off) bs)"
  fix j assume "j < length ?l"
  then have j: "j < length d" using assms by simp
  from j assms show "?l ! j = ring_write d off bs ! j"
    by (auto simp: nth_memcpy_to nth_ring_write ring_pos add.commute)
qed (use assms in simp)

text \<open>A block that starts \<open>a\<close> positions after \<open>off\<close>, as the linear pieces a routine reads.\<close>

lemma ring_read_after:
  assumes "off < length d" "a + k \<le> length d"
  shows "ring_read d (off + a) k =
    (if off + a + k \<le> length d then mem_read d (off + a) k
     else if off + a < length d
     then mem_read d (off + a) (length d - off - a) @ mem_read d 0 (k - (length d - off - a))
     else mem_read d (off + a - length d) k)"
proof -
  have "ring_read d (off + a) k = ring_read d (off + a - length d) k" if "length d \<le> off + a"
    using that ring_read_mod [of d "off + a" k] ring_read_mod [of d "off + a - length d" k]
    by (simp add: le_mod_geq)
  then show ?thesis
    using assms by (auto simp: ring_read_linear ring_read_wrap)
qed

lemma ring_read_after_end:
  assumes "off + e = length d" "0 < e" "a + k \<le> length d"
  shows "ring_read d (off + a) k =
    (if a + k \<le> e then mem_read d (off + a) k
     else if a < e then mem_read d (off + a) (e - a) @ mem_read d 0 (k - (e - a))
     else mem_read d (a - e) k)"
proof -
  have eqs: "length d - off - a = e - a" "off + a - length d = a - e"
      "(off + a + k \<le> length d) = (a + k \<le> e)" "(off + a < length d) = (a < e)"
    using assms by linarith+
  have "off < length d" using assms by linarith
  from ring_read_after [OF this assms(3), unfolded eqs] show ?thesis .
qed

text \<open>The number of used positions between a head and a tail offset.\<close>

definition ring_used :: "nat \<Rightarrow> nat \<Rightarrow> nat \<Rightarrow> nat" where
  "ring_used n h t = (if h \<le> t then t - h else n - (h - t))"

lemma mod_wrap: "a < 2 * n \<Longrightarrow> a mod n = (if a < n then a else a - n)" for a n :: nat
  by (simp add: le_mod_geq)

lemma ring_used_less: "h < n \<Longrightarrow> t < n \<Longrightarrow> ring_used n h t < n"
  by (auto simp: ring_used_def)

lemma ring_used_tail: "h < n \<Longrightarrow> t < n \<Longrightarrow> (h + ring_used n h t) mod n = t"
  by (auto simp: ring_used_def)

lemma ring_used_add_tail:
  assumes "h < n" "t < n" "ring_used n h t + k < n"
  shows "ring_used n h ((t + k) mod n) = ring_used n h t + k"
  using assms mod_wrap [of "t + k" n] by (auto simp: ring_used_def split: if_splits)

lemma ring_used_add_head:
  assumes "h < n" "t < n" "k \<le> ring_used n h t"
  shows "ring_used n ((h + k) mod n) t = ring_used n h t - k"
  using assms mod_wrap [of "h + k" n] by (auto simp: ring_used_def split: if_splits)

end
