(* ===== verification/ShmQueue.thy ===== *)
theory ShmQueue
  imports Ring
begin

text \<open>
  The shared-memory message queue \<open>CShmQueue\<close> (\<^verbatim>\<open>mmlib/shm_queue/shm_queue.cpp\<close>), the channel
  between the bus and every server process. Messages are length-prefixed records in a byte ring;
  \<open>uiHead\<close> and \<open>uiTail\<close> are 32-bit offsets. The model keeps the ring as a byte list and every
  offset computation in 32-bit words. Semaphore results are arguments: \<open>lockret\<close> is what
  \<open>CSemLockPro::lock\<close> returns, consulted only when the caller asks for the lock.

  The theory shows that the ring refines a FIFO list of messages with a byte budget: \<open>sq_rel q ms\<close>
  relates a ring to the messages it holds, every operation is characterised on it, and the
  locale \<open>simulation\<close> is interpreted with the ring's steps against the abstract queue's.
\<close>

section \<open>State and constants\<close>

record shmqueue =
  uiHead :: u32
  uiTail :: u32
  qdata :: "byte list"
  m_QueueDataSize :: u32
  m_pMsgPeekBuf :: "byte list option"

definition SHM_SUCCESS :: int where "SHM_SUCCESS = 0"
definition E_SHM_QUEUE_SEMINIT :: int where "E_SHM_QUEUE_SEMINIT = -601"
definition E_SHM_QUEUE_AT_SHM :: int where "E_SHM_QUEUE_AT_SHM = -602"
definition E_SHM_QUEUE_GET_SHM :: int where "E_SHM_QUEUE_GET_SHM = -603"
definition E_SHM_QUEUE_FULL :: int where "E_SHM_QUEUE_FULL = -604"
definition E_SHM_QUEUE_EMPTY :: int where "E_SHM_QUEUE_EMPTY = -605"
definition E_SHM_QUEUE_DATALEN :: int where "E_SHM_QUEUE_DATALEN = -606"
definition E_SHM_QUEUE_INLOCK :: int where "E_SHM_QUEUE_INLOCK = -607"
definition E_SHM_QUEUE_OUTLOCK :: int where "E_SHM_QUEUE_OUTLOCK = -608"
definition E_SHM_QUEUE_PARAM :: int where "E_SHM_QUEUE_PARAM = -609"
definition E_SHM_QUEUE_MALLOC :: int where "E_SHM_QUEUE_MALLOC = -610"
definition E_SHM_QUEUE_INQUEUE_LEN :: int where "E_SHM_QUEUE_INQUEUE_LEN = -611"

lemmas shm_codes = SHM_SUCCESS_def E_SHM_QUEUE_SEMINIT_def E_SHM_QUEUE_AT_SHM_def
  E_SHM_QUEUE_GET_SHM_def E_SHM_QUEUE_FULL_def E_SHM_QUEUE_EMPTY_def E_SHM_QUEUE_DATALEN_def
  E_SHM_QUEUE_INLOCK_def E_SHM_QUEUE_OUTLOCK_def E_SHM_QUEUE_PARAM_def
  E_SHM_QUEUE_MALLOC_def E_SHM_QUEUE_INQUEUE_LEN_def

section \<open>Operations\<close>

text \<open>
  \<open>Init\<close>: \<open>create\<close>, \<open>attach\<close> and \<open>semcreat\<close> are what \<open>CShareMem::Create\<close>, \<open>Attach\<close> and
  \<open>CSemLockPro::creat\<close> return, \<open>mem\<close> the attached segment (its first eight bytes are the two
  offsets). A segment that already existed keeps its offsets, a new one starts at 0.
\<close>

datatype shm_create = ShmSuccess | ShmExist | ShmError

definition Queue_Init ::
  "shm_create \<Rightarrow> bool \<Rightarrow> byte list \<Rightarrow> bool \<Rightarrow> int \<times> shmqueue option" where
  "Queue_Init create attach mem semcreat =
     (let q = \<lparr>uiHead = le_word (mem_read mem 0 4), uiTail = le_word (mem_read mem 4 4),
               qdata = drop 8 mem, m_QueueDataSize = of_nat (length mem - 8),
               m_pMsgPeekBuf = None\<rparr>;
          fin = (\<lambda>q. if \<not> semcreat then (E_SHM_QUEUE_SEMINIT, None) else (SHM_SUCCESS, Some q))
      in case create of
           ShmExist \<Rightarrow> if \<not> attach then (E_SHM_QUEUE_AT_SHM, None) else fin q
         | ShmError \<Rightarrow> (E_SHM_QUEUE_GET_SHM, None)
         | ShmSuccess \<Rightarrow> if \<not> attach then (E_SHM_QUEUE_AT_SHM, None)
                        else fin (q\<lparr>uiHead := 0, uiTail := 0\<rparr>))"

definition FreeSpace :: "shmqueue \<Rightarrow> u32 \<Rightarrow> u32 \<Rightarrow> u32" where
  "FreeSpace q head tail =
     (if tail \<ge> head then m_QueueDataSize q - (tail - head) - 1 else head - tail - 1)"

definition UsedSpace :: "shmqueue \<Rightarrow> u32 \<Rightarrow> u32 \<Rightarrow> u32" where
  "UsedSpace q head tail =
     (if tail \<ge> head then tail - head else m_QueueDataSize q - (head - tail))"

definition AddOffset :: "shmqueue \<Rightarrow> u32 \<Rightarrow> u32 \<Rightarrow> u32" where
  "AddOffset q off sz = (off + sz) mod m_QueueDataSize q"

definition AddHead :: "shmqueue \<Rightarrow> u32 \<Rightarrow> shmqueue" where
  "AddHead q sz = q\<lparr>uiHead := AddOffset q (uiHead q) sz\<rparr>"

definition AddTail :: "shmqueue \<Rightarrow> u32 \<Rightarrow> shmqueue" where
  "AddTail q sz = q\<lparr>uiTail := AddOffset q (uiTail q) sz\<rparr>"

definition CopyDataInQueue :: "shmqueue \<Rightarrow> byte list \<Rightarrow> u32 \<Rightarrow> u32 \<Rightarrow> shmqueue" where
  "CopyDataInQueue q pData uiDataLen offset =
     (let end_free = m_QueueDataSize q - offset; lenb = le_bytes 4 uiDataLen; d = qdata q
      in if end_free \<ge> 4
         then let d = memcpy_to d (unat offset) lenb; end_free = end_free - 4
              in if end_free \<ge> uiDataLen
                 then q\<lparr>qdata := memcpy_to d (unat offset + 4) (mem_read pData 0 (unat uiDataLen))\<rparr>
                 else if end_free > 0
                 then let d = memcpy_to d (unat offset + 4) (mem_read pData 0 (unat end_free))
                      in q\<lparr>qdata := memcpy_to d 0
                             (mem_read pData (unat end_free) (unat (uiDataLen - end_free)))\<rparr>
                 else q\<lparr>qdata := memcpy_to d 0 (mem_read pData 0 (unat uiDataLen))\<rparr>
         else let remain_size = 4 - end_free;
                  d = memcpy_to d (unat offset) (mem_read lenb 0 (unat end_free));
                  d = memcpy_to d 0 (mem_read lenb (unat end_free) (unat remain_size))
              in q\<lparr>qdata := memcpy_to d (unat remain_size) (mem_read pData 0 (unat uiDataLen))\<rparr>)"

text \<open>
  \<open>CopyDataOutQueue\<close> returns the code, the caller's buffer, and the new \<open>*uiDataLen\<close>. The pointer
  \<open>p_data_start\<close> is an offset into the ring.
\<close>

definition CopyDataOutQueue ::
  "shmqueue \<Rightarrow> byte list \<Rightarrow> u32 \<Rightarrow> u32 \<Rightarrow> int \<times> byte list \<times> u32" where
  "CopyDataOutQueue q pData uiDataLen offset =
     (let d = qdata q; end_used = m_QueueDataSize q - offset;
          (len, p_data_start, end_used) =
            (if end_used \<ge> 4
             then let len = le_word (mem_read d (unat offset) 4); end_used = end_used - 4
                  in (len, if end_used = 0 then 0 else unat offset + 4, end_used)
             else let remain_size = 4 - end_used
                  in (le_word (mem_read d (unat offset) (unat end_used)
                        @ mem_read d 0 (unat remain_size)), unat remain_size, 0))
      in if len > uiDataLen then (E_SHM_QUEUE_DATALEN, pData, len)
         else if end_used \<ge> len
         then (SHM_SUCCESS, memcpy_to pData 0 (mem_read d p_data_start (unat len)), len)
         else if end_used > 0
         then let remain_size = len - end_used
              in (SHM_SUCCESS, memcpy_to (memcpy_to pData 0 (mem_read d p_data_start (unat end_used)))
                     (unat end_used) (mem_read d 0 (unat remain_size)), len)
         else (SHM_SUCCESS, memcpy_to pData 0 (mem_read d p_data_start (unat len)), len))"

definition DataLen :: "shmqueue \<Rightarrow> u32 \<Rightarrow> u32" where
  "DataLen q offset =
     (let end_used = m_QueueDataSize q - offset; d = qdata q
      in if end_used \<ge> 4 then le_word (mem_read d (unat offset) 4)
         else let remain_size = 4 - end_used
              in le_word (mem_read d (unat offset) (unat end_used) @ mem_read d 0 (unat remain_size)))"

definition InQueue :: "shmqueue \<Rightarrow> byte list \<Rightarrow> u32 \<Rightarrow> bool \<Rightarrow> int \<Rightarrow> int \<times> shmqueue" where
  "InQueue q pData uiDataLen lock lockret =
     (if lock \<and> lockret \<noteq> 0 then (E_SHM_QUEUE_INLOCK, q)
      else if uiDataLen = 0 then (E_SHM_QUEUE_INQUEUE_LEN, q)
      else let node_size = uiDataLen + 4
           in if node_size > FreeSpace q (uiHead q) (uiTail q) then (E_SHM_QUEUE_FULL, q)
              else (SHM_SUCCESS, AddTail (CopyDataInQueue q pData uiDataLen (uiTail q)) node_size))"

definition OutQueue ::
  "shmqueue \<Rightarrow> byte list \<Rightarrow> u32 \<Rightarrow> bool \<Rightarrow> int \<Rightarrow> int \<times> byte list \<times> u32 \<times> shmqueue" where
  "OutQueue q pData uiDataLen lock lockret =
     (if lock \<and> lockret \<noteq> 0 then (E_SHM_QUEUE_OUTLOCK, pData, uiDataLen, q)
      else let used_space = UsedSpace q (uiHead q) (uiTail q)
           in if used_space < 4 then (E_SHM_QUEUE_EMPTY, pData, uiDataLen, q)
              else let (iret, pData, uiDataLen) = CopyDataOutQueue q pData uiDataLen (uiHead q);
                       need_add_head = uiDataLen + 4
                   in if iret = E_SHM_QUEUE_DATALEN
                      then (iret, pData, uiDataLen, AddHead q need_add_head)
                      else (SHM_SUCCESS, pData, uiDataLen, AddHead q need_add_head))"

text \<open>The overload with a signed length: the length is only stored on success.\<close>

definition OutQueue_int ::
  "shmqueue \<Rightarrow> byte list \<Rightarrow> int \<Rightarrow> bool \<Rightarrow> int \<Rightarrow> int \<times> byte list \<times> int \<times> shmqueue" where
  "OutQueue_int q pData iDataLen lock lockret =
     (if iDataLen > 0
      then let (iret, pData, len, q) = OutQueue q pData (word_of_int iDataLen) lock lockret
           in if iret \<noteq> 0 then (iret, pData, iDataLen, q)
              else (SHM_SUCCESS, pData, sint len, q)
      else (E_SHM_QUEUE_PARAM, pData, iDataLen, q))"

text \<open>
  \<open>MsgPeek\<close> returns the message's bytes: those at \<open>*ppDate\<close>, which is either inside the ring or
  the private copy \<open>m_pMsgPeekBuf\<close> of a record that wraps. \<open>alloc\<close> says whether the call of \<open>malloc\<close> for the
  copy succeeds; when it does not, the old copy is gone and the length has been stored.
\<close>

definition MsgPeek :: "bool \<Rightarrow> shmqueue \<Rightarrow> int \<times> byte list \<times> u32 \<times> shmqueue" where
  "MsgPeek alloc q =
     (let used_space = UsedSpace q (uiHead q) (uiTail q); d = qdata q; h = uiHead q
      in if used_space < 4 then (E_SHM_QUEUE_EMPTY, [], 0, q)
         else let end_used = m_QueueDataSize q - h
              in if end_used \<ge> 4
                 then let len = le_word (mem_read d (unat h) 4); end_used = end_used - 4
                      in if end_used = 0 then (SHM_SUCCESS, mem_read d 0 (unat len), len, q)
                         else if end_used < len \<and> \<not> alloc
                         then (E_SHM_QUEUE_MALLOC, [], len, q\<lparr>m_pMsgPeekBuf := None\<rparr>)
                         else if end_used < len
                         then let remain_size = len - end_used;
                                  buf = mem_read d (unat h + 4) (unat end_used)
                                          @ mem_read d 0 (unat remain_size)
                              in (SHM_SUCCESS, buf, len, q\<lparr>m_pMsgPeekBuf := Some buf\<rparr>)
                         else (SHM_SUCCESS, mem_read d (unat h + 4) (unat len), len, q)
                 else let remain_size = 4 - end_used;
                          len = le_word (mem_read d (unat h) (unat end_used)
                                           @ mem_read d 0 (unat remain_size))
                      in (SHM_SUCCESS, mem_read d (unat remain_size) (unat len), len, q))"

definition ReleaseMsg :: "shmqueue \<Rightarrow> shmqueue" where
  "ReleaseMsg q =
     (let used_space = UsedSpace q (uiHead q) (uiTail q)
      in if used_space < 4 then q
         else (AddHead q (DataLen q (uiHead q) + 4))\<lparr>m_pMsgPeekBuf := None\<rparr>)"

text \<open>The two scanning loops; \<open>None\<close> is a scan that does not end.\<close>

partial_function (option) GetNum_loop :: "shmqueue \<Rightarrow> u32 \<Rightarrow> int \<Rightarrow> int option" where
  "GetNum_loop q offset_head num =
     (if UsedSpace q offset_head (uiTail q) \<ge> 4
      then GetNum_loop q (AddOffset q offset_head (DataLen q offset_head + 4)) (num + 1)
      else Some num)"

definition GetNum :: "shmqueue \<Rightarrow> int option" where
  "GetNum q = GetNum_loop q (uiHead q) 0"

definition queue_record :: "shmqueue \<Rightarrow> u32 \<Rightarrow> byte list" where
  "queue_record q offset_head =
     (let len = unat (DataLen q offset_head); sz = unat (m_QueueDataSize q); o1 = unat offset_head;
          d = qdata q
      in if o1 + 4 + len \<le> sz then mem_read d (o1 + 4) len
         else if o1 + 4 < sz
         then let end_len = sz - o1 - 4 in mem_read d (o1 + 4) end_len @ mem_read d 0 (len - end_len)
         else let start_len = 4 - (sz - o1) in mem_read d start_len len)"

partial_function (option) GetAll_loop ::
  "shmqueue \<Rightarrow> u32 \<Rightarrow> byte list list \<Rightarrow> byte list list option" where
  "GetAll_loop q offset_head vsAllData =
     (if UsedSpace q offset_head (uiTail q) \<ge> 4
      then GetAll_loop q (AddOffset q offset_head (DataLen q offset_head + 4))
             (vsAllData @ [queue_record q offset_head])
      else Some vsAllData)"

definition GetAllQueueData ::
  "shmqueue \<Rightarrow> byte list list \<Rightarrow> int \<Rightarrow> int \<Rightarrow> (int \<times> byte list list) option" where
  "GetAllQueueData q vsAllData inlock outlock =
     (if inlock \<noteq> 0 then Some (E_SHM_QUEUE_INLOCK, vsAllData)
      else if outlock \<noteq> 0 then Some (E_SHM_QUEUE_INLOCK, vsAllData)
      else map_option (\<lambda>v. (SHM_SUCCESS, v)) (GetAll_loop q (uiHead q) vsAllData))"

definition GetHeadTail :: "shmqueue \<Rightarrow> u32 \<times> u32 \<times> u32 \<times> u32" where
  "GetHeadTail q = (uiHead q, uiTail q, m_QueueDataSize q, DataLen q (uiHead q))"

definition Queue_Clean :: "shmqueue \<Rightarrow> shmqueue" where
  "Queue_Clean q = q\<lparr>uiHead := 0, uiTail := 0\<rparr>"

definition UsedSpaceInternal :: "shmqueue \<Rightarrow> u32" where
  "UsedSpaceInternal q =
     (if uiTail q \<ge> uiHead q then uiTail q - uiHead q
      else m_QueueDataSize q - (uiHead q - uiTail q))"

definition TotalSpaceInternal :: "shmqueue \<Rightarrow> u32" where
  "TotalSpaceInternal q = m_QueueDataSize q"

section \<open>Word arithmetic of the offsets\<close>

definition sq_wf :: "shmqueue \<Rightarrow> bool" where
  "sq_wf q \<longleftrightarrow> unat (m_QueueDataSize q) = length (qdata q) \<and> length (qdata q) \<le> 2 ^ 31
     \<and> unat (uiHead q) < length (qdata q) \<and> unat (uiTail q) < length (qdata q)"

definition sq_used :: "shmqueue \<Rightarrow> nat" where
  "sq_used q = ring_used (length (qdata q)) (unat (uiHead q)) (unat (uiTail q))"

lemma u32_order: "(a \<le> b) = (unat a \<le> unat b)" "(a < b) = (unat a < unat b)" for a b :: u32
  by (simp_all add: word_le_nat_alt word_less_nat_alt)

lemma unat_diff: "unat b \<le> unat a \<Longrightarrow> unat (a - b) = unat a - unat b" for a b :: u32
  by (simp add: unat_sub word_le_nat_alt)

lemma unat_add: "unat a + unat b < 2 ^ 32 \<Longrightarrow> unat (a + b) = unat a + unat b" for a b :: u32
  by (simp add: unat_word_ariths)

lemma UsedSpace_unat:
  assumes "sq_wf q" "unat h < length (qdata q)" "unat t < length (qdata q)"
  shows "unat (UsedSpace q h t) = ring_used (length (qdata q)) (unat h) (unat t)"
  using assms by (auto simp: UsedSpace_def ring_used_def sq_wf_def u32_order unat_diff)

lemma FreeSpace_unat:
  assumes "sq_wf q"
  shows "unat (FreeSpace q (uiHead q) (uiTail q)) = length (qdata q) - sq_used q - 1"
  using assms by (auto simp: FreeSpace_def sq_used_def ring_used_def sq_wf_def u32_order unat_diff)

lemma AddOffset_unat:
  assumes "sq_wf q" "unat off < length (qdata q)" "unat k \<le> length (qdata q)"
  shows "unat (AddOffset q off k) = (unat off + unat k) mod length (qdata q)"
  using assms by (simp add: AddOffset_def unat_mod unat_add sq_wf_def)

lemma end_unat:
  assumes "sq_wf q" "unat off < length (qdata q)"
  shows "unat (m_QueueDataSize q - off) = length (qdata q) - unat off"
  using assms by (simp add: sq_wf_def unat_diff)

text \<open>Every length field is read through the ring, whether or not it wraps.\<close>

lemma DataLen_ring:
  assumes "sq_wf q" "unat off < length (qdata q)" "4 \<le> length (qdata q)"
  shows "DataLen q off = le_word (ring_read (qdata q) (unat off) 4)"
proof -
  have r: "unat (4 - (m_QueueDataSize q - off)) = 4 - (length (qdata q) - unat off)"
    if "\<not> 4 \<le> length (qdata q) - unat off"
    using that assms by (simp add: unat_diff end_unat)
  show ?thesis
    using assms ring_read_after [of "unat off" "qdata q" 0 4]
    by (auto simp: DataLen_def Let_def u32_order end_unat r)
qed

lemma CopyDataOutQueue_ring:
  assumes wf: "sq_wf q" "unat off < length (qdata q)"
    and len: "len = le_word (ring_read (qdata q) (unat off) 4)"
    and fits: "4 + unat len \<le> length (qdata q)"
  shows "CopyDataOutQueue q pData dl off =
    (if len > dl then (E_SHM_QUEUE_DATALEN, pData, len)
     else (SHM_SUCCESS, memcpy_to pData 0 (ring_read (qdata q) (unat off + 4) (unat len)), len))"
proof (cases "4 \<le> length (qdata q) - unat off")
  case True
  have e: "unat (m_QueueDataSize q - off - 4) = length (qdata q) - unat off - 4"
    using wf True by (simp add: unat_diff end_unat)
  have l: "le_word (mem_read (qdata q) (unat off) 4) = len"
    using True wf ring_read_linear [of "unat off" 4 "qdata q"] by (simp add: len)
  have z: "m_QueueDataSize q - off = 4 \<longleftrightarrow> unat off + 4 = length (qdata q)"
    using end_unat [OF wf] True by (auto simp: word_unat_eq_iff)
  have d: "unat (len - (m_QueueDataSize q - off - 4)) = unat len - (length (qdata q) - unat off - 4)"
    if "length (qdata q) - unat off - 4 < unat len"
    using that e by (simp add: unat_diff)
  show ?thesis
    using True wf fits ring_read_after [of "unat off" "qdata q" 4 "unat len"]
      memcpy_to_append [of 0 pData "mem_read (qdata q) (unat off + 4) (length (qdata q) - unat off - 4)"]
    by (auto simp: CopyDataOutQueue_def Let_def u32_order end_unat e l z d)
next
  case False
  define e where "e = length (qdata q) - unat off"
  have e: "unat (m_QueueDataSize q - off) = e" "e < 4" "unat off + e = length (qdata q)"
    using False wf by (simp_all add: e_def end_unat)
  have r: "unat (4 - (m_QueueDataSize q - off)) = 4 - e" "unat off + 4 - length (qdata q) = 4 - e"
    using e by (simp_all add: unat_diff)
  have l: "le_word (mem_read (qdata q) (unat off) e @ mem_read (qdata q) 0 (4 - e)) = len"
    unfolding len using e fits wf ring_read_after [of "unat off" "qdata q" 0 4]
    by (simp add: e_def [symmetric])
  have d: "ring_read (qdata q) (unat off + 4) (unat len) = mem_read (qdata q) (4 - e) (unat len)"
    using e fits wf ring_read_after [of "unat off" "qdata q" 4 "unat len"] r by auto
  show ?thesis
    using e by (auto simp: CopyDataOutQueue_def Let_def u32_order r l d)
qed

lemma CopyDataInQueue_ring:
  assumes wf: "sq_wf q" "unat off < length (qdata q)"
    and fits: "4 + unat dl \<le> length (qdata q)" and src: "unat dl \<le> length pData"
  shows "CopyDataInQueue q pData dl off =
    q\<lparr>qdata := ring_write (qdata q) (unat off) (le_bytes 4 dl @ take (unat dl) pData)\<rparr>"
proof -
  let ?d = "qdata q" and ?o = "unat off" and ?F = "le_bytes 4 dl @ take (unat dl) pData"
  define e where "e = length ?d - ?o"
  have e: "unat (m_QueueDataSize q - off) = e" "?o + e = length ?d"
    using wf by (simp_all add: e_def end_unat)
  have lF: "length ?F = 4 + unat dl" using src by simp
  show ?thesis
  proof (cases "4 + unat dl \<le> e")
    case True
    then have "ring_write ?d ?o ?F = memcpy_to (memcpy_to ?d ?o (le_bytes 4 dl)) (?o + 4) (take (unat dl) pData)"
      using wf lF e memcpy_to_append [of ?o ?d "le_bytes 4 dl"]
      by (simp add: ring_write_linear [symmetric])
    moreover have "unat (m_QueueDataSize q - off - 4) = e - 4"
      using e True by (simp add: unat_diff)
    ultimately show ?thesis
      using e True by (simp add: CopyDataInQueue_def Let_def u32_order mem_read_def)
  next
    case False
    then have wrap: "ring_write ?d ?o ?F = memcpy_to (memcpy_to ?d ?o (take e ?F)) 0 (drop e ?F)"
      unfolding e_def using wf fits lF by (intro ring_write_wrap [symmetric]) auto
    show ?thesis
    proof (cases "4 \<le> e")
      case True
      then obtain f where f: "e = 4 + f" by (metis le_Suc_ex)
      with e False have g: "f < unat dl" "unat (m_QueueDataSize q - off - 4) = f"
        by (simp_all add: unat_diff)
      then have d: "unat (dl - (m_QueueDataSize q - off - 4)) = unat dl - f"
        by (simp add: unat_diff)
      have "ring_write ?d ?o ?F = memcpy_to (memcpy_to (memcpy_to ?d ?o (le_bytes 4 dl)) (?o + 4)
          (take f pData)) 0 (drop f (take (unat dl) pData))"
        using wf g memcpy_to_append [of ?o ?d "le_bytes 4 dl"] unfolding wrap f by (simp add: min_def)
      then show ?thesis
        using e f g by (auto simp: CopyDataInQueue_def Let_def u32_order d mem_read_def drop_take)
    next
      case less: False
      then have r: "unat (4 - (m_QueueDataSize q - off)) = 4 - e"
        using e by (simp add: unat_diff)
      have "ring_write ?d ?o ?F = memcpy_to (memcpy_to (memcpy_to ?d ?o (take e (le_bytes 4 dl))) 0
          (drop e (le_bytes 4 dl))) (4 - e) (take (unat dl) pData)"
        using less memcpy_to_append [of 0 "memcpy_to ?d ?o (take e (le_bytes 4 dl))" "drop e (le_bytes 4 dl)"]
        unfolding wrap by simp
      then show ?thesis
        using e less by (simp add: CopyDataInQueue_def Let_def u32_order r mem_read_def)
    qed
  qed
qed

section \<open>The queue as a list of messages\<close>

definition frame :: "byte list \<Rightarrow> byte list" where
  "frame m = le_bytes 4 (of_nat (length m) :: u32) @ m"

text \<open>
  \<open>sq_at q off ms\<close>: from offset \<open>off\<close> to the tail the ring holds the records \<open>ms\<close>;
  \<open>sq_rel q ms\<close>: the queue holds exactly the messages \<open>ms\<close>, oldest first.
\<close>

definition sq_at :: "shmqueue \<Rightarrow> u32 \<Rightarrow> byte list list \<Rightarrow> bool" where
  "sq_at q off ms \<longleftrightarrow> unat off < length (qdata q) \<and>
     ring_read (qdata q) (unat off) (ring_used (length (qdata q)) (unat off) (unat (uiTail q)))
       = concat (map frame ms)"

definition sq_rel :: "shmqueue \<Rightarrow> byte list list \<Rightarrow> bool" where
  "sq_rel q ms \<longleftrightarrow> sq_wf q \<and> sq_at q (uiHead q) ms"

definition queue_bytes :: "byte list list \<Rightarrow> nat" where
  "queue_bytes ms = (\<Sum>m\<leftarrow>ms. length m + 4)"

lemma length_frame [simp]: "length (frame m) = length m + 4"
  by (simp add: frame_def)

lemma queue_bytes_simps [simp]:
  "queue_bytes [] = 0" "queue_bytes (m # ms) = length m + 4 + queue_bytes ms"
  "queue_bytes (ms @ ns) = queue_bytes ms + queue_bytes ns"
  by (simp_all add: queue_bytes_def)

lemma length_frames [simp]: "length (concat (map frame ms)) = queue_bytes ms"
  by (induction ms) simp_all

lemma sq_at_used:
  "sq_at q off ms \<Longrightarrow> ring_used (length (qdata q)) (unat off) (unat (uiTail q)) = queue_bytes ms"
  unfolding sq_at_def by (metis length_frames length_ring(1))

lemma sq_rel_used: "sq_rel q ms \<Longrightarrow> sq_used q = queue_bytes ms"
  by (simp add: sq_rel_def sq_used_def sq_at_used)

lemma sq_wf_used_less: "sq_wf q \<Longrightarrow> sq_used q < length (qdata q)"
  by (simp add: sq_used_def sq_wf_def ring_used_less)

lemma sq_at_bound: "sq_wf q \<Longrightarrow> sq_at q off ms \<Longrightarrow> queue_bytes ms < length (qdata q)"
  using sq_at_used [of q off ms] ring_used_less [of "unat off" "length (qdata q)" "unat (uiTail q)"]
  by (simp add: sq_at_def sq_wf_def)

lemma sq_at_UsedSpace:
  "sq_wf q \<Longrightarrow> sq_at q off ms \<Longrightarrow> unat (UsedSpace q off (uiTail q)) = queue_bytes ms"
  using sq_at_used [of q off ms] by (simp add: UsedSpace_unat sq_at_def sq_wf_def)

lemma queue_bytes_less4 [simp]: "queue_bytes ms < 4 \<longleftrightarrow> ms = []"
  by (cases ms) simp_all

text \<open>What the ring holds at a record boundary: its length field, its data, the next boundary.\<close>

lemma sq_at_Cons:
  assumes wf: "sq_wf q" and at: "sq_at q off (m # ms)"
  shows "le_word (ring_read (qdata q) (unat off) 4) = (of_nat (length m) :: u32)"
    and "ring_read (qdata q) (unat off + 4) (length m) = m"
    and "unat (of_nat (length m) :: u32) = length m"
    and "length m + 4 < length (qdata q)"
    and "sq_at q (AddOffset q off (of_nat (length m) + 4)) ms"
proof -
  let ?d = "qdata q" and ?o = "unat off" and ?n = "length (qdata q)" and ?r = "queue_bytes ms"
  have b: "length m + 4 + ?r < ?n" "?n \<le> 2 ^ 31" "?o < ?n" "unat (uiTail q) < ?n"
    using sq_at_bound [OF wf at] wf at by (simp_all add: sq_wf_def sq_at_def)
  have "ring_read ?d ?o (4 + (length m + ?r)) = concat (map frame (m # ms))"
    using at sq_at_used [OF at] by (simp add: sq_at_def add.commute add.left_commute)
  then have "ring_read ?d ?o 4 @ ring_read ?d (?o + 4) (length m) @ ring_read ?d (?o + 4 + length m) ?r
      = le_bytes 4 (of_nat (length m) :: u32) @ m @ concat (map frame ms)"
    by (simp add: ring_read_add frame_def)
  then have p: "ring_read ?d ?o 4 = le_bytes 4 (of_nat (length m) :: u32)"
      "ring_read ?d (?o + 4) (length m) = m"
      "ring_read ?d (?o + 4 + length m) ?r = concat (map frame ms)"
    by simp_all
  then show "le_word (ring_read ?d ?o 4) = (of_nat (length m) :: u32)"
    and "ring_read ?d (?o + 4) (length m) = m" and "length m + 4 < ?n" using b by simp_all
  have l: "unat (of_nat (length m) :: u32) = length m" using b by (intro unat_u32_of_nat) simp
  then show "unat (of_nat (length m) :: u32) = length m" .
  let ?o' = "(?o + (length m + 4)) mod ?n"
  have a: "unat (AddOffset q off (of_nat (length m) + 4)) = ?o'"
    using b wf l by (subst AddOffset_unat) (simp_all add: unat_add)
  have "?o' < ?n" using b by (intro mod_less_divisor) linarith
  moreover have "ring_used ?n ?o' (unat (uiTail q)) = ?r"
    using b sq_at_used [OF at] by (subst ring_used_add_head) simp_all
  ultimately show "sq_at q (AddOffset q off (of_nat (length m) + 4)) ms"
    using p(3) by (simp add: sq_at_def a add.assoc add.commute [of 4])
qed

lemma sq_wf_AddHead: "sq_wf q \<Longrightarrow> sq_wf (AddHead q k)"
proof -
  assume wf: "sq_wf q"
  then have "0 < m_QueueDataSize q" by (auto simp: sq_wf_def u32_order)
  then have "unat (AddOffset q (uiHead q) k) < unat (m_QueueDataSize q)"
    by (simp add: AddOffset_def unat_mod u32_order)
  with wf show ?thesis by (simp add: sq_wf_def AddHead_def)
qed

lemma sq_rel_AddHead:
  assumes "sq_rel q (m # ms)"
  shows "sq_rel (AddHead q (of_nat (length m) + 4)) ms"
  using assms sq_at_Cons(5) [of q "uiHead q" m ms] sq_wf_AddHead
  by (simp add: sq_rel_def sq_at_def AddHead_def)

section \<open>The operations on the message list\<close>

lemma OutQueue_empty:
  assumes "sq_rel q []" "lock \<longrightarrow> lockret = 0"
  shows "OutQueue q pData dl lock lockret = (E_SHM_QUEUE_EMPTY, pData, dl, q)"
  using assms sq_at_UsedSpace [of q "uiHead q" "[]"]
  by (auto simp: OutQueue_def sq_rel_def u32_order)

lemma OutQueue_Cons:
  assumes rel: "sq_rel q (m # ms)" and lk: "lock \<longrightarrow> lockret = 0"
  shows "OutQueue q pData dl lock lockret =
    (if length m > unat dl
     then (E_SHM_QUEUE_DATALEN, pData, of_nat (length m), AddHead q (of_nat (length m) + 4))
     else (SHM_SUCCESS, memcpy_to pData 0 m, of_nat (length m), AddHead q (of_nat (length m) + 4)))"
proof -
  from rel have wf: "sq_wf q" and at: "sq_at q (uiHead q) (m # ms)" by (simp_all add: sq_rel_def)
  note c = sq_at_Cons [OF wf at]
  have "CopyDataOutQueue q pData dl (uiHead q) =
    (if length m > unat dl then (E_SHM_QUEUE_DATALEN, pData, of_nat (length m))
     else (SHM_SUCCESS, memcpy_to pData 0 m, of_nat (length m)))"
    using c at wf by (subst CopyDataOutQueue_ring [OF wf _ c(1) [symmetric]])
      (simp_all add: sq_at_def u32_order)
  moreover have "\<not> UsedSpace q (uiHead q) (uiTail q) < 4"
    using sq_at_UsedSpace [OF wf at] by (simp add: u32_order)
  ultimately show ?thesis
    using lk by (auto simp: OutQueue_def Let_def shm_codes)
qed

lemma sq_rel_AddTail:
  assumes rel: "sq_rel q ms" and len: "unat dl \<le> length pData" "0 < unat dl"
    and room: "queue_bytes ms + unat dl + 4 < length (qdata q)"
  shows "sq_rel (AddTail (CopyDataInQueue q pData dl (uiTail q)) (dl + 4)) (ms @ [take (unat dl) pData])"
proof -
  let ?d = "qdata q" and ?n = "length (qdata q)" and ?h = "unat (uiHead q)" and ?t = "unat (uiTail q)"
  let ?F = "le_bytes 4 dl @ take (unat dl) pData"
  from rel have wf: "sq_wf q" and at: "sq_at q (uiHead q) ms" by (simp_all add: sq_rel_def)
  have b: "?h < ?n" "?t < ?n" "unat (m_QueueDataSize q) = ?n" "?n \<le> 2 ^ 31"
    using wf by (simp_all add: sq_wf_def)
  have u: "ring_used ?n ?h ?t = queue_bytes ms" using at by (rule sq_at_used)
  have q': "CopyDataInQueue q pData dl (uiTail q) = q\<lparr>qdata := ring_write ?d ?t ?F\<rparr>"
    using wf b room len by (intro CopyDataInQueue_ring) simp_all
  have t': "unat (AddOffset q (uiTail q) (dl + 4)) = (?t + (unat dl + 4)) mod ?n"
    using wf b room by (subst AddOffset_unat) (simp_all add: unat_add)
  have F: "?F = frame (take (unat dl) pData)" "length ?F = unat dl + 4"
    using len by (simp_all add: frame_def)
  have "ring_used ?n ?h ((?t + (unat dl + 4)) mod ?n) = queue_bytes ms + length ?F"
    using b u room F by (subst ring_used_add_tail) simp_all
  moreover have "ring_read (ring_write ?d ?t ?F) ?h (queue_bytes ms + length ?F)
      = ring_read ?d ?h (queue_bytes ms) @ ?F"
    using ring_read_append_block [of ?h ?d "queue_bytes ms" ?F] b room F(2) ring_used_tail [of ?h ?n ?t]
    by (simp add: u)
  moreover have "(?t + (unat dl + 4)) mod ?n < ?n" using b by (intro mod_less_divisor) linarith
  moreover have "AddOffset (q\<lparr>qdata := ring_write ?d ?t ?F\<rparr>) (uiTail q) (dl + 4) = AddOffset q (uiTail q) (dl + 4)"
    by (simp add: AddOffset_def)
  ultimately show ?thesis
    using b at u t' F(1) by (simp add: sq_rel_def sq_wf_def sq_at_def AddTail_def q')
qed

lemma InQueue_cases:
  assumes rel: "sq_rel q ms" and len: "unat dl \<le> length pData" "0 < unat dl" "unat dl < 2 ^ 32 - 4"
    and lk: "lock \<longrightarrow> lockret = 0"
  shows "InQueue q pData dl lock lockret =
    (if queue_bytes ms + unat dl + 4 < length (qdata q)
     then (SHM_SUCCESS, AddTail (CopyDataInQueue q pData dl (uiTail q)) (dl + 4))
     else (E_SHM_QUEUE_FULL, q))"
proof -
  have "unat (dl + 4) = unat dl + 4" using len by (simp add: unat_add)
  moreover have "unat (FreeSpace q (uiHead q) (uiTail q)) = length (qdata q) - queue_bytes ms - 1"
    using rel FreeSpace_unat [of q] sq_rel_used [OF rel] by (simp add: sq_rel_def)
  moreover have "queue_bytes ms < length (qdata q)"
    using rel sq_at_bound [of q "uiHead q" ms] by (simp add: sq_rel_def)
  moreover have "dl \<noteq> 0" using len by auto
  ultimately show ?thesis
    using lk by (auto simp: InQueue_def Let_def u32_order)
qed

text \<open>Success appends the message, every failure leaves the queue alone.\<close>

lemma InQueue_result:
  assumes rel: "sq_rel q ms" and I: "InQueue q pData dl lock lockret = (r, q')"
    and len: "unat dl = length pData" "length pData < 2 ^ 32 - 4"
  shows "r = SHM_SUCCESS \<Longrightarrow> sq_rel q' (ms @ [pData])" "r \<noteq> SHM_SUCCESS \<Longrightarrow> q' = q"
proof -
  have "(r = SHM_SUCCESS \<longrightarrow> sq_rel q' (ms @ [pData])) \<and> (r \<noteq> SHM_SUCCESS \<longrightarrow> q' = q)"
  proof (cases "(lock \<and> lockret \<noteq> 0) \<or> dl = 0")
    case True
    with I show ?thesis by (auto simp: InQueue_def shm_codes split: if_splits)
  next
    case False
    then have "0 < unat dl" by (simp add: unat_gt_0)
    with False I rel len sq_rel_AddTail [of q ms dl pData] show ?thesis
      by (auto simp: InQueue_cases shm_codes split: if_splits)
  qed
  then show "r = SHM_SUCCESS \<Longrightarrow> sq_rel q' (ms @ [pData])" "r \<noteq> SHM_SUCCESS \<Longrightarrow> q' = q" by blast+
qed

lemma DataLen_Cons:
  assumes "sq_wf q" "sq_at q off (m # ms)"
  shows "DataLen q off = of_nat (length m)"
  using assms sq_at_Cons [OF assms] by (simp add: DataLen_ring sq_at_def)

lemma GetNum_loop_eq:
  "sq_wf q \<Longrightarrow> sq_at q off ms \<Longrightarrow> GetNum_loop q off k = Some (k + int (length ms))"
proof (induction ms arbitrary: off k)
  case Nil
  then have "\<not> 4 \<le> UsedSpace q off (uiTail q)"
    using sq_at_UsedSpace [of q off "[]"] by (simp add: u32_order)
  then show ?case by (simp add: GetNum_loop.simps)
next
  case (Cons m ms)
  note c = sq_at_Cons [OF Cons.prems] DataLen_Cons [OF Cons.prems]
  have "4 \<le> UsedSpace q off (uiTail q)"
    using sq_at_UsedSpace [OF Cons.prems] by (simp add: u32_order)
  then show ?case
    using Cons.IH [OF Cons.prems(1) c(5)] by (subst GetNum_loop.simps) (simp add: c(6))
qed

lemma queue_record_Cons:
  assumes "sq_wf q" "sq_at q off (m # ms)"
  shows "queue_record q off = m"
proof -
  note c = sq_at_Cons [OF assms]
  have b: "unat (m_QueueDataSize q) = length (qdata q)" "unat off < length (qdata q)"
    using assms by (simp_all add: sq_wf_def sq_at_def)
  have "4 - (length (qdata q) - unat off) = unat off + 4 - length (qdata q)" using b by simp
  with b c(2-4) ring_read_after [of "unat off" "qdata q" 4 "length m"] show ?thesis
    by (auto simp: queue_record_def DataLen_Cons [OF assms] Let_def)
qed

lemma GetAll_loop_eq:
  "sq_wf q \<Longrightarrow> sq_at q off ms \<Longrightarrow> GetAll_loop q off acc = Some (acc @ ms)"
proof (induction ms arbitrary: off acc)
  case Nil
  then have "\<not> 4 \<le> UsedSpace q off (uiTail q)"
    using sq_at_UsedSpace [of q off "[]"] by (simp add: u32_order)
  then show ?case by (simp add: GetAll_loop.simps)
next
  case (Cons m ms)
  note c = sq_at_Cons [OF Cons.prems] DataLen_Cons [OF Cons.prems] queue_record_Cons [OF Cons.prems]
  have "4 \<le> UsedSpace q off (uiTail q)"
    using sq_at_UsedSpace [OF Cons.prems] by (simp add: u32_order)
  then show ?case
    using Cons.IH [OF Cons.prems(1) c(5)] by (subst GetAll_loop.simps) (simp add: c(6,7))
qed

lemma MsgPeek_Cons:
  assumes "sq_rel q (m # ms)"
  shows "\<exists>buf. MsgPeek True q = (SHM_SUCCESS, m, of_nat (length m), q\<lparr>m_pMsgPeekBuf := buf\<rparr>)"
proof -
  from assms have wf: "sq_wf q" and at: "sq_at q (uiHead q) (m # ms)" by (simp_all add: sq_rel_def)
  note c = sq_at_Cons [OF wf at]
  let ?d = "qdata q" and ?h = "unat (uiHead q)"
  define e where "e = length ?d - ?h"
  have e: "unat (m_QueueDataSize q - uiHead q) = e" "?h + e = length ?d" "0 < e"
    using wf at end_unat [OF wf, of "uiHead q"] by (simp_all add: e_def sq_at_def)
  have used: "\<not> UsedSpace q (uiHead q) (uiTail q) < 4"
    using sq_at_UsedSpace [OF wf at] by (simp add: u32_order)
  have L: "DataLen q (uiHead q) = of_nat (length m)" by (rule DataLen_Cons [OF wf at])
  have R: "ring_read ?d (?h + 4) (length m) =
    (if 4 + length m \<le> e then mem_read ?d (?h + 4) (length m)
     else if 4 < e then mem_read ?d (?h + 4) (e - 4) @ mem_read ?d 0 (length m - (e - 4))
     else mem_read ?d (4 - e) (length m))"
    using e c(4) by (intro ring_read_after_end) simp_all
  have same: "\<exists>buf. q = q\<lparr>m_pMsgPeekBuf := buf\<rparr>" by (intro exI [of _ "m_pMsgPeekBuf q"]) simp
  show ?thesis
  proof (cases "4 \<le> e")
    case True
    then obtain f where f: "e = 4 + f" by (metis le_Suc_ex)
    have u: "unat (m_QueueDataSize q - uiHead q - 4) = f"
      using e f by (simp add: unat_diff)
    have z: "m_QueueDataSize q - uiHead q = 4 \<longleftrightarrow> f = 0"
      using e f by (auto simp: word_unat_eq_iff)
    have l: "le_word (mem_read ?d ?h 4) = (of_nat (length m) :: u32)"
      using L f e by (simp add: DataLen_def Let_def u32_order)
    have g: "unat (of_nat (length m) - (m_QueueDataSize q - uiHead q - 4)) = length m - f"
      if "f < length m" using that u c(3) by (simp add: unat_diff)
    consider "f = 0" | "0 < f" "f < length m" | "0 < f" "length m \<le> f" by linarith
    then show ?thesis
    proof cases
      case 1
      then show ?thesis using R c(2,3) used e f same
        by (simp add: MsgPeek_def Let_def u32_order z l split: if_splits)
    next
      case 2
      then have "m = mem_read ?d (?h + 4) f @ mem_read ?d 0 (length m - f)" using R c(2) f by simp
      with 2 show ?thesis using c(3) used e f
        by (intro exI [of _ "Some m"]) (simp add: MsgPeek_def Let_def u32_order u z l g)
    next
      case 3
      then have "mem_read ?d (?h + 4) (length m) = m" using R c(2) f by simp
      with 3 show ?thesis using c(3) used e f same
        by (simp add: MsgPeek_def Let_def u32_order u z l)
    qed
  next
    case False
    then have r: "unat (4 - (m_QueueDataSize q - uiHead q)) = 4 - e"
      using e by (simp add: unat_diff)
    have l: "le_word (mem_read ?d ?h e @ mem_read ?d 0 (4 - e)) = (of_nat (length m) :: u32)"
      using L False e by (simp add: DataLen_def Let_def u32_order r)
    show ?thesis
      using R c False used e same by (simp add: MsgPeek_def Let_def u32_order r l split: if_splits)
  qed
qed

section \<open>Refinement of a bounded FIFO\<close>

text \<open>
  The abstract queue is a list of messages with a byte budget; every message costs its length and
  a four-byte length field, and the ring keeps one byte free.
\<close>

datatype qop = Put "byte list" | Get nat | Peek | Release | Count

datatype qres = Code int | Data "byte list" | Num int

definition qop_ok :: "qop \<Rightarrow> bool" where
  "qop_ok op = (case op of Put m \<Rightarrow> length m < 2 ^ 32 - 4 | Get n \<Rightarrow> n < 2 ^ 32 | _ \<Rightarrow> True)"

fun fifo_step :: "nat \<Rightarrow> byte list list \<Rightarrow> qop \<Rightarrow> qres \<times> byte list list" where
  "fifo_step cap ms (Put m) =
     (if m = [] then (Code E_SHM_QUEUE_INQUEUE_LEN, ms)
      else if queue_bytes ms + length m + 4 < cap then (Code SHM_SUCCESS, ms @ [m])
      else (Code E_SHM_QUEUE_FULL, ms))"
| "fifo_step cap [] (Get n) = (Code E_SHM_QUEUE_EMPTY, [])"
| "fifo_step cap (m # ms) (Get n) =
     (if length m > n then (Code E_SHM_QUEUE_DATALEN, ms) else (Data m, ms))"
| "fifo_step cap [] Peek = (Code E_SHM_QUEUE_EMPTY, [])"
| "fifo_step cap (m # ms) Peek = (Data m, m # ms)"
| "fifo_step cap ms Release = (Code 0, tl ms)"
| "fifo_step cap ms Count = (Num (int (length ms)), ms)"

text \<open>The same operations on the ring, through the C++ interface with its default locking; the locks and \<open>malloc\<close> succeed.\<close>

fun ring_step :: "shmqueue \<Rightarrow> qop \<Rightarrow> qres \<times> shmqueue" where
  "ring_step q (Put m) = (let (r, q') = InQueue q m (of_nat (length m)) True 0 in (Code r, q'))"
| "ring_step q (Get n) =
     (let (r, buf, len, q') = OutQueue q (replicate n 0) (of_nat n) True 0
      in (if r = SHM_SUCCESS then Data (take (unat len) buf) else Code r, q'))"
| "ring_step q Peek =
     (let (r, bytes, len, q') = MsgPeek True q in (if r = SHM_SUCCESS then Data bytes else Code r, q'))"
| "ring_step q Release = (Code 0, ReleaseMsg q)"
| "ring_step q Count = (case GetNum q of Some n \<Rightarrow> (Num n, q) | None \<Rightarrow> (Code E_SHM_QUEUE_PARAM, q))"

definition sq_cap_rel :: "nat \<Rightarrow> shmqueue \<Rightarrow> byte list list \<Rightarrow> bool" where
  "sq_cap_rel cap q ms \<longleftrightarrow> sq_rel q ms \<and> length (qdata q) = cap"

lemma sq_rel_peekbuf [simp]: "sq_rel (q\<lparr>m_pMsgPeekBuf := b\<rparr>) ms = sq_rel q ms"
  by (simp add: sq_rel_def sq_wf_def sq_at_def)

lemma qdata_Add [simp]: "qdata (AddHead q k) = qdata q" "qdata (AddTail q k) = qdata q"
  by (simp_all add: AddHead_def AddTail_def)

lemma MsgPeek_Nil: "sq_rel q [] \<Longrightarrow> MsgPeek alloc q = (E_SHM_QUEUE_EMPTY, [], 0, q)"
  using sq_at_UsedSpace [of q "uiHead q" "[]"] by (simp add: MsgPeek_def sq_rel_def u32_order)

text \<open>A peek that cannot allocate its copy says so and leaves the messages alone; other peeks do not need the copy.\<close>

lemma MsgPeek_no_memory:
  "MsgPeek False q = MsgPeek True q
   \<or> (\<exists>len. MsgPeek False q = (E_SHM_QUEUE_MALLOC, [], len, q\<lparr>m_pMsgPeekBuf := None\<rparr>))"
  by (simp add: MsgPeek_def Let_def)

lemma ReleaseMsg_rel: "sq_rel q ms \<Longrightarrow> sq_rel (ReleaseMsg q) (tl ms)"
proof (cases ms)
  case Nil
  assume "sq_rel q ms"
  with Nil show ?thesis
    using sq_at_UsedSpace [of q "uiHead q" "[]"] by (simp add: ReleaseMsg_def sq_rel_def u32_order)
next
  case (Cons m ns)
  assume rel: "sq_rel q ms"
  with Cons have "DataLen q (uiHead q) = of_nat (length m)" "\<not> UsedSpace q (uiHead q) (uiTail q) < 4"
    using DataLen_Cons [of q "uiHead q" m ns] sq_at_UsedSpace [of q "uiHead q" ms]
    by (simp_all add: sq_rel_def u32_order)
  with rel Cons show ?thesis by (simp add: ReleaseMsg_def sq_rel_AddHead)
qed

lemma qdata_ReleaseMsg [simp]: "qdata (ReleaseMsg q) = qdata q"
  by (simp add: ReleaseMsg_def Let_def)

lemma qdata_CopyDataInQueue [simp]:
  assumes "sq_rel q ms" "unat dl \<le> length pData" "queue_bytes ms + unat dl + 4 < length (qdata q)"
  shows "length (qdata (CopyDataInQueue q pData dl (uiTail q))) = length (qdata q)"
  using assms by (subst CopyDataInQueue_ring) (auto simp: sq_rel_def sq_wf_def)

lemma ring_step_Put:
  assumes "sq_cap_rel cap q ms" "length m < 2 ^ 32 - 4"
  shows "fst (ring_step q (Put m)) = fst (fifo_step cap ms (Put m))
    \<and> sq_cap_rel cap (snd (ring_step q (Put m))) (snd (fifo_step cap ms (Put m)))"
proof (cases "m = []")
  case True
  with assms show ?thesis by (simp add: InQueue_def)
next
  case False
  have rel: "sq_rel q ms" and cap: "length (qdata q) = cap" using assms by (simp_all add: sq_cap_rel_def)
  have u: "unat (of_nat (length m) :: u32) = length m" using assms by (intro unat_u32_of_nat) simp
  have "InQueue q m (of_nat (length m)) True 0 =
     (if queue_bytes ms + length m + 4 < cap
      then (SHM_SUCCESS, AddTail (CopyDataInQueue q m (of_nat (length m)) (uiTail q)) (of_nat (length m) + 4))
      else (E_SHM_QUEUE_FULL, q))"
    using InQueue_cases [OF rel, of "of_nat (length m)" m True 0] u False assms cap by simp
  then show ?thesis
    using False assms u cap rel sq_rel_AddTail [OF rel, of "of_nat (length m)" m]
    by (simp add: sq_cap_rel_def Let_def)
qed

lemma ring_step_Get:
  assumes "sq_cap_rel cap q ms" "n < 2 ^ 32"
  shows "fst (ring_step q (Get n)) = fst (fifo_step cap ms (Get n))
    \<and> sq_cap_rel cap (snd (ring_step q (Get n))) (snd (fifo_step cap ms (Get n)))"
proof (cases ms)
  case Nil
  with assms show ?thesis by (simp add: sq_cap_rel_def OutQueue_empty shm_codes)
next
  case (Cons m ns)
  with assms have rel: "sq_rel q (m # ns)" by (simp add: sq_cap_rel_def)
  have u: "unat (of_nat (length m) :: u32) = length m" "unat (of_nat n :: u32) = n"
    using rel sq_at_Cons(3) [of q "uiHead q" m ns] assms by (simp_all add: sq_rel_def unat_u32_of_nat)
  show ?thesis
    using assms Cons u sq_rel_AddHead [OF rel]
    by (simp add: OutQueue_Cons [OF rel] sq_cap_rel_def shm_codes memcpy_to_def)
qed

interpretation shmq: simulation "sq_cap_rel cap" ring_step "fifo_step cap" qop_ok for cap
proof
  fix q ms op assume rel: "sq_cap_rel cap q ms" and ok: "qop_ok op"
  show "fst (ring_step q op) = fst (fifo_step cap ms op)
      \<and> sq_cap_rel cap (snd (ring_step q op)) (snd (fifo_step cap ms op))"
  proof (cases op)
    case (Put m)
    with rel ok ring_step_Put [of cap q ms m] show ?thesis by (simp add: qop_ok_def)
  next
    case (Get n)
    with rel ok ring_step_Get [of cap q ms n] show ?thesis by (simp add: qop_ok_def)
  next
    case Peek
    have r: "sq_rel q ms" using rel by (simp add: sq_cap_rel_def)
    show ?thesis
    proof (cases ms)
      case Nil
      with Peek rel r show ?thesis by (simp add: MsgPeek_Nil shm_codes)
    next
      case (Cons m ns)
      with r MsgPeek_Cons obtain b where
        "MsgPeek True q = (SHM_SUCCESS, m, of_nat (length m), q\<lparr>m_pMsgPeekBuf := b\<rparr>)" by blast
      with Peek rel Cons show ?thesis by (simp add: sq_cap_rel_def)
    qed
  next
    case Release
    with rel show ?thesis by (simp add: sq_cap_rel_def ReleaseMsg_rel)
  next
    case Count
    have "GetNum q = Some (int (length ms))"
      using rel GetNum_loop_eq [of q "uiHead q" ms 0] by (simp add: sq_cap_rel_def sq_rel_def GetNum_def)
    with Count rel show ?thesis by simp
  qed
qed

section \<open>Properties\<close>

lemma sq_rel_Init:
  assumes "8 < length mem" "length mem \<le> 2 ^ 31 + 8"
  shows "sq_wf \<lparr>uiHead = 0, uiTail = 0, qdata = drop 8 mem,
      m_QueueDataSize = of_nat (length mem - 8), m_pMsgPeekBuf = None\<rparr>"
proof -
  have "unat (of_nat (length mem - 8) :: u32) = length mem - 8"
    using assms by (intro unat_u32_of_nat) simp
  moreover have "length mem - 8 \<le> 2 ^ 31" using assms by linarith
  ultimately show ?thesis using assms by (simp add: sq_wf_def del: of_nat_diff)
qed

text \<open>
  C18: a ring that holds the messages \<open>ms\<close> and an abstract FIFO of the same capacity answer every
  sequence of put, get, peek, release and count operations with the same codes and data, and the
  ring holds the FIFO's messages afterwards: order, content and capacity survive every wrap-around
  of the 32-bit offsets, for messages shorter than \<open>2 ^ 32 - 4\<close> bytes, when the locks and the allocation of a peek succeed.
\<close>
theorem queue_refines_fifo:
  assumes "sq_cap_rel cap q ms" "\<forall>op\<in>set ops. qop_ok op"
  shows "fst (run ring_step q ops) = fst (run (fifo_step cap) ms ops)
    \<and> sq_cap_rel cap (snd (run ring_step q ops)) (snd (run (fifo_step cap) ms ops))"
  using assms by (rule shmq.run_sim)

definition queue_example :: shmqueue where
  "queue_example = \<lparr>uiHead = 15, uiTail = 15, qdata = replicate 20 0, m_QueueDataSize = 20,
     m_pMsgPeekBuf = None\<rparr>"

lemma queue_example_rel: "sq_cap_rel 20 queue_example []"
  by (simp add: sq_cap_rel_def sq_rel_def sq_wf_def sq_at_def queue_example_def ring_used_def ring_read_def)

theorem queue_refines_fifo_witness:
  "fst (run ring_step queue_example [Put [1, 2, 3], Put [4, 5, 6, 7], Put [8, 9], Count, Get 8, Peek, Get 2, Get 9])
     = [Code 0, Code 0, Code (-604), Num 2, Data [1, 2, 3], Data [4, 5, 6, 7], Code (-606), Code (-605)]"
  using queue_refines_fifo [OF queue_example_rel,
      of "[Put [1, 2, 3], Put [4, 5, 6, 7], Put [8, 9], Count, Get 8, Peek, Get 2, Get 9]"]
  by (simp add: qop_ok_def shm_codes)

text \<open>
  \<open>InQueue\<close> on every branch. A failed lock and an empty message leave the queue alone; a
  message whose record does not fit in the free bytes is refused with \<open>E_SHM_QUEUE_FULL\<close> and
  changes nothing; otherwise it becomes the newest message.
\<close>
lemma InQueue_spec:
  assumes "sq_rel q ms" "unat dl \<le> length pData" "unat dl < 2 ^ 32 - 4"
  shows "case InQueue q pData dl lock lockret of (r, q') \<Rightarrow>
    if lock \<and> lockret \<noteq> 0 then r = E_SHM_QUEUE_INLOCK \<and> q' = q
    else if dl = 0 then r = E_SHM_QUEUE_INQUEUE_LEN \<and> q' = q
    else if queue_bytes ms + unat dl + 4 < length (qdata q)
    then r = SHM_SUCCESS \<and> sq_rel q' (ms @ [take (unat dl) pData])
    else r = E_SHM_QUEUE_FULL \<and> q' = q"
proof (cases "(lock \<and> lockret \<noteq> 0) \<or> dl = 0")
  case True
  then show ?thesis by (auto simp: InQueue_def)
next
  case False
  then have "0 < unat dl" by (simp add: unat_gt_0)
  with False assms show ?thesis
    by (auto simp: InQueue_cases intro!: sq_rel_AddTail)
qed

lemma InQueue_spec_witness:
  "case InQueue queue_example [1, 2, 3] 3 True 0 of (r, q') \<Rightarrow> r = 0 \<and> sq_rel q' [[1, 2, 3]]"
  using InQueue_spec [of queue_example "[]" 3 "[1, 2, 3]" True 0] queue_example_rel
  by (simp add: sq_cap_rel_def queue_example_def shm_codes split: prod.splits)

text \<open>
  \<open>OutQueue\<close> on every branch. A failed lock changes nothing; an empty queue answers
  \<open>E_SHM_QUEUE_EMPTY\<close>; a message longer than the caller's buffer is dropped with
  \<open>E_SHM_QUEUE_DATALEN\<close> and leaves the buffer untouched; otherwise the oldest message is copied to
  the start of the buffer, its length is returned and the rest of the queue is kept.
\<close>
lemma OutQueue_spec:
  assumes "sq_rel q ms"
  shows "case OutQueue q pData dl lock lockret of (r, buf, len, q') \<Rightarrow>
    if lock \<and> lockret \<noteq> 0 then r = E_SHM_QUEUE_OUTLOCK \<and> buf = pData \<and> q' = q
    else (case ms of
      [] \<Rightarrow> r = E_SHM_QUEUE_EMPTY \<and> buf = pData \<and> len = dl \<and> q' = q
    | m # ns \<Rightarrow> sq_rel q' ns \<and> unat len = length m \<and>
        (if unat dl < length m then r = E_SHM_QUEUE_DATALEN \<and> buf = pData
         else r = SHM_SUCCESS \<and> buf = memcpy_to pData 0 m))"
proof (cases "lock \<and> lockret \<noteq> 0")
  case True
  then show ?thesis by (simp add: OutQueue_def)
next
  case False
  show ?thesis
  proof (cases ms)
    case Nil
    with assms False show ?thesis by (auto simp: OutQueue_empty)
  next
    case (Cons m ns)
    have "unat (of_nat (length m) :: u32) = length m"
      using assms Cons sq_at_Cons(3) [of q "uiHead q" m ns] by (simp add: sq_rel_def)
    with assms Cons False show ?thesis
      by (auto simp: OutQueue_Cons sq_rel_AddHead)
  qed
qed

lemma OutQueue_spec_witness:
  "case OutQueue queue_example [9, 9] 2 True 0 of (r, buf, len, q') \<Rightarrow> r = -605 \<and> buf = [9, 9]"
  using OutQueue_spec [of queue_example "[]" True 0 "[9, 9]" 2] queue_example_rel
  by (simp add: sq_cap_rel_def shm_codes split: prod.splits)

text \<open>
  the scanning loops of \<open>GetNum\<close> and \<open>GetAllQueueData\<close> end on every queue that holds a list
  of messages, and return the number of the messages and the messages, oldest first, appended to
  the caller's vector.
\<close>
lemma queue_scan:
  assumes "sq_rel q ms"
  shows "GetNum q = Some (int (length ms))
    \<and> GetAllQueueData q acc 0 0 = Some (SHM_SUCCESS, acc @ ms)"
  using assms GetNum_loop_eq [of q "uiHead q" ms 0] GetAll_loop_eq [of q "uiHead q" ms acc]
  by (simp add: sq_rel_def GetNum_def GetAllQueueData_def)

lemma queue_scan_witness:
  "GetNum queue_example = Some 0 \<and> GetAllQueueData queue_example [[7]] 0 0 = Some (0, [[7]])"
  using queue_scan [of queue_example "[]" "[[7]]"] queue_example_rel
  by (simp add: sq_cap_rel_def shm_codes)

text \<open>
  \<open>Init\<close> of a new segment gives an empty queue whose capacity is the segment less its eight
  header bytes; attaching to a segment that exists gives a queue with exactly the messages a
  previous process left there, so that a restart loses nothing.
\<close>
lemma Queue_Init_spec:
  assumes "8 < length mem" "length mem \<le> 2 ^ 31 + 8"
    and "sq_rel q ms"
  shows "(\<exists>q'. Queue_Init ShmSuccess True mem True = (SHM_SUCCESS, Some q')
            \<and> sq_cap_rel (length mem - 8) q' [])
    \<and> (\<exists>q'. Queue_Init ShmExist True (le_bytes 4 (uiHead q) @ le_bytes 4 (uiTail q) @ qdata q) True
              = (SHM_SUCCESS, Some q') \<and> sq_rel q' ms)"
proof (intro conjI)
  show "\<exists>q'. Queue_Init ShmSuccess True mem True = (SHM_SUCCESS, Some q')
      \<and> sq_cap_rel (length mem - 8) q' []"
    using sq_rel_Init [of mem] assms
    by (simp add: Queue_Init_def sq_cap_rel_def sq_rel_def sq_at_def ring_used_def ring_read_def)
next
  let ?mem = "le_bytes 4 (uiHead q) @ le_bytes 4 (uiTail q) @ qdata q"
  have "mem_read ?mem 4 4 = le_bytes 4 (uiTail q)" by (simp add: mem_read_skip)
  moreover have "of_nat (length (qdata q)) = m_QueueDataSize q"
    using assms by (simp add: sq_rel_def sq_wf_def unat_u32_of_nat word_unat_eq_iff)
  ultimately show "\<exists>q'. Queue_Init ShmExist True ?mem True = (SHM_SUCCESS, Some q') \<and> sq_rel q' ms"
    using assms by (simp add: Queue_Init_def sq_rel_def sq_wf_def sq_at_def)
qed

lemma Queue_Init_spec_witness:
  "(\<exists>q'. Queue_Init ShmSuccess True (replicate 28 0) True = (SHM_SUCCESS, Some q') \<and> sq_cap_rel 20 q' [])
    \<and> (\<exists>q'. Queue_Init ShmExist True (le_bytes 4 (15 :: u32) @ le_bytes 4 (15 :: u32) @ replicate 20 0) True
         = (SHM_SUCCESS, Some q') \<and> sq_rel q' [])"
  using Queue_Init_spec [of "replicate 28 0" queue_example "[]"] queue_example_rel
  by (simp add: sq_cap_rel_def queue_example_def)

text \<open>
  The length of a record is computed in 32 bits: a message of \<open>2 ^ 32 - 1\<close> bytes has a record of 3
  bytes, which passes the test against the free space.
\<close>
lemma InQueue_record_wraps:
  assumes "sq_rel q ms" "queue_bytes ms + 3 < length (qdata q)"
  shows "fst (InQueue q pData (2 ^ 32 - 1) False 0) = SHM_SUCCESS"
proof -
  have "unat (FreeSpace q (uiHead q) (uiTail q)) = length (qdata q) - queue_bytes ms - 1"
    using assms FreeSpace_unat [of q] sq_rel_used [of q ms] by (simp add: sq_rel_def)
  with assms have "\<not> unat (FreeSpace q (uiHead q) (uiTail q)) < 3" by linarith
  then show ?thesis by (simp add: InQueue_def Let_def u32_order)
qed

end
