(* ===== verification/HashList.thy ===== *)
theory HashList
  imports Prelude "HOL-Library.Monad_Syntax" "HOL-Library.Multiset"
begin

text \<open>
  The shared-memory hash table \<open>CHashListNoLock\<close> (\<^verbatim>\<open>mmlib/hash_list/hash_list_nolock.h\<close>), which
  holds the user-to-connection table of the connection server and the user table. A table is a
  header, an array of index nodes and an array of data nodes; links are \<open>int\<close> positions in the
  data array, 0 standing for the null link, and node 0 is never used. Keys are the 64-bit keys the
  program instantiates the template with, the data type is a parameter.

  An operation returns \<open>None\<close> when the C++ code would leave one of the arrays or walk a cyclic
  list for ever; the theory shows that this never happens on a well-formed table, that the table
  refines a finite map with a capacity, and that \<open>Verify\<close> accepts every well-formed table.
\<close>

section \<open>Memory layout\<close>

record hl_head =
  iSize :: int
  iTotalDataNodeNum :: int
  iUsedDataNodeNum :: int
  iIndexNodeNum :: int
  ipFreeDataNodeList :: int

record index_node =
  iHashVal :: int
  iDataNodeNum :: int
  ipDataNodeList :: int

record 'd data_node =
  KeyVal :: u64
  ipNextDataNode :: int
  Data :: 'd

record 'd hashlist =
  m_pstHead :: hl_head
  m_pstIndex :: "index_node list"
  m_pstData :: "'d data_node list"
  m_iIndexNodeNum :: int
  m_iDataNodeNum :: int

definition HL_SUCCESS :: int where "HL_SUCCESS = 0"
definition HL_ERROR :: int where "HL_ERROR = -1"
definition E_HASH_LIST_MEM_SIZE :: int where "E_HASH_LIST_MEM_SIZE = -101"
definition E_HASH_LIST_INDEX_NUM :: int where "E_HASH_LIST_INDEX_NUM = -102"
definition E_HASH_LIST_DATA_NUM :: int where "E_HASH_LIST_DATA_NUM = -103"
definition E_HASH_LIST_NO_SPACE :: int where "E_HASH_LIST_NO_SPACE = -104"
definition E_HASH_LIST_NO_NODE :: int where "E_HASH_LIST_NO_NODE = -105"
definition E_HASH_LIST_NODE_EXIST :: int where "E_HASH_LIST_NODE_EXIST = -106"
definition E_HASH_LIST_VERIFY_INDEX_HASHVAL :: int where "E_HASH_LIST_VERIFY_INDEX_HASHVAL = -108"
definition E_HASH_LIST_VERIFY_INDEX_DATANUM :: int where "E_HASH_LIST_VERIFY_INDEX_DATANUM = -109"
definition E_HASH_LIST_VERIFY_DATA_PTR :: int where "E_HASH_LIST_VERIFY_DATA_PTR = -110"
definition E_HASH_LIST_VERIFY_HEAD_USEDDATANUM :: int where
  "E_HASH_LIST_VERIFY_HEAD_USEDDATANUM = -111"
definition E_HASH_LIST_VERIFY_HEAD_TOTALDATANUM :: int where
  "E_HASH_LIST_VERIFY_HEAD_TOTALDATANUM = -113"

lemmas hl_codes = HL_SUCCESS_def HL_ERROR_def E_HASH_LIST_MEM_SIZE_def E_HASH_LIST_INDEX_NUM_def
  E_HASH_LIST_DATA_NUM_def E_HASH_LIST_NO_SPACE_def E_HASH_LIST_NO_NODE_def
  E_HASH_LIST_NODE_EXIST_def E_HASH_LIST_VERIFY_INDEX_HASHVAL_def
  E_HASH_LIST_VERIFY_INDEX_DATANUM_def E_HASH_LIST_VERIFY_DATA_PTR_def
  E_HASH_LIST_VERIFY_HEAD_USEDDATANUM_def E_HASH_LIST_VERIFY_HEAD_TOTALDATANUM_def

text \<open>Array accesses \<open>m_pstData[ip]\<close> and \<open>m_pstIndex[i]\<close>; \<open>None\<close> outside the array.\<close>

definition arr_get :: "'a list \<Rightarrow> int \<Rightarrow> 'a option" where
  "arr_get xs i = (if 0 \<le> i \<and> i < int (length xs) then Some (xs ! nat i) else None)"

definition arr_set :: "'a list \<Rightarrow> int \<Rightarrow> 'a \<Rightarrow> 'a list option" where
  "arr_set xs i x = (if 0 \<le> i \<and> i < int (length xs) then Some (xs[nat i := x]) else None)"

section \<open>Operations\<close>

text \<open>
  The head has 20 bytes, an index node 12; the size \<open>dsz\<close> of a data node depends on the data type.
  The sizes are added in \<open>int\<close>, with the wrap-around of the machine.
\<close>

definition int32 :: "int \<Rightarrow> int" where
  "int32 i = sint (word_of_int i :: u32)"

definition CalcSize :: "int \<Rightarrow> int \<Rightarrow> int \<Rightarrow> int" where
  "CalcSize dsz iIndexNum iNodeNum = int32 (20 + iIndexNum * 12 + iNodeNum * dsz)"

text \<open>\<open>Init\<close> is given the memory as the arrays the three pointers denote after their assignment.\<close>

definition HL_Init :: "int \<Rightarrow> 'd hashlist \<Rightarrow> int \<Rightarrow> int \<Rightarrow> int \<Rightarrow> int \<times> 'd hashlist" where
  "HL_Init dsz h iMemSize iIndexNum iDataNum =
     (let iTotalMemSize = CalcSize dsz iIndexNum iDataNum
      in if iTotalMemSize > iMemSize then (E_HASH_LIST_MEM_SIZE, h)
         else if iIndexNum < 1 then (E_HASH_LIST_INDEX_NUM, h)
         else if iDataNum < 2 then (E_HASH_LIST_DATA_NUM, h)
         else (HL_SUCCESS,
               h\<lparr>m_pstHead := (m_pstHead h)\<lparr>iSize := iMemSize, iIndexNodeNum := iIndexNum,
                                             iTotalDataNodeNum := iDataNum\<rparr>,
                 m_iIndexNodeNum := iIndexNum, m_iDataNodeNum := iDataNum\<rparr>))"

text \<open>\<open>Key % iIndexNodeNum\<close>: the divisor is converted to the key's 64 bits, the result to \<open>int\<close>.\<close>

definition Hash :: "'d hashlist \<Rightarrow> u64 \<Rightarrow> int" where
  "Hash h Key = int32 (uint (Key mod word_of_int (iIndexNodeNum (m_pstHead h))))"

text \<open>The search loop every operation starts with, and the one of \<open>Remove\<close>.\<close>

partial_function (option) find_node :: "'d data_node list \<Rightarrow> u64 \<Rightarrow> int \<Rightarrow> int option" where
  "find_node data Key ipData =
     (if ipData = 0 then Some 0
      else do {
        n \<leftarrow> arr_get data ipData;
        if KeyVal n \<noteq> Key then find_node data Key (ipNextDataNode n) else Some ipData
      })"

partial_function (option) find_node_last ::
  "'d data_node list \<Rightarrow> u64 \<Rightarrow> int \<Rightarrow> int \<Rightarrow> (int \<times> int) option" where
  "find_node_last data Key ipLastData ipData =
     (if ipData = 0 then Some (ipLastData, 0)
      else do {
        n \<leftarrow> arr_get data ipData;
        if KeyVal n \<noteq> Key then find_node_last data Key ipData (ipNextDataNode n)
        else Some (ipLastData, ipData)
      })"

definition GetFreeNode :: "'d hashlist \<Rightarrow> (int \<times> 'd hashlist) option" where
  "GetFreeNode h =
     (let hd = m_pstHead h;
          iFreeNodeNum = iTotalDataNodeNum hd - iUsedDataNodeNum hd;
          iFreeNode = ipFreeDataNodeList hd
      in if iFreeNodeNum \<le> 0 \<or> iFreeNode \<le> 0 then Some (E_HASH_LIST_NO_SPACE, h)
         else do {
           n \<leftarrow> arr_get (m_pstData h) iFreeNode;
           Some (iFreeNode, h\<lparr>m_pstHead := hd\<lparr>iUsedDataNodeNum := iUsedDataNodeNum hd + 1,
                                 ipFreeDataNodeList := ipNextDataNode n\<rparr>\<rparr>)
         })"

definition RecycleNode :: "'d hashlist \<Rightarrow> int \<Rightarrow> (int \<times> 'd hashlist) option" where
  "RecycleNode h iNode =
     (let hd = m_pstHead h
      in if iNode = 0 \<or> iNode > iTotalDataNodeNum hd then Some (HL_ERROR, h)
         else do {
           n \<leftarrow> arr_get (m_pstData h) iNode;
           data \<leftarrow> arr_set (m_pstData h) iNode (n\<lparr>ipNextDataNode := ipFreeDataNodeList hd\<rparr>);
           Some (HL_SUCCESS, h\<lparr>m_pstHead := hd\<lparr>iUsedDataNodeNum := iUsedDataNodeNum hd - 1,
                                 ipFreeDataNodeList := iNode\<rparr>, m_pstData := data\<rparr>)
         })"

text \<open>
  \<open>Insert\<close> and \<open>InsertWithRet\<close> differ only in that the latter copies the data of a node that
  exists to the caller.
\<close>

definition link_node :: "'d hashlist \<Rightarrow> int \<Rightarrow> u64 \<Rightarrow> 'd \<Rightarrow> (int \<times> 'd hashlist) option" where
  "link_node h hashval Key d =
     do {
       (ipFreeNode, h) \<leftarrow> GetFreeNode h;
       if ipFreeNode > 0
       then do {
         ix \<leftarrow> arr_get (m_pstIndex h) hashval;
         data \<leftarrow> arr_set (m_pstData h) ipFreeNode
                  \<lparr>KeyVal = Key, ipNextDataNode = ipDataNodeList ix, Data = d\<rparr>;
         index \<leftarrow> arr_set (m_pstIndex h) hashval
                  (ix\<lparr>ipDataNodeList := ipFreeNode, iDataNodeNum := iDataNodeNum ix + 1\<rparr>);
         Some (HL_SUCCESS, h\<lparr>m_pstData := data, m_pstIndex := index\<rparr>)
       }
       else Some (ipFreeNode, h)
     }"

definition HL_Insert :: "'d hashlist \<Rightarrow> u64 \<Rightarrow> 'd \<Rightarrow> (int \<times> 'd hashlist) option" where
  "HL_Insert h Key d =
     do {
       let hashval = Hash h Key;
       ix \<leftarrow> arr_get (m_pstIndex h) hashval;
       ipData \<leftarrow> find_node (m_pstData h) Key (ipDataNodeList ix);
       if ipData > 0 then Some (E_HASH_LIST_NODE_EXIST, h) else link_node h hashval Key d
     }"

definition HL_InsertWithRet :: "'d hashlist \<Rightarrow> u64 \<Rightarrow> 'd \<Rightarrow> (int \<times> 'd \<times> 'd hashlist) option" where
  "HL_InsertWithRet h Key d =
     do {
       let hashval = Hash h Key;
       ix \<leftarrow> arr_get (m_pstIndex h) hashval;
       ipData \<leftarrow> find_node (m_pstData h) Key (ipDataNodeList ix);
       if ipData > 0
       then do { n \<leftarrow> arr_get (m_pstData h) ipData; Some (E_HASH_LIST_NODE_EXIST, Data n, h) }
       else do { (r, h) \<leftarrow> link_node h hashval Key d; Some (r, d, h) }
     }"

text \<open>\<open>Get\<close> returns the position of the node whose data the C++ pointer denotes, 0 for \<open>NULL\<close>.\<close>

definition HL_Get :: "'d hashlist \<Rightarrow> u64 \<Rightarrow> int option" where
  "HL_Get h Key =
     do {
       ix \<leftarrow> arr_get (m_pstIndex h) (Hash h Key);
       ipData \<leftarrow> find_node (m_pstData h) Key (ipDataNodeList ix);
       Some (if ipData > 0 then ipData else 0)
     }"

text \<open>Reading and writing the data through such a pointer.\<close>

definition HL_deref :: "'d hashlist \<Rightarrow> int \<Rightarrow> 'd option" where
  "HL_deref h ip = map_option Data (arr_get (m_pstData h) ip)"

definition HL_assign :: "'d hashlist \<Rightarrow> int \<Rightarrow> 'd \<Rightarrow> 'd hashlist option" where
  "HL_assign h ip d =
     do {
       n \<leftarrow> arr_get (m_pstData h) ip;
       data \<leftarrow> arr_set (m_pstData h) ip (n\<lparr>Data := d\<rparr>);
       Some (h\<lparr>m_pstData := data\<rparr>)
     }"

definition HL_GetData :: "'d hashlist \<Rightarrow> u64 \<Rightarrow> 'd \<Rightarrow> (int \<times> 'd) option" where
  "HL_GetData h Key d =
     do {
       ix \<leftarrow> arr_get (m_pstIndex h) (Hash h Key);
       ipData \<leftarrow> find_node (m_pstData h) Key (ipDataNodeList ix);
       if ipData > 0
       then do { n \<leftarrow> arr_get (m_pstData h) ipData; Some (HL_SUCCESS, Data n) }
       else Some (E_HASH_LIST_NO_NODE, d)
     }"

definition HL_Update :: "'d hashlist \<Rightarrow> u64 \<Rightarrow> 'd \<Rightarrow> (int \<times> 'd hashlist) option" where
  "HL_Update h Key d =
     do {
       ix \<leftarrow> arr_get (m_pstIndex h) (Hash h Key);
       ipData \<leftarrow> find_node (m_pstData h) Key (ipDataNodeList ix);
       if ipData > 0
       then do { h \<leftarrow> HL_assign h ipData d; Some (HL_SUCCESS, h) }
       else Some (E_HASH_LIST_NO_NODE, h)
     }"

definition unlink_node :: "'d hashlist \<Rightarrow> int \<Rightarrow> int \<Rightarrow> int \<Rightarrow> 'd hashlist option" where
  "unlink_node h hashval ipLastData ipData =
     do {
       ix \<leftarrow> arr_get (m_pstIndex h) hashval;
       n \<leftarrow> arr_get (m_pstData h) ipData;
       if ipLastData = 0
       then do {
         index \<leftarrow> arr_set (m_pstIndex h) hashval
                  (ix\<lparr>ipDataNodeList := ipNextDataNode n, iDataNodeNum := iDataNodeNum ix - 1\<rparr>);
         Some (h\<lparr>m_pstIndex := index\<rparr>)
       }
       else do {
         l \<leftarrow> arr_get (m_pstData h) ipLastData;
         data \<leftarrow> arr_set (m_pstData h) ipLastData (l\<lparr>ipNextDataNode := ipNextDataNode n\<rparr>);
         index \<leftarrow> arr_set (m_pstIndex h) hashval (ix\<lparr>iDataNodeNum := iDataNodeNum ix - 1\<rparr>);
         Some (h\<lparr>m_pstData := data, m_pstIndex := index\<rparr>)
       }
     }"

definition HL_Remove :: "'d hashlist \<Rightarrow> u64 \<Rightarrow> (int \<times> 'd hashlist) option" where
  "HL_Remove h Key =
     do {
       let hashval = Hash h Key;
       ix \<leftarrow> arr_get (m_pstIndex h) hashval;
       (ipLastData, ipData) \<leftarrow> find_node_last (m_pstData h) Key 0 (ipDataNodeList ix);
       if ipData > 0
       then do { h \<leftarrow> unlink_node h hashval ipLastData ipData; RecycleNode h ipData }
       else Some (E_HASH_LIST_NO_NODE, h)
     }"

text \<open>
  \<open>ProcessAll\<close> calls back on every node of one index, in list order. The callback may change the
  data of the node and threads the private data \<open>'p\<close>; it does not restructure the table.
\<close>

partial_function (option) process_loop ::
  "(u64 \<Rightarrow> 'd \<Rightarrow> 'p \<Rightarrow> 'd \<times> 'p) \<Rightarrow> 'd data_node list \<Rightarrow> int \<Rightarrow> 'p \<Rightarrow> ('d data_node list \<times> 'p) option" where
  "process_loop CallBackFunc data ipData p =
     (if ipData = 0 then Some (data, p)
      else do {
        n \<leftarrow> arr_get data ipData;
        let ipNextData = ipNextDataNode n;
        let (d, p) = CallBackFunc (KeyVal n) (Data n) p;
        data \<leftarrow> arr_set data ipData (n\<lparr>Data := d\<rparr>);
        process_loop CallBackFunc data ipNextData p
      })"

definition HL_ProcessAll ::
  "(u64 \<Rightarrow> 'd \<Rightarrow> 'p \<Rightarrow> 'd \<times> 'p) \<Rightarrow> 'd hashlist \<Rightarrow> int \<Rightarrow> 'p \<Rightarrow> (int \<times> 'd hashlist \<times> 'p) option" where
  "HL_ProcessAll CallBackFunc h iIndex p =
     do {
       ix \<leftarrow> arr_get (m_pstIndex h) iIndex;
       if iDataNodeNum ix > 0
       then do {
         (data, p) \<leftarrow> process_loop CallBackFunc (m_pstData h) (ipDataNodeList ix) p;
         Some (HL_SUCCESS, h\<lparr>m_pstData := data\<rparr>, p)
       }
       else Some (HL_SUCCESS, h, p)
     }"

text \<open>The loop over all indices with which the program visits every entry of a table.\<close>

primrec ProcessAll_upto ::
  "(u64 \<Rightarrow> 'd \<Rightarrow> 'p \<Rightarrow> 'd \<times> 'p) \<Rightarrow> nat \<Rightarrow> 'd hashlist \<Rightarrow> 'p \<Rightarrow> ('d hashlist \<times> 'p) option" where
  "ProcessAll_upto CallBackFunc 0 h p = Some (h, p)"
| "ProcessAll_upto CallBackFunc (Suc i) h p =
     do {
       (h, p) \<leftarrow> ProcessAll_upto CallBackFunc i h p;
       (r, h, p) \<leftarrow> HL_ProcessAll CallBackFunc h (int i) p;
       Some (h, p)
     }"

text \<open>
  The two counting loops of \<open>Verify\<close>: \<open>Inr n\<close> is the number of nodes of a list, \<open>Inl\<close> the error.
\<close>

partial_function (option) count_loop :: "'d data_node list \<Rightarrow> int \<Rightarrow> int \<Rightarrow> int \<Rightarrow> (int + int) option" where
  "count_loop data tot ipData cnt =
     (if ipData = 0 then Some (Inr cnt)
      else if ipData > tot then Some (Inl E_HASH_LIST_VERIFY_DATA_PTR)
      else do {
        n \<leftarrow> arr_get data ipData;
        count_loop data tot (ipNextDataNode n) (cnt + 1)
      })"

fun verify_index :: "'d data_node list \<Rightarrow> int \<Rightarrow> index_node list \<Rightarrow> int \<Rightarrow> int \<Rightarrow> (int + int) option" where
  "verify_index data tot [] i used = Some (Inr used)"
| "verify_index data tot (ix # ixs) i used =
     (if iHashVal ix \<noteq> i then Some (Inl E_HASH_LIST_VERIFY_INDEX_HASHVAL)
      else do {
        r \<leftarrow> count_loop data tot (ipDataNodeList ix) 0;
        case r of
          Inl e \<Rightarrow> Some (Inl e)
        | Inr n \<Rightarrow> if n \<noteq> iDataNodeNum ix then Some (Inl E_HASH_LIST_VERIFY_INDEX_DATANUM)
                   else verify_index data tot ixs (i + 1) (used + n)
      })"

definition HL_Verify :: "'d hashlist \<Rightarrow> int option" where
  "HL_Verify h =
     (let hd = m_pstHead h; tot = iTotalDataNodeNum hd; data = m_pstData h
      in if iIndexNodeNum hd > int (length (m_pstIndex h)) then None
         else do {
           r \<leftarrow> verify_index data tot (take (nat (iIndexNodeNum hd)) (m_pstIndex h)) 0 1;
           case r of
             Inl e \<Rightarrow> Some e
           | Inr used \<Rightarrow>
               if used \<noteq> iUsedDataNodeNum hd then Some E_HASH_LIST_VERIFY_HEAD_USEDDATANUM
               else do {
                 f \<leftarrow> count_loop data tot (ipFreeDataNodeList hd) 0;
                 case f of
                   Inl e \<Rightarrow> Some e
                 | Inr free \<Rightarrow> if free + iUsedDataNodeNum hd \<noteq> tot
                               then Some E_HASH_LIST_VERIFY_HEAD_TOTALDATANUM else Some 0
               }
         })"

text \<open>
  \<open>Clear\<close>: \<open>z\<close> is the all-zero value of the data type, which \<open>memset\<close> leaves in every node. Node 0
  is zeroed and not linked; the others form the free list.
\<close>

definition HL_Clear :: "'d \<Rightarrow> 'd hashlist \<Rightarrow> int \<times> 'd hashlist" where
  "HL_Clear z h =
     (let hd = m_pstHead h; tot = iTotalDataNodeNum hd
      in (0, h\<lparr>m_pstHead := hd\<lparr>iUsedDataNodeNum := 1, ipFreeDataNodeList := 1\<rparr>,
               m_pstIndex := map (\<lambda>i. \<lparr>iHashVal = i, iDataNodeNum = 0, ipDataNodeList = 0\<rparr>)
                               [0..iIndexNodeNum hd - 1],
               m_pstData := map (\<lambda>i. \<lparr>KeyVal = 0,
                     ipNextDataNode = (if i = tot - 1 then 0 else if 1 \<le> i then i + 1 else 0),
                     Data = z\<rparr>) [0..tot - 1]\<rparr>))"

definition HL_GetIndexNum :: "'d hashlist \<Rightarrow> int" where
  "HL_GetIndexNum h = m_iIndexNodeNum h"

definition HL_GetUsedDataNum :: "'d hashlist \<Rightarrow> int" where
  "HL_GetUsedDataNum h = iUsedDataNodeNum (m_pstHead h)"

definition HL_GetHeadInfo :: "'d hashlist \<Rightarrow> int \<times> int \<times> int \<times> int" where
  "HL_GetHeadInfo h = (let hd = m_pstHead h
     in (iSize hd, iTotalDataNodeNum hd, iIndexNodeNum hd, iUsedDataNodeNum hd))"

section \<open>Linked lists in the data array\<close>

lemma sint_int32: "- (2 ^ 31) \<le> i \<Longrightarrow> i < 2 ^ 31 \<Longrightarrow> sint (word_of_int i :: u32) = i"
  by (simp add: signed_of_int signed_take_bit_int_eq_self)

lemma arr_get_in [simp]: "0 < i \<Longrightarrow> i < int (length xs) \<Longrightarrow> arr_get xs i = Some (xs ! nat i)"
  and arr_set_in [simp]: "0 < i \<Longrightarrow> i < int (length xs) \<Longrightarrow> arr_set xs i x = Some (xs[nat i := x])"
  by (simp_all add: arr_get_def arr_set_def)

lemma arr_get_nat [simp]: "i < length xs \<Longrightarrow> arr_get xs (int i) = Some (xs ! i)"
  and arr_set_nat [simp]: "i < length xs \<Longrightarrow> arr_set xs (int i) x = Some (xs[i := x])"
  by (simp_all add: arr_get_def arr_set_def)

text \<open>\<open>chain data p xs\<close>: following the links from \<open>p\<close> visits the nodes \<open>xs\<close> and ends at 0.\<close>

fun chain :: "'d data_node list \<Rightarrow> int \<Rightarrow> int list \<Rightarrow> bool" where
  "chain data p [] \<longleftrightarrow> p = 0"
| "chain data p (x # xs) \<longleftrightarrow> p = x \<and> 0 < x \<and> x < int (length data)
     \<and> chain data (ipNextDataNode (data ! nat x)) xs"

definition key_at :: "'d data_node list \<Rightarrow> int \<Rightarrow> u64" where
  "key_at data x = KeyVal (data ! nat x)"

lemma chain_range: "chain data p xs \<Longrightarrow> x \<in> set xs \<Longrightarrow> 0 < x \<and> x < int (length data)"
  by (induction xs arbitrary: p) auto

lemma chain_cong:
  "chain data p xs \<Longrightarrow> length data' = length data \<Longrightarrow>
   (\<And>x. x \<in> set xs \<Longrightarrow> ipNextDataNode (data' ! nat x) = ipNextDataNode (data ! nat x)) \<Longrightarrow>
   chain data' p xs"
  by (induction xs arbitrary: p) auto

lemma nth_update_other: "0 < x \<Longrightarrow> 0 < y \<Longrightarrow> x \<noteq> y \<Longrightarrow> data[nat y := n] ! nat x = data ! nat x"
  by (simp add: nat_eq_iff2)

lemma chain_update_other:
  assumes "chain data p xs" "0 < y" "y \<notin> set xs"
  shows "chain (data[nat y := n]) p xs"
proof (rule chain_cong [OF assms(1)])
  fix x assume "x \<in> set xs"
  with assms chain_range [OF assms(1)] show "ipNextDataNode (data[nat y := n] ! nat x) = ipNextDataNode (data ! nat x)"
    by (subst nth_update_other) auto
qed simp

lemma chain_unlink:
  assumes "chain data p (as @ x # bs)" "as \<noteq> []" "distinct (as @ x # bs)"
  shows "chain (data[nat (last as) := (data ! nat (last as))\<lparr>ipNextDataNode := ipNextDataNode (data ! nat x)\<rparr>])
           p (as @ bs)"
  using assms
proof (induction as arbitrary: p)
  case (Cons a as)
  show ?case
  proof (cases "as = []")
    case True
    with Cons.prems have "chain data (ipNextDataNode (data ! nat x)) bs" "0 < a" "a \<notin> set bs" by auto
    from chain_update_other [OF this] Cons.prems True show ?thesis by auto
  next
    case False
    have "0 < last as" "a \<noteq> last as" "0 < a"
      using False Cons.prems chain_range [OF Cons.prems(1), of "last as"] by auto
    with Cons False show ?thesis by (simp add: nth_update_other)
  qed
qed simp

lemma find_node_eq:
  "chain data p xs \<Longrightarrow>
   find_node data k p = Some (case find (\<lambda>x. key_at data x = k) xs of None \<Rightarrow> 0 | Some x \<Rightarrow> x)"
  by (induction xs arbitrary: p) (auto simp: find_node.simps key_at_def)

lemma find_node_last_absent:
  "chain data p xs \<Longrightarrow> \<forall>x\<in>set xs. key_at data x \<noteq> k \<Longrightarrow> \<exists>l'. find_node_last data k l p = Some (l', 0)"
  by (induction xs arbitrary: p l) (auto simp: find_node_last.simps key_at_def)

lemma find_node_last_present:
  "chain data p (as @ x # bs) \<Longrightarrow> \<forall>a\<in>set as. key_at data a \<noteq> k \<Longrightarrow> key_at data x = k \<Longrightarrow>
   find_node_last data k l p = Some (if as = [] then l else last as, x)"
  by (induction as arbitrary: p l) (auto simp: find_node_last.simps key_at_def)

lemma count_loop_eq:
  "chain data p xs \<Longrightarrow> int (length data) \<le> tot \<Longrightarrow>
   count_loop data tot p n = Some (Inr (n + int (length xs)))"
  by (induction xs arbitrary: p n) (auto simp: count_loop.simps)

section \<open>The invariant and the map a table stands for\<close>

definition bucket_ok :: "'d hashlist \<Rightarrow> nat \<Rightarrow> int list \<Rightarrow> bool" where
  "bucket_ok h i c \<longleftrightarrow> iHashVal (m_pstIndex h ! i) = int i
     \<and> iDataNodeNum (m_pstIndex h ! i) = int (length c)
     \<and> chain (m_pstData h) (ipDataNodeList (m_pstIndex h ! i)) c
     \<and> (\<forall>x\<in>set c. Hash h (key_at (m_pstData h) x) = int i)
     \<and> distinct (map (key_at (m_pstData h)) c)"

text \<open>\<open>cs\<close> are the node lists of the index entries, \<open>fs\<close> the free list; together they are all nodes.\<close>

definition hl_inv :: "'d hashlist \<Rightarrow> int list list \<Rightarrow> int list \<Rightarrow> bool" where
  "hl_inv h cs fs \<longleftrightarrow> 0 < iIndexNodeNum (m_pstHead h) \<and> iIndexNodeNum (m_pstHead h) < 2 ^ 31
     \<and> int (length (m_pstIndex h)) = iIndexNodeNum (m_pstHead h)
     \<and> length cs = length (m_pstIndex h)
     \<and> int (length (m_pstData h)) = iTotalDataNodeNum (m_pstHead h)
     \<and> (\<forall>i<length cs. bucket_ok h i (cs ! i))
     \<and> chain (m_pstData h) (ipFreeDataNodeList (m_pstHead h)) fs
     \<and> distinct (concat cs @ fs)
     \<and> int (length (concat cs @ fs)) + 1 = iTotalDataNodeNum (m_pstHead h)
     \<and> iUsedDataNodeNum (m_pstHead h) = 1 + int (length (concat cs))"

definition bucket_lookup :: "'d data_node list \<Rightarrow> int list \<Rightarrow> u64 \<Rightarrow> 'd option" where
  "bucket_lookup data c k =
     map_option (\<lambda>x. Data (data ! nat x)) (find (\<lambda>x. key_at data x = k) c)"

definition lookup :: "'d hashlist \<Rightarrow> int list list \<Rightarrow> u64 \<Rightarrow> 'd option" where
  "lookup h cs k = bucket_lookup (m_pstData h) (cs ! nat (Hash h k)) k"

definition hl_rel :: "'d hashlist \<Rightarrow> (u64 \<rightharpoonup> 'd) \<Rightarrow> bool" where
  "hl_rel h m \<longleftrightarrow> (\<exists>cs fs. hl_inv h cs fs \<and> m = lookup h cs) \<and> finite (dom m)
     \<and> iUsedDataNodeNum (m_pstHead h) = 1 + int (card (dom m))"

lemma Hash_eq:
  assumes "0 < iIndexNodeNum (m_pstHead h)" "iIndexNodeNum (m_pstHead h) < 2 ^ 31"
  shows "Hash h k = uint k mod iIndexNodeNum (m_pstHead h)"
proof -
  let ?n = "iIndexNodeNum (m_pstHead h)"
  have "uint (word_of_int ?n :: u64) = ?n"
    using assms by (simp add: uint_word_of_int)
  then have u: "uint (k mod word_of_int ?n) = uint k mod ?n" by (simp add: uint_mod_distrib)
  have "0 \<le> uint k mod ?n" "uint k mod ?n < 2 ^ 31"
    using assms pos_mod_bound [of ?n "uint k"] by (simp, linarith)
  then have "sint (word_of_int (uint k mod ?n) :: u32) = uint k mod ?n"
    by (simp add: int_word_sint signed_take_bit_int_eq_self)
  then show ?thesis by (simp add: Hash_def int32_def u)
qed

lemma Hash_range:
  assumes "hl_inv h cs fs"
  obtains i where "Hash h k = int i" "i < length cs" "i < length (m_pstIndex h)"
proof (rule that [of "nat (Hash h k)"])
  have "0 \<le> Hash h k" "Hash h k < iIndexNodeNum (m_pstHead h)"
    using assms by (simp_all add: hl_inv_def Hash_eq)
  with assms show "Hash h k = int (nat (Hash h k))" "nat (Hash h k) < length cs"
    "nat (Hash h k) < length (m_pstIndex h)" by (auto simp: hl_inv_def)
qed

lemma Hash_head:
  "iIndexNodeNum (m_pstHead h') = iIndexNodeNum (m_pstHead h) \<Longrightarrow> Hash h' k = Hash h k"
  by (simp add: Hash_def)

lemma bucket_ok_node: "bucket_ok h i c \<Longrightarrow> x \<in> set c \<Longrightarrow> 0 < x \<and> x < int (length (m_pstData h))"
  using chain_range unfolding bucket_ok_def by blast

lemma bucket_ok_cong:
  assumes "bucket_ok h i c" "m_pstIndex h' ! i = m_pstIndex h ! i"
    "iIndexNodeNum (m_pstHead h') = iIndexNodeNum (m_pstHead h)"
    "length (m_pstData h') = length (m_pstData h)"
    "\<And>x. x \<in> set c \<Longrightarrow> KeyVal (m_pstData h' ! nat x) = KeyVal (m_pstData h ! nat x)
        \<and> ipNextDataNode (m_pstData h' ! nat x) = ipNextDataNode (m_pstData h ! nat x)"
  shows "bucket_ok h' i c"
proof -
  have k: "map (key_at (m_pstData h')) c = map (key_at (m_pstData h)) c"
    using assms(5) by (simp add: key_at_def)
  have "Hash h' (key_at (m_pstData h') x) = Hash h (key_at (m_pstData h) x)" if "x \<in> set c" for x
    using that assms(3,5) by (simp add: key_at_def Hash_def)
  moreover have "chain (m_pstData h') (ipDataNodeList (m_pstIndex h ! i)) c"
    using assms(1,4,5) chain_cong [of "m_pstData h" _ c "m_pstData h'"] by (simp add: bucket_ok_def)
  moreover have "distinct (map (key_at (m_pstData h')) c)"
    unfolding k using assms(1) by (simp add: bucket_ok_def)
  ultimately show ?thesis using assms(1,2) by (simp add: bucket_ok_def)
qed

lemma mset_concat_update:
  "i < length cs \<Longrightarrow> mset (concat (cs[i := c])) + mset (cs ! i) = mset (concat cs) + mset c"
proof -
  assume i: "i < length cs"
  then have "concat cs = concat (take i cs) @ (cs ! i) @ concat (drop (Suc i) cs)"
    by (metis concat.simps(2) concat_append id_take_nth_drop)
  with i show ?thesis by (simp add: upd_conv_take_nth_drop)
qed

lemma in_concat_nth: "j < length cs \<Longrightarrow> x \<in> set (cs ! j) \<Longrightarrow> x \<in> set (concat cs)"
  by auto

lemma hl_inv_bucket: "hl_inv h cs fs \<Longrightarrow> i < length cs \<Longrightarrow> bucket_ok h i (cs ! i)"
  by (simp add: hl_inv_def)

lemma hl_inv_node:
  assumes "hl_inv h cs fs" "x \<in> set (concat cs @ fs)"
  shows "0 < x \<and> x < int (length (m_pstData h))"
proof -
  consider "x \<in> set fs" | i where "i < length cs" "x \<in> set (cs ! i)"
    using assms(2) by (metis UnE UN_E in_set_conv_nth set_append set_concat)
  then show ?thesis
  proof cases
    case 1
    with assms(1) chain_range show ?thesis unfolding hl_inv_def by blast
  next
    case 2
    with hl_inv_bucket [OF assms(1)] chain_range show ?thesis unfolding bucket_ok_def by blast
  qed
qed

lemma bucket_lookup_simps [simp]:
  "bucket_lookup data [] k = None"
  "bucket_lookup data (x # c) k =
     (if key_at data x = k then Some (Data (data ! nat x)) else bucket_lookup data c k)"
  by (simp_all add: bucket_lookup_def)

lemma bucket_lookup_append:
  "bucket_lookup data (c @ c') k =
     (case bucket_lookup data c k of None \<Rightarrow> bucket_lookup data c' k | Some d \<Rightarrow> Some d)"
  by (induction c) simp_all

lemma bucket_lookup_None: "bucket_lookup data c k = None \<longleftrightarrow> (\<forall>x\<in>set c. key_at data x \<noteq> k)"
  by (induction c) auto

lemma bucket_lookup_cong:
  "(\<And>x. x \<in> set c \<Longrightarrow> KeyVal (data' ! nat x) = KeyVal (data ! nat x) \<and> Data (data' ! nat x) = Data (data ! nat x))
   \<Longrightarrow> bucket_lookup data' c k = bucket_lookup data c k"
  by (induction c) (auto simp: key_at_def)

text \<open>The search loop decides membership, and finds the node that holds the data.\<close>

lemma find_node_bucket:
  assumes "hl_inv h cs fs" "Hash h k = int i" "i < length cs"
  shows "\<exists>x. find_node (m_pstData h) k (ipDataNodeList (m_pstIndex h ! i)) = Some x
    \<and> (case lookup h cs k of
         None \<Rightarrow> x = 0
       | Some d \<Rightarrow> x \<in> set (cs ! i) \<and> 0 < x \<and> x < int (length (m_pstData h))
                   \<and> key_at (m_pstData h) x = k \<and> Data (m_pstData h ! nat x) = d)"
proof -
  have c: "chain (m_pstData h) (ipDataNodeList (m_pstIndex h ! i)) (cs ! i)"
    using hl_inv_bucket [OF assms(1,3)] by (simp add: bucket_ok_def)
  show ?thesis
  proof (cases "find (\<lambda>x. key_at (m_pstData h) x = k) (cs ! i)")
    case None
    with c assms show ?thesis by (simp add: find_node_eq lookup_def bucket_lookup_def)
  next
    case (Some x)
    then have "x \<in> set (cs ! i)" "key_at (m_pstData h) x = k" by (auto simp: find_Some_iff)
    with chain_range [OF c] Some c assms show ?thesis
      by (simp add: find_node_eq lookup_def bucket_lookup_def)
  qed
qed

lemma hl_index:
  assumes "hl_inv h cs fs" "i < length cs"
  shows "arr_get (m_pstIndex h) (int i) = Some (m_pstIndex h ! i)"
    and "arr_set (m_pstIndex h) (int i) ix = Some ((m_pstIndex h)[i := ix])"
  using assms by (simp_all add: hl_inv_def)

lemma hl_inv_disjoint:
  assumes "hl_inv h cs fs" "i < length cs" "j < length cs" "i \<noteq> j" "x \<in> set (cs ! i)"
  shows "x \<notin> set (cs ! j)"
proof
  assume x: "x \<in> set (cs ! j)"
  have "distinct (concat cs)" using assms(1) by (simp add: hl_inv_def)
  have "mset (concat (cs[i := []])) + mset (cs ! i) = mset (concat cs)"
    using mset_concat_update [OF assms(2), of "[]"] by simp
  moreover have "cs ! j \<in> set (cs[i := []])"
    using assms(3,4) by (metis length_list_update nth_list_update_neq nth_mem)
  with x have "x \<in># mset (concat (cs[i := []]))" by auto
  ultimately have "count (mset (concat cs)) x \<ge> 2"
    using assms(5) by (metis add_mono count_greater_eq_one_iff count_union nat_1_add_1 set_mset_mset)
  with \<open>distinct (concat cs)\<close> show False
    by (metis count_eq_zero_iff distinct_count_atmost_1 not_numeral_le_zero numeral_le_one_iff semiring_norm(69))
qed

lemma hl_inv_free_disjoint:
  assumes "hl_inv h cs fs" "f \<in> set fs" "j < length cs"
  shows "f \<notin> set (cs ! j)"
proof -
  have "set (concat cs) \<inter> set fs = {}" using assms(1) by (simp add: hl_inv_def)
  then show ?thesis using assms(2) in_concat_nth [OF assms(3)] by blast
qed

section \<open>The operations on the map\<close>

lemma link_node_full:
  assumes "hl_inv h cs []"
  shows "link_node h i k d = Some (E_HASH_LIST_NO_SPACE, h)"
  using assms by (simp add: link_node_def GetFreeNode_def hl_inv_def Let_def hl_codes)

lemma link_node_ok:
  assumes inv: "hl_inv h cs (f # fs)" and i: "Hash h k = int i" "i < length cs"
    and new: "lookup h cs k = None"
  shows "\<exists>h'. link_node h (int i) k d = Some (HL_SUCCESS, h') \<and> hl_inv h' (cs[i := f # cs ! i]) fs
    \<and> lookup h' (cs[i := f # cs ! i]) = (lookup h cs)(k \<mapsto> d)
    \<and> iUsedDataNodeNum (m_pstHead h') = iUsedDataNodeNum (m_pstHead h) + 1
    \<and> iTotalDataNodeNum (m_pstHead h') = iTotalDataNodeNum (m_pstHead h)"
proof -
  let ?ix = "m_pstIndex h ! i" and ?cs = "cs[i := f # cs ! i]"
  define data where "data = (m_pstData h)[nat f := \<lparr>KeyVal = k, ipNextDataNode = ipDataNodeList ?ix, Data = d\<rparr>]"
  define h' where "h' = h\<lparr>m_pstHead := (m_pstHead h)\<lparr>iUsedDataNodeNum := iUsedDataNodeNum (m_pstHead h) + 1,
        ipFreeDataNodeList := ipNextDataNode (m_pstData h ! nat f)\<rparr>,
      m_pstData := data,
      m_pstIndex := (m_pstIndex h)[i := ?ix\<lparr>ipDataNodeList := f, iDataNodeNum := iDataNodeNum ?ix + 1\<rparr>]\<rparr>"
  have f: "0 < f" "f < int (length (m_pstData h))" "ipFreeDataNodeList (m_pstHead h) = f"
    using inv by (auto simp: hl_inv_def)
  have step: "link_node h (int i) k d = Some (HL_SUCCESS, h')"
    using inv f i hl_index [OF inv i(2)]
    by (auto simp: link_node_def GetFreeNode_def Let_def h'_def data_def hl_inv_def)
  have nf: "f \<notin> set (cs ! j)" if "j < length cs" for j
    using hl_inv_free_disjoint [OF inv _ that] by simp
  have same: "data ! nat x = m_pstData h ! nat x" if "x \<in> set (cs ! j)" "j < length cs" for x j
    using nf [OF that(2)] that hl_inv_node [OF inv, of x] in_concat_nth [OF that(2,1)] f
    unfolding data_def by (intro nth_update_other) auto
  have at_f: "data ! nat f = \<lparr>KeyVal = k, ipNextDataNode = ipDataNodeList ?ix, Data = d\<rparr>"
    using f by (simp add: data_def)
  have H: "Hash h' x = Hash h x" for x by (simp add: h'_def Hash_def)
  have proj: "m_pstData h' = data" "iIndexNodeNum (m_pstHead h') = iIndexNodeNum (m_pstHead h)"
      "m_pstIndex h' = (m_pstIndex h)[i := ?ix\<lparr>ipDataNodeList := f, iDataNodeNum := iDataNodeNum ?ix + 1\<rparr>]"
      "iTotalDataNodeNum (m_pstHead h') = iTotalDataNodeNum (m_pstHead h)"
      "iUsedDataNodeNum (m_pstHead h') = iUsedDataNodeNum (m_pstHead h) + 1"
      "ipFreeDataNodeList (m_pstHead h') = ipNextDataNode (m_pstData h ! nat f)"
    by (simp_all add: h'_def)
  have len: "length data = length (m_pstData h)" "i < length (m_pstIndex h)"
    using inv i by (simp_all add: data_def hl_inv_def)
  have b_other: "bucket_ok h' j (cs ! j)" if j: "j < length cs" and ne: "j \<noteq> i" for j
    using ne same [OF _ j] by (intro bucket_ok_cong [OF hl_inv_bucket [OF inv j]]) (simp_all add: proj len)
  have b_same: "bucket_ok h' i (f # cs ! i)"
  proof -
    have bi: "bucket_ok h i (cs ! i)" by (rule hl_inv_bucket [OF inv i(2)])
    have k: "key_at data x = key_at (m_pstData h) x" if "x \<in> set (cs ! i)" for x
      using same [OF that i(2)] by (simp add: key_at_def)
    have "chain data (ipDataNodeList ?ix) (cs ! i)"
      using bi same [OF _ i(2)] len(1) chain_cong [of "m_pstData h" _ "cs ! i" data] by (simp add: bucket_ok_def)
    moreover have "map (key_at data) (cs ! i) = map (key_at (m_pstData h)) (cs ! i)" using k by simp
    with bi have "distinct (map (key_at data) (cs ! i))" unfolding bucket_ok_def by metis
    with new i k have "distinct (map (key_at data) (f # cs ! i))"
      by (auto simp: lookup_def bucket_lookup_None key_at_def [of data f] at_f)
    moreover have "\<forall>x\<in>set (f # cs ! i). Hash h' (key_at data x) = int i"
      using bi k i(1) by (auto simp: bucket_ok_def H key_at_def [of data f] at_f)
    ultimately show ?thesis
      using bi f len by (simp add: bucket_ok_def proj at_f)
  qed
  have b: "bucket_ok h' j (?cs ! j)" if "j < length ?cs" for j
    using that b_other b_same i by (cases "j = i") simp_all
  have m: "mset (concat ?cs) = add_mset f (mset (concat cs))"
    using mset_concat_update [OF i(2), of "f # cs ! i"] by simp
  have "chain data (ipNextDataNode (m_pstData h ! nat f)) fs"
    unfolding data_def using inv f by (intro chain_update_other) (auto simp: hl_inv_def)
  moreover have "distinct (concat ?cs @ fs)"
  proof -
    have "mset (concat ?cs @ fs) = mset (concat cs @ f # fs)" using m by simp
    then show ?thesis using inv by (metis hl_inv_def mset_eq_imp_distinct_iff)
  qed
  moreover have "length (concat ?cs) = Suc (length (concat cs))"
    using arg_cong [OF m, of size] by simp
  ultimately have "hl_inv h' ?cs fs"
    using inv b len unfolding hl_inv_def proj by simp
  moreover have "lookup h' ?cs = (lookup h cs)(k \<mapsto> d)"
  proof
    fix k'
    obtain j where j: "Hash h k' = int j" "j < length cs" using Hash_range [OF inv] by metis
    then show "lookup h' ?cs k' = ((lookup h cs)(k \<mapsto> d)) k'"
      using i H same [OF _ j(2)] at_f bucket_lookup_cong [of "cs ! j" data "m_pstData h" k']
      by (cases "i = j") (auto simp: lookup_def proj key_at_def)
  qed
  ultimately show ?thesis using step proj by blast
qed

lemma nth_assign:
  "0 < x \<Longrightarrow> x < int (length data) \<Longrightarrow> 0 < y \<Longrightarrow>
   data[nat x := (data ! nat x)\<lparr>Data := d\<rparr>] ! nat y = (if y = x then (data ! nat x)\<lparr>Data := d\<rparr> else data ! nat y)"
  by (auto simp: nth_list_update nat_eq_iff2)

lemma bucket_lookup_assign:
  assumes "\<forall>y\<in>set c. 0 < y" "0 < x" "x < int (length data)" "distinct (map (key_at data) c)"
  shows "bucket_lookup (data[nat x := (data ! nat x)\<lparr>Data := d\<rparr>]) c k =
    (if x \<in> set c \<and> key_at data x = k then Some d else bucket_lookup data c k)"
  using assms by (induction c) (auto simp: key_at_def nth_assign image_iff)

lemma HL_assign_ok:
  assumes inv: "hl_inv h cs fs" and x: "x \<in> set (cs ! i)" "i < length cs"
  shows "\<exists>h'. HL_assign h x d = Some h' \<and> hl_inv h' cs fs
    \<and> lookup h' cs = (lookup h cs)(key_at (m_pstData h) x \<mapsto> d) \<and> m_pstHead h' = m_pstHead h"
proof -
  let ?data = "(m_pstData h)[nat x := (m_pstData h ! nat x)\<lparr>Data := d\<rparr>]"
  define h' where "h' = h\<lparr>m_pstData := ?data\<rparr>"
  have r: "0 < x" "x < int (length (m_pstData h))"
    using hl_inv_node [OF inv, of x] in_concat_nth [OF x(2,1)] by auto
  have step: "HL_assign h x d = Some h'" using r by (simp add: HL_assign_def h'_def)
  have same: "KeyVal (?data ! nat y) = KeyVal (m_pstData h ! nat y)
      \<and> ipNextDataNode (?data ! nat y) = ipNextDataNode (m_pstData h ! nat y)"
    if "0 < y" for y using nth_assign [OF r that] by simp
  have pos: "0 < y" if "y \<in> set (concat cs @ fs)" for y using hl_inv_node [OF inv that] by simp
  have bj: "bucket_ok h' j (cs ! j)" if j: "j < length cs" for j
    using same pos in_concat_nth [OF j]
    by (intro bucket_ok_cong [OF hl_inv_bucket [OF inv j]]) (simp_all add: h'_def)
  have "chain ?data (ipFreeDataNodeList (m_pstHead h)) fs"
    using inv same pos chain_cong [of "m_pstData h" _ fs ?data] by (simp add: hl_inv_def)
  with inv bj have inv': "hl_inv h' cs fs" unfolding hl_inv_def by (simp add: h'_def)
  have "lookup h' cs k = ((lookup h cs)(key_at (m_pstData h) x \<mapsto> d)) k" for k
  proof -
    obtain j where j: "Hash h k = int j" "j < length cs" using Hash_range [OF inv] by metis
    have b: "bucket_ok h j (cs ! j)" "bucket_ok h i (cs ! i)" using hl_inv_bucket [OF inv] j x by simp_all
    then have "x \<in> set (cs ! j)" if "key_at (m_pstData h) x = k"
      using that j x unfolding bucket_ok_def by (metis of_nat_eq_iff)
    moreover have "\<forall>y\<in>set (cs ! j). 0 < y" using pos in_concat_nth [OF j(2)] by auto
    ultimately show ?thesis
      using j b r bucket_lookup_assign [of "cs ! j" x "m_pstData h" d k]
      by (auto simp: lookup_def h'_def Hash_def bucket_ok_def)
  qed
  then have "lookup h' cs = (lookup h cs)(key_at (m_pstData h) x \<mapsto> d)" by (rule ext)
  with step inv' show ?thesis by (simp add: h'_def)
qed

text \<open>Unlinking the node \<open>x\<close> of list \<open>i\<close> and returning it to the free list.\<close>

definition removed :: "'d hashlist \<Rightarrow> nat \<Rightarrow> int list \<Rightarrow> int \<Rightarrow> 'd hashlist" where
  "removed h i as x =
     (let ix = m_pstIndex h ! i; nx = ipNextDataNode (m_pstData h ! nat x);
          ix' = (if as = [] then ix\<lparr>ipDataNodeList := nx\<rparr> else ix)\<lparr>iDataNodeNum := iDataNodeNum ix - 1\<rparr>;
          data = (if as = [] then m_pstData h
                  else (m_pstData h)[nat (last as) := (m_pstData h ! nat (last as))\<lparr>ipNextDataNode := nx\<rparr>])
      in h\<lparr>m_pstHead := (m_pstHead h)\<lparr>iUsedDataNodeNum := iUsedDataNodeNum (m_pstHead h) - 1,
                                        ipFreeDataNodeList := x\<rparr>,
           m_pstIndex := (m_pstIndex h)[i := ix'],
           m_pstData := data[nat x := (data ! nat x)\<lparr>ipNextDataNode := ipFreeDataNodeList (m_pstHead h)\<rparr>]\<rparr>)"

lemma HL_Remove_step:
  assumes inv: "hl_inv h cs fs" and i: "Hash h k = int i" "i < length cs"
    and c: "cs ! i = as @ x # bs" "\<forall>a\<in>set as. key_at (m_pstData h) a \<noteq> k" "key_at (m_pstData h) x = k"
  shows "HL_Remove h k = Some (HL_SUCCESS, removed h i as x)"
proof -
  have b: "bucket_ok h i (as @ x # bs)" using hl_inv_bucket [OF inv i(2)] c by simp
  then have f: "find_node_last (m_pstData h) k 0 (ipDataNodeList (m_pstIndex h ! i))
      = Some (if as = [] then 0 else last as, x)"
    using c by (intro find_node_last_present [of _ _ as x bs]) (auto simp: bucket_ok_def)
  have r: "0 < y" "y < int (length (m_pstData h))" if "y \<in> set (as @ x # bs)" for y
    using bucket_ok_node [OF b that] by simp_all
  have t: "\<not> iTotalDataNodeNum (m_pstHead h) < x"
    using r [of x] inv by (simp add: hl_inv_def)
  have ne: "last as \<noteq> x" if "as \<noteq> []" using c that last_in_set by blast
  have l: "0 < last as" "last as < int (length (m_pstData h))" if "as \<noteq> []" using r that by simp_all
  show ?thesis
    using i f r [of x] t l hl_index [OF inv i(2)]
    by (cases "as = []") (simp_all add: HL_Remove_def unlink_node_def RecycleNode_def removed_def Let_def)
qed

lemma removed_head:
  "iIndexNodeNum (m_pstHead (removed h i as x)) = iIndexNodeNum (m_pstHead h)"
  "iTotalDataNodeNum (m_pstHead (removed h i as x)) = iTotalDataNodeNum (m_pstHead h)"
  "iUsedDataNodeNum (m_pstHead (removed h i as x)) = iUsedDataNodeNum (m_pstHead h) - 1"
  "ipFreeDataNodeList (m_pstHead (removed h i as x)) = x"
  "length (m_pstData (removed h i as x)) = length (m_pstData h)"
  "length (m_pstIndex (removed h i as x)) = length (m_pstIndex h)"
  "Hash (removed h i as x) k = Hash h k"
  "j \<noteq> i \<Longrightarrow> m_pstIndex (removed h i as x) ! j = m_pstIndex h ! j"
  by (simp_all add: removed_def Let_def Hash_def)

lemma removed_data:
  assumes b: "bucket_ok h i (as @ x # bs)"
  shows "KeyVal (m_pstData (removed h i as x) ! nat y) = KeyVal (m_pstData h ! nat y)"
    and "Data (m_pstData (removed h i as x) ! nat y) = Data (m_pstData h ! nat y)"
    and "0 < y \<Longrightarrow> y \<notin> set (as @ x # bs) \<Longrightarrow> m_pstData (removed h i as x) ! nat y = m_pstData h ! nat y"
    and "ipNextDataNode (m_pstData (removed h i as x) ! nat x) = ipFreeDataNodeList (m_pstHead h)"
proof -
  have x: "0 < x" "x < int (length (m_pstData h))" using bucket_ok_node [OF b, of x] by simp_all
  have la: "0 < last as \<and> last as < int (length (m_pstData h))" if "as \<noteq> []"
    using bucket_ok_node [OF b, of "last as"] that by simp
  show "KeyVal (m_pstData (removed h i as x) ! nat y) = KeyVal (m_pstData h ! nat y)"
    "Data (m_pstData (removed h i as x) ! nat y) = Data (m_pstData h ! nat y)"
    "ipNextDataNode (m_pstData (removed h i as x) ! nat x) = ipFreeDataNodeList (m_pstHead h)"
    using x la by (cases "as = []"; auto simp: removed_def Let_def nth_list_update)+
  assume y: "0 < y" "y \<notin> set (as @ x # bs)"
  then have "as \<noteq> [] \<Longrightarrow> y \<noteq> last as" by auto
  with x y la show "m_pstData (removed h i as x) ! nat y = m_pstData h ! nat y"
    by (cases "as = []") (simp_all add: removed_def Let_def nth_update_other)
qed

lemma removed_bucket:
  assumes b: "bucket_ok h i (as @ x # bs)" and i: "i < length (m_pstIndex h)"
  shows "bucket_ok (removed h i as x) i (as @ bs)"
proof -
  let ?h = "removed h i as x"
  let ?ix = "m_pstIndex h ! i" and ?nx = "ipNextDataNode (m_pstData h ! nat x)"
  let ?p = "if as = [] then ?nx else ipDataNodeList ?ix"
  define data where "data = (if as = [] then m_pstData h
    else (m_pstData h)[nat (last as) := (m_pstData h ! nat (last as))\<lparr>ipNextDataNode := ?nx\<rparr>])"
  have d: "distinct (as @ x # bs)" using b distinct_map unfolding bucket_ok_def by blast
  have x: "0 < x" using bucket_ok_node [OF b, of x] by simp
  have "chain data ?p (as @ bs)"
    using b d chain_unlink [of "m_pstData h" _ as x bs] by (cases "as = []") (simp_all add: bucket_ok_def data_def)
  then have "chain (data[nat x := (data ! nat x)\<lparr>ipNextDataNode := ipFreeDataNodeList (m_pstHead h)\<rparr>]) ?p (as @ bs)"
    using d x by (intro chain_update_other) auto
  moreover have "m_pstData ?h = data[nat x := (data ! nat x)\<lparr>ipNextDataNode := ipFreeDataNodeList (m_pstHead h)\<rparr>]"
    by (simp add: removed_def Let_def data_def)
  moreover have "map (key_at (m_pstData ?h)) (as @ bs) = map (key_at (m_pstData h)) (as @ bs)"
    using removed_data(1) [OF b] by (simp add: key_at_def)
  moreover have "distinct (map (key_at (m_pstData h)) (as @ bs))" using b by (simp add: bucket_ok_def)
  ultimately have "chain (m_pstData ?h) ?p (as @ bs)" "distinct (map (key_at (m_pstData ?h)) (as @ bs))" by metis+
  moreover have "\<forall>y\<in>set (as @ bs). Hash ?h (key_at (m_pstData ?h) y) = int i"
    using b removed_data(1) [OF b] by (simp add: bucket_ok_def key_at_def removed_head)
  moreover have ip: "ipDataNodeList (m_pstIndex ?h ! i) = ?p" and "iHashVal (m_pstIndex ?h ! i) = int i"
    "iDataNodeNum (m_pstIndex ?h ! i) = int (length (as @ bs))"
    using i b by (simp_all add: removed_def Let_def bucket_ok_def)
  ultimately show ?thesis unfolding bucket_ok_def ip by blast
qed

lemma removed_inv:
  assumes inv: "hl_inv h cs fs" and i: "i < length cs" and c: "cs ! i = as @ x # bs"
  shows "hl_inv (removed h i as x) (cs[i := as @ bs]) (x # fs)"
proof -
  let ?h = "removed h i as x" and ?cs = "cs[i := as @ bs]"
  have b: "bucket_ok h i (as @ x # bs)" using hl_inv_bucket [OF inv i] c by simp
  note keep = removed_data [OF b]
  have b_other: "bucket_ok ?h j (cs ! j)" if j: "j < length cs" "j \<noteq> i" for j
    using j keep(3) bucket_ok_node [OF hl_inv_bucket [OF inv j(1)]] hl_inv_disjoint [OF inv j(1) i j(2)]
    by (intro bucket_ok_cong [OF hl_inv_bucket [OF inv j(1)]]) (simp_all add: removed_head c)
  have "i < length (m_pstIndex h)" using inv i by (simp add: hl_inv_def)
  with b have b_same: "bucket_ok ?h i (as @ bs)" by (rule removed_bucket)
  have all: "bucket_ok ?h j (?cs ! j)" if "j < length ?cs" for j
    using that b_other b_same i by (cases "j = i") simp_all
  have m: "mset (concat cs) = add_mset x (mset (concat ?cs))"
    using mset_concat_update [OF i, of "as @ bs"] by (simp add: c)
  have "y \<notin> set (as @ x # bs) \<and> 0 < y" if "y \<in> set fs" for y
    using that hl_inv_free_disjoint [OF inv that i] hl_inv_node [OF inv, of y] c by simp
  then have "chain (m_pstData ?h) (ipFreeDataNodeList (m_pstHead h)) fs"
    using inv keep(3) chain_cong [of "m_pstData h" _ fs "m_pstData ?h"] by (simp add: hl_inv_def removed_head)
  then have "chain (m_pstData ?h) x (x # fs)"
    using bucket_ok_node [OF b, of x] keep(4) by (simp add: removed_head)
  moreover have "mset (concat ?cs @ x # fs) = mset (concat cs @ fs)" using m by simp
  then have "distinct (concat ?cs @ x # fs)" using inv by (metis hl_inv_def mset_eq_imp_distinct_iff)
  moreover have "length (concat cs) = Suc (length (concat ?cs))" using arg_cong [OF m, of size] by simp
  ultimately show ?thesis using inv all unfolding hl_inv_def removed_head by simp
qed

lemma removed_lookup:
  assumes inv: "hl_inv h cs fs" and i: "Hash h k = int i" "i < length cs"
    and c: "cs ! i = as @ x # bs" and k: "key_at (m_pstData h) x = k"
  shows "lookup (removed h i as x) (cs[i := as @ bs]) = (lookup h cs)(k := None)"
proof
  fix k'
  let ?h = "removed h i as x" and ?cs = "cs[i := as @ bs]"
  have b: "bucket_ok h i (as @ x # bs)" using hl_inv_bucket [OF inv i(2)] c by simp
  obtain j where j: "Hash h k' = int j" "j < length cs" using Hash_range [OF inv] by metis
  have cong: "bucket_lookup (m_pstData ?h) c k' = bucket_lookup (m_pstData h) c k'" for c
    using removed_data(1,2) [OF b] by (intro bucket_lookup_cong) simp
  have "key_at (m_pstData h) x \<notin> set (map (key_at (m_pstData h)) (as @ bs))" using b by (auto simp: bucket_ok_def)
  then have no: "bucket_lookup (m_pstData h) (as @ bs) k = None"
    unfolding bucket_lookup_None using k by (metis image_eqI set_map)
  have "bucket_lookup (m_pstData h) (as @ x # bs) k' = bucket_lookup (m_pstData h) (as @ bs) k'"
    if "k' \<noteq> k" using that k by (simp add: bucket_lookup_append split: option.split)
  with no j i c cong show "lookup ?h ?cs k' = ((lookup h cs)(k := None)) k'"
    by (cases "j = i") (auto simp: lookup_def removed_head)
qed

section \<open>Refinement of a finite map with a capacity\<close>

lemma hl_relE:
  assumes "hl_rel h m"
  obtains cs fs where "hl_inv h cs fs" "m = lookup h cs"
    "int (length fs) = iTotalDataNodeNum (m_pstHead h) - 1 - int (card (dom m))"
proof -
  from assms obtain cs fs where inv: "hl_inv h cs fs" and m: "m = lookup h cs"
    and u: "iUsedDataNodeNum (m_pstHead h) = 1 + int (card (dom m))" by (auto simp: hl_rel_def)
  then have "int (length fs) = iTotalDataNodeNum (m_pstHead h) - 1 - int (card (dom m))"
    by (simp add: hl_inv_def)
  with inv m show thesis by (rule that)
qed

lemma hl_bucket:
  assumes "hl_inv h cs fs"
  obtains i where "Hash h k = int i" "i < length cs"
    "arr_get (m_pstIndex h) (Hash h k) = Some (m_pstIndex h ! i)"
  using assms Hash_range [OF assms, of k] hl_index [OF assms] by metis

lemma HL_Get_rel:
  assumes "hl_rel h m"
  shows "\<exists>x. HL_Get h k = Some x
    \<and> (case m k of None \<Rightarrow> x = 0 | Some d \<Rightarrow> 0 < x \<and> HL_deref h x = Some d)"
proof -
  from assms obtain cs fs where inv: "hl_inv h cs fs" and m: "m = lookup h cs" by (rule hl_relE)
  obtain i where i: "Hash h k = int i" "i < length cs"
    "arr_get (m_pstIndex h) (Hash h k) = Some (m_pstIndex h ! i)" by (rule hl_bucket [OF inv])
  from find_node_bucket [OF inv i(1,2)] i(3) m show ?thesis
    by (auto simp: HL_Get_def HL_deref_def split: option.splits)
qed

lemma HL_assign_rel:
  assumes "hl_rel h m" "HL_Get h k = Some x" "0 < x"
  shows "\<exists>h'. HL_assign h x d = Some h' \<and> hl_rel h' (m(k \<mapsto> d))
    \<and> iTotalDataNodeNum (m_pstHead h') = iTotalDataNodeNum (m_pstHead h)"
proof -
  from assms(1) obtain cs fs where inv: "hl_inv h cs fs" and m: "m = lookup h cs" by (rule hl_relE)
  obtain i where i: "Hash h k = int i" "i < length cs"
    "arr_get (m_pstIndex h) (Hash h k) = Some (m_pstIndex h ! i)" by (rule hl_bucket [OF inv])
  obtain d0 where d0: "m k = Some d0" and x: "x \<in> set (cs ! i)" "key_at (m_pstData h) x = k"
    using find_node_bucket [OF inv i(1,2)] assms(2,3) i(3) m
    by (auto simp: HL_Get_def split: option.splits if_splits)
  have "dom (m(k \<mapsto> d)) = dom m" using d0 by auto
  moreover obtain h' where "HL_assign h x d = Some h'" "hl_inv h' cs fs"
    "lookup h' cs = m(k \<mapsto> d)" "m_pstHead h' = m_pstHead h"
    using HL_assign_ok [OF inv x(1) i(2), of d] x(2) m by auto
  ultimately show ?thesis using assms(1) by (auto simp: hl_rel_def)
qed

lemma HL_Update_Get:
  assumes "hl_rel h m"
  shows "HL_Update h k d = (case HL_Get h k of
     Some x \<Rightarrow> if x > 0 then map_option (\<lambda>h. (HL_SUCCESS, h)) (HL_assign h x d)
               else Some (E_HASH_LIST_NO_NODE, h)
   | None \<Rightarrow> None)"
  by (auto simp: HL_Update_def HL_Get_def map_option_case split: option.splits Option.bind_splits)

lemma HL_Update_rel:
  assumes "hl_rel h m"
  shows "\<exists>h'. HL_Update h k d =
      Some (if k \<in> dom m then HL_SUCCESS else E_HASH_LIST_NO_NODE, h')
    \<and> hl_rel h' (if k \<in> dom m then m(k \<mapsto> d) else m)
    \<and> iTotalDataNodeNum (m_pstHead h') = iTotalDataNodeNum (m_pstHead h)"
proof (cases "m k")
  case None
  with HL_Get_rel [OF assms, of k] HL_Update_Get [OF assms, of k d] assms show ?thesis by auto
next
  case (Some d0)
  then obtain x where "HL_Get h k = Some x" "0 < x" using HL_Get_rel [OF assms, of k] by auto
  with HL_assign_rel [OF assms this, of d] HL_Update_Get [OF assms, of k d] Some show ?thesis by auto
qed

lemma HL_Insert_rel:
  assumes rel: "hl_rel h m"
  shows "\<exists>h'. HL_Insert h k d =
      Some (if k \<in> dom m then E_HASH_LIST_NODE_EXIST
            else if int (card (dom m)) + 1 < iTotalDataNodeNum (m_pstHead h) then HL_SUCCESS
            else E_HASH_LIST_NO_SPACE, h')
    \<and> hl_rel h' (if k \<notin> dom m \<and> int (card (dom m)) + 1 < iTotalDataNodeNum (m_pstHead h)
                  then m(k \<mapsto> d) else m)
    \<and> iTotalDataNodeNum (m_pstHead h') = iTotalDataNodeNum (m_pstHead h)"
proof -
  from rel obtain cs fs where inv: "hl_inv h cs fs" and m: "m = lookup h cs"
    and n: "int (length fs) = iTotalDataNodeNum (m_pstHead h) - 1 - int (card (dom m))" by (rule hl_relE)
  obtain i where i: "Hash h k = int i" "i < length cs"
    "arr_get (m_pstIndex h) (Hash h k) = Some (m_pstIndex h ! i)" by (rule hl_bucket [OF inv])
  note f = find_node_bucket [OF inv i(1,2)]
  show ?thesis
  proof (cases "m k")
    case (Some d0)
    with f i(3) m rel show ?thesis by (auto simp: HL_Insert_def Let_def split: option.splits)
  next
    case None
    with f i m have step: "HL_Insert h k d = link_node h (int i) k d"
      by (auto simp: HL_Insert_def Let_def)
    show ?thesis
    proof (cases fs)
      case Nil
      with link_node_full [of h cs] inv step None n rel show ?thesis by auto
    next
      case (Cons f fs')
      with link_node_ok [OF _ i(1,2), of f fs' d] inv None m obtain h' where
        "link_node h (int i) k d = Some (HL_SUCCESS, h')" "hl_inv h' (cs[i := f # cs ! i]) fs'"
        "lookup h' (cs[i := f # cs ! i]) = m(k \<mapsto> d)"
        "iUsedDataNodeNum (m_pstHead h') = iUsedDataNodeNum (m_pstHead h) + 1"
        "iTotalDataNodeNum (m_pstHead h') = iTotalDataNodeNum (m_pstHead h)" by auto
      moreover have "card (dom (m(k \<mapsto> d))) = Suc (card (dom m))"
        using None rel by (simp add: hl_rel_def domIff)
      ultimately have "hl_rel h' (m(k \<mapsto> d))" using rel unfolding hl_rel_def by auto
      with step None n Cons \<open>link_node h (int i) k d = Some (HL_SUCCESS, h')\<close>
        \<open>iTotalDataNodeNum (m_pstHead h') = iTotalDataNodeNum (m_pstHead h)\<close>
      show ?thesis by (simp add: domIff)
    qed
  qed
qed

lemma HL_Remove_rel:
  assumes rel: "hl_rel h m"
  shows "\<exists>h'. HL_Remove h k = Some (if k \<in> dom m then HL_SUCCESS else E_HASH_LIST_NO_NODE, h')
    \<and> hl_rel h' (m(k := None)) \<and> iTotalDataNodeNum (m_pstHead h') = iTotalDataNodeNum (m_pstHead h)"
proof -
  from rel obtain cs fs where inv: "hl_inv h cs fs" and m: "m = lookup h cs" by (rule hl_relE)
  obtain i where i: "Hash h k = int i" "i < length cs"
    "arr_get (m_pstIndex h) (Hash h k) = Some (m_pstIndex h ! i)" by (rule hl_bucket [OF inv])
  show ?thesis
  proof (cases "m k")
    case None
    have "chain (m_pstData h) (ipDataNodeList (m_pstIndex h ! i)) (cs ! i)"
      using hl_inv_bucket [OF inv i(2)] by (simp add: bucket_ok_def)
    moreover have "\<forall>x\<in>set (cs ! i). key_at (m_pstData h) x \<noteq> k"
      using None i m by (simp add: lookup_def bucket_lookup_None)
    ultimately have "\<exists>l. find_node_last (m_pstData h) k 0 (ipDataNodeList (m_pstIndex h ! i)) = Some (l, 0)"
      by (rule find_node_last_absent)
    moreover have "m(k := None) = m" using None by auto
    ultimately show ?thesis using None i rel by (auto simp: HL_Remove_def Let_def)
  next
    case (Some d0)
    then have "\<exists>x\<in>set (cs ! i). key_at (m_pstData h) x = k"
      using i m bucket_lookup_None [of "m_pstData h" "cs ! i" k] by (auto simp: lookup_def)
    from split_list_first_prop [OF this] obtain as x bs where c: "cs ! i = as @ x # bs"
      "key_at (m_pstData h) x = k" "\<forall>a\<in>set as. key_at (m_pstData h) a \<noteq> k" by blast
    let ?h = "removed h i as x"
    have "HL_Remove h k = Some (HL_SUCCESS, ?h)" using HL_Remove_step [OF inv i(1,2)] c by blast
    moreover have "iUsedDataNodeNum (m_pstHead ?h) = iUsedDataNodeNum (m_pstHead h) - 1"
      "iTotalDataNodeNum (m_pstHead ?h) = iTotalDataNodeNum (m_pstHead h)"
      by (simp_all add: removed_head)
    moreover have "Suc (card (dom m - {k})) = card (dom m)"
      using Some rel by (intro card_Suc_Diff1) (auto simp: hl_rel_def)
    then have "int (card (dom m)) = 1 + int (card (dom (m(k := None))))" by simp
    moreover have "\<exists>cs fs. hl_inv ?h cs fs \<and> m(k := None) = lookup ?h cs"
      using removed_inv [OF inv i(2) c(1)] removed_lookup [OF inv i(1,2) c(1,2)] m by metis
    ultimately have "hl_rel ?h (m(k := None))"
      using rel unfolding hl_rel_def by (simp del: fun_upd_apply)
    with Some show ?thesis
      using \<open>HL_Remove h k = Some (HL_SUCCESS, ?h)\<close>
        \<open>iTotalDataNodeNum (m_pstHead ?h) = iTotalDataNodeNum (m_pstHead h)\<close> by (simp add: domIff)
  qed
qed

text \<open>The number of index entries does not change.\<close>

lemma HL_assign_shape: "HL_assign h x d = Some h' \<Longrightarrow> m_pstIndex h' = m_pstIndex h \<and> m_pstHead h' = m_pstHead h"
  by (auto simp: HL_assign_def split: Option.bind_splits)

lemma HL_Insert_shape: "HL_Insert h k d = Some (r, h') \<Longrightarrow> length (m_pstIndex h') = length (m_pstIndex h)"
  by (auto simp: HL_Insert_def link_node_def GetFreeNode_def arr_set_def Let_def split: Option.bind_splits if_splits)

lemma HL_Remove_shape: "HL_Remove h k = Some (r, h') \<Longrightarrow> length (m_pstIndex h') = length (m_pstIndex h)"
  by (auto simp: HL_Remove_def unlink_node_def RecycleNode_def arr_set_def Let_def split: Option.bind_splits if_splits)

lemma hl_rel_index: "hl_rel h m \<Longrightarrow> iIndexNodeNum (m_pstHead h) = int (length (m_pstIndex h)) \<and> m_pstIndex h \<noteq> []"
  by (auto simp: hl_rel_def hl_inv_def)

section \<open>Clear, Verify and ProcessAll\<close>

lemma nth_upto0: "0 \<le> i \<Longrightarrow> i < n \<Longrightarrow> map f [0..n - 1] ! nat i = f i"
  by (subst nth_map) (simp_all add: nth_upto)

lemma chain_upto:
  assumes "1 \<le> p" "p \<le> n"
    and "\<And>i. 1 \<le> i \<Longrightarrow> i < n \<Longrightarrow> ipNextDataNode (data ! nat i) = (if i = n - 1 then 0 else i + 1)"
    and "int (length data) = n"
  shows "chain data (if p = n then 0 else p) [p..n - 1]"
  using assms(1,2)
proof (induction "nat (n - p)" arbitrary: p)
  case 0
  then show ?case by simp
next
  case (Suc k)
  then have p: "p < n" "1 \<le> p" by simp_all
  have "chain data (if p + 1 = n then 0 else p + 1) [p + 1..n - 1]" using Suc by (intro Suc.hyps(1)) simp_all
  moreover have "ipNextDataNode (data ! nat p) = (if p + 1 = n then 0 else p + 1)" using assms(3) [OF p(2,1)] by auto
  moreover have "[p..n - 1] = p # [p + 1..n - 1]" using p by (simp add: upto_rec1)
  ultimately show ?case using p assms(4) by simp
qed

lemma HL_Clear_rel:
  assumes "0 < iIndexNodeNum (m_pstHead h)" "iIndexNodeNum (m_pstHead h) < 2 ^ 31"
    and "2 \<le> iTotalDataNodeNum (m_pstHead h)"
  shows "hl_rel (snd (HL_Clear z h)) Map.empty"
proof -
  let ?h = "snd (HL_Clear z h)" and ?n = "iTotalDataNodeNum (m_pstHead h)" and ?m = "iIndexNodeNum (m_pstHead h)"
  let ?cs = "replicate (nat ?m) [] :: int list list" and ?fs = "[1..?n - 1]"
  have "chain (m_pstData ?h) 1 ?fs"
    using chain_upto [of 1 ?n "m_pstData ?h"] assms by (simp add: HL_Clear_def Let_def nth_upto0)
  moreover have "bucket_ok ?h i []" if "i < nat ?m" for i
    using that nth_upto0 [of "int i" ?m] by (simp add: bucket_ok_def HL_Clear_def Let_def)
  moreover have "concat ?cs = []" by simp
  ultimately have inv: "hl_inv ?h ?cs ?fs"
    unfolding hl_inv_def using assms by (auto simp: HL_Clear_def Let_def)
  moreover have "lookup ?h ?cs k = None" for k
  proof -
    obtain i where i: "Hash ?h k = int i" "i < length ?cs" using Hash_range [OF inv] by metis
    then have "?cs ! nat (Hash ?h k) = []" by simp
    then show ?thesis unfolding lookup_def by simp
  qed
  then have "Map.empty = lookup ?h ?cs" by (intro ext) simp
  ultimately show ?thesis by (auto simp: hl_rel_def HL_Clear_def Let_def)
qed

lemma verify_index_eq:
  assumes "length ixs = length cs" "int (length data) \<le> tot"
    and "\<And>j. j < length cs \<Longrightarrow> iHashVal (ixs ! j) = i + int j \<and> iDataNodeNum (ixs ! j) = int (length (cs ! j))
           \<and> chain data (ipDataNodeList (ixs ! j)) (cs ! j)"
  shows "verify_index data tot ixs i used = Some (Inr (used + int (length (concat cs))))"
  using assms
proof (induction ixs arbitrary: cs i used)
  case Nil
  then show ?case by simp
next
  case (Cons ix ixs)
  then obtain c cs' where cs: "cs = c # cs'" by (cases cs) auto
  have hd: "iHashVal ix = i" "iDataNodeNum ix = int (length c)" "chain data (ipDataNodeList ix) c"
    using Cons.prems(3) [of 0] by (simp_all add: cs)
  have tl: "iHashVal (ixs ! j) = i + 1 + int j \<and> iDataNodeNum (ixs ! j) = int (length (cs' ! j))
      \<and> chain data (ipDataNodeList (ixs ! j)) (cs' ! j)" if "j < length cs'" for j
    using Cons.prems(3) [of "Suc j"] that by (simp add: cs)
  have "verify_index data tot ixs (i + 1) (used + int (length c))
      = Some (Inr (used + int (length c) + int (length (concat cs'))))"
    using Cons.prems tl by (intro Cons.IH) (simp_all add: cs)
  with hd Cons.prems(2) show ?case by (simp add: cs count_loop_eq)
qed

lemma HL_Verify_inv:
  assumes "hl_inv h cs fs"
  shows "HL_Verify h = Some 0"
proof -
  have "verify_index (m_pstData h) (iTotalDataNodeNum (m_pstHead h)) (m_pstIndex h) 0 1
      = Some (Inr (1 + int (length (concat cs))))"
    using assms by (intro verify_index_eq) (auto simp: hl_inv_def bucket_ok_def)
  moreover have "count_loop (m_pstData h) (iTotalDataNodeNum (m_pstHead h)) (ipFreeDataNodeList (m_pstHead h)) 0
      = Some (Inr (int (length fs)))"
    using assms count_loop_eq [of "m_pstData h" _ fs _ 0] by (simp add: hl_inv_def)
  moreover have "take (nat (iIndexNodeNum (m_pstHead h))) (m_pstIndex h) = m_pstIndex h"
    "\<not> iIndexNodeNum (m_pstHead h) > int (length (m_pstIndex h))"
    "iUsedDataNodeNum (m_pstHead h) = 1 + int (length (concat cs))"
    "int (length fs) + (1 + int (length (concat cs))) = iTotalDataNodeNum (m_pstHead h)"
    using assms unfolding hl_inv_def by auto
  ultimately show ?thesis by (simp add: HL_Verify_def Let_def)
qed

lemma Data_same [simp]: "n\<lparr>Data := Data n\<rparr> = n"
  by (cases n) simp

lemma process_loop_collect:
  "chain data p xs \<Longrightarrow>
   process_loop (\<lambda>k d acc. (d, g k d acc)) data p acc
     = Some (data, fold (\<lambda>x. g (key_at data x) (Data (data ! nat x))) xs acc)"
proof (induction xs arbitrary: p acc)
  case Nil
  then show ?case by (simp add: process_loop.simps)
next
  case (Cons x xs)
  then show ?case by (subst process_loop.simps) (simp add: key_at_def)
qed

lemma HL_ProcessAll_collect:
  assumes "hl_inv h cs fs" "n < length cs"
  shows "HL_ProcessAll (\<lambda>k d acc. (d, g k d acc)) h (int n) acc = Some (HL_SUCCESS, h,
    fold (\<lambda>x. g (key_at (m_pstData h) x) (Data (m_pstData h ! nat x))) (cs ! n) acc)"
  using hl_inv_bucket [OF assms] hl_index [OF assms] process_loop_collect [of "m_pstData h" _ "cs ! n" g acc]
  by (simp add: HL_ProcessAll_def bucket_ok_def)

lemma ProcessAll_upto_collect:
  assumes "hl_inv h cs fs" "n \<le> length cs"
  shows "ProcessAll_upto (\<lambda>k d acc. (d, g k d acc)) n h acc
    = Some (h, fold (\<lambda>x. g (key_at (m_pstData h) x) (Data (m_pstData h ! nat x))) (concat (take n cs)) acc)"
  using assms(2)
proof (induction n)
  case (Suc n)
  then show ?case using HL_ProcessAll_collect [OF assms(1), of n g] by (simp add: take_Suc_conv_app_nth)
qed simp

lemma bucket_lookup_map_of:
  "bucket_lookup data c k = map_of (map (\<lambda>x. (key_at data x, Data (data ! nat x))) c) k"
  by (induction c) auto

lemma hl_keys_distinct:
  assumes "\<And>i. i < length cs \<Longrightarrow> distinct (map f (cs ! i)) \<and> (\<forall>x\<in>set (cs ! i). g (f x) = i + n)"
  shows "distinct (map f (concat cs)) \<and> (\<forall>k i. g k = i + n \<longrightarrow> i < length cs \<longrightarrow>
     map_of (map (\<lambda>x. (f x, e x)) (concat cs)) k = map_of (map (\<lambda>x. (f x, e x)) (cs ! i)) k)"
  using assms
proof (induction cs arbitrary: n)
  case (Cons c cs)
  have c: "distinct (map f c)" "\<And>x. x \<in> set c \<Longrightarrow> g (f x) = n" using Cons.prems [of 0] by auto
  have tl: "distinct (map f (cs ! i)) \<and> (\<forall>x\<in>set (cs ! i). g (f x) = i + Suc n)" if "i < length cs" for i
    using Cons.prems [of "Suc i"] that by simp
  note IH = Cons.IH [of "Suc n", OF tl]
  have gt: "g (f x) > n" if "x \<in> set (concat cs)" for x
  proof -
    from that obtain i where "i < length cs" "x \<in> set (cs ! i)"
      by (metis UN_E in_set_conv_nth set_concat)
    with tl show ?thesis by fastforce
  qed
  have "distinct (map f (concat (c # cs)))" using IH c gt by fastforce
  moreover have "map_of (map (\<lambda>x. (f x, e x)) (concat (c # cs))) k = map_of (map (\<lambda>x. (f x, e x)) ((c # cs) ! i)) k"
    if k: "g k = i + n" "i < length (c # cs)" for k i
  proof (cases i)
    case 0
    have "k \<notin> f ` set (concat cs)" using gt k 0 by auto
    then have "map_of (map (\<lambda>x. (f x, e x)) (concat cs)) k = None" by (auto simp: map_of_eq_None_iff image_image)
    then show ?thesis using 0 by (simp add: map_add_def split: option.split)
  next
    case (Suc j)
    have "k \<notin> f ` set c" using c(2) k Suc by auto
    then have "map_of (map (\<lambda>x. (f x, e x)) c) k = None" by (auto simp: map_of_eq_None_iff image_image)
    then show ?thesis using IH k Suc by (simp add: map_add_def split: option.split)
  qed
  ultimately show ?case by blast
qed simp

lemma hl_entries:
  assumes inv: "hl_inv h cs fs"
  shows "distinct (map (key_at (m_pstData h)) (concat cs))
    \<and> map_of (map (\<lambda>x. (key_at (m_pstData h) x, Data (m_pstData h ! nat x))) (concat cs)) = lookup h cs"
proof -
  have "distinct (map (key_at (m_pstData h)) (cs ! i))
      \<and> (\<forall>x\<in>set (cs ! i). nat (Hash h (key_at (m_pstData h) x)) = i + 0)" if "i < length cs" for i
    using hl_inv_bucket [OF inv that] by (simp add: bucket_ok_def)
  note K = hl_keys_distinct [OF this, where e = "\<lambda>x. Data (m_pstData h ! nat x)"]
  have "map_of (map (\<lambda>x. (key_at (m_pstData h) x, Data (m_pstData h ! nat x))) (concat cs)) k = lookup h cs k" for k
  proof -
    obtain i where "Hash h k = int i" "i < length cs" using Hash_range [OF inv] by metis
    with K show ?thesis by (simp add: lookup_def bucket_lookup_map_of)
  qed
  with K show ?thesis by blast
qed

lemma HL_GetData_rel:
  assumes "hl_rel h m"
  shows "HL_GetData h k d =
    Some (case m k of None \<Rightarrow> (E_HASH_LIST_NO_NODE, d) | Some d' \<Rightarrow> (HL_SUCCESS, d'))"
proof -
  from assms obtain cs fs where inv: "hl_inv h cs fs" and m: "m = lookup h cs" by (rule hl_relE)
  obtain i where i: "Hash h k = int i" "i < length cs"
    "arr_get (m_pstIndex h) (Hash h k) = Some (m_pstIndex h ! i)" by (rule hl_bucket [OF inv])
  from find_node_bucket [OF inv i(1,2)] i(3) m show ?thesis
    by (auto simp: HL_GetData_def split: option.splits)
qed

lemma HL_InsertWithRet_Insert:
  assumes "hl_rel h m"
  shows "HL_InsertWithRet h k d =
    map_option (\<lambda>(r, h'). (r, case m k of Some d' \<Rightarrow> d' | None \<Rightarrow> d, h')) (HL_Insert h k d)"
proof -
  from assms obtain cs fs where inv: "hl_inv h cs fs" and m: "m = lookup h cs" by (rule hl_relE)
  obtain i where i: "Hash h k = int i" "i < length cs"
    "arr_get (m_pstIndex h) (Hash h k) = Some (m_pstIndex h ! i)" by (rule hl_bucket [OF inv])
  from find_node_bucket [OF inv i(1,2)] i(3) m show ?thesis
    by (auto simp: HL_InsertWithRet_def HL_Insert_def Let_def map_option_case
        split: option.splits Option.bind_splits)
qed

section \<open>Properties\<close>

datatype 'd hop = HInsert u64 'd | HInsertWithRet u64 'd | HUpdate u64 'd | HRemove u64 | HGet u64 'd

datatype 'd hres = HCode int | HData int 'd | HStuck

text \<open>One operation on the table, and on a finite map of capacity \<open>cap - 1\<close>.\<close>

fun hl_step :: "'d hashlist \<Rightarrow> 'd hop \<Rightarrow> 'd hres \<times> 'd hashlist" where
  "hl_step h (HInsert k d) =
     (case HL_Insert h k d of Some (r, h') \<Rightarrow> (HCode r, h') | None \<Rightarrow> (HStuck, h))"
| "hl_step h (HInsertWithRet k d) =
     (case HL_InsertWithRet h k d of Some (r, d', h') \<Rightarrow> (HData r d', h') | None \<Rightarrow> (HStuck, h))"
| "hl_step h (HUpdate k d) =
     (case HL_Update h k d of Some (r, h') \<Rightarrow> (HCode r, h') | None \<Rightarrow> (HStuck, h))"
| "hl_step h (HRemove k) =
     (case HL_Remove h k of Some (r, h') \<Rightarrow> (HCode r, h') | None \<Rightarrow> (HStuck, h))"
| "hl_step h (HGet k d) =
     (case HL_GetData h k d of Some (r, d') \<Rightarrow> (HData r d', h) | None \<Rightarrow> (HStuck, h))"

definition map_insert :: "int \<Rightarrow> (u64 \<rightharpoonup> 'd) \<Rightarrow> u64 \<Rightarrow> 'd \<Rightarrow> int \<times> (u64 \<rightharpoonup> 'd)" where
  "map_insert cap m k d =
     (if k \<in> dom m then (E_HASH_LIST_NODE_EXIST, m)
      else if int (card (dom m)) + 1 < cap then (HL_SUCCESS, m(k \<mapsto> d))
      else (E_HASH_LIST_NO_SPACE, m))"

fun map_step :: "int \<Rightarrow> (u64 \<rightharpoonup> 'd) \<Rightarrow> 'd hop \<Rightarrow> 'd hres \<times> (u64 \<rightharpoonup> 'd)" where
  "map_step cap m (HInsert k d) = (let (r, m') = map_insert cap m k d in (HCode r, m'))"
| "map_step cap m (HInsertWithRet k d) =
     (let (r, m') = map_insert cap m k d in (HData r (case m k of Some d' \<Rightarrow> d' | None \<Rightarrow> d), m'))"
| "map_step cap m (HUpdate k d) =
     (if k \<in> dom m then (HCode HL_SUCCESS, m(k \<mapsto> d)) else (HCode E_HASH_LIST_NO_NODE, m))"
| "map_step cap m (HRemove k) =
     (if k \<in> dom m then (HCode HL_SUCCESS, m(k := None)) else (HCode E_HASH_LIST_NO_NODE, m))"
| "map_step cap m (HGet k d) =
     (case m k of Some d' \<Rightarrow> (HData HL_SUCCESS d', m) | None \<Rightarrow> (HData E_HASH_LIST_NO_NODE d, m))"

definition hl_cap_rel :: "int \<Rightarrow> 'd hashlist \<Rightarrow> (u64 \<rightharpoonup> 'd) \<Rightarrow> bool" where
  "hl_cap_rel cap h m \<longleftrightarrow> hl_rel h m \<and> iTotalDataNodeNum (m_pstHead h) = cap"

lemma HL_Insert_map:
  assumes "hl_cap_rel cap h m"
  shows "\<exists>h'. HL_Insert h k d = Some (fst (map_insert cap m k d), h')
    \<and> hl_cap_rel cap h' (snd (map_insert cap m k d))"
  using assms HL_Insert_rel [of h m k d] by (auto simp: hl_cap_rel_def map_insert_def split: if_splits)

interpretation hl: simulation "hl_cap_rel cap" hl_step "map_step cap" "\<lambda>_. True" for cap
proof
  fix h :: "'a hashlist" and m op assume rel: "hl_cap_rel cap h m"
  then have r: "hl_rel h m" and cap: "iTotalDataNodeNum (m_pstHead h) = cap"
    by (simp_all add: hl_cap_rel_def)
  show "fst (hl_step h op) = fst (map_step cap m op)
      \<and> hl_cap_rel cap (snd (hl_step h op)) (snd (map_step cap m op))"
  proof (cases op)
    case (HInsert k d)
    with HL_Insert_map [OF rel, of k d] show ?thesis by (auto simp: case_prod_unfold Let_def)
  next
    case (HInsertWithRet k d)
    with HL_Insert_map [OF rel, of k d] show ?thesis
      by (auto simp: HL_InsertWithRet_Insert [OF r] case_prod_unfold Let_def)
  next
    case (HUpdate k d)
    with HL_Update_rel [OF r, of k d] cap show ?thesis
      by (cases "k \<in> dom m") (auto simp: hl_cap_rel_def domIff)
  next
    case (HRemove k)
    moreover have "m(k := None) = m" if "k \<notin> dom m" using that by auto
    ultimately show ?thesis using HL_Remove_rel [OF r, of k] cap
      by (cases "k \<in> dom m") (auto simp: hl_cap_rel_def domIff)
  next
    case (HGet k d)
    with HL_GetData_rel [OF r, of k d] rel show ?thesis by (auto split: option.split)
  qed
qed

text \<open>
  C26: the hash table answers every sequence of \<open>Insert\<close>, \<open>InsertWithRet\<close>, \<open>Update\<close>, \<open>Remove\<close> and
  \<open>Get\<close> with the codes and data of a finite map that has room for one entry less than the table
  has nodes, stands for that map afterwards, and never leaves its arrays or a search loop.
\<close>
theorem hashlist_refines_map:
  assumes "hl_cap_rel cap h m"
  shows "fst (run hl_step h ops) = fst (run (map_step cap) m ops)
    \<and> hl_cap_rel cap (snd (run hl_step h ops)) (snd (run (map_step cap) m ops))"
  using hl.run_sim [OF assms, of ops] by simp

definition hl_example :: "nat hashlist" where
  "hl_example = snd (HL_Clear 0 \<lparr>m_pstHead = \<lparr>iSize = 200, iTotalDataNodeNum = 3, iUsedDataNodeNum = 0,
       iIndexNodeNum = 2, ipFreeDataNodeList = 0\<rparr>, m_pstIndex = [], m_pstData = [],
       m_iIndexNodeNum = 2, m_iDataNodeNum = 3\<rparr>)"

lemma hl_example_rel: "hl_cap_rel 3 hl_example Map.empty"
  unfolding hl_cap_rel_def hl_example_def
  by (intro conjI HL_Clear_rel) (simp_all add: HL_Clear_def)

theorem hashlist_refines_map_witness:
  "fst (run hl_step hl_example [HInsert 7 10, HInsert 9 20, HInsert 7 30, HInsert 8 1, HUpdate 9 21,
       HRemove 7, HGet 9 0, HGet 7 0, HRemove 7])
   = [HCode 0, HCode 0, HCode (-106), HCode (-104), HCode 0, HCode 0, HData 0 21, HData (-105) 0, HCode (-105)]"
  using hashlist_refines_map [OF hl_example_rel, of "[HInsert 7 10, HInsert 9 20, HInsert 7 30,
      HInsert 8 1, HUpdate 9 21, HRemove 7, HGet 9 0, HGet 7 0, HRemove 7]"]
  by (simp add: map_insert_def hl_codes)

text \<open>
  \<open>Clear\<close> makes an empty table of any memory \<open>Init\<close> accepted, and after any sequence of
  operations \<open>Verify\<close> still accepts the table.
\<close>
lemma hashlist_clear_verify:
  assumes "HL_Init dsz h0 memsize n cap = (HL_SUCCESS, h)" "n < 2 ^ 31"
  shows "hl_cap_rel cap (snd (HL_Clear z h)) Map.empty
    \<and> HL_Verify (snd (run hl_step (snd (HL_Clear z h)) ops)) = Some 0"
proof -
  have "iIndexNodeNum (m_pstHead h) = n" "iTotalDataNodeNum (m_pstHead h) = cap" "1 \<le> n" "2 \<le> cap"
    using assms(1) by (auto simp: HL_Init_def Let_def hl_codes split: if_splits)
  then have rel: "hl_cap_rel cap (snd (HL_Clear z h)) Map.empty"
    using assms(2) HL_Clear_rel [of h z] by (simp add: hl_cap_rel_def HL_Clear_def Let_def)
  then have "hl_cap_rel cap (snd (run hl_step (snd (HL_Clear z h)) ops))
      (snd (run (map_step cap) Map.empty ops))" using hl.run_sim by blast
  then show ?thesis using rel HL_Verify_inv by (auto simp: hl_cap_rel_def hl_rel_def)
qed

lemma hashlist_clear_verify_witness:
  "HL_Verify (snd (run hl_step (snd (HL_Clear 0 (snd (HL_Init 24 hl_example 200 2 3)))) [HInsert 7 10, HRemove 7]))
     = Some 0"
  using hashlist_clear_verify [of 24 hl_example 200 2 3 "snd (HL_Init 24 hl_example 200 2 3)" 0 "[HInsert 7 10, HRemove 7]"]
  by (simp add: HL_Init_def CalcSize_def int32_def)

text \<open>
  visiting every index with \<open>ProcessAll\<close> and a callback that collects the entries ends, leaves
  the table alone and gives every entry of the map exactly once.
\<close>
lemma ProcessAll_visits_once:
  assumes "hl_rel h m"
  shows "\<exists>xs. ProcessAll_upto (\<lambda>k d acc. (d, acc @ [(k, d)])) (nat (iIndexNodeNum (m_pstHead h))) h [] = Some (h, xs)
    \<and> distinct (map fst xs) \<and> map_of xs = m"
proof -
  from assms obtain cs fs where inv: "hl_inv h cs fs" and m: "m = lookup h cs" by (rule hl_relE)
  let ?e = "\<lambda>x. (key_at (m_pstData h) x, Data (m_pstData h ! nat x))"
  have fold: "fold (\<lambda>x acc. acc @ [?e x]) ys acc = acc @ map ?e ys" for ys acc
    by (induction ys arbitrary: acc) simp_all
  have "nat (iIndexNodeNum (m_pstHead h)) = length cs" using inv by (auto simp: hl_inv_def)
  with ProcessAll_upto_collect [OF inv, of "length cs" "\<lambda>k d acc. acc @ [(k, d)]" "[]"]
  have p: "ProcessAll_upto (\<lambda>k d acc. (d, acc @ [(k, d)])) (nat (iIndexNodeNum (m_pstHead h))) h []
      = Some (h, map ?e (concat cs))" by (simp add: fold)
  then show ?thesis using hl_entries [OF inv] m by (auto simp: comp_def)
qed

lemma ProcessAll_visits_once_witness:
  "\<exists>xs. ProcessAll_upto (\<lambda>k d acc. (d, acc @ [(k, d)])) (nat (iIndexNodeNum (m_pstHead hl_example))) hl_example []
     = Some (hl_example, xs) \<and> map_of xs = Map.empty"
  using ProcessAll_visits_once [of hl_example Map.empty] hl_example_rel by (auto simp: hl_cap_rel_def)

end
