(* ===== verification/Platform.thy ===== *)
theory Platform
  imports Prelude
begin

text \<open>
  What the two network processes use of their surroundings: \<open>std::map\<close> with an unsigned key as a
  sorted association list (iteration is in key order), and the operating system.

  The operating system is a script of answers. Every system call consumes one entry: its return
  value, its \<open>errno\<close>, the bytes or the address it delivers; and appends an event to the trace. The
  script is arbitrary, so that a statement about all \<open>os\<close> values is a statement about every
  behaviour of the kernel and the peers; only what the calls document is built in: \<open>write\<close> accepts a prefix
  of what it is given, \<open>read\<close> delivers at most what it is asked for.
\<close>

section \<open>Ordered maps\<close>

type_synonym 'v smap = "(u32 \<times> 'v) list"

definition mfind :: "'v smap \<Rightarrow> u32 \<Rightarrow> 'v option" where
  "mfind m k = map_of m k"

definition mkeys :: "'v smap \<Rightarrow> u32 list" where
  "mkeys m = map fst m"

text \<open>\<open>insert\<close> keeps an element that is there.\<close>

fun minsert :: "u32 \<Rightarrow> 'v \<Rightarrow> 'v smap \<Rightarrow> 'v smap" where
  "minsert k v [] = [(k, v)]"
| "minsert k v ((k', v') # m) =
     (if k < k' then (k, v) # (k', v') # m
      else if k = k' then (k', v') # m else (k', v') # minsert k v m)"

text \<open>Assignment through an iterator, \<open>iter->second = v\<close>.\<close>

definition mupdate :: "u32 \<Rightarrow> 'v \<Rightarrow> 'v smap \<Rightarrow> 'v smap" where
  "mupdate k v m = map (\<lambda>(k', v'). (k', if k' = k then v else v')) m"

definition merase :: "u32 \<Rightarrow> 'v smap \<Rightarrow> 'v smap" where
  "merase k m = filter (\<lambda>e. fst e \<noteq> k) m"

definition smap_ok :: "'v smap \<Rightarrow> bool" where
  "smap_ok m \<longleftrightarrow> sorted_wrt (<) (mkeys m)"

lemma mfind_simps [simp]:
  "mfind [] k = None" "mfind ((k', v) # m) k = (if k = k' then Some v else mfind m k)"
  by (simp_all add: mfind_def)

lemma mfind_None: "mfind m k = None \<longleftrightarrow> k \<notin> set (mkeys m)"
  by (simp add: mfind_def mkeys_def map_of_eq_None_iff)

lemma mfind_minsert:
  "smap_ok m \<Longrightarrow> mfind (minsert k v m) k' =
     (if k' = k \<and> mfind m k = None then Some v else mfind m k')"
proof (induction m)
  case (Cons e m)
  obtain a b where e: "e = (a, b)" by (cases e)
  have s: "smap_ok m" "\<forall>x\<in>set (mkeys m). a < x" using Cons.prems by (simp_all add: smap_ok_def mkeys_def e)
  have "k < a \<Longrightarrow> mfind m k = None" using s(2) by (auto simp: mfind_None)
  with Cons.IH [OF s(1)] show ?case by (auto simp: e)
qed simp

lemma mfind_mupdate [simp]:
  "mfind (mupdate k v m) k' = (if k' = k then map_option (\<lambda>_. v) (mfind m k) else mfind m k')"
  by (induction m) (auto simp: mupdate_def)

lemma mfind_merase [simp]: "mfind (merase k m) k' = (if k' = k then None else mfind m k')"
  by (induction m) (auto simp: merase_def)

lemma mkeys_mupdate [simp]: "mkeys (mupdate k v m) = mkeys m"
  by (simp add: mkeys_def mupdate_def case_prod_unfold)

lemma mkeys_merase: "mkeys (merase k m) = filter (\<lambda>x. x \<noteq> k) (mkeys m)"
  by (induction m) (auto simp: mkeys_def merase_def)

lemma set_mkeys_minsert: "set (mkeys (minsert k v m)) = insert k (set (mkeys m))"
  by (induction k v m rule: minsert.induct) (auto simp: mkeys_def)

lemma smap_ok_Nil [simp]: "smap_ok []"
  by (simp add: smap_ok_def mkeys_def)

lemma smap_ok_mupdate [simp]: "smap_ok (mupdate k v m) = smap_ok m"
  by (simp add: smap_ok_def)

lemma smap_ok_merase: "smap_ok m \<Longrightarrow> smap_ok (merase k m)"
  by (simp add: smap_ok_def mkeys_merase sorted_wrt_filter)

lemma smap_ok_minsert: "smap_ok m \<Longrightarrow> smap_ok (minsert k v m)"
proof (induction m)
  case (Cons e m)
  obtain a b where e: "e = (a, b)" by (cases e)
  have s: "smap_ok m" "\<forall>x\<in>set (mkeys m). a < x" using Cons.prems by (simp_all add: smap_ok_def mkeys_def e)
  consider "k < a" | "k = a" | "a < k" by (rule linorder_cases)
  then show ?case
  proof cases
    case 3
    then have "\<forall>x\<in>set (mkeys (minsert k v m)). a < x" using s(2) by (simp add: set_mkeys_minsert)
    with 3 Cons.IH [OF s(1)] show ?thesis by (auto simp: e smap_ok_def mkeys_def)
  qed (use Cons.prems s in \<open>auto simp: e smap_ok_def mkeys_def\<close>)
qed (simp add: smap_ok_def mkeys_def)

section \<open>The operating system\<close>

record sockaddr =
  sin_addr :: u32
  sin_port :: u16

definition sockaddr0 :: sockaddr where
  "sockaddr0 = \<lparr>sin_addr = 0, sin_port = 0\<rparr>"

datatype epoll_op = CtlAdd | CtlMod | CtlDel

datatype event =
    EvWrite int "byte list"
  | EvRead int "byte list"
  | EvSendto sockaddr "byte list"
  | EvEpoll epoll_op int bool u32
  | EvClose int
  | EvConnect int sockaddr
  | EvOther

record os =
  os_ret :: "nat \<Rightarrow> int"
  os_errno :: "nat \<Rightarrow> int"
  os_data :: "nat \<Rightarrow> byte list"
  os_addr :: "nat \<Rightarrow> sockaddr"
  os_tick :: nat
  os_trace :: "event list"

definition os_call :: "event \<Rightarrow> os \<Rightarrow> os" where
  "os_call ev w = w\<lparr>os_tick := Suc (os_tick w), os_trace := os_trace w @ [ev]\<rparr>"

definition sys_int :: "event \<Rightarrow> os \<Rightarrow> int \<times> os" where
  "sys_int ev w = (os_ret w (os_tick w), os_call ev w)"

definition sys_write :: "int \<Rightarrow> byte list \<Rightarrow> os \<Rightarrow> int \<times> os" where
  "sys_write fd bs w =
     (let r = min (os_ret w (os_tick w)) (int (length bs))
      in (r, os_call (EvWrite fd (take (nat r) bs)) w))"

definition sys_read :: "int \<Rightarrow> nat \<Rightarrow> os \<Rightarrow> int \<times> byte list \<times> os" where
  "sys_read fd n w =
     (if os_ret w (os_tick w) < 0 then (-1, [], os_call (EvRead fd []) w)
      else let d = take n (os_data w (os_tick w))
           in (int (length d), d, os_call (EvRead fd d) w))"

definition sys_time :: "os \<Rightarrow> int \<times> os" where
  "sys_time w = sys_int EvOther w"

definition EAGAIN :: int where "EAGAIN = 11"
definition EWOULDBLOCK :: int where "EWOULDBLOCK = 11"

text \<open>\<open>errno == EAGAIN || errno == EWOULDBLOCK\<close> after the last call.\<close>

definition would_block :: "os \<Rightarrow> bool" where
  "would_block w =
     (let e = os_errno w (os_tick w - 1) in e = EAGAIN \<or> e = EWOULDBLOCK)"

text \<open>The bytes a list of events put on a socket.\<close>

fun sent_on :: "int \<Rightarrow> event list \<Rightarrow> byte list" where
  "sent_on fd [] = []"
| "sent_on fd (EvWrite fd' bs # evs) = (if fd' = fd then bs @ sent_on fd evs else sent_on fd evs)"
| "sent_on fd (_ # evs) = sent_on fd evs"

lemma sent_on_append [simp]: "sent_on fd (evs @ evs') = sent_on fd evs @ sent_on fd evs'"
  by (induction fd evs rule: sent_on.induct) simp_all

lemma os_trace_call [simp]: "os_trace (os_call ev w) = os_trace w @ [ev]"
  by (simp add: os_call_def)

lemma sys_time_trace [simp]: "os_trace (snd (sys_time w)) = os_trace w @ [EvOther]"
  by (simp add: sys_time_def sys_int_def)

end
