(* ===== verification/ConnBuf.thy ===== *)
theory ConnBuf
  imports Platform
begin

text \<open>
  \<open>CConnInfo\<close> (\<^verbatim>\<open>bus/bus.cpp\<close> and, with two more fields, \<^verbatim>\<open>conn/conn.cpp\<close>): one TCP connection
  with a buffer of bytes that were received and not yet processed and one of bytes that were
  accepted for sending and not yet written. The operations are polymorphic in the record so that
  the connection server's extension of it shares them. The theory shows that the send path neither
  loses, duplicates nor reorders bytes, whatever part of each write the kernel accepts.
\<close>

definition XY_MAXBUFF_LEN :: nat where "XY_MAXBUFF_LEN = 2048000"
definition XY_PKG_MAX_LEN :: nat where "XY_PKG_MAX_LEN = 2048000"

record conninfo =
  m_ConnPos :: u32
  m_SockID :: int
  m_RemoteAddr :: sockaddr
  m_LocalAddr :: sockaddr
  m_LastActTime :: int
  m_RemainSendData :: "byte list"
  m_RemainRecvData :: "byte list"

definition ConnInfo_new :: "u32 \<Rightarrow> int \<Rightarrow> sockaddr \<Rightarrow> sockaddr \<Rightarrow> os \<Rightarrow> conninfo \<times> os" where
  "ConnInfo_new ConnPos SockID RemoteAddr LocalAddr w =
     (let (t, w) = sys_time w
      in (\<lparr>m_ConnPos = ConnPos, m_SockID = SockID, m_RemoteAddr = RemoteAddr, m_LocalAddr = LocalAddr,
           m_LastActTime = t, m_RemainSendData = [], m_RemainRecvData = []\<rparr>, w))"

text \<open>
  \<open>Recv\<close>: \<open>pLen\<close> is the size of the caller's buffer; the bytes returned are the buffer's first
  \<open>*pLen\<close> bytes: what was left over followed by what was read.
\<close>

definition Recv ::
  "'a conninfo_scheme \<Rightarrow> u32 \<Rightarrow> os \<Rightarrow> int \<times> byte list \<times> 'a conninfo_scheme \<times> os" where
  "Recv c pLen w =
     (let rem = m_RemainRecvData c
      in if rem \<noteq> [] \<and> length rem > XY_MAXBUFF_LEN then (-1, [], c, w)
         else let RecvBuffLen = (if rem \<noteq> [] then pLen - of_nat (length rem) else pLen);
                  (RecvBytes, bytes, w) = sys_read (m_SockID c) (unat RecvBuffLen) w
              in if RecvBytes > 0
                 then let (t, w) = sys_time w
                      in (0, rem @ bytes, c\<lparr>m_LastActTime := t, m_RemainRecvData := []\<rparr>, w)
                 else if RecvBytes = 0 then (1, [], c, w)
                 else if would_block w then (0, rem, c\<lparr>m_RemainRecvData := []\<rparr>, w)
                 else (-1, [], c, w))"

definition Send_new :: "'a conninfo_scheme \<Rightarrow> byte list \<Rightarrow> os \<Rightarrow> int \<times> 'a conninfo_scheme \<times> os" where
  "Send_new c pBuff w =
     (let (WriteBytes, w) = sys_write (m_SockID c) pBuff w
      in if WriteBytes > 0 then let (t, w) = sys_time w in (WriteBytes, c\<lparr>m_LastActTime := t\<rparr>, w)
         else if would_block w then (0, c, w) else (-1, c, w))"

definition Send :: "'a conninfo_scheme \<Rightarrow> byte list \<Rightarrow> os \<Rightarrow> int \<times> 'a conninfo_scheme \<times> os" where
  "Send c pBuff w =
     (let rem = m_RemainSendData c
      in if rem \<noteq> []
         then let (WriteBytes, w) = sys_write (m_SockID c) rem w
              in if WriteBytes > 0 \<and> WriteBytes < int (length rem)
                 then let (t, w) = sys_time w
                      in (0, c\<lparr>m_LastActTime := t, m_RemainSendData := drop (nat WriteBytes) rem\<rparr>, w)
                 else if WriteBytes = int (length rem)
                 then Send_new (c\<lparr>m_RemainSendData := []\<rparr>) pBuff w
                 else if would_block w then (0, c, w) else (-1, c, w)
         else Send_new c pBuff w)"

definition AddRecvData :: "'a conninfo_scheme \<Rightarrow> byte list \<Rightarrow> int \<times> 'a conninfo_scheme" where
  "AddRecvData c pBuff =
     (if m_RemainRecvData c \<noteq> []
      then if length (m_RemainRecvData c) + length pBuff > XY_MAXBUFF_LEN then (-1, c)
           else (0, c\<lparr>m_RemainRecvData := m_RemainRecvData c @ pBuff\<rparr>)
      else if length pBuff > XY_MAXBUFF_LEN then (-1, c)
           else (0, c\<lparr>m_RemainRecvData := pBuff\<rparr>))"

definition AddSendData :: "'a conninfo_scheme \<Rightarrow> byte list \<Rightarrow> int \<times> 'a conninfo_scheme" where
  "AddSendData c pBuff =
     (if m_RemainSendData c \<noteq> []
      then if length (m_RemainSendData c) + length pBuff > XY_MAXBUFF_LEN then (-1, c)
           else (0, c\<lparr>m_RemainSendData := m_RemainSendData c @ pBuff\<rparr>)
      else if length pBuff > XY_MAXBUFF_LEN then (-1, c)
           else (0, c\<lparr>m_RemainSendData := pBuff\<rparr>))"

definition SendRemainData :: "'a conninfo_scheme \<Rightarrow> os \<Rightarrow> int \<times> 'a conninfo_scheme \<times> os" where
  "SendRemainData c w =
     (let rem = m_RemainSendData c
      in if rem \<noteq> []
         then let (WriteBytes, w) = sys_write (m_SockID c) rem w
              in if WriteBytes > 0 \<and> WriteBytes < int (length rem)
                 then let (t, w) = sys_time w
                      in (1, c\<lparr>m_LastActTime := t, m_RemainSendData := drop (nat WriteBytes) rem\<rparr>, w)
                 else if WriteBytes = int (length rem) then (0, c\<lparr>m_RemainSendData := []\<rparr>, w)
                 else if would_block w then (1, c, w) else (-1, c, w)
         else (0, c, w))"

text \<open>
  How both processes send a packet: \<open>Send\<close>, and what it did not take goes to the buffer. The second
  component tells whether the buffer was used, in which case the caller asks for \<open>EPOLLOUT\<close>.
\<close>

definition send_or_store ::
  "'a conninfo_scheme \<Rightarrow> byte list \<Rightarrow> os \<Rightarrow> int \<times> bool \<times> 'a conninfo_scheme \<times> os" where
  "send_or_store c pSendBuff w =
     (let (Ret2, c, w) = Send c pSendBuff w
      in if Ret2 \<ge> 0 \<and> Ret2 < int (length pSendBuff)
         then let (Ret3, c) = AddSendData c (drop (nat Ret2) pSendBuff)
              in if Ret3 \<noteq> 0 then (-2, True, c, w) else (0, True, c, w)
         else if Ret2 < 0 then (-3, False, c, w) else (0, False, c, w))"

section \<open>The send path\<close>

text \<open>
  \<open>stream_step fd w w' old new\<close>: the calls between \<open>w\<close> and \<open>w'\<close> wrote exactly the bytes that turn the
  pending bytes \<open>old\<close> into \<open>new\<close>.
\<close>

definition stream_step :: "int \<Rightarrow> os \<Rightarrow> os \<Rightarrow> byte list \<Rightarrow> byte list \<Rightarrow> bool" where
  "stream_step fd w w' old new \<longleftrightarrow>
     (\<exists>evs. os_trace w' = os_trace w @ evs \<and> sent_on fd evs @ new = old)"

lemma stream_stepI:
  "os_trace w' = os_trace w @ evs \<Longrightarrow> sent_on fd evs @ new = old \<Longrightarrow> stream_step fd w w' old new"
  by (auto simp: stream_step_def)

lemma stream_step_refl [simp]: "stream_step fd w w old old"
  by (simp add: stream_step_def)

lemma stream_step_trans:
  "stream_step fd w w' old mid \<Longrightarrow> stream_step fd w' w'' mid new \<Longrightarrow> stream_step fd w w'' old new"
  unfolding stream_step_def by (metis append.assoc sent_on_append)

lemma stream_step_append: "stream_step fd w w' old new \<Longrightarrow> stream_step fd w w' (old @ bs) (new @ bs)"
  unfolding stream_step_def by (metis append.assoc)

lemma sys_write_step:
  assumes "sys_write fd bs w = (r, w')"
  shows "r \<le> int (length bs)" "os_trace w' = os_trace w @ [EvWrite fd (take (nat r) bs)]"
    "stream_step fd w w' bs (drop (nat r) bs)"
  using assms by (auto simp: sys_write_def Let_def stream_step_def)

lemma Send_new_stream:
  assumes "Send_new c pBuff w = (r, c', w')"
  shows "r \<le> int (length pBuff)" "m_SockID c' = m_SockID c"
    "m_RemainSendData c' = m_RemainSendData c"
    "0 \<le> r \<Longrightarrow> stream_step (m_SockID c) w w' pBuff (drop (nat r) pBuff)"
proof -
  obtain n w1 where wr: "sys_write (m_SockID c) pBuff w = (n, w1)" by force
  note s = sys_write_step [OF wr]
  have t: "stream_step fd w1 (snd (sys_time w1)) x x" for fd x
    by (rule stream_stepI [of _ _ "[EvOther]"]) simp_all
  show "r \<le> int (length pBuff)" "m_SockID c' = m_SockID c" "m_RemainSendData c' = m_RemainSendData c"
    using assms s(1) by (auto simp: Send_new_def wr case_prod_unfold Let_def split: if_splits)
  assume "0 \<le> r"
  moreover have "nat n = 0" if "n \<le> 0" using that by simp
  ultimately show "stream_step (m_SockID c) w w' pBuff (drop (nat r) pBuff)"
    using assms s(3) stream_step_trans [OF s(3) t]
    by (auto simp: Send_new_def wr case_prod_unfold Let_def split: if_splits)
qed

text \<open>After a \<open>Send\<close> that did not fail, the bytes not written are the new remainder and the rest of the packet.\<close>

lemma Send_stream:
  assumes "Send c pBuff w = (r, c', w')"
  shows "r \<le> int (length pBuff)" "m_SockID c' = m_SockID c"
    "0 \<le> r \<Longrightarrow> stream_step (m_SockID c) w w' (m_RemainSendData c @ pBuff)
       (m_RemainSendData c' @ drop (nat r) pBuff)"
    "length (m_RemainSendData c') \<le> length (m_RemainSendData c)"
proof -
  let ?rem = "m_RemainSendData c"
  obtain n w1 where wr: "sys_write (m_SockID c) ?rem w = (n, w1)" by force
  note s = sys_write_step [OF wr]
  have t: "stream_step fd w1 (snd (sys_time w1)) x x" for fd x
    by (rule stream_stepI [of _ _ "[EvOther]"]) simp_all
  consider (fresh) "?rem = []" | (all) "?rem \<noteq> []" "n = int (length ?rem)"
    | (some) "?rem \<noteq> []" "0 < n" "n < int (length ?rem)" | (none) "?rem \<noteq> []" "n \<le> 0"
    using s(1) by fastforce
  then have "r \<le> int (length pBuff) \<and> m_SockID c' = m_SockID c
    \<and> (0 \<le> r \<longrightarrow> stream_step (m_SockID c) w w' (?rem @ pBuff) (m_RemainSendData c' @ drop (nat r) pBuff))
    \<and> length (m_RemainSendData c') \<le> length ?rem"
  proof cases
    case fresh
    with assms have "Send_new c pBuff w = (r, c', w')" by (simp add: Send_def)
    from Send_new_stream [OF this] fresh show ?thesis by simp
  next
    case all
    with assms have "Send_new (c\<lparr>m_RemainSendData := []\<rparr>) pBuff w1 = (r, c', w')"
      by (simp add: Send_def wr)
    note f = Send_new_stream [OF this]
    have "stream_step (m_SockID c) w w1 (?rem @ pBuff) pBuff"
      using stream_step_append [OF s(3), of pBuff] all by simp
    with f show ?thesis
      using stream_step_trans [of "m_SockID c" w w1 "?rem @ pBuff" pBuff w' "drop (nat r) pBuff"] by simp
  next
    case some
    have "stream_step (m_SockID c) w (snd (sys_time w1)) (?rem @ pBuff) (drop (nat n) ?rem @ pBuff)"
      using stream_step_trans [OF s(3) t] by (rule stream_step_append)
    with some assms show ?thesis by (auto simp: Send_def wr Let_def case_prod_unfold)
  next
    case none
    then have "stream_step (m_SockID c) w w1 (?rem @ pBuff) (?rem @ pBuff)"
      using stream_step_append [OF s(3), of pBuff] by simp
    with none assms show ?thesis by (auto simp: Send_def wr Let_def split: if_splits)
  qed
  then show "r \<le> int (length pBuff)" "m_SockID c' = m_SockID c"
    "0 \<le> r \<Longrightarrow> stream_step (m_SockID c) w w' (?rem @ pBuff) (m_RemainSendData c' @ drop (nat r) pBuff)"
    "length (m_RemainSendData c') \<le> length ?rem" by simp_all
qed

lemma SendRemainData_stream:
  assumes "SendRemainData c w = (r, c', w')"
  shows "m_SockID c' = m_SockID c" "r \<in> {0, 1, -1}"
    "0 \<le> r \<Longrightarrow> stream_step (m_SockID c) w w' (m_RemainSendData c) (m_RemainSendData c')"
    "r = 0 \<longleftrightarrow> m_RemainSendData c' = []"
    "length (m_RemainSendData c') \<le> length (m_RemainSendData c)"
proof -
  let ?rem = "m_RemainSendData c"
  obtain n w1 where wr: "sys_write (m_SockID c) ?rem w = (n, w1)" by force
  note s = sys_write_step [OF wr]
  have t: "stream_step fd w1 (snd (sys_time w1)) x x" for fd x
    by (rule stream_stepI [of _ _ "[EvOther]"]) simp_all
  consider (fresh) "?rem = []" | (all) "?rem \<noteq> []" "n = int (length ?rem)"
    | (some) "?rem \<noteq> []" "0 < n" "n < int (length ?rem)" | (none) "?rem \<noteq> []" "n \<le> 0"
    using s(1) by fastforce
  then have "m_SockID c' = m_SockID c \<and> r \<in> {0, 1, -1}
    \<and> (0 \<le> r \<longrightarrow> stream_step (m_SockID c) w w' ?rem (m_RemainSendData c'))
    \<and> (r = 0 \<longleftrightarrow> m_RemainSendData c' = []) \<and> length (m_RemainSendData c') \<le> length ?rem"
  proof cases
    case fresh
    with assms show ?thesis by (simp add: SendRemainData_def)
  next
    case all
    with assms have "r = 0" "w' = w1" "c' = c\<lparr>m_RemainSendData := []\<rparr>" by (simp_all add: SendRemainData_def wr)
    with s(3) all show ?thesis by simp
  next
    case some
    with assms have "r = 1" "w' = snd (sys_time w1)" "m_SockID c' = m_SockID c" "m_RemainSendData c' = drop (nat n) ?rem"
      by (auto simp: SendRemainData_def wr Let_def case_prod_unfold)
    with stream_step_trans [OF s(3) t] some show ?thesis by simp
  next
    case none
    then have "\<not> (0 < n \<and> n < int (length ?rem))" "n \<noteq> int (length ?rem)" by auto
    with none assms have "w' = w1" "c' = c" "r \<in> {1, -1}"
      by (auto simp: SendRemainData_def wr Let_def split: if_splits)
    with none s(3) show ?thesis by auto
  qed
  then show "m_SockID c' = m_SockID c" "r \<in> {0, 1, -1}"
    "0 \<le> r \<Longrightarrow> stream_step (m_SockID c) w w' (m_RemainSendData c) (m_RemainSendData c')"
    "r = 0 \<longleftrightarrow> m_RemainSendData c' = []"
    "length (m_RemainSendData c') \<le> length (m_RemainSendData c)" by blast+
qed

lemma AddSendData_stream:
  assumes "AddSendData c bs = (r, c')"
  shows "r = 0 \<or> r = -1" "m_SockID c' = m_SockID c"
    "r = 0 \<Longrightarrow> m_RemainSendData c' = m_RemainSendData c @ bs"
    "r = 0 \<longleftrightarrow> length (m_RemainSendData c) + length bs \<le> XY_MAXBUFF_LEN"
    "length (m_RemainSendData c) \<le> XY_MAXBUFF_LEN \<Longrightarrow> length (m_RemainSendData c') \<le> XY_MAXBUFF_LEN"
  using assms by (auto simp: AddSendData_def split: if_splits)

lemma send_or_store_stream:
  assumes "send_or_store c bs w = (r, st, c', w')"
  shows "r \<in> {0, -2, -3}" "m_SockID c' = m_SockID c"
    "r = 0 \<Longrightarrow> stream_step (m_SockID c) w w' (m_RemainSendData c @ bs) (m_RemainSendData c')"
    "length (m_RemainSendData c) \<le> XY_MAXBUFF_LEN \<Longrightarrow> length (m_RemainSendData c') \<le> XY_MAXBUFF_LEN"
proof -
  obtain r2 c2 w2 where S: "Send c bs w = (r2, c2, w2)" by (cases "Send c bs w") auto
  obtain r3 c3 where A: "AddSendData c2 (drop (nat r2) bs) = (r3, c3)" by force
  note sp = Send_stream [OF S] and ap = AddSendData_stream [OF A]
  consider (stored) "0 \<le> r2" "r2 < int (length bs)" | (fail) "r2 < 0" | (full) "r2 = int (length bs)"
    using sp(1) by linarith
  then have "r \<in> {0, -2, -3} \<and> m_SockID c' = m_SockID c
    \<and> (r = 0 \<longrightarrow> stream_step (m_SockID c) w w' (m_RemainSendData c @ bs) (m_RemainSendData c'))
    \<and> (length (m_RemainSendData c) \<le> XY_MAXBUFF_LEN \<longrightarrow> length (m_RemainSendData c') \<le> XY_MAXBUFF_LEN)"
  proof cases
    case stored
    with assms have "c' = c3" "w' = w2" "r = (if r3 = 0 then 0 else -2)"
      by (auto simp: send_or_store_def S A split: if_splits)
    with sp ap stored show ?thesis by auto
  next
    case fail
    with assms have "c' = c2" "r = -3" by (auto simp: send_or_store_def S)
    with sp show ?thesis by simp
  next
    case full
    with assms have "c' = c2" "w' = w2" "r = 0" by (auto simp: send_or_store_def S)
    with sp full show ?thesis by simp
  qed
  then show "r \<in> {0, -2, -3}" "m_SockID c' = m_SockID c"
    "r = 0 \<Longrightarrow> stream_step (m_SockID c) w w' (m_RemainSendData c @ bs) (m_RemainSendData c')"
    "length (m_RemainSendData c) \<le> XY_MAXBUFF_LEN \<Longrightarrow> length (m_RemainSendData c') \<le> XY_MAXBUFF_LEN"
    by blast+
qed

text \<open>When nothing had to be stored, nothing is left waiting.\<close>

lemma Send_flushed: "Send c bs w = (r, c', w') \<Longrightarrow> 0 < r \<Longrightarrow> m_RemainSendData c' = []"
  by (auto simp: Send_def Send_new_def Let_def split: if_splits prod.splits)

lemma send_or_store_flushed:
  assumes "send_or_store c bs w = (r, bl, c', w')" "\<not> bl" "r = 0" "bs \<noteq> []"
  shows "m_RemainSendData c' = []"
proof -
  obtain r2 c2 w2 where S: "Send c bs w = (r2, c2, w2)" by (cases "Send c bs w") auto
  have "c' = c2" "r2 \<ge> int (length bs)"
    using assms(1-3) by (auto simp: send_or_store_def S split: if_splits prod.splits)
  moreover have "0 < length bs" using assms(4) by simp
  ultimately have "0 < r2" by linarith
  from Send_flushed [OF S this] \<open>c' = c2\<close> show ?thesis by simp
qed

section \<open>Properties\<close>

datatype cop = CSend "byte list" | CFlush

fun cop_bytes :: "cop \<Rightarrow> byte list" where
  "cop_bytes (CSend bs) = bs"
| "cop_bytes CFlush = []"

fun conn_step :: "conninfo \<times> os \<Rightarrow> cop \<Rightarrow> int \<times> (conninfo \<times> os)" where
  "conn_step (c, w) (CSend bs) = (let (r, st, c, w) = send_or_store c bs w in (r, (c, w)))"
| "conn_step (c, w) CFlush = (let (r, c, w) = SendRemainData c w in (r, (c, w)))"

lemma conn_step_stream:
  assumes "conn_step (c, w) op = (r, c', w')" "0 \<le> r"
  shows "m_SockID c' = m_SockID c"
    "stream_step (m_SockID c) w w' (m_RemainSendData c @ cop_bytes op) (m_RemainSendData c')"
proof -
  have "m_SockID c' = m_SockID c
    \<and> stream_step (m_SockID c) w w' (m_RemainSendData c @ cop_bytes op) (m_RemainSendData c')"
  proof (cases op)
    case (CSend bs)
    then obtain st where "send_or_store c bs w = (r, st, c', w')"
      using assms by (auto split: prod.splits)
    from send_or_store_stream [OF this] assms CSend show ?thesis by auto
  next
    case CFlush
    then have "SendRemainData c w = (r, c', w')" using assms by (auto split: prod.splits)
    from SendRemainData_stream [OF this] assms CFlush show ?thesis by simp
  qed
  then show "m_SockID c' = m_SockID c"
    "stream_step (m_SockID c) w w' (m_RemainSendData c @ cop_bytes op) (m_RemainSendData c')" by blast+
qed

text \<open>
  C8: whatever part of each write the kernel accepts, over any sequence of packet sends and buffer
  flushes that did not fail, the bytes written to the socket followed by the bytes still buffered
  are the bytes buffered at the start followed by the packets in order: nothing is lost, repeated
  or reordered.
\<close>
theorem conn_stream_conserved:
  assumes "\<forall>r\<in>set (fst (run conn_step (c, w) ops)). 0 \<le> r"
  shows "case snd (run conn_step (c, w) ops) of (c', w') \<Rightarrow>
    \<exists>evs. os_trace w' = os_trace w @ evs
      \<and> sent_on (m_SockID c) evs @ m_RemainSendData c'
        = m_RemainSendData c @ concat (map cop_bytes ops)"
  using assms
proof (induction ops arbitrary: c w)
  case (Cons op ops)
  obtain r c1 w1 where st: "conn_step (c, w) op = (r, c1, w1)" by (cases "conn_step (c, w) op") auto
  with Cons.prems have r: "0 \<le> r" and rest: "\<forall>r\<in>set (fst (run conn_step (c1, w1) ops)). 0 \<le> r"
    by (simp_all add: case_prod_unfold Let_def)
  note s = conn_step_stream [OF st r]
  obtain c' w' where fin: "snd (run conn_step (c1, w1) ops) = (c', w')" by force
  with Cons.IH [OF rest] have
    "stream_step (m_SockID c) w1 w' (m_RemainSendData c1 @ concat (map cop_bytes ops)) (m_RemainSendData c')"
    by (auto simp: stream_step_def s(1))
  with stream_step_trans [OF stream_step_append [OF s(2), of "concat (map cop_bytes ops)"]]
  have "stream_step (m_SockID c) w w' (m_RemainSendData c @ cop_bytes op @ concat (map cop_bytes ops))
      (m_RemainSendData c')" by simp
  with st fin show ?case by (simp add: stream_step_def case_prod_unfold Let_def)
qed simp

definition os_example :: "int list \<Rightarrow> os" where
  "os_example rs = \<lparr>os_ret = (\<lambda>n. if n < length rs then rs ! n else 0), os_errno = (\<lambda>_. EAGAIN),
     os_data = (\<lambda>_. []), os_addr = (\<lambda>_. sockaddr0), os_tick = 0, os_trace = []\<rparr>"

definition conn_example :: conninfo where
  "conn_example = fst (ConnInfo_new 300001 7 sockaddr0 sockaddr0 (os_example []))"

text \<open>Three bytes of the first packet are taken, the second waits, two flushes empty the buffer.\<close>

theorem conn_stream_conserved_witness:
  "fst (run conn_step (conn_example, os_example [3, 0, -1, 2, 0, 9])
      [CSend [1, 2, 3, 4, 5], CSend [6], CFlush, CFlush]) = [0, 0, 1, 0]
   \<and> (case snd (run conn_step (conn_example, os_example [3, 0, -1, 2, 0, 9])
      [CSend [1, 2, 3, 4, 5], CSend [6], CFlush, CFlush]) of (c', w') \<Rightarrow>
     \<exists>evs. os_trace w' = evs \<and> sent_on 7 evs @ m_RemainSendData c' = [1, 2, 3, 4, 5, 6])"
proof -
  let ?run = "run conn_step (conn_example, os_example [3, 0, -1, 2, 0, 9]) [CSend [1, 2, 3, 4, 5], CSend [6], CFlush, CFlush]"
  have "fst ?run = [0, 0, 1, 0]"
    by (simp add: send_or_store_def Send_def Send_new_def AddSendData_def SendRemainData_def sys_write_def
        sys_time_def sys_int_def os_call_def would_block_def EAGAIN_def EWOULDBLOCK_def XY_MAXBUFF_LEN_def
        conn_example_def os_example_def ConnInfo_new_def Let_def)
  moreover have "m_SockID conn_example = 7" "m_RemainSendData conn_example = []" "os_trace (os_example rs) = []" for rs
    by (simp_all add: conn_example_def os_example_def ConnInfo_new_def sys_time_def sys_int_def)
  ultimately show ?thesis
    using conn_stream_conserved [of conn_example "os_example [3, 0, -1, 2, 0, 9]" "[CSend [1, 2, 3, 4, 5], CSend [6], CFlush, CFlush]"]
    by simp
qed

end
