(* ===== verification/IniFile.thy ===== *)
theory IniFile
  imports Prelude "HOL-Library.Monad_Syntax"
begin

text \<open>
  The configuration reader \<open>CIniFile\<close> (\<^verbatim>\<open>mmlib/ini_file/ini_file.cpp\<close>), which the \<open>Init\<close> functions of all
  servers use. The buffer is the text of the file with its terminating zero; a pointer into it is a
  position. The three search loops are written as the code has them, on \<open>strstr\<close>; they have result
  \<open>None\<close> when they run for ever (an empty name) or the code's behaviour is undefined.

  The theory shows that the loops end for non-empty names, that the value fits the caller's buffer,
  and that a lookup gives the value of the first line with the item in the first section of that
  name.
\<close>

section \<open>C strings\<close>

definition NUL :: char where "NUL = CHR 0x00"
definition TAB :: char where "TAB = CHR 0x09"
definition LF :: char where "LF = CHR 0x0A"
definition CR :: char where "CR = CHR 0x0D"

lemmas char_defs = NUL_def TAB_def LF_def CR_def

text \<open>The character at a position of a zero-terminated buffer.\<close>

definition char_at :: "string \<Rightarrow> nat \<Rightarrow> char" where
  "char_at buf i = (if i < length buf then buf ! i else NUL)"

fun find_sub :: "string \<Rightarrow> string \<Rightarrow> nat option" where
  "find_sub pat [] = (if pat = [] then Some 0 else None)"
| "find_sub pat (c # cs) = (if take (length pat) (c # cs) = pat then Some 0 else map_option Suc (find_sub pat cs))"

definition strstr :: "string \<Rightarrow> nat \<Rightarrow> string \<Rightarrow> nat option" where
  "strstr buf p pat = map_option (\<lambda>i. p + i) (find_sub pat (takeWhile (\<lambda>c. c \<noteq> NUL) (drop p buf)))"

definition is_ws :: "char \<Rightarrow> bool" where
  "is_ws c \<longleftrightarrow> c = CHR '' '' \<or> c = TAB \<or> c = CR \<or> c = LF"

text \<open>From the right, then from the left.\<close>

definition TrimString :: "string \<Rightarrow> string" where
  "TrimString s = dropWhile is_ws (rev (dropWhile is_ws (rev s)))"

text \<open>
  \<open>atoi\<close>, \<open>sscanf("%x")\<close> and \<open>strtoull\<close>: white space, a sign, digits. \<open>None\<close>: the value does not fit the
  type, which the first two leave undefined. \<open>isspace\<close> also takes the vertical tab and form feed.
\<close>

definition isspace :: "char \<Rightarrow> bool" where
  "isspace c \<longleftrightarrow> is_ws c \<or> c = CHR 0x0B \<or> c = CHR 0x0C"

definition digit_val :: "char \<Rightarrow> int" where
  "digit_val c = (let n = int (of_char c)
     in if 48 \<le> n \<and> n \<le> 57 then n - 48 else if 97 \<le> n \<and> n \<le> 102 then n - 87 else if 65 \<le> n \<and> n \<le> 70 then n - 55 else 99)"

definition digits :: "int \<Rightarrow> string \<Rightarrow> string" where
  "digits base s = takeWhile (\<lambda>c. digit_val c < base) s"

definition digits_val :: "int \<Rightarrow> string \<Rightarrow> int" where
  "digits_val base s = foldl (\<lambda>n c. n * base + digit_val c) 0 (digits base s)"

definition split_sign :: "string \<Rightarrow> bool \<times> string" where
  "split_sign s = (case s of c # cs \<Rightarrow> if c = CHR ''-'' then (True, cs) else if c = CHR ''+'' then (False, cs) else (False, s) | [] \<Rightarrow> (False, s))"

definition atoi :: "string \<Rightarrow> int option" where
  "atoi s = (let (neg, ds) = split_sign (dropWhile isspace s); n = digits_val 10 ds; v = (if neg then - n else n)
     in if - (2 ^ 31) \<le> v \<and> v < 2 ^ 31 then Some v else None)"

text \<open>\<open>sscanf(s, "%x", &v)\<close> for an \<open>int\<close> \<open>v\<close>, which keeps its value when there is no digit.\<close>

definition scan_hex :: "string \<Rightarrow> int \<Rightarrow> int option" where
  "scan_hex s old =
     (let (neg, ds) = split_sign (dropWhile isspace s);
          ds = (if take 2 ds = ''0x'' \<or> take 2 ds = ''0X'' then drop 2 ds else ds); n = digits_val 16 ds
      in if digits 16 ds = [] then Some old
         else if n < 2 ^ 32 then Some (sint (word_of_int (if neg then - n else n) :: u32)) else None)"

definition strtoull :: "string \<Rightarrow> u64" where
  "strtoull s = (let (neg, ds) = split_sign (dropWhile isspace s); n = digits_val 10 ds
     in if n \<ge> 2 ^ 64 then -1 else word_of_int (if neg then - n else n))"

section \<open>The reader\<close>

record inifile =
  m_szBuffer :: "string option"
  m_iSize :: int

definition E_INI_FILE :: int where "E_INI_FILE = -401"
definition INI_SUCCESS :: int where "INI_SUCCESS = 0"

text \<open>
  The constructor: \<open>st_size\<close> is what \<open>stat\<close> reports (\<open>None\<close> when it fails), \<open>alloc\<close> whether \<open>malloc\<close>
  succeeds and \<open>file\<close> what the file holds when it is read, \<open>None\<close> when \<open>fopen\<close> fails, which the code
  does not check. Behind a short file the buffer keeps the zeroes of \<open>memset\<close>. The size \<open>2\<^sup>3\<^sup>1 - 1\<close>
  overflows \<open>m_iSize + 1\<close>.
\<close>

definition CIniFile :: "int option \<Rightarrow> bool \<Rightarrow> string option \<Rightarrow> inifile option" where
  "CIniFile st_size alloc file =
     (case st_size of
        None \<Rightarrow> Some \<lparr>m_szBuffer = None, m_iSize = 0\<rparr>
      | Some st \<Rightarrow>
          let n = sint (word_of_int st :: u32)
          in if n \<le> 0 then Some \<lparr>m_szBuffer = None, m_iSize = n\<rparr>
             else if n = 2 ^ 31 - 1 then None
             else if \<not> alloc then Some \<lparr>m_szBuffer = None, m_iSize = n\<rparr>
             else do {
               t \<leftarrow> file;
               Some \<lparr>m_szBuffer = Some (take (nat n) (t @ replicate (nat n) NUL)), m_iSize = n\<rparr>
             })"

definition IsValid :: "inifile \<Rightarrow> bool" where
  "IsValid f \<longleftrightarrow> \<not> (m_szBuffer f = None \<or> m_iSize f \<le> 0)"

text \<open>How a search loop ends: with an error return, at the end of the buffer, or at a position.\<close>

datatype search = NotFound | RanOff | Found nat

text \<open>The header of the section.\<close>

partial_function (option) find_section :: "string \<Rightarrow> string \<Rightarrow> nat \<Rightarrow> search option" where
  "find_section buf szSection pszTemp =
     (if pszTemp < length buf
      then case strstr buf pszTemp szSection of
             None \<Rightarrow> Some NotFound
           | Some pszSection \<Rightarrow>
               if pszSection = 0 then Some NotFound
               else if char_at buf (pszSection - 1) \<noteq> CHR ''['' \<or> char_at buf (pszSection + length szSection) \<noteq> CHR '']''
               then find_section buf szSection (pszSection + length szSection)
               else if pszSection > 1 \<and> char_at buf (pszSection - 2) \<noteq> LF
               then find_section buf szSection (pszSection + length szSection)
               else Some (Found pszSection)
      else Some RanOff)"

text \<open>The next section, or the end of the buffer.\<close>

partial_function (option) next_section :: "string \<Rightarrow> nat \<Rightarrow> nat option" where
  "next_section buf pszTestSection =
     (case strstr buf pszTestSection ''['' of
        None \<Rightarrow> Some (length buf)
      | Some pszNextSection \<Rightarrow>
          if char_at buf (pszNextSection - 1) = LF then Some pszNextSection else next_section buf (pszNextSection + 1))"

partial_function (option) find_item :: "string \<Rightarrow> string \<Rightarrow> nat \<Rightarrow> nat \<Rightarrow> search option" where
  "find_item buf szItem pszNextSection pszTemp =
     (if pszTemp < length buf
      then case strstr buf pszTemp szItem of
             None \<Rightarrow> Some NotFound
           | Some pszItem \<Rightarrow>
               if pszItem \<ge> pszNextSection then Some NotFound
               else if char_at buf (pszItem - 1) \<noteq> LF then find_item buf szItem pszNextSection (pszItem + length szItem)
               else if char_at buf (pszItem + length szItem) \<notin> {CHR '' '', CHR ''='', TAB}
               then find_item buf szItem pszNextSection (pszItem + length szItem)
               else Some (Found pszItem)
      else Some RanOff)"

text \<open>
  The copy loop: \<open>n\<close> is the loop counter, \<open>acc\<close> what has been copied, the last argument the text from
  \<open>pszValue + n\<close>. A semicolon starts a comment unless it is doubled and not the first character.
\<close>

fun copy_value :: "nat \<Rightarrow> nat \<Rightarrow> string \<Rightarrow> string \<Rightarrow> string" where
  "copy_value iValueLen n acc [] = acc"
| "copy_value iValueLen n acc (c # cs) =
     (if \<not> length acc < iValueLen - 1 \<or> c = CR \<or> c = LF \<or> c = NUL then acc
      else if (c = CHR '' '' \<or> c = TAB) \<and> acc = [] then copy_value iValueLen (n + 1) acc cs
      else if c = CHR '';''
      then if n > 0 \<and> take 1 cs = '';'' then copy_value iValueLen (n + 2) (acc @ [c]) (drop 1 cs) else acc
      else copy_value iValueLen (n + 1) (acc @ [c]) cs)"

text \<open>
  The result and what \<open>szValue\<close> then holds, a buffer of \<open>iValueLen\<close> bytes. A default that fills the
  buffer is copied without its terminator; the call of \<open>TrimString\<close> then leaves the buffer, while the
  error returns only hand it on.
\<close>

definition GetString :: "inifile \<Rightarrow> string \<Rightarrow> string \<Rightarrow> string \<Rightarrow> nat \<Rightarrow> (int \<times> string) option" where
  "GetString f szSection szItem szDefault iValueLen =
     (let fails = Some (E_INI_FILE, take iValueLen szDefault);
          trimmed = (if length szDefault < iValueLen then Some (INI_SUCCESS, TrimString szDefault) else None)
      in case m_szBuffer f of
        None \<Rightarrow> fails
      | Some buf \<Rightarrow>
          if \<not> IsValid f then fails
          else do {
            sec \<leftarrow> find_section buf szSection 0;
            case sec of
              NotFound \<Rightarrow> fails
            | RanOff \<Rightarrow> trimmed
            | Found p \<Rightarrow> do {
                pszNextSection \<leftarrow> next_section buf p;
                item \<leftarrow> find_item buf szItem pszNextSection p;
                case item of
                  NotFound \<Rightarrow> fails
                | RanOff \<Rightarrow> trimmed
                | Found q \<Rightarrow>
                    case strstr buf q ''='' of
                      None \<Rightarrow> fails
                    | Some v \<Rightarrow>
                        if v + 1 \<ge> length buf then fails
                        else if iValueLen = 0 then None
                        else Some (INI_SUCCESS, TrimString (copy_value iValueLen 0 [] (drop (v + 1) buf)))
              }
          })"

text \<open>\<open>old\<close> is the value of \<open>*piValue\<close> before the call.\<close>

definition GetInt :: "inifile \<Rightarrow> string \<Rightarrow> string \<Rightarrow> int \<Rightarrow> int \<Rightarrow> (int \<times> int) option" where
  "GetInt f szSection szItem iDefault old =
     (if \<not> IsValid f then Some (E_INI_FILE, old)
      else do {
        (r, szInt) \<leftarrow> GetString f szSection szItem [] 32;
        if r \<noteq> 0 then Some (E_INI_FILE, iDefault)
        else do {
          v \<leftarrow> (if take 2 szInt = ''0x'' \<or> take 2 szInt = ''0X'' then scan_hex (drop 2 szInt) old else atoi szInt);
          Some (INI_SUCCESS, v)
        }
      })"

definition GetULongLong :: "inifile \<Rightarrow> string \<Rightarrow> string \<Rightarrow> u64 \<Rightarrow> u64 \<Rightarrow> (int \<times> u64) option" where
  "GetULongLong f szSection szItem ullDefault old =
     (if \<not> IsValid f then Some (E_INI_FILE, old)
      else do {
        (r, szULongLong) \<leftarrow> GetString f szSection szItem [] 32;
        if r \<noteq> 0 then Some (E_INI_FILE, ullDefault) else Some (INI_SUCCESS, strtoull szULongLong)
      })"

declare find_section.simps [code] next_section.simps [code] find_item.simps [code]

section \<open>Searching\<close>

definition occurs_at :: "string \<Rightarrow> string \<Rightarrow> nat \<Rightarrow> bool" where
  "occurs_at buf pat i \<longleftrightarrow> take (length pat) (drop i buf) = pat"

lemma find_sub_cases:
  "case find_sub pat xs of
     None \<Rightarrow> (\<forall>i\<le>length xs. \<not> occurs_at xs pat i)
   | Some i \<Rightarrow> i \<le> length xs \<and> occurs_at xs pat i \<and> (\<forall>j<i. \<not> occurs_at xs pat j)"
proof (induction pat xs rule: find_sub.induct)
  case (1 pat)
  then show ?case by (auto simp: occurs_at_def)
next
  case (2 pat c cs)
  have shift: "occurs_at (c # cs) pat (Suc i) \<longleftrightarrow> occurs_at cs pat i" for i by (simp add: occurs_at_def)
  show ?case
  proof (cases "take (length pat) (c # cs) = pat")
    case True
    then show ?thesis by (simp add: occurs_at_def)
  next
    case False
    then have 0: "\<not> occurs_at (c # cs) pat 0" by (simp add: occurs_at_def)
    have all: "(\<forall>j<Suc i. \<not> occurs_at (c # cs) pat j) \<longleftrightarrow> (\<forall>j<i. \<not> occurs_at cs pat j)" for i
      using 0 shift by (auto simp: less_Suc_eq_0_disj)
    have len: "(\<forall>i\<le>length (c # cs). \<not> occurs_at (c # cs) pat i) \<longleftrightarrow> (\<forall>i\<le>length cs. \<not> occurs_at cs pat i)"
      using all [of "Suc (length cs)"] by (simp add: less_Suc_eq_le)
    show ?thesis
    proof (cases "find_sub pat cs")
      case None
      then have "find_sub pat (c # cs) = None" using False by simp
      then show ?thesis using 2 [OF False] None len by simp
    next
      case (Some i)
      then have "find_sub pat (c # cs) = Some (Suc i)" using False by simp
      then show ?thesis using 2 [OF False] Some all shift by simp
    qed
  qed
qed

lemma occurs_at_bound: "occurs_at buf pat i \<Longrightarrow> i + length pat \<le> length buf \<or> pat = []"
proof -
  assume "occurs_at buf pat i"
  then have "length (take (length pat) (drop i buf)) = length pat" by (simp add: occurs_at_def)
  then show ?thesis by (cases pat) auto
qed

lemma occurs_at_nth: "occurs_at buf pat i \<Longrightarrow> j < length pat \<Longrightarrow> buf ! (i + j) = pat ! j \<and> i + j < length buf"
proof -
  assume a: "occurs_at buf pat i" "j < length pat"
  then have "i + length pat \<le> length buf" using occurs_at_bound by fastforce
  moreover have "take (length pat) (drop i buf) ! j = pat ! j" using a by (simp add: occurs_at_def)
  ultimately show ?thesis using a(2) by simp
qed

lemma occurs_at_takeWhile:
  "occurs_at (takeWhile P buf) pat i \<Longrightarrow> occurs_at buf pat i"
proof -
  assume a: "occurs_at (takeWhile P buf) pat i"
  show ?thesis
  proof (cases "pat = []")
    case False
    then have "i + length pat \<le> length (takeWhile P buf)" using occurs_at_bound [OF a] by simp
    then have "take (length pat) (drop i (takeWhile P buf @ ys)) = pat" for ys
      using a by (simp add: occurs_at_def)
    from this [of "dropWhile P buf"] show ?thesis by (simp add: occurs_at_def)
  qed (simp add: occurs_at_def)
qed

lemma strstr_Some:
  assumes "strstr buf p pat = Some i" "p \<le> length buf"
  shows "p \<le> i" "i \<le> length buf" "occurs_at buf pat i" "pat \<noteq> [] \<Longrightarrow> i + length pat \<le> length buf"
proof -
  let ?t = "takeWhile (\<lambda>c. c \<noteq> NUL) (drop p buf)"
  obtain d where d: "find_sub pat ?t = Some d" "i = p + d" using assms(1) by (auto simp: strstr_def)
  then have o: "d \<le> length ?t" "occurs_at ?t pat d" using find_sub_cases [where pat = pat and xs = ?t] by auto
  show "p \<le> i" using d by simp
  show "i \<le> length buf" using d o(1) assms(2) length_takeWhile_le [of "\<lambda>c. c \<noteq> NUL" "drop p buf"] by simp
  show *: "occurs_at buf pat i"
    using occurs_at_takeWhile [OF o(2)] d(2) by (simp add: occurs_at_def add.commute)
  show "pat \<noteq> [] \<Longrightarrow> i + length pat \<le> length buf" using occurs_at_bound [OF *] by simp
qed

lemma strstr_text:
  assumes "NUL \<notin> set buf" "p \<le> length buf"
  shows "case strstr buf p pat of
     None \<Rightarrow> (\<forall>i\<ge>p. i \<le> length buf \<longrightarrow> \<not> occurs_at buf pat i)
   | Some i \<Rightarrow> p \<le> i \<and> occurs_at buf pat i \<and> (\<forall>j\<ge>p. j < i \<longrightarrow> \<not> occurs_at buf pat j)"
proof -
  have t: "takeWhile (\<lambda>c. c \<noteq> NUL) (drop p buf) = drop p buf"
    using assms(1) in_set_dropD by (fastforce simp: takeWhile_eq_all_conv)
  have o: "occurs_at (drop p buf) pat i \<longleftrightarrow> occurs_at buf pat (p + i)" for i
    by (simp add: occurs_at_def add.commute)
  have ge: "(\<forall>j\<ge>p. Q j) \<longleftrightarrow> (\<forall>j. Q (p + j))" for Q :: "nat \<Rightarrow> bool" by (metis le_Suc_ex le_add1)
  show ?thesis
    using find_sub_cases [where pat = pat and xs = "drop p buf"] assms(2) by (auto simp: strstr_def t o ge split: option.splits)
qed

section \<open>The loops end\<close>

lemma find_section_ends:
  assumes "s \<noteq> []" "p \<le> length buf"
  shows "\<exists>r. find_section buf s p = Some r \<and> (\<forall>q. r = Found q \<longrightarrow> 1 \<le> q \<and> q + length s \<le> length buf)"
  using assms(2)
proof (induction "length buf - p" arbitrary: p rule: less_induct)
  case less
  have "0 < length s" using assms(1) by simp
  have IH: "\<exists>r. find_section buf s (i + length s) = Some r \<and> (\<forall>q. r = Found q \<longrightarrow> 1 \<le> q \<and> q + length s \<le> length buf)"
    if "strstr buf p s = Some i" "p < length buf" for i
    using strstr_Some [OF that(1) less.prems] assms(1) \<open>0 < length s\<close> that(2) by (intro less.hyps) linarith+
  show ?case
    using IH strstr_Some [OF _ less.prems] assms(1)
    by (subst find_section.simps) (fastforce split: option.splits)
qed

lemma next_section_ends:
  assumes "p \<le> length buf"
  shows "\<exists>r. next_section buf p = Some r \<and> p \<le> r \<and> r \<le> length buf"
  using assms
proof (induction "length buf - p" arbitrary: p rule: less_induct)
  case less
  have IH: "\<exists>r. next_section buf (i + 1) = Some r \<and> i + 1 \<le> r \<and> r \<le> length buf" if "strstr buf p ''['' = Some i" for i
    using strstr_Some [OF that less.prems] by (intro less.hyps) auto
  show ?case
  proof (cases "strstr buf p ''[''")
    case None
    then show ?thesis using less.prems by (simp add: next_section.simps)
  next
    case (Some i)
    from IH [OF Some] obtain r where r: "next_section buf (i + 1) = Some r" "i + 1 \<le> r" "r \<le> length buf" by blast
    from Some r strstr_Some [OF Some less.prems] show ?thesis
      by (subst next_section.simps) auto
  qed
qed

lemma find_item_ends:
  assumes "k \<noteq> []" "p \<le> length buf"
  shows "\<exists>r. find_item buf k n p = Some r \<and> (\<forall>q. r = Found q \<longrightarrow> p \<le> q \<and> q < n \<and> q + length k \<le> length buf)"
  using assms(2)
proof (induction "length buf - p" arbitrary: p rule: less_induct)
  case less
  have "0 < length k" using assms(1) by simp
  have IH: "\<exists>r. find_item buf k n (i + length k) = Some r \<and> (\<forall>q. r = Found q \<longrightarrow> p \<le> q \<and> q < n \<and> q + length k \<le> length buf)"
    if "strstr buf p k = Some i" "p < length buf" for i
  proof -
    have "\<exists>r. find_item buf k n (i + length k) = Some r \<and>
        (\<forall>q. r = Found q \<longrightarrow> i + length k \<le> q \<and> q < n \<and> q + length k \<le> length buf)"
      using strstr_Some [OF that(1) less.prems] assms(1) \<open>0 < length k\<close> that(2) by (intro less.hyps) linarith+
    then show ?thesis using strstr_Some(1) [OF that(1) less.prems] by fastforce
  qed
  show ?case
    using IH strstr_Some [OF _ less.prems] assms(1)
    by (subst find_item.simps) (fastforce split: option.splits)
qed

lemma copy_value_length:
  "length acc \<le> len - 1 \<Longrightarrow> length (copy_value len n acc cs) \<le> len - 1"
  by (induction len n acc cs rule: copy_value.induct) auto

lemma TrimString_length: "length (TrimString s) \<le> length s"
  using length_dropWhile_le [of is_ws "rev (dropWhile is_ws (rev s))"] length_dropWhile_le [of is_ws "rev s"]
  by (simp add: TrimString_def)

lemmas search_ends = find_section_ends next_section_ends find_item_ends

lemma GetString_ends:
  assumes "s \<noteq> []" "k \<noteq> []" "length d < len"
  shows "\<exists>r v. GetString f s k d len = Some (r, v) \<and> (r = INI_SUCCESS \<or> r = E_INI_FILE) \<and> length v < len \<and>
           (r = E_INI_FILE \<longrightarrow> v = d)"
proof -
  have fit: "length (TrimString d) < len" using TrimString_length [of d] assms(3) by simp
  have cpy: "length (TrimString (copy_value len 0 [] t)) < len" for t
    using TrimString_length [of "copy_value len 0 [] t"] copy_value_length [of "[]" len 0 t] assms(3) by simp
  show ?thesis
  proof (cases "m_szBuffer f")
    case None
    then show ?thesis using assms by (simp add: GetString_def)
  next
    case (Some buf)
    obtain sec where sec: "find_section buf s 0 = Some sec" "\<forall>q. sec = Found q \<longrightarrow> 1 \<le> q \<and> q + length s \<le> length buf"
      using find_section_ends [OF assms(1), of 0 buf] by auto
    show ?thesis
    proof (cases sec)
      case (Found p)
      obtain nx where nx: "next_section buf p = Some nx" using next_section_ends [of p buf] sec(2) Found by auto
      obtain it where it: "find_item buf k nx p = Some it" using find_item_ends [OF assms(2), of p buf nx] sec(2) Found by auto
      show ?thesis
        using Some sec(1) Found nx it assms(3) fit cpy
        by (auto simp: GetString_def Let_def E_INI_FILE_def INI_SUCCESS_def split: search.splits option.splits)
    qed (use Some sec(1) assms(3) fit in \<open>auto simp: GetString_def Let_def E_INI_FILE_def INI_SUCCESS_def\<close>)
  qed
qed

section \<open>The lookup as a reference definition\<close>

text \<open>Positions of a text at which a line starts, is the header of a section, or has an item.\<close>

definition line_start :: "string \<Rightarrow> nat \<Rightarrow> bool" where
  "line_start t p \<longleftrightarrow> p = 0 \<or> t ! (p - 1) = LF"

definition header_at :: "string \<Rightarrow> string \<Rightarrow> nat \<Rightarrow> bool" where
  "header_at t s p \<longleftrightarrow> line_start t p \<and> occurs_at t (CHR ''['' # s @ '']'') p"

definition item_at :: "string \<Rightarrow> string \<Rightarrow> nat \<Rightarrow> bool" where
  "item_at t k p \<longleftrightarrow> line_start t p \<and> occurs_at t k p \<and> char_at t (p + length k) \<in> {CHR '' '', CHR ''='', TAB}"

definition first :: "(nat \<Rightarrow> bool) \<Rightarrow> nat \<Rightarrow> nat \<Rightarrow> nat option" where
  "first Q a n = List.find Q [a..<n]"

text \<open>
  The section is the first with its header, it ends at the next line that starts with a bracket, the
  item is the first in it, and its value is what follows the next equals sign.
\<close>

definition section_end :: "string \<Rightarrow> nat \<Rightarrow> nat" where
  "section_end t h = (case first (\<lambda>p. line_start t p \<and> occurs_at t ''['' p) (h + 1) (length t) of None \<Rightarrow> length t | Some n \<Rightarrow> n)"

definition ini_value :: "string \<Rightarrow> string \<Rightarrow> string \<Rightarrow> string option" where
  "ini_value t s k = do {
     h \<leftarrow> first (header_at t s) 0 (length t);
     i \<leftarrow> first (item_at t k) (h + 1) (section_end t h);
     v \<leftarrow> first (occurs_at t ''='') i (length t);
     if v + 1 < length t then Some (drop (v + 1) t) else None
   }"

lemma first_Some: "a \<le> i \<Longrightarrow> i < n \<Longrightarrow> Q i \<Longrightarrow> (\<And>j. a \<le> j \<Longrightarrow> j < i \<Longrightarrow> \<not> Q j) \<Longrightarrow> first Q a n = Some i"
  unfolding first_def by (subst find_Some_iff) (intro exI [of _ "i - a"], auto)

lemma first_None: "(\<And>j. a \<le> j \<Longrightarrow> j < n \<Longrightarrow> \<not> Q j) \<Longrightarrow> first Q a n = None"
  unfolding first_def by (auto simp: find_None_iff)

lemma first_skip:
  assumes "a \<le> b" "\<And>j. a \<le> j \<Longrightarrow> j < b \<Longrightarrow> \<not> Q j"
  shows "first Q a n = first Q b n"
proof (cases "b \<le> n")
  case True
  have "List.find Q [a..<b] = None" using assms(2) by (auto simp: find_None_iff)
  moreover have "[a..<n] = [a..<b] @ [b..<n]" using assms(1) True by (metis le_Suc_ex upt_add_eq_append)
  moreover have "List.find Q (xs @ ys) = List.find Q ys" if "List.find Q xs = None" for xs ys
    using that by (induction xs) (auto split: if_splits)
  ultimately show ?thesis by (simp add: first_def)
next
  case False
  then show ?thesis using assms(2) by (simp add: first_None)
qed

lemma first_Some_iff: "first Q a n = Some i \<longleftrightarrow> a \<le> i \<and> i < n \<and> Q i \<and> (\<forall>j. a \<le> j \<and> j < i \<longrightarrow> \<not> Q j)"
proof
  assume "first Q a n = Some i"
  then obtain x where x: "x < length [a..<n]" "Q ([a..<n] ! x)" "i = [a..<n] ! x" "\<forall>y<x. \<not> Q ([a..<n] ! y)"
    unfolding first_def by (auto simp: find_Some_iff)
  then have i: "i = a + x" by simp
  have "\<not> Q j" if "a \<le> j" "j < i" for j
  proof -
    have "j - a < x" using that i by simp
    then have "\<not> Q ([a..<n] ! (j - a))" using x(4) by blast
    then show ?thesis using that x(1) i by simp
  qed
  then show "a \<le> i \<and> i < n \<and> Q i \<and> (\<forall>j. a \<le> j \<and> j < i \<longrightarrow> \<not> Q j)" using x i by auto
qed (auto intro: first_Some)

lemma occurs_at_single: "occurs_at t [c] p \<longleftrightarrow> p < length t \<and> t ! p = c"
  unfolding occurs_at_def by (cases "p < length t") (auto simp: take_Suc_conv_app_nth Cons_nth_drop_Suc [symmetric])

lemma occurs_at_append: "occurs_at t (xs @ ys) p \<longleftrightarrow> occurs_at t xs p \<and> occurs_at t ys (p + length xs)"
proof
  assume a: "occurs_at t (xs @ ys) p"
  then have *: "take (length xs + length ys) (drop p t) = xs @ ys" by (simp add: occurs_at_def)
  then have "take (length xs) (take (length xs + length ys) (drop p t)) = xs" by simp
  moreover have "drop (length xs) (take (length xs + length ys) (drop p t)) = ys" using * by simp
  ultimately show "occurs_at t xs p \<and> occurs_at t ys (p + length xs)"
    by (simp add: occurs_at_def drop_take add.commute)
next
  assume "occurs_at t xs p \<and> occurs_at t ys (p + length xs)"
  then show "occurs_at t (xs @ ys) p" by (simp add: occurs_at_def take_add add.commute)
qed

lemma header_at_name:
  "header_at t s p \<longleftrightarrow>
     line_start t p \<and> p < length t \<and> t ! p = CHR ''['' \<and> occurs_at t s (p + 1) \<and> char_at t (p + 1 + length s) = CHR '']''"
  using occurs_at_append [of t "[CHR ''['']" "s @ '']''" p] occurs_at_append [of t s "'']''" "p + 1"]
  by (auto simp: header_at_def occurs_at_single char_at_def NUL_def)

lemma char_at_occurs: "occurs_at t s i \<Longrightarrow> j < length s \<Longrightarrow> char_at t (i + j) = s ! j"
  using occurs_at_nth [of t s i j] by (simp add: char_at_def)

lemma not_at_end:
  assumes "occurs_at t s i" "s \<noteq> []" "LF \<notin> set s" "t \<noteq> []" "last t = LF"
  shows "i + length s < length t"
proof (rule ccontr)
  assume "\<not> ?thesis"
  moreover have "i + length s \<le> length t" using occurs_at_bound [OF assms(1)] assms(2) by simp
  ultimately have "i + (length s - 1) = length t - 1" using assms(2) by (cases s) auto
  moreover have "t ! (i + (length s - 1)) = s ! (length s - 1)" using occurs_at_nth [OF assms(1)] assms(2) by simp
  ultimately have "last t = last s" using assms(2,4) by (simp add: last_conv_nth)
  then show False using assms(2,3,5) by (metis last_in_set)
qed

text \<open>
  Skipping a whole occurrence of the name misses no header, for the name holds no bracket, and no
  item, for it holds no line feed.
\<close>

lemma find_section_first:
  assumes "NUL \<notin> set t" "s \<noteq> []" "CHR ''['' \<notin> set s" "LF \<notin> set s" "t \<noteq> []" "last t = LF" "\<not> occurs_at t s 0"
    and "p < length t"
  shows "find_section t s p = Some (case first (header_at t s) (p - 1) (length t) of None \<Rightarrow> NotFound | Some h \<Rightarrow> Found (h + 1))"
  using assms(8)
proof (induction "length t - p" arbitrary: p rule: less_induct)
  case less
  note S = strstr_text [OF assms(1), of p s]
  show ?case
  proof (cases "strstr t p s")
    case None
    have "first (header_at t s) (p - 1) (length t) = None"
    proof (rule first_None)
      fix j assume "p - 1 \<le> j" "j < length t"
      then show "\<not> header_at t s j" using S None less.prems by (auto simp: header_at_name)
    qed
    then show ?thesis using None less.prems by (simp add: find_section.simps)
  next
    case (Some i)
    then have i: "p \<le> i" "occurs_at t s i" "\<And>j. p \<le> j \<Longrightarrow> j < i \<Longrightarrow> \<not> occurs_at t s j" using S less.prems by auto
    have i0: "0 < i" using i(2) assms(7) by (cases i) auto
    have ilen: "i + length s < length t" using not_at_end [OF i(2) assms(2,4,5,6)] .
    have before: "\<not> header_at t s j" if "p - 1 \<le> j" "j < i - 1" for j
      using that i(3) [of "j + 1"] by (auto simp: header_at_name)
    have hdr: "header_at t s (i - 1) \<longleftrightarrow> char_at t (i - 1) = CHR ''['' \<and> char_at t (i + length s) = CHR '']'' \<and>
        \<not> (i > 1 \<and> char_at t (i - 2) \<noteq> LF)"
      using i0 i(2) ilen by (auto simp: header_at_name line_start_def char_at_def numeral_2_eq_2)
    show ?thesis
    proof (cases "header_at t s (i - 1)")
      case True
      then have "first (header_at t s) (p - 1) (length t) = Some (i - 1)"
        using before i(1) ilen by (intro first_Some) auto
      then show ?thesis using True Some less.prems i0 hdr by (subst find_section.simps) auto
    next
      case False
      have inside: "\<not> header_at t s j" if "i \<le> j" "j < i + length s - 1" for j
      proof
        assume "header_at t s j"
        then have "t ! j = CHR ''[''" by (simp add: header_at_name)
        moreover have "t ! j = s ! (j - i)" using occurs_at_nth [OF i(2), of "j - i"] that by simp
        moreover have "s ! (j - i) \<in> set s" using that by (intro nth_mem) auto
        ultimately show False using assms(3) by simp
      qed
      have "\<not> header_at t s j" if "p - 1 \<le> j" "j < i + length s - 1" for j
        using that before [of j] inside [of j] False by (cases "j < i - 1"; cases "j = i - 1") auto
      then have "first (header_at t s) (p - 1) (length t) = first (header_at t s) (i + length s - 1) (length t)"
        using i(1) assms(2) by (intro first_skip) (cases s, auto)
      moreover have "find_section t s p = find_section t s (i + length s)"
        using False Some less.prems i0 hdr by (subst find_section.simps) auto
      ultimately show ?thesis using less.hyps [of "i + length s"] ilen i(1) assms(2) less.prems by (cases s) auto
    qed
  qed
qed

lemma next_section_first:
  assumes "NUL \<notin> set t" "1 \<le> p" "p \<le> length t"
  shows "next_section t p =
    Some (case first (\<lambda>p. line_start t p \<and> occurs_at t ''['' p) p (length t) of None \<Rightarrow> length t | Some n \<Rightarrow> n)"
  using assms(2,3)
proof (induction "length t - p" arbitrary: p rule: less_induct)
  case less
  let ?Q = "\<lambda>p. line_start t p \<and> occurs_at t ''['' p"
  note S = strstr_text [OF assms(1) less.prems(2), of "''[''"]
  show ?case
  proof (cases "strstr t p ''[''")
    case None
    then have "first ?Q p (length t) = None" using S by (intro first_None) auto
    then show ?thesis using None by (simp add: next_section.simps)
  next
    case (Some i)
    then have i: "p \<le> i" "occurs_at t ''['' i" "\<And>j. p \<le> j \<Longrightarrow> j < i \<Longrightarrow> \<not> occurs_at t ''['' j" using S by auto
    have it: "i < length t" using i(2) by (simp add: occurs_at_single)
    show ?thesis
    proof (cases "t ! (i - 1) = LF")
      case True
      then have "first ?Q p (length t) = Some i" using i it by (intro first_Some) (auto simp: line_start_def)
      then show ?thesis using True Some it by (subst next_section.simps) (auto simp: char_at_def)
    next
      case False
      then have "\<not> ?Q i" using i(1) less.prems(1) by (auto simp: line_start_def)
      then have "first ?Q p (length t) = first ?Q (i + 1) (length t)"
        using i by (intro first_skip) (auto simp: less_Suc_eq)
      moreover have "next_section t p = next_section t (i + 1)"
        using False Some it by (subst next_section.simps) (auto simp: char_at_def)
      ultimately show ?thesis using less.hyps [of "i + 1"] it i(1) less.prems by auto
    qed
  qed
qed

lemma find_item_first:
  assumes "NUL \<notin> set t" "k \<noteq> []" "LF \<notin> set k" "t \<noteq> []" "last t = LF" "n \<le> length t" "1 \<le> p" "p < length t"
  shows "find_item t k n p = Some (case first (item_at t k) p n of None \<Rightarrow> NotFound | Some i \<Rightarrow> Found i)"
  using assms(7,8)
proof (induction "length t - p" arbitrary: p rule: less_induct)
  case less
  have "p \<le> length t" using less.prems by simp
  note S = strstr_text [OF assms(1) this, of k]
  show ?case
  proof (cases "strstr t p k")
    case None
    then have "first (item_at t k) p n = None" using S assms(6) by (intro first_None) (auto simp: item_at_def)
    then show ?thesis using None less.prems by (simp add: find_item.simps)
  next
    case (Some i)
    then have i: "p \<le> i" "occurs_at t k i" "\<And>j. p \<le> j \<Longrightarrow> j < i \<Longrightarrow> \<not> occurs_at t k j" using S by auto
    have ilen: "i + length k < length t" using not_at_end [OF i(2) assms(2,3,4,5)] .
    have before: "\<not> item_at t k j" if "p \<le> j" "j < i" for j using that i(3) by (auto simp: item_at_def)
    have itm: "item_at t k i \<longleftrightarrow> char_at t (i - 1) = LF \<and> char_at t (i + length k) \<in> {CHR '' '', CHR ''='', TAB}"
      using i(1,2) less.prems(1) ilen by (auto simp: item_at_def line_start_def char_at_def)
    show ?thesis
    proof (cases "i \<ge> n")
      case True
      then have "first (item_at t k) p n = None" using before by (intro first_None) auto
      then show ?thesis using True Some less.prems by (subst find_item.simps) auto
    next
      case n: False
      show ?thesis
      proof (cases "item_at t k i")
        case True
        then have "first (item_at t k) p n = Some i" using before i(1) n by (intro first_Some) auto
        then show ?thesis using True Some less.prems n itm by (subst find_item.simps) auto
      next
        case False
        have inside: "\<not> item_at t k j" if "i < j" "j < i + length k" for j
        proof
          assume "item_at t k j"
          then have "t ! (j - 1) = LF" using that by (simp add: item_at_def line_start_def)
          moreover have "t ! (j - 1) = k ! (j - 1 - i)" using occurs_at_nth [OF i(2), of "j - 1 - i"] that by simp
          moreover have "k ! (j - 1 - i) \<in> set k" using that by (intro nth_mem) auto
          ultimately show False using assms(3) by simp
        qed
        have "\<not> item_at t k j" if "p \<le> j" "j < i + length k" for j
          using that before [of j] inside [of j] False by (cases "j < i"; cases "j = i") auto
        then have "first (item_at t k) p n = first (item_at t k) (i + length k) n"
          using i(1) by (intro first_skip) auto
        moreover have "find_item t k n p = find_item t k n (i + length k)"
          using False Some less.prems n itm by (subst find_item.simps) auto
        ultimately show ?thesis using less.hyps [of "i + length k"] ilen i(1) assms(2) less.prems by (cases k) auto
      qed
    qed
  qed
qed

lemma strstr_first:
  assumes "NUL \<notin> set t" "p \<le> length t"
  shows "strstr t p [c] = first (occurs_at t [c]) p (length t)"
  using strstr_text [OF assms, of "[c]"]
  by (cases "strstr t p [c]") (auto simp: occurs_at_single intro!: first_None [symmetric] first_Some [symmetric])

lemma section_end_bound: "h < length t \<Longrightarrow> h + 1 \<le> section_end t h \<and> section_end t h \<le> length t"
  unfolding section_end_def by (auto simp: first_Some_iff split: option.splits)

text \<open>A file that ends with a line feed, as read by the constructor.\<close>

definition ini_text :: "string \<Rightarrow> bool" where
  "ini_text t \<longleftrightarrow> t \<noteq> [] \<and> last t = LF \<and> NUL \<notin> set t \<and> int (length t) < 2 ^ 31 - 1"

lemma CIniFile_text:
  assumes "ini_text t"
  shows "CIniFile (Some (int (length t))) True (Some t) = Some \<lparr>m_szBuffer = Some t, m_iSize = int (length t)\<rparr>"
proof -
  have "sint (word_of_int (int (length t)) :: u32) = int (length t)"
    using assms by (simp add: ini_text_def signed_of_int signed_take_bit_int_eq_self del: of_int_of_nat_eq)
  then show ?thesis using assms by (auto simp: CIniFile_def ini_text_def)
qed

lemma GetString_first:
  assumes "ini_text t" "s \<noteq> []" "CHR ''['' \<notin> set s" "LF \<notin> set s" "\<not> occurs_at t s 0" "k \<noteq> []" "LF \<notin> set k" "length d < len"
    and f: "CIniFile (Some (int (length t))) True (Some t) = Some f"
  shows "GetString f s k d len = Some (case ini_value t s k of
      None \<Rightarrow> (E_INI_FILE, d) | Some v \<Rightarrow> (INI_SUCCESS, TrimString (copy_value len 0 [] v)))"
proof -
  have t: "NUL \<notin> set t" "t \<noteq> []" "last t = LF" using assms(1) by (auto simp: ini_text_def)
  have f': "m_szBuffer f = Some t" "IsValid f" using f t(2) by (auto simp: CIniFile_text [OF assms(1)] IsValid_def)
  have sec: "find_section t s 0 = Some (case first (header_at t s) 0 (length t) of None \<Rightarrow> NotFound | Some h \<Rightarrow> Found (h + 1))"
    using find_section_first [OF t(1) assms(2-4) t(2,3) assms(5), of 0] t(2) by simp
  show ?thesis
  proof (cases "first (header_at t s) 0 (length t)")
    case None
    then show ?thesis using f' sec assms(8) by (simp add: GetString_def ini_value_def Let_def)
  next
    case (Some h)
    then have "occurs_at t s (h + 1)" by (auto simp: first_Some_iff header_at_name)
    then have h: "h + 1 < length t" using occurs_at_nth [of t s "h + 1" 0] assms(2) by simp
    have nx: "next_section t (h + 1) = Some (section_end t h)"
      using next_section_first [OF t(1), of "h + 1"] h by (simp add: section_end_def)
    have it: "find_item t k (section_end t h) (h + 1) =
        Some (case first (item_at t k) (h + 1) (section_end t h) of None \<Rightarrow> NotFound | Some i \<Rightarrow> Found i)"
      using find_item_first [OF t(1) assms(6,7) t(2,3), of "section_end t h" "h + 1"] section_end_bound [of h t] h by simp
    show ?thesis
    proof (cases "first (item_at t k) (h + 1) (section_end t h)")
      case None
      then show ?thesis using f' sec nx it Some assms(8) by (simp add: GetString_def ini_value_def Let_def)
    next
      case (Some i)
      then have "i \<le> length t" using section_end_bound [of h t] h by (auto simp: first_Some_iff)
      note eq = strstr_first [OF t(1) this, of "CHR ''=''"]
      show ?thesis
        using f' sec nx it Some \<open>first (header_at t s) 0 (length t) = Some h\<close> assms(8)
        by (auto simp: GetString_def ini_value_def Let_def eq not_less split: option.splits)
    qed
  qed
qed

section \<open>What a lookup gives\<close>

text \<open>
  C37: for non-empty names and a default that fits the buffer, the three search loops of \<open>GetString\<close>
  end whatever the file holds, the result is \<open>SUCCESS\<close> or \<open>E_INI_FILE\<close>, the value fits the caller's
  buffer with its terminator, and an error leaves the default there.
\<close>
theorem GetString_returns:
  assumes "s \<noteq> []" "k \<noteq> []" "length d < len"
  shows "\<exists>r v. GetString f s k d len = Some (r, v) \<and> (r = INI_SUCCESS \<or> r = E_INI_FILE) \<and> length v < len \<and>
           (r = E_INI_FILE \<longrightarrow> v = d)"
  by (rule GetString_ends [OF assms])

theorem GetString_returns_witness:
  "\<exists>r v. GetString \<lparr>m_szBuffer = Some ''[A] k=[A]k'', m_iSize = 10\<rparr> ''A'' ''k'' ''no'' 3 = Some (r, v) \<and>
     (r = INI_SUCCESS \<or> r = E_INI_FILE) \<and> length v < 3 \<and> (r = E_INI_FILE \<longrightarrow> v = ''no'')"
  by (rule GetString_returns) simp_all

text \<open>
  C38: for a file that ends with a line feed, \<open>GetString\<close> with its three loops over \<open>strstr\<close> computes
  the reference lookup: the first section with the header, the first line of the section that starts with
  the item, what follows the next equals sign. The name of the section holds no bracket or line feed,
  the item no line feed, and the file does not start with the bare name of the section.
\<close>
theorem GetString_lookup:
  assumes "ini_text t" "s \<noteq> []" "CHR ''['' \<notin> set s" "LF \<notin> set s" "\<not> occurs_at t s 0" "k \<noteq> []" "LF \<notin> set k" "length d < len"
    and "CIniFile (Some (int (length t))) True (Some t) = Some f"
  shows "GetString f s k d len = Some (case ini_value t s k of
      None \<Rightarrow> (E_INI_FILE, d) | Some v \<Rightarrow> (INI_SUCCESS, TrimString (copy_value len 0 [] v)))"
  by (rule GetString_first [OF assms])

definition ini_example :: string where
  "ini_example = ''; [A]'' @ [LF] @ ''[AB]'' @ [LF] @ ''k=1'' @ [LF] @ ''[A]'' @ [LF] @ ''ks=2'' @ [LF] @ ''k = 3 ;x'' @ [LF]"

theorem GetString_lookup_witness:
  "GetString \<lparr>m_szBuffer = Some ini_example, m_iSize = int (length ini_example)\<rparr> ''A'' ''k'' [] 32 = Some (INI_SUCCESS, ''3'')"
proof -
  have t: "ini_text ini_example" by (simp add: ini_text_def ini_example_def char_defs)
  have v: "ini_value ini_example ''A'' ''k'' = Some ('' 3 ;x'' @ [LF])" by code_simp
  have c: "TrimString (copy_value 32 0 [] ('' 3 ;x'' @ [LF])) = ''3''" by code_simp
  have p: "\<not> occurs_at ini_example ''A'' 0" by code_simp
  have "GetString \<lparr>m_szBuffer = Some ini_example, m_iSize = int (length ini_example)\<rparr> ''A'' ''k'' [] 32
      = Some (INI_SUCCESS, TrimString (copy_value 32 0 [] ('' 3 ;x'' @ [LF])))"
    using GetString_lookup [of ini_example "''A''" "''k''" "[]" 32, OF t _ _ _ p _ _ _ CIniFile_text [OF t]]
    by (simp add: v LF_def del: copy_value.simps)
  then show ?thesis unfolding c .
qed

text \<open>
  Two departures from the description of the function. At the end of a file without a final line feed
  it reports success with the default for an item that is not there. And the equals sign is not
  looked for on the line of the item only.
\<close>

lemma GetString_end_of_file:
  "GetString \<lparr>m_szBuffer = Some (''[A]'' @ [LF] @ ''# key''), m_iSize = 9\<rparr> ''A'' ''key'' ''7'' 32 = Some (INI_SUCCESS, ''7'')"
  by code_simp

lemma GetString_crosses_lines:
  "GetString \<lparr>m_szBuffer = Some (''[A]'' @ [LF] @ ''key '' @ [LF] @ ''other=5'' @ [LF]), m_iSize = 17\<rparr> ''A'' ''key'' [] 32
     = Some (INI_SUCCESS, ''5'')"
  by code_simp

end
