(* ===== verification/Setup.thy ===== *)
theory Setup
  imports IniFile ShmQueue
begin

text \<open>
  What the \<open>Init\<close> functions of the servers share: the files and shared memory they find, the lists of
  numbers in configuration values, and the names of sections.
\<close>

section \<open>Surroundings\<close>

text \<open>
  What an \<open>Init\<close> finds: for a path what \<open>stat\<close>, \<open>malloc\<close> and \<open>fopen\<close> give the reader, the function
  \<open>inet_addr\<close>, and for the key and size of a queue the results of \<open>Create\<close> and \<open>Attach\<close>, the segment and
  the result of the creation of the semaphore. Distinct servers have distinct keys: a queue belongs to
  one entry of the table.
\<close>

record surroundings =
  env_file :: "string \<Rightarrow> int option \<times> bool \<times> string option"
  env_inet_addr :: "string \<Rightarrow> u32"
  env_shm :: "int \<Rightarrow> int \<Rightarrow> shm_create \<times> bool \<times> byte list \<times> bool"

definition open_ini :: "'a surroundings_scheme \<Rightarrow> string \<Rightarrow> inifile option" where
  "open_ini E path = (case env_file E path of (st_size, alloc, file) \<Rightarrow> CIniFile st_size alloc file)"

text \<open>\<open>abs\<close> of the least \<open>int\<close> is undefined.\<close>

definition open_queue :: "'a surroundings_scheme \<Rightarrow> int \<Rightarrow> int \<Rightarrow> (int \<times> shmqueue option) option" where
  "open_queue E aiShmKey aiSize =
     (if aiSize = - (2 ^ 31) then None
      else case env_shm E aiShmKey (abs aiSize) of (create, attach, mem, semcreat) \<Rightarrow>
        Some (Queue_Init create attach mem semcreat))"

text \<open>The tokens \<open>strtok(s, ",")\<close> gives, and the number of one after its leading spaces.\<close>

fun split_on :: "char \<Rightarrow> string \<Rightarrow> string list" where
  "split_on c [] = [[]]"
| "split_on c (x # xs) = (case split_on c xs of [] \<Rightarrow> [] | w # ws \<Rightarrow> if x = c then [] # w # ws else (x # w) # ws)"

definition strtok_all :: "char \<Rightarrow> string \<Rightarrow> string list" where
  "strtok_all c s = filter (\<lambda>w. w \<noteq> []) (split_on c s)"

definition token_id :: "string \<Rightarrow> u32 option" where
  "token_id tok = map_option word_of_int (atoi (dropWhile (\<lambda>c. c = CHR '' '') tok))"

fun token_ids :: "string list \<Rightarrow> u32 list option" where
  "token_ids [] = Some []"
| "token_ids (tok # toks) = do { n \<leftarrow> token_id tok; ns \<leftarrow> token_ids toks; Some (n # ns) }"

text \<open>\<open>CStrTool::Format("..._%d", n)\<close>: the conversion reads an \<open>int\<close>.\<close>

fun dec_nat :: "nat \<Rightarrow> string" where
  "dec_nat n = (if n < 10 then [char_of (48 + n)] else dec_nat (n div 10) @ [char_of (48 + n mod 10)])"

declare dec_nat.simps [simp del]

definition Format_d :: "string \<Rightarrow> u32 \<Rightarrow> string" where
  "Format_d pre n = pre @ (if sint n < 0 then CHR ''-'' # dec_nat (nat (- sint n)) else dec_nat (nat (sint n)))"

text \<open>
  What an \<open>Init\<close> relies on of the shared memory: a queue that can be opened holds whole messages, because
  its segment is new or was left by a queue of the same size.
\<close>

definition segments_ok :: "'a surroundings_scheme \<Rightarrow> bool" where
  "segments_ok E \<longleftrightarrow> (\<forall>key sz q. open_queue E key sz = Some (0, Some q) \<longrightarrow> (\<exists>ms. sq_rel q ms))"

lemma open_queue_0: "open_queue E key sz = Some (0, q) \<Longrightarrow> \<exists>q'. q = Some q'"
  by (auto simp: open_queue_def Queue_Init_def shm_codes Let_def split: if_splits shm_create.splits prod.splits)

lemma new_segments_ok:
  assumes "\<And>key sz. env_shm E key sz = (ShmSuccess, True, mem, True)" "8 < length mem" "length mem \<le> 2 ^ 31 + 8"
  shows "segments_ok E"
proof -
  let ?q = "\<lparr>uiHead = 0, uiTail = 0, qdata = drop 8 mem, m_QueueDataSize = of_nat (length mem - 8), m_pMsgPeekBuf = None\<rparr>"
  have "sq_rel ?q []" using sq_rel_Init [OF assms(2,3)] assms(2) by (simp add: sq_rel_def sq_at_def ring_used_def ring_read_def)
  then show ?thesis
    by (auto simp: segments_ok_def open_queue_def assms(1) Queue_Init_def shm_codes Let_def split: if_splits)
qed

section \<open>Numbers in texts\<close>

lemma dec_nat_length: "n < 10 ^ Suc k \<Longrightarrow> length (dec_nat n) \<le> Suc k"
proof (induction k arbitrary: n)
  case 0
  then show ?case by (simp add: dec_nat.simps)
next
  case (Suc k)
  then have "n div 10 < 10 ^ Suc k" by (simp add: div_less_iff_less_mult mult.commute)
  with Suc.IH [of "n div 10"] show ?case by (simp add: dec_nat.simps [of n])
qed

lemma dec_u64_length: "length (dec_nat (unat (u :: u64))) \<le> 20"
proof -
  have "unat u < 2 ^ 64" using unsigned_less [of u] by simp
  then have "unat u < 10 ^ Suc 19" by simp
  from dec_nat_length [OF this] show ?thesis by simp
qed

lemma dec_digit: "t < 2 \<Longrightarrow> dec_nat t = [char_of (48 + t)]"
  by (simp add: dec_nat.simps)

lemma digit_char: "d < 10 \<Longrightarrow> digit_val (char_of (48 + d)) = int d"
  by (simp add: digit_val_def Let_def)

lemma digits_dec: "(r = [] \<or> digit_val (hd r) \<ge> 10) \<Longrightarrow> digits 10 (dec_nat n @ r) = dec_nat n"
proof -
  assume "r = [] \<or> digit_val (hd r) \<ge> 10"
  then have "takeWhile (\<lambda>c. digit_val c < 10) r = []" by (cases r) auto
  moreover have "\<forall>c\<in>set (dec_nat n). digit_val c < 10"
    by (induction n rule: dec_nat.induct) (subst dec_nat.simps, auto simp: digit_char)
  ultimately show ?thesis unfolding digits_def by (subst takeWhile_append2) auto
qed

lemma dec_value: "foldl (\<lambda>n c. n * 10 + digit_val c) 0 (dec_nat n) = int n"
proof (induction n rule: dec_nat.induct)
  case (1 n)
  have n: "int (n div 10) * 10 + int (n mod 10) = int n" by (simp add: zdiv_int zmod_int)
  show ?case using 1 n by (cases "n < 10") (simp_all add: dec_nat.simps [of n] digit_char)
qed

end
