(* ===== verification/Bus.thy ===== *)
theory Bus
  imports Wire ShmQueue ConnBuf
begin

text \<open>
  The message bus \<open>CBus\<close> (\<^verbatim>\<open>bus/bus.cpp\<close>, \<^verbatim>\<open>bus/bus.h\<close>). A bus process owns one cluster: it
  takes the packets its servers put in the cluster queue, resolves group addresses, and puts each
  packet in the queue of a local server or on the TCP connection to the bus of the cluster that
  owns the server. State passing: every method takes the object and returns it. The generated
  protobuf code is the parameter \<open>P\<close>; a parser gets the size argument and the bytes.

  An operation has result \<open>None\<close> where the C++ code does not return or its behaviour is undefined:
  a search for a free position that never ends, a \<open>memcpy\<close> of negative length.
\<close>

section \<open>Constants and state\<close>

definition LISTEN_SOCK_CPOS_MIN :: u32 where "LISTEN_SOCK_CPOS_MIN = 100"
definition LISTEN_SOCK_CPOS_MAX :: u32 where "LISTEN_SOCK_CPOS_MAX = 149"
definition LISTEN_UDP_CPOS_MIN :: u32 where "LISTEN_UDP_CPOS_MIN = 150"
definition LISTEN_UDP_CPOS_MAX :: u32 where "LISTEN_UDP_CPOS_MAX = 199"
definition CLUSTER_SOCK_CPOS_MIN :: u32 where "CLUSTER_SOCK_CPOS_MIN = 200000"
definition CLUSTER_SOCK_CPOS_MAX :: u32 where "CLUSTER_SOCK_CPOS_MAX = 299999"
definition CLIENT_SOCK_CPOS_MIN :: u32 where "CLIENT_SOCK_CPOS_MIN = 300000"

lemmas cpos_defs = LISTEN_SOCK_CPOS_MIN_def LISTEN_SOCK_CPOS_MAX_def LISTEN_UDP_CPOS_MIN_def
  LISTEN_UDP_CPOS_MAX_def CLUSTER_SOCK_CPOS_MIN_def CLUSTER_SOCK_CPOS_MAX_def CLIENT_SOCK_CPOS_MIN_def

definition TO_SRV :: byte where "TO_SRV = 0"
definition TO_GRP_RND :: byte where "TO_GRP_RND = 1"
definition TO_GRP_RNDNOME :: byte where "TO_GRP_RNDNOME = 2"
definition TO_GRP_ALLNOME :: byte where "TO_GRP_ALLNOME = 3"
definition TO_GRP_ALL :: byte where "TO_GRP_ALL = 4"

lemmas sendtype_defs = TO_SRV_def TO_GRP_RND_def TO_GRP_RNDNOME_def TO_GRP_ALLNOME_def TO_GRP_ALL_def

definition Cmd_HelloMessage :: u32 where "Cmd_HelloMessage = 1"
definition Cmd_Heartbeat :: u32 where "Cmd_Heartbeat = 2"
definition Cmd_StateChange :: u32 where "Cmd_StateChange = 4"

definition EPOLLIN :: u32 where "EPOLLIN = 1"
definition EPOLLOUT :: u32 where "EPOLLOUT = 4"
definition EPOLLERR :: u32 where "EPOLLERR = 8"
definition EPOLLHUP :: u32 where "EPOLLHUP = 16"

record bus_pb =
  parse_StateChange :: "int \<Rightarrow> byte list \<Rightarrow> (int \<times> int) option"
  parse_Heartbeat :: "int \<Rightarrow> byte list \<Rightarrow> u32 option"
  parse_Hello :: "int \<Rightarrow> byte list \<Rightarrow> u32 option"
  ser_Heartbeat :: "u32 \<Rightarrow> byte list"
  ser_Hello :: "u32 \<Rightarrow> byte list"

record ClusterInfo =
  ClusterIP :: u32
  ClusterPort :: u16
  ci_ClusterID :: u32
  SocketID :: int
  ci_ConnPos :: u32

record ServerInfo =
  si_ClusterID :: u32
  GroupID :: u32
  Status :: int
  QueueKey :: int
  QueueSize :: int
  pQueue :: "shmqueue option"

record bus =
  m_EpollFD :: int
  m_ClusterID :: u32
  m_ConnPosCnt :: u32
  m_ClusterPosCnt :: u32
  m_UDPHelloTime :: int
  m_TCPHelloTime :: int
  m_PosConnMap :: "conninfo smap"
  m_mapClusterInfo :: "ClusterInfo smap"
  m_mapSvrInfo :: "ServerInfo smap"
  m_mapGrpInfo :: "u32 list smap"
  m_ClusterQueue :: shmqueue
  b_os :: os

definition ClusterInfo_new :: ClusterInfo where
  "ClusterInfo_new = \<lparr>ClusterIP = 0, ClusterPort = 0, ci_ClusterID = 0, SocketID = -1, ci_ConnPos = 0\<rparr>"

definition ServerInfo_new :: ServerInfo where
  "ServerInfo_new = \<lparr>si_ClusterID = 0, GroupID = 0, Status = 0, QueueKey = 0, QueueSize = 0, pQueue = None\<rparr>"

definition Bus_new :: "shmqueue \<Rightarrow> os \<Rightarrow> bus" where
  "Bus_new q w = \<lparr>m_EpollFD = -1, m_ClusterID = 0, m_ConnPosCnt = 0, m_ClusterPosCnt = 0,
     m_UDPHelloTime = 0, m_TCPHelloTime = 0, m_PosConnMap = [], m_mapClusterInfo = [],
     m_mapSvrInfo = [], m_mapGrpInfo = [], m_ClusterQueue = q, b_os = w\<rparr>"

text \<open>A system call of the bus whose only result is an \<open>int\<close>, and the locked \<open>InQueue\<close>.\<close>

definition bcall :: "event \<Rightarrow> bus \<Rightarrow> int \<times> bus" where
  "bcall ev s = (let (r, w) = sys_int ev (b_os s) in (r, s\<lparr>b_os := w\<rparr>))"

definition bcall0 :: "event \<Rightarrow> bus \<Rightarrow> bus" where
  "bcall0 ev s = snd (bcall ev s)"

definition bus_InQueue :: "shmqueue \<Rightarrow> byte list \<Rightarrow> int \<Rightarrow> bus \<Rightarrow> int \<times> shmqueue \<times> bus" where
  "bus_InQueue q pData len s =
     (let (lockret, s) = bcall EvOther s; (r, q) = InQueue q pData (word_of_int len) True lockret
      in (r, q, s))"

section \<open>Connections\<close>

definition DisconnetCluster :: "bus \<Rightarrow> u32 \<Rightarrow> int \<times> bus" where
  "DisconnetCluster s ClusterID =
     (if ClusterID = m_ClusterID s then (0, s)
      else case mfind (m_mapClusterInfo s) ClusterID of
        None \<Rightarrow> (0, s)
      | Some info \<Rightarrow>
          if SocketID info \<noteq> -1 \<or> ci_ConnPos info \<noteq> 0
          then let s = bcall0 (EvEpoll CtlDel (SocketID info) False 0) s;
                   s = bcall0 (EvClose (SocketID info)) s;
                   s = s\<lparr>m_PosConnMap := merase (ci_ConnPos info) (m_PosConnMap s)\<rparr>
               in (0, s\<lparr>m_mapClusterInfo :=
                          mupdate ClusterID (info\<lparr>SocketID := -1, ci_ConnPos := 0\<rparr>) (m_mapClusterInfo s)\<rparr>)
          else (0, s))"

text \<open>The loop of \<open>ReleaseConn\<close> over the clusters, in key order, up to the first match.\<close>

fun find_cluster_pos :: "ClusterInfo smap \<Rightarrow> u32 \<Rightarrow> ClusterInfo option" where
  "find_cluster_pos [] pos = None"
| "find_cluster_pos ((k, info) # m) pos = (if ci_ConnPos info = pos then Some info else find_cluster_pos m pos)"

text \<open>The iterator argument is the key and the connection it points to.\<close>

definition ReleaseConn :: "bus \<Rightarrow> u32 \<Rightarrow> conninfo \<Rightarrow> bus" where
  "ReleaseConn s CurConnPos c =
     (let s = bcall0 (EvEpoll CtlDel (m_SockID c) False 0) s;
          s = bcall0 (EvClose (m_SockID c)) s;
          s = s\<lparr>m_PosConnMap := merase CurConnPos (m_PosConnMap s)\<rparr>
      in if CurConnPos > CLUSTER_SOCK_CPOS_MIN \<and> CurConnPos < CLUSTER_SOCK_CPOS_MAX
         then case find_cluster_pos (m_mapClusterInfo s) CurConnPos of
                Some info \<Rightarrow> snd (DisconnetCluster s (ci_ClusterID info))
              | None \<Rightarrow> s
         else s)"

text \<open>
  The search for a position that is not in use: \<open>lo\<close> and \<open>hi\<close> bound the range, and the successor of
  a position outside it is \<open>lo + 1\<close>. \<open>None\<close>: the loop does not end.
\<close>

partial_function (option) free_pos :: "'c smap \<Rightarrow> u32 \<Rightarrow> u32 \<Rightarrow> u32 \<Rightarrow> u32 option" where
  "free_pos m lo hi CurConnPos =
     (if mfind m CurConnPos = None then Some CurConnPos
      else free_pos m lo hi
             (if CurConnPos + 1 < lo \<or> CurConnPos + 1 > hi then lo + 1 else CurConnPos + 1))"

definition add_conn :: "bus \<Rightarrow> u32 \<Rightarrow> int \<Rightarrow> sockaddr \<Rightarrow> sockaddr \<Rightarrow> int \<times> bus" where
  "add_conn s CurConnPos SockID RemoteAddr LocalAddr =
     (let (c, w) = ConnInfo_new CurConnPos SockID RemoteAddr LocalAddr (b_os s); s = s\<lparr>b_os := w\<rparr>
      in if mfind (m_PosConnMap s) CurConnPos \<noteq> None
         then let s = bcall0 (EvEpoll CtlDel SockID False 0) s; s = bcall0 (EvClose SockID) s in (-1, s)
         else (0, s\<lparr>m_PosConnMap := minsert CurConnPos c (m_PosConnMap s)\<rparr>))"

definition ListenTcp :: "bus \<Rightarrow> u32 \<Rightarrow> int \<Rightarrow> int \<times> bus" where
  "ListenTcp s LocalIP Port =
     (let (CurListenSockID, s) = bcall EvOther s
      in if CurListenSockID = -1 then (-1, s)
         else let (r, s) = bcall EvOther s in if r = -1 then (-1, s)
         else let addr = \<lparr>sin_addr = LocalIP, sin_port = htons (word_of_int Port)\<rparr>;
                  (r, s) = bcall EvOther s in if r = -1 then (-1, s)
         else let (r, s) = bcall EvOther s in if r = -1 then (-1, s)
         else let (r, s) = bcall (EvEpoll CtlAdd CurListenSockID False LISTEN_SOCK_CPOS_MIN) s
         in if r \<noteq> 0 then (-1, s)
         else add_conn s LISTEN_SOCK_CPOS_MIN CurListenSockID sockaddr0 addr)"

definition ListenUdp :: "bus \<Rightarrow> u32 \<Rightarrow> int \<Rightarrow> int \<times> bus" where
  "ListenUdp s LocalIP Port =
     (let (CurListenSockID, s) = bcall EvOther s
      in if CurListenSockID = -1 then (-1, s)
         else let addr = \<lparr>sin_addr = LocalIP, sin_port = htons (word_of_int Port)\<rparr>;
                  (r, s) = bcall EvOther s in if r = -1 then (-1, s)
         else let (r, s) = bcall EvOther s in if r = -1 then (-1, s)
         else let (r, s) = bcall (EvEpoll CtlAdd CurListenSockID False LISTEN_UDP_CPOS_MIN) s
         in if r \<noteq> 0 then (-1, s)
         else add_conn s LISTEN_UDP_CPOS_MIN CurListenSockID sockaddr0 addr)"

text \<open>\<open>fcntl(F_GETFL)\<close>, \<open>fcntl(F_SETFL)\<close> and \<open>epoll_ctl(ADD)\<close> on a new socket; it is closed on failure.\<close>

definition setup_sock :: "bus \<Rightarrow> int \<Rightarrow> u32 \<Rightarrow> bool \<times> bus" where
  "setup_sock s NewSockID CurConnPos =
     (let (r, s) = bcall EvOther s in if r = -1 then (False, bcall0 (EvClose NewSockID) s)
      else let (r, s) = bcall EvOther s in if r = -1 then (False, bcall0 (EvClose NewSockID) s)
      else let (r, s) = bcall (EvEpoll CtlAdd NewSockID False CurConnPos) s
      in if r \<noteq> 0 then (False, bcall0 (EvClose NewSockID) s) else (True, s))"

definition AcceptConn :: "bus \<Rightarrow> u32 \<Rightarrow> (int \<times> bus) option" where
  "AcceptConn s ConnPos =
     (case mfind (m_PosConnMap s) ConnPos of
        None \<Rightarrow> Some (-1, s)
      | Some l \<Rightarrow>
          let RemoteAddr = os_addr (b_os s) (os_tick (b_os s)); (NewSockID, s) = bcall EvOther s
          in if NewSockID > 0
             then let cnt = m_ConnPosCnt s + 1;
                      cnt = (if cnt < CLIENT_SOCK_CPOS_MIN then CLIENT_SOCK_CPOS_MIN + 1 else cnt);
                      s = s\<lparr>m_ConnPosCnt := cnt\<rparr>
                  in case free_pos (m_PosConnMap s) CLIENT_SOCK_CPOS_MIN (-1) cnt of
                       None \<Rightarrow> None
                     | Some CurConnPos \<Rightarrow>
                         let (ok, s) = setup_sock s NewSockID CurConnPos
                         in if \<not> ok then Some (-1, s)
                            else Some (add_conn s CurConnPos NewSockID RemoteAddr
                                   \<lparr>sin_addr = sin_addr (m_LocalAddr l), sin_port = htons (sin_port (m_LocalAddr l))\<rparr>)
             else Some (-1, s))"

text \<open>The part of \<open>ConnectCluster\<close> after the connection to the peer is up.\<close>

definition register_cluster ::
  "bus \<Rightarrow> u32 \<Rightarrow> int \<Rightarrow> sockaddr \<Rightarrow> sockaddr \<Rightarrow> (int \<times> bus) option" where
  "register_cluster s ClusterID sock addr local_addr =
     (let cnt = m_ClusterPosCnt s + 1;
          cnt = (if cnt < CLUSTER_SOCK_CPOS_MIN \<or> cnt > CLUSTER_SOCK_CPOS_MAX
                 then CLUSTER_SOCK_CPOS_MIN + 1 else cnt);
          s = s\<lparr>m_ClusterPosCnt := cnt\<rparr>
      in case free_pos (m_PosConnMap s) CLUSTER_SOCK_CPOS_MIN CLUSTER_SOCK_CPOS_MAX cnt of
           None \<Rightarrow> None
         | Some CurConnPos \<Rightarrow>
             let (r, s) = bcall (EvEpoll CtlAdd sock False CurConnPos) s
             in if r \<noteq> 0 then Some (-1, bcall0 (EvClose sock) s)
                else let (r, s) = add_conn s CurConnPos sock addr local_addr
                     in if r \<noteq> 0 then Some (-1, s)
                        else case mfind (m_mapClusterInfo s) ClusterID of
                          None \<Rightarrow> Some (0, s)
                        | Some info \<Rightarrow> Some (0, s\<lparr>m_mapClusterInfo :=
                            mupdate ClusterID (info\<lparr>SocketID := sock, ci_ConnPos := CurConnPos\<rparr>) (m_mapClusterInfo s)\<rparr>))"

definition ConnectCluster :: "bus \<Rightarrow> u32 \<Rightarrow> (int \<times> bus) option" where
  "ConnectCluster s ClusterID =
     (if ClusterID = m_ClusterID s then Some (0, s)
      else case mfind (m_mapClusterInfo s) ClusterID of
        None \<Rightarrow> Some (0, s)
      | Some info \<Rightarrow>
          let s = (if SocketID info \<noteq> -1 \<or> ci_ConnPos info \<noteq> 0
                   then let s = bcall0 (EvEpoll CtlDel (SocketID info) False 0) s;
                            s = bcall0 (EvClose (SocketID info)) s;
                            s = s\<lparr>m_PosConnMap := merase (ci_ConnPos info) (m_PosConnMap s)\<rparr>
                        in s\<lparr>m_mapClusterInfo :=
                               mupdate ClusterID (info\<lparr>SocketID := -1, ci_ConnPos := 0\<rparr>) (m_mapClusterInfo s)\<rparr>
                   else s);
              (sock, s) = bcall EvOther s
          in if sock = -1 then Some (-1, s)
             else let addr = \<lparr>sin_addr = ClusterIP info, sin_port = htons (ClusterPort info)\<rparr>;
                      (r, s) = bcall (EvConnect sock addr) s
                  in if r = -1 then Some (-1, bcall0 (EvClose sock) s)
                     else let local_addr = os_addr (b_os s) (os_tick (b_os s)); (r, s) = bcall EvOther s
                          in if r \<noteq> 0 then Some (-1, s)
                             else register_cluster s ClusterID sock addr local_addr)"

section \<open>Sending\<close>

definition Send2Cluster :: "bus \<Rightarrow> ClusterInfo \<Rightarrow> byte list \<Rightarrow> int \<times> bus" where
  "Send2Cluster s Info pSendBuff =
     (if SocketID Info = -1 \<or> ci_ConnPos Info = 0 then (0, s)
      else let CurConnPos = ci_ConnPos Info
           in case mfind (m_PosConnMap s) CurConnPos of
                None \<Rightarrow> (-1, s)
              | Some c \<Rightarrow>
                  let (r, blocked, c, w) = send_or_store c pSendBuff (b_os s);
                      s = s\<lparr>b_os := w, m_PosConnMap := mupdate CurConnPos c (m_PosConnMap s)\<rparr>
                  in if r \<noteq> 0 then (r, ReleaseConn s CurConnPos c)
                     else if blocked then (0, bcall0 (EvEpoll CtlMod (m_SockID c) True CurConnPos) s)
                     else (0, s))"

definition Send2ClusterByMsg :: "bus \<Rightarrow> ClusterInfo \<Rightarrow> u32 \<Rightarrow> byte list \<Rightarrow> int \<times> bus" where
  "Send2ClusterByMsg s Info CmdID body =
     (let HeaderLen = BusHeader_GetHeaderLen
      in if length body > XY_PKG_MAX_LEN - HeaderLen then (-1, s)
         else let PkgLen = HeaderLen + length body;
                  CurHeader = BusHeader_new\<lparr>bh_PkgLen := of_nat PkgLen, bh_CmdID := CmdID\<rparr>;
                  acSendBuff = fst (BusHeader_Write CurHeader (replicate HeaderLen 0 @ body) 0)
              in Send2Cluster s Info acSendBuff)"

text \<open>The timer messages, sent to every other cluster in key order.\<close>

fun heartbeat_loop :: "bus_pb \<Rightarrow> bus \<Rightarrow> u32 list \<Rightarrow> bus" where
  "heartbeat_loop P s [] = s"
| "heartbeat_loop P s (k # ks) =
     (case mfind (m_mapClusterInfo s) k of
        None \<Rightarrow> heartbeat_loop P s ks
      | Some info \<Rightarrow>
          if ci_ClusterID info = m_ClusterID s then heartbeat_loop P s ks
          else heartbeat_loop P (snd (Send2ClusterByMsg s info Cmd_Heartbeat (ser_Heartbeat P (m_ClusterID s)))) ks)"

definition SendHeartBeetMessage :: "bus_pb \<Rightarrow> bus \<Rightarrow> bus" where
  "SendHeartBeetMessage P s = heartbeat_loop P s (mkeys (m_mapClusterInfo s))"

fun hello_loop :: "bus_pb \<Rightarrow> bus \<Rightarrow> ClusterInfo list \<Rightarrow> bus" where
  "hello_loop P s [] = s"
| "hello_loop P s (info # infos) =
     (if ci_ClusterID info = m_ClusterID s then hello_loop P s infos
      else let HeaderLen = BusHeader_GetHeaderLen; body = ser_Hello P (m_ClusterID s)
           in if length body > 1024 - HeaderLen then s
              else let PkgLen = HeaderLen + length body;
                       CurHeader = BusHeader_new\<lparr>bh_PkgLen := of_nat PkgLen, bh_CmdID := Cmd_HelloMessage\<rparr>;
                       buf = fst (BusHeader_Write CurHeader (replicate HeaderLen 0 @ body) 0);
                       (CurSockID, s) = bcall EvOther s
                   in if CurSockID = -1 then s
                      else let addr = \<lparr>sin_addr = ClusterIP info, sin_port = htons (ClusterPort info)\<rparr>;
                               s = bcall0 (EvSendto addr buf) s
                           in hello_loop P (bcall0 (EvClose CurSockID) s) infos)"

definition SendHelloMessage :: "bus_pb \<Rightarrow> bus \<Rightarrow> bus" where
  "SendHelloMessage P s = hello_loop P s (map snd (m_mapClusterInfo s))"

section \<open>Forwarding\<close>

text \<open>\<open>CRandomTool::Get\<close>: \<open>rand()\<close> is in \<open>0 .. RAND_MAX = 2 ^ 31 - 1\<close>; the quotient is exact in a double.\<close>

definition Random_Get :: "int \<Rightarrow> int \<Rightarrow> int \<Rightarrow> int" where
  "Random_Get iMin iMax rnd = iMin + (iMax - iMin) * rnd div 2 ^ 31"

definition sys_rand :: "bus \<Rightarrow> int \<times> bus" where
  "sys_rand s = (let (r, s) = bcall EvOther s in (r mod 2 ^ 31, s))"

text \<open>The members of a group, without the source for the two \<open>NOME\<close> send types.\<close>

definition group_members :: "u32 list \<Rightarrow> u32 \<Rightarrow> bool \<Rightarrow> u32 list" where
  "group_members grp SrcID nome = filter (\<lambda>d. \<not> (d = SrcID \<and> nome)) grp"

text \<open>The destination list \<open>vctDstID\<close>; \<open>None\<close> is the error return.\<close>

definition resolve_dst :: "bus \<Rightarrow> BusHeader \<Rightarrow> u32 list option \<times> bus" where
  "resolve_dst s CurHeader =
     (let DstID = bh_DstID CurHeader; SrcID = bh_SrcID CurHeader; SendType = bh_SendType CurHeader
      in if SendType = TO_GRP_RND \<or> SendType = TO_GRP_RNDNOME
         then case mfind (m_mapGrpInfo s) DstID of
                None \<Rightarrow> (None, s)
              | Some grp \<Rightarrow>
                  let vctServerID = group_members grp SrcID (SendType = TO_GRP_RNDNOME);
                      Sz = int (length vctServerID)
                  in if Sz = 0 then (None, s)
                     else let (rnd, s) = sys_rand s in (Some [vctServerID ! nat (Random_Get 0 Sz rnd)], s)
         else if SendType = TO_GRP_ALLNOME \<or> SendType = TO_GRP_ALL
         then case mfind (m_mapGrpInfo s) DstID of
                None \<Rightarrow> (None, s)
              | Some grp \<Rightarrow> (Some (group_members grp SrcID (SendType = TO_GRP_ALLNOME)), s)
         else (Some [DstID], s))"

text \<open>One iteration of the sending loop, after the header has been rewritten in the buffer.\<close>

definition forward_one :: "bus \<Rightarrow> u32 \<Rightarrow> byte list \<Rightarrow> int \<Rightarrow> int \<times> bus" where
  "forward_one s DstID buf PkgLen =
     (case mfind (m_mapSvrInfo s) DstID of
        None \<Rightarrow> (-1, s)
      | Some Info \<Rightarrow>
          if si_ClusterID Info = m_ClusterID s
          then case pQueue Info of
                 Some q \<Rightarrow>
                   let (r, q, s) = bus_InQueue q buf PkgLen s;
                       s = s\<lparr>m_mapSvrInfo := mupdate DstID (Info\<lparr>pQueue := Some q\<rparr>) (m_mapSvrInfo s)\<rparr>
                   in if r = E_SHM_QUEUE_FULL then (-1, s) else if r \<noteq> 0 then (-1, s) else (0, s)
               | None \<Rightarrow> (0, s)
          else case mfind (m_mapClusterInfo s) (si_ClusterID Info) of
                 None \<Rightarrow> (0, s)
               | Some info \<Rightarrow>
                   let (r, s) = Send2Cluster s info (mem_read buf 0 (nat PkgLen)) in if r \<noteq> 0 then (-1, s) else (0, s))"

fun forward_loop :: "bus \<Rightarrow> BusHeader \<Rightarrow> byte list \<Rightarrow> int \<Rightarrow> u32 list \<Rightarrow> int \<times> bus" where
  "forward_loop s CurHeader buf PkgLen [] = (0, s)"
| "forward_loop s CurHeader buf PkgLen (DstID # vctDstID) =
     (let CurHeader = CurHeader\<lparr>bh_DstID := DstID, bh_SendType := TO_SRV\<rparr>;
          (CurHeader, s) =
            (if bh_PkgTime CurHeader = 0
             then let (t, s) = bcall EvOther s in (CurHeader\<lparr>bh_PkgTime := word_of_int t\<rparr>, s)
             else (CurHeader, s));
          buf = fst (BusHeader_Write CurHeader buf 0);
          (r, s) = forward_one s DstID buf PkgLen
      in if r \<noteq> 0 then (-1, s) else forward_loop s CurHeader buf PkgLen vctDstID)"

text \<open>The state-change packet is passed on to every other cluster.\<close>

fun notify_clusters :: "bus \<Rightarrow> byte list \<Rightarrow> u32 list \<Rightarrow> int \<times> bus" where
  "notify_clusters s buf [] = (0, s)"
| "notify_clusters s buf (k # ks) =
     (case mfind (m_mapClusterInfo s) k of
        None \<Rightarrow> notify_clusters s buf ks
      | Some info \<Rightarrow>
          if ci_ClusterID info = m_ClusterID s then notify_clusters s buf ks
          else let (r, s) = Send2Cluster s info buf in if r \<noteq> 0 then (-1, s) else notify_clusters s buf ks)"

definition forward_state :: "bus_pb \<Rightarrow> bus \<Rightarrow> BusHeader \<Rightarrow> byte list \<Rightarrow> int \<Rightarrow> int \<times> bus" where
  "forward_state P s CurHeader buf PkgLen =
     (let HeaderLen = BusHeader_GetHeaderLen; n = PkgLen - int HeaderLen
      in if bh_SendType CurHeader \<noteq> TO_SRV then (-1, s)
         else case parse_StateChange P n (mem_read buf HeaderLen (nat n)) of
           None \<Rightarrow> (-1, s)
         | Some (ServerID, st) \<Rightarrow>
             case mfind (m_mapSvrInfo s) (word_of_int ServerID) of
               None \<Rightarrow> (-1, s)
             | Some Info \<Rightarrow>
                 let s = s\<lparr>m_mapSvrInfo := mupdate (word_of_int ServerID) (Info\<lparr>Status := st\<rparr>) (m_mapSvrInfo s)\<rparr>
                 in notify_clusters s (mem_read buf 0 (nat PkgLen)) (mkeys (m_mapClusterInfo s)))"

definition ForwardMsg :: "bus_pb \<Rightarrow> bus \<Rightarrow> byte list \<Rightarrow> int \<times> bus" where
  "ForwardMsg P s buf =
     (let RecvLen = int (length buf); HeaderLen = BusHeader_GetHeaderLen
      in if RecvLen < int HeaderLen then (-1, s)
         else let CurHeader = fst (BusHeader_Read buf 0); PkgLen = sint (bh_PkgLen CurHeader)
              in if RecvLen \<noteq> PkgLen then (-1, s)
                 else if PkgLen > int XY_PKG_MAX_LEN then (-1, s)
                 else if bh_CmdID CurHeader = Cmd_StateChange then forward_state P s CurHeader buf PkgLen
                 else let (dsts, s) = resolve_dst s CurHeader
                      in case dsts of
                           None \<Rightarrow> (-1, s)
                         | Some vctDstID \<Rightarrow> forward_loop s CurHeader buf PkgLen vctDstID)"

section \<open>Receiving\<close>

text \<open>The packets of the bus itself and delivery to a local server.\<close>

definition process_state :: "bus_pb \<Rightarrow> bus \<Rightarrow> byte list \<Rightarrow> int \<Rightarrow> bus" where
  "process_state P s buf PkgLen =
     (let HeaderLen = BusHeader_GetHeaderLen; n = PkgLen - int HeaderLen
      in case parse_StateChange P n (mem_read buf HeaderLen (nat n)) of
           None \<Rightarrow> s
         | Some (ServerID, st) \<Rightarrow>
             case mfind (m_mapSvrInfo s) (word_of_int ServerID) of
               None \<Rightarrow> s
             | Some Info \<Rightarrow>
                 s\<lparr>m_mapSvrInfo := mupdate (word_of_int ServerID) (Info\<lparr>Status := st\<rparr>) (m_mapSvrInfo s)\<rparr>)"

definition deliver_local :: "bus \<Rightarrow> u32 \<Rightarrow> byte list \<Rightarrow> int \<Rightarrow> bus" where
  "deliver_local s DstID buf PkgLen =
     (case mfind (m_mapSvrInfo s) DstID of
        None \<Rightarrow> s
      | Some Info \<Rightarrow>
          if si_ClusterID Info = m_ClusterID s
          then case pQueue Info of
                 Some q \<Rightarrow>
                   let (r, q, s) = bus_InQueue q buf PkgLen s
                   in s\<lparr>m_mapSvrInfo := mupdate DstID (Info\<lparr>pQueue := Some q\<rparr>) (m_mapSvrInfo s)\<rparr>
               | None \<Rightarrow> s
          else s)"

text \<open>
  \<open>ProcessPkg\<close> returns how long the packet at the start of the buffer is. The process buffer that
  the packet is copied to is the packet's bytes. The length is checked against an upper bound only: a
  negative one is a huge size for \<open>memcpy\<close>, and one that is below the length of the header gives
  \<open>ParseFromArray\<close> a negative size, for which nothing is promised (\<open>None\<close>).
\<close>

definition Bus_ProcessPkg :: "bus_pb \<Rightarrow> bus \<Rightarrow> byte list \<Rightarrow> (int \<times> bus) option" where
  "Bus_ProcessPkg P s buf =
     (let RecvLen = int (length buf); HeaderLen = BusHeader_GetHeaderLen
      in if RecvLen < int HeaderLen then Some (int HeaderLen, s)
         else let CurHeader = fst (BusHeader_Read buf 0); PkgLen = sint (bh_PkgLen CurHeader)
              in if PkgLen > RecvLen then Some (PkgLen, s)
                 else if PkgLen > int XY_PKG_MAX_LEN then Some (PkgLen, s)
                 else if PkgLen < 0 then None
                 else let pkg = mem_read buf 0 (nat PkgLen)
                      in if bh_SendType CurHeader \<noteq> TO_SRV then Some (PkgLen, s)
                         else if bh_CmdID CurHeader \<in> {Cmd_Heartbeat, Cmd_StateChange} \<and> PkgLen < int HeaderLen then None
                         else if bh_CmdID CurHeader = Cmd_Heartbeat then Some (PkgLen, s)
                         else if bh_CmdID CurHeader = Cmd_StateChange
                         then Some (PkgLen, process_state P s pkg PkgLen)
                         else Some (PkgLen, deliver_local s (bh_DstID CurHeader) pkg PkgLen))"

text \<open>The loop of \<open>Run\<close> over the bytes received on one connection.\<close>

function (sequential) recv_loop :: "bus_pb \<Rightarrow> bus \<Rightarrow> u32 \<Rightarrow> byte list \<Rightarrow> bus option" where
  "recv_loop P s CurConnPos buf =
     (if buf = [] then Some s
      else case Bus_ProcessPkg P s buf of
        None \<Rightarrow> None
      | Some (ProcLen, s1) \<Rightarrow>
          case mfind (m_PosConnMap s1) CurConnPos of
            None \<Rightarrow> None
          | Some c \<Rightarrow>
              if ProcLen > int (length buf) \<or> ProcLen = 0
              then let (Ret2, c') = AddRecvData c buf;
                       s2 = s1\<lparr>m_PosConnMap := mupdate CurConnPos c' (m_PosConnMap s1)\<rparr>
                   in Some (if Ret2 \<noteq> 0 then ReleaseConn s2 CurConnPos c' else s2)
              else if ProcLen < 0 then Some (ReleaseConn s1 CurConnPos c)
              else recv_loop P s1 CurConnPos (drop (nat ProcLen) buf))"
  by pat_completeness auto
termination
  by (relation "measure (\<lambda>(P, s, pos, buf). length buf)") auto

text \<open>
  The datagram is read into an uninitialised buffer: the bytes behind it are arbitrary, and so taken
  from the script. One that is shorter than a header gives \<open>ParseFromArray\<close> a negative size when these
  bytes happen to be a hello (\<open>None\<close>).
\<close>

definition RecvHelloMessage :: "bus_pb \<Rightarrow> bus \<Rightarrow> u32 \<Rightarrow> bus option" where
  "RecvHelloMessage P s ConnPos =
     (case mfind (m_PosConnMap s) ConnPos of
        None \<Rightarrow> Some s
      | Some c \<Rightarrow>
          let (RecvSize, buf, w) = sys_read (m_SockID c) 1024 (b_os s); s = s\<lparr>b_os := w\<rparr>
          in if RecvSize \<le> 0 then Some s
             else let (CurHeader, Offset) = BusHeader_Read (buf @ os_data w (os_tick w) @ replicate 1024 0) 0
                  in if bh_CmdID CurHeader \<noteq> Cmd_HelloMessage then Some s
                     else if RecvSize < int Offset then None
                     else case parse_Hello P (RecvSize - int Offset)
                                 (mem_read buf Offset (nat (RecvSize - int Offset))) of
                            None \<Rightarrow> Some s
                          | Some ClusterID \<Rightarrow>
                              case mfind (m_mapClusterInfo s) ClusterID of
                                None \<Rightarrow> Some s
                              | Some info \<Rightarrow>
                                  if ClusterID \<noteq> m_ClusterID s \<and> (SocketID info = -1 \<or> ci_ConnPos info = 0)
                                  then map_option snd (ConnectCluster s ClusterID) else Some s)"

section \<open>The event loop\<close>

definition handle_in :: "bus_pb \<Rightarrow> bus \<Rightarrow> u32 \<Rightarrow> conninfo \<Rightarrow> bus option" where
  "handle_in P s CurConnPos c =
     (let (Ret, bytes, c, w) = Recv c (of_nat XY_MAXBUFF_LEN) (b_os s);
          s = s\<lparr>b_os := w, m_PosConnMap := mupdate CurConnPos c (m_PosConnMap s)\<rparr>
      in if Ret = 1 then Some (ReleaseConn s CurConnPos c)
         else if Ret < 0 then Some (ReleaseConn s CurConnPos c)
         else if length bytes > XY_MAXBUFF_LEN then Some (ReleaseConn s CurConnPos c)
         else recv_loop P s CurConnPos bytes)"

definition handle_out :: "bus \<Rightarrow> u32 \<Rightarrow> conninfo \<Rightarrow> bus" where
  "handle_out s CurConnPos c =
     (let (Ret, c, w) = SendRemainData c (b_os s);
          s = s\<lparr>b_os := w, m_PosConnMap := mupdate CurConnPos c (m_PosConnMap s)\<rparr>
      in if Ret = 1 then s
         else if Ret \<noteq> 0 then ReleaseConn s CurConnPos c
         else bcall0 (EvEpoll CtlMod (m_SockID c) False CurConnPos) s)"

definition handle_event :: "bus_pb \<Rightarrow> bus \<Rightarrow> u32 \<times> u32 \<Rightarrow> bus option" where
  "handle_event P s ev =
     (let (CurConnPos, events) = ev
      in if CurConnPos \<ge> LISTEN_SOCK_CPOS_MIN \<and> CurConnPos \<le> LISTEN_SOCK_CPOS_MAX
         then if events AND EPOLLIN \<noteq> 0 then map_option snd (AcceptConn s CurConnPos) else Some s
         else if CurConnPos \<ge> LISTEN_UDP_CPOS_MIN \<and> CurConnPos \<le> LISTEN_UDP_CPOS_MAX
         then RecvHelloMessage P s CurConnPos
         else case mfind (m_PosConnMap s) CurConnPos of
                None \<Rightarrow> Some s
              | Some c \<Rightarrow>
                  if events AND EPOLLERR \<noteq> 0 then Some (ReleaseConn s CurConnPos c)
                  else if events AND EPOLLHUP \<noteq> 0 then Some (ReleaseConn s CurConnPos c)
                  else if events AND EPOLLIN \<noteq> 0 then handle_in P s CurConnPos c
                  else if events AND EPOLLOUT \<noteq> 0 then Some (handle_out s CurConnPos c)
                  else Some s)"

fun handle_events :: "bus_pb \<Rightarrow> bus \<Rightarrow> (u32 \<times> u32) list \<Rightarrow> bus option" where
  "handle_events P s [] = Some s"
| "handle_events P s (ev # evs) =
     (case handle_event P s ev of None \<Rightarrow> None | Some s \<Rightarrow> handle_events P s evs)"

text \<open>At most \<open>MAX_QUEUEPKG_PER_LOOP = 10\<close> packets of the cluster queue per round.\<close>

fun drain_queue :: "bus_pb \<Rightarrow> nat \<Rightarrow> bus \<Rightarrow> bus" where
  "drain_queue P 0 s = s"
| "drain_queue P (Suc n) s =
     (let (lockret, s) = bcall EvOther s;
          (Ret, buf, RecvLen, q) = OutQueue_int (m_ClusterQueue s) (replicate XY_PKG_MAX_LEN 0) (int XY_PKG_MAX_LEN) True lockret;
          s = s\<lparr>m_ClusterQueue := q\<rparr>
      in if Ret = E_SHM_QUEUE_EMPTY then s
         else if Ret \<noteq> 0 then s
         else drain_queue P n (snd (ForwardMsg P s (take (nat RecvLen) buf))))"

text \<open>
  The local servers run beside the bus: they put packets into the cluster queue and take packets out of
  their own queues. Both go through the operations of the queue, whole, with buffers of
  \<open>XY_PKG_MAX_LEN\<close> bytes. What they do in a round is done before the bus drains its queue.
\<close>

definition others_put :: "shmqueue \<Rightarrow> byte list list \<Rightarrow> shmqueue" where
  "others_put q ms = fold (\<lambda>m q. snd (InQueue q m (of_nat (length m)) True 0)) ms q"

definition others_take :: "shmqueue \<Rightarrow> nat \<Rightarrow> shmqueue" where
  "others_take q n = ((\<lambda>q. snd (snd (snd (OutQueue q (replicate XY_PKG_MAX_LEN 0) (of_nat XY_PKG_MAX_LEN) True 0)))) ^^ n) q"

definition server_takes :: "u32 \<Rightarrow> ServerInfo smap \<Rightarrow> ServerInfo smap" where
  "server_takes k m =
     (case mfind m k of
        None \<Rightarrow> m
      | Some Info \<Rightarrow> mupdate k (Info\<lparr>pQueue := map_option (\<lambda>q. others_take q 1) (pQueue Info)\<rparr>) m)"

definition bus_others :: "byte list list \<Rightarrow> u32 list \<Rightarrow> bus \<Rightarrow> bus" where
  "bus_others puts takers s =
     s\<lparr>m_ClusterQueue := others_put (m_ClusterQueue s) puts, m_mapSvrInfo := fold server_takes takers (m_mapSvrInfo s)\<rparr>"

text \<open>
  The input of a round: the events \<open>epoll_wait\<close> returned, the packets the servers put into the cluster
  queue, and the servers that take a packet out of theirs.
\<close>

type_synonym bus_input = "(u32 \<times> u32) list \<times> byte list list \<times> u32 list"

record bus_loop =
  lp_bus :: bus
  LastHelloTime :: int
  LastHeartBeetTime :: int

text \<open>One round of \<open>Run\<close>.\<close>

definition run_round :: "bus_pb \<Rightarrow> bus_loop \<Rightarrow> bus_input \<Rightarrow> bus_loop option" where
  "run_round P L round =
     (case handle_events P (lp_bus L) (fst round) of
        None \<Rightarrow> None
      | Some s \<Rightarrow>
          let s = bus_others (fst (snd round)) (snd (snd round)) s; s = drain_queue P 10 s; (NowTime, s) = bcall EvOther s;
              (hello, s) = (if NowTime - LastHelloTime L \<ge> m_UDPHelloTime s
                            then (NowTime, SendHelloMessage P s) else (LastHelloTime L, s));
              (beat, s) = (if NowTime - LastHeartBeetTime L \<ge> m_TCPHelloTime s
                           then (NowTime, SendHeartBeetMessage P s) else (LastHeartBeetTime L, s))
          in Some \<lparr>lp_bus = s, LastHelloTime = hello, LastHeartBeetTime = beat\<rparr>)"

fun Bus_Run_loop :: "bus_pb \<Rightarrow> bus_loop \<Rightarrow> bus_input list \<Rightarrow> bus_loop option" where
  "Bus_Run_loop P L [] = Some L"
| "Bus_Run_loop P L (round # rounds) =
     (case run_round P L round of None \<Rightarrow> None | Some L \<Rightarrow> Bus_Run_loop P L rounds)"

text \<open>\<open>Run\<close> until the stop flag is set, that is for the rounds given.\<close>

definition Bus_Run :: "bus_pb \<Rightarrow> bus \<Rightarrow> bus_input list \<Rightarrow> bus_loop option" where
  "Bus_Run P s rounds =
     (let (t1, s) = bcall EvOther s; (t2, s) = bcall EvOther s
      in Bus_Run_loop P \<lparr>lp_bus = s, LastHelloTime = t1, LastHeartBeetTime = t2\<rparr> rounds)"

end
