(* ===== verification/BusRoute.thy ===== *)
theory BusRoute
  imports Bus
begin

text \<open>
  What the bus does with a packet: which servers a group address denotes, that every local
  destination gets the packet exactly once and in order with its header rewritten, that a packet
  from another cluster is delivered unchanged and never sent on.
\<close>

section \<open>What an operation leaves alone\<close>

definition same_servers :: "bus \<Rightarrow> bus \<Rightarrow> bool" where
  "same_servers s s' \<longleftrightarrow> m_mapSvrInfo s' = m_mapSvrInfo s \<and> m_ClusterID s' = m_ClusterID s
     \<and> m_mapGrpInfo s' = m_mapGrpInfo s \<and> m_ClusterQueue s' = m_ClusterQueue s"

lemma same_servers_refl [simp, intro]: "same_servers s s"
  by (simp add: same_servers_def)

lemma same_servers_trans: "same_servers s s' \<Longrightarrow> same_servers s' s'' \<Longrightarrow> same_servers s s''"
  by (simp add: same_servers_def)

lemma bcall_eq: "bcall ev s = (os_ret (b_os s) (os_tick (b_os s)), s\<lparr>b_os := os_call ev (b_os s)\<rparr>)"
  and bcall0_eq: "bcall0 ev s = s\<lparr>b_os := os_call ev (b_os s)\<rparr>"
  by (simp_all add: bcall_def bcall0_def sys_int_def)

lemma same_servers_os [simp]: "same_servers s (s\<lparr>b_os := w\<rparr>)"
  by (simp add: same_servers_def)

lemma DisconnetCluster_servers [simp]: "same_servers s (snd (DisconnetCluster s k))"
  by (auto simp: DisconnetCluster_def bcall0_eq Let_def same_servers_def split: option.split)

lemma ReleaseConn_servers [simp]: "same_servers s (ReleaseConn s p c)"
proof -
  let ?s = "s\<lparr>b_os := os_call (EvClose (m_SockID c)) (os_call (EvEpoll CtlDel (m_SockID c) False 0) (b_os s)),
               m_PosConnMap := merase p (m_PosConnMap s)\<rparr>"
  have "same_servers s ?s" by (simp add: same_servers_def)
  then show ?thesis
    using same_servers_trans [OF _ DisconnetCluster_servers]
    by (auto simp: ReleaseConn_def bcall0_eq Let_def split: option.split)
qed

lemma Send2Cluster_servers [simp]: "same_servers s (snd (Send2Cluster s info bs))"
proof (cases "mfind (m_PosConnMap s) (ci_ConnPos info)")
  case None
  then show ?thesis by (simp add: Send2Cluster_def Let_def)
next
  case (Some c)
  obtain r bl c' w where S: "send_or_store c bs (b_os s) = (r, bl, c', w)"
    by (cases "send_or_store c bs (b_os s)") auto
  let ?s = "s\<lparr>b_os := w, m_PosConnMap := mupdate (ci_ConnPos info) c' (m_PosConnMap s)\<rparr>"
  have "same_servers s ?s" by (simp add: same_servers_def)
  moreover from this have "same_servers s (ReleaseConn ?s p c')" for p
    by (rule same_servers_trans) simp
  moreover have "same_servers s (bcall0 ev ?s)" for ev by (simp add: bcall0_eq same_servers_def)
  ultimately show ?thesis by (simp add: Send2Cluster_def Let_def Some S)
qed

lemma bus_InQueue_eq:
  "bus_InQueue q buf n s =
     (let l = os_ret (b_os s) (os_tick (b_os s)); (r, q') = InQueue q buf (word_of_int n) True l
      in (r, q', s\<lparr>b_os := os_call EvOther (b_os s)\<rparr>))"
  by (simp add: bus_InQueue_def bcall_eq)

section \<open>Group addresses\<close>

lemma Random_Get_range:
  assumes "0 \<le> rnd" "rnd < 2 ^ 31" "lo < hi"
  shows "lo \<le> Random_Get lo hi rnd \<and> Random_Get lo hi rnd < hi"
proof -
  have "(hi - lo) * rnd < (hi - lo) * 2 ^ 31" using assms by (intro mult_strict_left_mono) simp_all
  then have "(hi - lo) * rnd div 2 ^ 31 < hi - lo"
    by (simp add: div_less_iff_less_mult)
  moreover have "0 \<le> (hi - lo) * rnd div 2 ^ 31" using assms by (intro pos_imp_zdiv_nonneg_iff [THEN iffD2]) simp_all
  ultimately show ?thesis by (simp add: Random_Get_def)
qed

text \<open>The servers an address may denote.\<close>

definition nome :: "byte \<Rightarrow> bool" where
  "nome t \<longleftrightarrow> t = TO_GRP_RNDNOME \<or> t = TO_GRP_ALLNOME"

definition to_group :: "byte \<Rightarrow> bool" where
  "to_group t \<longleftrightarrow> t \<in> {TO_GRP_RND, TO_GRP_RNDNOME, TO_GRP_ALLNOME, TO_GRP_ALL}"

lemma resolve_dst_servers [simp]: "same_servers s (snd (resolve_dst s h))"
  by (auto simp: resolve_dst_def Let_def sys_rand_def bcall_eq split: option.split)

lemma resolve_dst_cases:
  assumes "resolve_dst s h = (Some ds, s')"
  obtains (one) "\<not> to_group (bh_SendType h)" "ds = [bh_DstID h]"
  | (rnd) grp d where "bh_SendType h \<in> {TO_GRP_RND, TO_GRP_RNDNOME}" "mfind (m_mapGrpInfo s) (bh_DstID h) = Some grp"
      "ds = [d]" "d \<in> set (group_members grp (bh_SrcID h) (nome (bh_SendType h)))"
  | (all) grp where "bh_SendType h \<in> {TO_GRP_ALLNOME, TO_GRP_ALL}" "mfind (m_mapGrpInfo s) (bh_DstID h) = Some grp"
      "ds = group_members grp (bh_SrcID h) (nome (bh_SendType h))"
proof -
  let ?t = "bh_SendType h"
  consider "?t \<in> {TO_GRP_RND, TO_GRP_RNDNOME}" | "?t \<in> {TO_GRP_ALLNOME, TO_GRP_ALL}" | "\<not> to_group ?t"
    by (auto simp: to_group_def)
  then show thesis
  proof cases
    case 1
    then have n: "nome ?t \<longleftrightarrow> ?t = TO_GRP_RNDNOME" by (auto simp: nome_def sendtype_defs)
    with 1 assms obtain grp where g: "mfind (m_mapGrpInfo s) (bh_DstID h) = Some grp"
      "group_members grp (bh_SrcID h) (nome ?t) \<noteq> []"
      by (auto simp: resolve_dst_def Let_def split: option.splits if_splits)
    let ?v = "group_members grp (bh_SrcID h) (nome ?t)"
    define r where "r = os_ret (b_os s) (os_tick (b_os s)) mod 2 ^ 31"
    have "0 \<le> Random_Get 0 (int (length ?v)) r \<and> Random_Get 0 (int (length ?v)) r < int (length ?v)"
      using g(2) by (intro Random_Get_range) (simp_all add: r_def)
    then have "?v ! nat (Random_Get 0 (int (length ?v)) r) \<in> set ?v" by (intro nth_mem) linarith
    moreover have "ds = [?v ! nat (Random_Get 0 (int (length ?v)) r)]"
      using 1 assms g n by (auto simp: resolve_dst_def Let_def sys_rand_def bcall_eq r_def)
    ultimately show thesis using 1 g(1) by (intro rnd) auto
  next
    case 2
    then have "nome ?t \<longleftrightarrow> ?t = TO_GRP_ALLNOME" "\<not> (?t = TO_GRP_RND \<or> ?t = TO_GRP_RNDNOME)"
      by (auto simp: nome_def sendtype_defs)
    with 2 assms obtain grp where "mfind (m_mapGrpInfo s) (bh_DstID h) = Some grp"
      "ds = group_members grp (bh_SrcID h) (nome ?t)"
      by (auto simp: resolve_dst_def Let_def split: option.splits)
    with 2 show thesis by (intro all)
  next
    case 3
    with assms show thesis by (intro one) (auto simp: resolve_dst_def Let_def to_group_def)
  qed
qed

section \<open>The queues of the local servers\<close>

text \<open>\<open>Q sid\<close> are the messages in the queue of server \<open>sid\<close>.\<close>

definition bus_queues :: "bus \<Rightarrow> (u32 \<Rightarrow> byte list list) \<Rightarrow> bool" where
  "bus_queues s Q \<longleftrightarrow> (\<forall>sid Info q. mfind (m_mapSvrInfo s) sid = Some Info \<longrightarrow> pQueue Info = Some q \<longrightarrow>
     sq_rel q (Q sid))"

text \<open>A destination whose packets go to a queue of this process.\<close>

definition local_srv :: "bus \<Rightarrow> u32 \<Rightarrow> bool" where
  "local_srv s d = (case mfind (m_mapSvrInfo s) d of
     Some Info \<Rightarrow> si_ClusterID Info = m_ClusterID s \<and> pQueue Info \<noteq> None | None \<Rightarrow> False)"

lemma bus_queuesD: "bus_queues s Q \<Longrightarrow> mfind (m_mapSvrInfo s) sid = Some Info \<Longrightarrow> pQueue Info = Some q \<Longrightarrow> sq_rel q (Q sid)"
  by (simp add: bus_queues_def)

lemma bus_queues_same [simp]: "same_servers s s' \<Longrightarrow> bus_queues s' Q = bus_queues s Q"
  by (simp add: same_servers_def bus_queues_def)

lemma local_srv_same: "same_servers s s' \<Longrightarrow> local_srv s' = local_srv s"
  by (simp add: same_servers_def local_srv_def fun_eq_iff split: option.split)

lemma set_queue:
  assumes "mfind (m_mapSvrInfo s) d = Some Info" "pQueue Info = Some q"
    and "s' = s\<lparr>b_os := w, m_mapSvrInfo := mupdate d (Info\<lparr>pQueue := Some q'\<rparr>) (m_mapSvrInfo s)\<rparr>"
  shows "local_srv s' = local_srv s" "m_ClusterID s' = m_ClusterID s"
    and "bus_queues s Q \<Longrightarrow> sq_rel q' ms \<Longrightarrow> bus_queues s' (Q(d := ms))"
  using assms by (auto simp: local_srv_def bus_queues_def fun_eq_iff split: option.splits)

lemma forward_one_local:
  assumes Q: "bus_queues s Q" and len: "n = int (length buf)" "length buf \<le> XY_PKG_MAX_LEN"
    and ok: "forward_one s d buf n = (0, s')"
  shows "bus_queues s' (if local_srv s d then Q(d := Q d @ [buf]) else Q)"
    and "local_srv s' = local_srv s" and "m_ClusterID s' = m_ClusterID s"
proof -
  obtain Info where I: "mfind (m_mapSvrInfo s) d = Some Info"
    using ok by (auto simp: forward_one_def split: option.splits)
  have "bus_queues s' (if local_srv s d then Q(d := Q d @ [buf]) else Q)
    \<and> local_srv s' = local_srv s \<and> m_ClusterID s' = m_ClusterID s"
  proof (cases "local_srv s d")
    case True
    then obtain q where q: "pQueue Info = Some q" and c: "si_ClusterID Info = m_ClusterID s"
      using I by (auto simp: local_srv_def)
    let ?l = "os_ret (b_os s) (os_tick (b_os s))"
    obtain r q' where R: "InQueue q buf (word_of_int n) True ?l = (r, q')" by force
    have w: "unat (word_of_int n :: u32) = length buf"
      using len by (simp add: XY_PKG_MAX_LEN_def unat_u32_of_nat)
    have s': "s' = s\<lparr>b_os := os_call EvOther (b_os s), m_mapSvrInfo := mupdate d (Info\<lparr>pQueue := Some q'\<rparr>) (m_mapSvrInfo s)\<rparr>"
      and r: "r = SHM_SUCCESS"
      using ok by (simp_all add: forward_one_def I c q bus_InQueue_eq R Let_def SHM_SUCCESS_def split: if_splits)
    from bus_queuesD [OF Q I q] have "sq_rel q' (Q d @ [buf])"
      using InQueue_result(1) [OF _ R w] r len by (simp add: XY_PKG_MAX_LEN_def)
    with set_queue [OF I q s'] Q have "bus_queues s' (Q(d := Q d @ [buf]))" "local_srv s' = local_srv s"
      "m_ClusterID s' = m_ClusterID s" by blast+
    with True show ?thesis by simp
  next
    case False
    have "same_servers s s'"
    proof (cases "si_ClusterID Info = m_ClusterID s")
      case True
      with False I ok show ?thesis by (simp add: forward_one_def local_srv_def)
    next
      case other: False
      show ?thesis
      proof (cases "mfind (m_mapClusterInfo s) (si_ClusterID Info)")
        case None
        with ok I other show ?thesis by (simp add: forward_one_def)
      next
        case (Some info)
        with ok I other have "s' = snd (Send2Cluster s info (mem_read buf 0 (nat n)))"
          by (simp add: forward_one_def case_prod_unfold Let_def split: if_splits)
        then show ?thesis by simp
      qed
    qed
    moreover from this have "m_ClusterID s' = m_ClusterID s" by (simp add: same_servers_def)
    ultimately show ?thesis using False Q local_srv_same by simp
  qed
  then show "bus_queues s' (if local_srv s d then Q(d := Q d @ [buf]) else Q)"
    and "local_srv s' = local_srv s" and "m_ClusterID s' = m_ClusterID s" by blast+
qed

text \<open>The packet a destination gets: the header with the destination, \<open>TO_SRV\<close> and a time, and the body.\<close>

definition fwd_pkt :: "BusHeader \<Rightarrow> byte list \<Rightarrow> u32 \<Rightarrow> u64 \<Rightarrow> byte list" where
  "fwd_pkt h body d t = BusHeader_bytes (h\<lparr>bh_DstID := d, bh_SendType := TO_SRV, bh_PkgTime := t\<rparr>) @ body"

lemma BusHeader_Write_packet:
  "length buf \<ge> 26 \<Longrightarrow> fst (BusHeader_Write h buf 0) = BusHeader_bytes h @ drop 26 buf"
  by (simp add: BusHeader_Write_eq memcpy_to_def)

lemma forward_loop_local:
  assumes "bus_queues s Q" "length buf \<le> XY_PKG_MAX_LEN" "26 \<le> length buf"
    and "forward_loop s h buf (int (length buf)) ds = (0, s')"
  shows "\<exists>ts. length ts = length ds \<and> (bh_PkgTime h \<noteq> 0 \<longrightarrow> (\<forall>t\<in>set ts. t = bh_PkgTime h))
    \<and> bus_queues s' (\<lambda>sid. Q sid @
        map (\<lambda>(d, t). fwd_pkt h (drop 26 buf) d t) (filter (\<lambda>(d, t). d = sid \<and> local_srv s sid) (zip ds ts)))"
  using assms
proof (induction ds arbitrary: s h buf Q)
  case Nil
  then show ?case by simp
next
  case (Cons d ds)
  define t where "t = (if bh_PkgTime h = 0 then word_of_int (os_ret (b_os s) (os_tick (b_os s))) else bh_PkgTime h)"
  define s1 where "s1 = (if bh_PkgTime h = 0 then s\<lparr>b_os := os_call EvOther (b_os s)\<rparr> else s)"
  define h1 where "h1 = h\<lparr>bh_DstID := d, bh_SendType := TO_SRV, bh_PkgTime := t\<rparr>"
  define buf1 where "buf1 = fwd_pkt h (drop 26 buf) d t"
  have w: "fst (BusHeader_Write h1 buf 0) = buf1" "length buf1 = length buf" "drop 26 buf1 = drop 26 buf"
    using Cons.prems(3) by (simp_all add: BusHeader_Write_packet h1_def buf1_def fwd_pkt_def)
  obtain r s2 where F: "forward_one s1 d buf1 (int (length buf)) = (r, s2)" by force
  have h1: "h\<lparr>bh_DstID := d, bh_SendType := TO_SRV, bh_PkgTime := t\<rparr> = h1"
    "bh_PkgTime h \<noteq> 0 \<Longrightarrow> h\<lparr>bh_DstID := d, bh_SendType := TO_SRV\<rparr> = h1"
    by (simp_all add: h1_def t_def)
  have step: "forward_loop s h buf (int (length buf)) (d # ds) =
      (if r \<noteq> 0 then (-1, s2) else forward_loop s2 h1 buf1 (int (length buf)) ds)"
  proof (cases "bh_PkgTime h = 0")
    case True
    then have "t = word_of_int (os_ret (b_os s) (os_tick (b_os s)))" "s1 = s\<lparr>b_os := os_call EvOther (b_os s)\<rparr>"
      by (simp_all add: t_def s1_def)
    with True h1(1) w(1) F show ?thesis by (simp add: bcall_eq Let_def)
  next
    case False
    then have "s1 = s" "bh_PkgTime h1 \<noteq> 0" by (simp_all add: t_def s1_def h1_def)
    with h1(2) [OF False] w(1) F show ?thesis by (simp add: Let_def)
  qed
  with Cons.prems(4) have r: "r = 0" and rest: "forward_loop s2 h1 buf1 (int (length buf1)) ds = (0, s')"
    using w(2) by (auto split: if_splits)
  have ss: "same_servers s s1" by (simp add: s1_def)
  with Cons.prems(1) have Q1: "bus_queues s1 Q" by simp
  define Q2 where "Q2 = (if local_srv s d then Q(d := Q d @ [buf1]) else Q)"
  have "int (length buf) = int (length buf1)" "length buf1 \<le> XY_PKG_MAX_LEN" using w(2) Cons.prems(2) by simp_all
  note one = forward_one_local [OF Q1 this F [unfolded r]]
  have Q2: "bus_queues s2 Q2" and loc: "local_srv s2 = local_srv s"
    using one local_srv_same [OF ss] by (simp_all add: Q2_def)
  obtain ts where ts: "length ts = length ds" "bh_PkgTime h1 \<noteq> 0 \<longrightarrow> (\<forall>t\<in>set ts. t = bh_PkgTime h1)"
    "bus_queues s' (\<lambda>sid. Q2 sid @ map (\<lambda>(d, t). fwd_pkt h1 (drop 26 buf1) d t)
       (filter (\<lambda>(d, t). d = sid \<and> local_srv s2 sid) (zip ds ts)))"
    using Cons.IH [OF Q2 _ _ rest] w(2) Cons.prems(2,3) by auto
  have "fwd_pkt h1 b d' t' = fwd_pkt h b d' t'" for b d' t' by (simp add: fwd_pkt_def h1_def)
  then have "(\<lambda>sid. Q2 sid @ map (\<lambda>(d, t). fwd_pkt h1 (drop 26 buf1) d t)
       (filter (\<lambda>(d, t). d = sid \<and> local_srv s2 sid) (zip ds ts)))
    = (\<lambda>sid. Q sid @ map (\<lambda>(d, t). fwd_pkt h (drop 26 buf) d t)
      (filter (\<lambda>(d, t). d = sid \<and> local_srv s sid) (zip (d # ds) (t # ts))))"
    unfolding w(3) by (intro ext) (auto simp: Q2_def loc buf1_def)
  with ts(3) have "bus_queues s' (\<lambda>sid. Q sid @ map (\<lambda>(d, t). fwd_pkt h (drop 26 buf) d t)
      (filter (\<lambda>(d, t). d = sid \<and> local_srv s sid) (zip (d # ds) (t # ts))))" by simp
  with ts(1,2) show ?case
    by (intro exI [of _ "t # ts"]) (auto simp: h1_def t_def)
qed

section \<open>Packets from other clusters\<close>

text \<open>The length field of the packet at the start of the buffer, or the header length if that is not there.\<close>

definition pkt_len :: "byte list \<Rightarrow> int" where
  "pkt_len buf = (if length buf < 26 then 26 else sint (bh_PkgLen (fst (BusHeader_Read buf 0))))"

lemma ProcessPkg_len: "Bus_ProcessPkg P s buf = Some (n, s') \<Longrightarrow> n = pkt_len buf"
  by (auto simp: Bus_ProcessPkg_def pkt_len_def BusHeader_GetHeaderLen_def Let_def split: if_splits)

lemma ProcessPkg_defined: "26 \<le> pkt_len buf \<Longrightarrow> \<exists>s'. Bus_ProcessPkg P s buf = Some (pkt_len buf, s')"
  by (cases "length buf < 26") (auto simp: Bus_ProcessPkg_def pkt_len_def BusHeader_GetHeaderLen_def Let_def)

lemma ProcessPkg_short: "pkt_len buf > int (length buf) \<Longrightarrow> Bus_ProcessPkg P s buf = Some (pkt_len buf, s)"
  by (cases "length buf < 26") (auto simp: Bus_ProcessPkg_def pkt_len_def BusHeader_GetHeaderLen_def Let_def)

text \<open>A packet from a peer touches the server table and takes a semaphore, nothing else.\<close>

definition quiet :: "bus \<Rightarrow> bus \<Rightarrow> bool" where
  "quiet s s' \<longleftrightarrow> (\<exists>m w k. s' = s\<lparr>m_mapSvrInfo := m, b_os := w\<rparr>
     \<and> os_trace w = os_trace (b_os s) @ replicate k EvOther)"

lemma quiet_svr: "quiet s (s\<lparr>m_mapSvrInfo := m\<rparr>)"
  unfolding quiet_def by (rule exI [of _ m], rule exI [of _ "b_os s"], rule exI [of _ 0]) simp

lemma quiet_refl [simp]: "quiet s s"
  using quiet_svr [of s "m_mapSvrInfo s"] by simp

lemma process_state_quiet: "quiet s (process_state P s buf n)"
  by (auto simp: process_state_def Let_def intro: quiet_svr split: option.split)

lemma deliver_local_quiet: "quiet s (deliver_local s d buf n)"
proof -
  have "quiet s (s\<lparr>b_os := os_call EvOther (b_os s), m_mapSvrInfo := m\<rparr>)" for m
    unfolding quiet_def by (rule exI [of _ m], rule exI [of _ "os_call EvOther (b_os s)"], rule exI [of _ 1]) simp
  then show ?thesis
    by (auto simp: deliver_local_def bus_InQueue_eq Let_def case_prod_unfold split: option.split)
qed

lemma ProcessPkg_quiet: "Bus_ProcessPkg P s buf = Some (n, s') \<Longrightarrow> quiet s s'"
  by (auto simp: Bus_ProcessPkg_def Let_def process_state_quiet deliver_local_quiet split: if_splits)

text \<open>The lock is granted and the packet fits in the queue of a local server.\<close>

definition can_queue :: "bus \<Rightarrow> (u32 \<Rightarrow> byte list list) \<Rightarrow> u32 \<Rightarrow> nat \<Rightarrow> bool" where
  "can_queue s Q d n \<longleftrightarrow> local_srv s d \<and> os_ret (b_os s) (os_tick (b_os s)) = 0
     \<and> (\<forall>Info q. mfind (m_mapSvrInfo s) d = Some Info \<longrightarrow> pQueue Info = Some q \<longrightarrow>
          queue_bytes (Q d) + n + 4 < length (qdata q))"

lemma deliver_local_queues:
  assumes Q: "bus_queues s Q" and len: "n = int (length buf)" "length buf \<le> XY_PKG_MAX_LEN" "buf \<noteq> []"
  shows "bus_queues (deliver_local s d buf n)
    (if can_queue s Q d (length buf) then Q(d := Q d @ [buf]) else Q)"
proof (cases "local_srv s d")
  case False
  then have "deliver_local s d buf n = s" by (auto simp: deliver_local_def local_srv_def split: option.splits)
  with Q False show ?thesis by (simp add: can_queue_def)
next
  case True
  then obtain Info q where I: "mfind (m_mapSvrInfo s) d = Some Info" "pQueue Info = Some q"
    and c: "si_ClusterID Info = m_ClusterID s" by (auto simp: local_srv_def split: option.splits)
  let ?l = "os_ret (b_os s) (os_tick (b_os s))"
  obtain r q' where R: "InQueue q buf (word_of_int n) True ?l = (r, q')" by force
  have w: "unat (word_of_int n :: u32) = length buf" "length buf < 2 ^ 32 - 4"
    using len by (simp_all add: XY_PKG_MAX_LEN_def unat_u32_of_nat)
  have d: "deliver_local s d buf n = s\<lparr>b_os := os_call EvOther (b_os s), m_mapSvrInfo := mupdate d (Info\<lparr>pQueue := Some q'\<rparr>) (m_mapSvrInfo s)\<rparr>"
    by (simp add: deliver_local_def I c bus_InQueue_eq R)
  note sq = bus_queuesD [OF Q I] and upd = set_queue(3) [OF I d Q]
  have can: "can_queue s Q d (length buf) \<longleftrightarrow> ?l = 0 \<and> queue_bytes (Q d) + length buf + 4 < length (qdata q)"
    using True I by (simp add: can_queue_def)
  have "r = SHM_SUCCESS \<longleftrightarrow> can_queue s Q d (length buf)"
    using R InQueue_cases [OF sq, of "word_of_int n" buf True ?l] w len(3)
    by (cases "?l = 0") (auto simp: can shm_codes InQueue_def split: if_splits)
  then show ?thesis
    using InQueue_result [OF sq R w] upd [of "Q d @ [buf]"] upd [of "Q d"] sq
    by (cases "r = SHM_SUCCESS") auto
qed

lemma process_state_queues: "bus_queues s Q \<Longrightarrow> bus_queues (process_state P s buf n) Q"
  by (auto simp: process_state_def Let_def bus_queues_def split: option.split)

section \<open>Framing of the byte stream\<close>

function (sequential) split_pkgs :: "byte list \<Rightarrow> byte list list \<times> byte list" where
  "split_pkgs buf =
     (if buf = [] \<or> pkt_len buf < 26 \<or> pkt_len buf > int (length buf) then ([], buf)
      else let (ps, r) = split_pkgs (drop (nat (pkt_len buf)) buf)
           in (take (nat (pkt_len buf)) buf # ps, r))"
  by pat_completeness auto
termination
  by (relation "measure length") auto

declare split_pkgs.simps [simp del] recv_loop.simps [simp del]

lemma pkt_len_append: "26 \<le> length a \<Longrightarrow> pkt_len (a @ b) = pkt_len a"
proof -
  assume "26 \<le> length a"
  then have "mem_read (a @ b) 0 26 = mem_read a 0 26" by (simp add: mem_read_def)
  then have "BusHeader_Read (a @ b) 0 = BusHeader_Read a 0"
    using BusHeader_Read_slice [of "a @ b" 0] BusHeader_Read_slice [of a 0] by simp
  with \<open>26 \<le> length a\<close> show ?thesis by (simp add: pkt_len_def)
qed

lemma split_pkgs_done:
  "buf = [] \<or> pkt_len buf < 26 \<or> pkt_len buf > int (length buf) \<Longrightarrow> split_pkgs buf = ([], buf)"
  by (subst split_pkgs.simps) auto

lemma split_pkgs_step:
  "26 \<le> pkt_len buf \<Longrightarrow> pkt_len buf \<le> int (length buf) \<Longrightarrow> split_pkgs buf =
     (let (ps, r) = split_pkgs (drop (nat (pkt_len buf)) buf) in (take (nat (pkt_len buf)) buf # ps, r))"
  by (subst split_pkgs.simps) auto

text \<open>Every length field met on the way covers at least the header.\<close>

definition stream_wf :: "byte list \<Rightarrow> bool" where
  "stream_wf buf \<longleftrightarrow> (let r = snd (split_pkgs buf) in r = [] \<or> pkt_len r > int (length r))"

text \<open>The packets of a stream, one after the other.\<close>

fun process_pkgs :: "bus_pb \<Rightarrow> bus \<Rightarrow> byte list list \<Rightarrow> bus option" where
  "process_pkgs P s [] = Some s"
| "process_pkgs P s (p # ps) =
     (case Bus_ProcessPkg P s p of None \<Rightarrow> None | Some (n, s1) \<Rightarrow> process_pkgs P s1 ps)"

lemma ProcessPkg_take:
  assumes "26 \<le> pkt_len buf" "pkt_len buf \<le> int (length buf)"
  shows "Bus_ProcessPkg P s buf = Bus_ProcessPkg P s (take (nat (pkt_len buf)) buf)"
proof -
  let ?n = "nat (pkt_len buf)" and ?p = "take (nat (pkt_len buf)) buf"
  have l: "26 \<le> length buf" "26 \<le> length ?p" "int ?n = pkt_len buf" "length ?p = ?n" using assms by auto
  have "mem_read ?p 0 26 = mem_read buf 0 26" using l by (simp add: mem_read_def)
  then have h: "BusHeader_Read ?p 0 = BusHeader_Read buf 0"
    using BusHeader_Read_slice [of ?p 0] BusHeader_Read_slice [of buf 0] by simp
  have n: "sint (bh_PkgLen (fst (BusHeader_Read buf 0))) = pkt_len buf" using l by (simp add: pkt_len_def)
  show ?thesis
    using l assms by (simp add: Bus_ProcessPkg_def BusHeader_GetHeaderLen_def Let_def h n mem_read_def)
qed

lemma ProcessPkg_conns:
  "Bus_ProcessPkg P (s\<lparr>m_PosConnMap := m\<rparr>) buf =
     map_option (\<lambda>(n, s'). (n, s'\<lparr>m_PosConnMap := m\<rparr>)) (Bus_ProcessPkg P s buf)"
proof -
  have "process_state P (s\<lparr>m_PosConnMap := m\<rparr>) b n = (process_state P s b n)\<lparr>m_PosConnMap := m\<rparr>" for b n
    by (auto simp: process_state_def Let_def split: option.split)
  moreover have "deliver_local (s\<lparr>m_PosConnMap := m\<rparr>) d b n = (deliver_local s d b n)\<lparr>m_PosConnMap := m\<rparr>" for d b n
    by (auto simp: deliver_local_def bus_InQueue_eq Let_def case_prod_unfold split: option.split)
  ultimately show ?thesis by (simp add: Bus_ProcessPkg_def Let_def)
qed

lemma ProcessPkg_keeps_conns: "Bus_ProcessPkg P s buf = Some (n, s') \<Longrightarrow> m_PosConnMap s' = m_PosConnMap s"
  using ProcessPkg_quiet [of P s buf n s'] by (auto simp: quiet_def)

definition set_remain :: "u32 \<Rightarrow> byte list \<Rightarrow> bus \<Rightarrow> bus" where
  "set_remain pos r s = (case mfind (m_PosConnMap s) pos of
     None \<Rightarrow> s | Some c \<Rightarrow> s\<lparr>m_PosConnMap := mupdate pos (c\<lparr>m_RemainRecvData := r\<rparr>) (m_PosConnMap s)\<rparr>)"

lemma mupdate_twice [simp]: "mupdate k v (mupdate k v' m) = mupdate k v m"
  by (auto simp: mupdate_def)

lemma mupdate_same: "mfind m k = Some v \<Longrightarrow> smap_ok m \<Longrightarrow> mupdate k v m = m"
proof (induction m)
  case (Cons e m)
  obtain a b where e: "e = (a, b)" by (cases e)
  have s: "smap_ok m" "\<forall>x\<in>set (mkeys m). a < x" using Cons.prems by (simp_all add: smap_ok_def mkeys_def e)
  show ?case
  proof (cases "a = k")
    case True
    then have "k \<notin> fst ` set m" using s(2) by (auto simp: mkeys_def)
    then have "mupdate k v m = m" by (force simp: mupdate_def intro!: map_idI)
    with True Cons.prems e show ?thesis by (simp add: mupdate_def)
  next
    case False
    with Cons.IH [OF _ s(1)] Cons.prems(1) show ?thesis by (simp add: mupdate_def e)
  qed
qed (simp add: mupdate_def)

section \<open>Chunks\<close>

text \<open>
  What the loop does with a whole stream: packets are processed as long as the next one is complete. A
  length above \<open>XY_PKG_MAX_LEN\<close> is never complete, since no buffer holds as much; a length field of 0 ends
  the loop; the result has the bytes that are kept.
\<close>

lemma pkt_len_Nil [simp]: "pkt_len [] = 26"
  by (simp add: pkt_len_def)

lemma pkt_len_complete: "pkt_len a \<le> int (length a) \<Longrightarrow> 26 \<le> length a"
  by (auto simp: pkt_len_def split: if_splits)

definition waits :: "byte list \<Rightarrow> bool" where
  "waits buf \<longleftrightarrow> pkt_len buf > int (length buf) \<or> pkt_len buf > int XY_PKG_MAX_LEN"

lemma not_waits_pos: "\<not> waits buf \<Longrightarrow> 0 < length buf"
  by (auto simp: waits_def)

function (sequential) serve :: "bus_pb \<Rightarrow> bus \<Rightarrow> byte list \<Rightarrow> (bus \<times> byte list) option" where
  "serve P s buf =
     (if waits buf \<or> pkt_len buf = 0 then Some (s, buf)
      else case Bus_ProcessPkg P s buf of
        None \<Rightarrow> None
      | Some (n, s1) \<Rightarrow> if n \<le> 0 then None else serve P s1 (drop (nat n) buf))"
  by pat_completeness auto
termination
  by (relation "measure (\<lambda>(P, s, buf). length buf)") (auto dest: not_waits_pos)

declare serve.simps [simp del]

text \<open>The bytes that are kept do not depend on the state.\<close>

function (sequential) kept :: "byte list \<Rightarrow> byte list" where
  "kept buf = (if waits buf \<or> pkt_len buf \<le> 0 then buf else kept (drop (nat (pkt_len buf)) buf))"
  by pat_completeness auto
termination
  by (relation "measure length") (auto dest: not_waits_pos)

declare kept.simps [simp del]

lemma serve_stop: "waits buf \<or> pkt_len buf = 0 \<Longrightarrow> serve P s buf = Some (s, buf)"
  by (subst serve.simps) simp

lemma serve_step:
  assumes "\<not> waits buf" "pkt_len buf \<noteq> 0"
  shows "serve P s buf = (case Bus_ProcessPkg P s buf of
    None \<Rightarrow> None | Some (n, s1) \<Rightarrow> if pkt_len buf < 0 then None else serve P s1 (drop (nat (pkt_len buf)) buf))"
  using assms by (subst serve.simps) (auto split: option.split dest: ProcessPkg_len)

lemma rest_stop: "waits buf \<or> pkt_len buf \<le> 0 \<Longrightarrow> kept buf = buf"
  by (subst kept.simps) simp

lemma rest_step: "\<not> waits buf \<Longrightarrow> 0 < pkt_len buf \<Longrightarrow> kept buf = kept (drop (nat (pkt_len buf)) buf)"
  by (subst kept.simps) simp

lemma ProcessPkg_append:
  assumes "\<not> waits a"
  shows "Bus_ProcessPkg P s (a @ b) = Bus_ProcessPkg P s a"
proof -
  have l: "pkt_len a \<le> int (length a)" "26 \<le> length a" using assms pkt_len_complete by (auto simp: waits_def)
  then have "mem_read (a @ b) 0 26 = mem_read a 0 26" by (simp add: mem_read_def)
  then have h: "BusHeader_Read (a @ b) 0 = BusHeader_Read a 0"
    using BusHeader_Read_slice [of "a @ b" 0] BusHeader_Read_slice [of a 0] by simp
  have n: "sint (bh_PkgLen (fst (BusHeader_Read a 0))) = pkt_len a" using l(2) by (simp add: pkt_len_def)
  have "mem_read (a @ b) 0 (nat (pkt_len a)) = mem_read a 0 (nat (pkt_len a))" using l(1) by (simp add: mem_read_def)
  then show ?thesis using l by (simp add: Bus_ProcessPkg_def BusHeader_GetHeaderLen_def Let_def h n)
qed

lemma waits_append: "\<not> waits a \<Longrightarrow> \<not> waits (a @ b) \<and> pkt_len (a @ b) = pkt_len a"
  using pkt_len_append [of a b] pkt_len_complete [of a] by (auto simp: waits_def)

lemma serve_append:
  "serve P s (a @ b) = (case serve P s a of None \<Rightarrow> None | Some (s1, r) \<Rightarrow> serve P s1 (r @ b))"
proof (induction P s a rule: serve.induct)
  case (1 P s a)
  show ?case
  proof (cases "waits a \<or> pkt_len a = 0")
    case True
    then show ?thesis by (simp add: serve_stop)
  next
    case False
    note w = waits_append [of a b]
    show ?thesis
    proof (cases "Bus_ProcessPkg P s a")
      case None
      with False w ProcessPkg_append [of a P s b] show ?thesis by (simp add: serve_step)
    next
      case (Some x)
      then obtain s1 where s1: "Bus_ProcessPkg P s a = Some (pkt_len a, s1)" using ProcessPkg_len by (cases x) auto
      show ?thesis
      proof (cases "pkt_len a < 0")
        case True
        with False w s1 ProcessPkg_append [of a P s b] show ?thesis by (simp add: serve_step)
      next
        case pos: False
        have "drop (nat (pkt_len a)) (a @ b) = drop (nat (pkt_len a)) a @ b" using False by (auto simp: waits_def)
        with False w s1 pos ProcessPkg_append [of a P s b] "1.IH" [OF False s1 refl] show ?thesis by (simp add: serve_step)
      qed
    qed
  qed
qed

lemma rest_append: "kept (a @ b) = kept (kept a @ b)"
proof (induction a rule: kept.induct)
  case (1 a)
  show ?case
  proof (cases "waits a \<or> pkt_len a \<le> 0")
    case True
    then show ?thesis by (simp add: rest_stop)
  next
    case False
    then have "drop (nat (pkt_len a)) (a @ b) = drop (nat (pkt_len a)) a @ b" by (auto simp: waits_def)
    with False waits_append [of a b] "1.IH" show ?thesis by (simp add: rest_step)
  qed
qed

lemma serve_rest: "serve P s a = Some (s', r) \<Longrightarrow> r = kept a"
proof (induction P s a rule: serve.induct)
  case (1 P s a)
  show ?case
  proof (cases "waits a \<or> pkt_len a = 0")
    case True
    with "1.prems" show ?thesis by (auto simp: serve_stop rest_stop)
  next
    case False
    with "1.prems" obtain s1 where s1: "Bus_ProcessPkg P s a = Some (pkt_len a, s1)" "\<not> pkt_len a \<le> 0"
      "serve P s1 (drop (nat (pkt_len a)) a) = Some (s', r)"
      by (auto simp: serve_step split: option.splits if_splits dest: ProcessPkg_len)
    with False "1.IH" [OF False s1(1) refl s1(2,3)] show ?thesis by (simp add: rest_step)
  qed
qed

lemma serve_conns:
  "serve P (s\<lparr>m_PosConnMap := m\<rparr>) a = map_option (\<lambda>(s', r). (s'\<lparr>m_PosConnMap := m\<rparr>, r)) (serve P s a)"
proof (induction P s a rule: serve.induct)
  case (1 P s a)
  show ?case
  proof (cases "waits a \<or> pkt_len a = 0")
    case True
    then show ?thesis by (simp add: serve_stop)
  next
    case False
    show ?thesis
    proof (cases "Bus_ProcessPkg P s a")
      case None
      with False show ?thesis by (simp add: serve_step ProcessPkg_conns)
    next
      case (Some x)
      then obtain s1 where s1: "Bus_ProcessPkg P s a = Some (pkt_len a, s1)" using ProcessPkg_len by (cases x) auto
      show ?thesis
      proof (cases "pkt_len a < 0")
        case True
        with False s1 show ?thesis by (simp add: serve_step ProcessPkg_conns)
      next
        case pos: False
        then have "\<not> pkt_len a \<le> 0" using False by simp
        from "1.IH" [OF False s1 refl this] False s1 pos show ?thesis by (simp add: serve_step ProcessPkg_conns)
      qed
    qed
  qed
qed

lemma serve_keeps_conns: "serve P s a = Some (s', r) \<Longrightarrow> m_PosConnMap s' = m_PosConnMap s"
proof (induction P s a rule: serve.induct)
  case (1 P s a)
  show ?case
  proof (cases "waits a \<or> pkt_len a = 0")
    case True
    with "1.prems" show ?thesis by (simp add: serve_stop)
  next
    case False
    with "1.prems" obtain s1 where s1: "Bus_ProcessPkg P s a = Some (pkt_len a, s1)" "\<not> pkt_len a \<le> 0"
      "serve P s1 (drop (nat (pkt_len a)) a) = Some (s', r)"
      by (auto simp: serve_step split: option.splits if_splits dest: ProcessPkg_len)
    have "m_PosConnMap s' = m_PosConnMap s1" by (rule "1.IH" [OF False s1(1) refl s1(2,3)])
    with ProcessPkg_keeps_conns [OF s1(1)] show ?thesis by simp
  qed
qed

text \<open>No length field of 0 is met.\<close>

definition no_zero :: "byte list \<Rightarrow> bool" where
  "no_zero buf \<longleftrightarrow> pkt_len (kept buf) \<noteq> 0"

lemma no_zero_prefix: "no_zero (a @ b) \<Longrightarrow> no_zero a"
proof -
  assume z: "no_zero (a @ b)"
  have "pkt_len (kept a) \<noteq> 0"
  proof
    assume a: "pkt_len (kept a) = 0"
    then have "26 \<le> length (kept a)" by (auto simp: pkt_len_def split: if_splits)
    with a have "pkt_len (kept a @ b) = 0" using pkt_len_append by simp
    then have "kept (a @ b) = kept a @ b" using rest_append [of a b] by (simp add: rest_stop)
    with z \<open>pkt_len (kept a @ b) = 0\<close> show False by (simp add: no_zero_def)
  qed
  then show ?thesis by (simp add: no_zero_def)
qed

lemma recv_loop_serve:
  assumes "length buf \<le> XY_MAXBUFF_LEN" "smap_ok (m_PosConnMap s)" "mfind (m_PosConnMap s) pos = Some c"
    and "m_RemainRecvData c = []" "no_zero buf"
  shows "recv_loop P s pos buf = map_option (\<lambda>(s', r). set_remain pos r s') (serve P s buf)"
  using assms
proof (induction P s buf rule: serve.induct)
  case (1 P s buf)
  have e: "XY_PKG_MAX_LEN = XY_MAXBUFF_LEN" by (simp add: XY_PKG_MAX_LEN_def XY_MAXBUFF_LEN_def)
  show ?case
  proof (cases "waits buf \<or> pkt_len buf = 0")
    case True
    have "pkt_len buf \<noteq> 0" if "pkt_len buf = 0" using "1.prems"(5) that by (simp add: no_zero_def rest_stop)
    with True "1.prems"(1) have l: "pkt_len buf > int (length buf)" by (auto simp: waits_def e)
    show ?thesis
    proof (cases "buf = []")
      case True
      have "c\<lparr>m_RemainRecvData := []\<rparr> = c" using "1.prems"(4) by (cases c) simp
      with True "1.prems"(2,3) show ?thesis
        by (simp add: recv_loop.simps set_remain_def mupdate_same serve_stop waits_def)
    next
      case ne: False
      from ProcessPkg_short [OF l, of P s] l ne True "1.prems" show ?thesis
        by (subst recv_loop.simps) (simp add: AddRecvData_def set_remain_def serve_stop)
    qed
  next
    case False
    then have ne: "buf \<noteq> []" by (auto simp: waits_def)
    show ?thesis
    proof (cases "Bus_ProcessPkg P s buf")
      case None
      with False ne show ?thesis by (subst recv_loop.simps) (simp add: serve_step)
    next
      case (Some x)
      then obtain s1 where s1: "Bus_ProcessPkg P s buf = Some (pkt_len buf, s1)" using ProcessPkg_len by (cases x) auto
      have p: "0 < pkt_len buf"
      proof (rule ccontr)
        assume "\<not> 0 < pkt_len buf"
        with False have "pkt_len buf < 0" "pkt_len buf \<le> int (length buf)" by (auto simp: waits_def)
        with s1 pkt_len_complete [of buf] show False
          by (auto simp: Bus_ProcessPkg_def pkt_len_def BusHeader_GetHeaderLen_def Let_def split: if_splits)
      qed
      have m: "m_PosConnMap s1 = m_PosConnMap s" by (rule ProcessPkg_keeps_conns [OF s1])
      have "no_zero (drop (nat (pkt_len buf)) buf)" using "1.prems"(5) False p by (simp add: no_zero_def rest_step)
      then have "recv_loop P s1 pos (drop (nat (pkt_len buf)) buf)
          = map_option (\<lambda>(s', r). set_remain pos r s') (serve P s1 (drop (nat (pkt_len buf)) buf))"
        using "1.prems" m p by (intro "1.IH" [OF False s1 refl]) auto
      moreover have "pkt_len buf \<le> int (length buf)" using False by (simp add: waits_def)
      ultimately show ?thesis using ne s1 m "1.prems"(3) p False by (subst recv_loop.simps) (simp add: serve_step)
    qed
  qed
qed

text \<open>
  One chunk after the other, as \<open>Run\<close> handles them: the bytes left over, which \<open>Recv\<close> takes out of the
  connection, and the chunk go through the loop.
\<close>

definition feed :: "bus_pb \<Rightarrow> u32 \<Rightarrow> bus \<Rightarrow> byte list \<Rightarrow> bus option" where
  "feed P pos s chunk = (case mfind (m_PosConnMap s) pos of
     None \<Rightarrow> None | Some c \<Rightarrow> recv_loop P (set_remain pos [] s) pos (m_RemainRecvData c @ chunk))"

fun feed_all :: "bus_pb \<Rightarrow> u32 \<Rightarrow> bus \<Rightarrow> byte list list \<Rightarrow> bus option" where
  "feed_all P pos s [] = Some s"
| "feed_all P pos s (ch # chs) = (case feed P pos s ch of None \<Rightarrow> None | Some s \<Rightarrow> feed_all P pos s chs)"

text \<open>The code's handler of a readable connection does this with the bytes its read gives.\<close>

lemma handle_in_feed:
  assumes "length (m_RemainRecvData c) \<le> XY_MAXBUFF_LEN" "mfind (m_PosConnMap s) pos = Some c"
    and "sys_read (m_SockID c) (XY_MAXBUFF_LEN - length (m_RemainRecvData c)) (b_os s) = (n, chunk, w)" "0 < n"
  shows "length (m_RemainRecvData c @ chunk) \<le> XY_MAXBUFF_LEN
    \<and> handle_in P s pos c = feed P pos (s\<lparr>b_os := snd (sys_time w),
         m_PosConnMap := mupdate pos (c\<lparr>m_LastActTime := fst (sys_time w)\<rparr>) (m_PosConnMap s)\<rparr>) chunk"
proof -
  let ?r = "m_RemainRecvData c"
  have l: "length chunk \<le> XY_MAXBUFF_LEN - length ?r" using assms(3,4) by (auto simp: sys_read_def Let_def split: if_splits)
  have m: "XY_MAXBUFF_LEN < 2 ^ 32" by (simp add: XY_MAXBUFF_LEN_def)
  then have "unat (of_nat XY_MAXBUFF_LEN - of_nat (length ?r) :: u32) = XY_MAXBUFF_LEN - length ?r"
    using assms(1) by (simp add: unat_sub word_le_nat_alt unat_u32_of_nat)
  moreover have "unat (of_nat XY_MAXBUFF_LEN :: u32) = XY_MAXBUFF_LEN" using m by (rule unat_u32_of_nat)
  ultimately have R: "Recv c (of_nat XY_MAXBUFF_LEN) (b_os s)
      = (0, ?r @ chunk, c\<lparr>m_LastActTime := fst (sys_time w), m_RemainRecvData := []\<rparr>, snd (sys_time w))"
    using assms by (cases "?r = []") (simp_all add: Recv_def case_prod_unfold Let_def)
  have b: "length ?r + length chunk \<le> XY_MAXBUFF_LEN" using l assms(1) by simp
  then show ?thesis using assms(2) by (simp add: handle_in_def R feed_def set_remain_def Let_def)
qed

text \<open>So every chunk fits in the buffer behind the bytes left over.\<close>

fun chunks_fit :: "byte list \<Rightarrow> byte list list \<Rightarrow> bool" where
  "chunks_fit rem [] = True"
| "chunks_fit rem (ch # chs) = (length (rem @ ch) \<le> XY_MAXBUFF_LEN \<and> chunks_fit (kept (rem @ ch)) chs)"

lemma feed_serve:
  assumes c: "mfind (m_PosConnMap s) pos = Some c" and ok: "smap_ok (m_PosConnMap s)"
    and len: "length (m_RemainRecvData c @ chunk) \<le> XY_MAXBUFF_LEN" and z: "no_zero (m_RemainRecvData c @ chunk)"
  shows "feed P pos s chunk = map_option (\<lambda>(s', r). set_remain pos r s') (serve P s (m_RemainRecvData c @ chunk))"
proof -
  let ?b = "m_RemainRecvData c @ chunk" and ?m = "mupdate pos (c\<lparr>m_RemainRecvData := []\<rparr>) (m_PosConnMap s)"
  have s: "set_remain pos [] s = s\<lparr>m_PosConnMap := ?m\<rparr>" using c by (simp add: set_remain_def)
  have "recv_loop P (s\<lparr>m_PosConnMap := ?m\<rparr>) pos ?b = map_option (\<lambda>(s', r). set_remain pos r s') (serve P (s\<lparr>m_PosConnMap := ?m\<rparr>) ?b)"
    using ok c by (intro recv_loop_serve [OF len _ _ _ z, where c = "c\<lparr>m_RemainRecvData := []\<rparr>"]) simp_all
  also have "\<dots> = map_option (\<lambda>(s', r). set_remain pos r s') (serve P s ?b)"
  proof (cases "serve P s ?b")
    case (Some x)
    obtain s' r where x: "x = (s', r)" by (cases x)
    have "m_PosConnMap s' = m_PosConnMap s" by (rule serve_keeps_conns [OF Some [unfolded x]])
    then show ?thesis unfolding serve_conns Some x using c by (simp add: set_remain_def)
  qed (simp add: serve_conns)
  finally show ?thesis using c by (simp add: feed_def s)
qed

lemma feed_all_serve:
  assumes "mfind (m_PosConnMap s) pos = Some c" "smap_ok (m_PosConnMap s)" "chs \<noteq> []"
    and "no_zero (m_RemainRecvData c @ concat chs)" "chunks_fit (m_RemainRecvData c) chs"
  shows "feed_all P pos s chs = map_option (\<lambda>(s', r). set_remain pos r s') (serve P s (m_RemainRecvData c @ concat chs))"
  using assms
proof (induction chs arbitrary: s c)
  case (Cons ch chs)
  let ?b = "m_RemainRecvData c @ ch"
  have f: "feed P pos s ch = map_option (\<lambda>(s', r). set_remain pos r s') (serve P s ?b)"
    using Cons.prems no_zero_prefix [of ?b "concat chs"] by (intro feed_serve) simp_all
  have app: "serve P s (m_RemainRecvData c @ concat (ch # chs))
      = (case serve P s ?b of None \<Rightarrow> None | Some (s1, r) \<Rightarrow> serve P s1 (r @ concat chs))"
    using serve_append [of P s ?b "concat chs"] by simp
  show ?case
  proof (cases "serve P s ?b")
    case None
    with f app show ?thesis by simp
  next
    case (Some x)
    obtain s1 r where x: "x = (s1, r)" by (cases x)
    have r: "r = kept ?b" by (rule serve_rest [OF Some [unfolded x]])
    have m1: "m_PosConnMap s1 = m_PosConnMap s" by (rule serve_keeps_conns [OF Some [unfolded x]])
    let ?s = "set_remain pos r s1" and ?c = "c\<lparr>m_RemainRecvData := r\<rparr>"
    have s: "?s = s1\<lparr>m_PosConnMap := mupdate pos ?c (m_PosConnMap s)\<rparr>" using Cons.prems(1) m1 by (simp add: set_remain_def)
    show ?thesis
    proof (cases "chs = []")
      case True
      have "feed_all P pos s [ch] = feed P pos s ch" by (cases "feed P pos s ch") simp_all
      then show ?thesis using f True by simp
    next
      case False
      have "no_zero (r @ concat chs)"
        using Cons.prems(4) rest_append [of ?b "concat chs"] r by (simp add: no_zero_def)
      moreover have "mfind (m_PosConnMap ?s) pos = Some ?c" "smap_ok (m_PosConnMap ?s)" using Cons.prems(1,2) by (simp_all add: s)
      moreover have "chunks_fit r chs" using Cons.prems(5) r by simp
      ultimately have IH: "feed_all P pos ?s chs = map_option (\<lambda>(s', r). set_remain pos r s') (serve P ?s (r @ concat chs))"
        using Cons.IH [of ?s ?c] False by simp
      have "map_option (\<lambda>(s', r). set_remain pos r s') (serve P ?s (r @ concat chs))
          = map_option (\<lambda>(s', r). set_remain pos r s') (serve P s1 (r @ concat chs))"
      proof (cases "serve P s1 (r @ concat chs)")
        case (Some y)
        obtain s' r' where y: "y = (s', r')" by (cases y)
        have "m_PosConnMap s' = m_PosConnMap s" using serve_keeps_conns [OF Some [unfolded y]] m1 by simp
        then show ?thesis unfolding s serve_conns Some y using Cons.prems(1) by (simp add: set_remain_def)
      qed (simp add: s serve_conns)
      with f app Some x IH show ?thesis by simp
    qed
  qed
qed simp

text \<open>A stream of packets with sound lengths.\<close>

lemma serve_packets:
  assumes "split_pkgs a = (ps, r)" "r = [] \<or> pkt_len r > int (length r)" "\<forall>p\<in>set ps. length p \<le> XY_PKG_MAX_LEN"
  shows "\<exists>s'. process_pkgs P s ps = Some s' \<and> serve P s a = Some (s', r)"
  using assms
proof (induction a arbitrary: ps s rule: split_pkgs.induct)
  case (1 a)
  show ?case
  proof (cases "a = [] \<or> pkt_len a < 26 \<or> pkt_len a > int (length a)")
    case True
    with "1.prems"(1,2) have "ps = []" "r = a" "waits a" by (auto simp: split_pkgs_done waits_def)
    then show ?thesis by (simp add: serve_stop)
  next
    case False
    then have l: "26 \<le> pkt_len a" "pkt_len a \<le> int (length a)" by auto
    obtain ps1 where rec: "split_pkgs (drop (nat (pkt_len a)) a) = (ps1, r)" and ps: "ps = take (nat (pkt_len a)) a # ps1"
      using "1.prems"(1) split_pkgs_step [OF l] by (auto split: prod.splits)
    have "length (take (nat (pkt_len a)) a) = nat (pkt_len a)" using l by simp
    then have w: "\<not> waits a" using "1.prems"(3) l ps by (auto simp: waits_def)
    obtain s1 where s1: "Bus_ProcessPkg P s a = Some (pkt_len a, s1)" using ProcessPkg_defined [OF l(1)] by blast
    have "\<exists>s'. process_pkgs P s1 ps1 = Some s' \<and> serve P s1 (drop (nat (pkt_len a)) a) = Some (s', r)"
      using "1.prems"(2,3) ps by (intro "1.IH" [OF False rec]) auto
    with s1 w l ps ProcessPkg_take [OF l, of P s] show ?thesis by (auto simp: serve_step)
  qed
qed

section \<open>Properties\<close>

text \<open>The destinations the bus may choose for a header.\<close>

definition addressed :: "bus \<Rightarrow> BusHeader \<Rightarrow> u32 list \<Rightarrow> bool" where
  "addressed s h ds \<longleftrightarrow>
     (if \<not> to_group (bh_SendType h) then ds = [bh_DstID h]
      else case mfind (m_mapGrpInfo s) (bh_DstID h) of
        None \<Rightarrow> False
      | Some grp \<Rightarrow>
          let members = filter (\<lambda>d. nome (bh_SendType h) \<longrightarrow> d \<noteq> bh_SrcID h) grp
          in if bh_SendType h = TO_GRP_ALL \<or> bh_SendType h = TO_GRP_ALLNOME then ds = members
             else list_ex (\<lambda>d. ds = [d]) members)"

lemma resolve_dst_addressed: "resolve_dst s h = (Some ds, s') \<Longrightarrow> addressed s h ds"
proof -
  assume R: "resolve_dst s h = (Some ds, s')"
  have g: "group_members grp src n = filter (\<lambda>d. n \<longrightarrow> d \<noteq> src) grp" for grp src n
    unfolding group_members_def by (rule filter_cong) auto
  from R show ?thesis
  proof (cases rule: resolve_dst_cases)
    case one
    then show ?thesis by (simp add: addressed_def)
  next
    case (rnd grp d)
    then have "to_group (bh_SendType h)" "\<not> (bh_SendType h = TO_GRP_ALL \<or> bh_SendType h = TO_GRP_ALLNOME)"
      by (auto simp: to_group_def sendtype_defs)
    with rnd show ?thesis by (auto simp: addressed_def g list_ex_iff)
  next
    case (all grp)
    then have "to_group (bh_SendType h)" by (auto simp: to_group_def)
    with all show ?thesis by (auto simp: addressed_def g)
  qed
qed

text \<open>
  C1: when \<open>ForwardMsg\<close> returns 0 for an ordinary packet, its destinations are those its send type
  says: the one server, one member of the group, or all of them, without the sender for the two
  \<open>NOME\<close> types; every destination served by this process gets the packet in its queue once per
  occurrence, behind what was there, with destination, send type and time set in the header and the
  body unchanged; no other local queue changes.
\<close>
theorem ForwardMsg_delivers:
  assumes "bus_queues s Q" "ForwardMsg P s buf = (0, s')"
    and "h = fst (BusHeader_Read buf 0)" "bh_CmdID h \<noteq> Cmd_StateChange"
  shows "\<exists>ds ts. addressed s h ds \<and> length ts = length ds
    \<and> (bh_PkgTime h \<noteq> 0 \<longrightarrow> (\<forall>t\<in>set ts. t = bh_PkgTime h))
    \<and> bus_queues s' (\<lambda>sid. Q sid @
        map (\<lambda>(d, t). fwd_pkt h (drop 26 buf) d t) (filter (\<lambda>(d, t). d = sid \<and> local_srv s sid) (zip ds ts)))"
proof -
  obtain dsts s1 where R: "resolve_dst s h = (dsts, s1)" by force
  have len: "26 \<le> length buf" "length buf \<le> XY_PKG_MAX_LEN" "sint (bh_PkgLen h) = int (length buf)"
    and F: "(case dsts of None \<Rightarrow> (-1, s1) | Some ds \<Rightarrow> forward_loop s1 h buf (int (length buf)) ds) = (0, s')"
    using assms(2,4) R unfolding ForwardMsg_def assms(3) [symmetric]
    by (auto simp: Let_def BusHeader_GetHeaderLen_def split: if_splits option.splits)
  from F obtain ds where ds: "dsts = Some ds" and L: "forward_loop s1 h buf (int (length buf)) ds = (0, s')"
    by (auto split: option.splits)
  have ss: "same_servers s s1" using resolve_dst_servers [of s h] R by simp
  then have "bus_queues s1 Q" using assms(1) by simp
  from forward_loop_local [OF this len(2,1) L] local_srv_same [OF ss] resolve_dst_addressed [OF R [unfolded ds]]
  show ?thesis by auto
qed

text \<open>
  C2: a packet that arrives from another cluster is never sent on: processing it writes to no
  socket and changes no connection; it is put, byte for byte, in the queue of the server it names
  when that server is local and its queue has room, and otherwise it is dropped.
\<close>
theorem ProcessPkg_delivers:
  assumes "bus_queues s Q" "Bus_ProcessPkg P s buf = Some (n, s')" "26 \<le> n" "n \<le> int (length buf)"
    and "h = fst (BusHeader_Read buf 0)" "n \<le> int XY_PKG_MAX_LEN"
  shows "n = sint (bh_PkgLen h) \<and> quiet s s'
    \<and> bus_queues s' (if bh_SendType h = TO_SRV \<and> bh_CmdID h \<noteq> Cmd_Heartbeat \<and> bh_CmdID h \<noteq> Cmd_StateChange
                       \<and> can_queue s Q (bh_DstID h) (nat n)
                    then Q(bh_DstID h := Q (bh_DstID h) @ [take (nat n) buf]) else Q)"
proof -
  have l: "26 \<le> length buf" "length (take (nat n) buf) = nat n" using assms(3,4) by auto
  have n: "n = sint (bh_PkgLen h)"
    using ProcessPkg_len [OF assms(2)] l assms(5) by (simp add: pkt_len_def)
  have "deliver_local s d (take (nat n) buf) n = deliver_local s d (take (nat n) buf) (int (length (take (nat n) buf)))" for d
    using l assms(3) by simp
  moreover have "take (nat n) buf \<noteq> []" using l assms(3) by auto
  ultimately have del: "bus_queues (deliver_local s d (take (nat n) buf) n)
      (if can_queue s Q d (nat n) then Q(d := Q d @ [take (nat n) buf]) else Q)" for d
    using deliver_local_queues [OF assms(1) refl, of "take (nat n) buf" d] l(2) assms(6) by simp
  have "s' = (if bh_SendType h \<noteq> TO_SRV \<or> bh_CmdID h = Cmd_Heartbeat then s
      else if bh_CmdID h = Cmd_StateChange then process_state P s (take (nat n) buf) n
      else deliver_local s (bh_DstID h) (take (nat n) buf) n)"
    using assms(2) l(1) n assms(3,4,6) unfolding Bus_ProcessPkg_def assms(5) [symmetric]
    by (auto simp: Let_def BusHeader_GetHeaderLen_def mem_read_def split: if_splits)
  then have "bus_queues s' (if bh_SendType h = TO_SRV \<and> bh_CmdID h \<noteq> Cmd_Heartbeat \<and> bh_CmdID h \<noteq> Cmd_StateChange
                       \<and> can_queue s Q (bh_DstID h) (nat n)
                    then Q(bh_DstID h := Q (bh_DstID h) @ [take (nat n) buf]) else Q)"
    using del [of "bh_DstID h"] assms(1) process_state_queues [OF assms(1), of P "take (nat n) buf" n]
    by (auto split: if_splits)
  with n ProcessPkg_quiet [OF assms(2)] show ?thesis by blast
qed

text \<open>
  C5: how the kernel cuts the byte stream of a connection into chunks does not matter. A read gives a chunk
  that fits into the buffer behind the bytes left over, and the handler of the connection feeds it to the
  receive loop; feeding the chunks one after the other does what the loop does with the whole stream: it
  processes the same packets in the same order and keeps the same bytes, and it is undefined for the same
  streams. This is so for every stream, whatever its length fields say, in which no length field of 0 is met;
  that one ends the loop, and it is looked at again with every chunk. When all length fields cover the header
  and none is above \<open>XY_PKG_MAX_LEN\<close>, all packets of the stream are processed and the incomplete rest is kept.
\<close>
theorem framing_chunk_independent:
  fixes s :: bus and c :: conninfo and chs :: "byte list list"
  defines "stream \<equiv> m_RemainRecvData c @ concat chs"
  assumes "mfind (m_PosConnMap s) pos = Some c" "smap_ok (m_PosConnMap s)" "chs \<noteq> []"
    and "no_zero stream" "chunks_fit (m_RemainRecvData c) chs"
  shows "feed_all P pos s chs = map_option (\<lambda>(s', r). set_remain pos r s') (serve P s stream)
    \<and> (stream_wf stream \<and> (\<forall>p\<in>set (fst (split_pkgs stream)). length p \<le> XY_PKG_MAX_LEN) \<longrightarrow>
        (\<exists>s'. process_pkgs P s (fst (split_pkgs stream)) = Some s' \<and> serve P s stream = Some (s', snd (split_pkgs stream))))
    \<and> (\<forall>t d n chunk w. mfind (m_PosConnMap t) pos = Some d \<and> length (m_RemainRecvData d) \<le> XY_MAXBUFF_LEN
         \<and> sys_read (m_SockID d) (XY_MAXBUFF_LEN - length (m_RemainRecvData d)) (b_os t) = (n, chunk, w) \<and> 0 < n \<longrightarrow>
         length (m_RemainRecvData d @ chunk) \<le> XY_MAXBUFF_LEN
         \<and> handle_in P t pos d = feed P pos (t\<lparr>b_os := snd (sys_time w),
             m_PosConnMap := mupdate pos (d\<lparr>m_LastActTime := fst (sys_time w)\<rparr>) (m_PosConnMap t)\<rparr>) chunk)"
proof (intro conjI impI allI, goal_cases)
  case 1
  show ?case using feed_all_serve [OF assms(2-4)] assms(5,6) by (simp add: stream_def)
next
  case 2
  then show ?case using serve_packets [of stream] by (auto simp: stream_wf_def Let_def)
qed (use handle_in_feed in blast)+

section \<open>An example\<close>

text \<open>Cluster 1 with the servers 101 and 102 of group 100, and server 201 in cluster 2, which is not connected.\<close>

definition queue_empty :: shmqueue where
  "queue_empty = \<lparr>uiHead = 0, uiTail = 0, qdata = replicate 64 0, m_QueueDataSize = 64, m_pMsgPeekBuf = None\<rparr>"

definition bus_example :: bus where
  "bus_example = (Bus_new queue_empty (os_example []))
     \<lparr>m_ClusterID := 1,
      m_PosConnMap := [(300001, conn_example)],
      m_mapClusterInfo := [(1, ClusterInfo_new\<lparr>ci_ClusterID := 1\<rparr>), (2, ClusterInfo_new\<lparr>ci_ClusterID := 2\<rparr>)],
      m_mapSvrInfo := [(101, ServerInfo_new\<lparr>si_ClusterID := 1, GroupID := 100, pQueue := Some queue_empty\<rparr>),
                       (102, ServerInfo_new\<lparr>si_ClusterID := 1, GroupID := 100, pQueue := Some queue_empty\<rparr>),
                       (201, ServerInfo_new\<lparr>si_ClusterID := 2, GroupID := 200\<rparr>)],
      m_mapGrpInfo := [(100, [101, 102]), (200, [201])]\<rparr>"

definition pb_example :: bus_pb where
  "pb_example = \<lparr>parse_StateChange = (\<lambda>_ _. None), parse_Heartbeat = (\<lambda>_ _. None), parse_Hello = (\<lambda>_ _. None),
     ser_Heartbeat = (\<lambda>_. []), ser_Hello = (\<lambda>_. [])\<rparr>"

definition header_example :: BusHeader where
  "header_example = \<lparr>bh_PkgLen = 28, bh_CmdID = 9, bh_SrcID = 101, bh_DstID = 100, bh_PkgTime = 5,
     bh_SendType = TO_GRP_ALLNOME, bh_Flag = 0\<rparr>"

lemma queue_empty_rel: "sq_rel queue_empty []"
  by (simp add: sq_rel_def sq_wf_def sq_at_def queue_empty_def ring_used_def ring_read_def)

lemma bus_example_queues: "bus_queues bus_example (\<lambda>_. [])"
  using queue_empty_rel
  by (auto simp: bus_queues_def bus_example_def Bus_new_def ServerInfo_new_def split: if_splits)

lemma InQueue_example: "length pData = 28 \<Longrightarrow> \<exists>q'. InQueue queue_empty pData 28 True 0 = (0, q')"
  using InQueue_cases [OF queue_empty_rel, of 28 pData True 0] by (simp add: queue_empty_def SHM_SUCCESS_def)

lemma example_fields [simp]:
  "m_ClusterID bus_example = 1" "mfind (m_mapGrpInfo bus_example) 100 = Some [101, 102]"
  "mfind (m_mapSvrInfo bus_example) 102 = Some (ServerInfo_new\<lparr>si_ClusterID := 1, GroupID := 100, pQueue := Some queue_empty\<rparr>)"
  "os_ret (b_os bus_example) n = 0" "local_srv bus_example 102"
  by (simp_all add: bus_example_def Bus_new_def os_example_def local_srv_def)

lemma example_read [simp]:
  "BusHeader_Read (BusHeader_bytes h @ body) 0 = (h, 26)"
  by (rule bush.rd_packet)

lemma ForwardMsg_example:
  "\<exists>s'. ForwardMsg pb_example bus_example (BusHeader_bytes header_example @ [1, 2]) = (0, s')"
proof -
  obtain q' where "InQueue queue_empty (fwd_pkt header_example [1, 2] 102 5) 28 True 0 = (0, q')"
    using InQueue_example [of "fwd_pkt header_example [1, 2] 102 5"] by (auto simp: fwd_pkt_def)
  then show ?thesis
    by (simp add: ForwardMsg_def header_example_def BusHeader_GetHeaderLen_def XY_PKG_MAX_LEN_def resolve_dst_def
        sendtype_defs group_members_def forward_one_def bus_InQueue_eq BusHeader_Write_packet fwd_pkt_def
        ServerInfo_new_def Cmd_StateChange_def E_SHM_QUEUE_FULL_def Let_def)
qed

text \<open>A packet of server 101 to everyone else in its group goes to 102 only.\<close>

theorem ForwardMsg_delivers_witness:
  "\<exists>s'. ForwardMsg pb_example bus_example (BusHeader_bytes header_example @ [1, 2]) = (0, s')
     \<and> bus_queues s' ((\<lambda>_. [])(102 := [fwd_pkt header_example [1, 2] 102 5]))"
proof -
  obtain s' where F: "ForwardMsg pb_example bus_example (BusHeader_bytes header_example @ [1, 2]) = (0, s')"
    using ForwardMsg_example by blast
  have a: "addressed bus_example header_example ds \<longleftrightarrow> ds = [102]" for ds
    by (simp add: addressed_def header_example_def to_group_def nome_def sendtype_defs)
  have t: "bh_PkgTime header_example = 5" "bh_CmdID header_example \<noteq> Cmd_StateChange"
    by (simp_all add: header_example_def Cmd_StateChange_def)
  have hd: "header_example = fst (BusHeader_Read (BusHeader_bytes header_example @ [1, 2]) 0)" by simp
  from ForwardMsg_delivers [OF bus_example_queues F hd t(2)] obtain ds ts where
    "addressed bus_example header_example ds" "length ts = length ds"
    "bh_PkgTime header_example \<noteq> 0 \<longrightarrow> (\<forall>t\<in>set ts. t = bh_PkgTime header_example)"
    and Q: "bus_queues s' (\<lambda>sid. [] @ map (\<lambda>(d, t). fwd_pkt header_example (drop 26 (BusHeader_bytes header_example @ [1, 2])) d t)
      (filter (\<lambda>(d, t). d = sid \<and> local_srv bus_example sid) (zip ds ts)))"
    by (elim exE conjE)
  then have "ds = [102]" "length ts = 1" "\<forall>t\<in>set ts. t = 5" using a t(1) by simp_all
  then have "ds = [102]" "ts = [5]" by (auto simp: length_Suc_conv)
  moreover have "(\<lambda>sid. [] @ map (\<lambda>(d, t). fwd_pkt header_example (drop 26 (BusHeader_bytes header_example @ [1, 2])) d t)
      (filter (\<lambda>(d, t). d = sid \<and> local_srv bus_example sid) (zip [102] [5])))
    = (\<lambda>_. [])(102 := [fwd_pkt header_example [1, 2] 102 5])" by (intro ext) simp
  ultimately show ?thesis using F Q by simp
qed

theorem ProcessPkg_delivers_witness:
  "\<exists>s'. Bus_ProcessPkg pb_example bus_example (fwd_pkt header_example [1, 2] 102 5 @ [7]) = Some (28, s')
     \<and> bus_queues s' ((\<lambda>_. [])(102 := [fwd_pkt header_example [1, 2] 102 5]))"
proof -
  let ?h = "header_example\<lparr>bh_DstID := 102, bh_SendType := TO_SRV, bh_PkgTime := 5\<rparr>"
  let ?buf = "fwd_pkt header_example [1, 2] 102 5 @ [7]"
  have l: "length ?buf = 29" "fst (BusHeader_Read ?buf 0) = ?h" by (simp_all add: fwd_pkt_def)
  then have "pkt_len ?buf = 28" by (simp add: pkt_len_def header_example_def)
  with ProcessPkg_defined [of ?buf pb_example bus_example] obtain s' where
    s': "Bus_ProcessPkg pb_example bus_example ?buf = Some (28, s')" by auto
  have "can_queue bus_example (\<lambda>_. []) 102 28"
    by (simp add: can_queue_def ServerInfo_new_def queue_empty_def)
  moreover have "take (nat 28) ?buf = fwd_pkt header_example [1, 2] 102 5" by (simp add: fwd_pkt_def)
  ultimately show ?thesis
    using ProcessPkg_delivers [OF bus_example_queues s' _ _ l(2) [symmetric]] s' l(1)
    by (simp add: header_example_def Cmd_Heartbeat_def Cmd_StateChange_def XY_PKG_MAX_LEN_def)
qed

definition beat_example :: "byte list" where
  "beat_example = BusHeader_bytes (BusHeader_new\<lparr>bh_PkgLen := 26, bh_CmdID := Cmd_Heartbeat\<rparr>)"

lemma beat_split: "split_pkgs (beat_example @ [0, 0]) = ([beat_example], [0, 0])"
proof -
  have "length beat_example = 26" "pkt_len (beat_example @ [0, 0]) = 26" "pkt_len [0, 0] = 26"
    by (simp_all add: beat_example_def pkt_len_def BusHeader_new_def)
  then show ?thesis
    using split_pkgs_step [of "beat_example @ [0, 0]"] split_pkgs_done [of "[0, 0]"] by simp
qed

text \<open>A heartbeat and the start of the next packet, in two chunks.\<close>

theorem framing_chunk_independent_witness:
  "\<exists>s'. process_pkgs pb_example bus_example [beat_example] = Some s'
     \<and> feed_all pb_example 300001 bus_example [take 10 beat_example, drop 10 beat_example @ [0, 0]]
       = Some (set_remain 300001 [0, 0] s')"
proof -
  have c: "mfind (m_PosConnMap bus_example) 300001 = Some conn_example" "smap_ok (m_PosConnMap bus_example)"
    "m_RemainRecvData conn_example = []"
    by (simp_all add: bus_example_def smap_ok_def mkeys_def conn_example_def ConnInfo_new_def sys_time_def sys_int_def)
  have len: "length beat_example = 26" by (simp add: beat_example_def)
  have w: "waits (take 10 beat_example)" using len by (simp add: waits_def pkt_len_def)
  then have "chunks_fit [] [take 10 beat_example, drop 10 beat_example @ [0, 0]]"
    using len by (simp add: XY_MAXBUFF_LEN_def rest_stop)
  moreover have j: "[] @ concat [take 10 beat_example, drop 10 beat_example @ [0, 0]] = beat_example @ [0, 0]"
    by (metis append.assoc append_Nil append_take_drop_id append_Nil2 concat.simps)
  moreover have "stream_wf (beat_example @ [0, 0])" by (simp add: stream_wf_def beat_split pkt_len_def)
  moreover have "no_zero (beat_example @ [0, 0])"
  proof -
    have "pkt_len (beat_example @ [0, 0]) = 26" by (simp add: beat_example_def pkt_len_def BusHeader_new_def)
    then have "kept (beat_example @ [0, 0]) = kept [0, 0]"
      using len by (subst rest_step) (simp_all add: waits_def XY_PKG_MAX_LEN_def)
    also have "\<dots> = [0, 0]" by (rule rest_stop) (simp add: waits_def pkt_len_def)
    finally show ?thesis by (simp add: no_zero_def pkt_len_def)
  qed
  moreover have "\<forall>p\<in>set (fst (split_pkgs (beat_example @ [0, 0]))). length p \<le> XY_PKG_MAX_LEN"
    using len by (simp add: beat_split XY_PKG_MAX_LEN_def)
  ultimately have "\<exists>s'. process_pkgs pb_example bus_example (fst (split_pkgs (beat_example @ [0, 0]))) = Some s'
      \<and> feed_all pb_example 300001 bus_example [take 10 beat_example, drop 10 beat_example @ [0, 0]]
        = Some (set_remain 300001 (snd (split_pkgs (beat_example @ [0, 0]))) s')"
    using framing_chunk_independent [OF c(1,2), of "[take 10 beat_example, drop 10 beat_example @ [0, 0]]" pb_example]
    unfolding c(3) j by auto
  then show ?thesis by (simp only: beat_split fst_conv snd_conv)
qed

end
