(* ===== verification/BusConn.thy ===== *)
theory BusConn
  imports BusRoute
begin

text \<open>
  The connection table of the bus: the search for a free position ends and finds a fresh one, and
  the table of clusters stays consistent with the table of connections over the whole event loop:
  a cluster that is marked connected has a live connection with the same socket. The one exception
  is the last position of the cluster range, which \<open>ReleaseConn\<close> does not recognise.
\<close>

section \<open>Free positions\<close>

lemma u32_bound: "unat (q :: u32) < 2 ^ 32"
  using unsigned_less [of q, where ?'a = nat] by simp

lemma unat_Suc: "unat (p + 1) = Suc (unat p)" if "unat p < unat q" for p q :: u32
proof -
  have "unat q < 2 ^ 32" using u32_bound [of q] by simp
  with that show ?thesis by (intro trans [OF unat_add]) simp_all
qed

lemma unat_Suc_case: "unat (p + 1) = Suc (unat p) \<or> unat (p + 1) = 0" for p :: u32
proof (cases "unat p + 1 < 2 ^ 32")
  case True
  then show ?thesis by (subst unat_add) simp_all
next
  case False
  then have "unat p = 4294967295" using u32_bound [of p] by simp
  then show ?thesis by (simp add: unat_word_ariths)
qed

text \<open>Going up, the search finds the first free position.\<close>

lemma free_pos_up:
  assumes "mfind m p = None" "unat pos \<le> unat p" "unat p \<le> unat hi" "unat lo \<le> unat pos"
  shows "\<exists>q. free_pos m lo hi pos = Some q \<and> mfind m q = None \<and> unat pos \<le> unat q \<and> unat q \<le> unat p"
  using assms(2,4)
proof (induction "unat p - unat pos" arbitrary: pos)
  case 0
  then have "pos = p" by (simp add: word_unat_eq_iff)
  with assms(1) show ?case by (subst free_pos.simps) simp
next
  case (Suc k)
  show ?case
  proof (cases "mfind m pos")
    case None
    with Suc.prems show ?thesis by (subst free_pos.simps) simp
  next
    case (Some c)
    with assms(1) have "pos \<noteq> p" by auto
    with Suc.prems have lt: "unat pos < unat p" by (simp add: word_unat_eq_iff)
    note u = unat_Suc [OF lt]
    have "\<not> (pos + 1 < lo \<or> pos + 1 > hi)" using u lt Suc.prems assms(3) by (simp add: u32_order)
    then have "free_pos m lo hi pos = free_pos m lo hi (pos + 1)"
      using Some by (subst free_pos.simps) simp
    moreover have "k = unat p - unat (pos + 1)" using Suc.hyps(2) u by simp
    then have "\<exists>q. free_pos m lo hi (pos + 1) = Some q \<and> mfind m q = None
        \<and> unat (pos + 1) \<le> unat q \<and> unat q \<le> unat p"
      using Suc.hyps(1) [of "pos + 1"] Suc.prems u lt by simp
    ultimately show ?thesis using u by auto
  qed
qed

text \<open>If everything above is taken it starts again at the bottom.\<close>

lemma free_pos_wrap:
  assumes "\<And>p. unat pos \<le> unat p \<Longrightarrow> unat p \<le> unat hi \<Longrightarrow> mfind m p \<noteq> None"
    and "unat pos \<le> unat hi" "unat lo \<le> unat pos" "0 < unat lo"
  shows "free_pos m lo hi pos = free_pos m lo hi (lo + 1)"
  using assms(1-3)
proof (induction "unat hi - unat pos" arbitrary: pos)
  case 0
  then have h: "pos = hi" by (simp add: word_unat_eq_iff)
  then have "mfind m hi \<noteq> None" using "0.prems"(1) [of hi] by simp
  moreover have "hi + 1 < lo \<or> hi + 1 > hi"
    using unat_Suc_case [of hi] assms(4) by (auto simp: u32_order)
  ultimately show ?case using h by (subst free_pos.simps) auto
next
  case (Suc k)
  then have lt: "unat pos < unat hi" by simp
  note u = unat_Suc [OF lt]
  have "mfind m pos \<noteq> None" using Suc.prems by simp
  moreover have "\<not> (pos + 1 < lo \<or> pos + 1 > hi)" using u lt Suc.prems by (simp add: u32_order)
  ultimately have "free_pos m lo hi pos = free_pos m lo hi (pos + 1)" by (subst free_pos.simps) auto
  also have "\<dots> = free_pos m lo hi (lo + 1)"
    using Suc.hyps(2) Suc.prems u lt by (intro Suc.hyps(1)) simp_all
  finally show ?case .
qed

lemma free_pos_finds:
  assumes p: "mfind m p = None" "unat lo < unat p" "unat p \<le> unat hi"
    and pos: "unat lo \<le> unat pos" "unat pos \<le> unat hi" "0 < unat lo"
  shows "\<exists>q. free_pos m lo hi pos = Some q \<and> mfind m q = None \<and> unat lo \<le> unat q \<and> unat q \<le> unat hi
    \<and> (unat lo < unat pos \<longrightarrow> unat lo < unat q)"
proof (cases "\<exists>p'. unat pos \<le> unat p' \<and> unat p' \<le> unat hi \<and> mfind m p' = None")
  case True
  then obtain p' where "mfind m p' = None" "unat pos \<le> unat p'" "unat p' \<le> unat hi" by blast
  from free_pos_up [OF this pos(1)] this(3) pos(1) show ?thesis by auto
next
  case False
  then have w: "free_pos m lo hi pos = free_pos m lo hi (lo + 1)"
    using pos by (intro free_pos_wrap) auto
  have u: "unat (lo + 1) = Suc (unat lo)" by (rule unat_Suc [OF p(2)])
  from free_pos_up [OF p(1) _ p(3), of "lo + 1" lo] p(2) u obtain q where
    "free_pos m lo hi (lo + 1) = Some q" "mfind m q = None" "Suc (unat lo) \<le> unat q" "unat q \<le> unat p" by auto
  with w p(3) show ?thesis by auto
qed

lemma free_exists:
  fixes m :: "'c smap" and lo hi :: u32
  assumes "length m < unat hi - unat lo"
  shows "\<exists>p. mfind m p = None \<and> unat lo < unat p \<and> unat p \<le> unat hi"
proof (rule ccontr)
  assume all: "\<nexists>p. mfind m p = None \<and> unat lo < unat p \<and> unat p \<le> unat hi"
  then have "{Suc (unat lo)..unat hi} \<subseteq> unat ` set (mkeys m)"
  proof -
    have "n \<in> unat ` set (mkeys m)" if n: "n \<in> {Suc (unat lo)..unat hi}" for n
    proof -
      have "n < 2 ^ 32" using n u32_bound [of hi] by auto
      then have "unat (of_nat n :: u32) = n" by (rule unat_u32_of_nat)
      moreover from this n have "unat lo < unat (of_nat n :: u32)" "unat (of_nat n :: u32) \<le> unat hi" by auto
      then have "mfind m (of_nat n) \<noteq> None" using all by metis
      ultimately show ?thesis by (metis image_eqI mfind_None)
    qed
    then show ?thesis by blast
  qed
  then have "card {Suc (unat lo)..unat hi} \<le> card (unat ` set (mkeys m))" by (intro card_mono) simp_all
  also have "\<dots> \<le> length m"
    by (metis card_image_le card_length finite_set le_trans length_map mkeys_def)
  finally show False using assms by simp
qed

lemma free_pos_next:
  fixes lo hi pos :: u32
  assumes "0 < lo" "lo < hi" "lo \<le> pos"
  shows "(if pos + 1 < lo \<or> pos + 1 > hi then lo + 1 else pos + 1) \<in> {lo<..hi}"
proof -
  have "unat (lo + 1) = Suc (unat lo)" using assms(2) by (intro unat_Suc) (simp add: u32_order)
  moreover have "unat (pos + 1) = Suc (unat pos) \<or> unat (pos + 1) = 0"
    by (metis unat_Suc_case)
  ultimately show ?thesis using assms by (auto simp: u32_order)
qed

lemma free_pos_sound:
  fixes m :: "'a smap"
  assumes "free_pos m lo hi pos = Some q"
  shows "mfind m q = None \<and> (0 < lo \<longrightarrow> lo < hi \<longrightarrow> pos \<in> {lo..hi} \<longrightarrow> q = pos \<or> q \<in> {lo<..hi})"
proof (rule free_pos.raw_induct [OF _ assms])
  fix free :: "'a smap \<Rightarrow> u32 \<Rightarrow> u32 \<Rightarrow> u32 \<Rightarrow> u32 option"
    and m :: "'a smap" and lo hi pos q :: u32
  let ?p = "if pos + 1 < lo \<or> pos + 1 > hi then lo + 1 else pos + 1"
  assume IH: "\<And>m lo hi pos q. free m lo hi pos = Some q \<Longrightarrow>
      mfind m q = None \<and> (0 < lo \<longrightarrow> lo < hi \<longrightarrow> pos \<in> {lo..hi} \<longrightarrow> q = pos \<or> q \<in> {lo<..hi})"
    and body: "(if mfind m pos = None then Some pos else free m lo hi ?p) = Some q"
  show "mfind m q = None \<and> (0 < lo \<longrightarrow> lo < hi \<longrightarrow> pos \<in> {lo..hi} \<longrightarrow> q = pos \<or> q \<in> {lo<..hi})"
  proof (cases "mfind m pos = None")
    case False
    then have "free m lo hi ?p = Some q" using body by (simp only: if_False)
    from IH [OF this] free_pos_next [of lo hi pos] show ?thesis
      by (metis atLeastAtMost_iff greaterThanAtMost_iff order_less_imp_le)
  qed (use body in simp)
qed

section \<open>Clusters and connections\<close>

definition cluster_pos :: "u32 \<Rightarrow> bool" where
  "cluster_pos p \<longleftrightarrow> CLUSTER_SOCK_CPOS_MIN < p \<and> p \<le> CLUSTER_SOCK_CPOS_MAX"

lemma cluster_pos_nz: "cluster_pos p \<Longrightarrow> p \<noteq> 0"
  by (auto simp: cluster_pos_def cpos_defs)

text \<open>
  An entry of the cluster table is either disconnected or names a position of the cluster range;
  unless that is the last one, the position is in use by a connection with the socket of the entry.
\<close>

definition link_ok :: "u32 \<Rightarrow> conninfo smap \<Rightarrow> u32 \<Rightarrow> ClusterInfo \<Rightarrow> bool" where
  "link_ok me m k info \<longleftrightarrow> ci_ClusterID info = k \<and>
     (ci_ConnPos info = 0 \<and> SocketID info = -1 \<or>
      k \<noteq> me \<and> cluster_pos (ci_ConnPos info) \<and>
      (ci_ConnPos info < CLUSTER_SOCK_CPOS_MAX \<longrightarrow>
         (\<exists>c. mfind m (ci_ConnPos info) = Some c \<and> m_SockID c = SocketID info)))"

definition links :: "u32 \<Rightarrow> conninfo smap \<Rightarrow> ClusterInfo smap \<Rightarrow> bool" where
  "links me m cl \<longleftrightarrow> smap_ok m \<and> smap_ok cl
     \<and> (\<forall>k info. mfind cl k = Some info \<longrightarrow> link_ok me m k info)
     \<and> (\<forall>k k' info info'. mfind cl k = Some info \<longrightarrow> mfind cl k' = Some info' \<longrightarrow>
          ci_ConnPos info = ci_ConnPos info' \<longrightarrow> ci_ConnPos info \<noteq> 0 \<longrightarrow>
          ci_ConnPos info < CLUSTER_SOCK_CPOS_MAX \<longrightarrow> k = k')"

lemma linksD:
  assumes "links me m cl"
  shows "smap_ok m" "smap_ok cl" "mfind cl k = Some info \<Longrightarrow> link_ok me m k info"
    and "mfind cl k = Some info \<Longrightarrow> mfind cl k' = Some info' \<Longrightarrow> ci_ConnPos info = ci_ConnPos info' \<Longrightarrow>
      ci_ConnPos info \<noteq> 0 \<Longrightarrow> ci_ConnPos info < CLUSTER_SOCK_CPOS_MAX \<Longrightarrow> k = k'"
  using assms unfolding links_def by blast+

text \<open>Whatever keeps the sockets of the cluster connections keeps the links.\<close>

lemma links_mono:
  assumes "links me m cl" "smap_ok m'"
    and "\<And>k info c. mfind cl k = Some info \<Longrightarrow> ci_ConnPos info \<noteq> 0 \<Longrightarrow> ci_ConnPos info < CLUSTER_SOCK_CPOS_MAX \<Longrightarrow>
      mfind m (ci_ConnPos info) = Some c \<Longrightarrow> \<exists>c'. mfind m' (ci_ConnPos info) = Some c' \<and> m_SockID c' = m_SockID c"
  shows "links me m' cl"
proof -
  have "link_ok me m' k info" if "mfind cl k = Some info" for k info
    using linksD(3) [OF assms(1) that] assms(3) [OF that] unfolding link_ok_def
    by (metis cluster_pos_nz)
  with assms(1,2) show ?thesis unfolding links_def by blast
qed

lemma links_conn_update:
  assumes "links me m cl" "mfind m p = Some c" "m_SockID c' = m_SockID c"
  shows "links me (mupdate p c' m) cl"
  using assms by (intro links_mono [OF assms(1)]) (auto dest: linksD(1))

lemma links_insert: "links me m cl \<Longrightarrow> mfind m p = None \<Longrightarrow> links me (minsert p c m) cl"
  by (rule links_mono) (auto simp: mfind_minsert linksD(1) intro: smap_ok_minsert linksD(1))

lemma links_erase:
  assumes "links me m cl" "\<And>k info. mfind cl k = Some info \<Longrightarrow> ci_ConnPos info = p \<Longrightarrow> p \<noteq> 0 \<Longrightarrow> \<not> p < CLUSTER_SOCK_CPOS_MAX"
  shows "links me (merase p m) cl"
  using assms(2) by (intro links_mono [OF assms(1)]) (auto simp: smap_ok_merase linksD(1) [OF assms(1)])

lemma links_drop:
  assumes L: "links me m cl" and k: "mfind cl k = Some info"
  shows "links me (merase (ci_ConnPos info) m) (mupdate k (info\<lparr>SocketID := -1, ci_ConnPos := 0\<rparr>) cl)"
proof -
  let ?cl = "mupdate k (info\<lparr>SocketID := -1, ci_ConnPos := 0\<rparr>) cl"
  have "links me m ?cl"
    using L k linksD(3) [OF L k] unfolding links_def by (auto simp: link_ok_def split: if_splits)
  then show ?thesis
    using linksD(4) [OF L k] by (intro links_erase) (auto split: if_splits)
qed

lemma links_connect:
  assumes L: "links me m cl" and k: "mfind cl k = Some info" "k \<noteq> me"
    and q: "mfind m q = None" "cluster_pos q" and c: "m_SockID c = sock"
  shows "links me (minsert q c m) (mupdate k (info\<lparr>SocketID := sock, ci_ConnPos := q\<rparr>) cl)"
proof -
  note L1 = links_insert [OF L q(1), of c]
  have free: "ci_ConnPos info' \<noteq> q" if "mfind cl k' = Some info'" "q < CLUSTER_SOCK_CPOS_MAX" for k' info'
    using linksD(3) [OF L that(1)] that(2) q by (auto simp: link_ok_def cluster_pos_def)
  have "mfind (minsert q c m) q = Some c" using q(1) linksD(1) [OF L] by (simp add: mfind_minsert)
  with q(2) c k linksD(3) [OF L k(1)]
  have "link_ok me (minsert q c m) k (info\<lparr>SocketID := sock, ci_ConnPos := q\<rparr>)" by (simp add: link_ok_def)
  with L1 k free show ?thesis unfolding links_def by (auto split: if_splits)
qed

section \<open>Connections\<close>

text \<open>A connection knows its position, and neither buffer outgrows the limit.\<close>

definition conn_ok :: "u32 \<Rightarrow> 'a conninfo_scheme \<Rightarrow> bool" where
  "conn_ok p c \<longleftrightarrow> m_ConnPos c = p \<and> length (m_RemainSendData c) \<le> XY_MAXBUFF_LEN
     \<and> length (m_RemainRecvData c) \<le> XY_MAXBUFF_LEN"

definition conn_keeps :: "'a conninfo_scheme \<Rightarrow> 'a conninfo_scheme \<Rightarrow> bool" where
  "conn_keeps c c' \<longleftrightarrow> m_SockID c' = m_SockID c \<and> (\<forall>p. conn_ok p c \<longrightarrow> conn_ok p c')"

lemma Send_keeps: "Send c bs w = (r, c', w') \<Longrightarrow> m_ConnPos c' = m_ConnPos c \<and> m_RemainRecvData c' = m_RemainRecvData c"
  by (auto simp: Send_def Send_new_def Let_def split: if_splits prod.splits)

lemma AddSendData_keeps: "AddSendData c bs = (r, c') \<Longrightarrow> m_ConnPos c' = m_ConnPos c \<and> m_RemainRecvData c' = m_RemainRecvData c"
  by (auto simp: AddSendData_def split: if_splits)

lemma send_or_store_keeps:
  assumes "send_or_store c bs w = (r, st, c', w')"
  shows "conn_keeps c c'"
proof -
  have "m_ConnPos c' = m_ConnPos c \<and> m_RemainRecvData c' = m_RemainRecvData c"
    using assms by (auto simp: send_or_store_def dest!: Send_keeps AddSendData_keeps split: prod.splits if_splits)
  with send_or_store_stream [OF assms] show ?thesis by (simp add: conn_keeps_def conn_ok_def)
qed

lemma SendRemainData_keeps:
  assumes "SendRemainData c w = (r, c', w')"
  shows "conn_keeps c c'"
proof -
  have "m_ConnPos c' = m_ConnPos c \<and> m_RemainRecvData c' = m_RemainRecvData c"
    using assms by (auto simp: SendRemainData_def Let_def split: prod.splits if_splits)
  with SendRemainData_stream [OF assms] show ?thesis by (auto simp: conn_keeps_def conn_ok_def)
qed

lemma AddRecvData_keeps: "AddRecvData c bs = (r, c') \<Longrightarrow> conn_keeps c c'"
  by (auto simp: AddRecvData_def conn_keeps_def conn_ok_def split: if_splits)

text \<open>\<open>Recv\<close> stays within the buffer it is given.\<close>

lemma sys_read_length: "sys_read fd n w = (r, bs, w') \<Longrightarrow> length bs \<le> n"
  by (auto simp: sys_read_def Let_def split: if_splits)

lemma Recv_keeps:
  assumes "Recv c (of_nat XY_MAXBUFF_LEN) w = (r, bs, c', w')"
  shows "conn_keeps c c'" "length bs \<le> XY_MAXBUFF_LEN"
proof -
  show "conn_keeps c c'"
    using assms by (auto simp: Recv_def Let_def conn_keeps_def conn_ok_def split: prod.splits if_splits)
  let ?rem = "m_RemainRecvData c"
  show "length bs \<le> XY_MAXBUFF_LEN"
  proof (cases "length ?rem > XY_MAXBUFF_LEN")
    case True
    then have "?rem \<noteq> []" by auto
    with True assms show ?thesis by (simp add: Recv_def)
  next
    case False
    define n where "n = unat (if ?rem \<noteq> [] then of_nat XY_MAXBUFF_LEN - of_nat (length ?rem) else of_nat XY_MAXBUFF_LEN :: u32)"
    obtain r1 bs1 w1 where R: "sys_read (m_SockID c) n w = (r1, bs1, w1)" by (cases "sys_read (m_SockID c) n w") auto
    have u: "unat (of_nat (length ?rem) :: u32) = length ?rem" "unat (of_nat XY_MAXBUFF_LEN :: u32) = XY_MAXBUFF_LEN"
      using False by (simp_all add: XY_MAXBUFF_LEN_def unat_u32_of_nat)
    then have "n = XY_MAXBUFF_LEN - length ?rem" using False by (simp add: n_def unat_sub u32_order)
    with False sys_read_length [OF R] have "length (?rem @ bs1) \<le> XY_MAXBUFF_LEN" by simp
    moreover have "bs = [] \<or> bs = ?rem \<or> bs = ?rem @ bs1"
      using assms False R unfolding n_def by (auto simp: Recv_def Let_def split: prod.splits if_splits)
    ultimately show ?thesis by auto
  qed
qed

section \<open>The invariant\<close>

definition conns_ok :: "conninfo smap \<Rightarrow> bool" where
  "conns_ok m \<longleftrightarrow> (\<forall>p c. mfind m p = Some c \<longrightarrow> conn_ok p c)"

definition link_inv :: "bus \<Rightarrow> bool" where
  "link_inv s \<longleftrightarrow> links (m_ClusterID s) (m_PosConnMap s) (m_mapClusterInfo s) \<and> conns_ok (m_PosConnMap s)
     \<and> (m_ClusterPosCnt s = 0 \<or> cluster_pos (m_ClusterPosCnt s))"

definition listen_pos :: "u32 \<Rightarrow> bool" where
  "listen_pos p \<longleftrightarrow> LISTEN_SOCK_CPOS_MIN \<le> p \<and> p \<le> LISTEN_UDP_CPOS_MAX"

text \<open>
  What every step of the bus does to the two tables: it keeps the invariant, and the listening
  sockets stay where they are.
\<close>

definition listeners :: "conninfo smap \<Rightarrow> conninfo smap \<Rightarrow> bool" where
  "listeners m m' \<longleftrightarrow>
     (\<forall>p. listen_pos p \<longrightarrow> map_option m_SockID (mfind m' p) = map_option m_SockID (mfind m p))"

definition linked :: "bus \<Rightarrow> bus \<Rightarrow> bool" where
  "linked s s' \<longleftrightarrow> m_ClusterID s' = m_ClusterID s
     \<and> (link_inv s \<longrightarrow> link_inv s' \<and> listeners (m_PosConnMap s) (m_PosConnMap s'))"

lemma listeners_refl [simp]: "listeners m m"
  by (simp add: listeners_def)

lemma linked_refl [simp, intro]: "linked s s"
  by (simp add: linked_def)

lemma linked_trans: "linked s s' \<Longrightarrow> linked s' s'' \<Longrightarrow> linked s s''"
  by (auto simp: linked_def listeners_def)

lemma linkedI:
  assumes "m_ClusterID s' = m_ClusterID s"
    and "link_inv s \<Longrightarrow> links (m_ClusterID s) (m_PosConnMap s') (m_mapClusterInfo s')"
    and "link_inv s \<Longrightarrow> conns_ok (m_PosConnMap s')"
    and "link_inv s \<Longrightarrow> m_ClusterPosCnt s' = 0 \<or> cluster_pos (m_ClusterPosCnt s')"
    and "link_inv s \<Longrightarrow> listeners (m_PosConnMap s) (m_PosConnMap s')"
  shows "linked s s'"
  using assms unfolding linked_def by (auto simp: link_inv_def)

lemma link_invD:
  assumes "link_inv s"
  shows "links (m_ClusterID s) (m_PosConnMap s) (m_mapClusterInfo s)" "conns_ok (m_PosConnMap s)"
    "m_ClusterPosCnt s = 0 \<or> cluster_pos (m_ClusterPosCnt s)"
  using assms by (simp_all add: link_inv_def)

lemma linked_frame:
  assumes "m_ClusterID s' = m_ClusterID s" "m_PosConnMap s' = m_PosConnMap s"
    and "m_mapClusterInfo s' = m_mapClusterInfo s" "m_ClusterPosCnt s' = m_ClusterPosCnt s"
  shows "linked s s'"
  by (rule linkedI) (simp_all add: assms link_invD)

lemma linked_os [simp]: "linked s (s\<lparr>b_os := w\<rparr>)"
  by (rule linked_frame) simp_all

lemma conns_ok_erase: "conns_ok m \<Longrightarrow> conns_ok (merase p m)"
  by (simp add: conns_ok_def)

lemma conns_ok_insert: "conns_ok m \<Longrightarrow> smap_ok m \<Longrightarrow> conn_ok p c \<Longrightarrow> conns_ok (minsert p c m)"
  by (simp add: conns_ok_def mfind_minsert)

lemma listeners_erase: "\<not> listen_pos p \<Longrightarrow> listeners m (merase p m)"
  by (auto simp: listeners_def)

lemma listeners_insert: "smap_ok m \<Longrightarrow> \<not> listen_pos p \<Longrightarrow> listeners m (minsert p c m)"
  by (auto simp: listeners_def mfind_minsert)

lemma not_listen: "p = 0 \<or> cluster_pos p \<Longrightarrow> \<not> listen_pos p"
  by (auto simp: listen_pos_def cluster_pos_def cpos_defs u32_order)

lemma link_pos: "link_ok me m k info \<Longrightarrow> ci_ConnPos info = 0 \<or> cluster_pos (ci_ConnPos info)"
  by (auto simp: link_ok_def)

text \<open>A connection is changed in place.\<close>

lemma linked_conn:
  assumes "mfind (m_PosConnMap s) p = Some c" "conn_keeps c c'"
  shows "linked s (s\<lparr>b_os := w, m_PosConnMap := mupdate p c' (m_PosConnMap s)\<rparr>)"
  using assms
  by (intro linkedI) (auto simp: conn_keeps_def conns_ok_def listeners_def intro: links_conn_update dest: link_invD)

lemma DisconnetCluster_linked: "linked s (snd (DisconnetCluster s k))"
proof (cases "mfind (m_mapClusterInfo s) k")
  case (Some info)
  let ?p = "ci_ConnPos info"
  let ?w = "os_call (EvClose (SocketID info)) (os_call (EvEpoll CtlDel (SocketID info) False 0) (b_os s))"
  let ?s = "s\<lparr>b_os := ?w, m_PosConnMap := merase ?p (m_PosConnMap s),
    m_mapClusterInfo := mupdate k (info\<lparr>SocketID := -1, ci_ConnPos := 0\<rparr>) (m_mapClusterInfo s)\<rparr>"
  have "linked s ?s"
  proof (rule linkedI)
    assume I: "link_inv s"
    from links_drop [OF link_invD(1) [OF I] Some]
    show "links (m_ClusterID s) (m_PosConnMap ?s) (m_mapClusterInfo ?s)" by simp
    show "listeners (m_PosConnMap s) (m_PosConnMap ?s)"
      using linksD(3) [OF link_invD(1) [OF I] Some] by (simp add: listeners_erase not_listen link_pos)
  qed (simp_all add: link_invD conns_ok_erase)
  then show ?thesis using Some by (simp add: DisconnetCluster_def bcall0_eq Let_def)
qed (simp add: DisconnetCluster_def)

text \<open>
  Releasing a connection also disconnects the cluster it belongs to, whose position is then erased
  a second time.
\<close>

lemma find_cluster_pos:
  "find_cluster_pos cl p = Some info \<Longrightarrow> ci_ConnPos info = p \<and> (\<exists>k. (k, info) \<in> set cl)"
  "find_cluster_pos cl p = None \<Longrightarrow> (k, info) \<in> set cl \<Longrightarrow> ci_ConnPos info \<noteq> p"
  by (induction cl p rule: find_cluster_pos.induct) (auto split: if_splits)

lemma mfind_mem: "mfind m k = Some v \<Longrightarrow> (k, v) \<in> set m"
  by (simp add: mfind_def map_of_SomeD)

lemma mem_mfind: "smap_ok m \<Longrightarrow> (k, v) \<in> set m \<Longrightarrow> mfind m k = Some v"
  unfolding mfind_def smap_ok_def mkeys_def by (intro map_of_is_SomeI) (auto simp: strict_sorted_iff)

lemma merase_twice [simp]: "merase p (merase p m) = merase p m"
  by (simp add: merase_def)

lemma ReleaseConn_drops:
  assumes I: "link_inv s" and pos: "find_cluster_pos (m_mapClusterInfo s) p = Some info" "p \<noteq> 0"
    and s1: "m_ClusterID s1 = m_ClusterID s" "m_mapClusterInfo s1 = m_mapClusterInfo s"
      "m_PosConnMap s1 = merase p (m_PosConnMap s)"
  shows "\<exists>k. mfind (m_mapClusterInfo s) k = Some info \<and> ci_ConnPos info = p
    \<and> m_PosConnMap (snd (DisconnetCluster s1 (ci_ClusterID info))) = merase p (m_PosConnMap s)
    \<and> m_mapClusterInfo (snd (DisconnetCluster s1 (ci_ClusterID info)))
        = mupdate k (info\<lparr>SocketID := -1, ci_ConnPos := 0\<rparr>) (m_mapClusterInfo s)"
proof -
  note L = link_invD(1) [OF I]
  from find_cluster_pos(1) [OF pos(1)] obtain k where k: "ci_ConnPos info = p" "(k, info) \<in> set (m_mapClusterInfo s)"
    by blast
  from mem_mfind [OF linksD(2) [OF L] k(2)] have m: "mfind (m_mapClusterInfo s) k = Some info" .
  from linksD(3) [OF L m] k(1) pos(2) have "ci_ClusterID info = k" "k \<noteq> m_ClusterID s" by (auto simp: link_ok_def)
  with m k(1) pos(2) show ?thesis
    by (intro exI [of _ k]) (simp add: DisconnetCluster_def bcall0_eq Let_def s1)
qed

lemma ReleaseConn_linked:
  assumes "\<not> listen_pos p"
  shows "linked s (ReleaseConn s p c)"
proof -
  define s1 where "s1 = s\<lparr>b_os := os_call (EvClose (m_SockID c)) (os_call (EvEpoll CtlDel (m_SockID c) False 0) (b_os s)),
    m_PosConnMap := merase p (m_PosConnMap s)\<rparr>"
  have f [simp]: "m_ClusterID s1 = m_ClusterID s" "m_mapClusterInfo s1 = m_mapClusterInfo s"
    "m_PosConnMap s1 = merase p (m_PosConnMap s)" "m_ClusterPosCnt s1 = m_ClusterPosCnt s"
    by (simp_all add: s1_def)
  let ?mid = "p > CLUSTER_SOCK_CPOS_MIN \<and> p < CLUSTER_SOCK_CPOS_MAX"
  have R: "ReleaseConn s p c = (if ?mid then case find_cluster_pos (m_mapClusterInfo s) p of
      Some info \<Rightarrow> snd (DisconnetCluster s1 (ci_ClusterID info)) | None \<Rightarrow> s1 else s1)"
    by (simp add: ReleaseConn_def bcall0_eq s1_def Let_def split: option.split)
  consider (drop) info where ?mid "find_cluster_pos (m_mapClusterInfo s) p = Some info"
    | (free) "?mid \<longrightarrow> find_cluster_pos (m_mapClusterInfo s) p = None" by fastforce
  then show ?thesis
  proof cases
    case free
    have "linked s s1"
    proof (rule linkedI)
      assume I: "link_inv s"
      have "\<not> ?mid" if "mfind (m_mapClusterInfo s) k = Some info" "ci_ConnPos info = p" for k info
        using free find_cluster_pos(2) [of "m_mapClusterInfo s" p k info] mfind_mem [OF that(1)] that(2) by blast
      then show "links (m_ClusterID s) (m_PosConnMap s1) (m_mapClusterInfo s1)"
        using link_pos [OF linksD(3) [OF link_invD(1) [OF I]]]
        by (auto simp: cluster_pos_def intro!: links_erase link_invD I)
    qed (simp_all add: link_invD conns_ok_erase listeners_erase assms)
    with free show ?thesis by (auto simp: R)
  next
    case drop
    have nz: "p \<noteq> 0" using drop(1) by auto
    have "linked s (snd (DisconnetCluster s1 (ci_ClusterID info)))" (is "linked s ?r")
    proof (rule linkedI)
      show "m_ClusterID ?r = m_ClusterID s" using DisconnetCluster_linked [of s1] by (simp add: linked_def)
      have cnt: "m_ClusterPosCnt ?r = m_ClusterPosCnt s"
        by (auto simp: DisconnetCluster_def bcall0_eq Let_def split: option.split)
      assume I: "link_inv s"
      from ReleaseConn_drops [OF I drop(2) nz f(1-3)] obtain k where
        k: "mfind (m_mapClusterInfo s) k = Some info" "ci_ConnPos info = p" "m_PosConnMap ?r = merase p (m_PosConnMap s)"
          "m_mapClusterInfo ?r = mupdate k (info\<lparr>SocketID := -1, ci_ConnPos := 0\<rparr>) (m_mapClusterInfo s)" by blast
      show "links (m_ClusterID s) (m_PosConnMap ?r) (m_mapClusterInfo ?r)"
        using links_drop [OF link_invD(1) [OF I] k(1)] k(2-4) by simp
      show "conns_ok (m_PosConnMap ?r)" "listeners (m_PosConnMap s) (m_PosConnMap ?r)"
        "m_ClusterPosCnt ?r = 0 \<or> cluster_pos (m_ClusterPosCnt ?r)"
        using link_invD [OF I] cnt by (simp_all add: k(3) conns_ok_erase listeners_erase assms)
    qed
    with drop show ?thesis by (simp add: R)
  qed
qed

text \<open>Sending to a cluster of the table.\<close>

lemma Send2Cluster_linked:
  assumes "mfind (m_mapClusterInfo s) k = Some info"
  shows "linked s (snd (Send2Cluster s info bs))"
proof (cases "mfind (m_PosConnMap s) (ci_ConnPos info)")
  case None
  then show ?thesis by (simp add: Send2Cluster_def Let_def)
next
  case (Some c)
  let ?p = "ci_ConnPos info"
  obtain r bl c' w where S: "send_or_store c bs (b_os s) = (r, bl, c', w)"
    by (cases "send_or_store c bs (b_os s)") auto
  let ?s = "s\<lparr>b_os := w, m_PosConnMap := mupdate ?p c' (m_PosConnMap s)\<rparr>"
  have l: "linked s ?s" by (rule linked_conn [OF Some send_or_store_keeps [OF S]])
  then have "linked s (bcall0 ev ?s)" for ev
    by (rule linked_trans) (simp add: bcall0_eq linked_frame)
  moreover have "linked s (ReleaseConn ?s ?p c')"
  proof (cases "link_inv s")
    case True
    from link_pos [OF linksD(3) [OF link_invD(1) [OF True] assms]] have "\<not> listen_pos ?p" by (rule not_listen)
    from linked_trans [OF l ReleaseConn_linked [OF this]] show ?thesis .
  next
    case False
    moreover have "m_ClusterID (ReleaseConn ?s ?p c') = m_ClusterID s"
      using ReleaseConn_servers [of ?s ?p c'] by (simp add: same_servers_def)
    ultimately show ?thesis by (simp add: linked_def)
  qed
  ultimately show ?thesis using l by (simp add: Send2Cluster_def Let_def Some S)
qed

lemma Send2ClusterByMsg_linked:
  "mfind (m_mapClusterInfo s) k = Some info \<Longrightarrow> linked s (snd (Send2ClusterByMsg s info cmd body))"
  by (simp add: Send2ClusterByMsg_def Let_def Send2Cluster_linked)

lemma heartbeat_loop_linked: "linked s (heartbeat_loop P s ks)"
  by (induction P s ks rule: heartbeat_loop.induct)
    (auto split: option.split intro: linked_trans [OF Send2ClusterByMsg_linked])

lemma hello_loop_linked: "linked s (hello_loop P s infos)"
proof (induction infos arbitrary: s)
  case (Cons info infos)
  have "linked s (hello_loop P (s\<lparr>b_os := w\<rparr>) infos)" for w
    by (rule linked_trans [OF linked_os Cons.IH])
  with Cons.IH [of s] show ?case by (simp add: Let_def bcall_eq bcall0_eq)
qed simp

lemma notify_clusters_linked: "linked s (snd (notify_clusters s buf ks))"
proof (induction s buf ks rule: notify_clusters.induct)
  case (2 s buf k ks)
  show ?case
  proof (cases "mfind (m_mapClusterInfo s) k")
    case (Some info)
    obtain r s1 where S: "Send2Cluster s info buf = (r, s1)" by force
    with Send2Cluster_linked [OF Some, of buf] have "linked s s1" by simp
    with 2 Some S show ?thesis by (auto intro: linked_trans)
  qed (use 2 in simp)
qed simp

lemma forward_one_linked: "linked s (snd (forward_one s d buf n))"
proof (cases "mfind (m_mapSvrInfo s) d")
  case (Some Info)
  have q: "linked s (s\<lparr>b_os := w, m_mapSvrInfo := m\<rparr>)" for w m by (rule linked_frame) simp_all
  show ?thesis
    by (auto simp: forward_one_def Some bus_InQueue_eq Let_def q case_prod_unfold intro: Send2Cluster_linked split: option.split)
qed (simp add: forward_one_def)

lemma forward_loop_linked: "linked s (snd (forward_loop s h buf n ds))"
proof (induction ds arbitrary: s h buf)
  case (Cons d ds)
  define H where "H = h\<lparr>bh_DstID := d, bh_SendType := TO_SRV\<rparr>"
  obtain h1 s1 where hs: "(if bh_PkgTime H = 0 then let (t, s) = bcall EvOther s in (H\<lparr>bh_PkgTime := word_of_int t\<rparr>, s)
      else (H, s)) = (h1, s1)" by force
  then have "linked s s1" by (auto simp: bcall_eq split: if_splits)
  moreover obtain r s2 where F: "forward_one s1 d (fst (BusHeader_Write h1 buf 0)) n = (r, s2)" by force
  ultimately have l: "linked s s2" using forward_one_linked [of s1 d "fst (BusHeader_Write h1 buf 0)" n] by (auto intro: linked_trans)
  have "forward_loop s h buf n (d # ds) = (if r \<noteq> 0 then (-1, s2) else forward_loop s2 h1 (fst (BusHeader_Write h1 buf 0)) n ds)"
    using hs F by (simp add: H_def [symmetric] Let_def)
  with l linked_trans [OF l Cons.IH] show ?case by simp
qed simp

lemma resolve_dst_linked: "linked s (snd (resolve_dst s h))"
  by (auto simp: resolve_dst_def sys_rand_def bcall_eq Let_def split: option.split)

lemma ForwardMsg_linked: "linked s (snd (ForwardMsg P s buf))"
proof -
  have m: "linked s (s\<lparr>m_mapSvrInfo := m\<rparr>)" for m by (rule linked_frame) simp_all
  have st: "linked s (snd (forward_state P s h buf n))" for h n
    by (auto simp: forward_state_def Let_def intro: linked_trans [OF m notify_clusters_linked] split: option.split)
  have "linked s (snd (case resolve_dst s h of (None, s) \<Rightarrow> (-1, s) | (Some ds, s) \<Rightarrow> forward_loop s h buf n ds))" for h n
    using resolve_dst_linked [of s h] by (auto intro: linked_trans [OF _ forward_loop_linked] split: prod.split option.split)
  with st show ?thesis by (auto simp: ForwardMsg_def Let_def case_prod_unfold split: option.splits)
qed

text \<open>Receiving.\<close>

lemma ProcessPkg_linked: "Bus_ProcessPkg P s buf = Some (n, s') \<Longrightarrow> linked s s'"
  by (drule ProcessPkg_quiet) (auto simp: quiet_def intro: linked_frame)

lemma recv_loop_linked: "recv_loop P s p buf = Some s' \<Longrightarrow> \<not> listen_pos p \<Longrightarrow> linked s s'"
proof (induction P s p buf rule: recv_loop.induct)
  case (1 P s p buf)
  show ?case
  proof (cases "buf = []")
    case False
    then obtain n s1 c where P: "Bus_ProcessPkg P s buf = Some (n, s1)" and c: "mfind (m_PosConnMap s1) p = Some c"
      using "1.prems"(1) by (subst (asm) recv_loop.simps) (auto split: option.splits)
    obtain r c' where A: "AddRecvData c buf = (r, c')" by force
    let ?s2 = "s1\<lparr>m_PosConnMap := mupdate p c' (m_PosConnMap s1)\<rparr>"
    note l1 = ProcessPkg_linked [OF P]
    have "linked s1 ?s2"
      using linked_conn [OF c AddRecvData_keeps [OF A], of "b_os s1"] by simp
    then have l2: "linked s ?s2" by (rule linked_trans [OF l1])
    note rel = ReleaseConn_linked [OF "1.prems"(2)]
    from "1.prems"(1) False P c A have
      "s' = (if r \<noteq> 0 then ReleaseConn ?s2 p c' else ?s2) \<or> s' = ReleaseConn s1 p c
       \<or> \<not> (int (length buf) < n \<or> n = 0) \<and> \<not> n < 0 \<and> recv_loop P s1 p (drop (nat n) buf) = Some s'"
      by (subst (asm) recv_loop.simps) (auto split: if_splits)
    then show ?thesis
      using l2 linked_trans [OF l2 rel] linked_trans [OF l1 rel] linked_trans [OF l1 "1.IH" [OF False P refl c]] "1.prems"(2)
      by (auto split: if_splits)
  qed (use "1.prems" in \<open>simp add: recv_loop.simps\<close>)
qed

text \<open>New connections.\<close>

definition new_conn :: "u32 \<Rightarrow> int \<Rightarrow> sockaddr \<Rightarrow> sockaddr \<Rightarrow> int \<Rightarrow> conninfo" where
  "new_conn p sock ra la t = \<lparr>m_ConnPos = p, m_SockID = sock, m_RemoteAddr = ra, m_LocalAddr = la,
     m_LastActTime = t, m_RemainSendData = [], m_RemainRecvData = []\<rparr>"

lemma new_conn_simps [simp]: "m_SockID (new_conn p sock ra la t) = sock" "conn_ok p (new_conn p sock ra la t)"
  by (simp_all add: new_conn_def conn_ok_def)

lemma add_conn_eq:
  assumes "mfind (m_PosConnMap s) p = None"
  shows "\<exists>t w. add_conn s p sock ra la = (0, s\<lparr>b_os := w, m_PosConnMap := minsert p (new_conn p sock ra la t) (m_PosConnMap s)\<rparr>)"
  using assms by (auto simp: add_conn_def ConnInfo_new_def new_conn_def Let_def split: prod.split)

lemma add_conn_linked:
  assumes "mfind (m_PosConnMap s) p = None" "\<not> listen_pos p"
  shows "linked s (snd (add_conn s p sock ra la))"
proof -
  obtain t w where A: "add_conn s p sock ra la
      = (0, s\<lparr>b_os := w, m_PosConnMap := minsert p (new_conn p sock ra la t) (m_PosConnMap s)\<rparr>)" (is "_ = (0, ?s)")
    using add_conn_eq [OF assms(1)] by blast
  have "linked s ?s"
  proof (rule linkedI)
    assume I: "link_inv s"
    note L = link_invD(1) [OF I]
    show "links (m_ClusterID s) (m_PosConnMap ?s) (m_mapClusterInfo ?s)" using links_insert [OF L assms(1)] by simp
    show "conns_ok (m_PosConnMap ?s)" "listeners (m_PosConnMap s) (m_PosConnMap ?s)"
      using conns_ok_insert [OF link_invD(2) [OF I] linksD(1) [OF L], of p] listeners_insert [OF linksD(1) [OF L] assms(2)]
      by simp_all
  qed (simp_all add: link_invD)
  with A show ?thesis by simp
qed

lemma setup_sock_eq: "snd (setup_sock s sock p) = s\<lparr>b_os := b_os (snd (setup_sock s sock p))\<rparr>"
  by (simp add: setup_sock_def bcall_eq bcall0_eq Let_def)

lemma setup_sock_obtain:
  obtains ok w where "setup_sock s sock p = (ok, s\<lparr>b_os := w\<rparr>)"
  using setup_sock_eq [of s sock p] by (metis prod.collapse)

text \<open>The counter that \<open>AcceptConn\<close> starts the search with, and the state before it.\<close>

definition next_pos :: "u32 \<Rightarrow> u32" where
  "next_pos cnt = (if cnt + 1 < CLIENT_SOCK_CPOS_MIN then CLIENT_SOCK_CPOS_MIN + 1 else cnt + 1)"

lemma AcceptConn_eq:
  assumes "mfind (m_PosConnMap s) l = Some lc" "os_ret (b_os s) (os_tick (b_os s)) = sock" "0 < sock"
  shows "\<exists>ra la. AcceptConn s l =
    map_option (\<lambda>q. let (ok, s) = setup_sock (s\<lparr>b_os := os_call EvOther (b_os s), m_ConnPosCnt := next_pos (m_ConnPosCnt s)\<rparr>) sock q
                     in if \<not> ok then (-1, s) else add_conn s q sock ra la)
      (free_pos (m_PosConnMap s) CLIENT_SOCK_CPOS_MIN (-1) (next_pos (m_ConnPosCnt s)))"
  using assms
  by (intro exI [of _ "os_addr (b_os s) (os_tick (b_os s))"]
      exI [of _ "\<lparr>sin_addr = sin_addr (m_LocalAddr lc), sin_port = htons (sin_port (m_LocalAddr lc))\<rparr>"])
    (simp add: AcceptConn_def bcall_eq next_pos_def Let_def case_prod_unfold if_distrib [of Some] split: option.split)

lemma next_pos_client: "CLIENT_SOCK_CPOS_MIN \<le> next_pos cnt"
  by (auto simp: next_pos_def cpos_defs)

lemma accept_pos:
  assumes "free_pos m CLIENT_SOCK_CPOS_MIN (-1) (next_pos cnt) = Some q"
  shows "CLIENT_SOCK_CPOS_MIN \<le> q"
  using free_pos_sound [OF assms] next_pos_client [of cnt] by (auto simp: cpos_defs)

lemma AcceptConn_linked:
  assumes A: "AcceptConn s l = Some (r, s')"
  shows "linked s s'"
proof (cases "mfind (m_PosConnMap s) l = None \<or> \<not> os_ret (b_os s) (os_tick (b_os s)) > 0")
  case True
  with assms show ?thesis by (auto simp: AcceptConn_def bcall_eq Let_def split: option.splits)
next
  case False
  then obtain lc where l: "mfind (m_PosConnMap s) l = Some lc" "0 < os_ret (b_os s) (os_tick (b_os s))" by auto
  let ?s = "s\<lparr>b_os := os_call EvOther (b_os s), m_ConnPosCnt := next_pos (m_ConnPosCnt s)\<rparr>"
  from AcceptConn_eq [OF l(1) refl l(2)] obtain ra la sock where "AcceptConn s l = map_option
      (\<lambda>q. let (ok, s) = setup_sock ?s sock q in if \<not> ok then (-1, s) else add_conn s q sock ra la)
      (free_pos (m_PosConnMap s) CLIENT_SOCK_CPOS_MIN (-1) (next_pos (m_ConnPosCnt s)))" by blast
  with A obtain q where
    q: "free_pos (m_PosConnMap s) CLIENT_SOCK_CPOS_MIN (-1) (next_pos (m_ConnPosCnt s)) = Some q"
    and R: "(let (ok, s) = setup_sock ?s sock q in if \<not> ok then (-1, s) else add_conn s q sock ra la) = (r, s')"
    by (auto simp: map_option_eq_Some)
  obtain ok w where S: "setup_sock ?s sock q = (ok, ?s\<lparr>b_os := w\<rparr>)" by (rule setup_sock_obtain)
  have l: "linked s (?s\<lparr>b_os := w\<rparr>)" by (rule linked_frame) simp_all
  have "\<not> listen_pos q" using accept_pos [OF q] by (auto simp: listen_pos_def cpos_defs u32_order)
  with free_pos_sound [OF q] have "linked (?s\<lparr>b_os := w\<rparr>) (snd (add_conn (?s\<lparr>b_os := w\<rparr>) q sock ra la))"
    by (intro add_conn_linked) simp_all
  from l linked_trans [OF l this] R S show ?thesis by (auto split: if_splits dest: arg_cong [of _ _ snd])
qed

definition next_cluster_pos :: "u32 \<Rightarrow> u32" where
  "next_cluster_pos cnt = (if cnt + 1 < CLUSTER_SOCK_CPOS_MIN \<or> cnt + 1 > CLUSTER_SOCK_CPOS_MAX
     then CLUSTER_SOCK_CPOS_MIN + 1 else cnt + 1)"

lemma next_cluster_pos: "cnt = 0 \<or> cluster_pos cnt \<Longrightarrow> cluster_pos (next_cluster_pos cnt)"
proof -
  assume c: "cnt = 0 \<or> cluster_pos cnt"
  have "unat (cnt + 1) = Suc (unat cnt)"
    using c by (intro unat_Suc [of _ 300000]) (auto simp: cluster_pos_def cpos_defs u32_order)
  with c show ?thesis by (auto simp: next_cluster_pos_def cluster_pos_def cpos_defs u32_order)
qed

lemma cluster_free_pos:
  assumes "free_pos m CLUSTER_SOCK_CPOS_MIN CLUSTER_SOCK_CPOS_MAX pos = Some q" "cluster_pos pos"
  shows "mfind m q = None" "cluster_pos q"
  using free_pos_sound [OF assms(1)] assms(2) by (auto simp: cluster_pos_def cpos_defs)

lemma register_cluster_eq:
  "register_cluster s k sock ra la =
     (case free_pos (m_PosConnMap s) CLUSTER_SOCK_CPOS_MIN CLUSTER_SOCK_CPOS_MAX (next_cluster_pos (m_ClusterPosCnt s)) of
        None \<Rightarrow> None
      | Some q \<Rightarrow>
          let s = s\<lparr>m_ClusterPosCnt := next_cluster_pos (m_ClusterPosCnt s)\<rparr>;
              (r, s) = bcall (EvEpoll CtlAdd sock False q) s
          in if r \<noteq> 0 then Some (-1, bcall0 (EvClose sock) s)
             else let (r, s) = add_conn s q sock ra la
                  in if r \<noteq> 0 then Some (-1, s)
                     else case mfind (m_mapClusterInfo s) k of
                       None \<Rightarrow> Some (0, s)
                     | Some info \<Rightarrow> Some (0, s\<lparr>m_mapClusterInfo :=
                         mupdate k (info\<lparr>SocketID := sock, ci_ConnPos := q\<rparr>) (m_mapClusterInfo s)\<rparr>))"
  unfolding register_cluster_def next_cluster_pos_def Let_def by simp

lemma register_cluster_linked:
  assumes R: "register_cluster s k sock ra la = Some (r, s')" and k: "k \<noteq> m_ClusterID s"
  shows "linked s s'"
proof (rule linkedI)
  let ?n = "next_cluster_pos (m_ClusterPosCnt s)"
  let ?s = "s\<lparr>m_ClusterPosCnt := ?n\<rparr>"
  obtain q where q: "free_pos (m_PosConnMap s) CLUSTER_SOCK_CPOS_MIN CLUSTER_SOCK_CPOS_MAX ?n = Some q"
    using R by (auto simp: register_cluster_eq split: option.splits)
  then have free: "mfind (m_PosConnMap s) q = None" using free_pos_sound by blast
  let ?e = "?s\<lparr>b_os := os_call (EvEpoll CtlAdd sock False q) (b_os s)\<rparr>"
  obtain t w where A: "add_conn ?e q sock ra la
      = (0, ?e\<lparr>b_os := w, m_PosConnMap := minsert q (new_conn q sock ra la t) (m_PosConnMap s)\<rparr>)"
    using add_conn_eq [of ?e q sock ra la] free by auto
  let ?c = "new_conn q sock ra la t"
  have cases: "(m_PosConnMap s' = m_PosConnMap s \<and> m_mapClusterInfo s' = m_mapClusterInfo s
      \<or> m_PosConnMap s' = minsert q ?c (m_PosConnMap s) \<and> m_mapClusterInfo s' = m_mapClusterInfo s
      \<or> (\<exists>info. m_PosConnMap s' = minsert q ?c (m_PosConnMap s) \<and> mfind (m_mapClusterInfo s) k = Some info
          \<and> m_mapClusterInfo s' = mupdate k (info\<lparr>SocketID := sock, ci_ConnPos := q\<rparr>) (m_mapClusterInfo s)))
    \<and> m_ClusterPosCnt s' = ?n \<and> m_ClusterID s' = m_ClusterID s"
    using R q A by (auto simp: register_cluster_eq Let_def bcall_eq bcall0_eq split: if_splits option.splits)
  then show "m_ClusterID s' = m_ClusterID s" by blast
  assume I: "link_inv s"
  note L = link_invD(1) [OF I]
  have cp: "cluster_pos ?n" by (rule next_cluster_pos [OF link_invD(3) [OF I]])
  from cluster_free_pos(2) [OF q cp] have qp: "cluster_pos q" .
  show "links (m_ClusterID s) (m_PosConnMap s') (m_mapClusterInfo s')"
    using cases L links_insert [OF L free, of ?c] links_connect [OF L _ k free qp, of _ ?c sock] by auto
  show "conns_ok (m_PosConnMap s')"
    using cases link_invD(2) [OF I] conns_ok_insert [OF link_invD(2) [OF I] linksD(1) [OF L], of q ?c] by auto
  show "m_ClusterPosCnt s' = 0 \<or> cluster_pos (m_ClusterPosCnt s')" using cases cp by simp
  show "listeners (m_PosConnMap s) (m_PosConnMap s')"
    using cases listeners_insert [OF linksD(1) [OF L], of q ?c] not_listen [of q] qp by auto
qed

text \<open>A cluster that is still marked connected is dropped first, exactly as \<open>DisconnetCluster\<close> does it.\<close>

lemma ConnectCluster_eq:
  assumes "k \<noteq> m_ClusterID s" "mfind (m_mapClusterInfo s) k = Some info"
  shows "ConnectCluster s k =
    (let s = snd (DisconnetCluster s k); (sock, s) = bcall EvOther s
     in if sock = -1 then Some (-1, s)
        else let addr = \<lparr>sin_addr = ClusterIP info, sin_port = htons (ClusterPort info)\<rparr>;
                 (r, s) = bcall (EvConnect sock addr) s
             in if r = -1 then Some (-1, bcall0 (EvClose sock) s)
                else let local_addr = os_addr (b_os s) (os_tick (b_os s)); (r, s) = bcall EvOther s
                     in if r \<noteq> 0 then Some (-1, s) else register_cluster s k sock addr local_addr)"
  using assms by (simp add: ConnectCluster_def DisconnetCluster_def Let_def)

lemma ConnectCluster_linked:
  assumes "ConnectCluster s k = Some (r, s')"
  shows "linked s s'"
proof (cases "k = m_ClusterID s \<or> mfind (m_mapClusterInfo s) k = None")
  case True
  with assms show ?thesis by (auto simp: ConnectCluster_def split: if_splits)
next
  case False
  then obtain info where k: "k \<noteq> m_ClusterID s" "mfind (m_mapClusterInfo s) k = Some info" by auto
  define d where "d = snd (DisconnetCluster s k)"
  have l: "linked s (d\<lparr>b_os := w\<rparr>)" for w unfolding d_def by (rule linked_trans [OF DisconnetCluster_linked linked_os])
  then have "m_ClusterID d = m_ClusterID s" by (simp add: linked_def)
  with k(1) have reg: "register_cluster (d\<lparr>b_os := w\<rparr>) k sock ra la = Some (r, s') \<Longrightarrow> linked s s'" for w sock ra la
    by (intro linked_trans [OF l register_cluster_linked]) simp_all
  show ?thesis
    using assms unfolding ConnectCluster_eq [OF k] d_def [symmetric]
    by (auto simp: Let_def bcall_eq bcall0_eq l split: if_splits dest: reg)
qed

lemma RecvHelloMessage_linked: "RecvHelloMessage P s l = Some s' \<Longrightarrow> linked s s'"
  by (auto simp: RecvHelloMessage_def Let_def split: option.splits prod.splits if_splits
      intro: linked_trans [OF linked_os ConnectCluster_linked])

text \<open>The event loop.\<close>

lemma handle_in_linked:
  assumes H: "handle_in P s p c = Some s'" and c: "mfind (m_PosConnMap s) p = Some c" and p: "\<not> listen_pos p"
  shows "linked s s'"
proof -
  obtain r bs c' w where R: "Recv c (of_nat XY_MAXBUFF_LEN) (b_os s) = (r, bs, c', w)"
    by (cases "Recv c (of_nat XY_MAXBUFF_LEN) (b_os s)") auto
  let ?s = "s\<lparr>b_os := w, m_PosConnMap := mupdate p c' (m_PosConnMap s)\<rparr>"
  have l: "linked s ?s" by (rule linked_conn [OF c Recv_keeps(1) [OF R]])
  have "s' = ReleaseConn ?s p c' \<or> recv_loop P ?s p bs = Some s'"
    using H by (auto simp: handle_in_def R Let_def split: if_splits)
  then show ?thesis
    using linked_trans [OF l ReleaseConn_linked [OF p]] linked_trans [OF l recv_loop_linked [OF _ p]] by auto
qed

lemma handle_out_linked:
  assumes c: "mfind (m_PosConnMap s) p = Some c" and p: "\<not> listen_pos p"
  shows "linked s (handle_out s p c)"
proof -
  obtain r c' w where R: "SendRemainData c (b_os s) = (r, c', w)" by (cases "SendRemainData c (b_os s)") auto
  let ?s = "s\<lparr>b_os := w, m_PosConnMap := mupdate p c' (m_PosConnMap s)\<rparr>"
  have l: "linked s ?s" by (rule linked_conn [OF c SendRemainData_keeps [OF R]])
  moreover have "linked s (bcall0 ev ?s)" for ev
    by (rule linked_trans [OF l]) (simp add: bcall0_eq linked_frame)
  ultimately show ?thesis
    using linked_trans [OF l ReleaseConn_linked [OF p, of ?s c']] by (simp add: handle_out_def R Let_def)
qed

lemma handle_event_linked:
  assumes "handle_event P s ev = Some s'"
  shows "linked s s'"
proof (cases "listen_pos (fst ev)")
  case True
  with assms show ?thesis
    by (auto simp: handle_event_def listen_pos_def cpos_defs u32_order Let_def case_prod_unfold
        intro: AcceptConn_linked RecvHelloMessage_linked split: if_splits option.splits)
next
  case False
  then have "(case mfind (m_PosConnMap s) (fst ev) of None \<Rightarrow> Some s | Some c \<Rightarrow>
      if snd ev AND EPOLLERR \<noteq> 0 \<or> snd ev AND EPOLLHUP \<noteq> 0 then Some (ReleaseConn s (fst ev) c)
      else if snd ev AND EPOLLIN \<noteq> 0 then handle_in P s (fst ev) c
      else if snd ev AND EPOLLOUT \<noteq> 0 then Some (handle_out s (fst ev) c) else Some s) = Some s'"
    using assms
    by (auto simp: handle_event_def listen_pos_def cpos_defs u32_order Let_def case_prod_unfold split: if_splits option.splits)
  then show ?thesis
    using False by (auto intro: ReleaseConn_linked handle_in_linked handle_out_linked split: option.splits if_splits)
qed

interpretation ev: event_loop linked "handle_event P" "handle_events P" for P
  by unfold_locales (auto intro: linked_trans handle_event_linked split: option.split)

lemma drain_queue_linked: "linked s (drain_queue P n s)"
proof (induction n arbitrary: s)
  case (Suc n)
  let ?o = "OutQueue_int (m_ClusterQueue s) (replicate XY_PKG_MAX_LEN 0) (int XY_PKG_MAX_LEN) True (os_ret (b_os s) (os_tick (b_os s)))"
  obtain r buf len q where O: "?o = (r, buf, len, q)" by (cases ?o) auto
  let ?s = "s\<lparr>b_os := os_call EvOther (b_os s), m_ClusterQueue := q\<rparr>"
  have l: "linked s ?s" by (rule linked_frame) simp_all
  have "linked s (drain_queue P n (snd (ForwardMsg P ?s bs)))" for bs
    by (rule linked_trans [OF linked_trans [OF l ForwardMsg_linked] Suc.IH])
  with l O show ?case by (simp add: bcall_eq Let_def)
qed simp

lemma bus_others_linked: "linked s (bus_others puts takers s)"
  by (rule linked_frame) (simp_all add: bus_others_def)

lemma run_round_linked:
  assumes "run_round P L round = Some L'"
  shows "linked (lp_bus L) (lp_bus L')"
proof -
  obtain evs puts takers where r: "round = (evs, puts, takers)" by (cases round)
  obtain s where H: "handle_events P (lp_bus L) evs = Some s" using assms by (auto simp: run_round_def r split: option.splits)
  have l1: "linked (lp_bus L) ((drain_queue P 10 (bus_others puts takers s))\<lparr>b_os := w\<rparr>)" for w
    by (rule linked_trans [OF linked_trans [OF linked_trans [OF ev.loop_R [OF H] bus_others_linked] drain_queue_linked] linked_os])
  have he: "linked x y \<Longrightarrow> linked x (SendHelloMessage P y)" for x y
    unfolding SendHelloMessage_def by (rule linked_trans [OF _ hello_loop_linked])
  have hb: "linked x y \<Longrightarrow> linked x (SendHeartBeetMessage P y)" for x y
    unfolding SendHeartBeetMessage_def by (rule linked_trans [OF _ heartbeat_loop_linked])
  show ?thesis using assms by (auto simp: run_round_def r H bcall_eq Let_def l1 he hb split: if_splits)
qed

interpretation rounds: event_loop "\<lambda>L L'. linked (lp_bus L) (lp_bus L')" "run_round P" "Bus_Run_loop P" for P
  by unfold_locales (auto intro: linked_trans run_round_linked split: option.split)

lemma Bus_Run_linked:
  assumes "Bus_Run P s rs = Some L"
  shows "linked s (lp_bus L)"
proof -
  obtain w a b where "Bus_Run_loop P \<lparr>lp_bus = s\<lparr>b_os := w\<rparr>, LastHelloTime = a, LastHeartBeetTime = b\<rparr> rs = Some L"
    using assms by (simp add: Bus_Run_def bcall_eq Let_def)
  from rounds.loop_R [OF this] show ?thesis by (simp add: linked_trans [OF linked_os])
qed

section \<open>Properties\<close>

lemma live_link:
  assumes "link_inv s" "mfind (m_mapClusterInfo s) k = Some info" "ci_ConnPos info \<noteq> 0"
    and "ci_ConnPos info \<noteq> CLUSTER_SOCK_CPOS_MAX"
  obtains c where "mfind (m_PosConnMap s) (ci_ConnPos info) = Some c" "m_SockID c = SocketID info"
  using linksD(3) [OF link_invD(1) [OF assms(1)] assms(2)] assms(3,4)
  by (auto simp: link_ok_def cluster_pos_def)

lemma Send2Cluster_eq:
  assumes "mfind (m_PosConnMap s) (ci_ConnPos info) = Some c" "SocketID info \<noteq> -1" "ci_ConnPos info \<noteq> 0"
    and "send_or_store c bs (b_os s) = (r, bl, c', w)"
  shows "Send2Cluster s info bs =
    (let s = s\<lparr>b_os := w, m_PosConnMap := mupdate (ci_ConnPos info) c' (m_PosConnMap s)\<rparr>
     in if r \<noteq> 0 then (r, ReleaseConn s (ci_ConnPos info) c')
        else if bl then (0, bcall0 (EvEpoll CtlMod (m_SockID c') True (ci_ConnPos info)) s) else (0, s))"
  using assms by (simp add: Send2Cluster_def Let_def)

lemma Send2Cluster_finds:
  assumes "link_inv s" "mfind (m_mapClusterInfo s) k = Some info" "ci_ConnPos info \<noteq> CLUSTER_SOCK_CPOS_MAX"
  shows "fst (Send2Cluster s info bs) \<in> {0, -2, -3}"
proof (cases "SocketID info = -1 \<or> ci_ConnPos info = 0")
  case False
  then obtain c where c: "mfind (m_PosConnMap s) (ci_ConnPos info) = Some c"
    using live_link [OF assms(1,2) _ assms(3)] by metis
  obtain r bl c' w where S: "send_or_store c bs (b_os s) = (r, bl, c', w)"
    by (cases "send_or_store c bs (b_os s)") auto
  show ?thesis using Send2Cluster_eq [OF c _ _ S] False send_or_store_stream(1) [OF S] by (auto simp: Let_def)
qed (simp add: Send2Cluster_def)

text \<open>
  C9: over every run of the event loop, whatever the kernel, the peers and the local servers do, the table of
  clusters agrees with the table of connections (an entry is disconnected or names a live connection of the
  cluster range with its socket, and two entries never share one; the last position of the range
  excepted), every connection has its own position as key and buffers within \<open>XY_MAXBUFF_LEN\<close>, and
  the listening sockets stay in place; so sending to a known cluster never fails for want of its
  connection.
\<close>
theorem Bus_Run_keeps_links:
  assumes "link_inv s" "Bus_Run P s rounds = Some L"
  shows "link_inv (lp_bus L) \<and> listeners (m_PosConnMap s) (m_PosConnMap (lp_bus L))
    \<and> (\<forall>k info bs. mfind (m_mapClusterInfo (lp_bus L)) k = Some info \<and> ci_ConnPos info \<noteq> CLUSTER_SOCK_CPOS_MAX
         \<longrightarrow> fst (Send2Cluster (lp_bus L) info bs) \<in> {0, -2, -3})"
proof -
  have "link_inv (lp_bus L)" "listeners (m_PosConnMap s) (m_PosConnMap (lp_bus L))"
    using Bus_Run_linked [OF assms(2)] assms(1) by (auto simp: linked_def)
  then show ?thesis using Send2Cluster_finds by blast
qed

text \<open>With room in the table both searches end.\<close>

lemma accept_pos_exists:
  assumes "length m < 4294667295"
  shows "\<exists>q. free_pos m CLIENT_SOCK_CPOS_MIN (-1) (next_pos cnt) = Some q"
proof -
  have max: "unat (-1 :: u32) = 4294967295" by (simp add: unsigned_minus_1_eq_mask mask_eq_exp_minus_1)
  have b: "unat (next_pos cnt) \<le> unat (-1 :: u32)" using u32_bound [of "next_pos cnt"] by (simp add: max)
  obtain p where "mfind m p = None" "unat CLIENT_SOCK_CPOS_MIN < unat p" "unat p \<le> unat (-1 :: u32)"
    using free_exists [of m "-1" CLIENT_SOCK_CPOS_MIN] assms by (auto simp: max cpos_defs)
  from free_pos_finds [OF this _ b] next_pos_client [of cnt] show ?thesis by (auto simp: u32_order cpos_defs)
qed

lemma cluster_pos_exists:
  assumes "length m < 99999" "cluster_pos pos"
  shows "\<exists>q. free_pos m CLUSTER_SOCK_CPOS_MIN CLUSTER_SOCK_CPOS_MAX pos = Some q"
proof -
  obtain p where "mfind m p = None" "unat CLUSTER_SOCK_CPOS_MIN < unat p" "unat p \<le> unat CLUSTER_SOCK_CPOS_MAX"
    using free_exists [of m CLUSTER_SOCK_CPOS_MAX CLUSTER_SOCK_CPOS_MIN] assms by (auto simp: cpos_defs)
  from free_pos_finds [OF this, of pos] assms(2) show ?thesis
    by (auto simp: cluster_pos_def u32_order) (auto simp: cpos_defs)
qed

lemma setup_sock_ok:
  "fst (setup_sock s sock p) \<longleftrightarrow> os_ret (b_os s) (os_tick (b_os s)) \<noteq> -1
     \<and> os_ret (b_os s) (Suc (os_tick (b_os s))) \<noteq> -1 \<and> os_ret (b_os s) (Suc (Suc (os_tick (b_os s)))) = 0"
  by (auto simp: setup_sock_def bcall_eq os_call_def Let_def)

text \<open>
  a connection is accepted on a listening socket whenever the table has room: the search for a
  position ends, and \<open>AcceptConn\<close> returns 0 exactly when the four system calls succeed. Then the
  table gains one connection with the accepted socket and empty buffers, at a position of the
  client range that was free; otherwise the table is unchanged.
\<close>
lemma AcceptConn_spec:
  assumes "mfind (m_PosConnMap s) l = Some lc" "length (m_PosConnMap s) < 4294667295"
    and "\<And>i. ret i = os_ret (b_os s) (os_tick (b_os s) + i)"
  shows "\<exists>r s'. AcceptConn s l = Some (r, s')
    \<and> (r = 0 \<longleftrightarrow> ret 0 > 0 \<and> ret 1 \<noteq> -1 \<and> ret 2 \<noteq> -1 \<and> ret 3 = 0)
    \<and> (if r = 0 then \<exists>q c. mfind (m_PosConnMap s) q = None \<and> CLIENT_SOCK_CPOS_MIN \<le> q
           \<and> m_PosConnMap s' = minsert q c (m_PosConnMap s) \<and> m_SockID c = ret 0 \<and> m_ConnPos c = q
           \<and> m_RemainSendData c = [] \<and> m_RemainRecvData c = []
       else m_PosConnMap s' = m_PosConnMap s)"
proof (cases "ret 0 > 0")
  case False
  with assms show ?thesis by (auto simp: AcceptConn_def bcall_eq Let_def)
next
  case True
  let ?s = "s\<lparr>b_os := os_call EvOther (b_os s), m_ConnPosCnt := next_pos (m_ConnPosCnt s)\<rparr>"
  have r0: "os_ret (b_os s) (os_tick (b_os s)) = ret 0" using assms(3) [of 0] by simp
  obtain q where q: "free_pos (m_PosConnMap s) CLIENT_SOCK_CPOS_MIN (-1) (next_pos (m_ConnPosCnt s)) = Some q"
    using accept_pos_exists [OF assms(2)] by blast
  note free = free_pos_sound [OF q, THEN conjunct1]
  obtain ok w where "setup_sock ?s (ret 0) q = (ok, ?s\<lparr>b_os := w\<rparr>)" by (rule setup_sock_obtain)
  moreover define t where "t = ?s\<lparr>b_os := w\<rparr>"
  ultimately have S: "setup_sock ?s (ret 0) q = (ok, t)" and t: "m_PosConnMap t = m_PosConnMap s" by simp_all
  obtain ra la where A: "AcceptConn s l = Some (if \<not> ok then (-1, t) else add_conn t q (ret 0) ra la)"
    using AcceptConn_eq [OF assms(1) r0 True] q S by auto
  have ok: "ok \<longleftrightarrow> ret 1 \<noteq> -1 \<and> ret 2 \<noteq> -1 \<and> ret 3 = 0"
    using setup_sock_ok [of ?s "ret 0" q] S assms(3) [of 1] assms(3) [of 2] assms(3) [of 3]
    by (simp add: os_call_def numeral_2_eq_2 numeral_3_eq_3)
  obtain u w' where "add_conn t q (ret 0) ra la
      = (0, t\<lparr>b_os := w', m_PosConnMap := minsert q (new_conn q (ret 0) ra la u) (m_PosConnMap s)\<rparr>)"
    using add_conn_eq [of t q "ret 0" ra la] free by (auto simp: t)
  with A ok True free accept_pos [OF q] t show ?thesis
    by (auto simp: new_conn_def intro!: exI [of _ q] exI [of _ "new_conn q (ret 0) ra la u"])
qed

definition connected_to :: "bus \<Rightarrow> ClusterInfo \<Rightarrow> bool" where
  "connected_to s info \<longleftrightarrow> cluster_pos (ci_ConnPos info) \<and> SocketID info \<noteq> -1 \<and>
     (\<exists>c. mfind (m_PosConnMap s) (ci_ConnPos info) = Some c \<and> m_SockID c = SocketID info
        \<and> m_RemoteAddr c = \<lparr>sin_addr = ClusterIP info, sin_port = htons (ClusterPort info)\<rparr>)"

lemma register_cluster_spec:
  assumes k: "mfind (m_mapClusterInfo s) k = Some info" and I: "link_inv s" and len: "length (m_PosConnMap s) < 99999"
    and sock: "sock \<noteq> -1" and info: "SocketID info = -1" "ci_ConnPos info = 0"
    and ra: "ra = \<lparr>sin_addr = ClusterIP info, sin_port = htons (ClusterPort info)\<rparr>"
  shows "\<exists>r s' info'. register_cluster s k sock ra la = Some (r, s') \<and> mfind (m_mapClusterInfo s') k = Some info'
    \<and> (if r = 0 then connected_to s' info' else SocketID info' = -1 \<and> ci_ConnPos info' = 0)
    \<and> (\<forall>k'. k' \<noteq> k \<longrightarrow> mfind (m_mapClusterInfo s') k' = mfind (m_mapClusterInfo s) k')"
proof -
  let ?n = "next_cluster_pos (m_ClusterPosCnt s)"
  have n: "cluster_pos ?n" by (rule next_cluster_pos [OF link_invD(3) [OF I]])
  obtain q where q: "free_pos (m_PosConnMap s) CLUSTER_SOCK_CPOS_MIN CLUSTER_SOCK_CPOS_MAX ?n = Some q"
    using cluster_pos_exists [OF len n] by blast
  note fq = cluster_free_pos [OF q n]
  let ?e = "s\<lparr>m_ClusterPosCnt := ?n, b_os := os_call (EvEpoll CtlAdd sock False q) (b_os s)\<rparr>"
  obtain t w where A: "add_conn ?e q sock ra la
      = (0, ?e\<lparr>b_os := w, m_PosConnMap := minsert q (new_conn q sock ra la t) (m_PosConnMap s)\<rparr>)"
    using add_conn_eq [of ?e q sock ra la] fq(1) by auto
  have ins: "mfind (minsert q (new_conn q sock ra la t) (m_PosConnMap s)) q = Some (new_conn q sock ra la t)"
    using fq(1) linksD(1) [OF link_invD(1) [OF I]] by (simp add: mfind_minsert)
  show ?thesis
    using q A k sock ins info fq(2)
    by (simp add: register_cluster_eq Let_def bcall_eq bcall0_eq connected_to_def new_conn_def ra)
qed

text \<open>
  \<open>ConnectCluster\<close> for another cluster of the configuration returns as long as the table holds
  fewer connections than the cluster range has positions. It keeps the invariant and every other
  entry; on success the entry names a fresh live connection to the configured address, and on
  every failure the entry is disconnected, so that the next hello message tries again.
\<close>
lemma ConnectCluster_spec:
  assumes I: "link_inv s" and k: "k \<noteq> m_ClusterID s" "mfind (m_mapClusterInfo s) k = Some info"
    and len: "length (m_PosConnMap s) < 99999"
  shows "\<exists>r s' info'. ConnectCluster s k = Some (r, s') \<and> link_inv s' \<and> mfind (m_mapClusterInfo s') k = Some info'
    \<and> (if r = 0 then connected_to s' info' else SocketID info' = -1 \<and> ci_ConnPos info' = 0)
    \<and> (\<forall>k'. k' \<noteq> k \<longrightarrow> mfind (m_mapClusterInfo s') k' = mfind (m_mapClusterInfo s) k')"
proof -
  define d where "d = snd (DisconnetCluster s k)"
  define info0 where "info0 = info\<lparr>SocketID := -1, ci_ConnPos := 0\<rparr>"
  have d: "mfind (m_mapClusterInfo d) k = Some info0" "length (m_PosConnMap d) < 99999"
    "\<And>k'. k' \<noteq> k \<Longrightarrow> mfind (m_mapClusterInfo d) k' = mfind (m_mapClusterInfo s) k'"
    using k len by (auto simp: d_def info0_def DisconnetCluster_def bcall0_eq Let_def merase_def
        intro: le_less_trans [OF length_filter_le])
  have Id: "link_inv (d\<lparr>b_os := w\<rparr>)" for w
    using DisconnetCluster_linked [of s k] I linked_os [of d w] by (auto simp: d_def linked_def)
  let ?addr = "\<lparr>sin_addr = ClusterIP info, sin_port = htons (ClusterPort info)\<rparr>"
  let ?Q = "\<lambda>(r :: int) s'. \<exists>info'. mfind (m_mapClusterInfo s') k = Some info'
    \<and> (if r = 0 then connected_to s' info' else SocketID info' = -1 \<and> ci_ConnPos info' = 0)
    \<and> (\<forall>k'. k' \<noteq> k \<longrightarrow> mfind (m_mapClusterInfo s') k' = mfind (m_mapClusterInfo s) k')"
  have fail: "?Q (-1) (d\<lparr>b_os := w\<rparr>)" for w using d by (simp add: info0_def)
  have reg: "\<exists>r s'. register_cluster (d\<lparr>b_os := w\<rparr>) k sock ?addr la = Some (r, s') \<and> ?Q r s'" if "sock \<noteq> -1" for w sock la
    using register_cluster_spec [of "d\<lparr>b_os := w\<rparr>" k info0 sock ?addr la] d that Id by (auto simp: info0_def)
  have "\<exists>r s'. ConnectCluster s k = Some (r, s') \<and> ?Q r s'"
    unfolding ConnectCluster_eq [OF k] d_def [symmetric] using fail reg by (simp add: Let_def bcall_eq bcall0_eq)
  then obtain r s' where C: "ConnectCluster s k = Some (r, s')" and Q: "?Q r s'" by blast
  have "link_inv s'" using ConnectCluster_linked [OF C] I by (simp add: linked_def)
  with C Q show ?thesis by blast
qed

text \<open>
  sending a packet to a connected cluster, when it returns 0, adds exactly the packet to the
  byte stream of that connection (written, or waiting in its buffer in order behind what
  was there), touches no other connection, and if bytes are left waiting asks for \<open>EPOLLOUT\<close>.
\<close>
lemma Send2Cluster_appends:
  assumes I: "link_inv s" and k: "mfind (m_mapClusterInfo s) k = Some info" "ci_ConnPos info \<noteq> 0"
      "ci_ConnPos info \<noteq> CLUSTER_SOCK_CPOS_MAX" "SocketID info \<noteq> -1"
    and S: "Send2Cluster s info pkt = (0, s')" "pkt \<noteq> []"
  shows "\<exists>c c'. mfind (m_PosConnMap s) (ci_ConnPos info) = Some c
    \<and> m_PosConnMap s' = mupdate (ci_ConnPos info) c' (m_PosConnMap s)
    \<and> stream_step (SocketID info) (b_os s) (b_os s') (m_RemainSendData c @ pkt) (m_RemainSendData c')
    \<and> (m_RemainSendData c' \<noteq> [] \<longrightarrow>
         last (os_trace (b_os s')) = EvEpoll CtlMod (SocketID info) True (ci_ConnPos info))"
proof -
  obtain c where c: "mfind (m_PosConnMap s) (ci_ConnPos info) = Some c" "m_SockID c = SocketID info"
    using live_link [OF I k(1-3)] by metis
  obtain r bl c' w where R: "send_or_store c pkt (b_os s) = (r, bl, c', w)"
    by (cases "send_or_store c pkt (b_os s)") auto
  note st = send_or_store_stream [OF R]
  let ?s = "s\<lparr>b_os := w, m_PosConnMap := mupdate (ci_ConnPos info) c' (m_PosConnMap s)\<rparr>"
  have r: "r = 0" and s': "s' = (if bl then bcall0 (EvEpoll CtlMod (SocketID info) True (ci_ConnPos info)) ?s else ?s)"
    using S(1) Send2Cluster_eq [OF c(1) k(4,2) R] st(2) c(2) by (auto simp: Let_def split: if_splits)
  have "stream_step fd w (os_call (EvEpoll CtlMod sk True p) w) x x" for fd sk p x
    by (rule stream_stepI [of _ _ "[EvEpoll CtlMod sk True p]"]) simp_all
  from stream_step_trans [OF st(3) [OF r] this] st(3) [OF r] c(2)
  have "stream_step (SocketID info) (b_os s) (b_os s') (m_RemainSendData c @ pkt) (m_RemainSendData c')"
    by (auto simp: s' bcall0_eq)
  moreover have "\<not> bl \<Longrightarrow> m_RemainSendData c' = []" using send_or_store_flushed [OF R _ r S(2)] .
  ultimately show ?thesis using c(1) by (auto simp: s' bcall0_eq)
qed

text \<open>The counter does reach the last position of the range.\<close>

lemma register_last_position:
  assumes "m_ClusterPosCnt s = CLUSTER_SOCK_CPOS_MAX - 1" "mfind (m_PosConnMap s) CLUSTER_SOCK_CPOS_MAX = None"
    and "mfind (m_mapClusterInfo s) k = Some info" "os_ret (b_os s) (os_tick (b_os s)) = 0"
  shows "\<exists>s'. register_cluster s k sock ra la = Some (0, s')
    \<and> mfind (m_mapClusterInfo s') k = Some (info\<lparr>SocketID := sock, ci_ConnPos := CLUSTER_SOCK_CPOS_MAX\<rparr>)"
proof -
  have n: "next_cluster_pos (CLUSTER_SOCK_CPOS_MAX - 1) = CLUSTER_SOCK_CPOS_MAX"
    by (simp add: next_cluster_pos_def cpos_defs)
  have "free_pos (m_PosConnMap s) CLUSTER_SOCK_CPOS_MIN CLUSTER_SOCK_CPOS_MAX CLUSTER_SOCK_CPOS_MAX = Some CLUSTER_SOCK_CPOS_MAX"
    using assms(2) by (subst free_pos.simps) simp
  moreover let ?e = "s\<lparr>m_ClusterPosCnt := CLUSTER_SOCK_CPOS_MAX,
      b_os := os_call (EvEpoll CtlAdd sock False CLUSTER_SOCK_CPOS_MAX) (b_os s)\<rparr>"
  obtain t w where "add_conn ?e CLUSTER_SOCK_CPOS_MAX sock ra la = (0, ?e\<lparr>b_os := w, m_PosConnMap :=
      minsert CLUSTER_SOCK_CPOS_MAX (new_conn CLUSTER_SOCK_CPOS_MAX sock ra la t) (m_PosConnMap s)\<rparr>)"
    using add_conn_eq [of ?e CLUSTER_SOCK_CPOS_MAX sock ra la] assms(2) by auto
  ultimately show ?thesis using assms n by (simp add: register_cluster_eq bcall_eq Let_def)
qed

text \<open>The cluster that the next datagram of a socket says hello for: a whole header, the command, and a body that can be parsed.\<close>

definition hello_read :: "bus_pb \<Rightarrow> bus \<Rightarrow> int \<Rightarrow> u32 option" where
  "hello_read P s sock =
     (let (n, buf, w) = sys_read sock 1024 (b_os s)
      in if 26 \<le> n \<and> bh_CmdID (fst (BusHeader_Read buf 0)) = Cmd_HelloMessage then parse_Hello P (n - 26) (drop 26 buf) else None)"

lemma RecvHelloMessage_eq:
  assumes "mfind (m_PosConnMap s) l = Some u" "hello_read P s (m_SockID u) = Some k" "mfind (m_mapClusterInfo s) k = Some info"
  shows "RecvHelloMessage P s l =
    (let s = s\<lparr>b_os := snd (snd (sys_read (m_SockID u) 1024 (b_os s)))\<rparr>
     in if k \<noteq> m_ClusterID s \<and> (SocketID info = -1 \<or> ci_ConnPos info = 0) then map_option snd (ConnectCluster s k) else Some s)"
proof -
  obtain n buf w where R: "sys_read (m_SockID u) 1024 (b_os s) = (n, buf, w)" by (cases "sys_read (m_SockID u) 1024 (b_os s)")
  have H: "26 \<le> n" "bh_CmdID (fst (BusHeader_Read buf 0)) = Cmd_HelloMessage" "parse_Hello P (n - 26) (drop 26 buf) = Some k"
    using assms(2) by (auto simp: hello_read_def R split: if_splits)
  then have n: "n = int (length buf)" "26 \<le> length buf" using R by (auto simp: sys_read_def Let_def split: if_splits)
  obtain h o' where B: "BusHeader_Read (buf @ os_data w (os_tick w) @ replicate 1024 0) 0 = (h, o')"
    by (cases "BusHeader_Read (buf @ os_data w (os_tick w) @ replicate 1024 0) 0")
  have "mem_read (buf @ os_data w (os_tick w) @ replicate 1024 0) 0 26 = mem_read buf 0 26" using n(2) by (simp add: mem_read_def)
  then have "h = fst (BusHeader_Read buf 0)" "o' = 26"
    using B BusHeader_Read_slice [of buf 0] BusHeader_Read_slice [of "buf @ os_data w (os_tick w) @ replicate 1024 0" 0]
      snd_Read(1) [of buf 0] by simp_all
  moreover have "mem_read buf 26 (nat (n - 26)) = drop 26 buf" using n by (simp add: mem_read_def)
  ultimately show ?thesis using assms(1,3) H R B by (simp add: RecvHelloMessage_def Let_def)
qed

text \<open>
  C29: the last position of the cluster range is not recognised when its connection goes down: the
  entry of the cluster keeps naming it, every packet for the cluster then fails with -1, and a
  hello message of the cluster, on whatever connection its datagram is read, changes nothing: the cluster
  is not connected again.
\<close>
theorem last_position_stale:
  assumes k: "mfind (m_mapClusterInfo s) k = Some info" "ci_ConnPos info = CLUSTER_SOCK_CPOS_MAX" "SocketID info \<noteq> -1"
    and s': "s' = ReleaseConn s CLUSTER_SOCK_CPOS_MAX c"
  shows "mfind (m_mapClusterInfo s') k = Some info \<and> Send2Cluster s' info pkt = (-1, s')
    \<and> (\<forall>P l u. mfind (m_PosConnMap s') l = Some u \<and> hello_read P s' (m_SockID u) = Some k
         \<longrightarrow> (\<exists>w. RecvHelloMessage P s' l = Some (s'\<lparr>b_os := w\<rparr>)))"
proof -
  have p: "CLUSTER_SOCK_CPOS_MAX \<noteq> 0" by (simp add: cpos_defs)
  have r: "mfind (m_mapClusterInfo s') k = Some info" "mfind (m_PosConnMap s') CLUSTER_SOCK_CPOS_MAX = None"
    using k(1) by (simp_all add: s' ReleaseConn_def bcall0_eq Let_def)
  then have "Send2Cluster s' info pkt = (-1, s')" using k p by (simp add: Send2Cluster_def)
  then show ?thesis using r(1) RecvHelloMessage_eq [OF _ _ r(1)] k p by (auto simp: Let_def)
qed

section \<open>An example\<close>

text \<open>
  A bus with its listening socket and a connection to cluster 2. The scripted kernel accepts a
  connection on socket 9.
\<close>

definition link_example :: "int list \<Rightarrow> bus" where
  "link_example rs = bus_example\<lparr>b_os := os_example rs, m_ClusterPosCnt := 200001,
     m_PosConnMap := [(100, conn_example\<lparr>m_ConnPos := 100, m_SockID := 4\<rparr>), (200001, conn_example\<lparr>m_ConnPos := 200001, m_SockID := 7\<rparr>)],
     m_mapClusterInfo := [(1, ClusterInfo_new\<lparr>ci_ClusterID := 1\<rparr>),
                          (2, ClusterInfo_new\<lparr>ci_ClusterID := 2, SocketID := 7, ci_ConnPos := 200001\<rparr>)]\<rparr>"

lemma link_example_fields [simp]:
  "m_ClusterID (link_example rs) = 1" "b_os (link_example rs) = os_example rs"
  "m_PosConnMap (link_example rs) = [(100, conn_example\<lparr>m_ConnPos := 100, m_SockID := 4\<rparr>), (200001, conn_example\<lparr>m_ConnPos := 200001, m_SockID := 7\<rparr>)]"
  "m_mapClusterInfo (link_example rs) = [(1, ClusterInfo_new\<lparr>ci_ClusterID := 1\<rparr>),
     (2, ClusterInfo_new\<lparr>ci_ClusterID := 2, SocketID := 7, ci_ConnPos := 200001\<rparr>)]"
  "m_ClusterPosCnt (link_example rs) = 200001"
  by (simp_all add: link_example_def)

lemma link_example_inv: "link_inv (link_example rs)"
  by (simp add: link_inv_def links_def link_ok_def conns_ok_def conn_ok_def conn_example_def ClusterInfo_new_def
      ConnInfo_new_def sys_time_def sys_int_def smap_ok_def mkeys_def cluster_pos_def cpos_defs XY_MAXBUFF_LEN_def)

lemma AcceptConn_spec_witness:
  "\<exists>s' q c. AcceptConn (link_example [9]) 100 = Some (0, s') \<and> CLIENT_SOCK_CPOS_MIN \<le> q
     \<and> m_PosConnMap s' = minsert q c (m_PosConnMap (link_example [9])) \<and> m_SockID c = 9"
proof -
  define ret :: "nat \<Rightarrow> int" where "ret i = (if i = 0 then 9 else 0)" for i
  have ret: "ret i = os_ret (b_os (link_example [9])) (os_tick (b_os (link_example [9])) + i)" for i
    by (simp add: ret_def os_example_def)
  have l: "mfind (m_PosConnMap (link_example [9])) 100 = Some (conn_example\<lparr>m_ConnPos := 100, m_SockID := 4\<rparr>)" by simp
  have len: "length (m_PosConnMap (link_example [9])) < 4294667295" by simp
  have "ret 0 > 0" "ret 1 \<noteq> -1" "ret 2 \<noteq> -1" "ret 3 = 0" "ret 0 = 9" by (simp_all add: ret_def)
  with AcceptConn_spec [OF l len ret] show ?thesis by metis
qed

lemma ConnectCluster_spec_witness:
  "\<exists>r s'. ConnectCluster (link_example [0, 0, 8]) 2 = Some (r, s') \<and> link_inv s'"
  using ConnectCluster_spec [of "link_example [0, 0, 8]" 2, OF link_example_inv] by auto

lemma Send2Cluster_appends_witness:
  "\<exists>s' pending. Send2Cluster (link_example [2]) (ClusterInfo_new\<lparr>ci_ClusterID := 2, SocketID := 7, ci_ConnPos := 200001\<rparr>) [1, 2, 3] = (0, s')
    \<and> stream_step 7 (os_example [2]) (b_os s') (m_RemainSendData conn_example @ [1, 2, 3]) pending"
proof -
  let ?i = "ClusterInfo_new\<lparr>ci_ClusterID := 2, SocketID := 7, ci_ConnPos := 200001\<rparr>"
  obtain s' where S: "Send2Cluster (link_example [2]) ?i [1, 2, 3] = (0, s')"
    by (simp add: Send2Cluster_def send_or_store_def Send_def Send_new_def AddSendData_def sys_write_def sys_time_def sys_int_def
        would_block_def os_call_def os_example_def conn_example_def ConnInfo_new_def XY_MAXBUFF_LEN_def EAGAIN_def ClusterInfo_new_def Let_def)
  from Send2Cluster_appends [OF link_example_inv _ _ _ _ S, of 2] show ?thesis
    using S by (auto simp: cpos_defs)
qed

text \<open>Cluster 2 at the last position, a listening socket at 150, and a kernel that then reads hello messages of cluster 2.\<close>

definition stale_example :: bus where
  "stale_example = bus_example\<lparr>m_PosConnMap := [(150, conn_example\<lparr>m_ConnPos := 150, m_SockID := 4\<rparr>),
       (299999, conn_example\<lparr>m_ConnPos := 299999, m_SockID := 7\<rparr>)],
     m_mapClusterInfo := [(2, ClusterInfo_new\<lparr>ci_ClusterID := 2, SocketID := 7, ci_ConnPos := 299999\<rparr>)],
     b_os := (os_example [])\<lparr>os_data := \<lambda>_. BusHeader_bytes (header_example\<lparr>bh_CmdID := Cmd_HelloMessage\<rparr>) @ [2]\<rparr>\<rparr>"

theorem last_position_stale_witness:
  "let s' = ReleaseConn stale_example CLUSTER_SOCK_CPOS_MAX conn_example;
       P = pb_example\<lparr>parse_Hello := \<lambda>n b. case b of [x] \<Rightarrow> Some (ucast x) | _ \<Rightarrow> None\<rparr>
   in Send2Cluster s' (ClusterInfo_new\<lparr>ci_ClusterID := 2, SocketID := 7, ci_ConnPos := 299999\<rparr>) [1] = (-1, s')
    \<and> (\<exists>w. RecvHelloMessage P s' 150 = Some (s'\<lparr>b_os := w\<rparr>))"
proof -
  let ?s = "ReleaseConn stale_example CLUSTER_SOCK_CPOS_MAX conn_example"
  let ?P = "pb_example\<lparr>parse_Hello := \<lambda>n b. case b of [x] \<Rightarrow> Some (ucast x) | _ \<Rightarrow> None\<rparr>"
  let ?u = "conn_example\<lparr>m_ConnPos := 150, m_SockID := 4\<rparr>"
  let ?b = "BusHeader_bytes (header_example\<lparr>bh_CmdID := Cmd_HelloMessage\<rparr>) @ [2]"
  have d: "os_data (b_os ?s) = (\<lambda>_. ?b)" "os_ret (b_os ?s) = (\<lambda>_. 0)" "mfind (m_PosConnMap ?s) 150 = Some ?u"
    by (simp_all add: ReleaseConn_def bcall0_eq Let_def stale_example_def os_example_def cpos_defs os_call_def merase_def)
  then have "hello_read ?P ?s 4 = Some 2" by (simp add: hello_read_def sys_read_def Let_def)
  then show ?thesis
    using last_position_stale [OF _ _ _ refl, of stale_example 2
        "ClusterInfo_new\<lparr>ci_ClusterID := 2, SocketID := 7, ci_ConnPos := 299999\<rparr>" conn_example "[1]"] d(3)
    by (simp add: cpos_defs stale_example_def Let_def)
qed

text \<open>One round in which cluster 2 hangs up.\<close>

theorem Bus_Run_keeps_links_witness:
  "\<exists>L. Bus_Run pb_example (link_example []) [([(200001, EPOLLHUP)], [[1, 2]], [101])] = Some L \<and> link_inv (lp_bus L)"
proof -
  have "\<exists>s. handle_event pb_example (link_example []\<lparr>b_os := w\<rparr>) (200001, EPOLLHUP) = Some s" for w
    by (simp add: handle_event_def EPOLLHUP_def EPOLLERR_def cpos_defs)
  then obtain L where "Bus_Run pb_example (link_example []) [([(200001, EPOLLHUP)], [[1, 2]], [101])] = Some L"
    by (force simp: Bus_Run_def run_round_def bcall_eq Let_def case_prod_unfold split: option.split)
  with Bus_Run_keeps_links [OF link_example_inv this] show ?thesis by blast
qed

end
