(* ===== verification/BusInit.thy ===== *)
theory BusInit
  imports BusConn Setup
begin

text \<open>
  The start of the bus: \<open>CBus::Init\<close> reads its own configuration file and that of the whole system and
  builds the tables of clusters, servers and groups, the queues and the listening sockets.

  The theory shows that \<open>Init\<close>, when it returns 0, leaves consistent tables: they satisfy the
  invariants the event loop keeps, so that those hold from the start of the process on.
\<close>

section \<open>Reading the configuration\<close>

text \<open>The result, \<open>BusConfPath\<close>, and the members read from the own configuration file.\<close>

definition read_conf :: "surroundings \<Rightarrow> string \<Rightarrow> bus \<Rightarrow> (int \<times> string \<times> bus) option" where
  "read_conf E pConfFile s = do {
     f \<leftarrow> open_ini E pConfFile;
     if \<not> IsValid f then Some (-1, [], s)
     else do {
       (_, cid) \<leftarrow> GetInt f ''BUS'' ''ClusterID'' 0 (sint (m_ClusterID s));
       (_, udp) \<leftarrow> GetInt f ''BUS'' ''UDPHelloTime'' 0 (m_UDPHelloTime s);
       (_, tcp) \<leftarrow> GetInt f ''BUS'' ''TCPHelloTime'' 0 (m_TCPHelloTime s);
       (_, BusConfPath) \<leftarrow> GetString f ''BUS'' ''BusConfPath'' [] 256;
       (_, ModuleName) \<leftarrow> GetString f ''LOG'' ''ModuleName'' ''bus'' 256;
       (_, LogLocal) \<leftarrow> GetInt f ''LOG'' ''LogLocal'' 1 0;
       (_, LogLevel) \<leftarrow> GetInt f ''LOG'' ''LogLevel'' 3 0;
       (_, LogPath) \<leftarrow> GetString f ''LOG'' ''LogPath'' ''/dev/null'' 1024;
       let s = s\<lparr>m_ClusterID := word_of_int cid, m_UDPHelloTime := udp, m_TCPHelloTime := tcp\<rparr>;
       Some (if m_ClusterID s = 0 \<or> BusConfPath = [] \<or> ModuleName = [] then -1 else 0, BusConfPath, s)
     }
   }"

definition push_group :: "u32 \<Rightarrow> u32 \<Rightarrow> bus \<Rightarrow> bus" where
  "push_group g ServerID s = (case mfind (m_mapGrpInfo s) g of
     None \<Rightarrow> s\<lparr>m_mapGrpInfo := minsert g [ServerID] (m_mapGrpInfo s)\<rparr>
   | Some v \<Rightarrow> s\<lparr>m_mapGrpInfo := mupdate g (v @ [ServerID]) (m_mapGrpInfo s)\<rparr>)"

definition insert_server :: "u32 \<Rightarrow> ServerInfo \<Rightarrow> bus \<Rightarrow> int \<times> bus" where
  "insert_server ServerID Info s =
     (if mfind (m_mapSvrInfo s) ServerID \<noteq> None then (-1, s) else (0, s\<lparr>m_mapSvrInfo := minsert ServerID Info (m_mapSvrInfo s)\<rparr>))"

text \<open>One server of the cluster \<open>ClusterID\<close>: of this bus, then of another.\<close>

definition add_local_server :: "surroundings \<Rightarrow> inifile \<Rightarrow> u32 \<Rightarrow> u32 \<Rightarrow> bus \<Rightarrow> (int \<times> bus) option" where
  "add_local_server E BusFile ClusterID ServerID s = do {
     let strSvr = Format_d ''SERVER_'' ServerID;
     (_, c) \<leftarrow> GetInt BusFile strSvr ''ClusterID'' 0 0;
     (_, v) \<leftarrow> GetInt BusFile strSvr ''ServerID'' 0 0;
     (_, g) \<leftarrow> GetInt BusFile strSvr ''GroupID'' 0 0;
     (_, key) \<leftarrow> GetInt BusFile strSvr ''QueueKey'' 0 0;
     (_, sz) \<leftarrow> GetInt BusFile strSvr ''QueueSize'' 0 0;
     let tmpClusterID = (word_of_int c :: u32);
     let tmpSvrID = (word_of_int v :: u32);
     let tmpGroupID = (word_of_int g :: u32);
     if tmpClusterID = 0 \<or> tmpClusterID \<noteq> ClusterID \<or> tmpSvrID = 0 \<or> tmpSvrID \<noteq> ServerID \<or> tmpGroupID = 0
     then Some (-1, s)
     else do {
       let s = push_group tmpGroupID ServerID s;
       if key = 0 \<or> sz = 0 then Some (-1, s)
       else do {
         (r, q) \<leftarrow> open_queue E key sz;
         if r \<noteq> 0 then Some (-1, s)
         else Some (insert_server ServerID \<lparr>si_ClusterID = ClusterID, GroupID = tmpGroupID, Status = 0, QueueKey = key,
                QueueSize = sz, pQueue = q\<rparr> s)
       }
     }
   }"

definition add_remote_server :: "inifile \<Rightarrow> u32 \<Rightarrow> u32 \<Rightarrow> bus \<Rightarrow> (int \<times> bus) option" where
  "add_remote_server BusFile ClusterID ServerID s = do {
     let strSvr = Format_d ''SERVER_'' ServerID;
     (_, c) \<leftarrow> GetInt BusFile strSvr ''ClusterID'' 0 0;
     (_, g) \<leftarrow> GetInt BusFile strSvr ''GroupID'' 0 0;
     let tmpClusterID = (word_of_int c :: u32);
     let tmpGroupID = (word_of_int g :: u32);
     if tmpClusterID = 0 \<or> tmpClusterID \<noteq> ClusterID \<or> tmpGroupID = 0 then Some (-1, s)
     else Some (insert_server ServerID \<lparr>si_ClusterID = ClusterID, GroupID = tmpGroupID, Status = 0, QueueKey = 0,
            QueueSize = 0, pQueue = None\<rparr> (push_group tmpGroupID ServerID s))
   }"

text \<open>A step that returns an error ends \<open>Init\<close>.\<close>

definition and_then :: "(int \<times> bus) option \<Rightarrow> (bus \<Rightarrow> (int \<times> bus) option) \<Rightarrow> (int \<times> bus) option" where
  "and_then m f = do { (r, s) \<leftarrow> m; if r = 0 then f s else Some (r, s) }"

fun add_servers :: "surroundings \<Rightarrow> inifile \<Rightarrow> u32 \<Rightarrow> string list \<Rightarrow> bus \<Rightarrow> (int \<times> bus) option" where
  "add_servers E BusFile ClusterID [] s = Some (0, s)"
| "add_servers E BusFile ClusterID (tok # toks) s = do {
     ServerID \<leftarrow> token_id tok;
     and_then (if ClusterID = m_ClusterID s then add_local_server E BusFile ClusterID ServerID s
               else add_remote_server BusFile ClusterID ServerID s)
       (add_servers E BusFile ClusterID toks)
   }"

text \<open>The two listening sockets, for the own cluster.\<close>

definition open_listeners :: "surroundings \<Rightarrow> string \<Rightarrow> int \<Rightarrow> bus \<Rightarrow> int \<times> bus" where
  "open_listeners E CurIPStr CurPort s =
     (let (r, s) = ListenTcp s (env_inet_addr E CurIPStr) CurPort in if r \<noteq> 0 then (-1, s)
      else let (r, s) = ListenUdp s (env_inet_addr E CurIPStr) CurPort in if r \<noteq> 0 then (-1, s) else (0, s))"

text \<open>A cluster is entered in the table, then its sockets and its servers.\<close>

definition enter_cluster :: "surroundings \<Rightarrow> inifile \<Rightarrow> u32 \<Rightarrow> string \<Rightarrow> int \<Rightarrow> bus \<Rightarrow> (int \<times> bus) option" where
  "enter_cluster E BusFile ClusterID CurIPStr CurPort s = do {
     let CInfo = \<lparr>ClusterIP = env_inet_addr E CurIPStr, ClusterPort = word_of_int CurPort, ci_ClusterID = ClusterID,
           SocketID = -1, ci_ConnPos = 0\<rparr>;
     let s = s\<lparr>m_mapClusterInfo := minsert ClusterID CInfo (m_mapClusterInfo s)\<rparr>;
     and_then (Some (if ClusterID = m_ClusterID s then open_listeners E CurIPStr CurPort s else (0, s)))
       (\<lambda>s. do {
          (_, aszSvrList) \<leftarrow> GetString BusFile (Format_d ''CLUSTER_'' ClusterID) ''SrvList'' [] 1024;
          add_servers E BusFile ClusterID (strtok_all (CHR '','') aszSvrList) s
        })
   }"

definition add_cluster :: "surroundings \<Rightarrow> inifile \<Rightarrow> u32 \<Rightarrow> bus \<Rightarrow> (int \<times> bus) option" where
  "add_cluster E BusFile ClusterID s = do {
     let strCluster = Format_d ''CLUSTER_'' ClusterID;
     (_, CurIPStr) \<leftarrow> GetString BusFile strCluster ''ListenIP'' [] 16;
     (_, CurPort) \<leftarrow> GetInt BusFile strCluster ''ListenPort'' 0 0;
     (_, c) \<leftarrow> GetInt BusFile strCluster ''ClusterID'' 0 0;
     if CurIPStr = [] \<or> CurPort = 0 then Some (-1, s)
     else if word_of_int c \<noteq> ClusterID \<or> ClusterID = 0 then Some (-1, s)
     else if mfind (m_mapClusterInfo s) ClusterID \<noteq> None then Some (-1, s)
     else enter_cluster E BusFile ClusterID CurIPStr CurPort s
   }"

fun add_clusters :: "surroundings \<Rightarrow> inifile \<Rightarrow> u32 list \<Rightarrow> bus \<Rightarrow> (int \<times> bus) option" where
  "add_clusters E BusFile [] s = Some (0, s)"
| "add_clusters E BusFile (c # cs) s = and_then (add_cluster E BusFile c s) (add_clusters E BusFile cs)"

definition Bus_Init :: "surroundings \<Rightarrow> string \<Rightarrow> bus \<Rightarrow> (int \<times> bus) option" where
  "Bus_Init E pConfFile s = do {
     (r, BusConfPath, s) \<leftarrow> read_conf E pConfFile s;
     if r \<noteq> 0 then Some (-1, s)
     else do {
       let (fd, s) = bcall EvOther s;
       let s = s\<lparr>m_EpollFD := fd\<rparr>;
       if fd = -1 then Some (-1, s)
       else do {
         BusFile \<leftarrow> open_ini E BusConfPath;
         if \<not> IsValid BusFile then Some (-1, s)
         else do {
           (_, GCIMKey) \<leftarrow> GetInt BusFile ''BUS_GLOBAL'' ''GCIMKey'' 0 0;
           (_, GCIMSize) \<leftarrow> GetInt BusFile ''BUS_GLOBAL'' ''GCIMSize'' 0 0;
           (_, aszClusterList) \<leftarrow> GetString BusFile ''BUS_GLOBAL'' ''ClusterList'' [] 1024;
           if GCIMKey = 0 \<or> GCIMSize = 0 then Some (-1, s)
           else do {
             (r, q) \<leftarrow> open_queue E GCIMKey GCIMSize;
             if r \<noteq> 0 then Some (-1, s)
             else do {
               let s = (case q of None \<Rightarrow> s | Some q \<Rightarrow> s\<lparr>m_ClusterQueue := q\<rparr>);
               vctClusterID \<leftarrow> token_ids (strtok_all (CHR '','') aszClusterList);
               if vctClusterID = [] then Some (-1, s) else add_clusters E BusFile vctClusterID s
             }
           }
         }
       }
     }
   }"

section \<open>The tables \<open>Init\<close> leaves\<close>

text \<open>The servers a group address can reach.\<close>

definition group_set :: "bus \<Rightarrow> u32 \<Rightarrow> u32 set" where
  "group_set s g = (case mfind (m_mapGrpInfo s) g of None \<Rightarrow> {} | Some l \<Rightarrow> set l)"

text \<open>
  Every server is of a known cluster, has a queue exactly when that is the cluster of this bus, and
  the queue holds whole messages; the groups list every server once, in its own group.
\<close>

definition server_ok :: "bus \<Rightarrow> ServerInfo \<Rightarrow> bool" where
  "server_ok s Info \<longleftrightarrow> mfind (m_mapClusterInfo s) (si_ClusterID Info) \<noteq> None \<and> GroupID Info \<noteq> 0
     \<and> (pQueue Info \<noteq> None \<longleftrightarrow> si_ClusterID Info = m_ClusterID s)
     \<and> (\<forall>q. pQueue Info = Some q \<longrightarrow> (\<exists>ms. sq_rel q ms))"

definition servers_ok :: "bus \<Rightarrow> bool" where
  "servers_ok s \<longleftrightarrow> smap_ok (m_mapSvrInfo s) \<and> smap_ok (m_mapGrpInfo s)
     \<and> (\<forall>sid Info. mfind (m_mapSvrInfo s) sid = Some Info \<longrightarrow> server_ok s Info)
     \<and> (\<forall>g l. mfind (m_mapGrpInfo s) g = Some l \<longrightarrow> distinct l)
     \<and> (\<forall>g sid. sid \<in> group_set s g \<longleftrightarrow> (\<exists>Info. mfind (m_mapSvrInfo s) sid = Some Info \<and> GroupID Info = g))"

text \<open>Both listening sockets are open when the cluster of this bus is configured.\<close>

definition listening :: "bus \<Rightarrow> bool" where
  "listening s \<longleftrightarrow> (mfind (m_mapClusterInfo s) (m_ClusterID s) \<noteq> None \<longrightarrow>
     mfind (m_PosConnMap s) LISTEN_SOCK_CPOS_MIN \<noteq> None \<and> mfind (m_PosConnMap s) LISTEN_UDP_CPOS_MIN \<noteq> None)"

definition tables_ok :: "bus \<Rightarrow> bool" where
  "tables_ok s \<longleftrightarrow> link_inv s \<and> servers_ok s \<and> listening s"

lemma and_then_0: "and_then m f = Some (0, s') \<longleftrightarrow> (\<exists>s. m = Some (0, s) \<and> f s = Some (0, s'))"
  by (auto simp: and_then_def split: Option.bind_splits)

section \<open>One server\<close>

lemma group_set_push:
  assumes "smap_ok (m_mapGrpInfo s)"
  shows "group_set (push_group g sid s) g' = (if g' = g then insert sid (group_set s g) else group_set s g')"
  using assms by (auto simp: group_set_def push_group_def mfind_minsert split: option.splits)

lemma push_group_same [simp]:
  "m_mapSvrInfo (push_group g sid s) = m_mapSvrInfo s" "m_mapClusterInfo (push_group g sid s) = m_mapClusterInfo s"
  "m_ClusterID (push_group g sid s) = m_ClusterID s" "m_PosConnMap (push_group g sid s) = m_PosConnMap s"
  "m_ClusterPosCnt (push_group g sid s) = m_ClusterPosCnt s"
  by (simp_all add: push_group_def split: option.splits)

lemma push_group_distinct:
  assumes "smap_ok (m_mapGrpInfo s)" "\<forall>g l. mfind (m_mapGrpInfo s) g = Some l \<longrightarrow> distinct l" "sid \<notin> group_set s g"
  shows "\<forall>g' l. mfind (m_mapGrpInfo (push_group g sid s)) g' = Some l \<longrightarrow> distinct l"
  using assms by (auto simp: push_group_def group_set_def mfind_minsert split: option.splits if_splits)

lemma insert_server_ok:
  assumes "tables_ok s" "insert_server sid Info (push_group (GroupID Info) sid s) = (0, s')" "server_ok s Info"
  shows "tables_ok s'"
proof -
  let ?g = "GroupID Info"
  let ?p = "push_group ?g sid s"
  have ok: "smap_ok (m_mapSvrInfo s)" "smap_ok (m_mapGrpInfo s)" "\<And>sid Info. mfind (m_mapSvrInfo s) sid = Some Info \<Longrightarrow> server_ok s Info"
    "\<forall>g l. mfind (m_mapGrpInfo s) g = Some l \<longrightarrow> distinct l"
    "\<And>g sid. sid \<in> group_set s g \<longleftrightarrow> (\<exists>Info. mfind (m_mapSvrInfo s) sid = Some Info \<and> GroupID Info = g)"
    using assms(1) unfolding tables_ok_def servers_ok_def by blast+
  have new: "mfind (m_mapSvrInfo s) sid = None" and s': "s' = ?p\<lparr>m_mapSvrInfo := minsert sid Info (m_mapSvrInfo s)\<rparr>"
    using assms(2) by (auto simp: insert_server_def split: if_splits)
  have grp: "group_set s' g' = group_set ?p g'" for g' by (simp add: group_set_def s')
  have fd: "mfind (m_mapSvrInfo s') sid' = (if sid' = sid then Some Info else mfind (m_mapSvrInfo s) sid')" for sid'
    using new ok(1) by (auto simp: s' mfind_minsert)
  have svr: "server_ok s' I \<longleftrightarrow> server_ok s I" for I by (simp add: server_ok_def s')
  have "sid \<notin> group_set s ?g" using ok(5) new by simp
  then have d: "\<forall>g l. mfind (m_mapGrpInfo s') g = Some l \<longrightarrow> distinct l"
    using push_group_distinct [OF ok(2,4)] by (simp add: s')
  have m: "smap_ok (m_mapSvrInfo s')" "smap_ok (m_mapGrpInfo s')"
    using ok(1,2) by (auto simp: s' push_group_def smap_ok_minsert split: option.splits)
  have "sid' \<in> group_set s' g' \<longleftrightarrow> (\<exists>I. mfind (m_mapSvrInfo s') sid' = Some I \<and> GroupID I = g')" for g' sid'
    using ok(5) [of sid' g'] new by (auto simp: grp group_set_push [OF ok(2)] fd)
  moreover have "server_ok s' I" if "mfind (m_mapSvrInfo s') sid' = Some I" for sid' I
    using that ok(3) assms(3) by (auto simp: svr fd split: if_splits)
  moreover have "link_inv s'" "listening s'"
    using assms(1) by (simp_all add: tables_ok_def link_inv_def listening_def s')
  ultimately show ?thesis using m d unfolding tables_ok_def servers_ok_def by blast
qed

lemma insert_server_same:
  assumes "insert_server sid Info (push_group g sid s) = (0, s')"
  shows "m_ClusterID s' = m_ClusterID s" "m_mapClusterInfo s' = m_mapClusterInfo s" "m_PosConnMap s' = m_PosConnMap s"
  using assms by (auto simp: insert_server_def split: if_splits)

lemma add_server_ok:
  assumes "tables_ok s" "segments_ok E" "mfind (m_mapClusterInfo s) c \<noteq> None"
    and "(if c = m_ClusterID s then add_local_server E F c sid s else add_remote_server F c sid s) = Some (0, s')"
  shows "tables_ok s' \<and> m_ClusterID s' = m_ClusterID s \<and> m_mapClusterInfo s' = m_mapClusterInfo s"
proof (cases "c = m_ClusterID s")
  case True
  then obtain g key sz q where g: "g \<noteq> 0" and Q: "open_queue E key sz = Some (0, q)"
    and I: "insert_server sid \<lparr>si_ClusterID = c, GroupID = g, Status = 0, QueueKey = key, QueueSize = sz, pQueue = q\<rparr>
      (push_group g sid s) = (0, s')" (is "insert_server sid ?I _ = _")
    using assms(4) by (auto simp: add_local_server_def Let_def split: Option.bind_splits if_splits)
  obtain q' where q': "q = Some q'" using open_queue_0 [OF Q] by blast
  then obtain ms where "sq_rel q' ms" using assms(2) Q unfolding segments_ok_def by blast
  then have "server_ok s ?I" using assms(3) g q' True by (auto simp: server_ok_def)
  then show ?thesis using insert_server_ok [OF assms(1), of sid ?I] insert_server_same I by auto
next
  case False
  then obtain g where g: "g \<noteq> 0"
    and I: "insert_server sid \<lparr>si_ClusterID = c, GroupID = g, Status = 0, QueueKey = 0, QueueSize = 0, pQueue = None\<rparr>
      (push_group g sid s) = (0, s')" (is "insert_server sid ?I _ = _")
    using assms(4) by (auto simp: add_remote_server_def Let_def split: Option.bind_splits if_splits)
  then have "server_ok s ?I" using assms(3) False by (auto simp: server_ok_def)
  then show ?thesis using insert_server_ok [OF assms(1), of sid ?I] insert_server_same I by auto
qed

lemma add_servers_ok:
  assumes "tables_ok s" "segments_ok E" "mfind (m_mapClusterInfo s) c \<noteq> None" "add_servers E F c toks s = Some (0, s')"
  shows "tables_ok s' \<and> m_ClusterID s' = m_ClusterID s \<and> m_mapClusterInfo s' = m_mapClusterInfo s"
  using assms(1,3,4)
proof (induction toks arbitrary: s)
  case (Cons tok toks)
  then obtain sid s1 where
    s1: "(if c = m_ClusterID s then add_local_server E F c sid s else add_remote_server F c sid s) = Some (0, s1)"
      "add_servers E F c toks s1 = Some (0, s')"
    by (auto simp: and_then_0 split: Option.bind_splits)
  note A = add_server_ok [OF Cons.prems(1) assms(2) Cons.prems(2) s1(1)]
  then show ?case using Cons.IH [OF _ _ s1(2)] Cons.prems(2) by auto
qed simp

section \<open>One cluster\<close>

definition opened :: "bus \<Rightarrow> u32 \<Rightarrow> bus \<Rightarrow> bool" where
  "opened s p s' \<longleftrightarrow> (\<exists>c w. mfind (m_PosConnMap s) p = None \<and> conn_ok p c
     \<and> s' = s\<lparr>b_os := w, m_PosConnMap := minsert p c (m_PosConnMap s)\<rparr>)"

lemma opened_os: "opened (s\<lparr>b_os := w\<rparr>) p s' = opened s p s'"
  by (simp add: opened_def)

lemma add_conn_0: "add_conn s p sock ra la = (0, s') \<Longrightarrow> opened s p s'"
proof -
  assume a: "add_conn s p sock ra la = (0, s')"
  then have n: "mfind (m_PosConnMap s) p = None" by (auto simp: add_conn_def Let_def split: if_splits prod.splits)
  obtain t w where "s' = s\<lparr>b_os := w, m_PosConnMap := minsert p (new_conn p sock ra la t) (m_PosConnMap s)\<rparr>"
    using add_conn_eq [OF n, of sock ra la] a by auto
  moreover have "conn_ok p (new_conn p sock ra la t)" by (simp add: conn_ok_def new_conn_def)
  ultimately show ?thesis using n unfolding opened_def by blast
qed

lemma listen_opened:
  "ListenTcp s ip port = (0, s') \<Longrightarrow> opened s LISTEN_SOCK_CPOS_MIN s'"
  "ListenUdp s ip port = (0, s') \<Longrightarrow> opened s LISTEN_UDP_CPOS_MIN s'"
  by (auto simp: ListenTcp_def ListenUdp_def bcall_eq Let_def opened_os dest!: add_conn_0 split: if_splits)

lemma link_inv_insert:
  assumes "link_inv s" "mfind (m_PosConnMap s) p = None" "conn_ok p c"
  shows "link_inv (s\<lparr>b_os := w, m_PosConnMap := minsert p c (m_PosConnMap s)\<rparr>)"
  using assms links_insert [of "m_ClusterID s" "m_PosConnMap s" "m_mapClusterInfo s" p c]
  by (auto simp: link_inv_def conns_ok_def mfind_minsert linksD(1) split: if_splits)

lemma servers_ok_conns: "servers_ok (s\<lparr>b_os := w, m_PosConnMap := m\<rparr>) = servers_ok s"
  by (simp add: servers_ok_def server_ok_def group_set_def)

lemma open_listeners_ok:
  assumes "link_inv s" "servers_ok s" "open_listeners E ip port s = (0, s')"
  shows "tables_ok s' \<and> m_ClusterID s' = m_ClusterID s \<and> m_mapClusterInfo s' = m_mapClusterInfo s"
proof -
  obtain s1 where L: "ListenTcp s (env_inet_addr E ip) port = (0, s1)" "ListenUdp s1 (env_inet_addr E ip) port = (0, s')"
    using assms(3) by (auto simp: open_listeners_def Let_def split: prod.splits if_splits)
  from listen_opened(1) [OF L(1)] obtain c w where c: "mfind (m_PosConnMap s) LISTEN_SOCK_CPOS_MIN = None" "conn_ok LISTEN_SOCK_CPOS_MIN c"
    "s1 = s\<lparr>b_os := w, m_PosConnMap := minsert LISTEN_SOCK_CPOS_MIN c (m_PosConnMap s)\<rparr>" unfolding opened_def by blast
  from listen_opened(2) [OF L(2)] obtain c' w' where c': "mfind (m_PosConnMap s1) LISTEN_UDP_CPOS_MIN = None" "conn_ok LISTEN_UDP_CPOS_MIN c'"
    "s' = s1\<lparr>b_os := w', m_PosConnMap := minsert LISTEN_UDP_CPOS_MIN c' (m_PosConnMap s1)\<rparr>" unfolding opened_def by blast
  have I: "link_inv s1" using link_inv_insert [OF assms(1) c(1,2)] c(3) by simp
  then have I': "link_inv s'" using link_inv_insert [OF I c'(1,2)] c'(3) by simp
  have sv: "servers_ok s'" using assms(2) by (simp add: c'(3) c(3) servers_ok_conns)
  have "smap_ok (m_PosConnMap s)" "smap_ok (m_PosConnMap s1)"
    using assms(1) I by (auto simp: link_inv_def dest: linksD(1))
  then have "listening s'"
    using c(1) c'(1) by (auto simp: listening_def c'(3) mfind_minsert) (auto simp: c(3) mfind_minsert)
  with I' sv show ?thesis by (simp add: tables_ok_def c'(3) c(3))
qed

lemma add_cluster_info:
  assumes "link_inv s" "servers_ok s" "mfind (m_mapClusterInfo s) k = None" "ci_ClusterID info = k" "SocketID info = -1" "ci_ConnPos info = 0"
  defines "s' \<equiv> s\<lparr>m_mapClusterInfo := minsert k info (m_mapClusterInfo s)\<rparr>"
  shows "link_inv s'" "servers_ok s'"
proof -
  have L: "links (m_ClusterID s) (m_PosConnMap s) (m_mapClusterInfo s)" using assms(1) by (simp add: link_inv_def)
  have f: "mfind (minsert k info (m_mapClusterInfo s)) k' = (if k' = k then Some info else mfind (m_mapClusterInfo s) k')" for k'
    using linksD(2) [OF L] assms(3) by (simp add: mfind_minsert)
  have "links (m_ClusterID s) (m_PosConnMap s) (minsert k info (m_mapClusterInfo s))"
    using L assms(4-6) unfolding links_def f by (auto simp: link_ok_def smap_ok_minsert split: if_splits)
  then show "link_inv s'" using assms(1) by (simp add: link_inv_def s'_def)
  have "server_ok s I \<Longrightarrow> server_ok s' I" for I by (auto simp: server_ok_def s'_def f)
  then show "servers_ok s'" using assms(2) by (auto simp: servers_ok_def s'_def group_set_def)
qed

lemma enter_cluster_ok:
  assumes "tables_ok s" "segments_ok E" "mfind (m_mapClusterInfo s) c = None" "enter_cluster E F c ip port s = Some (0, s')"
  shows "tables_ok s' \<and> m_ClusterID s' = m_ClusterID s \<and> mfind (m_mapClusterInfo s') c \<noteq> None
    \<and> (\<forall>k. mfind (m_mapClusterInfo s) k \<noteq> None \<longrightarrow> mfind (m_mapClusterInfo s') k \<noteq> None)"
proof -
  note new = assms(3)
  let ?info = "\<lparr>ClusterIP = env_inet_addr E ip, ClusterPort = word_of_int port, ci_ClusterID = c, SocketID = -1, ci_ConnPos = 0\<rparr>"
  let ?s = "s\<lparr>m_mapClusterInfo := minsert c ?info (m_mapClusterInfo s)\<rparr>"
  obtain toks s1 where s': "add_servers E F c toks s1 = Some (0, s')"
    and s1: "(if c = m_ClusterID s then open_listeners E ip port ?s else (0, ?s)) = (0, s1)"
    using assms(4) unfolding enter_cluster_def Let_def and_then_0 by (auto split: Option.bind_splits)
  define info where "info = ?info"
  have info: "ci_ClusterID info = c" "SocketID info = -1" "ci_ConnPos info = 0" by (simp_all add: info_def)
  let ?s = "s\<lparr>m_mapClusterInfo := minsert c info (m_mapClusterInfo s)\<rparr>"
  note s1 = s1 [folded info_def]
  have t: "link_inv s" "servers_ok s" "listening s" using assms(1) by (simp_all add: tables_ok_def)
  note A = add_cluster_info [OF t(1,2) new info]
  have f: "mfind (m_mapClusterInfo ?s) k = (if k = c then Some info else mfind (m_mapClusterInfo s) k)" for k
    using linksD(2) [of "m_ClusterID s" "m_PosConnMap s" "m_mapClusterInfo s"] t(1) new
    by (simp add: link_inv_def mfind_minsert)
  have B: "tables_ok s1 \<and> m_ClusterID s1 = m_ClusterID ?s \<and> m_mapClusterInfo s1 = m_mapClusterInfo ?s"
  proof (cases "c = m_ClusterID s")
    case True
    then have "open_listeners E ip port ?s = (0, s1)" using s1 by (simp only: if_True simp_thms)
    then show ?thesis by (rule open_listeners_ok [OF A])
  next
    case False
    then have "listening ?s" using t(3) unfolding listening_def f by simp
    moreover have "s1 = ?s" using s1 False by simp
    ultimately show ?thesis using A by (simp add: tables_ok_def)
  qed
  then have g: "mfind (m_mapClusterInfo s1) k = (if k = c then Some info else mfind (m_mapClusterInfo s) k)" for k
    using f [of k] by simp
  then have "mfind (m_mapClusterInfo s1) c \<noteq> None" by simp
  from add_servers_ok [OF _ assms(2) this s'] B
  have "tables_ok s'" "m_ClusterID s' = m_ClusterID s" "m_mapClusterInfo s' = m_mapClusterInfo s1" by simp_all
  then show ?thesis using g by simp
qed

lemma add_cluster_ok:
  assumes "tables_ok s" "segments_ok E" "add_cluster E F c s = Some (0, s')"
  shows "tables_ok s' \<and> m_ClusterID s' = m_ClusterID s \<and> mfind (m_mapClusterInfo s') c \<noteq> None
    \<and> (\<forall>k. mfind (m_mapClusterInfo s) k \<noteq> None \<longrightarrow> mfind (m_mapClusterInfo s') k \<noteq> None)"
proof -
  obtain ip port where "mfind (m_mapClusterInfo s) c = None" "enter_cluster E F c ip port s = Some (0, s')"
    using assms(3) by (auto simp: add_cluster_def Let_def split: Option.bind_splits if_splits)
  then show ?thesis by (rule enter_cluster_ok [OF assms(1,2)])
qed

lemma add_clusters_ok:
  assumes "tables_ok s" "segments_ok E" "add_clusters E F cs s = Some (0, s')"
  shows "tables_ok s' \<and> m_ClusterID s' = m_ClusterID s \<and> (\<forall>c\<in>set cs. mfind (m_mapClusterInfo s') c \<noteq> None)
    \<and> (\<forall>k. mfind (m_mapClusterInfo s) k \<noteq> None \<longrightarrow> mfind (m_mapClusterInfo s') k \<noteq> None)"
  using assms
proof (induction cs arbitrary: s)
  case (Cons c cs)
  then obtain s1 where s1: "add_cluster E F c s = Some (0, s1)" "add_clusters E F cs s1 = Some (0, s')" by (auto simp: and_then_0)
  note A = add_cluster_ok [OF Cons.prems(1,2) s1(1)]
  then show ?case using Cons.IH [OF _ Cons.prems(2) s1(2)] by auto
qed simp

text \<open>The state in which \<open>Init\<close> starts to read the clusters.\<close>

definition blank :: "bus \<Rightarrow> bool" where
  "blank s \<longleftrightarrow> m_PosConnMap s = [] \<and> m_mapClusterInfo s = [] \<and> m_mapSvrInfo s = [] \<and> m_mapGrpInfo s = []
     \<and> m_ClusterPosCnt s = 0 \<and> m_ClusterID s \<noteq> 0"

lemma Bus_Init_tables:
  assumes "segments_ok E" "Bus_Init E path (Bus_new q w) = Some (0, s)"
  shows "tables_ok s \<and> m_ClusterID s \<noteq> 0"
proof -
  obtain F cs s1 where A: "add_clusters E F cs s1 = Some (0, s)" and b: "blank s1"
    using assms(2)
    by (auto simp: Bus_Init_def read_conf_def blank_def Bus_new_def bcall_eq Let_def
        split: Option.bind_splits if_splits option.splits)
  note s1 = b [unfolded blank_def]
  have "tables_ok s1"
    by (simp add: tables_ok_def link_inv_def links_def conns_ok_def servers_ok_def group_set_def listening_def s1)
  with add_clusters_ok [OF _ assms(1) A] s1 show ?thesis by simp
qed

lemma tables_ok_queues: "tables_ok s \<Longrightarrow> \<exists>Q. bus_queues s Q"
proof -
  assume t: "tables_ok s"
  have "\<exists>ms. \<forall>Info q. mfind (m_mapSvrInfo s) sid = Some Info \<longrightarrow> pQueue Info = Some q \<longrightarrow> sq_rel q ms" for sid
    using t unfolding tables_ok_def servers_ok_def server_ok_def by (metis option.inject)
  then show ?thesis unfolding bus_queues_def by metis
qed

section \<open>From the start on\<close>

text \<open>
  when \<open>Init\<close> returns 0, the cluster and connection tables satisfy the invariant of the event loop,
  every queue of a server is well-formed, every server belongs to a configured cluster and has a queue exactly
  when it is a server of this bus, every group lists its servers once and no others, and the two
  listening sockets are open if the cluster of this bus is among the configured ones.
\<close>
lemma Bus_Init_establishes:
  assumes "segments_ok E" "Bus_Init E path (Bus_new q w) = Some (0, s)"
  shows "link_inv s \<and> (\<exists>Q. bus_queues s Q)
    \<and> (\<forall>sid Info. mfind (m_mapSvrInfo s) sid = Some Info \<longrightarrow>
         mfind (m_mapClusterInfo s) (si_ClusterID Info) \<noteq> None \<and> (pQueue Info \<noteq> None \<longleftrightarrow> si_ClusterID Info = m_ClusterID s))
    \<and> (\<forall>g l. mfind (m_mapGrpInfo s) g = Some l \<longrightarrow>
         distinct l \<and> (\<forall>sid. sid \<in> set l \<longleftrightarrow> (\<exists>Info. mfind (m_mapSvrInfo s) sid = Some Info \<and> GroupID Info = g)))
    \<and> listening s"
proof -
  have t: "tables_ok s" using Bus_Init_tables [OF assms] by simp
  have "sid \<in> set l \<longleftrightarrow> (\<exists>Info. mfind (m_mapSvrInfo s) sid = Some Info \<and> GroupID Info = g)"
    if "mfind (m_mapGrpInfo s) g = Some l" for g l sid
  proof -
    have "set l = group_set s g" using that by (simp add: group_set_def)
    then show ?thesis using t unfolding tables_ok_def servers_ok_def by blast
  qed
  moreover have "distinct l" if "mfind (m_mapGrpInfo s) g = Some l" for g l
    using t that unfolding tables_ok_def servers_ok_def by blast
  moreover have "server_ok s Info" if "mfind (m_mapSvrInfo s) sid = Some Info" for sid Info
    using t that unfolding tables_ok_def servers_ok_def by blast
  ultimately show ?thesis using t tables_ok_queues [OF t] unfolding tables_ok_def server_ok_def by blast
qed

text \<open>A small system: one cluster with one server.\<close>

definition init_conf :: string where
  "init_conf = ''[BUS]'' @ [LF] @ ''ClusterID=1'' @ [LF] @ ''BusConfPath=b'' @ [LF]"

definition init_net :: string where
  "init_net = ''[BUS_GLOBAL]'' @ [LF] @ ''GCIMKey=1'' @ [LF] @ ''GCIMSize=64'' @ [LF] @ ''ClusterList=1'' @ [LF] @
     ''[CLUSTER_1]'' @ [LF] @ ''ListenIP=h'' @ [LF] @ ''ListenPort=5'' @ [LF] @ ''ClusterID=1'' @ [LF] @ ''SrvList=7'' @ [LF] @
     ''[SERVER_7]'' @ [LF] @ ''ClusterID=1'' @ [LF] @ ''ServerID=7'' @ [LF] @ ''GroupID=3'' @ [LF] @ ''QueueKey=2'' @ [LF] @
     ''QueueSize=64'' @ [LF]"

definition init_env :: surroundings where
  "init_env = \<lparr>env_file = (\<lambda>p. let t = (if p = ''b'' then init_net else init_conf) in (Some (int (length t)), True, Some t)),
     env_inet_addr = (\<lambda>_. 5), env_shm = (\<lambda>_ _. (ShmSuccess, True, replicate 16 0, True))\<rparr>"

definition init_os :: os where
  "init_os = \<lparr>os_ret = (\<lambda>_. 0), os_errno = (\<lambda>_. 0), os_data = (\<lambda>_. []), os_addr = (\<lambda>_. sockaddr0), os_tick = 0, os_trace = []\<rparr>"

lemma init_env_segments: "segments_ok init_env"
  using new_segments_ok [of init_env "replicate 16 0"] by (simp add: init_env_def)

lemma init_example:
  "\<exists>s. Bus_Init init_env ''a'' (Bus_new queue_example init_os) = Some (0, s) \<and> mfind (m_mapClusterInfo s) (m_ClusterID s) \<noteq> None"
proof -
  have "map_option (\<lambda>(r, s). r = 0 \<and> mfind (m_mapClusterInfo s) (m_ClusterID s) \<noteq> None)
      (Bus_Init init_env ''a'' (Bus_new queue_example init_os)) = Some True" by code_simp
  then show ?thesis by (auto split: prod.splits)
qed

lemma Bus_Init_establishes_witness:
  "\<exists>s. Bus_Init init_env ''a'' (Bus_new queue_example init_os) = Some (0, s) \<and> link_inv s \<and> (\<exists>Q. bus_queues s Q) \<and> listening s"
proof -
  obtain s where s: "Bus_Init init_env ''a'' (Bus_new queue_example init_os) = Some (0, s)" using init_example by blast
  from Bus_Init_establishes [OF init_env_segments s] s show ?thesis by blast
qed

end
