(* ===== verification/Conn.thy ===== *)
theory Conn
  imports Bus HashList
begin

text \<open>
  The connection server \<open>CConn\<close> (\<^verbatim>\<open>conn/conn.cpp\<close>, \<^verbatim>\<open>conn/conn.h\<close>): clients connect to it by TCP, it
  forwards their packets to the authentication and user servers through the bus and the answers
  back, and it keeps the table of users that are logged in anywhere (\<open>m_GnsInfoMap\<close>, a
  shared-memory hash table), which the connection servers synchronise with each other by login,
  disconnect and sync messages.

  The connection of \<^verbatim>\<open>conn.cpp\<close> is the one of \<^verbatim>\<open>bus.cpp\<close> with a type and a user; its methods are the
  same code, so they are the operations of \<open>ConnBuf\<close> on the extended record. An operation has
  result \<open>None\<close> where the C++ code does not return or its behaviour is undefined. The generated
  protobuf code is the parameter \<open>P\<close>.
\<close>

section \<open>Constants and state\<close>

definition Conn_LISTEN_SOCK_CPOS_MIN :: u32 where "Conn_LISTEN_SOCK_CPOS_MIN = 100"
definition Conn_LISTEN_SOCK_CPOS_MAX :: u32 where "Conn_LISTEN_SOCK_CPOS_MAX = 199"
definition Conn_CLIENT_SOCK_CPOS_MIN :: u32 where "Conn_CLIENT_SOCK_CPOS_MIN = 500"

lemmas conn_cpos_defs = Conn_LISTEN_SOCK_CPOS_MIN_def Conn_LISTEN_SOCK_CPOS_MAX_def Conn_CLIENT_SOCK_CPOS_MIN_def

definition CONN_UNAUTH :: int where "CONN_UNAUTH = 0"
definition CONN_AUTH :: int where "CONN_AUTH = 1"

definition GNS_USER_STATUS_ACTIVE :: int where "GNS_USER_STATUS_ACTIVE = 0"
definition GNS_USER_STATUS_UNACTIVE :: int where "GNS_USER_STATUS_UNACTIVE = 1"

definition BUS_SVR_ONLINE :: int where "BUS_SVR_ONLINE = 0"

definition MAX_USER_SERVER_NUM :: u64 where "MAX_USER_SERVER_NUM = 2"
definition CONN_INVALID_TIME :: int where "CONN_INVALID_TIME = 86400"
definition GROUP_CONN :: u32 where "GROUP_CONN = 100"
definition GROUP_AUTH :: u32 where "GROUP_AUTH = 200"
definition SERVER_USER_BEGIN :: u64 where "SERVER_USER_BEGIN = 400"

definition CMD_PREFIX_CONN :: u32 where "CMD_PREFIX_CONN = 1"
definition CMD_PREFIX_AUTH :: u32 where "CMD_PREFIX_AUTH = 2"
definition CMD_PREFIX_USER :: u32 where "CMD_PREFIX_USER = 4"

definition Cmd_Transfer :: u32 where "Cmd_Transfer = 3"
definition Cmd_Disconnect :: u32 where "Cmd_Disconnect = 0x00010003"
definition Cmd_LoginNotice :: u32 where "Cmd_LoginNotice = 0x00010004"
definition Cmd_LoginSync_Req :: u32 where "Cmd_LoginSync_Req = 0x00010005"
definition Cmd_LoginSync_Rsp :: u32 where "Cmd_LoginSync_Rsp = 0x00010006"
definition Cmd_Auth_Register_Req :: u32 where "Cmd_Auth_Register_Req = 0x00020001"
definition Cmd_Auth_Register_Rsp :: u32 where "Cmd_Auth_Register_Rsp = 0x00020002"
definition Cmd_Auth_Login_Req :: u32 where "Cmd_Auth_Login_Req = 0x00020003"
definition Cmd_Auth_Login_Rsp :: u32 where "Cmd_Auth_Login_Rsp = 0x00020004"
definition Cmd_User_Register_Req :: u32 where "Cmd_User_Register_Req = 0x00040001"
definition Cmd_User_Register_Rsp :: u32 where "Cmd_User_Register_Rsp = 0x00040002"

lemmas conn_cmd_defs = Cmd_Disconnect_def Cmd_LoginNotice_def Cmd_LoginSync_Req_def Cmd_LoginSync_Rsp_def
  Cmd_Auth_Register_Req_def Cmd_Auth_Register_Rsp_def Cmd_Auth_Login_Req_def Cmd_Auth_Login_Rsp_def
  Cmd_User_Register_Req_def Cmd_User_Register_Rsp_def

text \<open>The user server a user belongs to.\<close>

definition GetUserServer :: "u64 \<Rightarrow> int" where
  "GetUserServer UserID = sint (ucast (SERVER_USER_BEGIN + (UserID div 100) mod MAX_USER_SERVER_NUM + 1) :: u32)"

record connx = conninfo +
  m_ConnType :: int
  m_UserID :: u64

record ShmGnsInfo =
  gns_UserID :: u64
  gns_ServerID :: int
  gns_ConnPos :: u32
  gns_Status :: int
  gns_LastActiveTime :: u64

record LoginData =
  ld_UserID :: u64
  ld_ServerID :: int
  ld_ConnPos :: u32
  ld_LastActiveTime :: u64

record RegisterInfo =
  ri_passwd :: string
  ri_nickname :: string
  ri_sex :: int
  ri_birthday :: u64
  ri_telno :: string
  ri_address :: string
  ri_email :: string

text \<open>
  The messages of \<^verbatim>\<open>app.proto\<close>, \<^verbatim>\<open>mm.proto\<close> and \<^verbatim>\<open>bus.proto\<close> the server parses and serialises. A parser gets
  the size argument and the bytes there. \<open>AuthRegisterRsp\<close> and \<open>UserRegisterReq\<close> have no password.
\<close>

record conn_pb =
  parse_LoginReq :: "int \<Rightarrow> byte list \<Rightarrow> (u64 \<times> string \<times> int) option"
  parse_RegisterReq :: "int \<Rightarrow> byte list \<Rightarrow> RegisterInfo option"
  parse_AuthRegisterRsp :: "int \<Rightarrow> byte list \<Rightarrow> (int \<times> u64 \<times> RegisterInfo) option"
  parse_UserRegisterRsp :: "int \<Rightarrow> byte list \<Rightarrow> (int \<times> u64) option"
  parse_AuthLoginRsp :: "int \<Rightarrow> byte list \<Rightarrow> (int \<times> int) option"
  parse_LoginNotice :: "int \<Rightarrow> byte list \<Rightarrow> LoginData list option"
  parse_LoginDisconnect :: "int \<Rightarrow> byte list \<Rightarrow> LoginData list option"
  parse_LoginSyncReq :: "int \<Rightarrow> byte list \<Rightarrow> int option"
  parse_LoginSyncRsp :: "int \<Rightarrow> byte list \<Rightarrow> LoginData list option"
  ser_AuthLoginReq :: "u64 \<Rightarrow> string \<Rightarrow> int \<Rightarrow> byte list"
  ser_AuthRegisterReq :: "RegisterInfo \<Rightarrow> byte list"
  ser_UserRegisterReq :: "u64 \<Rightarrow> RegisterInfo \<Rightarrow> byte list"
  ser_RegisterRsp :: "int \<Rightarrow> u64 \<Rightarrow> byte list"
  ser_LoginRsp :: "int \<Rightarrow> byte list"
  ser_LoginNotice :: "LoginData list \<Rightarrow> byte list"
  ser_LoginDisconnect :: "LoginData list \<Rightarrow> byte list"
  ser_LoginSyncReq :: "int \<Rightarrow> byte list"
  ser_LoginSyncRsp :: "LoginData list \<Rightarrow> byte list"
  ser_StateChange :: "int \<Rightarrow> int \<Rightarrow> byte list"
  ser_ErrorMsg :: "int \<Rightarrow> byte list"

text \<open>
  The iterator \<open>m_itrCurCheckConn\<close> is the key it points to, \<open>None\<close> at the end of the map. The buffer
  \<open>m_pSendBuff\<close> is not part of the state: whatever is sent from it has just been written there.
\<close>

record conn =
  c_EpollFD :: int
  m_ServerID :: int
  m_StateTime :: int
  c_ConnPosCnt :: u32
  c_PosConnMap :: "connx smap"
  m_itrCurCheckConn :: "u32 option"
  m_CheckConnPos :: int
  m_TimeOut :: int
  m_RecvQueue :: shmqueue
  m_SendQueue :: shmqueue
  m_pProcessBuff :: "byte list"
  m_MaxGnsNodeNum :: int
  m_GnsInfoMap :: "ShmGnsInfo hashlist"
  c_os :: os

definition Conn_new :: "shmqueue \<Rightarrow> shmqueue \<Rightarrow> byte list \<Rightarrow> int \<Rightarrow> ShmGnsInfo hashlist \<Rightarrow> os \<Rightarrow> conn" where
  "Conn_new rq sq buf n gns w = \<lparr>c_EpollFD = -1, m_ServerID = 0, m_StateTime = 0, c_ConnPosCnt = 0,
     c_PosConnMap = [], m_itrCurCheckConn = None, m_CheckConnPos = 0, m_TimeOut = 0,
     m_RecvQueue = rq, m_SendQueue = sq, m_pProcessBuff = buf, m_MaxGnsNodeNum = n, m_GnsInfoMap = gns, c_os = w\<rparr>"

definition ccall :: "event \<Rightarrow> conn \<Rightarrow> int \<times> conn" where
  "ccall ev s = (let (r, w) = sys_int ev (c_os s) in (r, s\<lparr>c_os := w\<rparr>))"

definition ccall0 :: "event \<Rightarrow> conn \<Rightarrow> conn" where
  "ccall0 ev s = snd (ccall ev s)"

definition next_key :: "'c smap \<Rightarrow> u32 \<Rightarrow> u32 option" where
  "next_key m k = (case filter (\<lambda>x. k < x) (mkeys m) of [] \<Rightarrow> None | x # _ \<Rightarrow> Some x)"

definition first_key :: "'c smap \<Rightarrow> u32 option" where
  "first_key m = (case mkeys m of [] \<Rightarrow> None | x # _ \<Rightarrow> Some x)"

section \<open>To the bus\<close>

text \<open>\<open>InQueue\<close> on the send queue, with the code's treatment of its result.\<close>

definition queue_packet :: "conn \<Rightarrow> byte list \<Rightarrow> u32 \<Rightarrow> int \<times> conn" where
  "queue_packet s buf PkgLen =
     (let (lockret, s) = ccall EvOther s; (r, q) = InQueue (m_SendQueue s) buf PkgLen True lockret;
          s = s\<lparr>m_SendQueue := q\<rparr>
      in if r = E_SHM_QUEUE_FULL then (-1, s) else if r \<noteq> 0 then (-1, s) else (0, s))"

definition transfer_header :: "conn \<Rightarrow> nat \<Rightarrow> u32 \<Rightarrow> byte \<Rightarrow> byte \<Rightarrow> BusHeader" where
  "transfer_header s n DstID SendType Flag = BusHeader_new
     \<lparr>bh_PkgLen := of_nat n, bh_CmdID := Cmd_Transfer, bh_SrcID := word_of_int (m_ServerID s),
      bh_DstID := DstID, bh_SendType := SendType, bh_Flag := Flag\<rparr>"

definition Send2Server :: "conn \<Rightarrow> XYHeaderIn \<Rightarrow> u32 \<Rightarrow> byte \<Rightarrow> byte \<Rightarrow> byte list \<Rightarrow> int \<times> conn" where
  "Send2Server s Header DstID SendType Flag body =
     (let HeaderLen = BusHeader_GetHeaderLen + XYHeaderIn_GetHeaderLen; PkgLen = HeaderLen + length body;
          buf = replicate HeaderLen 0 @ body;
          buf = fst (BusHeader_Write (transfer_header s PkgLen DstID SendType Flag) buf 0);
          buf = fst (XYHeaderIn_Write Header buf BusHeader_GetHeaderLen)
      in if length body > XY_PKG_MAX_LEN - HeaderLen then (-1, s)
         else queue_packet s buf (of_nat PkgLen))"

text \<open>The overload for a packet in a buffer copies it behind the bus header without a check.\<close>

definition Send2Server_buf :: "conn \<Rightarrow> u32 \<Rightarrow> byte \<Rightarrow> byte \<Rightarrow> byte list \<Rightarrow> (int \<times> conn) option" where
  "Send2Server_buf s DstID SendType Flag pCurBuff =
     (let HeaderLen = BusHeader_GetHeaderLen; PkgLen = HeaderLen + length pCurBuff
      in if PkgLen > XY_PKG_MAX_LEN then None
         else let buf = fst (BusHeader_Write (transfer_header s PkgLen DstID SendType Flag)
                               (replicate HeaderLen 0 @ pCurBuff) 0)
              in Some (queue_packet s buf (of_nat PkgLen)))"

definition SendErrMsg2Server :: "conn_pb \<Rightarrow> conn \<Rightarrow> u32 \<Rightarrow> u32 \<Rightarrow> int \<Rightarrow> int \<times> conn" where
  "SendErrMsg2Server P s DstID CmdID ErrCode =
     (let (t, s) = ccall EvOther s
      in Send2Server s (XYHeaderIn_new\<lparr>hi_SrcID := word_of_int (m_ServerID s), hi_CmdID := CmdID, hi_SN := 0,
             hi_ConnPos := 0, hi_UserID := 0, hi_PkgTime := word_of_int t, hi_Ret := word_of_int ErrCode\<rparr>)
           DstID TO_SRV 0 (ser_ErrorMsg P ErrCode))"

definition Conn_SendStateMessage :: "conn_pb \<Rightarrow> conn \<Rightarrow> int \<times> conn" where
  "Conn_SendStateMessage P s =
     (let HeaderLen = BusHeader_GetHeaderLen; body = ser_StateChange P (m_ServerID s) BUS_SVR_ONLINE;
          PkgLen = HeaderLen + length body;
          CurBusHeader = BusHeader_new\<lparr>bh_PkgLen := of_nat PkgLen, bh_CmdID := Cmd_StateChange,
             bh_SrcID := word_of_int (m_ServerID s), bh_DstID := 0, bh_SendType := TO_SRV, bh_Flag := 0\<rparr>
      in if length body > XY_PKG_MAX_LEN - HeaderLen then (-1, s)
         else queue_packet s (fst (BusHeader_Write CurBusHeader (replicate HeaderLen 0 @ body) 0)) (of_nat PkgLen))"

text \<open>A message of one connection server to all the others: \<open>body\<close> is its login data, serialised.\<close>

definition conn_header :: "conn \<Rightarrow> u32 \<Rightarrow> u32 \<Rightarrow> u32 \<Rightarrow> u64 \<Rightarrow> int \<Rightarrow> XYHeaderIn" where
  "conn_header s CmdID SN ConnPos UserID t = XYHeaderIn_new
     \<lparr>hi_SrcID := word_of_int (m_ServerID s), hi_CmdID := CmdID, hi_SN := SN, hi_ConnPos := ConnPos,
      hi_UserID := UserID, hi_PkgTime := word_of_int t, hi_Ret := 0\<rparr>"

section \<open>Connections\<close>

definition Connx_new :: "u32 \<Rightarrow> int \<Rightarrow> sockaddr \<Rightarrow> sockaddr \<Rightarrow> int \<Rightarrow> os \<Rightarrow> connx \<times> os" where
  "Connx_new ConnPos SockID RemoteAddr LocalAddr flag w =
     (let (t, w) = sys_time w
      in (\<lparr>m_ConnPos = ConnPos, m_SockID = SockID, m_RemoteAddr = RemoteAddr, m_LocalAddr = LocalAddr,
           m_LastActTime = t, m_RemainSendData = [], m_RemainRecvData = [], m_ConnType = flag, m_UserID = 0\<rparr>, w))"

definition conn_add :: "conn \<Rightarrow> u32 \<Rightarrow> int \<Rightarrow> sockaddr \<Rightarrow> sockaddr \<Rightarrow> int \<Rightarrow> int \<times> conn" where
  "conn_add s CurConnPos SockID RemoteAddr LocalAddr type =
     (let (c, w) = Connx_new CurConnPos SockID RemoteAddr LocalAddr type (c_os s); s = s\<lparr>c_os := w\<rparr>
      in if mfind (c_PosConnMap s) CurConnPos \<noteq> None
         then let s = ccall0 (EvEpoll CtlDel SockID False 0) s; s = ccall0 (EvClose SockID) s in (-1, s)
         else (0, s\<lparr>c_PosConnMap := minsert CurConnPos c (c_PosConnMap s)\<rparr>))"

definition conn_setup :: "conn \<Rightarrow> int \<Rightarrow> u32 \<Rightarrow> bool \<times> conn" where
  "conn_setup s NewSockID CurConnPos =
     (let (r, s) = ccall EvOther s in if r = -1 then (False, ccall0 (EvClose NewSockID) s)
      else let (r, s) = ccall EvOther s in if r = -1 then (False, ccall0 (EvClose NewSockID) s)
      else let (r, s) = ccall (EvEpoll CtlAdd NewSockID False CurConnPos) s
      in if r \<noteq> 0 then (False, ccall0 (EvClose NewSockID) s) else (True, s))"

definition Conn_AcceptConn :: "conn \<Rightarrow> u32 \<Rightarrow> int \<Rightarrow> (int \<times> conn) option" where
  "Conn_AcceptConn s ConnPos type =
     (case mfind (c_PosConnMap s) ConnPos of
        None \<Rightarrow> Some (-1, s)
      | Some l \<Rightarrow>
          let RemoteAddr = os_addr (c_os s) (os_tick (c_os s)); (NewSockID, s) = ccall EvOther s
          in if NewSockID > 0
             then let cnt = c_ConnPosCnt s + 1;
                      cnt = (if cnt < Conn_CLIENT_SOCK_CPOS_MIN then Conn_CLIENT_SOCK_CPOS_MIN + 1 else cnt);
                      s = s\<lparr>c_ConnPosCnt := cnt\<rparr>
                  in case free_pos (c_PosConnMap s) Conn_CLIENT_SOCK_CPOS_MIN (-1) cnt of
                       None \<Rightarrow> None
                     | Some CurConnPos \<Rightarrow>
                         let (ok, s) = conn_setup s NewSockID CurConnPos
                         in if \<not> ok then Some (-1, s)
                            else Some (conn_add s CurConnPos NewSockID RemoteAddr (m_LocalAddr l) type)
             else Some (-1, s))"

text \<open>
  The part of \<open>ReleaseConn\<close> for a connection with a user: the user's entry becomes inactive, and
  unless \<open>bSend\<close> is off the other connection servers are told.
\<close>

definition release_user :: "conn_pb \<Rightarrow> conn \<Rightarrow> u32 \<Rightarrow> u64 \<Rightarrow> bool \<Rightarrow> conn option" where
  "release_user P s pos UserID bSend =
     do {
       let (nowTime, s) = ccall EvOther s;
       pCurGnsInfo \<leftarrow> HL_Get (m_GnsInfoMap s) UserID;
       s \<leftarrow> (if pCurGnsInfo \<noteq> 0
             then do {
               g \<leftarrow> HL_deref (m_GnsInfoMap s) pCurGnsInfo;
               h \<leftarrow> HL_assign (m_GnsInfoMap s) pCurGnsInfo
                      (g\<lparr>gns_ServerID := m_ServerID s, gns_ConnPos := pos,
                         gns_Status := GNS_USER_STATUS_UNACTIVE, gns_LastActiveTime := word_of_int nowTime\<rparr>);
               Some (s\<lparr>m_GnsInfoMap := h\<rparr>)
             }
             else Some s);
       if bSend
       then let (t, s) = ccall EvOther s
            in Some (snd (Send2Server s (conn_header s Cmd_Disconnect 0 pos UserID t) GROUP_CONN TO_GRP_ALLNOME 0
                 (ser_LoginDisconnect P [\<lparr>ld_UserID = UserID, ld_ServerID = m_ServerID s, ld_ConnPos = pos,
                                         ld_LastActiveTime = word_of_int nowTime\<rparr>])))
       else Some s
     }"

text \<open>
  Releasing a connection. The log line at the end of the code reads the position through the iterator it has just erased
  (\<^verbatim>\<open>src/conn/conn.cpp:969\<close>), for which nothing is promised by the language; the definition is what the function does apart from that
  line, as everywhere the arguments of log lines are left out.
\<close>

definition Conn_ReleaseConn :: "conn_pb \<Rightarrow> conn \<Rightarrow> u32 \<Rightarrow> connx \<Rightarrow> bool \<Rightarrow> conn option" where
  "Conn_ReleaseConn P s pos c bSend =
     do {
       let s = ccall0 (EvEpoll CtlDel (m_SockID c) False 0) s;
       let s = ccall0 (EvClose (m_SockID c)) s;
       let s = (if m_itrCurCheckConn s = Some pos then s\<lparr>m_itrCurCheckConn := next_key (c_PosConnMap s) pos\<rparr> else s);
       s \<leftarrow> (if m_UserID c \<noteq> 0 then release_user P s pos (m_UserID c) bSend else Some s);
       Some (s\<lparr>c_PosConnMap := merase pos (c_PosConnMap s)\<rparr>)
     }"

text \<open>One step of the scan for connections that timed out.\<close>

definition CheckConn :: "conn_pb \<Rightarrow> conn \<Rightarrow> conn option" where
  "CheckConn P s =
     (case m_itrCurCheckConn s of
        None \<Rightarrow> Some (s\<lparr>m_itrCurCheckConn := first_key (c_PosConnMap s)\<rparr>)
      | Some k \<Rightarrow>
          case mfind (c_PosConnMap s) k of
            None \<Rightarrow> None
          | Some c \<Rightarrow>
              if k \<ge> Conn_LISTEN_SOCK_CPOS_MIN \<and> k \<le> Conn_LISTEN_SOCK_CPOS_MAX
              then Some (s\<lparr>m_itrCurCheckConn := next_key (c_PosConnMap s) k\<rparr>)
              else do {
                _ \<leftarrow> (if m_UserID c \<noteq> 0 then HL_Get (m_GnsInfoMap s) (m_UserID c) else Some 0);
                let (TineNow, s) = ccall EvOther s;
                if TineNow - m_LastActTime c > m_TimeOut s
                then Conn_ReleaseConn P s k c True
                else Some (s\<lparr>m_itrCurCheckConn := next_key (c_PosConnMap s) k\<rparr>)
              })"

definition Send2Client :: "conn_pb \<Rightarrow> conn \<Rightarrow> u32 \<Rightarrow> byte list \<Rightarrow> (int \<times> conn) option" where
  "Send2Client P s CurConnPos pSendBuff =
     (case mfind (c_PosConnMap s) CurConnPos of
        None \<Rightarrow> Some (-1, s)
      | Some c \<Rightarrow>
          let (r, blocked, c, w) = send_or_store c pSendBuff (c_os s);
              s = s\<lparr>c_os := w, c_PosConnMap := mupdate CurConnPos c (c_PosConnMap s)\<rparr>
          in if r \<noteq> 0 then map_option (\<lambda>s. (r, s)) (Conn_ReleaseConn P s CurConnPos c True)
             else if blocked then Some (0, ccall0 (EvEpoll CtlMod (m_SockID c) True CurConnPos) s)
             else Some (0, s))"

section \<open>Packets of clients\<close>

text \<open>The packet is rebuilt in the process buffer with an internal header.\<close>

definition client_header :: "conn \<Rightarrow> connx \<Rightarrow> XYHeader \<Rightarrow> int \<Rightarrow> XYHeaderIn" where
  "client_header s c CurHeader t = XYHeaderIn_new
     \<lparr>hi_SrcID := word_of_int (m_ServerID s), hi_CmdID := xh_CmdID CurHeader, hi_SN := xh_SN CurHeader,
      hi_ConnPos := m_ConnPos c, hi_PkgTime := word_of_int t, hi_Ret := xh_Ret CurHeader, hi_UserID := m_UserID c\<rparr>"

text \<open>The switch on the command prefix. \<open>Inl\<close> is the return of -1.\<close>

definition route_client :: "conn_pb \<Rightarrow> conn \<Rightarrow> XYHeaderIn \<Rightarrow> nat \<Rightarrow> nat \<Rightarrow> (int + conn) option" where
  "route_client P s CurHeaderIn PkgInLen TotalPkgLen =
     (let CmdID = hi_CmdID CurHeaderIn; CmdPrefix = drop_bit 16 CmdID;
          body = mem_read (m_pProcessBuff s) XYHeaderIn_GetHeaderLen PkgInLen;
          pkt = mem_read (m_pProcessBuff s) 0 TotalPkgLen
      in if CmdPrefix = CMD_PREFIX_CONN then Some (Inr s)
         else if CmdPrefix = CMD_PREFIX_AUTH
         then if CmdID = Cmd_Auth_Login_Req
              then case parse_LoginReq P (int PkgInLen) body of
                     None \<Rightarrow> Some (Inl (-1))
                   | Some (UserID, passwd, Plat) \<Rightarrow>
                       Some (Inr (snd (Send2Server s CurHeaderIn GROUP_AUTH TO_GRP_RND 0 (ser_AuthLoginReq P UserID passwd Plat))))
              else if CmdID = Cmd_Auth_Register_Req
              then case parse_RegisterReq P (int PkgInLen) body of
                     None \<Rightarrow> Some (Inl (-1))
                   | Some info \<Rightarrow>
                       Some (Inr (snd (Send2Server s CurHeaderIn GROUP_AUTH TO_GRP_RND 0 (ser_AuthRegisterReq P info))))
              else map_option (Inr \<circ> snd) (Send2Server_buf s GROUP_AUTH TO_GRP_RND 0 pkt)
         else if CmdPrefix = CMD_PREFIX_USER
         then map_option (Inr \<circ> snd) (Send2Server_buf s (word_of_int (GetUserServer (hi_UserID CurHeaderIn))) TO_SRV 0 pkt)
         else Some (Inr s))"

definition Conn_ProcessPkg :: "conn_pb \<Rightarrow> conn \<Rightarrow> byte list \<Rightarrow> connx \<Rightarrow> (int \<times> conn) option" where
  "Conn_ProcessPkg P s buf c =
     (let RecvLen = length buf; HeadLen = XYHeader_GetHeadLen
      in if RecvLen < HeadLen then Some (int HeadLen, s)
         else let CurHeader = fst (XYHeader_Read buf 0); PkgLen = sint (xh_PkgLen CurHeader)
              in if PkgLen < int HeadLen then Some (-1, s)
                 else if PkgLen - int HeadLen > int (XY_PKG_MAX_LEN - XYHeaderIn_GetHeaderLen) then Some (-1, s)
                 else if unat (xh_PkgLen CurHeader) > RecvLen then Some (PkgLen, s)
                 else let PkgInLen = nat PkgLen - HeadLen;
                          TotalPkgLen = PkgInLen + XYHeaderIn_GetHeaderLen;
                          pb = memcpy_to (m_pProcessBuff s) XYHeaderIn_GetHeaderLen (mem_read buf HeadLen PkgInLen);
                          (t, s) = ccall EvOther s;
                          CurHeaderIn = client_header s c CurHeader t;
                          pb = fst (XYHeaderIn_Write CurHeaderIn pb 0);
                          s = s\<lparr>m_pProcessBuff := pb\<rparr>
                      in if hi_CmdID CurHeaderIn \<noteq> Cmd_Auth_Login_Req \<and> hi_CmdID CurHeaderIn \<noteq> Cmd_Auth_Register_Req
                            \<and> m_ConnType c \<noteq> CONN_AUTH
                         then Some (PkgLen, s)
                         else map_option (\<lambda>r. case r of Inl e \<Rightarrow> (e, s) | Inr s \<Rightarrow> (PkgLen, s))
                                (route_client P s CurHeaderIn PkgInLen TotalPkgLen))"

function (sequential) conn_recv_loop :: "conn_pb \<Rightarrow> conn \<Rightarrow> u32 \<Rightarrow> byte list \<Rightarrow> conn option" where
  "conn_recv_loop P s CurConnPos buf =
     (if buf = [] then Some s
      else case mfind (c_PosConnMap s) CurConnPos of
        None \<Rightarrow> None
      | Some c \<Rightarrow>
          case (if m_ConnType c = CONN_UNAUTH \<or> m_ConnType c = CONN_AUTH then Conn_ProcessPkg P s buf c
                else Some (-1, s)) of
            None \<Rightarrow> None
          | Some (ProcLen, s1) \<Rightarrow>
              if ProcLen > int (length buf) \<or> ProcLen = 0
              then let (Ret2, c') = AddRecvData c buf;
                       s2 = s1\<lparr>c_PosConnMap := mupdate CurConnPos c' (c_PosConnMap s1)\<rparr>
                   in if Ret2 \<noteq> 0 then Conn_ReleaseConn P s2 CurConnPos c' True else Some s2
              else if ProcLen < 0 then Conn_ReleaseConn P s1 CurConnPos c True
              else conn_recv_loop P s1 CurConnPos (drop (nat ProcLen) buf))"
  by pat_completeness auto
termination
  by (relation "measure (\<lambda>(P, s, pos, buf). length buf)") (auto split: if_splits)

declare conn_recv_loop.simps [simp del]

section \<open>Packets of servers\<close>

text \<open>An answer to the client on connection \<open>ConnPos\<close>, with the number of its request.\<close>

definition reply_client :: "conn_pb \<Rightarrow> conn \<Rightarrow> XYHeaderIn \<Rightarrow> u32 \<Rightarrow> byte list \<Rightarrow> (int \<times> conn) option" where
  "reply_client P s Header CmdID body =
     (let HeaderLen = XYHeader_GetHeadLen;
          CurHeader = XYHeader_new\<lparr>xh_PkgLen := of_nat (length body + HeaderLen), xh_CmdID := CmdID, xh_SN := hi_SN Header,
            xh_CkSum := 0, xh_Ret := hi_Ret Header, xh_Compresse := 0\<rparr>;
          buf = fst (XYHeader_Write CurHeader (replicate HeaderLen 0 @ body) 0)
      in if length body > XY_PKG_MAX_LEN - HeaderLen then Some (-1, s)
         else map_option (\<lambda>(r, s). (0, s)) (Send2Client P s (hi_ConnPos Header) buf))"

definition deal_register_rsp :: "conn_pb \<Rightarrow> conn \<Rightarrow> XYHeaderIn \<Rightarrow> int \<Rightarrow> byte list \<Rightarrow> (int \<times> conn) option" where
  "deal_register_rsp P s Header n body =
     (case parse_AuthRegisterRsp P n body of
        None \<Rightarrow> Some (-1, s)
      | Some (Result, UserID, info) \<Rightarrow>
          if Result \<noteq> 0 then reply_client P s Header Cmd_Auth_Register_Rsp (ser_RegisterRsp P Result UserID)
          else let (t, s) = ccall EvOther s;
                   CurHeader = conn_header s Cmd_User_Register_Req (hi_SN Header) (hi_ConnPos Header) (hi_UserID Header) t;
                   ServerID = SERVER_USER_BEGIN + UserID mod MAX_USER_SERVER_NUM + 1
               in Some (0, snd (Send2Server s CurHeader (ucast ServerID) TO_SRV 0 (ser_UserRegisterReq P UserID info))))"

definition deal_user_register_rsp :: "conn_pb \<Rightarrow> conn \<Rightarrow> XYHeaderIn \<Rightarrow> int \<Rightarrow> byte list \<Rightarrow> (int \<times> conn) option" where
  "deal_user_register_rsp P s Header n body =
     (case parse_UserRegisterRsp P n body of
        None \<Rightarrow> Some (-1, s)
      | Some (Result, UserID) \<Rightarrow> reply_client P s Header Cmd_Auth_Register_Rsp (ser_RegisterRsp P Result UserID))"

text \<open>The connection a user is logged in with on this server is closed before the entry is changed.\<close>

definition kick_user :: "conn_pb \<Rightarrow> conn \<Rightarrow> u64 \<Rightarrow> ShmGnsInfo \<Rightarrow> conn option" where
  "kick_user P s UserID g =
     (case mfind (c_PosConnMap s) (gns_ConnPos g) of
        Some c \<Rightarrow> if m_UserID c = UserID then Conn_ReleaseConn P s (gns_ConnPos g) c False else Some s
      | None \<Rightarrow> Some s)"

text \<open>The four assignments through \<open>pCurGnsInfo\<close>.\<close>

definition gns_set :: "conn \<Rightarrow> int \<Rightarrow> u32 \<Rightarrow> int \<Rightarrow> int \<Rightarrow> u64 \<Rightarrow> conn option" where
  "gns_set s p ConnPos ServerID st t =
     do {
       g \<leftarrow> HL_deref (m_GnsInfoMap s) p;
       h \<leftarrow> HL_assign (m_GnsInfoMap s) p
              (g\<lparr>gns_ConnPos := ConnPos, gns_ServerID := ServerID, gns_Status := st, gns_LastActiveTime := t\<rparr>);
       Some (s\<lparr>m_GnsInfoMap := h\<rparr>)
     }"

definition gns_insert :: "conn \<Rightarrow> u64 \<Rightarrow> u32 \<Rightarrow> int \<Rightarrow> u64 \<Rightarrow> conn option" where
  "gns_insert s UserID ConnPos ServerID t =
     do {
       (r, h) \<leftarrow> HL_Insert (m_GnsInfoMap s) UserID
                  \<lparr>gns_UserID = UserID, gns_ServerID = ServerID, gns_ConnPos = ConnPos,
                   gns_Status = GNS_USER_STATUS_ACTIVE, gns_LastActiveTime = t\<rparr>;
       Some (s\<lparr>m_GnsInfoMap := h\<rparr>)
     }"

text \<open>A login on this server overwrites the user's entry unconditionally.\<close>

definition login_gns :: "conn_pb \<Rightarrow> conn \<Rightarrow> u64 \<Rightarrow> u32 \<Rightarrow> u64 \<Rightarrow> conn option" where
  "login_gns P s UserID ConnPos nowTime =
     do {
       pCurGnsInfo \<leftarrow> HL_Get (m_GnsInfoMap s) UserID;
       if pCurGnsInfo = 0 then gns_insert s UserID ConnPos (m_ServerID s) nowTime
       else do {
         g \<leftarrow> HL_deref (m_GnsInfoMap s) pCurGnsInfo;
         s \<leftarrow> (if gns_Status g = GNS_USER_STATUS_ACTIVE \<and> gns_ServerID g = m_ServerID s
               then kick_user P s UserID g else Some s);
         gns_set s pCurGnsInfo ConnPos (m_ServerID s) GNS_USER_STATUS_ACTIVE nowTime
       }
     }"

definition login_ok :: "conn_pb \<Rightarrow> conn \<Rightarrow> XYHeaderIn \<Rightarrow> u64 \<Rightarrow> connx \<Rightarrow> conn option" where
  "login_ok P s Header UserID c =
     do {
       let ConnPos = hi_ConnPos Header;
       let s = s\<lparr>c_PosConnMap := mupdate ConnPos (c\<lparr>m_ConnType := CONN_AUTH, m_UserID := UserID\<rparr>) (c_PosConnMap s)\<rparr>;
       let (t, s) = ccall EvOther s;
       let nowTime = word_of_int t;
       s \<leftarrow> login_gns P s UserID ConnPos nowTime;
       let (t, s) = ccall EvOther s;
       Some (snd (Send2Server s (conn_header s Cmd_LoginNotice (hi_SN Header) ConnPos UserID t) GROUP_CONN TO_GRP_ALLNOME 0
               (ser_LoginNotice P [\<lparr>ld_UserID = UserID, ld_ServerID = m_ServerID s, ld_ConnPos = ConnPos,
                                   ld_LastActiveTime = nowTime\<rparr>])))
     }"

definition deal_login_rsp :: "conn_pb \<Rightarrow> conn \<Rightarrow> XYHeaderIn \<Rightarrow> int \<Rightarrow> byte list \<Rightarrow> (int \<times> conn) option" where
  "deal_login_rsp P s Header n body =
     (case parse_AuthLoginRsp P n body of
        None \<Rightarrow> Some (-1, s)
      | Some (uid, Result) \<Rightarrow>
          if Result = 0
          then case mfind (c_PosConnMap s) (hi_ConnPos Header) of
                 None \<Rightarrow> Some (-1, s)
               | Some c \<Rightarrow>
                   do {
                     s \<leftarrow> login_ok P s Header (word_of_int uid) c;
                     reply_client P s Header Cmd_Auth_Login_Rsp (ser_LoginRsp P Result)
                   }
          else reply_client P s Header Cmd_Auth_Login_Rsp (ser_LoginRsp P Result))"

text \<open>
  One element of a login notice or of a sync answer: the code is the same. The entry changes only
  if the message is not older than it.
\<close>

definition notice_one :: "conn_pb \<Rightarrow> conn \<Rightarrow> LoginData \<Rightarrow> conn option" where
  "notice_one P s d =
     do {
       pCurGnsInfo \<leftarrow> HL_Get (m_GnsInfoMap s) (ld_UserID d);
       if pCurGnsInfo = 0 then gns_insert s (ld_UserID d) (ld_ConnPos d) (ld_ServerID d) (ld_LastActiveTime d)
       else do {
         g \<leftarrow> HL_deref (m_GnsInfoMap s) pCurGnsInfo;
         if gns_LastActiveTime g \<le> ld_LastActiveTime d
         then do {
           s \<leftarrow> (if gns_ServerID g = m_ServerID s \<and> gns_Status g = GNS_USER_STATUS_ACTIVE
                 then kick_user P s (ld_UserID d) g else Some s);
           gns_set s pCurGnsInfo (ld_ConnPos d) (ld_ServerID d) GNS_USER_STATUS_ACTIVE (ld_LastActiveTime d)
         }
         else Some s
       }
     }"

fun notice_all :: "conn_pb \<Rightarrow> conn \<Rightarrow> LoginData list \<Rightarrow> conn option" where
  "notice_all P s [] = Some s"
| "notice_all P s (d # ds) = (case notice_one P s d of None \<Rightarrow> None | Some s \<Rightarrow> notice_all P s ds)"

definition disconnect_one :: "conn_pb \<Rightarrow> conn \<Rightarrow> LoginData \<Rightarrow> conn option" where
  "disconnect_one P s d =
     do {
       pCurGnsInfo \<leftarrow> HL_Get (m_GnsInfoMap s) (ld_UserID d);
       if pCurGnsInfo = 0 then Some s
       else do {
         g \<leftarrow> HL_deref (m_GnsInfoMap s) pCurGnsInfo;
         if gns_LastActiveTime g \<le> ld_LastActiveTime d
         then if gns_ServerID g = m_ServerID s \<and> gns_Status g = GNS_USER_STATUS_ACTIVE
              then kick_user P s (ld_UserID d) g
              else gns_set s pCurGnsInfo (ld_ConnPos d) (ld_ServerID d) GNS_USER_STATUS_UNACTIVE (ld_LastActiveTime d)
         else Some s
       }
     }"

fun disconnect_all :: "conn_pb \<Rightarrow> conn \<Rightarrow> LoginData list \<Rightarrow> conn option" where
  "disconnect_all P s [] = Some s"
| "disconnect_all P s (d # ds) = (case disconnect_one P s d of None \<Rightarrow> None | Some s \<Rightarrow> disconnect_all P s ds)"

text \<open>The callback that collects the users active on server \<open>me\<close>.\<close>

definition MemFullCallBackAll :: "int \<Rightarrow> u64 \<Rightarrow> ShmGnsInfo \<Rightarrow> LoginData list \<Rightarrow> ShmGnsInfo \<times> LoginData list" where
  "MemFullCallBackAll me UserID g vct =
     (g, if gns_ServerID g = me \<and> gns_Status g = GNS_USER_STATUS_ACTIVE
         then vct @ [\<lparr>ld_UserID = gns_UserID g, ld_ServerID = gns_ServerID g, ld_ConnPos = gns_ConnPos g,
                      ld_LastActiveTime = gns_LastActiveTime g\<rparr>]
         else vct)"

text \<open>
  The loop that sends the collected users in batches: \<open>send\<close> sends the message as it is, \<open>acc\<close> is
  the message, which is not emptied after a batch.
\<close>

fun send_batches :: "(conn \<Rightarrow> LoginData list \<Rightarrow> conn) \<Rightarrow> conn \<Rightarrow> LoginData list \<Rightarrow> nat \<Rightarrow> LoginData list \<Rightarrow> conn" where
  "send_batches send s acc j [] = s"
| "send_batches send s acc j (d # ds) =
     (let acc = acc @ [d]; j = j + 1
      in if j > 1000 \<or> ds = [] then send_batches send (send s acc) acc 0 ds else send_batches send s acc j ds)"

definition send_sync_rsp :: "conn_pb \<Rightarrow> u32 \<Rightarrow> conn \<Rightarrow> LoginData list \<Rightarrow> conn" where
  "send_sync_rsp P DstID s data =
     (let (t, s) = ccall EvOther s
      in snd (Send2Server s (conn_header s Cmd_LoginSync_Rsp 0 0 0 t) DstID TO_SRV 0 (ser_LoginSyncRsp P data)))"

definition deal_sync_req :: "conn_pb \<Rightarrow> conn \<Rightarrow> XYHeaderIn \<Rightarrow> int \<Rightarrow> byte list \<Rightarrow> (int \<times> conn) option" where
  "deal_sync_req P s Header n body =
     (case parse_LoginSyncReq P n body of
        None \<Rightarrow> Some (-1, s)
      | Some ServerID \<Rightarrow>
          if ServerID = m_ServerID s then Some (-1, s)
          else do {
            (h, vctData) \<leftarrow> ProcessAll_upto (MemFullCallBackAll (m_ServerID s)) (nat (m_MaxGnsNodeNum s)) (m_GnsInfoMap s) [];
            Some (0, send_batches (send_sync_rsp P (hi_SrcID Header)) (s\<lparr>m_GnsInfoMap := h\<rparr>) [] 0 vctData)
          })"

text \<open>Everything else is passed to the client as it is.\<close>

definition pass_through :: "conn_pb \<Rightarrow> conn \<Rightarrow> XYHeaderIn \<Rightarrow> int \<Rightarrow> byte list \<Rightarrow> (int \<times> conn) option" where
  "pass_through P s Header PkgLen body =
     (let CurHeader = CoverToXYHeader Header PkgLen;
          buf = fst (XYHeader_Write CurHeader (replicate XYHeader_GetHeadLen 0 @ body) 0)
      in if hi_ConnPos Header = 0 then Some (0, s)
         else map_option (\<lambda>(r, s). (0, s)) (Send2Client P s (hi_ConnPos Header) (mem_read buf 0 (unat (xh_PkgLen CurHeader)))))"

text \<open>
  Every case either parses the rest of the packet or copies it. With a packet that is shorter than its header the length is negative:
  \<open>memcpy\<close> takes it as a huge size, and nothing is promised for \<open>ParseFromArray\<close> with a negative size (\<open>None\<close>).
\<close>

definition DealPkg :: "conn_pb \<Rightarrow> conn \<Rightarrow> int \<Rightarrow> (int \<times> conn) option" where
  "DealPkg P s PkgLen =
     (let off = BusHeader_GetHeaderLen; Header = fst (XYHeaderIn_Read (m_pProcessBuff s) off);
          n = PkgLen - int XYHeaderIn_GetHeaderLen;
          body = mem_read (m_pProcessBuff s) (off + XYHeaderIn_GetHeaderLen) (nat n); CmdID = hi_CmdID Header
      in if n < 0 then None
         else if CmdID = Cmd_Auth_Register_Rsp then deal_register_rsp P s Header n body
         else if CmdID = Cmd_User_Register_Rsp then deal_user_register_rsp P s Header n body
         else if CmdID = Cmd_Auth_Login_Rsp then deal_login_rsp P s Header n body
         else if CmdID = Cmd_LoginNotice
         then case parse_LoginNotice P n body of
                None \<Rightarrow> Some (-1, s) | Some ds \<Rightarrow> map_option (Pair 0) (notice_all P s ds)
         else if CmdID = Cmd_Disconnect
         then case parse_LoginDisconnect P n body of
                None \<Rightarrow> Some (-1, s) | Some ds \<Rightarrow> map_option (Pair 0) (disconnect_all P s ds)
         else if CmdID = Cmd_LoginSync_Req then deal_sync_req P s Header n body
         else if CmdID = Cmd_LoginSync_Rsp
         then case parse_LoginSyncRsp P n body of
                None \<Rightarrow> Some (-1, s) | Some ds \<Rightarrow> map_option (Pair 0) (notice_all P s ds)
         else pass_through P s Header PkgLen body)"

section \<open>The event loop\<close>

text \<open>
  The callback of the scan of the user table. Its checks of the table against the connections are
  log messages only, given by \<open>gns_check\<close>; it removes entries that have been inactive for a day.
  The comparison is unsigned.
\<close>

definition gns_check :: "conn \<Rightarrow> u64 \<Rightarrow> ShmGnsInfo \<Rightarrow> bool" where
  "gns_check s UserID g \<longleftrightarrow> gns_ServerID g = m_ServerID s \<longrightarrow>
     (let there = (case mfind (c_PosConnMap s) (gns_ConnPos g) of None \<Rightarrow> False | Some c \<Rightarrow> m_UserID c = UserID)
      in if gns_Status g = GNS_USER_STATUS_ACTIVE then there else \<not> there)"

definition MemFullCallBack :: "conn \<Rightarrow> u64 \<Rightarrow> ShmGnsInfo \<Rightarrow> conn option" where
  "MemFullCallBack s UserID g =
     do {
       let (nowTime, s) = ccall EvOther s;
       if gns_Status g = GNS_USER_STATUS_UNACTIVE
          \<and> word_of_int (nowTime - CONN_INVALID_TIME) > gns_LastActiveTime g
       then do {
         (Ret, h) \<leftarrow> HL_Remove (m_GnsInfoMap s) UserID;
         Some (s\<lparr>m_GnsInfoMap := h\<rparr>)
       }
       else Some s
     }"

text \<open>
  \<open>ProcessAll\<close> with this callback. It removes the node it is called for, which is why \<open>ProcessAll\<close>
  reads the link before the call.
\<close>

partial_function (option) check_loop :: "conn \<Rightarrow> int \<Rightarrow> conn option" where
  "check_loop s ipData =
     (if ipData = 0 then Some s
      else do {
        n \<leftarrow> arr_get (m_pstData (m_GnsInfoMap s)) ipData;
        let ipNextData = ipNextDataNode n;
        s \<leftarrow> MemFullCallBack s (KeyVal n) (Data n);
        check_loop s ipNextData
      })"

definition CheckValid :: "conn \<Rightarrow> conn option" where
  "CheckValid s =
     do {
       ix \<leftarrow> arr_get (m_pstIndex (m_GnsInfoMap s)) (m_CheckConnPos s);
       s \<leftarrow> (if iDataNodeNum ix > 0 then check_loop s (ipDataNodeList ix) else Some s);
       Some (s\<lparr>m_CheckConnPos := (m_CheckConnPos s + 1) mod m_MaxGnsNodeNum s\<rparr>)
     }"

definition conn_handle_in :: "conn_pb \<Rightarrow> conn \<Rightarrow> u32 \<Rightarrow> connx \<Rightarrow> conn option" where
  "conn_handle_in P s CurConnPos c =
     (let (Ret, bytes, c, w) = Recv c (of_nat XY_MAXBUFF_LEN) (c_os s);
          s = s\<lparr>c_os := w, c_PosConnMap := mupdate CurConnPos c (c_PosConnMap s)\<rparr>
      in if Ret = 1 then Conn_ReleaseConn P s CurConnPos c True
         else if Ret < 0 then Conn_ReleaseConn P s CurConnPos c True
         else if length bytes > XY_MAXBUFF_LEN then Conn_ReleaseConn P s CurConnPos c True
         else conn_recv_loop P s CurConnPos bytes)"

definition conn_handle_out :: "conn_pb \<Rightarrow> conn \<Rightarrow> u32 \<Rightarrow> connx \<Rightarrow> conn option" where
  "conn_handle_out P s CurConnPos c =
     (let (Ret, c, w) = SendRemainData c (c_os s);
          s = s\<lparr>c_os := w, c_PosConnMap := mupdate CurConnPos c (c_PosConnMap s)\<rparr>
      in if Ret = 1 then Some s
         else if Ret \<noteq> 0 then Conn_ReleaseConn P s CurConnPos c True
         else Some (ccall0 (EvEpoll CtlMod (m_SockID c) False CurConnPos) s))"

definition conn_handle_event :: "conn_pb \<Rightarrow> conn \<Rightarrow> u32 \<times> u32 \<Rightarrow> conn option" where
  "conn_handle_event P s ev =
     (let (CurConnPos, events) = ev
      in if CurConnPos \<ge> Conn_LISTEN_SOCK_CPOS_MIN \<and> CurConnPos \<le> Conn_LISTEN_SOCK_CPOS_MAX
         then if events AND EPOLLIN \<noteq> 0 then map_option snd (Conn_AcceptConn s CurConnPos CONN_UNAUTH) else Some s
         else case mfind (c_PosConnMap s) CurConnPos of
                None \<Rightarrow> Some s
              | Some c \<Rightarrow>
                  if events AND EPOLLERR \<noteq> 0 then Conn_ReleaseConn P s CurConnPos c True
                  else if events AND EPOLLHUP \<noteq> 0 then Conn_ReleaseConn P s CurConnPos c True
                  else if events AND EPOLLIN \<noteq> 0 then conn_handle_in P s CurConnPos c
                  else if events AND EPOLLOUT \<noteq> 0 then conn_handle_out P s CurConnPos c
                  else Some s)"

fun conn_handle_events :: "conn_pb \<Rightarrow> conn \<Rightarrow> (u32 \<times> u32) list \<Rightarrow> conn option" where
  "conn_handle_events P s [] = Some s"
| "conn_handle_events P s (ev # evs) =
     (case conn_handle_event P s ev of None \<Rightarrow> None | Some s \<Rightarrow> conn_handle_events P s evs)"

text \<open>At most \<open>MAX_QUEUEPKG_PER_LOOP = 100\<close> packets of the receive queue per round.\<close>

fun conn_drain :: "conn_pb \<Rightarrow> nat \<Rightarrow> conn \<Rightarrow> conn option" where
  "conn_drain P 0 s = Some s"
| "conn_drain P (Suc n) s =
     (let (lockret, s) = ccall EvOther s;
          (Ret, buf, SendLen, q) = OutQueue_int (m_RecvQueue s) (m_pProcessBuff s) (int XY_PKG_MAX_LEN) True lockret;
          s = s\<lparr>m_RecvQueue := q, m_pProcessBuff := buf\<rparr>
      in if Ret = 0
         then case DealPkg P s (SendLen - int BusHeader_GetHeaderLen) of
                None \<Rightarrow> None
              | Some (r, s) \<Rightarrow> conn_drain P n s
         else if Ret = E_SHM_QUEUE_EMPTY then Some s
         else Some s)"

record conn_loop =
  cl_conn :: conn
  LastStateTime :: int

text \<open>
  The bus runs beside the server: it puts packets into the queue the server receives from and takes packets out of the one it sends to.
  The input of a round: the events \<open>epoll_wait\<close> returned, the packets that are put in, and how many are taken out.
\<close>

type_synonym conn_input = "(u32 \<times> u32) list \<times> byte list list \<times> nat"

definition conn_others :: "byte list list \<Rightarrow> nat \<Rightarrow> conn \<Rightarrow> conn" where
  "conn_others puts n s = s\<lparr>m_RecvQueue := others_put (m_RecvQueue s) puts, m_SendQueue := others_take (m_SendQueue s) n\<rparr>"

definition conn_round :: "conn_pb \<Rightarrow> conn_loop \<Rightarrow> conn_input \<Rightarrow> conn_loop option" where
  "conn_round P L round =
     do {
       s \<leftarrow> conn_handle_events P (cl_conn L) (fst round);
       let s = conn_others (fst (snd round)) (snd (snd round)) s;
       s \<leftarrow> conn_drain P 100 s;
       let (NowTime, s) = ccall EvOther s;
       let (last, s) = (if NowTime - LastStateTime L \<ge> m_StateTime s then (NowTime, snd (Conn_SendStateMessage P s))
                        else (LastStateTime L, s));
       s \<leftarrow> CheckConn P s;
       s \<leftarrow> CheckValid s;
       Some \<lparr>cl_conn = s, LastStateTime = last\<rparr>
     }"

fun Conn_Run_loop :: "conn_pb \<Rightarrow> conn_loop \<Rightarrow> conn_input list \<Rightarrow> conn_loop option" where
  "Conn_Run_loop P L [] = Some L"
| "Conn_Run_loop P L (round # rounds) =
     (case conn_round P L round of None \<Rightarrow> None | Some L \<Rightarrow> Conn_Run_loop P L rounds)"

definition Conn_Run :: "conn_pb \<Rightarrow> conn \<Rightarrow> conn_input list \<Rightarrow> conn_loop option" where
  "Conn_Run P s rounds =
     (let (t, s) = ccall EvOther s in Conn_Run_loop P \<lparr>cl_conn = s, LastStateTime = t\<rparr> rounds)"

end
