(* ===== verification/ConnGns.thy ===== *)
theory ConnGns
  imports Conn BusConn
begin

text \<open>
  The table of logged-in users of the connection server and its connections. Every operation keeps
  the two consistent: a connection with a user has an active entry that names it, and an active
  entry of this server names a live connection of its user, which is what the server's own checks
  (the scan of \<open>CheckValid\<close> and the one of \<open>CheckConn\<close>) look for. The theory proves this for every
  state the server can reach by events, timeouts, scans and packets of other servers, provided a
  login answer is for a connection that is not logged in yet, names a user, and finds room in the
  table. What happens otherwise is shown by example.
\<close>

section \<open>Frames\<close>

text \<open>Sending to the bus changes the queue and the environment only.\<close>

definition sends :: "conn \<Rightarrow> conn \<Rightarrow> bool" where
  "sends s s' \<longleftrightarrow> (\<exists>q w. s' = s\<lparr>m_SendQueue := q, c_os := w\<rparr>)"

lemma sendsI: "(s' :: conn) = s\<lparr>m_SendQueue := q, c_os := w\<rparr> \<Longrightarrow> sends s s'"
  by (auto simp: sends_def)

lemma sends_refl [simp, intro]: "sends s s"
  by (rule sendsI [where q = "m_SendQueue s" and w = "c_os s"]) simp

lemma sends_os [simp]: "sends s (s\<lparr>c_os := w\<rparr>)"
  by (rule sendsI [where q = "m_SendQueue s" and w = w]) simp

lemma sends_trans:
  assumes "sends s s'" "sends s' s''"
  shows "sends s s''"
proof -
  obtain q w q' w' where "s' = s\<lparr>m_SendQueue := q, c_os := w\<rparr>" "s'' = s'\<lparr>m_SendQueue := q', c_os := w'\<rparr>"
    using assms by (auto simp: sends_def)
  then show ?thesis by (intro sendsI [where q = q' and w = w']) simp
qed

lemma ccall_eq: "ccall ev s = (os_ret (c_os s) (os_tick (c_os s)), s\<lparr>c_os := os_call ev (c_os s)\<rparr>)"
  and ccall0_eq: "ccall0 ev s = s\<lparr>c_os := os_call ev (c_os s)\<rparr>"
  by (simp_all add: ccall_def ccall0_def sys_int_def)

lemma queue_packet_sends [simp]: "sends s (snd (queue_packet s buf n))"
proof -
  have "sends s (s\<lparr>c_os := w, m_SendQueue := q\<rparr>)" for w q by (rule sendsI [where q = q and w = w]) simp
  then show ?thesis by (simp add: queue_packet_def ccall_eq Let_def case_prod_unfold)
qed

lemma Send2Server_sends [simp]: "sends s (snd (Send2Server s h d t f body))"
  by (simp add: Send2Server_def Let_def)

lemma Send2Server_buf_sends: "Send2Server_buf s d t f pkt = Some (r, s') \<Longrightarrow> sends s s'"
  by (auto simp: Send2Server_buf_def Let_def split: if_splits dest: arg_cong [of _ _ snd]) (metis queue_packet_sends snd_conv)

lemma SendStateMessage_sends [simp]: "sends s (snd (Conn_SendStateMessage P s))"
  by (simp add: Conn_SendStateMessage_def Let_def)

section \<open>The invariant\<close>

definition here :: "int \<Rightarrow> ShmGnsInfo \<Rightarrow> bool" where
  "here me g \<longleftrightarrow> gns_ServerID g = me \<and> gns_Status g = GNS_USER_STATUS_ACTIVE"

text \<open>On the connections and the abstract user table.\<close>

definition gns_ok :: "int \<Rightarrow> connx smap \<Rightarrow> (u64 \<rightharpoonup> ShmGnsInfo) \<Rightarrow> bool" where
  "gns_ok me m M \<longleftrightarrow> smap_ok m
     \<and> (\<forall>p c. mfind m p = Some c \<longrightarrow> m_UserID c \<noteq> 0 \<longrightarrow>
          (\<exists>g. M (m_UserID c) = Some g \<and> here me g \<and> gns_ConnPos g = p))
     \<and> (\<forall>p c. mfind m p = Some c \<longrightarrow> (m_ConnType c = CONN_AUTH \<longleftrightarrow> m_UserID c \<noteq> 0) \<and> m_ConnType c \<in> {CONN_UNAUTH, CONN_AUTH})
     \<and> (\<forall>u g. M u = Some g \<longrightarrow> gns_UserID g = u \<and>
          (here me g \<longrightarrow> u \<noteq> 0 \<and> (\<exists>c. mfind m (gns_ConnPos g) = Some c \<and> m_UserID c = u)))"

definition gns_inv :: "conn \<Rightarrow> (u64 \<rightharpoonup> ShmGnsInfo) \<Rightarrow> bool" where
  "gns_inv s M \<longleftrightarrow> hl_rel (m_GnsInfoMap s) M \<and> gns_ok (m_ServerID s) (c_PosConnMap s) M
     \<and> (\<forall>k. m_itrCurCheckConn s = Some k \<longrightarrow> mfind (c_PosConnMap s) k \<noteq> None)"

lemma gns_okD:
  assumes "gns_ok me m M"
  shows "smap_ok m"
    and "mfind m p = Some c \<Longrightarrow> m_UserID c \<noteq> 0 \<Longrightarrow> \<exists>g. M (m_UserID c) = Some g \<and> here me g \<and> gns_ConnPos g = p"
    and "mfind m p = Some c \<Longrightarrow> (m_ConnType c = CONN_AUTH \<longleftrightarrow> m_UserID c \<noteq> 0) \<and> m_ConnType c \<in> {CONN_UNAUTH, CONN_AUTH}"
    and "M u = Some g \<Longrightarrow> gns_UserID g = u"
    and "M u = Some g \<Longrightarrow> here me g \<Longrightarrow> u \<noteq> 0 \<and> (\<exists>c. mfind m (gns_ConnPos g) = Some c \<and> m_UserID c = u)"
  using assms unfolding gns_ok_def by blast+

lemma gns_invD:
  assumes "gns_inv s M"
  shows "hl_rel (m_GnsInfoMap s) M" "gns_ok (m_ServerID s) (c_PosConnMap s) M"
    "m_itrCurCheckConn s = Some k \<Longrightarrow> mfind (c_PosConnMap s) k \<noteq> None"
  using assms by (simp_all add: gns_inv_def)

lemma gns_inv_sends: "sends s s' \<Longrightarrow> gns_inv s' M = gns_inv s M"
  by (auto simp: sends_def gns_inv_def)

lemma gns_inv_os [simp]: "gns_inv (s\<lparr>c_os := w\<rparr>) M = gns_inv s M"
  by (rule gns_inv_sends) simp

text \<open>Changing what is not looked at.\<close>

lemma gns_okI:
  assumes "smap_ok m"
    and "\<And>p c. mfind m p = Some c \<Longrightarrow> m_UserID c \<noteq> 0 \<Longrightarrow> \<exists>g. M (m_UserID c) = Some g \<and> here me g \<and> gns_ConnPos g = p"
    and "\<And>p c. mfind m p = Some c \<Longrightarrow> (m_ConnType c = CONN_AUTH \<longleftrightarrow> m_UserID c \<noteq> 0) \<and> m_ConnType c \<in> {CONN_UNAUTH, CONN_AUTH}"
    and "\<And>u g. M u = Some g \<Longrightarrow> gns_UserID g = u"
    and "\<And>u g. M u = Some g \<Longrightarrow> here me g \<Longrightarrow> u \<noteq> 0 \<and> (\<exists>c. mfind m (gns_ConnPos g) = Some c \<and> m_UserID c = u)"
  shows "gns_ok me m M"
  using assms unfolding gns_ok_def by blast

lemma gns_ok_conn_update:
  assumes ok: "gns_ok me m M" and c: "mfind m p = Some c" "m_UserID c' = m_UserID c" "m_ConnType c' = m_ConnType c"
  shows "gns_ok me (mupdate p c' m) M"
proof (rule gns_okI)
  show "smap_ok (mupdate p c' m)" using gns_okD(1) [OF ok] by simp
  show "\<And>u g. M u = Some g \<Longrightarrow> gns_UserID g = u" by (rule gns_okD(4) [OF ok])
  show "u \<noteq> 0 \<and> (\<exists>c. mfind (mupdate p c' m) (gns_ConnPos g) = Some c \<and> m_UserID c = u)"
    if "M u = Some g" "here me g" for u g
    using gns_okD(5) [OF ok that] c by auto
qed (use gns_okD(2,3) [OF ok] c in \<open>auto split: if_splits\<close>)

lemma gns_ok_insert:
  assumes ok: "gns_ok me m M" and c: "mfind m p = None" "m_UserID c = 0" "m_ConnType c = CONN_UNAUTH"
  shows "gns_ok me (minsert p c m) M"
proof (rule gns_okI)
  have i: "mfind (minsert p c m) q = (if q = p then Some c else mfind m q)" for q
    using gns_okD(1) [OF ok] c(1) by (simp add: mfind_minsert)
  show "smap_ok (minsert p c m)" using gns_okD(1) [OF ok] by (rule smap_ok_minsert)
  show "\<And>u g. M u = Some g \<Longrightarrow> gns_UserID g = u" by (rule gns_okD(4) [OF ok])
  show "u \<noteq> 0 \<and> (\<exists>c'. mfind (minsert p c m) (gns_ConnPos g) = Some c' \<and> m_UserID c' = u)"
    if "M u = Some g" "here me g" for u g
    using gns_okD(5) [OF ok that] c by (auto simp: i)
  show "\<exists>g. M (m_UserID c') = Some g \<and> here me g \<and> gns_ConnPos g = q"
    if "mfind (minsert p c m) q = Some c'" "m_UserID c' \<noteq> 0" for q c'
    using that gns_okD(2,3) [OF ok, of q c'] c by (auto simp: i split: if_splits)
  show "(m_ConnType c' = CONN_AUTH \<longleftrightarrow> m_UserID c' \<noteq> 0) \<and> m_ConnType c' \<in> {CONN_UNAUTH, CONN_AUTH}"
    if "mfind (minsert p c m) q = Some c'" for q c'
    using that gns_okD(3) [OF ok, of q c'] c by (auto simp: i CONN_UNAUTH_def CONN_AUTH_def split: if_splits)
qed

text \<open>A connection without a user disappears.\<close>

lemma gns_ok_erase:
  assumes ok: "gns_ok me m M" and c: "mfind m p = Some c" "m_UserID c = 0"
  shows "gns_ok me (merase p m) M"
proof (rule gns_okI)
  show "smap_ok (merase p m)" by (rule smap_ok_merase [OF gns_okD(1) [OF ok]])
  show "\<And>u g. M u = Some g \<Longrightarrow> gns_UserID g = u" by (rule gns_okD(4) [OF ok])
  show "u \<noteq> 0 \<and> (\<exists>c. mfind (merase p m) (gns_ConnPos g) = Some c \<and> m_UserID c = u)"
    if "M u = Some g" "here me g" for u g
    using gns_okD(5) [OF ok that] c by auto
qed (use gns_okD(2,3) [OF ok] in \<open>auto split: if_splits\<close>)

text \<open>An entry changes that is not and will not be an active one of this server.\<close>

lemma gns_ok_remote:
  assumes ok: "gns_ok me m M" and M: "\<And>g. M u = Some g \<Longrightarrow> \<not> here me g" and g': "\<not> here me g'" "gns_UserID g' = u"
  shows "gns_ok me m (M(u \<mapsto> g'))"
proof (rule gns_okI)
  show "\<exists>g. (M(u \<mapsto> g')) (m_UserID c) = Some g \<and> here me g \<and> gns_ConnPos g = p"
    if "mfind m p = Some c" "m_UserID c \<noteq> 0" for p c
    using gns_okD(2) [OF ok that] M by auto
qed (use gns_okD [OF ok] g' in \<open>auto split: if_splits\<close>)

text \<open>An entry disappears that is not an active one of this server.\<close>

lemma gns_ok_forget:
  assumes ok: "gns_ok me m M" and M: "\<And>g. M u = Some g \<Longrightarrow> \<not> here me g"
  shows "gns_ok me m (M(u := None))"
proof (rule gns_okI)
  show "\<exists>g. (M(u := None)) (m_UserID c) = Some g \<and> here me g \<and> gns_ConnPos g = p"
    if "mfind m p = Some c" "m_UserID c \<noteq> 0" for p c
    using gns_okD(2) [OF ok that] M by auto
qed (use gns_okD [OF ok] in \<open>auto split: if_splits\<close>)

text \<open>The user of a connection leaves: entry and connection go together.\<close>

lemma gns_ok_leave:
  assumes ok: "gns_ok me m M" and c: "mfind m p = Some c" "m_UserID c = u" "u \<noteq> 0"
    and g': "\<not> here me g'" "gns_UserID g' = u"
  shows "gns_ok me (merase p m) (M(u \<mapsto> g'))"
proof (rule gns_okI)
  have p: "m_UserID c' \<noteq> u" if "mfind m q = Some c'" "q \<noteq> p" for q c'
    using gns_okD(2) [OF ok that(1)] gns_okD(2) [OF ok c(1)] c(2,3) that(2) by auto
  show "\<exists>g. (M(u \<mapsto> g')) (m_UserID c') = Some g \<and> here me g \<and> gns_ConnPos g = q"
    if "mfind (merase p m) q = Some c'" "m_UserID c' \<noteq> 0" for q c'
    using gns_okD(2) [OF ok, of q c'] p [of q c'] that by (auto split: if_splits)
  show "u' \<noteq> 0 \<and> (\<exists>c. mfind (merase p m) (gns_ConnPos g) = Some c \<and> m_UserID c = u')"
    if "(M(u \<mapsto> g')) u' = Some g" "here me g" for u' g
  proof -
    have "u' \<noteq> u" "M u' = Some g" using that g' by (auto split: if_splits)
    with gns_okD(5) [OF ok _ that(2)] c show ?thesis by auto
  qed
  show "smap_ok (merase p m)" by (rule smap_ok_merase [OF gns_okD(1) [OF ok]])
qed (use gns_okD(3,4) [OF ok] g' in \<open>auto split: if_splits\<close>)

text \<open>A user enters on a connection without one.\<close>

lemma gns_ok_enter:
  assumes ok: "gns_ok me m M" and c: "mfind m p = Some c" "m_UserID c = 0" and u: "u \<noteq> 0"
    and M: "\<And>g. M u = Some g \<Longrightarrow> \<not> here me g"
    and g': "here me g'" "gns_UserID g' = u" "gns_ConnPos g' = p"
    and c': "m_UserID c' = u" "m_ConnType c' = CONN_AUTH"
  shows "gns_ok me (mupdate p c' m) (M(u \<mapsto> g'))"
proof (rule gns_okI)
  have q: "m_UserID c1 \<noteq> u" if "mfind m q = Some c1" for q c1
    using gns_okD(2) [OF ok that] M u by auto
  show "\<exists>g. (M(u \<mapsto> g')) (m_UserID c1) = Some g \<and> here me g \<and> gns_ConnPos g = q"
    if "mfind (mupdate p c' m) q = Some c1" "m_UserID c1 \<noteq> 0" for q c1
    using gns_okD(2) [OF ok, of q c1] q [of q c1] that c c' g' by (auto split: if_splits)
  show "u1 \<noteq> 0 \<and> (\<exists>c1. mfind (mupdate p c' m) (gns_ConnPos g) = Some c1 \<and> m_UserID c1 = u1)"
    if "(M(u \<mapsto> g')) u1 = Some g" "here me g" for u1 g
    using gns_okD(5) [OF ok _ that(2), of u1] that(1) c c' g' u by (cases "u1 = u") auto
  show "smap_ok (mupdate p c' m)" using gns_okD(1) [OF ok] by simp
qed (use gns_okD(3,4) [OF ok] c c' u g' in \<open>auto split: if_splits\<close>)

section \<open>Operations\<close>

text \<open>A pointer into the table stays the same when data is assigned.\<close>

lemma find_node_assign:
  fixes data data' :: "'a data_node list"
  assumes "find_node data k p = Some r"
    and "length data' = length data" "\<And>i. i < length data \<Longrightarrow> KeyVal (data' ! i) = KeyVal (data ! i)"
    and "\<And>i. i < length data \<Longrightarrow> ipNextDataNode (data' ! i) = ipNextDataNode (data ! i)"
  shows "find_node data' k p = Some r"
proof -
  let ?P = "\<lambda>d k p r. d = data \<longrightarrow> find_node data' k p = Some r"
  have "?P data k p r"
  proof (rule find_node.raw_induct [where P = ?P, OF _ assms(1)], rule impI)
    fix find :: "'a data_node list \<Rightarrow> u64 \<Rightarrow> int \<Rightarrow> int option" and d k p r
    assume IH: "\<And>d k p r. find d k p = Some r \<Longrightarrow> ?P d k p r" and d: "d = data"
      and body: "(if p = 0 then Some 0 else arr_get d p \<bind>
        (\<lambda>n. if KeyVal n \<noteq> k then find d k (ipNextDataNode n) else Some p)) = Some r"
    show "find_node data' k p = Some r"
    proof (cases "p = 0")
      case True
      with body show ?thesis by (simp add: find_node.simps)
    next
      case False
      with body d obtain n where n: "arr_get data p = Some n"
        and r: "(if KeyVal n \<noteq> k then find data k (ipNextDataNode n) else Some p) = Some r"
        by (auto split: Option.bind_splits)
      have p: "0 \<le> p" "nat p < length data" "n = data ! nat p" using n by (auto simp: arr_get_def split: if_splits)
      then have "arr_get data' p = Some (data' ! nat p)" using assms(2) by (simp add: arr_get_def)
      then show ?thesis
        using False r p assms(3,4) [OF p(2)] IH [of data k "ipNextDataNode n" r]
        by (subst find_node.simps) (auto split: if_splits)
    qed
  qed
  then show ?thesis by simp
qed

lemma HL_assign_Get:
  assumes "HL_assign h x d = Some h'" "HL_Get h k = Some y"
  shows "HL_Get h' k = Some y"
proof -
  obtain n where x: "0 \<le> x" "nat x < length (m_pstData h)" "n = m_pstData h ! nat x"
    and h': "h' = h\<lparr>m_pstData := (m_pstData h)[nat x := n\<lparr>Data := d\<rparr>]\<rparr>"
    using assms(1) by (auto simp: HL_assign_def arr_get_def arr_set_def split: Option.bind_splits if_splits)
  obtain ix p where g: "arr_get (m_pstIndex h) (Hash h k) = Some ix" "find_node (m_pstData h) k (ipDataNodeList ix) = Some p"
    "y = (if p > 0 then p else 0)"
    using assms(2) by (auto simp: HL_Get_def split: Option.bind_splits)
  have "find_node (m_pstData h') k (ipDataNodeList ix) = Some p"
    by (rule find_node_assign [OF g(2)]) (auto simp: h' x nth_list_update)
  moreover have "Hash h' k = Hash h k" "m_pstIndex h' = m_pstIndex h" by (simp_all add: h' Hash_def)
  ultimately show ?thesis using g by (simp add: HL_Get_def)
qed

definition inactive :: "int \<Rightarrow> u32 \<Rightarrow> u64 \<Rightarrow> ShmGnsInfo \<Rightarrow> ShmGnsInfo" where
  "inactive me pos t g = g\<lparr>gns_ServerID := me, gns_ConnPos := pos,
     gns_Status := GNS_USER_STATUS_UNACTIVE, gns_LastActiveTime := t\<rparr>"

lemma status_neq: "GNS_USER_STATUS_UNACTIVE \<noteq> GNS_USER_STATUS_ACTIVE"
  by (simp add: GNS_USER_STATUS_UNACTIVE_def GNS_USER_STATUS_ACTIVE_def)

lemma inactive_simps [simp]: "\<not> here me (inactive me' pos t g)" "gns_UserID (inactive me' pos t g) = gns_UserID g"
  using status_neq by (simp_all add: inactive_def here_def)

text \<open>The table after a user's connection went down, \<open>t\<close> being the time.\<close>

definition left_map :: "int \<Rightarrow> u32 \<Rightarrow> u64 \<Rightarrow> u64 \<Rightarrow> (u64 \<rightharpoonup> ShmGnsInfo) \<Rightarrow> (u64 \<rightharpoonup> ShmGnsInfo)" where
  "left_map me pos u t M = (case M u of None \<Rightarrow> M | Some g \<Rightarrow> M(u \<mapsto> inactive me pos t g))"

text \<open>Only the table, the send queue and the environment change, and pointers into the table stay.\<close>

definition table_step :: "conn \<Rightarrow> conn \<Rightarrow> bool" where
  "table_step s s' \<longleftrightarrow> (\<exists>h q w. s' = s\<lparr>m_GnsInfoMap := h, m_SendQueue := q, c_os := w\<rparr>)"

lemma table_stepI: "(s' :: conn) = s\<lparr>m_GnsInfoMap := h, m_SendQueue := q, c_os := w\<rparr> \<Longrightarrow> table_step s s'"
  by (auto simp: table_step_def)

lemma table_step_fields:
  assumes "table_step s s'"
  shows "c_PosConnMap s' = c_PosConnMap s" "m_ServerID s' = m_ServerID s" "m_itrCurCheckConn s' = m_itrCurCheckConn s"
    "m_CheckConnPos s' = m_CheckConnPos s" "m_MaxGnsNodeNum s' = m_MaxGnsNodeNum s"
  using assms by (auto simp: table_step_def)

lemma sends_table_step:
  assumes "sends (s\<lparr>m_GnsInfoMap := h\<rparr>) s'"
  shows "table_step s s'" "m_GnsInfoMap s' = h"
proof -
  obtain q w where "s' = s\<lparr>m_GnsInfoMap := h\<rparr>\<lparr>m_SendQueue := q, c_os := w\<rparr>" using assms by (auto simp: sends_def)
  then show "table_step s s'" "m_GnsInfoMap s' = h" by (auto intro: table_stepI)
qed

text \<open>The identity of the server, the scan and the size of the table stay.\<close>

definition steady :: "conn \<Rightarrow> conn \<Rightarrow> bool" where
  "steady s s' \<longleftrightarrow> m_ServerID s' = m_ServerID s \<and> m_CheckConnPos s' = m_CheckConnPos s \<and> m_MaxGnsNodeNum s' = m_MaxGnsNodeNum s
     \<and> length (m_pstIndex (m_GnsInfoMap s')) = length (m_pstIndex (m_GnsInfoMap s))
     \<and> iTotalDataNodeNum (m_pstHead (m_GnsInfoMap s')) = iTotalDataNodeNum (m_pstHead (m_GnsInfoMap s))"

lemma steady_refl [simp, intro]: "steady s s"
  by (simp add: steady_def)

lemma steady_trans: "steady s s' \<Longrightarrow> steady s' s'' \<Longrightarrow> steady s s''"
  by (simp add: steady_def)

lemma steady_sends: "sends s s' \<Longrightarrow> steady s s'"
  by (auto simp: sends_def steady_def)

lemma release_user_rel:
  assumes rel: "hl_rel (m_GnsInfoMap s) M"
  shows "\<exists>s' t. release_user P s pos u b = Some s' \<and> table_step s s'
    \<and> hl_rel (m_GnsInfoMap s') (left_map (m_ServerID s) pos u t M) \<and> steady s s'
    \<and> (\<forall>k x. HL_Get (m_GnsInfoMap s) k = Some x \<longrightarrow> HL_Get (m_GnsInfoMap s') k = Some x)"
proof -
  define t :: u64 where "t = word_of_int (os_ret (c_os s) (os_tick (c_os s)))"
  define s1 where "s1 = s\<lparr>c_os := os_call EvOther (c_os s)\<rparr>"
  define notify where "notify v = (if b then snd (Send2Server (v\<lparr>c_os := os_call EvOther (c_os v)\<rparr>)
      (conn_header v Cmd_Disconnect 0 pos u (os_ret (c_os v) (os_tick (c_os v)))) GROUP_CONN TO_GRP_ALLNOME 0
      (ser_LoginDisconnect P [\<lparr>ld_UserID = u, ld_ServerID = m_ServerID v, ld_ConnPos = pos, ld_LastActiveTime = t\<rparr>])) else v)" for v
  have n: "sends v (notify v)" for v
    using sends_trans [OF sends_os Send2Server_sends] by (simp add: notify_def)
  obtain x where x: "HL_Get (m_GnsInfoMap s) u = Some x"
    "case M u of None \<Rightarrow> x = 0 | Some g \<Rightarrow> 0 < x \<and> HL_deref (m_GnsInfoMap s) x = Some g"
    using HL_Get_rel [OF rel, of u] by blast
  have "\<exists>h. release_user P s pos u b = Some (notify (s1\<lparr>m_GnsInfoMap := h\<rparr>)) \<and> hl_rel h (left_map (m_ServerID s) pos u t M)
      \<and> (\<forall>k x. HL_Get (m_GnsInfoMap s) k = Some x \<longrightarrow> HL_Get h k = Some x)
      \<and> m_pstIndex h = m_pstIndex (m_GnsInfoMap s) \<and> m_pstHead h = m_pstHead (m_GnsInfoMap s)"
  proof (cases "M u")
    case None
    with x rel show ?thesis
      by (intro exI [of _ "m_GnsInfoMap s"])
        (simp add: release_user_def ccall_eq s1_def notify_def left_map_def t_def conn_header_def Let_def)
  next
    case (Some g)
    with x have x0: "0 < x" "HL_deref (m_GnsInfoMap s) x = Some g" by simp_all
    obtain h where h: "HL_assign (m_GnsInfoMap s) x (inactive (m_ServerID s) pos t g) = Some h" "hl_rel h (M(u \<mapsto> inactive (m_ServerID s) pos t g))"
      using HL_assign_rel [OF rel x(1) x0(1)] by blast
    from h x x0 Some HL_assign_Get [OF h(1)] HL_assign_shape [OF h(1)] show ?thesis
      by (intro exI [of _ h])
        (simp add: release_user_def ccall_eq s1_def notify_def left_map_def t_def conn_header_def inactive_def Let_def)
  qed
  then obtain h where h: "release_user P s pos u b = Some (notify (s1\<lparr>m_GnsInfoMap := h\<rparr>))"
    "hl_rel h (left_map (m_ServerID s) pos u t M)" "\<forall>k x. HL_Get (m_GnsInfoMap s) k = Some x \<longrightarrow> HL_Get h k = Some x"
    "m_pstIndex h = m_pstIndex (m_GnsInfoMap s)" "m_pstHead h = m_pstHead (m_GnsInfoMap s)" by blast
  let ?s = "notify (s1\<lparr>m_GnsInfoMap := h\<rparr>)"
  have "sends (s\<lparr>m_GnsInfoMap := h\<rparr>) (s1\<lparr>m_GnsInfoMap := h\<rparr>)"
    by (rule sendsI [where q = "m_SendQueue s" and w = "os_call EvOther (c_os s)"]) (simp add: s1_def)
  note T = sends_table_step [OF sends_trans [OF this n]]
  have "steady s ?s" using table_step_fields [OF T(1)] T(2) h(4,5) by (simp add: steady_def)
  with T h(1-3) show ?thesis by auto
qed

text \<open>\<open>ReleaseConn\<close> always returns, and keeps the invariant.\<close>

definition itr_next :: "conn \<Rightarrow> u32 \<Rightarrow> u32 option" where
  "itr_next s pos = (if m_itrCurCheckConn s = Some pos then next_key (c_PosConnMap s) pos else m_itrCurCheckConn s)"

lemma next_key_other: "next_key m k = Some x \<Longrightarrow> x \<noteq> k \<and> mfind m x \<noteq> None"
proof -
  assume "next_key m k = Some x"
  then obtain xs where "filter ((<) k) (mkeys m) = x # xs" by (auto simp: next_key_def split: list.splits)
  then have "x \<in> set (filter ((<) k) (mkeys m))" by (metis list.set_intros(1))
  then show ?thesis by (auto simp: mfind_None)
qed

lemma ReleaseConn_eff:
  assumes rel: "hl_rel (m_GnsInfoMap s) M"
  shows "\<exists>s' t. Conn_ReleaseConn P s pos c b = Some s'
    \<and> hl_rel (m_GnsInfoMap s') (if m_UserID c = 0 then M else left_map (m_ServerID s) pos (m_UserID c) t M)
    \<and> c_PosConnMap s' = merase pos (c_PosConnMap s) \<and> steady s s'
    \<and> m_itrCurCheckConn s' = itr_next s pos
    \<and> (\<forall>k x. HL_Get (m_GnsInfoMap s) k = Some x \<longrightarrow> HL_Get (m_GnsInfoMap s') k = Some x)"
proof -
  define w where "w = os_call (EvClose (m_SockID c)) (os_call (EvEpoll CtlDel (m_SockID c) False 0) (c_os s))"
  define s1 where "s1 = s\<lparr>c_os := w, m_itrCurCheckConn := itr_next s pos\<rparr>"
  have R: "Conn_ReleaseConn P s pos c b = (if m_UserID c \<noteq> 0 then release_user P s1 pos (m_UserID c) b else Some s1)
      \<bind> (\<lambda>s. Some (s\<lparr>c_PosConnMap := merase pos (c_PosConnMap s)\<rparr>))"
    by (simp add: Conn_ReleaseConn_def ccall0_eq s1_def w_def itr_next_def Let_def)
  have f: "m_ServerID s1 = m_ServerID s" "m_GnsInfoMap s1 = m_GnsInfoMap s" "c_PosConnMap s1 = c_PosConnMap s"
    "m_itrCurCheckConn s1 = itr_next s pos" "steady s s1" by (simp_all add: s1_def steady_def)
  show ?thesis
  proof (cases "m_UserID c = 0")
    case True
    with R rel f show ?thesis by (auto simp: steady_def)
  next
    case False
    obtain s' t where s': "release_user P s1 pos (m_UserID c) b = Some s'" "table_step s1 s'" "steady s1 s'"
      "hl_rel (m_GnsInfoMap s') (left_map (m_ServerID s1) pos (m_UserID c) t M)"
      "\<forall>k x. HL_Get (m_GnsInfoMap s1) k = Some x \<longrightarrow> HL_Get (m_GnsInfoMap s') k = Some x"
      using release_user_rel [of s1 M P pos "m_UserID c" b] rel f by auto
    with False R f show ?thesis by (auto simp: table_step_fields [OF s'(2)] steady_def)
  qed
qed

lemma itr_next_ok:
  assumes "\<And>k. m_itrCurCheckConn s = Some k \<Longrightarrow> mfind (c_PosConnMap s) k \<noteq> None" "itr_next s pos = Some k"
  shows "mfind (merase pos (c_PosConnMap s)) k \<noteq> None"
  using assms next_key_other [of "c_PosConnMap s" pos k] by (auto simp: itr_next_def split: if_splits)

lemma ReleaseConn_gns:
  assumes inv: "gns_inv s M" and c: "mfind (c_PosConnMap s) pos = Some c"
  shows "\<exists>s' t. Conn_ReleaseConn P s pos c b = Some s'
    \<and> gns_inv s' (if m_UserID c = 0 then M else left_map (m_ServerID s) pos (m_UserID c) t M)
    \<and> c_PosConnMap s' = merase pos (c_PosConnMap s) \<and> steady s s'
    \<and> (\<forall>k x. HL_Get (m_GnsInfoMap s) k = Some x \<longrightarrow> HL_Get (m_GnsInfoMap s') k = Some x)"
proof -
  note ok = gns_invD(2) [OF inv]
  obtain s' t where R: "Conn_ReleaseConn P s pos c b = Some s'"
    "hl_rel (m_GnsInfoMap s') (if m_UserID c = 0 then M else left_map (m_ServerID s) pos (m_UserID c) t M)"
    "c_PosConnMap s' = merase pos (c_PosConnMap s)" "steady s s'" "m_itrCurCheckConn s' = itr_next s pos"
    "\<forall>k x. HL_Get (m_GnsInfoMap s) k = Some x \<longrightarrow> HL_Get (m_GnsInfoMap s') k = Some x"
    using ReleaseConn_eff [OF gns_invD(1) [OF inv]] by blast
  have "gns_ok (m_ServerID s) (merase pos (c_PosConnMap s)) (if m_UserID c = 0 then M else left_map (m_ServerID s) pos (m_UserID c) t M)"
  proof (cases "m_UserID c = 0")
    case True
    with gns_ok_erase [OF ok c] show ?thesis by simp
  next
    case False
    obtain g where g: "M (m_UserID c) = Some g" using gns_okD(2) [OF ok c False] by blast
    with gns_ok_leave [OF ok c refl False] gns_okD(4) [OF ok g] False show ?thesis by (simp add: left_map_def)
  qed
  with R itr_next_ok [of s, OF gns_invD(3) [OF inv]] show ?thesis by (auto simp: gns_inv_def steady_def)
qed

text \<open>The assignments and the insertion, on the abstract table.\<close>

lemma gns_set_rel:
  assumes "hl_rel (m_GnsInfoMap s) M" "HL_Get (m_GnsInfoMap s) u = Some x" "0 < x" "M u = Some g"
  shows "\<exists>h. gns_set s x pos srv st t = Some (s\<lparr>m_GnsInfoMap := h\<rparr>)
    \<and> hl_rel h (M(u \<mapsto> g\<lparr>gns_ConnPos := pos, gns_ServerID := srv, gns_Status := st, gns_LastActiveTime := t\<rparr>))
    \<and> steady s (s\<lparr>m_GnsInfoMap := h\<rparr>)"
proof -
  have "HL_deref (m_GnsInfoMap s) x = Some g" using HL_Get_rel [OF assms(1), of u] assms(2-4) by auto
  moreover obtain h where h: "HL_assign (m_GnsInfoMap s) x (g\<lparr>gns_ConnPos := pos, gns_ServerID := srv, gns_Status := st, gns_LastActiveTime := t\<rparr>) = Some h"
    "hl_rel h (M(u \<mapsto> g\<lparr>gns_ConnPos := pos, gns_ServerID := srv, gns_Status := st, gns_LastActiveTime := t\<rparr>))"
    using HL_assign_rel [OF assms(1-3)] by blast
  ultimately show ?thesis using HL_assign_shape [OF h(1)] by (intro exI [of _ h]) (simp add: gns_set_def steady_def)
qed

definition has_room :: "conn \<Rightarrow> (u64 \<rightharpoonup> ShmGnsInfo) \<Rightarrow> bool" where
  "has_room s M \<longleftrightarrow> int (card (dom M)) + 1 < iTotalDataNodeNum (m_pstHead (m_GnsInfoMap s))"

lemma gns_insert_rel:
  assumes "hl_rel (m_GnsInfoMap s) M" "M u = None"
  shows "\<exists>h. gns_insert s u pos srv t = Some (s\<lparr>m_GnsInfoMap := h\<rparr>)
    \<and> hl_rel h (if has_room s M then M(u \<mapsto> \<lparr>gns_UserID = u, gns_ServerID = srv, gns_ConnPos = pos,
                   gns_Status = GNS_USER_STATUS_ACTIVE, gns_LastActiveTime = t\<rparr>) else M)
    \<and> steady s (s\<lparr>m_GnsInfoMap := h\<rparr>)"
proof -
  let ?g = "\<lparr>gns_UserID = u, gns_ServerID = srv, gns_ConnPos = pos, gns_Status = GNS_USER_STATUS_ACTIVE, gns_LastActiveTime = t\<rparr>"
  obtain r h where h: "HL_Insert (m_GnsInfoMap s) u ?g = Some (r, h)" "hl_rel h (if has_room s M then M(u \<mapsto> ?g) else M)"
    "iTotalDataNodeNum (m_pstHead h) = iTotalDataNodeNum (m_pstHead (m_GnsInfoMap s))"
    using HL_Insert_rel [OF assms(1), of u ?g] assms(2) by (auto simp: has_room_def domIff)
  with HL_Insert_shape [OF h(1)] show ?thesis by (intro exI [of _ h]) (simp add: gns_insert_def steady_def)
qed

text \<open>The user of an active entry of this server is put off the server.\<close>

lemma kick_user_gns:
  assumes inv: "gns_inv s M" and g: "M u = Some g" "here (m_ServerID s) g"
  shows "\<exists>s' t. kick_user P s u g = Some s' \<and> gns_inv s' (M(u \<mapsto> inactive (m_ServerID s) (gns_ConnPos g) t g))
    \<and> steady s s'
    \<and> (\<forall>k x. HL_Get (m_GnsInfoMap s) k = Some x \<longrightarrow> HL_Get (m_GnsInfoMap s') k = Some x)"
proof -
  obtain c where c: "mfind (c_PosConnMap s) (gns_ConnPos g) = Some c" "m_UserID c = u" "u \<noteq> 0"
    using gns_okD(5) [OF gns_invD(2) [OF inv] g] by blast
  with ReleaseConn_gns [OF inv c(1), of P False] g show ?thesis by (auto simp: kick_user_def left_map_def)
qed

section \<open>Messages of the other servers\<close>

text \<open>An entry that another server's message describes.\<close>

definition remote_entry :: "LoginData \<Rightarrow> int \<Rightarrow> ShmGnsInfo" where
  "remote_entry d st = \<lparr>gns_UserID = ld_UserID d, gns_ServerID = ld_ServerID d, gns_ConnPos = ld_ConnPos d,
     gns_Status = st, gns_LastActiveTime = ld_LastActiveTime d\<rparr>"

text \<open>An active entry of this server is kicked first, so that afterwards the entry is not one.\<close>

lemma kick_here:
  assumes inv: "gns_inv s M" and g: "M u = Some g"
  shows "\<exists>s' g'. (if gns_ServerID g = m_ServerID s \<and> gns_Status g = GNS_USER_STATUS_ACTIVE then kick_user P s u g else Some s) = Some s'
    \<and> gns_inv s' (M(u \<mapsto> g')) \<and> \<not> here (m_ServerID s) g' \<and> steady s s'
    \<and> (\<forall>k x. HL_Get (m_GnsInfoMap s) k = Some x \<longrightarrow> HL_Get (m_GnsInfoMap s') k = Some x)"
proof (cases "here (m_ServerID s) g")
  case True
  from kick_user_gns [OF inv g True, of P] obtain s' t where "kick_user P s u g = Some s'"
    "gns_inv s' (M(u \<mapsto> inactive (m_ServerID s) (gns_ConnPos g) t g))" "steady s s'"
    "\<forall>k x. HL_Get (m_GnsInfoMap s) k = Some x \<longrightarrow> HL_Get (m_GnsInfoMap s') k = Some x" by blast
  with True show ?thesis
    by (intro exI [of _ s'] exI [of _ "inactive (m_ServerID s) (gns_ConnPos g) t g"]) (simp add: here_def [symmetric])
next
  case False
  have "M(u \<mapsto> g) = M" using g by auto
  with inv False show ?thesis by (intro exI [of _ s] exI [of _ g]) (auto simp: here_def)
qed

text \<open>The table after a notice: the newer of the two wins, an equal time counting as newer.\<close>

definition noticed :: "conn \<Rightarrow> LoginData \<Rightarrow> (u64 \<rightharpoonup> ShmGnsInfo) \<Rightarrow> (u64 \<rightharpoonup> ShmGnsInfo)" where
  "noticed s d M =
     (if (case M (ld_UserID d) of None \<Rightarrow> has_room s M | Some g \<Rightarrow> gns_LastActiveTime g \<le> ld_LastActiveTime d)
      then M(ld_UserID d \<mapsto> remote_entry d GNS_USER_STATUS_ACTIVE) else M)"

lemma notice_one_gns:
  assumes inv: "gns_inv s M" and d: "ld_ServerID d \<noteq> m_ServerID s"
  shows "\<exists>s'. notice_one P s d = Some s' \<and> gns_inv s' (noticed s d M) \<and> steady s s'"
proof -
  let ?u = "ld_UserID d"
  note rel = gns_invD(1) [OF inv] and ok = gns_invD(2) [OF inv]
  obtain x where x: "HL_Get (m_GnsInfoMap s) ?u = Some x"
    "case M ?u of None \<Rightarrow> x = 0 | Some g \<Rightarrow> 0 < x \<and> HL_deref (m_GnsInfoMap s) x = Some g"
    using HL_Get_rel [OF rel, of ?u] by blast
  show ?thesis
  proof (cases "M ?u")
    case None
    let ?M = "if has_room s M then M(?u \<mapsto> remote_entry d GNS_USER_STATUS_ACTIVE) else M"
    obtain h where h: "gns_insert s ?u (ld_ConnPos d) (ld_ServerID d) (ld_LastActiveTime d) = Some (s\<lparr>m_GnsInfoMap := h\<rparr>)"
      "hl_rel h ?M" "steady s (s\<lparr>m_GnsInfoMap := h\<rparr>)"
      using gns_insert_rel [OF rel None, of "ld_ConnPos d" "ld_ServerID d" "ld_LastActiveTime d"]
      unfolding remote_entry_def by blast
    have "gns_ok (m_ServerID s) (c_PosConnMap s) (M(?u \<mapsto> remote_entry d GNS_USER_STATUS_ACTIVE))"
      using None d by (intro gns_ok_remote [OF ok]) (simp_all add: here_def remote_entry_def)
    with ok have "gns_ok (m_ServerID s) (c_PosConnMap s) ?M" by simp
    moreover have "noticed s d M = ?M" using None by (simp add: noticed_def)
    ultimately show ?thesis
      using h inv x None by (intro exI [of _ "s\<lparr>m_GnsInfoMap := h\<rparr>"]) (simp add: notice_one_def gns_inv_def)
  next
    case (Some g)
    with x have x0: "0 < x" "HL_deref (m_GnsInfoMap s) x = Some g" by simp_all
    obtain s1 g1 where k: "(if gns_ServerID g = m_ServerID s \<and> gns_Status g = GNS_USER_STATUS_ACTIVE then kick_user P s ?u g else Some s) = Some s1"
      "gns_inv s1 (M(?u \<mapsto> g1))" "\<not> here (m_ServerID s) g1" "steady s s1" "HL_Get (m_GnsInfoMap s1) ?u = Some x"
      using kick_here [OF inv Some] x(1) by blast
    let ?g = "g1\<lparr>gns_ConnPos := ld_ConnPos d, gns_ServerID := ld_ServerID d, gns_Status := GNS_USER_STATUS_ACTIVE, gns_LastActiveTime := ld_LastActiveTime d\<rparr>"
    obtain h where h: "gns_set s1 x (ld_ConnPos d) (ld_ServerID d) GNS_USER_STATUS_ACTIVE (ld_LastActiveTime d) = Some (s1\<lparr>m_GnsInfoMap := h\<rparr>)"
      "hl_rel h (M(?u \<mapsto> g1, ?u \<mapsto> ?g))" "steady s1 (s1\<lparr>m_GnsInfoMap := h\<rparr>)"
      using gns_set_rel [OF gns_invD(1) [OF k(2)] k(5) x0(1), of g1 "ld_ConnPos d" "ld_ServerID d" GNS_USER_STATUS_ACTIVE "ld_LastActiveTime d"] by auto
    have me: "m_ServerID s1 = m_ServerID s" using k(4) by (simp add: steady_def)
    have "gns_ok (m_ServerID s1) (c_PosConnMap s1) (M(?u \<mapsto> g1, ?u \<mapsto> ?g))"
      using gns_okD(4) [OF gns_invD(2) [OF k(2)], of ?u g1] k(3) d me
      by (intro gns_ok_remote [OF gns_invD(2) [OF k(2)]]) (auto simp: here_def)
    with k(2) h(2) have "gns_inv (s1\<lparr>m_GnsInfoMap := h\<rparr>) (M(?u \<mapsto> g1, ?u \<mapsto> ?g))" by (simp add: gns_inv_def)
    moreover have "notice_one P s d = (if gns_LastActiveTime g \<le> ld_LastActiveTime d then Some (s1\<lparr>m_GnsInfoMap := h\<rparr>) else Some s)"
      using x x0 k(1) h(1) by (simp add: notice_one_def)
    moreover have "?g = remote_entry d GNS_USER_STATUS_ACTIVE"
      using gns_okD(4) [OF gns_invD(2) [OF k(2)], of ?u g1] by (simp add: remote_entry_def)
    then have "noticed s d M = (if gns_LastActiveTime g \<le> ld_LastActiveTime d then M(?u \<mapsto> g1, ?u \<mapsto> ?g) else M)"
      using Some by (simp add: noticed_def)
    ultimately show ?thesis using inv steady_trans [OF k(4) h(3)] by auto
  qed
qed

lemma disconnect_one_gns:
  assumes inv: "gns_inv s M" and d: "ld_ServerID d \<noteq> m_ServerID s"
  shows "\<exists>s' M'. disconnect_one P s d = Some s' \<and> gns_inv s' M' \<and> steady s s'"
proof -
  let ?u = "ld_UserID d"
  note rel = gns_invD(1) [OF inv] and ok = gns_invD(2) [OF inv]
  obtain x where x: "HL_Get (m_GnsInfoMap s) ?u = Some x"
    "case M ?u of None \<Rightarrow> x = 0 | Some g \<Rightarrow> 0 < x \<and> HL_deref (m_GnsInfoMap s) x = Some g"
    using HL_Get_rel [OF rel, of ?u] by blast
  show ?thesis
  proof (cases "M ?u")
    case None
    with x inv show ?thesis by (auto simp: disconnect_one_def)
  next
    case (Some g)
    with x have x0: "0 < x" "HL_deref (m_GnsInfoMap s) x = Some g" by simp_all
    let ?g = "g\<lparr>gns_ConnPos := ld_ConnPos d, gns_ServerID := ld_ServerID d, gns_Status := GNS_USER_STATUS_UNACTIVE, gns_LastActiveTime := ld_LastActiveTime d\<rparr>"
    obtain h where h: "gns_set s x (ld_ConnPos d) (ld_ServerID d) GNS_USER_STATUS_UNACTIVE (ld_LastActiveTime d) = Some (s\<lparr>m_GnsInfoMap := h\<rparr>)"
      "hl_rel h (M(?u \<mapsto> ?g))" "steady s (s\<lparr>m_GnsInfoMap := h\<rparr>)"
      using gns_set_rel [OF rel x(1) x0(1) Some, of "ld_ConnPos d" "ld_ServerID d" GNS_USER_STATUS_UNACTIVE "ld_LastActiveTime d"] by blast
    have D: "disconnect_one P s d = (if gns_LastActiveTime g \<le> ld_LastActiveTime d
        then if here (m_ServerID s) g then kick_user P s ?u g else Some (s\<lparr>m_GnsInfoMap := h\<rparr>) else Some s)"
      using x x0 h(1) by (simp add: disconnect_one_def here_def)
    show ?thesis
    proof (cases "here (m_ServerID s) g")
      case True
      with kick_user_gns [OF inv Some True, of P] D inv show ?thesis by auto
    next
      case False
      have "gns_ok (m_ServerID s) (c_PosConnMap s) (M(?u \<mapsto> ?g))"
        using Some False gns_okD(4) [OF ok Some] status_neq
        by (intro gns_ok_remote [OF ok]) (auto simp: here_def)
      with inv h have "gns_inv (s\<lparr>m_GnsInfoMap := h\<rparr>) (M(?u \<mapsto> ?g))" by (simp add: gns_inv_def)
      with D False inv h(3) show ?thesis by auto
    qed
  qed
qed

section \<open>Logins\<close>

lemma merase_mupdate: "p \<noteq> q \<Longrightarrow> merase q (mupdate p c m) = mupdate p c (merase q m)"
  by (auto simp: merase_def mupdate_def filter_map intro!: map_cong filter_cong)

text \<open>A login answer the code handles well: it names a user, its connection has none yet, and the table has a place.\<close>

definition login_fits :: "conn \<Rightarrow> u32 \<Rightarrow> u64 \<Rightarrow> bool" where
  "login_fits s pos u \<longleftrightarrow> u \<noteq> 0 \<and> (\<forall>c. mfind (c_PosConnMap s) pos = Some c \<longrightarrow> m_UserID c = 0)
     \<and> (HL_Get (m_GnsInfoMap s) u \<noteq> Some 0
        \<or> iUsedDataNodeNum (m_pstHead (m_GnsInfoMap s)) < iTotalDataNodeNum (m_pstHead (m_GnsInfoMap s)))"

text \<open>The state in which the user's old connection, if it is on this server, has been released.\<close>

lemma login_kick:
  assumes inv: "gns_inv s M" and c: "mfind (c_PosConnMap s) p = Some c" "m_UserID c = 0" and u: "u \<noteq> 0" "M u = Some g"
    and f: "m_GnsInfoMap s0 = m_GnsInfoMap s" "c_PosConnMap s0 = mupdate p c' (c_PosConnMap s)" "steady s s0"
      "m_itrCurCheckConn s0 = m_itrCurCheckConn s"
    and x: "HL_Get (m_GnsInfoMap s) u = Some x"
  shows "\<exists>s1 g1 m. (if gns_Status g = GNS_USER_STATUS_ACTIVE \<and> gns_ServerID g = m_ServerID s then kick_user P s0 u g else Some s0) = Some s1
    \<and> hl_rel (m_GnsInfoMap s1) (M(u \<mapsto> g1)) \<and> c_PosConnMap s1 = mupdate p c' m \<and> gns_ok (m_ServerID s) m (M(u \<mapsto> g1)) \<and> mfind m p = Some c
    \<and> \<not> here (m_ServerID s) g1 \<and> steady s s1 \<and> HL_Get (m_GnsInfoMap s1) u = Some x
    \<and> (\<forall>k. m_itrCurCheckConn s1 = Some k \<longrightarrow> mfind (c_PosConnMap s1) k \<noteq> None)"
proof -
  let ?me = "m_ServerID s" and ?q = "gns_ConnPos g"
  note rel = gns_invD(1) [OF inv] and ok = gns_invD(2) [OF inv]
  have itr: "mfind (c_PosConnMap s0) k \<noteq> None" if "m_itrCurCheckConn s0 = Some k" for k
    using gns_invD(3) [OF inv, of k] that c by (auto simp: f)
  have me: "m_ServerID s0 = ?me" using f(3) by (simp add: steady_def)
  show ?thesis
  proof (cases "here ?me g")
    case False
    have "M(u \<mapsto> g) = M" using u by auto
    with False itr x rel ok c f show ?thesis
      by (intro exI [of _ s0] exI [of _ g] exI [of _ "c_PosConnMap s"]) (auto simp: here_def)
  next
    case True
    then have a: "gns_Status g = GNS_USER_STATUS_ACTIVE" "gns_ServerID g = ?me" by (simp_all add: here_def)
    obtain c1 where c1: "mfind (c_PosConnMap s) ?q = Some c1" "m_UserID c1 = u" using gns_okD(5) [OF ok u(2) True] by blast
    then have q: "p \<noteq> ?q" using c u by auto
    from ReleaseConn_eff [of s0 M P ?q c1 False] rel c1 u obtain s1 t1 where
      R: "Conn_ReleaseConn P s0 ?q c1 False = Some s1" "hl_rel (m_GnsInfoMap s1) (left_map ?me ?q u t1 M)"
        "c_PosConnMap s1 = merase ?q (c_PosConnMap s0)" "steady s0 s1"
        "m_itrCurCheckConn s1 = itr_next s0 ?q" "HL_Get (m_GnsInfoMap s1) u = Some x"
      using x by (auto simp: f me)
    have "gns_ok ?me (merase ?q (c_PosConnMap s)) (M(u \<mapsto> inactive ?me ?q t1 g))"
      using gns_okD(4) [OF ok u(2)] by (intro gns_ok_leave [OF ok c1(1,2) u(1)]) simp_all
    moreover have "kick_user P s0 u g = Some s1" using c1 q R(1) by (auto simp: kick_user_def f)
    moreover have "\<forall>k. m_itrCurCheckConn s1 = Some k \<longrightarrow> mfind (c_PosConnMap s1) k \<noteq> None"
      using itr_next_ok [OF itr, of ?q] R(3,5) by simp
    ultimately show ?thesis
      using R u q c a steady_trans [OF f(3) R(4)]
      by (intro exI [of _ s1] exI [of _ "inactive ?me ?q t1 g"] exI [of _ "merase ?q (c_PosConnMap s)"])
        (simp add: left_map_def f merase_mupdate)
  qed
qed

lemma login_gns_gns:
  assumes inv: "gns_inv s M" and c: "mfind (c_PosConnMap s) p = Some c" and fits: "login_fits s p u"
    and s0: "s0 = s\<lparr>c_PosConnMap := mupdate p (c\<lparr>m_ConnType := CONN_AUTH, m_UserID := u\<rparr>) (c_PosConnMap s), c_os := w\<rparr>"
  shows "\<exists>s' M'. login_gns P s0 u p t = Some s' \<and> gns_inv s' M' \<and> steady s s'"
proof -
  let ?c = "c\<lparr>m_ConnType := CONN_AUTH, m_UserID := u\<rparr>" and ?me = "m_ServerID s"
  note rel = gns_invD(1) [OF inv] and ok = gns_invD(2) [OF inv]
  have u: "u \<noteq> 0" "m_UserID c = 0" using fits c by (auto simp: login_fits_def)
  have f: "m_GnsInfoMap s0 = m_GnsInfoMap s" "c_PosConnMap s0 = mupdate p ?c (c_PosConnMap s)" "steady s s0"
    "m_itrCurCheckConn s0 = m_itrCurCheckConn s" "m_ServerID s0 = ?me" by (simp_all add: s0 steady_def)
  obtain x where x: "HL_Get (m_GnsInfoMap s) u = Some x"
    "case M u of None \<Rightarrow> x = 0 | Some g \<Rightarrow> 0 < x \<and> HL_deref (m_GnsInfoMap s) x = Some g"
    using HL_Get_rel [OF rel, of u] by blast
  show ?thesis
  proof (cases "M u")
    case None
    let ?g = "\<lparr>gns_UserID = u, gns_ServerID = ?me, gns_ConnPos = p, gns_Status = GNS_USER_STATUS_ACTIVE, gns_LastActiveTime = t\<rparr>"
    have "has_room s0 M" using fits x None rel by (simp add: login_fits_def has_room_def f hl_rel_def)
    then obtain h where h: "gns_insert s0 u p ?me t = Some (s0\<lparr>m_GnsInfoMap := h\<rparr>)" "hl_rel h (M(u \<mapsto> ?g))" "steady s0 (s0\<lparr>m_GnsInfoMap := h\<rparr>)"
      using gns_insert_rel [of s0 M u p ?me t] rel None by (auto simp: f)
    have "gns_ok ?me (mupdate p ?c (c_PosConnMap s)) (M(u \<mapsto> ?g))"
      using None u by (intro gns_ok_enter [OF ok c]) (simp_all add: here_def)
    with h gns_invD(3) [OF inv] c have "gns_inv (s0\<lparr>m_GnsInfoMap := h\<rparr>) (M(u \<mapsto> ?g))" by (simp add: gns_inv_def f)
    with x None h steady_trans [OF f(3) h(3)] show ?thesis
      by (intro exI [of _ "s0\<lparr>m_GnsInfoMap := h\<rparr>"] exI [of _ "M(u \<mapsto> ?g)"]) (simp add: login_gns_def f)
  next
    case (Some g)
    with x have x0: "0 < x" "HL_deref (m_GnsInfoMap s) x = Some g" by simp_all
    obtain s1 g1 m where k: "(if gns_Status g = GNS_USER_STATUS_ACTIVE \<and> gns_ServerID g = ?me then kick_user P s0 u g else Some s0) = Some s1"
      "hl_rel (m_GnsInfoMap s1) (M(u \<mapsto> g1))" "c_PosConnMap s1 = mupdate p ?c m" "gns_ok ?me m (M(u \<mapsto> g1))" "mfind m p = Some c"
      "\<not> here ?me g1" "steady s s1" "HL_Get (m_GnsInfoMap s1) u = Some x"
      "\<forall>k. m_itrCurCheckConn s1 = Some k \<longrightarrow> mfind (c_PosConnMap s1) k \<noteq> None"
      using login_kick [OF inv c u(2,1) Some f(1-4) x(1)] by blast
    let ?g = "g1\<lparr>gns_ConnPos := p, gns_ServerID := ?me, gns_Status := GNS_USER_STATUS_ACTIVE, gns_LastActiveTime := t\<rparr>"
    obtain h where h: "gns_set s1 x p ?me GNS_USER_STATUS_ACTIVE t = Some (s1\<lparr>m_GnsInfoMap := h\<rparr>)"
      "hl_rel h (M(u \<mapsto> g1, u \<mapsto> ?g))" "steady s1 (s1\<lparr>m_GnsInfoMap := h\<rparr>)"
      using gns_set_rel [OF k(2) k(8) x0(1), of g1 p ?me GNS_USER_STATUS_ACTIVE t] by auto
    have me: "m_ServerID s1 = ?me" using k(7) by (simp add: steady_def)
    have "gns_ok ?me (mupdate p ?c m) (M(u \<mapsto> g1, u \<mapsto> ?g))"
      using gns_okD(4) [OF k(4), of u g1] u k(6) by (intro gns_ok_enter [OF k(4,5)]) (auto simp: here_def)
    with k h me have "gns_inv (s1\<lparr>m_GnsInfoMap := h\<rparr>) (M(u \<mapsto> g1, u \<mapsto> ?g))" by (simp add: gns_inv_def)
    moreover have "login_gns P s0 u p t = Some (s1\<lparr>m_GnsInfoMap := h\<rparr>)"
      using x x0 k(1) h(1) me by (simp add: login_gns_def f)
    ultimately show ?thesis using steady_trans [OF k(7) h(3)] by blast
  qed
qed

text \<open>The rest of the login sends the notice.\<close>

definition login_start :: "conn \<Rightarrow> XYHeaderIn \<Rightarrow> u64 \<Rightarrow> connx \<Rightarrow> conn" where
  "login_start s H u c = s\<lparr>c_PosConnMap := mupdate (hi_ConnPos H) (c\<lparr>m_ConnType := CONN_AUTH, m_UserID := u\<rparr>) (c_PosConnMap s),
     c_os := os_call EvOther (c_os s)\<rparr>"

lemma login_ok_sends:
  assumes "\<And>t. \<exists>s1. login_gns P (login_start s H u c) u (hi_ConnPos H) t = Some s1 \<and> Q s1"
  shows "\<exists>s1 s2. login_ok P s H u c = Some s2 \<and> Q s1 \<and> sends s1 s2"
proof -
  let ?p = "hi_ConnPos H" and ?t = "word_of_int (os_ret (c_os s) (os_tick (c_os s)))"
  obtain s1 where L: "login_gns P (login_start s H u c) u ?p ?t = Some s1" "Q s1" using assms by blast
  let ?s1 = "s1\<lparr>c_os := os_call EvOther (c_os s1)\<rparr>"
  define s2 where "s2 = snd (Send2Server ?s1 (conn_header ?s1 Cmd_LoginNotice (hi_SN H) ?p u (os_ret (c_os s1) (os_tick (c_os s1))))
      GROUP_CONN TO_GRP_ALLNOME 0
      (ser_LoginNotice P [\<lparr>ld_UserID = u, ld_ServerID = m_ServerID s1, ld_ConnPos = ?p, ld_LastActiveTime = ?t\<rparr>]))"
  have "sends s1 s2" unfolding s2_def by (rule sends_trans [OF sends_os Send2Server_sends])
  moreover have "login_ok P s H u c = Some s2"
    using L(1) by (simp add: login_ok_def ccall_eq login_start_def s2_def Let_def)
  ultimately show ?thesis using L(2) by blast
qed

lemma login_ok_gns:
  assumes "gns_inv s M" "mfind (c_PosConnMap s) (hi_ConnPos H) = Some c" "login_fits s (hi_ConnPos H) u"
  shows "\<exists>s' M'. login_ok P s H u c = Some s' \<and> gns_inv s' M' \<and> steady s s'"
proof -
  have "\<exists>s1. login_gns P (login_start s H u c) u (hi_ConnPos H) t = Some s1 \<and> (\<exists>M'. gns_inv s1 M') \<and> steady s s1" for t
    using login_gns_gns [OF assms login_start_def] by blast
  from login_ok_sends [OF this] obtain s1 s2 M' where "login_ok P s H u c = Some s2" "gns_inv s1 M'" "steady s s1" "sends s1 s2" by blast
  with gns_inv_sends [of s1 s2 M'] steady_trans [OF _ steady_sends] show ?thesis by blast
qed

end
