(* ===== verification/ConnInv.thy ===== *)
theory ConnInv
  imports ConnGns
begin

text \<open>
  The operations of the connection server over whole runs. The locale \<open>conn_keeps\<close> is the contract
  an invariant of the server has to meet at the places where the code changes connections and
  users; its lemmas carry the invariant through sending, receiving, accepting, the packets of
  servers and the two scans, and show that these operations return. It is interpreted twice: for
  the well-formedness of the tables, which every input keeps, and for the consistency of
  connections and users, which needs the inputs to be as the other servers send them.
\<close>

section \<open>The scan of the user table\<close>

lemma removed_chain:
  assumes b: "bucket_ok h i (as @ x # bs)" and c: "chain (m_pstData h) (ipNextDataNode (m_pstData h ! nat x)) bs"
  shows "chain (m_pstData (removed h i as x)) (ipNextDataNode (m_pstData h ! nat x)) bs"
proof -
  have d: "distinct (as @ x # bs)" using b distinct_map unfolding bucket_ok_def by blast
  have x: "0 < x" using bucket_ok_node [OF b, of x] by simp
  have dj: "set as \<inter> set bs = {}" using d by simp
  have la: "0 < last as \<and> last as \<notin> set bs" if "as \<noteq> []"
  proof
    have l: "last as \<in> set as" by (rule last_in_set [OF that])
    then show "0 < last as" using bucket_ok_node [OF b, of "last as"] by simp
    show "last as \<notin> set bs" using l dj by blast
  qed
  have x': "x \<notin> set bs" using d by simp
  show ?thesis
  proof (cases "as = []")
    case True
    with chain_update_other [OF c x x'] show ?thesis by (simp add: removed_def Let_def)
  next
    case False
    with chain_update_other [OF chain_update_other [OF c] x x', of "last as"] la show ?thesis
      by (simp add: removed_def Let_def)
  qed
qed

lemma entry_at:
  assumes inv: "hl_inv h cs fs" and i: "i < length cs" "x \<in> set (cs ! i)"
  shows "lookup h cs (key_at (m_pstData h) x) = Some (Data (m_pstData h ! nat x))"
proof -
  let ?es = "map (\<lambda>x. (key_at (m_pstData h) x, Data (m_pstData h ! nat x))) (concat cs)"
  have "distinct (map fst ?es)" using hl_entries [OF inv] by (simp add: comp_def)
  moreover have "(key_at (m_pstData h) x, Data (m_pstData h ! nat x)) \<in> set ?es"
    using in_concat_nth [OF i] unfolding set_map by blast
  ultimately have "map_of ?es (key_at (m_pstData h) x) = Some (Data (m_pstData h ! nat x))" by (rule map_of_is_SomeI)
  with hl_entries [OF inv] show ?thesis by simp
qed

text \<open>One call of the callback for the node at \<open>x\<close>.\<close>

lemma MemFullCallBack_node:
  assumes rel: "hl_rel (m_GnsInfoMap s) (lookup (m_GnsInfoMap s) cs)" and inv: "hl_inv (m_GnsInfoMap s) cs fs"
    and i: "i < length cs" and c: "cs ! i = as @ x # bs"
    and k: "k = key_at (m_pstData (m_GnsInfoMap s)) x" and g: "g = Data (m_pstData (m_GnsInfoMap s) ! nat x)"
  shows "(MemFullCallBack s k g = Some (s\<lparr>c_os := os_call EvOther (c_os s)\<rparr>))
    \<or> (gns_Status g = GNS_USER_STATUS_UNACTIVE
       \<and> MemFullCallBack s k g = Some (s\<lparr>c_os := os_call EvOther (c_os s), m_GnsInfoMap := removed (m_GnsInfoMap s) i as x\<rparr>)
       \<and> hl_rel (removed (m_GnsInfoMap s) i as x) ((lookup (m_GnsInfoMap s) cs)(k := None))
       \<and> hl_inv (removed (m_GnsInfoMap s) i as x) (cs[i := as @ bs]) (x # fs)
       \<and> lookup (removed (m_GnsInfoMap s) i as x) (cs[i := as @ bs]) = (lookup (m_GnsInfoMap s) cs)(k := None))"
proof -
  let ?h = "m_GnsInfoMap s"
  have b: "bucket_ok ?h i (as @ x # bs)" using hl_inv_bucket [OF inv i] c by simp
  have H: "Hash ?h k = int i" using b by (simp add: bucket_ok_def k)
  have "\<forall>a\<in>set as. key_at (m_pstData ?h) a \<noteq> k" 
  proof
    fix a assume a: "a \<in> set as"
    have n: "k \<notin> key_at (m_pstData ?h) ` set as" using b by (simp add: bucket_ok_def k)
    show "key_at (m_pstData ?h) a \<noteq> k"
    proof
      assume "key_at (m_pstData ?h) a = k"
      then have "k \<in> key_at (m_pstData ?h) ` set as" using a by (rule image_eqI [OF sym])
      with n show False by (rule notE)
    qed
  qed
  then have R: "HL_Remove ?h k = Some (HL_SUCCESS, removed ?h i as x)"
    by (rule HL_Remove_step [OF inv H i c _ k [symmetric]])
  obtain r h' where h': "HL_Remove ?h k = Some (r, h')" "hl_rel h' ((lookup ?h cs)(k := None))"
    using HL_Remove_rel [OF rel, of k] by blast
  have "h' = removed ?h i as x" using R h'(1) by simp
  with h'(2) have "hl_rel (removed ?h i as x) ((lookup ?h cs)(k := None))" by simp
  moreover have "MemFullCallBack s k g = (if gns_Status g = GNS_USER_STATUS_UNACTIVE
      \<and> word_of_int (os_ret (c_os s) (os_tick (c_os s)) - CONN_INVALID_TIME) > gns_LastActiveTime g
    then Some (s\<lparr>c_os := os_call EvOther (c_os s), m_GnsInfoMap := removed ?h i as x\<rparr>)
    else Some (s\<lparr>c_os := os_call EvOther (c_os s)\<rparr>))"
    using R by (simp add: MemFullCallBack_def ccall_eq Let_def)
  moreover note removed_inv [OF inv i c] removed_lookup [OF inv H i c k [symmetric]]
  ultimately show ?thesis by presburger
qed

lemma check_loop_rel:
  assumes "hl_rel (m_GnsInfoMap s) (lookup (m_GnsInfoMap s) cs)" "hl_inv (m_GnsInfoMap s) cs fs"
    "i < length cs" "cs ! i = as @ bs" "chain (m_pstData (m_GnsInfoMap s)) p bs" "Q (lookup (m_GnsInfoMap s) cs)"
    and Q: "\<And>M u g. Q M \<Longrightarrow> M u = Some g \<Longrightarrow> gns_Status g = GNS_USER_STATUS_UNACTIVE \<Longrightarrow> Q (M(u := None))"
  shows "\<exists>s' M'. check_loop s p = Some s' \<and> hl_rel (m_GnsInfoMap s') M' \<and> Q M' \<and> table_step s s' \<and> steady s s'"
  using assms(1-6)
proof (induction bs arbitrary: s cs fs as p)
  case Nil
  have "table_step s s" by (rule table_stepI [where h = "m_GnsInfoMap s" and q = "m_SendQueue s" and w = "c_os s"]) simp
  with Nil show ?case by (auto simp: check_loop.simps)
next
  case (Cons x bs)
  let ?h = "m_GnsInfoMap s" and ?n = "m_pstData (m_GnsInfoMap s) ! nat x"
  have p: "p = x" "0 < x" "x < int (length (m_pstData ?h))" "chain (m_pstData ?h) (ipNextDataNode ?n) bs" using Cons.prems(5) by simp_all
  have L: "check_loop s p = MemFullCallBack s (KeyVal ?n) (Data ?n) \<bind> (\<lambda>s. check_loop s (ipNextDataNode ?n))"
    using p by (subst check_loop.simps) simp
  have b: "bucket_ok ?h i (as @ x # bs)" using hl_inv_bucket [OF Cons.prems(2,3)] Cons.prems(4) by simp
  have step: "\<exists>s' M'. check_loop s p = Some s' \<and> hl_rel (m_GnsInfoMap s') M' \<and> Q M' \<and> table_step s s' \<and> steady s s'"
    if s1: "MemFullCallBack s (KeyVal ?n) (Data ?n) = Some s1" "s1 = s\<lparr>c_os := w, m_GnsInfoMap := h\<rparr>"
      "length (m_pstIndex h) = length (m_pstIndex ?h)" "iTotalDataNodeNum (m_pstHead h) = iTotalDataNodeNum (m_pstHead ?h)"
      and IH: "\<exists>s' M'. check_loop s1 (ipNextDataNode ?n) = Some s' \<and> hl_rel (m_GnsInfoMap s') M' \<and> Q M' \<and> table_step s1 s' \<and> steady s1 s'"
    for s1 w h
  proof -
    obtain s' M' where s': "check_loop s1 (ipNextDataNode ?n) = Some s'" "hl_rel (m_GnsInfoMap s') M'" "Q M'" "table_step s1 s'" "steady s1 s'"
      using IH by blast
    obtain h' q w' where "s' = s1\<lparr>m_GnsInfoMap := h', m_SendQueue := q, c_os := w'\<rparr>" using s'(4) by (auto simp: table_step_def)
    then have "table_step s s'" by (intro table_stepI [where h = h' and q = q and w = w']) (simp add: s1(2))
    moreover have "steady s s'" using s'(5) s1(2-4) by (simp add: steady_def)
    ultimately show ?thesis using s' s1(1) L by auto
  qed
  consider (keep) "MemFullCallBack s (KeyVal ?n) (Data ?n) = Some (s\<lparr>c_os := os_call EvOther (c_os s)\<rparr>)"
    | (drop) "gns_Status (Data ?n) = GNS_USER_STATUS_UNACTIVE"
      "MemFullCallBack s (KeyVal ?n) (Data ?n) = Some (s\<lparr>c_os := os_call EvOther (c_os s), m_GnsInfoMap := removed ?h i as x\<rparr>)"
      "hl_rel (removed ?h i as x) ((lookup ?h cs)(KeyVal ?n := None))"
      "hl_inv (removed ?h i as x) (cs[i := as @ bs]) (x # fs)"
      "lookup (removed ?h i as x) (cs[i := as @ bs]) = (lookup ?h cs)(KeyVal ?n := None)"
    using MemFullCallBack_node [OF Cons.prems(1-4) refl refl] unfolding key_at_def by blast
  then show ?case
  proof cases
    case keep
    let ?s1 = "s\<lparr>c_os := os_call EvOther (c_os s)\<rparr>"
    have "\<exists>s' M'. check_loop ?s1 (ipNextDataNode ?n) = Some s' \<and> hl_rel (m_GnsInfoMap s') M' \<and> Q M' \<and> table_step ?s1 s' \<and> steady ?s1 s'"
      using Cons.prems p by (intro Cons.IH [of ?s1 cs fs "as @ [x]"]) simp_all
    with keep show ?thesis by (intro step [where h = ?h]) simp_all
  next
    case drop
    let ?s1 = "s\<lparr>c_os := os_call EvOther (c_os s), m_GnsInfoMap := removed ?h i as x\<rparr>"
    have "lookup ?h cs (KeyVal ?n) = Some (Data ?n)"
      using entry_at [OF Cons.prems(2,3), of x] Cons.prems(4) by (simp add: key_at_def)
    from Q [OF Cons.prems(6) this drop(1)] have
      "\<exists>s' M'. check_loop ?s1 (ipNextDataNode ?n) = Some s' \<and> hl_rel (m_GnsInfoMap s') M' \<and> Q M' \<and> table_step ?s1 s' \<and> steady ?s1 s'"
      using drop Cons.prems(3) removed_chain [OF b p(4)]
      by (intro Cons.IH [of ?s1 "cs[i := as @ bs]" "x # fs" as]) (simp_all del: fun_upd_apply)
    with drop(2) show ?thesis by (intro step [where h = "removed ?h i as x"]) (simp_all add: removed_head)
  qed
qed

text \<open>One round of the scan: it visits one index entry and moves on.\<close>

lemma CheckValid_rel:
  assumes rel: "hl_rel (m_GnsInfoMap s) M" and "Q M"
    and pos: "0 \<le> m_CheckConnPos s" "m_CheckConnPos s < int (length (m_pstIndex (m_GnsInfoMap s)))"
    and Q: "\<And>M u g. Q M \<Longrightarrow> M u = Some g \<Longrightarrow> gns_Status g = GNS_USER_STATUS_UNACTIVE \<Longrightarrow> Q (M(u := None))"
  shows "\<exists>s1 M'. CheckValid s = Some (s1\<lparr>m_CheckConnPos := (m_CheckConnPos s + 1) mod m_MaxGnsNodeNum s\<rparr>)
    \<and> hl_rel (m_GnsInfoMap s1) M' \<and> Q M' \<and> table_step s s1 \<and> steady s s1"
proof -
  let ?h = "m_GnsInfoMap s"
  obtain cs fs where inv: "hl_inv ?h cs fs" and M: "M = lookup ?h cs" using rel by (rule hl_relE)
  define i where "i = nat (m_CheckConnPos s)"
  have i: "m_CheckConnPos s = int i" "i < length cs" "i < length (m_pstIndex ?h)" using pos inv by (auto simp: i_def hl_inv_def)
  let ?ix = "m_pstIndex ?h ! i"
  have b: "bucket_ok ?h i (cs ! i)" by (rule hl_inv_bucket [OF inv i(2)])
  have t: "table_step s s" by (rule table_stepI [where h = ?h and q = "m_SendQueue s" and w = "c_os s"]) simp
  have ch: "chain (m_pstData ?h) (ipDataNodeList ?ix) (cs ! i)" using b by (simp add: bucket_ok_def)
  have "\<exists>s1 M'. (if iDataNodeNum ?ix > 0 then check_loop s (ipDataNodeList ?ix) else Some s) = Some s1
    \<and> hl_rel (m_GnsInfoMap s1) M' \<and> Q M' \<and> table_step s s1 \<and> steady s s1"
    using check_loop_rel [of s cs fs i "[]" "cs ! i" _ Q] rel inv i ch M assms(2) Q t by auto
  then obtain s1 M' where s1: "(if iDataNodeNum ?ix > 0 then check_loop s (ipDataNodeList ?ix) else Some s) = Some s1"
    "hl_rel (m_GnsInfoMap s1) M'" "Q M'" "table_step s s1" "steady s s1" by blast
  then have "CheckValid s = Some (s1\<lparr>m_CheckConnPos := (m_CheckConnPos s + 1) mod m_MaxGnsNodeNum s\<rparr>)"
    using i by (simp add: CheckValid_def steady_def)
  with s1 show ?thesis by blast
qed

section \<open>Well-formedness\<close>

text \<open>
  What every input keeps: the connections are filed under their positions, the iterator of the
  timeout scan is valid, the user table is a well-formed hash table and the position of its scan
  is an index of it.
\<close>

definition conn_wf :: "conn \<Rightarrow> bool" where
  "conn_wf s \<longleftrightarrow> smap_ok (c_PosConnMap s)
     \<and> (\<forall>p c. mfind (c_PosConnMap s) p = Some c \<longrightarrow> m_ConnPos c = p \<and> m_ConnType c \<in> {CONN_UNAUTH, CONN_AUTH})
     \<and> (\<forall>k. m_itrCurCheckConn s = Some k \<longrightarrow> mfind (c_PosConnMap s) k \<noteq> None)
     \<and> (\<exists>M. hl_rel (m_GnsInfoMap s) M)
     \<and> int (length (m_pstIndex (m_GnsInfoMap s))) = m_MaxGnsNodeNum s
     \<and> 0 \<le> m_CheckConnPos s \<and> m_CheckConnPos s < m_MaxGnsNodeNum s"

lemma conn_wfD:
  assumes "conn_wf s"
  shows "smap_ok (c_PosConnMap s)"
    and "mfind (c_PosConnMap s) p = Some c \<Longrightarrow> m_ConnPos c = p \<and> m_ConnType c \<in> {CONN_UNAUTH, CONN_AUTH}"
    and "m_itrCurCheckConn s = Some k \<Longrightarrow> mfind (c_PosConnMap s) k \<noteq> None"
    and "\<exists>M. hl_rel (m_GnsInfoMap s) M"
    and "int (length (m_pstIndex (m_GnsInfoMap s))) = m_MaxGnsNodeNum s"
    and "0 \<le> m_CheckConnPos s \<and> m_CheckConnPos s < m_MaxGnsNodeNum s"
  using assms unfolding conn_wf_def by blast+

text \<open>The connections may be updated in place; the table may be replaced by one of the same shape.\<close>

lemma conn_wf_step:
  assumes wf: "conn_wf s" and st: "steady s s'" "hl_rel (m_GnsInfoMap s') M"
    and m: "smap_ok (c_PosConnMap s')"
      "\<And>p c. mfind (c_PosConnMap s') p = Some c \<Longrightarrow> m_ConnPos c = p \<and> m_ConnType c \<in> {CONN_UNAUTH, CONN_AUTH}"
      "\<And>k. m_itrCurCheckConn s' = Some k \<Longrightarrow> mfind (c_PosConnMap s') k \<noteq> None"
  shows "conn_wf s'"
  unfolding conn_wf_def
proof (intro conjI)
  show "\<exists>M. hl_rel (m_GnsInfoMap s') M" using st(2) by blast
  show "int (length (m_pstIndex (m_GnsInfoMap s'))) = m_MaxGnsNodeNum s'" "0 \<le> m_CheckConnPos s'" "m_CheckConnPos s' < m_MaxGnsNodeNum s'"
    using conn_wfD(5,6) [OF wf] st(1) by (simp_all add: steady_def)
qed (use m in blast)+

lemma conn_wf_table:
  assumes "conn_wf s" "steady s (s\<lparr>m_GnsInfoMap := h\<rparr>)" "hl_rel h M"
  shows "conn_wf (s\<lparr>m_GnsInfoMap := h\<rparr>)"
  using conn_wfD(1-3) [OF assms(1)] assms(3) by (intro conn_wf_step [OF assms(1,2)]) auto

lemma wf_sends: "conn_wf s \<Longrightarrow> sends s s' \<Longrightarrow> conn_wf s'"
  unfolding sends_def by (elim exE) (simp add: conn_wf_def)

lemma wf_update:
  assumes wf: "conn_wf s" and c: "m_ConnPos c = p" "m_ConnType c \<in> {CONN_UNAUTH, CONN_AUTH}"
  shows "conn_wf (s\<lparr>c_PosConnMap := mupdate p c (c_PosConnMap s)\<rparr>)"
proof -
  obtain M where "hl_rel (m_GnsInfoMap s) M" using conn_wfD(4) [OF wf] by blast
  then show ?thesis
    using conn_wfD(1-3) [OF wf] c
    by (intro conn_wf_step [OF wf]) (auto simp: steady_def split: if_splits)
qed

lemma wf_release:
  assumes wf: "conn_wf s"
  shows "\<exists>s'. Conn_ReleaseConn P s p c b = Some s' \<and> conn_wf s' \<and> steady s s'
    \<and> (\<forall>k x. HL_Get (m_GnsInfoMap s) k = Some x \<longrightarrow> HL_Get (m_GnsInfoMap s') k = Some x)"
proof -
  obtain M where "hl_rel (m_GnsInfoMap s) M" using conn_wfD(4) [OF wf] by blast
  from ReleaseConn_eff [OF this] obtain s' M' where R: "Conn_ReleaseConn P s p c b = Some s'" "hl_rel (m_GnsInfoMap s') M'"
    "c_PosConnMap s' = merase p (c_PosConnMap s)" "steady s s'" "m_itrCurCheckConn s' = itr_next s p"
    "\<forall>k x. HL_Get (m_GnsInfoMap s) k = Some x \<longrightarrow> HL_Get (m_GnsInfoMap s') k = Some x" by blast
  have "conn_wf s'"
    using R conn_wfD(1,2) [OF wf] itr_next_ok [OF conn_wfD(3) [OF wf]] smap_ok_merase
    by (intro conn_wf_step [OF wf R(4,2)]) (auto split: if_splits)
  with R show ?thesis by blast
qed

lemma wf_kick:
  assumes "conn_wf s"
  shows "\<exists>s'. (if b then kick_user P s u g else Some s) = Some s' \<and> conn_wf s' \<and> steady s s'
    \<and> (\<forall>k x. HL_Get (m_GnsInfoMap s) k = Some x \<longrightarrow> HL_Get (m_GnsInfoMap s') k = Some x)"
  using assms wf_release [OF assms] by (auto simp: kick_user_def split: option.split)

lemma wf_get:
  assumes "conn_wf s"
  obtains x where "HL_Get (m_GnsInfoMap s) u = Some x"
    "x \<noteq> 0 \<Longrightarrow> 0 < x \<and> (\<exists>g. HL_deref (m_GnsInfoMap s) x = Some g)"
proof -
  obtain M where "hl_rel (m_GnsInfoMap s) M" using conn_wfD(4) [OF assms] by blast
  from HL_Get_rel [OF this, of u] that show thesis by (auto split: option.splits)
qed

lemma wf_insert:
  assumes wf: "conn_wf s" and "HL_Get (m_GnsInfoMap s) u = Some 0"
  shows "\<exists>s'. gns_insert s u pos srv t = Some s' \<and> conn_wf s' \<and> steady s s'"
proof -
  obtain M where M: "hl_rel (m_GnsInfoMap s) M" using conn_wfD(4) [OF wf] by blast
  then have "M u = None" using HL_Get_rel [OF M, of u] assms(2) by (auto split: option.splits)
  from gns_insert_rel [OF M this] conn_wf_table [OF wf] show ?thesis by blast
qed

lemma wf_set:
  assumes wf: "conn_wf s" and x: "HL_Get (m_GnsInfoMap s) u = Some x" "0 < x"
  shows "\<exists>s'. gns_set s x pos srv st t = Some s' \<and> conn_wf s' \<and> steady s s'"
proof -
  obtain M where M: "hl_rel (m_GnsInfoMap s) M" using conn_wfD(4) [OF wf] by blast
  then obtain g where "M u = Some g" using HL_Get_rel [OF M, of u] x by (auto split: option.splits)
  from gns_set_rel [OF M x this] conn_wf_table [OF wf] show ?thesis by blast
qed

text \<open>Closing the old connection and rewriting the entry, as the three handlers do.\<close>

lemma wf_kick_set:
  assumes wf: "conn_wf s" and x: "HL_Get (m_GnsInfoMap s) u = Some x" "0 < x"
  shows "\<exists>s'. (if b then kick_user P s u g else Some s) \<bind> (\<lambda>s. gns_set s x pos (srv s) st t) = Some s' \<and> conn_wf s' \<and> steady s s'"
proof -
  obtain s1 where s1: "(if b then kick_user P s u g else Some s) = Some s1" "conn_wf s1" "steady s s1"
    "HL_Get (m_GnsInfoMap s1) u = Some x" using wf_kick [OF wf, of b P u g] x by blast
  from wf_set [OF s1(2,4) x(2), of pos "srv s1" st t] s1 steady_trans [OF s1(3)] show ?thesis by auto
qed

lemma wf_notice:
  assumes wf: "conn_wf s"
  shows "\<exists>s'. notice_one P s d = Some s' \<and> conn_wf s' \<and> steady s s'"
proof -
  obtain x where x: "HL_Get (m_GnsInfoMap s) (ld_UserID d) = Some x"
    "x \<noteq> 0 \<Longrightarrow> 0 < x \<and> (\<exists>g. HL_deref (m_GnsInfoMap s) x = Some g)" using wf_get [OF wf] by blast
  show ?thesis
  proof (cases "x = 0")
    case True
    with x wf_insert [OF wf] show ?thesis by (simp add: notice_one_def)
  next
    case False
    with x obtain g where "0 < x" "HL_deref (m_GnsInfoMap s) x = Some g" by blast
    with x wf wf_kick_set [OF wf x(1), where srv = "\<lambda>_. ld_ServerID d"] show ?thesis by (auto simp: notice_one_def)
  qed
qed

lemma wf_disconnect:
  assumes wf: "conn_wf s"
  shows "\<exists>s'. disconnect_one P s d = Some s' \<and> conn_wf s' \<and> steady s s'"
proof -
  obtain x where x: "HL_Get (m_GnsInfoMap s) (ld_UserID d) = Some x"
    "x \<noteq> 0 \<Longrightarrow> 0 < x \<and> (\<exists>g. HL_deref (m_GnsInfoMap s) x = Some g)" using wf_get [OF wf] by blast
  show ?thesis
  proof (cases "x = 0")
    case True
    with x wf show ?thesis by (auto simp: disconnect_one_def)
  next
    case False
    with x obtain g where g: "0 < x" "HL_deref (m_GnsInfoMap s) x = Some g" by blast
    with x wf wf_set [OF wf x(1)] wf_kick [OF wf, of True P "ld_UserID d" g] show ?thesis by (auto simp: disconnect_one_def)
  qed
qed

lemma wf_login_gns:
  assumes wf: "conn_wf s"
  shows "\<exists>s1. login_gns P s u p t = Some s1 \<and> conn_wf s1 \<and> steady s s1"
proof -
  obtain x where x: "HL_Get (m_GnsInfoMap s) u = Some x"
    "x \<noteq> 0 \<Longrightarrow> 0 < x \<and> (\<exists>g. HL_deref (m_GnsInfoMap s) x = Some g)" using wf_get [OF wf] by blast
  show ?thesis
  proof (cases "x = 0")
    case True
    with x wf_insert [OF wf] show ?thesis by (simp add: login_gns_def)
  next
    case False
    with x obtain g where "0 < x" "HL_deref (m_GnsInfoMap s) x = Some g" by blast
    with x wf_kick_set [OF wf x(1), where srv = m_ServerID] show ?thesis by (auto simp: login_gns_def)
  qed
qed

lemma wf_login:
  assumes wf: "conn_wf s" and c: "mfind (c_PosConnMap s) (hi_ConnPos H) = Some c"
  shows "\<exists>s'. login_ok P s H u c = Some s' \<and> conn_wf s' \<and> steady s s'"
proof -
  let ?s = "login_start s H u c"
  have wf0: "conn_wf ?s" and st0: "steady s ?s"
    using wf_sends [OF wf_update [OF wf, of "c\<lparr>m_ConnType := CONN_AUTH, m_UserID := u\<rparr>" "hi_ConnPos H"] sends_os] conn_wfD(2) [OF wf c]
    by (simp_all add: login_start_def steady_def)
  from login_ok_sends [of P s H u c "\<lambda>s1. conn_wf s1 \<and> steady ?s s1", OF wf_login_gns [OF wf0]] obtain s1 s2 where
    "login_ok P s H u c = Some s2" "conn_wf s1" "steady ?s s1" "sends s1 s2" by blast
  with wf_sends [of s1 s2] steady_trans [OF st0 steady_trans [OF _ steady_sends]] show ?thesis by blast
qed

lemma wf_CheckValid:
  assumes wf: "conn_wf s"
  shows "\<exists>s'. CheckValid s = Some s' \<and> conn_wf s'"
proof -
  obtain M where M: "hl_rel (m_GnsInfoMap s) M" using conn_wfD(4) [OF wf] by blast
  note r = conn_wfD(5,6) [OF wf]
  from CheckValid_rel [OF M, of "\<lambda>_. True"] r obtain s1 M' where
    s1: "CheckValid s = Some (s1\<lparr>m_CheckConnPos := (m_CheckConnPos s + 1) mod m_MaxGnsNodeNum s\<rparr>)" "hl_rel (m_GnsInfoMap s1) M'"
      "table_step s s1" "steady s s1" by auto
  have "conn_wf s1"
    using conn_wfD(1-3) [OF wf] table_step_fields [OF s1(3)] by (intro conn_wf_step [OF wf s1(4,2)]) auto
  moreover have "0 \<le> (m_CheckConnPos s + 1) mod m_MaxGnsNodeNum s" "(m_CheckConnPos s + 1) mod m_MaxGnsNodeNum s < m_MaxGnsNodeNum s1"
    using r s1(4) by (simp_all add: steady_def)
  ultimately show ?thesis using s1(1) by (auto simp: conn_wf_def)
qed

section \<open>The contract of an invariant\<close>

text \<open>Sending and receiving leave position, type and user of a connection.\<close>

definition touched :: "connx \<Rightarrow> connx \<Rightarrow> bool" where
  "touched c c' \<longleftrightarrow> m_ConnPos c' = m_ConnPos c \<and> m_ConnType c' = m_ConnType c \<and> m_UserID c' = m_UserID c"

lemma send_or_store_touched: "send_or_store c bs w = (r, st, c', w') \<Longrightarrow> touched c c'"
  by (auto simp: send_or_store_def Send_def Send_new_def AddSendData_def touched_def Let_def split: prod.splits if_splits)

lemma SendRemainData_touched: "SendRemainData c w = (r, c', w') \<Longrightarrow> touched c c'"
  by (auto simp: SendRemainData_def touched_def Let_def split: prod.splits if_splits)

lemma AddRecvData_touched: "AddRecvData c bs = (r, c') \<Longrightarrow> touched c c'"
  by (auto simp: AddRecvData_def touched_def split: if_splits)

lemma Recv_touched: "Recv c n w = (r, bs, c', w') \<Longrightarrow> touched c c'"
  by (auto simp: Recv_def touched_def Let_def split: prod.splits if_splits)

text \<open>The fields an invariant may depend on.\<close>

definition same_tables :: "conn \<Rightarrow> conn \<Rightarrow> bool" where
  "same_tables s s' \<longleftrightarrow> c_PosConnMap s' = c_PosConnMap s \<and> m_GnsInfoMap s' = m_GnsInfoMap s \<and> m_ServerID s' = m_ServerID s
     \<and> m_itrCurCheckConn s' = m_itrCurCheckConn s \<and> m_CheckConnPos s' = m_CheckConnPos s \<and> m_MaxGnsNodeNum s' = m_MaxGnsNodeNum s"

lemma same_tables_refl [simp]: "same_tables s s"
  by (simp add: same_tables_def)

lemma same_tables_trans: "same_tables s s' \<Longrightarrow> same_tables s' s'' \<Longrightarrow> same_tables s s''"
  by (simp add: same_tables_def)

lemma same_tables_sends: "sends s s' \<Longrightarrow> same_tables s s'"
  by (auto simp: sends_def same_tables_def)

lemma same_tables_upd [simp]:
  "same_tables s (s\<lparr>c_os := w\<rparr>)" "same_tables s (s\<lparr>c_ConnPosCnt := n\<rparr>)" "same_tables s (s\<lparr>m_pProcessBuff := b\<rparr>)"
  "same_tables s (s\<lparr>m_RecvQueue := q\<rparr>)"
  by (simp_all add: same_tables_def)

lemma route_client_sends: "route_client P s H n m = Some (Inr s') \<Longrightarrow> sends s s'"
  by (auto simp: route_client_def Let_def map_option_case intro: Send2Server_buf_sends
      split: if_splits option.splits prod.splits)

lemma ProcessPkg_same:
  assumes "Conn_ProcessPkg P s buf c = Some (n, s')"
  shows "same_tables s s'"
proof -
  have *: "same_tables s (s\<lparr>c_os := w, m_pProcessBuff := b\<rparr>)" for w b by (simp add: same_tables_def)
  have "same_tables s s''" if "route_client P (s\<lparr>c_os := w, m_pProcessBuff := b\<rparr>) H i j = Some (Inr s'')" for w b H i j s''
    by (rule same_tables_trans [OF * same_tables_sends [OF route_client_sends [OF that]]])
  with assms * show ?thesis
    by (auto simp: Conn_ProcessPkg_def ccall_eq Let_def map_option_case split: if_splits option.splits sum.splits)
qed

lemma conn_setup_os: "\<exists>ok w. conn_setup s sock p = (ok, s\<lparr>c_os := w\<rparr>)"
proof -
  have "snd (conn_setup s sock p) = s\<lparr>c_os := c_os (snd (conn_setup s sock p))\<rparr>"
    by (simp add: conn_setup_def ccall_eq ccall0_eq Let_def)
  then show ?thesis by (metis prod.collapse)
qed

lemma conn_add_free:
  assumes "mfind (c_PosConnMap s) p = None"
  shows "\<exists>w c. conn_add s p sock ra la ty = (0, s\<lparr>c_os := w, c_PosConnMap := minsert p c (c_PosConnMap s)\<rparr>)
    \<and> m_ConnPos c = p \<and> m_ConnType c = ty \<and> m_UserID c = 0"
proof -
  obtain c w where c: "Connx_new p sock ra la ty (c_os s) = (c, w)" by (cases "Connx_new p sock ra la ty (c_os s)")
  then have "m_ConnPos c = p" "m_ConnType c = ty" "m_UserID c = 0" by (auto simp: Connx_new_def split: prod.splits)
  with assms c show ?thesis by (intro exI [of _ w] exI [of _ c]) (simp add: conn_add_def)
qed

definition conn_next_pos :: "u32 \<Rightarrow> u32" where
  "conn_next_pos cnt = (if cnt + 1 < Conn_CLIENT_SOCK_CPOS_MIN then Conn_CLIENT_SOCK_CPOS_MIN + 1 else cnt + 1)"

lemma Conn_AcceptConn_eq:
  assumes "mfind (c_PosConnMap s) p = Some l" "os_ret (c_os s) (os_tick (c_os s)) = sock" "0 < sock"
  shows "Conn_AcceptConn s p ty = map_option
      (\<lambda>q. let (ok, s1) = conn_setup (s\<lparr>c_os := os_call EvOther (c_os s), c_ConnPosCnt := conn_next_pos (c_ConnPosCnt s)\<rparr>) sock q
           in if \<not> ok then (-1, s1) else conn_add s1 q sock (os_addr (c_os s) (os_tick (c_os s))) (m_LocalAddr l) ty)
      (free_pos (c_PosConnMap s) Conn_CLIENT_SOCK_CPOS_MIN (-1) (conn_next_pos (c_ConnPosCnt s)))"
  using assms
  by (simp add: Conn_AcceptConn_def ccall_eq conn_next_pos_def Let_def case_prod_unfold if_distrib [of Some] split: option.split)

text \<open>
  The packets of servers an invariant may depend on: a successful login answer, and the users the
  other connection servers report. The command and the message of the packet in the process buffer.
\<close>

definition pkg_header :: "conn \<Rightarrow> XYHeaderIn" where
  "pkg_header s = fst (XYHeaderIn_Read (m_pProcessBuff s) BusHeader_GetHeaderLen)"

definition pkg_body :: "conn \<Rightarrow> int \<Rightarrow> byte list" where
  "pkg_body s n = mem_read (m_pProcessBuff s) (BusHeader_GetHeaderLen + XYHeaderIn_GetHeaderLen) (nat (n - int XYHeaderIn_GetHeaderLen))"

definition reported :: "conn_pb \<Rightarrow> conn \<Rightarrow> int \<Rightarrow> LoginData list" where
  "reported P s n =
     (let cmd = hi_CmdID (pkg_header s); k = n - int XYHeaderIn_GetHeaderLen; body = pkg_body s n
      in case (if cmd = Cmd_LoginNotice then parse_LoginNotice P k body
               else if cmd = Cmd_Disconnect then parse_LoginDisconnect P k body
               else if cmd = Cmd_LoginSync_Rsp then parse_LoginSyncRsp P k body else None) of
           None \<Rightarrow> [] | Some ds \<Rightarrow> ds)"

definition login_answer :: "conn_pb \<Rightarrow> conn \<Rightarrow> int \<Rightarrow> u64 option" where
  "login_answer P s n =
     (if hi_CmdID (pkg_header s) = Cmd_Auth_Login_Rsp
      then case parse_AuthLoginRsp P (n - int XYHeaderIn_GetHeaderLen) (pkg_body s n) of
             Some (uid, Result) \<Rightarrow> if Result = 0 then Some (word_of_int uid) else None
           | None \<Rightarrow> None
      else None)"

text \<open>A packet that is shorter than its header.\<close>

definition short_packet :: "int \<Rightarrow> bool" where
  "short_packet n \<longleftrightarrow> n < int XYHeaderIn_GetHeaderLen"

lemma wf_collect:
  assumes "conn_wf s"
  shows "\<exists>v. ProcessAll_upto (MemFullCallBackAll me) (nat (m_MaxGnsNodeNum s)) (m_GnsInfoMap s) [] = Some (m_GnsInfoMap s, v)"
proof -
  obtain M where "hl_rel (m_GnsInfoMap s) M" using conn_wfD(4) [OF assms] by blast
  then obtain cs fs where inv: "hl_inv (m_GnsInfoMap s) cs fs" by (rule hl_relE)
  have "nat (m_MaxGnsNodeNum s) \<le> length cs" using conn_wfD(5) [OF assms] inv by (auto simp: hl_inv_def)
  note collect = ProcessAll_upto_collect [OF inv this]
  define g where "g k d acc = snd (MemFullCallBackAll me k d acc)" for k d acc
  have "MemFullCallBackAll me = (\<lambda>k d acc. (d, g k d acc))"
    by (intro ext) (simp add: MemFullCallBackAll_def g_def)
  then show ?thesis using collect [of g "[]"] by simp
qed

locale conn_contract =
  fixes P :: conn_pb and I :: "conn \<Rightarrow> bool" and fits :: "conn \<Rightarrow> u32 \<Rightarrow> u64 \<Rightarrow> bool" and foreign :: "int \<Rightarrow> LoginData \<Rightarrow> bool"
  assumes I_wf: "I s \<Longrightarrow> conn_wf s"
    and I_same: "I s \<Longrightarrow> same_tables s s' \<Longrightarrow> I s'"
    and I_touch: "I s \<Longrightarrow> mfind (c_PosConnMap s) p = Some c \<Longrightarrow> touched c c' \<Longrightarrow> I (s\<lparr>c_PosConnMap := mupdate p c' (c_PosConnMap s)\<rparr>)"
    and I_open: "I s \<Longrightarrow> mfind (c_PosConnMap s) p = None \<Longrightarrow> m_ConnPos c = p \<Longrightarrow> m_ConnType c = CONN_UNAUTH \<Longrightarrow> m_UserID c = 0 \<Longrightarrow>
      I (s\<lparr>c_PosConnMap := minsert p c (c_PosConnMap s)\<rparr>)"
    and I_release: "I s \<Longrightarrow> mfind (c_PosConnMap s) p = Some c \<Longrightarrow> \<exists>s'. Conn_ReleaseConn P s p c b = Some s' \<and> I s' \<and> steady s s'"
    and I_scan: "I s \<Longrightarrow> (\<And>k. k' = Some k \<Longrightarrow> mfind (c_PosConnMap s) k \<noteq> None) \<Longrightarrow> I (s\<lparr>m_itrCurCheckConn := k'\<rparr>)"
    and I_notice: "I s \<Longrightarrow> foreign (m_ServerID s) d \<Longrightarrow> \<exists>s'. notice_one P s d = Some s' \<and> I s' \<and> steady s s'"
    and I_disconnect: "I s \<Longrightarrow> foreign (m_ServerID s) d \<Longrightarrow> \<exists>s'. disconnect_one P s d = Some s' \<and> I s' \<and> steady s s'"
    and I_login: "I s \<Longrightarrow> mfind (c_PosConnMap s) (hi_ConnPos H) = Some c \<Longrightarrow> fits s (hi_ConnPos H) u \<Longrightarrow>
      \<exists>s'. login_ok P s H u c = Some s' \<and> I s' \<and> steady s s'"
    and I_expire: "I s \<Longrightarrow> \<exists>s'. CheckValid s = Some s' \<and> I s'"
begin

lemma I_sends: "I s \<Longrightarrow> sends s s' \<Longrightarrow> I s'"
  by (rule I_same [OF _ same_tables_sends])

lemma I_touch_os:
  assumes "I s" "mfind (c_PosConnMap s) p = Some c" "touched c c'"
  shows "I (s\<lparr>c_os := w, c_PosConnMap := mupdate p c' (c_PosConnMap s)\<rparr>)"
  using I_same [OF I_touch [OF assms], of "s\<lparr>c_os := w, c_PosConnMap := mupdate p c' (c_PosConnMap s)\<rparr>"]
  by (simp add: same_tables_def)

lemma Send2Client_I:
  assumes "I s"
  shows "\<exists>r s'. Send2Client P s p buf = Some (r, s') \<and> I s' \<and> steady s s'"
proof (cases "mfind (c_PosConnMap s) p")
  case None
  with assms show ?thesis by (simp add: Send2Client_def)
next
  case (Some c)
  obtain r b c' w where S: "send_or_store c buf (c_os s) = (r, b, c', w)" by (cases "send_or_store c buf (c_os s)") auto
  let ?s = "s\<lparr>c_os := w, c_PosConnMap := mupdate p c' (c_PosConnMap s)\<rparr>"
  have i: "I ?s" by (rule I_touch_os [OF assms Some send_or_store_touched [OF S]])
  have st: "steady s ?s" "steady s (?s\<lparr>c_os := v\<rparr>)" for v by (simp_all add: steady_def)
  have "mfind (c_PosConnMap ?s) p = Some c'" using Some by simp
  from I_release [OF i this, of True] obtain s' where "Conn_ReleaseConn P ?s p c' True = Some s'" "I s'" "steady ?s s'" by blast
  then show ?thesis
    using Some S i st steady_trans [OF st(1)] I_same [OF i, of "?s\<lparr>c_os := v\<rparr>" for v]
    by (auto simp: Send2Client_def ccall0_eq same_tables_def Let_def)
qed

lemma reply_client_I:
  assumes "I s"
  shows "\<exists>r s'. reply_client P s H cmd body = Some (r, s') \<and> I s' \<and> steady s s'"
  using Send2Client_I [OF assms] assms by (fastforce simp: reply_client_def Let_def)

text \<open>The loop over a received buffer returns unless a packet overflows the send buffer.\<close>

lemma recv_loop_I:
  assumes "conn_recv_loop P s p buf = Some s'" "I s"
  shows "I s'"
  using assms
proof (induction buf arbitrary: s rule: measure_induct_rule [of length])
  case (less buf)
  show ?case
  proof (cases "buf = []")
    case True
    with less.prems show ?thesis by (simp add: conn_recv_loop.simps)
  next
    case False
    with less.prems(1) obtain c where c: "mfind (c_PosConnMap s) p = Some c"
      by (subst (asm) conn_recv_loop.simps) (auto split: option.splits)
    from c conn_wfD(2) [OF I_wf [OF less.prems(2)]] have ty: "m_ConnType c = CONN_UNAUTH \<or> m_ConnType c = CONN_AUTH" by auto
    with False c less.prems(1) obtain n s1 where p: "Conn_ProcessPkg P s buf c = Some (n, s1)"
      by (subst (asm) conn_recv_loop.simps) (auto split: option.splits)
    have t: "same_tables s s1" by (rule ProcessPkg_same [OF p])
    then have i1: "I s1" and c1: "mfind (c_PosConnMap s1) p = Some c"
      using I_same [OF less.prems(2)] c by (auto simp: same_tables_def)
    obtain r c' where A: "AddRecvData c buf = (r, c')" by (cases "AddRecvData c buf") auto
    let ?s2 = "s1\<lparr>c_PosConnMap := mupdate p c' (c_PosConnMap s1)\<rparr>"
    have i2: "I ?s2" by (rule I_touch [OF i1 c1 AddRecvData_touched [OF A]])
    have c2: "mfind (c_PosConnMap ?s2) p = Some c'" using c1 by simp
    have L: "conn_recv_loop P s p buf = (if n > int (length buf) \<or> n = 0 then if r \<noteq> 0 then Conn_ReleaseConn P ?s2 p c' True else Some ?s2
        else if n < 0 then Conn_ReleaseConn P s1 p c True else conn_recv_loop P s1 p (drop (nat n) buf))"
      using False c ty p A by (subst conn_recv_loop.simps) auto
    show ?thesis
      using L less.prems(1) less.IH [of "drop (nat n) buf" s1] i1 i2 I_release [OF i2 c2, of True] I_release [OF i1 c1, of True] False
      by (auto split: if_splits)
  qed
qed

lemma Conn_AcceptConn_I:
  assumes A: "Conn_AcceptConn s p CONN_UNAUTH = Some (r, s')" and i: "I s"
  shows "I s'"
proof (cases "mfind (c_PosConnMap s) p = None \<or> \<not> os_ret (c_os s) (os_tick (c_os s)) > 0")
  case True
  with A i I_same [OF i] show ?thesis by (auto simp: Conn_AcceptConn_def ccall_eq Let_def split: option.splits)
next
  case False
  then obtain l where l: "mfind (c_PosConnMap s) p = Some l" "os_ret (c_os s) (os_tick (c_os s)) > 0" by auto
  let ?s = "s\<lparr>c_os := os_call EvOther (c_os s), c_ConnPosCnt := conn_next_pos (c_ConnPosCnt s)\<rparr>"
  from A obtain q where q: "free_pos (c_PosConnMap s) Conn_CLIENT_SOCK_CPOS_MIN (-1) (conn_next_pos (c_ConnPosCnt s)) = Some q"
    unfolding Conn_AcceptConn_eq [OF l(1) refl l(2)] by auto
  note free = free_pos_sound [OF q, THEN conjunct1]
  let ?n = "os_ret (c_os s) (os_tick (c_os s))"
  obtain ok w where S: "conn_setup ?s ?n q = (ok, ?s\<lparr>c_os := w\<rparr>)" using conn_setup_os by blast
  have "mfind (c_PosConnMap (?s\<lparr>c_os := w\<rparr>)) q = None" using free by simp
  from conn_add_free [OF this, of ?n "os_addr (c_os s) (os_tick (c_os s))" "m_LocalAddr l" CONN_UNAUTH] obtain v c where C: "conn_add (?s\<lparr>c_os := w\<rparr>) q ?n (os_addr (c_os s) (os_tick (c_os s))) (m_LocalAddr l) CONN_UNAUTH
      = (0, ?s\<lparr>c_os := w, c_os := v, c_PosConnMap := minsert q c (c_PosConnMap s)\<rparr>)" "m_ConnPos c = q" "m_ConnType c = CONN_UNAUTH" "m_UserID c = 0"
    by auto
  have "s' = ?s\<lparr>c_os := w\<rparr> \<or> s' = ?s\<lparr>c_os := w, c_os := v, c_PosConnMap := minsert q c (c_PosConnMap s)\<rparr>"
    using A q S C(1) unfolding Conn_AcceptConn_eq [OF l(1) refl l(2)] by (simp split: if_splits)
  then show ?thesis
    using I_same [OF i, of "?s\<lparr>c_os := w\<rparr>"] I_same [OF I_open [OF i free C(2-4)], of s'] by (auto simp: same_tables_def)
qed

lemma handle_in_I:
  assumes "conn_handle_in P s p c = Some s'" "I s" "mfind (c_PosConnMap s) p = Some c"
  shows "I s'"
proof -
  obtain r bs c' w where R: "Recv c (of_nat XY_MAXBUFF_LEN) (c_os s) = (r, bs, c', w)"
    by (cases "Recv c (of_nat XY_MAXBUFF_LEN) (c_os s)") auto
  let ?s = "s\<lparr>c_os := w, c_PosConnMap := mupdate p c' (c_PosConnMap s)\<rparr>"
  have i: "I ?s" by (rule I_touch_os [OF assms(2,3) Recv_touched [OF R]])
  have c: "mfind (c_PosConnMap ?s) p = Some c'" using assms(3) by simp
  have "Conn_ReleaseConn P ?s p c' True = Some s' \<or> conn_recv_loop P ?s p bs = Some s'"
    using assms(1) by (auto simp: conn_handle_in_def R Let_def split: if_splits)
  with I_release [OF i c, of True] recv_loop_I [OF _ i] show ?thesis by auto
qed

lemma handle_out_I:
  assumes "I s" "mfind (c_PosConnMap s) p = Some c"
  shows "\<exists>s'. conn_handle_out P s p c = Some s' \<and> I s'"
proof -
  obtain r c' w where R: "SendRemainData c (c_os s) = (r, c', w)" by (cases "SendRemainData c (c_os s)") auto
  let ?s = "s\<lparr>c_os := w, c_PosConnMap := mupdate p c' (c_PosConnMap s)\<rparr>"
  have i: "I ?s" by (rule I_touch_os [OF assms SendRemainData_touched [OF R]])
  have c: "mfind (c_PosConnMap ?s) p = Some c'" using assms(2) by simp
  from I_release [OF i c, of True] i I_same [OF i, of "?s\<lparr>c_os := v\<rparr>" for v] show ?thesis
    by (auto simp: conn_handle_out_def R ccall0_eq same_tables_def Let_def)
qed

lemma handle_event_I:
  assumes "conn_handle_event P s ev = Some s'" "I s"
  shows "I s'"
proof -
  obtain p e where ev: "ev = (p, e)" by (cases ev)
  show ?thesis
  proof (cases "mfind (c_PosConnMap s) p")
    case None
    with assms ev Conn_AcceptConn_I [OF _ assms(2)] show ?thesis
      by (auto simp: conn_handle_event_def split: if_splits)
  next
    case (Some c)
    with assms ev Conn_AcceptConn_I [OF _ assms(2)] handle_in_I [OF _ assms(2) Some] handle_out_I [OF assms(2) Some]
      I_release [OF assms(2) Some, of True] show ?thesis
      by (auto simp: conn_handle_event_def split: if_splits)
  qed
qed

lemma CheckConn_I:
  assumes i: "I s"
  shows "\<exists>s'. CheckConn P s = Some s' \<and> I s'"
proof (cases "m_itrCurCheckConn s")
  case None
  have "mfind (c_PosConnMap s) k \<noteq> None" if "first_key (c_PosConnMap s) = Some k" for k
    using that by (auto simp: first_key_def mfind_None split: list.splits)
  with I_scan [OF i] None show ?thesis by (auto simp: CheckConn_def)
next
  case (Some k)
  with conn_wfD(3) [OF I_wf [OF i]] obtain c where c: "mfind (c_PosConnMap s) k = Some c" by auto
  obtain x where x: "(if m_UserID c \<noteq> 0 then HL_Get (m_GnsInfoMap s) (m_UserID c) else Some 0) = Some x"
    by (cases "m_UserID c = 0") (auto intro: wf_get [OF I_wf [OF i], of "m_UserID c"])
  let ?s = "s\<lparr>c_os := os_call EvOther (c_os s)\<rparr>"
  have i1: "I ?s" by (rule I_same [OF i]) simp
  have n: "mfind (c_PosConnMap s) k' \<noteq> None" if "next_key (c_PosConnMap s) k = Some k'" for k'
    using next_key_other [OF that] by simp
  have "I (?s\<lparr>m_itrCurCheckConn := next_key (c_PosConnMap s) k\<rparr>)" "I (s\<lparr>m_itrCurCheckConn := next_key (c_PosConnMap s) k\<rparr>)"
    using I_scan [OF i1, of "next_key (c_PosConnMap s) k"] I_scan [OF i, of "next_key (c_PosConnMap s) k"] n by auto
  with I_release [OF i1, of k c True] Some c x show ?thesis
    by (auto simp: CheckConn_def ccall_eq Let_def simp del: if_split split: if_split)
qed

lemma notice_all_I:
  assumes "I s" "\<forall>d\<in>set ds. foreign (m_ServerID s) d"
  shows "\<exists>s'. notice_all P s ds = Some s' \<and> I s' \<and> steady s s'"
  using assms
proof (induction ds arbitrary: s)
  case (Cons d ds)
  obtain s1 where s1: "notice_one P s d = Some s1" "I s1" "steady s s1" using I_notice [OF Cons.prems(1)] Cons.prems(2) by auto
  with Cons.IH [OF s1(2)] Cons.prems(2) steady_trans [OF s1(3)] show ?case by (auto simp: steady_def)
qed auto

lemma disconnect_all_I:
  assumes "I s" "\<forall>d\<in>set ds. foreign (m_ServerID s) d"
  shows "\<exists>s'. disconnect_all P s ds = Some s' \<and> I s' \<and> steady s s'"
  using assms
proof (induction ds arbitrary: s)
  case (Cons d ds)
  obtain s1 where s1: "disconnect_one P s d = Some s1" "I s1" "steady s s1" using I_disconnect [OF Cons.prems(1)] Cons.prems(2) by auto
  with Cons.IH [OF s1(2)] Cons.prems(2) steady_trans [OF s1(3)] show ?case by (auto simp: steady_def)
qed auto

lemma send_batches_I:
  assumes "\<And>s ds. sends s (send s ds)" "I s"
  shows "I (send_batches send s acc j ds)"
proof -
  have "I (send s ds)" if "I s" for s ds by (rule I_sends [OF that assms(1)])
  with assms(2) show ?thesis by (induction ds arbitrary: s acc j) (simp_all add: Let_def)
qed

lemma deal_login_rsp_I:
  assumes i: "I s" and f: "\<And>uid. parse_AuthLoginRsp P n body = Some (uid, 0) \<Longrightarrow> fits s (hi_ConnPos H) (word_of_int uid)"
  shows "\<exists>r s'. deal_login_rsp P s H n body = Some (r, s') \<and> I s'"
proof (cases "parse_AuthLoginRsp P n body")
  case None
  with i show ?thesis by (simp add: deal_login_rsp_def)
next
  case (Some ur)
  then obtain uid r where ur: "parse_AuthLoginRsp P n body = Some (uid, r)" by (cases ur) auto
  show ?thesis
  proof (cases "r = 0 \<and> mfind (c_PosConnMap s) (hi_ConnPos H) \<noteq> None")
    case True
    then obtain c where c: "mfind (c_PosConnMap s) (hi_ConnPos H) = Some c" by auto
    with I_login [OF i c] f ur True obtain s1 where "login_ok P s H (word_of_int uid) c = Some s1" "I s1" by blast
    with reply_client_I [of s1 H Cmd_Auth_Login_Rsp "ser_LoginRsp P r"] ur c True show ?thesis by (auto simp: deal_login_rsp_def)
  next
    case False
    with ur i reply_client_I [OF i, of H Cmd_Auth_Login_Rsp "ser_LoginRsp P r"] show ?thesis by (auto simp: deal_login_rsp_def)
  qed
qed

lemma deal_sync_req_I:
  assumes i: "I s"
  shows "\<exists>r s'. deal_sync_req P s H n body = Some (r, s') \<and> I s'"
proof -
  obtain v where v: "ProcessAll_upto (MemFullCallBackAll (m_ServerID s)) (nat (m_MaxGnsNodeNum s)) (m_GnsInfoMap s) [] = Some (m_GnsInfoMap s, v)"
    using wf_collect [OF I_wf [OF i]] by blast
  have "sends s (send_sync_rsp P d s ds)" for s d ds
    using sends_trans [OF sends_os Send2Server_sends] by (simp add: send_sync_rsp_def ccall_eq Let_def)
  from send_batches_I [OF this i] v i show ?thesis by (auto simp: deal_sync_req_def split: option.split)
qed

lemma deal_register_I:
  assumes i: "I s"
  shows "\<exists>r s'. deal_register_rsp P s H n body = Some (r, s') \<and> I s'"
    and "\<exists>r s'. deal_user_register_rsp P s H n body = Some (r, s') \<and> I s'"
proof -
  have "I (snd (Send2Server (s\<lparr>c_os := w\<rparr>) h d t f b))" for w h d t f b
    by (rule I_sends [OF i sends_trans [OF sends_os Send2Server_sends]])
  with i reply_client_I [OF i] show "\<exists>r s'. deal_register_rsp P s H n body = Some (r, s') \<and> I s'"
    by (fastforce simp: deal_register_rsp_def ccall_eq Let_def split: option.split)
  show "\<exists>r s'. deal_user_register_rsp P s H n body = Some (r, s') \<and> I s'"
    using i reply_client_I [OF i] by (fastforce simp: deal_user_register_rsp_def split: option.split)
qed

lemma pass_through_I:
  assumes i: "I s"
  shows "\<exists>r s'. pass_through P s H n body = Some (r, s') \<and> I s'"
  using i Send2Client_I [OF i] by (fastforce simp: pass_through_def Let_def)

text \<open>A packet of a server is dealt with.\<close>

lemma DealPkg_I:
  assumes i: "I s" and short: "\<not> short_packet n"
    and login: "\<And>u. login_answer P s n = Some u \<Longrightarrow> fits s (hi_ConnPos (pkg_header s)) u"
    and rep: "\<forall>d\<in>set (reported P s n). foreign (m_ServerID s) d"
  shows "\<exists>r s'. DealPkg P s n = Some (r, s') \<and> I s'"
proof -
  let ?H = "pkg_header s" and ?n = "n - int XYHeaderIn_GetHeaderLen" and ?b = "pkg_body s n"
  let ?c = "hi_CmdID ?H"
  have n: "?n < 0 \<longleftrightarrow> False" using short by (simp add: short_packet_def)
  have D: "DealPkg P s n =
     (if ?c = Cmd_Auth_Register_Rsp then deal_register_rsp P s ?H ?n ?b
      else if ?c = Cmd_User_Register_Rsp then deal_user_register_rsp P s ?H ?n ?b
      else if ?c = Cmd_Auth_Login_Rsp then deal_login_rsp P s ?H ?n ?b
      else if ?c = Cmd_LoginNotice then case parse_LoginNotice P ?n ?b of None \<Rightarrow> Some (-1, s) | Some ds \<Rightarrow> map_option (Pair 0) (notice_all P s ds)
      else if ?c = Cmd_Disconnect then case parse_LoginDisconnect P ?n ?b of None \<Rightarrow> Some (-1, s) | Some ds \<Rightarrow> map_option (Pair 0) (disconnect_all P s ds)
      else if ?c = Cmd_LoginSync_Req then deal_sync_req P s ?H ?n ?b
      else if ?c = Cmd_LoginSync_Rsp then case parse_LoginSyncRsp P ?n ?b of None \<Rightarrow> Some (-1, s) | Some ds \<Rightarrow> map_option (Pair 0) (notice_all P s ds)
      else pass_through P s ?H n ?b)"
    by (simp only: DealPkg_def pkg_header_def pkg_body_def Let_def n if_False)
  have all: "\<exists>r s'. map_option (Pair 0) (notice_all P s ds) = Some (r :: int, s') \<and> I s'"
      "\<exists>r s'. map_option (Pair 0) (disconnect_all P s ds) = Some (r :: int, s') \<and> I s'" if "ds = reported P s n" for ds
    using notice_all_I [OF i, of ds] disconnect_all_I [OF i, of ds] rep that by auto
  have lg: "\<exists>r s'. deal_login_rsp P s ?H ?n ?b = Some (r, s') \<and> I s'" if "?c = Cmd_Auth_Login_Rsp"
    using login that by (intro deal_login_rsp_I [OF i]) (simp add: login_answer_def)
  have sh: "\<exists>r s'. pass_through P s ?H n ?b = Some (r, s') \<and> I s'" by (rule pass_through_I [OF i])
  show ?thesis
    using deal_register_I [OF i, of ?H ?n ?b] lg sh deal_sync_req_I [OF i, of ?H ?n ?b] all i
    unfolding D by (auto simp: reported_def conn_cmd_defs split: option.split)
qed

end

section \<open>The two invariants\<close>

text \<open>Well-formedness meets the contract with nothing asked of the packets.\<close>

lemma wf_same: "conn_wf s \<Longrightarrow> same_tables s s' \<Longrightarrow> conn_wf s'"
  by (simp add: conn_wf_def same_tables_def)

lemma wf_open:
  assumes wf: "conn_wf s" and "mfind (c_PosConnMap s) p = None" "m_ConnPos c = p" "m_ConnType c = CONN_UNAUTH"
  shows "conn_wf (s\<lparr>c_PosConnMap := minsert p c (c_PosConnMap s)\<rparr>)"
proof -
  obtain M where M: "hl_rel (m_GnsInfoMap s) M" using conn_wfD(4) [OF wf] by blast
  have i: "mfind (minsert p c (c_PosConnMap s)) q = (if q = p then Some c else mfind (c_PosConnMap s) q)" for q
    using conn_wfD(1) [OF wf] assms(2) by (simp add: mfind_minsert)
  show ?thesis
  proof (rule conn_wf_step [OF wf])
    show "smap_ok (c_PosConnMap (s\<lparr>c_PosConnMap := minsert p c (c_PosConnMap s)\<rparr>))"
      using smap_ok_minsert [OF conn_wfD(1) [OF wf]] by simp
  qed (use M conn_wfD(2,3) [OF wf] assms in \<open>auto simp: i steady_def split: if_splits\<close>)
qed

lemma wf_scan:
  assumes wf: "conn_wf s" and "\<And>k. k' = Some k \<Longrightarrow> mfind (c_PosConnMap s) k \<noteq> None"
  shows "conn_wf (s\<lparr>m_itrCurCheckConn := k'\<rparr>)"
proof -
  obtain M where "hl_rel (m_GnsInfoMap s) M" using conn_wfD(4) [OF wf] by blast
  with conn_wfD(1,2) [OF wf] assms(2) show ?thesis by (intro conn_wf_step [OF wf]) (auto simp: steady_def)
qed

interpretation wf: conn_contract P conn_wf "\<lambda>_ _ _. True" "\<lambda>_ _. True" for P
proof
  show "conn_wf (s\<lparr>c_PosConnMap := mupdate p c' (c_PosConnMap s)\<rparr>)"
    if "conn_wf s" "mfind (c_PosConnMap s) p = Some c" "touched c c'" for s p c c'
    using wf_update [OF that(1), of c' p] conn_wfD(2) [OF that(1,2)] that(3) by (simp add: touched_def)
  show "\<exists>s'. Conn_ReleaseConn P s p c b = Some s' \<and> conn_wf s' \<and> steady s s'" if "conn_wf s" for s p c b
    using wf_release [OF that] by blast
qed (assumption | rule wf_same wf_open wf_scan wf_notice wf_disconnect wf_login wf_CheckValid | assumption)+

text \<open>
  Consistency of connections and users: beside well-formedness, every connection with a user is the
  one its active entry names, every active entry of this server names such a connection, and a
  connection is authenticated exactly when it has a user.
\<close>

definition conn_consistent :: "conn \<Rightarrow> bool" where
  "conn_consistent s \<longleftrightarrow> conn_wf s \<and> (\<exists>M. gns_inv s M)"

lemma consistent_both:
  assumes "\<exists>s'. op = Some s' \<and> conn_wf s' \<and> steady s s'" "\<exists>s' M. op = Some s' \<and> gns_inv s' M \<and> steady s s'"
  shows "\<exists>s'. op = Some s' \<and> conn_consistent s' \<and> steady s s'"
  using assms by (auto simp: conn_consistent_def)

definition other_server :: "int \<Rightarrow> LoginData \<Rightarrow> bool" where
  "other_server me d \<longleftrightarrow> ld_ServerID d \<noteq> me"

interpretation cons: conn_contract P conn_consistent login_fits other_server for P
proof
  fix s s' :: conn
  assume "conn_consistent s"
  then obtain M where wf: "conn_wf s" and inv: "gns_inv s M" by (auto simp: conn_consistent_def)
  note ok = gns_invD(2) [OF inv]
  show "conn_wf s" by (rule wf)
  show "conn_consistent s'" if "same_tables s s'"
    using wf_same [OF wf that] inv that by (auto simp: conn_consistent_def same_tables_def gns_inv_def)
  show "conn_consistent (s\<lparr>c_PosConnMap := mupdate p c' (c_PosConnMap s)\<rparr>)"
    if "mfind (c_PosConnMap s) p = Some c" "touched c c'" for p c c'
  proof -
    have "gns_ok (m_ServerID s) (mupdate p c' (c_PosConnMap s)) M"
      using that(2) by (intro gns_ok_conn_update [OF ok that(1)]) (simp_all add: touched_def)
    with inv have "gns_inv (s\<lparr>c_PosConnMap := mupdate p c' (c_PosConnMap s)\<rparr>) M" by (auto simp: gns_inv_def)
    with wf.I_touch [OF wf that] show ?thesis by (auto simp: conn_consistent_def)
  qed
  show "conn_consistent (s\<lparr>c_PosConnMap := minsert p c (c_PosConnMap s)\<rparr>)"
    if p: "mfind (c_PosConnMap s) p = None" "m_ConnPos c = p" "m_ConnType c = CONN_UNAUTH" "m_UserID c = 0" for p c
  proof -
    have "gns_ok (m_ServerID s) (minsert p c (c_PosConnMap s)) M" by (rule gns_ok_insert [OF ok p(1,4,3)])
    with inv gns_okD(1) [OF ok] p(1) have "gns_inv (s\<lparr>c_PosConnMap := minsert p c (c_PosConnMap s)\<rparr>) M"
      by (auto simp: gns_inv_def mfind_minsert)
    with wf_open [OF wf p(1-3)] show ?thesis by (auto simp: conn_consistent_def)
  qed
  show "\<exists>s'. Conn_ReleaseConn P s p c b = Some s' \<and> conn_consistent s' \<and> steady s s'"
    if "mfind (c_PosConnMap s) p = Some c" for p c b
    using wf_release [OF wf] ReleaseConn_gns [OF inv that] by (intro consistent_both) blast+
  show "conn_consistent (s\<lparr>m_itrCurCheckConn := k'\<rparr>)" if k: "\<And>k. k' = Some k \<Longrightarrow> mfind (c_PosConnMap s) k \<noteq> None" for k'
  proof -
    have "gns_inv (s\<lparr>m_itrCurCheckConn := k'\<rparr>) M" using inv k by (simp add: gns_inv_def)
    with wf_scan [OF wf k] show ?thesis by (auto simp: conn_consistent_def)
  qed
  show "\<exists>s'. notice_one P s d = Some s' \<and> conn_consistent s' \<and> steady s s'" if "other_server (m_ServerID s) d" for d
    using wf_notice [OF wf, of P d] notice_one_gns [OF inv, of d P] that unfolding other_server_def by (intro consistent_both) blast+
  show "\<exists>s'. disconnect_one P s d = Some s' \<and> conn_consistent s' \<and> steady s s'" if "other_server (m_ServerID s) d" for d
    using wf_disconnect [OF wf] disconnect_one_gns [OF inv, of d] that by (intro consistent_both) (auto simp: other_server_def)
  show "\<exists>s'. login_ok P s H u c = Some s' \<and> conn_consistent s' \<and> steady s s'"
    if "mfind (c_PosConnMap s) (hi_ConnPos H) = Some c" "login_fits s (hi_ConnPos H) u" for H u c
    using wf_login [OF wf that(1)] login_ok_gns [OF inv that] by (intro consistent_both) blast+
  show "\<exists>s'. CheckValid s = Some s' \<and> conn_consistent s'"
  proof -
    let ?Q = "gns_ok (m_ServerID s) (c_PosConnMap s)"
    have fg: "?Q (M(u := None))" if "?Q M" "M u = Some g" "gns_Status g = GNS_USER_STATUS_UNACTIVE" for M u g
      using that(2,3) status_neq by (intro gns_ok_forget [OF that(1)]) (simp add: here_def)
    have r: "0 \<le> m_CheckConnPos s" "m_CheckConnPos s < int (length (m_pstIndex (m_GnsInfoMap s)))"
      using conn_wfD(5,6) [OF wf] by simp_all
    have "\<exists>s1 M'. CheckValid s = Some (s1\<lparr>m_CheckConnPos := (m_CheckConnPos s + 1) mod m_MaxGnsNodeNum s\<rparr>)
        \<and> hl_rel (m_GnsInfoMap s1) M' \<and> ?Q M' \<and> table_step s s1 \<and> steady s s1"
      by (rule CheckValid_rel [where Q = ?Q, OF gns_invD(1) [OF inv] ok r]) (rule fg)
    then obtain s1 M' where s1: "CheckValid s = Some (s1\<lparr>m_CheckConnPos := (m_CheckConnPos s + 1) mod m_MaxGnsNodeNum s\<rparr>)"
      "hl_rel (m_GnsInfoMap s1) M'" "?Q M'" "table_step s s1" by blast
    have "gns_inv (s1\<lparr>m_CheckConnPos := (m_CheckConnPos s + 1) mod m_MaxGnsNodeNum s\<rparr>) M'"
      using s1 inv table_step_fields [OF s1(4)] by (simp add: gns_inv_def)
    with wf_CheckValid [OF wf] s1(1) show ?thesis by (auto simp: conn_consistent_def)
  qed
qed

end
