(* ===== verification/ConnClient.thy ===== *)
theory ConnClient
  imports ConnInv
begin

text \<open>
  The path of a client's packet through the connection server to the bus: what \<open>ProcessPkg\<close> puts in
  the send queue, under whose name, and for which server.
\<close>

section \<open>Packets to the bus\<close>

text \<open>A packet of this server with an internal header.\<close>

definition in_packet :: "conn \<Rightarrow> u32 \<Rightarrow> byte \<Rightarrow> XYHeaderIn \<Rightarrow> byte list \<Rightarrow> byte list" where
  "in_packet s d st H body = BusHeader_bytes (transfer_header s (60 + length body) d st 0) @ XYHeaderIn_bytes H @ body"

lemmas header_lens = BusHeader_GetHeaderLen_def XYHeaderIn_GetHeaderLen_def XYHeader_GetHeadLen_def

lemma queue_packet_queues:
  assumes "sq_rel (m_SendQueue s) ms" "length buf \<le> XY_PKG_MAX_LEN"
  shows "sq_rel (m_SendQueue (snd (queue_packet s buf (of_nat (length buf)))))
    (if fst (queue_packet s buf (of_nat (length buf))) = 0 then ms @ [buf] else ms)"
proof -
  let ?r = "os_ret (c_os s) (os_tick (c_os s))"
  obtain r q where Q: "InQueue (m_SendQueue s) buf (of_nat (length buf)) True ?r = (r, q)" by force
  have "unat (of_nat (length buf) :: u32) = length buf" "length buf < 2 ^ 32 - 4"
    using assms(2) by (simp_all add: XY_PKG_MAX_LEN_def unat_u32_of_nat)
  from InQueue_result [OF assms(1) Q this] assms(1) Q show ?thesis
    by (auto simp: queue_packet_def ccall_eq shm_codes Let_def)
qed

text \<open>Both overloads of \<open>Send2Server\<close> queue the packet or nothing.\<close>

definition queued :: "conn \<Rightarrow> conn \<Rightarrow> byte list list \<Rightarrow> byte list \<Rightarrow> bool" where
  "queued s s' ms pkt \<longleftrightarrow> sq_rel (m_SendQueue s') ms \<or> sq_rel (m_SendQueue s') (ms @ [pkt])"

lemma Send2Server_queues:
  assumes "sq_rel (m_SendQueue s) ms"
  shows "queued s (snd (Send2Server s H d st 0 body)) ms (in_packet s d st H body)"
proof (cases "length body > XY_PKG_MAX_LEN - 60")
  case True
  with assms show ?thesis by (simp add: Send2Server_def queued_def header_lens Let_def)
next
  case False
  let ?h = "transfer_header s (60 + length body) d st 0"
  have "fst (XYHeaderIn_Write H (fst (BusHeader_Write ?h (replicate 60 0 @ body) 0)) 26) = in_packet s d st H body"
    by (simp add: BusHeader_Write_eq XYHeaderIn_Write_eq memcpy_to_def in_packet_def)
  with False have S: "Send2Server s H d st 0 body = queue_packet s (in_packet s d st H body) (of_nat (length (in_packet s d st H body)))"
    by (simp add: Send2Server_def header_lens Let_def in_packet_def)
  have "length (in_packet s d st H body) \<le> XY_PKG_MAX_LEN" using False by (simp add: in_packet_def XY_PKG_MAX_LEN_def)
  from queue_packet_queues [OF assms this] show ?thesis unfolding S by (auto simp: queued_def split: if_splits)
qed

lemma Send2Server_buf_queues:
  assumes "sq_rel (m_SendQueue s) ms" "pkt = XYHeaderIn_bytes H @ body"
  shows "Send2Server_buf s d st 0 pkt = None \<longleftrightarrow> length body + 60 > XY_PKG_MAX_LEN"
    and "Send2Server_buf s d st 0 pkt = Some (r, s') \<Longrightarrow> queued s s' ms (in_packet s d st H body)"
proof -
  let ?p = "in_packet s d st H body"
  have w: "fst (BusHeader_Write (transfer_header s (26 + length pkt) d st 0) (replicate 26 0 @ pkt) 0) = ?p"
    by (simp add: BusHeader_Write_eq memcpy_to_def in_packet_def assms(2))
  then have S: "Send2Server_buf s d st 0 pkt = (if length body + 60 > XY_PKG_MAX_LEN then None else Some (queue_packet s ?p (of_nat (length ?p))))"
    by (simp add: Send2Server_buf_def header_lens Let_def in_packet_def assms(2))
  then show "Send2Server_buf s d st 0 pkt = None \<longleftrightarrow> length body + 60 > XY_PKG_MAX_LEN" by simp
  assume "Send2Server_buf s d st 0 pkt = Some (r, s')"
  with S have "length ?p \<le> XY_PKG_MAX_LEN" "queue_packet s ?p (of_nat (length ?p)) = (r, s')"
    by (auto simp: in_packet_def split: if_splits)
  with queue_packet_queues [OF assms(1), of ?p] show "queued s s' ms ?p" by (auto simp: queued_def split: if_splits)
qed

section \<open>ProcessPkg\<close>

text \<open>A complete packet at the start of the buffer, of a length \<open>ProcessPkg\<close> takes.\<close>

definition client_len :: "byte list \<Rightarrow> int" where
  "client_len buf = sint (xh_PkgLen (fst (XYHeader_Read buf 0)))"

definition complete :: "byte list \<Rightarrow> bool" where
  "complete buf \<longleftrightarrow> 17 \<le> length buf \<and> 17 \<le> client_len buf \<and> client_len buf \<le> int (XY_PKG_MAX_LEN - 17) \<and> client_len buf \<le> int (length buf)"

definition client_body :: "byte list \<Rightarrow> byte list" where
  "client_body buf = mem_read buf 17 (nat (client_len buf) - 17)"

definition login_or_register :: "u32 \<Rightarrow> bool" where
  "login_or_register cmd \<longleftrightarrow> cmd = Cmd_Auth_Login_Req \<or> cmd = Cmd_Auth_Register_Req"

lemma nat_sint_unat:
  assumes "0 \<le> sint (x :: u32)"
  shows "nat (sint x) = unat x"
proof -
  have s: "sint x = signed_take_bit 31 (uint x)" by (simp add: sint_uint)
  with assms have nb: "\<not> bit (uint x) 31" by (simp add: signed_take_bit_nonnegative_iff)
  have "bit (uint x) n \<longleftrightarrow> n < 31 \<and> bit (uint x) n" for n
    using nb by (cases "n = 31") (auto simp: bit_uint_iff dest: bit_imp_le_length)
  then have "take_bit 31 (uint x) = uint x" by (intro bit_eqI) (auto simp: bit_take_bit_iff)
  with s nb show ?thesis by (simp add: signed_take_bit_eq_if_positive)
qed

lemma client_len_unat: "0 \<le> client_len buf \<Longrightarrow> nat (client_len buf) = unat (xh_PkgLen (fst (XYHeader_Read buf 0)))"
  unfolding client_len_def by (rule nat_sint_unat)

lemma ProcessPkg_incomplete:
  assumes "\<not> complete buf"
  shows "\<exists>n. Conn_ProcessPkg P s buf c = Some (n, s)"
proof -
  let ?l = "client_len buf"
  consider "length buf < 17" | "17 \<le> length buf" "?l < 17" | "17 \<le> length buf" "17 \<le> ?l" "int (XY_PKG_MAX_LEN - 17) < ?l"
    | "17 \<le> length buf" "17 \<le> ?l" "?l \<le> int (XY_PKG_MAX_LEN - 17)" "int (length buf) < ?l"
    using assms by (fastforce simp: complete_def)
  then show ?thesis
  proof cases
    case 4
    then have "length buf < unat (xh_PkgLen (fst (XYHeader_Read buf 0)))" using client_len_unat [of buf] by simp
    with 4 show ?thesis by (simp add: Conn_ProcessPkg_def client_len_def header_lens XY_PKG_MAX_LEN_def Let_def)
  qed (simp_all add: Conn_ProcessPkg_def client_len_def header_lens XY_PKG_MAX_LEN_def Let_def)
qed

text \<open>A complete packet is rebuilt in the process buffer and routed.\<close>

definition rebuilt :: "conn \<Rightarrow> XYHeaderIn \<Rightarrow> byte list \<Rightarrow> conn" where
  "rebuilt s H body = s\<lparr>c_os := os_call EvOther (c_os s),
     m_pProcessBuff := XYHeaderIn_bytes H @ body @ drop (34 + length body) (m_pProcessBuff s)\<rparr>"

lemma ProcessPkg_complete:
  assumes "complete buf" "length (m_pProcessBuff s) = XY_PKG_MAX_LEN"
    and h: "h = fst (XYHeader_Read buf 0)" and H: "H = client_header s c h (os_ret (c_os s) (os_tick (c_os s)))"
  shows "Conn_ProcessPkg P s buf c =
    (let s1 = rebuilt s H (client_body buf); n = nat (client_len buf)
     in if \<not> login_or_register (xh_CmdID h) \<and> m_ConnType c \<noteq> CONN_AUTH then Some (client_len buf, s1)
        else map_option (\<lambda>r. case r of Inl e \<Rightarrow> (e, s1) | Inr s \<Rightarrow> (client_len buf, s)) (route_client P s1 H (n - 17) (17 + n)))"
proof -
  let ?b = "client_body buf"
  note C = assms(1) [unfolded complete_def]
  have l: "length ?b = nat (client_len buf) - 17" using C by (auto simp: client_body_def)
  have pb: "fst (XYHeaderIn_Write H (memcpy_to (m_pProcessBuff s) 34 ?b) 0) = XYHeaderIn_bytes H @ ?b @ drop (34 + length ?b) (m_pProcessBuff s)"
    using assms(2) by (simp add: XYHeaderIn_Write_eq memcpy_to_def XY_PKG_MAX_LEN_def)
  have u: "\<not> length buf < unat (xh_PkgLen h)" using C client_len_unat [of buf] h by auto
  have cmd: "hi_CmdID H = xh_CmdID h" "client_header (s\<lparr>c_os := w\<rparr>) c h t = client_header s c h t" for w t
    by (simp_all add: H client_header_def)
  have "nat (client_len buf) - 17 + 34 = nat (client_len buf) + 17" using C by auto
  with C u pb cmd show ?thesis
    unfolding Conn_ProcessPkg_def h [symmetric]
    by (simp add: client_len_def [of buf, folded h, symmetric] client_body_def [symmetric] header_lens ccall_eq H [symmetric]
        login_or_register_def rebuilt_def XY_PKG_MAX_LEN_def Let_def)
qed

text \<open>Where the switch on the command prefix sends a packet, and what.\<close>

definition to_auth :: "u32 \<Rightarrow> bool" where
  "to_auth cmd \<longleftrightarrow> drop_bit 16 cmd = CMD_PREFIX_AUTH"

definition to_user :: "u32 \<Rightarrow> bool" where
  "to_user cmd \<longleftrightarrow> drop_bit 16 cmd = CMD_PREFIX_USER"

lemma prefixes: "CMD_PREFIX_AUTH \<noteq> CMD_PREFIX_CONN" "CMD_PREFIX_USER \<noteq> CMD_PREFIX_CONN" "CMD_PREFIX_USER \<noteq> CMD_PREFIX_AUTH"
  by (simp_all add: CMD_PREFIX_AUTH_def CMD_PREFIX_CONN_def CMD_PREFIX_USER_def)

lemma login_prefix: "login_or_register cmd \<Longrightarrow> to_auth cmd"
  by (auto simp: login_or_register_def to_auth_def conn_cmd_defs CMD_PREFIX_AUTH_def)

text \<open>Without a result the copy to the send buffer would overflow it.\<close>

lemma route_client_None:
  assumes "m_pProcessBuff s = XYHeaderIn_bytes H @ body @ rest" "n = length body" "m = 34 + length body"
  shows "route_client P s H n m = None \<longleftrightarrow> length body + 60 > XY_PKG_MAX_LEN
    \<and> (to_auth (hi_CmdID H) \<and> \<not> login_or_register (hi_CmdID H) \<or> to_user (hi_CmdID H))"
proof -
  have "mem_read (m_pProcessBuff s) 0 m = XYHeaderIn_bytes H @ body" by (simp add: assms mem_read_def)
  moreover have "Send2Server_buf s d st 0 (XYHeaderIn_bytes H @ body) = None \<longleftrightarrow> length body + 60 > XY_PKG_MAX_LEN" for d st
    by (auto simp: Send2Server_buf_def header_lens Let_def)
  ultimately show ?thesis
    using prefixes login_prefix [of "hi_CmdID H"]
    by (auto simp: route_client_def to_auth_def to_user_def login_or_register_def Let_def split: option.split)
qed

lemma route_client_queues:
  assumes "m_pProcessBuff s = XYHeaderIn_bytes H @ body @ rest" "n = length body" "m = 34 + length body"
    and R: "route_client P s H n m = Some r" and ms: "sq_rel (m_SendQueue s) ms"
  shows "(r = Inl (-1)) \<or> (\<exists>s'. r = Inr s' \<and> (sq_rel (m_SendQueue s') ms
    \<or> to_auth (hi_CmdID H) \<and> (\<exists>b. (login_or_register (hi_CmdID H) \<or> b = body)
         \<and> sq_rel (m_SendQueue s') (ms @ [in_packet s GROUP_AUTH TO_GRP_RND H b]))
    \<or> to_user (hi_CmdID H) \<and> sq_rel (m_SendQueue s') (ms @ [in_packet s (word_of_int (GetUserServer (hi_UserID H))) TO_SRV H body])))"
proof -
  have pkt: "mem_read (m_pProcessBuff s) 0 m = XYHeaderIn_bytes H @ body" by (simp add: assms mem_read_def)
  note S = Send2Server_queues [OF ms, of H GROUP_AUTH TO_GRP_RND, unfolded queued_def]
    and B = Send2Server_buf_queues(2) [OF ms refl, unfolded queued_def]
  consider (auth) "to_auth (hi_CmdID H)" "login_or_register (hi_CmdID H)" | (other) "to_auth (hi_CmdID H)" "\<not> login_or_register (hi_CmdID H)"
    | (user) "to_user (hi_CmdID H)" | (none) "\<not> to_auth (hi_CmdID H)" "\<not> to_user (hi_CmdID H)" by blast
  then show ?thesis
  proof cases
    case auth
    with R S show ?thesis
      using prefixes by (auto simp: route_client_def to_auth_def login_or_register_def Let_def split: option.splits if_splits)
  next
    case other
    with R pkt obtain q s' where "Send2Server_buf s GROUP_AUTH TO_GRP_RND 0 (XYHeaderIn_bytes H @ body) = Some (q, s')" "r = Inr s'"
      using prefixes by (auto simp: route_client_def to_auth_def login_or_register_def Let_def)
    with B [OF this(1)] other show ?thesis by auto
  next
    case user
    with R pkt obtain q s' where "Send2Server_buf s (word_of_int (GetUserServer (hi_UserID H))) TO_SRV 0 (XYHeaderIn_bytes H @ body) = Some (q, s')" "r = Inr s'"
      using prefixes by (auto simp: route_client_def to_user_def Let_def)
    with B [OF this(1)] user show ?thesis by auto
  next
    case none
    with R have "r = Inr s" by (auto simp: route_client_def to_auth_def to_user_def Let_def split: if_splits)
    with ms show ?thesis by blast
  qed
qed

section \<open>Properties\<close>

text \<open>
  C4: what a client's packet puts in the queue to the bus: at most one packet, and only when the
  client's packet is complete. It carries the position and the user of the connection it came in
  on, this server's number, and the client's command, sequence number and result. A packet of an
  unauthenticated connection gets there only when it is a login or a registration; those and the
  other authentication commands go to a random authentication server, user commands go to the
  server of the connection's user; all but logins and registrations keep their body.
\<close>
theorem client_packet_routed:
  assumes "sq_rel (m_SendQueue s) ms" "length (m_pProcessBuff s) = XY_PKG_MAX_LEN" "Conn_ProcessPkg P s buf c = Some (n, s')"
    and h: "h = fst (XYHeader_Read buf 0)" and H: "H = client_header s c h (os_ret (c_os s) (os_tick (c_os s)))"
  shows "sq_rel (m_SendQueue s') ms
    \<or> (\<exists>d st b. sq_rel (m_SendQueue s') (ms @ [in_packet s d st H b]) \<and> complete buf
         \<and> (m_ConnType c = CONN_AUTH \<or> login_or_register (xh_CmdID h))
         \<and> (login_or_register (xh_CmdID h) \<or> b = client_body buf)
         \<and> (to_auth (xh_CmdID h) \<and> d = GROUP_AUTH \<and> st = TO_GRP_RND
            \<or> to_user (xh_CmdID h) \<and> d = word_of_int (GetUserServer (m_UserID c)) \<and> st = TO_SRV))"
proof (cases "complete buf")
  case False
  with ProcessPkg_incomplete [OF False, of P s c] assms(1,3) show ?thesis by auto
next
  case True
  let ?b = "client_body buf" and ?n = "nat (client_len buf)"
  let ?s = "rebuilt s H ?b"
  have l: "length ?b = ?n - 17" "17 + ?n = 34 + length ?b" using True by (auto simp: complete_def client_body_def)
  have f: "m_SendQueue ?s = m_SendQueue s" "in_packet ?s = in_packet s" "hi_CmdID H = xh_CmdID h" "hi_UserID H = m_UserID c"
    by (simp_all add: rebuilt_def H client_header_def in_packet_def transfer_header_def fun_eq_iff)
  have pb: "m_pProcessBuff ?s = XYHeaderIn_bytes H @ ?b @ drop (34 + length ?b) (m_pProcessBuff s)" by (simp add: rebuilt_def)
  note C = ProcessPkg_complete [OF True assms(2) h H, of P]
  show ?thesis
  proof (cases "\<not> login_or_register (xh_CmdID h) \<and> m_ConnType c \<noteq> CONN_AUTH")
    case out: True
    with C assms(1,3) f(1) show ?thesis by (auto simp: Let_def)
  next
    case False
    with C assms(3) have "map_option (\<lambda>r. case r of Inl e \<Rightarrow> (e, ?s) | Inr s \<Rightarrow> (client_len buf, s)) (route_client P ?s H (?n - 17) (17 + ?n)) = Some (n, s')"
      by (auto simp: Let_def)
    then obtain r where r: "route_client P ?s H (?n - 17) (17 + ?n) = Some r" "(case r of Inl e \<Rightarrow> (e, ?s) | Inr s \<Rightarrow> (client_len buf, s)) = (n, s')"
      by blast
    have ms: "sq_rel (m_SendQueue ?s) ms" using assms(1) f(1) by simp
    from route_client_queues [OF pb l(1) [symmetric] l(2) r(1) ms] show ?thesis
    proof (elim disjE exE conjE)
      assume "r = Inl (-1)"
      with r(2) ms show ?thesis by simp
    next
      fix t b
      assume "r = Inr t" "to_auth (hi_CmdID H)" "login_or_register (hi_CmdID H)" "sq_rel (m_SendQueue t) (ms @ [in_packet ?s GROUP_AUTH TO_GRP_RND H b])"
      with r(2) True f show ?thesis by auto
    next
      fix t b
      assume "r = Inr t" "to_auth (hi_CmdID H)" "b = ?b" "sq_rel (m_SendQueue t) (ms @ [in_packet ?s GROUP_AUTH TO_GRP_RND H b])"
      with r(2) True False f show ?thesis by auto
    next
      fix t
      assume "r = Inr t" "to_user (hi_CmdID H)"
        "sq_rel (m_SendQueue t) (ms @ [in_packet ?s (word_of_int (GetUserServer (hi_UserID H))) TO_SRV H ?b])"
      with r(2) True False f show ?thesis by auto
    qed (use r(2) in simp)
  qed
qed

lemma ProcessPkg_None:
  assumes "length (m_pProcessBuff s) = XY_PKG_MAX_LEN"
  shows "Conn_ProcessPkg P s buf c = None \<longleftrightarrow> complete buf \<and> m_ConnType c = CONN_AUTH \<and> client_len buf > 2047957
    \<and> (let cmd = xh_CmdID (fst (XYHeader_Read buf 0)) in to_auth cmd \<and> \<not> login_or_register cmd \<or> to_user cmd)"
proof (cases "complete buf")
  case False
  with ProcessPkg_incomplete [OF False, of P s c] show ?thesis by auto
next
  case True
  let ?h = "fst (XYHeader_Read buf 0)" and ?b = "client_body buf" and ?n = "nat (client_len buf)"
  let ?H = "client_header s c ?h (os_ret (c_os s) (os_tick (c_os s)))"
  have l: "length ?b = ?n - 17" "17 + ?n = 34 + length ?b" "length ?b + 60 > XY_PKG_MAX_LEN \<longleftrightarrow> client_len buf > 2047957"
    using True by (auto simp: complete_def client_body_def XY_PKG_MAX_LEN_def)
  have "m_pProcessBuff (rebuilt s ?H ?b) = XYHeaderIn_bytes ?H @ ?b @ drop (34 + length ?b) (m_pProcessBuff s)" by (simp add: rebuilt_def)
  note N = route_client_None [OF this l(1) [symmetric] l(2), of P]
  have u: "to_user cmd \<Longrightarrow> \<not> login_or_register cmd" for cmd
    using login_prefix [of cmd] prefixes by (auto simp: to_auth_def to_user_def)
  have "hi_CmdID ?H = xh_CmdID ?h" by (simp add: client_header_def)
  with ProcessPkg_complete [OF True assms refl refl, of P c] N l(3) True u [of "xh_CmdID ?h"] show ?thesis
    by (auto simp: Let_def)
qed

text \<open>
  C31: \<open>ProcessPkg\<close> of the connection server is undefined for exactly these packets: complete, from an
  authenticated connection, with a user command or an authentication command other than login and
  register, and longer than 2047957 bytes (up to the accepted 2047983). The copy behind the bus
  header then runs over the end of the send buffer, which has only room for a packet of the
  largest size.
\<close>
theorem ProcessPkg_overflow_iff:
  assumes "length (m_pProcessBuff s) = XY_PKG_MAX_LEN"
  shows "Conn_ProcessPkg P s buf c = None \<longleftrightarrow> complete buf \<and> m_ConnType c = CONN_AUTH \<and> client_len buf > 2047957
    \<and> (let cmd = xh_CmdID (fst (XYHeader_Read buf 0)) in to_auth cmd \<and> \<not> login_or_register cmd \<or> to_user cmd)"
  by (rule ProcessPkg_None [OF assms])

text \<open>Which server a new user's data is sent to, and which one the user's packets go to later.\<close>

definition register_server :: "u64 \<Rightarrow> u32" where
  "register_server u = ucast (SERVER_USER_BEGIN + u mod MAX_USER_SERVER_NUM + 1)"

lemma mod2_cases: "x mod 2 = 0 \<or> x mod 2 = (1 :: u64)"
proof -
  have "unat (x mod 2) = unat x mod 2" by (simp add: unat_mod)
  then have "unat (x mod 2) = 0 \<or> unat (x mod 2) = 1" by linarith
  then show ?thesis by (metis unat_1 unat_0 word_unat_eq_iff)
qed

lemma GetUserServer_cases: "GetUserServer u = (if (u div 100) mod 2 = 0 then 401 else 402)"
  using mod2_cases [of "u div 100"] by (auto simp: GetUserServer_def SERVER_USER_BEGIN_def MAX_USER_SERVER_NUM_def)

lemma register_server_cases: "register_server u = (if u mod 2 = 0 then 401 else 402)"
  using mod2_cases [of u] by (auto simp: register_server_def SERVER_USER_BEGIN_def MAX_USER_SERVER_NUM_def)

text \<open>
  C33: the data of a newly registered user goes to one of the two user servers, and later packets of
  the user to one of them; but these are the same server only when the number of the user and its
  hundreds are both even or both odd.
\<close>
theorem register_server_mismatch:
  assumes "sq_rel (m_SendQueue s) ms" "parse_AuthRegisterRsp P n body = Some (0, u, info)"
  shows "(\<exists>s' H'. deal_register_rsp P s H n body = Some (0, s')
        \<and> queued s s' ms (in_packet s (register_server u) TO_SRV H' (ser_UserRegisterReq P u info))
        \<and> hi_SN H' = hi_SN H \<and> hi_ConnPos H' = hi_ConnPos H)
    \<and> {register_server u, word_of_int (GetUserServer u)} \<subseteq> {401, 402}
    \<and> (register_server u = word_of_int (GetUserServer u) \<longleftrightarrow> (u mod 2 = 0 \<longleftrightarrow> (u div 100) mod 2 = 0))"
proof -
  let ?s = "s\<lparr>c_os := os_call EvOther (c_os s)\<rparr>"
  let ?H = "conn_header ?s Cmd_User_Register_Req (hi_SN H) (hi_ConnPos H) (hi_UserID H) (os_ret (c_os s) (os_tick (c_os s)))"
  have "sq_rel (m_SendQueue ?s) ms" using assms(1) by simp
  from Send2Server_queues [OF this, of ?H "register_server u" TO_SRV] assms(2)
  have "\<exists>s' H'. deal_register_rsp P s H n body = Some (0, s')
    \<and> queued s s' ms (in_packet s (register_server u) TO_SRV H' (ser_UserRegisterReq P u info))
    \<and> hi_SN H' = hi_SN H \<and> hi_ConnPos H' = hi_ConnPos H"
    by (intro exI [of _ "snd (Send2Server ?s ?H (register_server u) TO_SRV 0 (ser_UserRegisterReq P u info))"] exI [of _ ?H])
      (simp add: deal_register_rsp_def ccall_eq register_server_def queued_def in_packet_def transfer_header_def conn_header_def Let_def)
  then show ?thesis by (simp add: GetUserServer_cases register_server_cases)
qed

section \<open>An example\<close>

text \<open>
  Connection server 101 with its listening socket, user 7 logged in at position 501 and a client at
  502 that is not. The user table has three index entries and room for two users.
\<close>

definition gns7 :: ShmGnsInfo where
  "gns7 = \<lparr>gns_UserID = 7, gns_ServerID = 101, gns_ConnPos = 501, gns_Status = GNS_USER_STATUS_ACTIVE, gns_LastActiveTime = 40\<rparr>"

definition gns_memory :: "ShmGnsInfo hashlist" where
  "gns_memory = snd (HL_Clear gns7 \<lparr>m_pstHead = \<lparr>iSize = 200, iTotalDataNodeNum = 3, iUsedDataNodeNum = 0,
       iIndexNodeNum = 3, ipFreeDataNodeList = 0\<rparr>, m_pstIndex = [], m_pstData = [], m_iIndexNodeNum = 3, m_iDataNodeNum = 3\<rparr>)"

definition gns_example :: "ShmGnsInfo hashlist" where
  "gns_example = snd (the (HL_Insert gns_memory 7 gns7))"

definition client :: "u32 \<Rightarrow> int \<Rightarrow> u64 \<Rightarrow> connx" where
  "client pos ty u = \<lparr>m_ConnPos = pos, m_SockID = 9, m_RemoteAddr = sockaddr0, m_LocalAddr = sockaddr0, m_LastActTime = 0,
     m_RemainSendData = [], m_RemainRecvData = [], m_ConnType = ty, m_UserID = u\<rparr>"

definition srv_example :: "int list \<Rightarrow> conn" where
  "srv_example rs = (Conn_new queue_empty queue_empty (replicate XY_PKG_MAX_LEN 0) 3 gns_example (os_example rs))
     \<lparr>m_ServerID := 101, c_PosConnMap := [(100, client 100 CONN_UNAUTH 0), (501, client 501 CONN_AUTH 7), (502, client 502 CONN_UNAUTH 0)]\<rparr>"

definition cpb_example :: conn_pb where
  "cpb_example = \<lparr>parse_LoginReq = (\<lambda>_ _. None), parse_RegisterReq = (\<lambda>_ _. None),
     parse_AuthRegisterRsp = (\<lambda>_ _. Some (0, 1, \<lparr>ri_passwd = [], ri_nickname = [], ri_sex = 0, ri_birthday = 0, ri_telno = [], ri_address = [], ri_email = []\<rparr>)),
     parse_UserRegisterRsp = (\<lambda>_ _. None), parse_AuthLoginRsp = (\<lambda>_ _. Some (8, 0)),
     parse_LoginNotice = (\<lambda>_ _. Some [\<lparr>ld_UserID = 7, ld_ServerID = 102, ld_ConnPos = 600, ld_LastActiveTime = 50\<rparr>]),
     parse_LoginDisconnect = (\<lambda>_ _. None), parse_LoginSyncReq = (\<lambda>_ _. None), parse_LoginSyncRsp = (\<lambda>_ _. None),
     ser_AuthLoginReq = (\<lambda>_ _ _. []), ser_AuthRegisterReq = (\<lambda>_. []), ser_UserRegisterReq = (\<lambda>_ _. [1]),
     ser_RegisterRsp = (\<lambda>_ _. []), ser_LoginRsp = (\<lambda>_. []), ser_LoginNotice = (\<lambda>_. []), ser_LoginDisconnect = (\<lambda>_. []),
     ser_LoginSyncReq = (\<lambda>_. []), ser_LoginSyncRsp = (\<lambda>_. []), ser_StateChange = (\<lambda>_ _. []), ser_ErrorMsg = (\<lambda>_. [])\<rparr>"

lemma srv_example_fields [simp]:
  "m_ServerID (srv_example rs) = 101" "m_SendQueue (srv_example rs) = queue_empty" "c_os (srv_example rs) = os_example rs"
  "m_pProcessBuff (srv_example rs) = replicate XY_PKG_MAX_LEN 0" "m_GnsInfoMap (srv_example rs) = gns_example"
  "c_PosConnMap (srv_example rs) = [(100, client 100 CONN_UNAUTH 0), (501, client 501 CONN_AUTH 7), (502, client 502 CONN_UNAUTH 0)]"
  "m_itrCurCheckConn (srv_example rs) = None" "m_MaxGnsNodeNum (srv_example rs) = 3" "m_CheckConnPos (srv_example rs) = 0"
  "m_TimeOut (srv_example rs) = 0" "m_RecvQueue (srv_example rs) = queue_empty"
  by (simp_all add: srv_example_def Conn_new_def)

lemma client_fields [simp]:
  "m_ConnPos (client pos ty u) = pos" "m_ConnType (client pos ty u) = ty" "m_UserID (client pos ty u) = u" "m_LastActTime (client pos ty u) = 0"
  by (simp_all add: client_def)

lemma gns_example_rel:
  "hl_rel gns_example [7 \<mapsto> gns7]" "length (m_pstIndex gns_example) = 3" "iTotalDataNodeNum (m_pstHead gns_example) = 3"
proof -
  have "hl_rel gns_memory Map.empty" "iTotalDataNodeNum (m_pstHead gns_memory) = 3" "length (m_pstIndex gns_memory) = 3"
    unfolding gns_memory_def by (intro HL_Clear_rel) (simp_all add: HL_Clear_def)
  with HL_Insert_rel [of gns_memory Map.empty 7 gns7] obtain r h where
    "HL_Insert gns_memory 7 gns7 = Some (r, h)" "hl_rel h [7 \<mapsto> gns7]" "iTotalDataNodeNum (m_pstHead h) = 3" by auto
  with HL_Insert_shape [OF this(1)] \<open>length (m_pstIndex gns_memory) = 3\<close>
  show "hl_rel gns_example [7 \<mapsto> gns7]" "length (m_pstIndex gns_example) = 3" "iTotalDataNodeNum (m_pstHead gns_example) = 3"
    by (simp_all add: gns_example_def)
qed

lemma srv_example_inv: "gns_inv (srv_example rs) [7 \<mapsto> gns7]"
proof -
  have "gns_ok 101 (c_PosConnMap (srv_example rs)) [7 \<mapsto> gns7]"
    by (rule gns_okI) (auto simp: smap_ok_def mkeys_def here_def gns7_def CONN_AUTH_def CONN_UNAUTH_def split: if_splits)
  with gns_example_rel show ?thesis by (simp add: gns_inv_def)
qed

lemma srv_example_consistent: "conn_consistent (srv_example rs)"
proof -
  have "conn_wf (srv_example rs)"
    using gns_example_rel by (auto simp: conn_wf_def smap_ok_def mkeys_def split: if_splits)
  with srv_example_inv show ?thesis by (auto simp: conn_consistent_def)
qed

text \<open>A user command of user 7, and one that is too long.\<close>

definition cmd_example :: "u32 \<Rightarrow> byte list \<Rightarrow> byte list" where
  "cmd_example n body = XYHeader_bytes (XYHeader_new\<lparr>xh_PkgLen := n, xh_CmdID := 0x00040009, xh_SN := 3\<rparr>) @ body"

lemma cmd_example_read [simp]: "XYHeader_Read (cmd_example n body) 0 = (XYHeader_new\<lparr>xh_PkgLen := n, xh_CmdID := 0x00040009, xh_SN := 3\<rparr>, 17)"
  unfolding cmd_example_def by (rule xyh.rd_packet)

lemma cmd_example_len [simp]: "length (cmd_example n body) = 17 + length body" "client_len (cmd_example n body) = sint n"
  by (simp_all add: cmd_example_def client_len_def [unfolded cmd_example_def] cmd_example_read [unfolded cmd_example_def])

lemma cmd_example_to_user: "to_user 0x00040009" "\<not> login_or_register 0x00040009" "\<not> to_auth 0x00040009"
  by (simp_all add: to_user_def to_auth_def CMD_PREFIX_USER_def CMD_PREFIX_AUTH_def login_or_register_def conn_cmd_defs)

theorem client_packet_routed_witness:
  "\<exists>n s'. Conn_ProcessPkg cpb_example (srv_example []) (cmd_example 19 [1, 2]) (client 501 CONN_AUTH 7) = Some (n, s')
    \<and> (sq_rel (m_SendQueue s') [] \<or> sq_rel (m_SendQueue s') [in_packet (srv_example []) 401 TO_SRV
         (XYHeaderIn_new\<lparr>hi_SrcID := 101, hi_CmdID := 0x00040009, hi_SN := 3, hi_ConnPos := 501, hi_PkgTime := 0, hi_Ret := xh_Ret XYHeader_new,
            hi_UserID := 7\<rparr>) (client_body (cmd_example 19 [1, 2]))])"
proof -
  let ?c = "client 501 CONN_AUTH 7" and ?buf = "cmd_example 19 [1, 2]"
  have len: "length (m_pProcessBuff (srv_example [])) = XY_PKG_MAX_LEN" by simp
  have "Conn_ProcessPkg cpb_example (srv_example []) ?buf ?c \<noteq> None"
    using ProcessPkg_None [OF len, of cpb_example ?buf ?c] by simp
  then obtain n s' where S: "Conn_ProcessPkg cpb_example (srv_example []) ?buf ?c = Some (n, s')" by auto
  have "sq_rel (m_SendQueue (srv_example [])) []" using queue_empty_rel by simp
  from client_packet_routed [OF this len S refl refl] S cmd_example_to_user show ?thesis
    by (auto simp: GetUserServer_cases client_header_def os_example_def)
qed

theorem ProcessPkg_overflow_iff_witness:
  "Conn_ProcessPkg cpb_example (srv_example []) (cmd_example 2047977 (replicate 2047960 0)) (client 501 CONN_AUTH 7) = None"
  using ProcessPkg_overflow_iff [of "srv_example []" cpb_example "cmd_example 2047977 (replicate 2047960 0)" "client 501 CONN_AUTH 7"]
    cmd_example_to_user by (simp add: complete_def XY_PKG_MAX_LEN_def)

theorem register_server_mismatch_witness:
  "(\<exists>s'. deal_register_rsp cpb_example (srv_example []) XYHeaderIn_new 1 [] = Some (0, s'))
   \<and> register_server 1 \<noteq> word_of_int (GetUserServer 1)"
proof -
  obtain info where "parse_AuthRegisterRsp cpb_example 1 [] = Some (0, 1, info)" by (simp add: cpb_example_def)
  from register_server_mismatch [of "srv_example []" "[]", OF _ this, of XYHeaderIn_new] queue_empty_rel show ?thesis by auto
qed

end
