(* ===== verification/ConnRun.thy ===== *)
theory ConnRun
  imports ConnClient
begin

text \<open>
  Runs of the connection server: the event loop keeps the tables well-formed whatever arrives, and
  refines a step relation under which connections and users stay consistent. The theory also holds
  the properties of single operations: which packets of clients reach the bus, and where the
  answers of other servers go.
\<close>

section \<open>The event loop keeps the tables well-formed\<close>

lemma DealPkg_short: "short_packet n \<Longrightarrow> DealPkg P s n = None"
  by (simp add: short_packet_def DealPkg_def Let_def)

lemma DealPkg_wf:
  assumes "DealPkg P s n = Some (r, s')" "conn_wf s"
  shows "conn_wf s'"
  using assms DealPkg_short [of n P s] wf.DealPkg_I [OF assms(2), of n P] by fastforce

interpretation conn_ev: event_loop "\<lambda>s s'. conn_wf s \<longrightarrow> conn_wf s'" "conn_handle_event P" "conn_handle_events P" for P
  by unfold_locales (auto intro: wf.handle_event_I split: option.split)

lemma conn_drain_wf: "conn_drain P n s = Some s' \<Longrightarrow> conn_wf s \<Longrightarrow> conn_wf s'"
proof (induction n arbitrary: s)
  case (Suc n)
  let ?o = "OutQueue_int (m_RecvQueue s) (m_pProcessBuff s) (int XY_PKG_MAX_LEN) True (os_ret (c_os s) (os_tick (c_os s)))"
  obtain r buf len q where O: "?o = (r, buf, len, q)" by (cases ?o) auto
  let ?s = "s\<lparr>c_os := os_call EvOther (c_os s), m_RecvQueue := q, m_pProcessBuff := buf\<rparr>"
  have "conn_wf ?s" by (rule wf_same [OF Suc.prems(2)]) (simp add: same_tables_def)
  with Suc O show ?case by (auto simp: ccall_eq Let_def split: if_splits option.splits dest: DealPkg_wf)
qed simp

lemma conn_others_same: "same_tables s (conn_others puts n s)"
  by (simp add: same_tables_def conn_others_def)

lemma conn_round_wf:
  assumes "conn_round P L (evs, puts, n) = Some L'" "conn_wf (cl_conn L)"
  shows "conn_wf (cl_conn L')"
proof -
  from assms(1) obtain s1 where H: "conn_handle_events P (cl_conn L) evs = Some s1"
    by (auto simp: conn_round_def split: Option.bind_splits)
  with assms(1) obtain s2 where D: "conn_drain P 100 (conn_others puts n s1) = Some s2"
    by (auto simp: conn_round_def split: Option.bind_splits)
  have "conn_wf (conn_others puts n s1)" using conn_ev.loop_R [OF H] wf_same [OF _ conn_others_same] assms(2) by blast
  then have w2: "conn_wf s2" by (rule conn_drain_wf [OF D])
  define s3 where "s3 = (let (t, s) = ccall EvOther s2 in if t - LastStateTime L \<ge> m_StateTime s then snd (Conn_SendStateMessage P s) else s)"
  have "sends s2 s3" using sends_trans [OF sends_os SendStateMessage_sends] by (simp add: s3_def ccall_eq)
  then have w3: "conn_wf s3" by (rule wf_sends [OF w2])
  obtain s4 where C: "CheckConn P s3 = Some s4" "conn_wf s4" using wf.CheckConn_I [OF w3] by blast
  obtain s5 where V: "CheckValid s4 = Some s5" "conn_wf s5" using wf_CheckValid [OF C(2)] by blast
  have "cl_conn L' = s5"
    using assms(1) H D C(1) V(1) by (auto simp: conn_round_def s3_def ccall_eq Let_def split: if_splits)
  with V show ?thesis by simp
qed

interpretation conn_rounds: event_loop "\<lambda>L L'. conn_wf (cl_conn L) \<longrightarrow> conn_wf (cl_conn L')" "conn_round P" "Conn_Run_loop P" for P
  by unfold_locales (auto intro: conn_round_wf split: option.split)

section \<open>Steps\<close>

text \<open>
  A packet of a server that the consistency of the tables relies on: a login answer is for a
  connection without a user, names one and finds room; reports are about other servers.
\<close>

definition admitted :: "conn_pb \<Rightarrow> conn \<Rightarrow> int \<Rightarrow> bool" where
  "admitted P s n \<longleftrightarrow>
     (case login_answer P s n of None \<Rightarrow> True | Some u \<Rightarrow> login_fits s (hi_ConnPos (pkg_header s)) u)
     \<and> list_all (other_server (m_ServerID s)) (reported P s n)"

inductive server_step :: "conn_pb \<Rightarrow> conn \<Rightarrow> conn \<Rightarrow> bool" for P where
  event: "conn_handle_event P s ev = Some s' \<Longrightarrow> server_step P s s'"
| others: "server_step P s (conn_others puts n s)"
| fetch: "server_step P s (s\<lparr>c_os := w, m_RecvQueue := q, m_pProcessBuff := buf\<rparr>)"
| packet: "admitted P s n \<Longrightarrow> DealPkg P s n = Some (r, s') \<Longrightarrow> server_step P s s'"
| beat: "server_step P s (snd (Conn_SendStateMessage P s))"
| conn_scan: "CheckConn P s = Some s' \<Longrightarrow> server_step P s s'"
| user_scan: "CheckValid s = Some s' \<Longrightarrow> server_step P s s'"

lemma server_step_consistent:
  assumes "server_step P s s'" "conn_consistent s"
  shows "conn_consistent s'"
  using assms
proof (induction rule: server_step.induct)
  case (event s ev s')
  then show ?case by (rule cons.handle_event_I)
next
  case (others s puts n)
  show ?case by (rule cons.I_same [OF others conn_others_same])
next
  case (fetch s q buf w)
  show ?case by (rule cons.I_same [OF fetch]) (simp add: same_tables_def)
next
  case (packet s n r s')
  have "\<not> short_packet n" using packet(2) DealPkg_short [of n P s] by auto
  moreover have "login_fits s (hi_ConnPos (pkg_header s)) u" if "login_answer P s n = Some u" for u
    using packet(1) that by (simp add: admitted_def)
  moreover have "\<forall>d\<in>set (reported P s n). other_server (m_ServerID s) d" using packet(1) by (simp add: admitted_def list_all_iff)
  ultimately have "\<exists>r s'. DealPkg P s n = Some (r, s') \<and> conn_consistent s'" by (intro cons.DealPkg_I [OF packet(3)])
  with packet(2) show ?case by auto
next
  case (beat s)
  then show ?case by (rule cons.I_sends) simp
next
  case (conn_scan s s')
  with cons.CheckConn_I [of s P] show ?case by auto
next
  case (user_scan s s')
  with cons.I_expire [of s] show ?case by auto
qed

lemma server_steps_consistent: "(server_step P)\<^sup>*\<^sup>* s s' \<Longrightarrow> conn_consistent s \<Longrightarrow> conn_consistent s'"
  by (induction rule: rtranclp_induct) (auto intro: server_step_consistent)

text \<open>The event loop takes such steps when the packets it takes from its queue are admitted.\<close>

fun drain_admits :: "conn_pb \<Rightarrow> nat \<Rightarrow> conn \<Rightarrow> bool" where
  "drain_admits P 0 s = True"
| "drain_admits P (Suc n) s =
     (let (lockret, s) = ccall EvOther s;
          (Ret, buf, SendLen, q) = OutQueue_int (m_RecvQueue s) (m_pProcessBuff s) (int XY_PKG_MAX_LEN) True lockret;
          s = s\<lparr>m_RecvQueue := q, m_pProcessBuff := buf\<rparr>; len = SendLen - int BusHeader_GetHeaderLen
      in Ret = 0 \<longrightarrow> admitted P s len \<and> (case DealPkg P s len of None \<Rightarrow> True | Some (r, s) \<Rightarrow> drain_admits P n s))"

fun run_admits :: "conn_pb \<Rightarrow> conn_loop \<Rightarrow> conn_input list \<Rightarrow> bool" where
  "run_admits P L [] = True"
| "run_admits P L ((evs, puts, n) # rounds) =
     ((case conn_handle_events P (cl_conn L) evs of None \<Rightarrow> True | Some s \<Rightarrow> drain_admits P 100 (conn_others puts n s))
      \<and> (case conn_round P L (evs, puts, n) of None \<Rightarrow> True | Some L \<Rightarrow> run_admits P L rounds))"

interpretation conn_ev_steps: event_loop "(server_step P)\<^sup>*\<^sup>*" "conn_handle_event P" "conn_handle_events P" for P
  by unfold_locales (auto intro: server_step.event split: option.split)

lemma server_step_os: "server_step P s (s\<lparr>c_os := w\<rparr>)"
  using server_step.fetch [where P = P and s = s and q = "m_RecvQueue s" and buf = "m_pProcessBuff s" and w = w] by simp

lemma conn_drain_steps:
  "conn_drain P n s = Some s' \<Longrightarrow> drain_admits P n s \<Longrightarrow> (server_step P)\<^sup>*\<^sup>* s s'"
proof (induction n arbitrary: s)
  case (Suc n)
  let ?o = "OutQueue_int (m_RecvQueue s) (m_pProcessBuff s) (int XY_PKG_MAX_LEN) True (os_ret (c_os s) (os_tick (c_os s)))"
  obtain r buf len q where O: "?o = (r, buf, len, q)" by (cases ?o) auto
  let ?s = "s\<lparr>c_os := os_call EvOther (c_os s), m_RecvQueue := q, m_pProcessBuff := buf\<rparr>"
  have f: "server_step P s ?s" using server_step.fetch [where P = P and s = s and q = q and buf = buf and w = "os_call EvOther (c_os s)"] by simp
  show ?case
  proof (cases "r = 0")
    case False
    with Suc.prems(1) O have "s' = ?s" by (simp add: ccall_eq Let_def split: if_splits)
    with f show ?thesis by auto
  next
    case True
    with Suc.prems(1) O obtain k s1 where D: "DealPkg P ?s (len - int BusHeader_GetHeaderLen) = Some (k, s1)" "conn_drain P n s1 = Some s'"
      by (auto simp: ccall_eq Let_def split: option.splits)
    with Suc.prems(2) O True have "admitted P ?s (len - int BusHeader_GetHeaderLen)" "drain_admits P n s1"
      by (simp_all add: ccall_eq Let_def)
    with server_step.packet [OF this(1) D(1)] Suc.IH [OF D(2)] f show ?thesis
      by (meson converse_rtranclp_into_rtranclp)
  qed
qed simp

lemma conn_round_steps:
  assumes "conn_round P L (evs, puts, n) = Some L'"
    and "\<And>s. conn_handle_events P (cl_conn L) evs = Some s \<Longrightarrow> drain_admits P 100 (conn_others puts n s)"
  shows "(server_step P)\<^sup>*\<^sup>* (cl_conn L) (cl_conn L')"
proof -
  from assms(1) obtain s1 where H: "conn_handle_events P (cl_conn L) evs = Some s1"
    by (auto simp: conn_round_def split: Option.bind_splits)
  with assms(1) obtain s2 where D: "conn_drain P 100 (conn_others puts n s1) = Some s2"
    by (auto simp: conn_round_def split: Option.bind_splits)
  define s3 where "s3 = (let (t, s) = ccall EvOther s2 in if t - LastStateTime L \<ge> m_StateTime s then snd (Conn_SendStateMessage P s) else s)"
  from assms(1) H D obtain s4 s5 where C: "CheckConn P s3 = Some s4" "CheckValid s4 = Some s5" "cl_conn L' = s5"
    by (auto simp: conn_round_def s3_def ccall_eq Let_def split: Option.bind_splits if_splits)
  have "(server_step P)\<^sup>*\<^sup>* s2 s3"
    using server_step_os [of P s2 "os_call EvOther (c_os s2)"] server_step.beat [of P "s2\<lparr>c_os := os_call EvOther (c_os s2)\<rparr>"]
    by (auto simp: s3_def ccall_eq intro: rtranclp_trans)
  moreover have "(server_step P)\<^sup>*\<^sup>* s3 s5"
    using server_step.conn_scan [OF C(1)] server_step.user_scan [OF C(2)] by (meson converse_rtranclp_into_rtranclp r_into_rtranclp)
  ultimately show ?thesis
    using conn_ev_steps.loop_R [OF H] server_step.others [of P s1 puts n] conn_drain_steps [OF D assms(2) [OF H]] C(3)
    by (meson rtranclp_trans r_into_rtranclp)
qed

lemma Run_loop_steps:
  "Conn_Run_loop P L rounds = Some L' \<Longrightarrow> run_admits P L rounds \<Longrightarrow> (server_step P)\<^sup>*\<^sup>* (cl_conn L) (cl_conn L')"
proof (induction rounds arbitrary: L)
  case (Cons round rounds)
  obtain evs puts n where r: "round = (evs, puts, n)" by (cases round)
  with Cons.prems obtain L1 where L1: "conn_round P L (evs, puts, n) = Some L1" "Conn_Run_loop P L1 rounds = Some L'" by (auto split: option.splits)
  with Cons.prems(2) r Cons.IH [OF L1(2)] have "(server_step P)\<^sup>*\<^sup>* (cl_conn L1) (cl_conn L')" by simp
  moreover have "(server_step P)\<^sup>*\<^sup>* (cl_conn L) (cl_conn L1)" using Cons.prems(2) r by (intro conn_round_steps [OF L1(1)]) simp
  ultimately show ?case by (rule rtranclp_trans [rotated])
qed simp

section \<open>The timeout scan\<close>

text \<open>The scan alone, \<open>n\<close> times.\<close>

fun scan_conns :: "conn_pb \<Rightarrow> nat \<Rightarrow> conn \<Rightarrow> conn option" where
  "scan_conns P 0 s = Some s"
| "scan_conns P (Suc n) s = (case CheckConn P s of None \<Rightarrow> None | Some s \<Rightarrow> scan_conns P n s)"

text \<open>The answers of the kernel and the timeout stay the same.\<close>

definition clock :: "conn \<Rightarrow> conn \<Rightarrow> bool" where
  "clock s s' \<longleftrightarrow> os_ret (c_os s') = os_ret (c_os s) \<and> m_TimeOut s' = m_TimeOut s"

lemma os_ret_call [simp]: "os_ret (os_call ev w) = os_ret w"
  by (simp add: os_call_def)

lemma Send2Server_clock: "clock s (snd (Send2Server s H d t f b))"
  by (simp add: clock_def Send2Server_def queue_packet_def ccall_eq Let_def case_prod_unfold)

lemma release_user_clock: "release_user P s p u b = Some s' \<Longrightarrow> clock s s'"
  using Send2Server_clock
  by (auto simp: release_user_def clock_def ccall_eq Let_def split: Option.bind_splits if_splits)

lemma ReleaseConn_clock: "Conn_ReleaseConn P s p c b = Some s' \<Longrightarrow> clock s s'"
  by (auto simp: Conn_ReleaseConn_def clock_def ccall0_eq Let_def split: Option.bind_splits if_splits dest!: release_user_clock)

text \<open>A step of the scan visits the connection the iterator is at and moves on; it may release only that one.\<close>

lemma CheckConn_visit:
  assumes wf: "conn_wf s" and k: "m_itrCurCheckConn s = Some k" and c: "mfind (c_PosConnMap s) k = Some c"
  shows "\<exists>s'. CheckConn P s = Some s' \<and> conn_wf s' \<and> clock s s' \<and> m_itrCurCheckConn s' = next_key (c_PosConnMap s) k
    \<and> c_PosConnMap s' = (if \<not> (Conn_LISTEN_SOCK_CPOS_MIN \<le> k \<and> k \<le> Conn_LISTEN_SOCK_CPOS_MAX)
          \<and> os_ret (c_os s) (os_tick (c_os s)) - m_LastActTime c > m_TimeOut s
        then merase k (c_PosConnMap s) else c_PosConnMap s)"
proof -
  obtain s' where C: "CheckConn P s = Some s'" "conn_wf s'" using wf.CheckConn_I [OF wf] by blast
  obtain x where x: "(if m_UserID c \<noteq> 0 then HL_Get (m_GnsInfoMap s) (m_UserID c) else Some 0) = Some x"
    by (cases "m_UserID c = 0") (auto intro: wf_get [OF wf, of "m_UserID c"])
  let ?s = "s\<lparr>c_os := os_call EvOther (c_os s)\<rparr>"
  let ?next = "m_itrCurCheckConn_update (\<lambda>_. next_key (c_PosConnMap s) k)"
  have E: "CheckConn P s = (if Conn_LISTEN_SOCK_CPOS_MIN \<le> k \<and> k \<le> Conn_LISTEN_SOCK_CPOS_MAX then Some (?next s)
      else if os_ret (c_os s) (os_tick (c_os s)) - m_LastActTime c > m_TimeOut s then Conn_ReleaseConn P ?s k c True else Some (?next ?s))"
    using k c x by (simp add: CheckConn_def ccall_eq Let_def)
  have R: "Conn_ReleaseConn P ?s k c True = Some s' \<Longrightarrow> clock s s' \<and> m_itrCurCheckConn s' = next_key (c_PosConnMap s) k
      \<and> c_PosConnMap s' = merase k (c_PosConnMap s)"
  proof -
    assume R: "Conn_ReleaseConn P ?s k c True = Some s'"
    obtain M where "hl_rel (m_GnsInfoMap ?s) M" using conn_wfD(4) [OF wf] by auto
    from ReleaseConn_eff [OF this, of P k c True] R k ReleaseConn_clock [OF R] show ?thesis
      by (auto simp: clock_def itr_next_def)
  qed
  show ?thesis using C E R by (auto simp: clock_def split: if_splits)
qed

text \<open>How many steps there are until the scan has visited position \<open>p\<close>.\<close>

definition keys_from :: "connx smap \<Rightarrow> u32 \<Rightarrow> u32 set" where
  "keys_from m k = {x \<in> set (mkeys m). k \<le> x}"

definition keys_upto :: "connx smap \<Rightarrow> u32 \<Rightarrow> u32 set" where
  "keys_upto m p = {x \<in> set (mkeys m). x \<le> p}"

definition to_visit :: "conn \<Rightarrow> u32 \<Rightarrow> nat" where
  "to_visit s p = (let m = c_PosConnMap s in case m_itrCurCheckConn s of
     None \<Rightarrow> Suc (card (keys_upto m p))
   | Some k \<Rightarrow> if k \<le> p then card (keys_from m k \<inter> keys_upto m p) else card (keys_from m k) + Suc (card (keys_upto m p)))"

lemma keys_finite [simp]: "finite (keys_from m k)" "finite (keys_upto m k)"
  by (simp_all add: keys_from_def keys_upto_def)

lemma next_key_gt:
  assumes "next_key m k = Some y"
  shows "k < y"
proof -
  obtain ys where "filter ((<) k) (mkeys m) = y # ys" using assms by (auto simp: next_key_def split: list.splits)
  then have "y \<in> set (filter ((<) k) (mkeys m))" by (metis list.set_intros(1))
  then show ?thesis by simp
qed

lemma next_key_least:
  assumes "smap_ok m" "x \<in> set (mkeys m)" "k < x"
  shows "\<exists>y. next_key m k = Some y \<and> k < y \<and> y \<le> x"
proof -
  have s: "sorted_wrt (<) (filter ((<) k) (mkeys m))" using assms(1) by (simp add: smap_ok_def sorted_wrt_filter)
  have "x \<in> set (filter ((<) k) (mkeys m))" using assms by simp
  then obtain y ys where y: "filter ((<) k) (mkeys m) = y # ys" by (cases "filter ((<) k) (mkeys m)") auto
  then have "y \<in> set (filter ((<) k) (mkeys m))" by (metis list.set_intros(1))
  then have "k < y" by simp
  moreover have "y \<le> x" using s \<open>x \<in> set (filter ((<) k) (mkeys m))\<close> unfolding y by auto
  ultimately show ?thesis using y by (simp add: next_key_def)
qed

lemma first_key_least:
  assumes "smap_ok m" "x \<in> set (mkeys m)"
  shows "\<exists>y. first_key m = Some y \<and> y \<le> x"
  using assms by (cases "mkeys m") (auto simp: first_key_def smap_ok_def)

lemma keys_merase: "set (mkeys (merase k m)) \<subseteq> set (mkeys m)"
  by (auto simp: mkeys_merase)

lemma to_visit_step:
  assumes wf: "conn_wf s" and c: "mfind (c_PosConnMap s) p = Some c" and p: "\<not> (Conn_LISTEN_SOCK_CPOS_MIN \<le> p \<and> p \<le> Conn_LISTEN_SOCK_CPOS_MAX)"
    and t: "m_itrCurCheckConn s = Some p \<Longrightarrow> fst (sys_time (c_os s)) - m_LastActTime c > m_TimeOut s"
  shows "\<exists>s'. CheckConn P s = Some s' \<and> conn_wf s' \<and> clock s s'
    \<and> (mfind (c_PosConnMap s') p = None \<or> mfind (c_PosConnMap s') p = Some c \<and> to_visit s' p < to_visit s p)"
proof (cases "m_itrCurCheckConn s")
  case None
  have pk: "p \<in> set (mkeys (c_PosConnMap s))" using c mfind_None [of "c_PosConnMap s" p] by auto
  obtain y where y: "first_key (c_PosConnMap s) = Some y" "y \<le> p" using first_key_least [OF conn_wfD(1) [OF wf] pk] by blast
  let ?s = "s\<lparr>m_itrCurCheckConn := Some y\<rparr>"
  have C: "CheckConn P s = Some ?s" using None y by (simp add: CheckConn_def)
  have "card (keys_from (c_PosConnMap s) y \<inter> keys_upto (c_PosConnMap s) p) \<le> card (keys_upto (c_PosConnMap s) p)"
    by (intro card_mono) simp_all
  then have "to_visit ?s p < to_visit s p" using None y by (simp add: to_visit_def Let_def)
  with C wf.CheckConn_I [OF wf, of P] c show ?thesis by (auto simp: clock_def)
next
  case (Some k)
  obtain ck where ck: "mfind (c_PosConnMap s) k = Some ck" using conn_wfD(3) [OF wf Some] by auto
  have pk: "p \<in> set (mkeys (c_PosConnMap s))" and kk: "k \<in> set (mkeys (c_PosConnMap s))"
    using c ck mfind_None [of "c_PosConnMap s" p] mfind_None [of "c_PosConnMap s" k] by auto
  obtain s' where s': "CheckConn P s = Some s'" "conn_wf s'" "clock s s'" "m_itrCurCheckConn s' = next_key (c_PosConnMap s) k"
    "c_PosConnMap s' = (if \<not> (Conn_LISTEN_SOCK_CPOS_MIN \<le> k \<and> k \<le> Conn_LISTEN_SOCK_CPOS_MAX)
       \<and> os_ret (c_os s) (os_tick (c_os s)) - m_LastActTime ck > m_TimeOut s then merase k (c_PosConnMap s) else c_PosConnMap s)"
    using CheckConn_visit [OF wf Some ck] by blast
  let ?m = "c_PosConnMap s" and ?m' = "c_PosConnMap s'"
  have sub: "set (mkeys ?m') \<subseteq> set (mkeys ?m)" using keys_merase [of k ?m] s'(5) by auto
  show ?thesis
  proof (cases "k = p")
    case True
    with s' c ck p t Some show ?thesis by (auto simp: sys_time_def sys_int_def)
  next
    case False
    then have c': "mfind ?m' p = Some c" using s'(5) c by auto
    have "to_visit s' p < to_visit s p"
    proof (cases "k < p")
      case True
      then obtain y where y: "next_key ?m k = Some y" "k < y" "y \<le> p" using next_key_least [OF conn_wfD(1) [OF wf] pk] by blast
      have "keys_from ?m' y \<inter> keys_upto ?m' p \<subset> keys_from ?m k \<inter> keys_upto ?m p"
        using sub kk y(2) True by (force simp: keys_from_def keys_upto_def)
      from psubset_card_mono [OF _ this] y True Some s'(4) show ?thesis by (simp add: to_visit_def Let_def)
    next
      case gt: False
      have u: "card (keys_upto ?m' p) \<le> card (keys_upto ?m p)" using sub by (intro card_mono) (auto simp: keys_upto_def)
      have k0: "k \<in> keys_from ?m k" using kk by (simp add: keys_from_def)
      show ?thesis
      proof (cases "next_key ?m k")
        case None
        have "card (keys_from ?m k) > 0" using k0 by (auto simp: card_gt_0_iff)
        with None u gt False Some s'(4) show ?thesis by (simp add: to_visit_def Let_def)
      next
        case (Some y)
        have y: "k < y" by (rule next_key_gt [OF Some])
        have "keys_from ?m' y \<subset> keys_from ?m k" using sub k0 y by (force simp: keys_from_def)
        from psubset_card_mono [OF _ this] u gt False Some y \<open>m_itrCurCheckConn s = Some k\<close> s'(4) show ?thesis
          by (simp add: to_visit_def Let_def)
      qed
    qed
    with s' c' show ?thesis by blast
  qed
qed

lemma CheckConn_gone:
  assumes "conn_wf s" "mfind (c_PosConnMap s) p = None"
  shows "\<exists>s'. CheckConn P s = Some s' \<and> conn_wf s' \<and> mfind (c_PosConnMap s') p = None"
proof (cases "m_itrCurCheckConn s")
  case None
  with wf.CheckConn_I [OF assms(1), of P] assms(2) show ?thesis by (auto simp: CheckConn_def)
next
  case (Some k)
  then obtain ck where ck: "mfind (c_PosConnMap s) k = Some ck" using conn_wfD(3) [OF assms(1)] by auto
  obtain s' where "CheckConn P s = Some s'" "conn_wf s'" "c_PosConnMap s' = merase k (c_PosConnMap s) \<or> c_PosConnMap s' = c_PosConnMap s"
    using CheckConn_visit [OF assms(1) Some ck, of P] by (auto split: if_splits)
  with assms(2) show ?thesis by auto
qed

lemma scan_conns_gone:
  "conn_wf s \<Longrightarrow> mfind (c_PosConnMap s) p = None \<Longrightarrow>
   \<exists>s'. scan_conns P n s = Some s' \<and> mfind (c_PosConnMap s') p = None \<and> m_itrCurCheckConn s' \<noteq> Some p"
proof (induction n arbitrary: s)
  case 0
  with conn_wfD(3) [of s p] show ?case by auto
next
  case (Suc n)
  from CheckConn_gone [OF Suc.prems, of P] Suc.IH show ?case by fastforce
qed

lemma to_visit_pos:
  assumes "mfind (c_PosConnMap s) p \<noteq> None"
  shows "to_visit s p > 0"
proof -
  have "p \<in> keys_upto (c_PosConnMap s) p" using assms mfind_None [of "c_PosConnMap s" p] by (auto simp: keys_upto_def)
  moreover from this have "k \<le> p \<Longrightarrow> p \<in> keys_from (c_PosConnMap s) k \<inter> keys_upto (c_PosConnMap s) p" for k
    by (simp add: keys_from_def keys_upto_def)
  ultimately show ?thesis by (auto simp: to_visit_def card_gt_0_iff Let_def split: option.split)
qed

lemma to_visit_bound: "to_visit s p \<le> 2 * length (c_PosConnMap s) + 1"
proof -
  let ?m = "c_PosConnMap s"
  have "card (set (mkeys ?m)) \<le> length ?m" using card_length [of "mkeys ?m"] by (simp add: mkeys_def)
  moreover have "card (keys_upto ?m p) \<le> card (set (mkeys ?m))" "card (keys_from ?m k) \<le> card (set (mkeys ?m))"
    "card (keys_from ?m k \<inter> keys_upto ?m p) \<le> card (set (mkeys ?m))" for k
    by (intro card_mono; auto simp: keys_upto_def keys_from_def)+
  ultimately have "card (keys_upto ?m p) \<le> length ?m" "card (keys_from ?m k) \<le> length ?m"
    "card (keys_from ?m k \<inter> keys_upto ?m p) \<le> length ?m" for k by (meson le_trans)+
  note b = this
  show ?thesis
    using b(1) b(2,3) [of "the (m_itrCurCheckConn s)"] by (auto simp: to_visit_def Let_def split: option.split)
qed

text \<open>Whenever the scan stands at the connection, the clock it reads says that the connection has been idle for too long.\<close>

definition idle_when_seen :: "conn_pb \<Rightarrow> nat \<Rightarrow> conn \<Rightarrow> u32 \<Rightarrow> connx \<Rightarrow> bool" where
  "idle_when_seen P n s p c \<longleftrightarrow>
     (\<forall>k<n. \<forall>t. scan_conns P k s = Some t \<and> m_itrCurCheckConn t = Some p \<longrightarrow> fst (sys_time (c_os t)) - m_LastActTime c > m_TimeOut t)"

lemma idle_when_seen_gone: "conn_wf s \<Longrightarrow> mfind (c_PosConnMap s) p = None \<Longrightarrow> idle_when_seen P n s p c"
  unfolding idle_when_seen_def using scan_conns_gone [of s p P] by (metis option.inject)

lemma idle_when_seen_step:
  "idle_when_seen P (Suc n) s p c \<longleftrightarrow>
     (m_itrCurCheckConn s = Some p \<longrightarrow> fst (sys_time (c_os s)) - m_LastActTime c > m_TimeOut s)
     \<and> (case CheckConn P s of None \<Rightarrow> True | Some s1 \<Rightarrow> idle_when_seen P n s1 p c)"
  by (auto simp: idle_when_seen_def less_Suc_eq_0_disj split: option.split)

lemma scan_conns_releases:
  "conn_wf s \<Longrightarrow> mfind (c_PosConnMap s) p = Some c \<Longrightarrow> \<not> (Conn_LISTEN_SOCK_CPOS_MIN \<le> p \<and> p \<le> Conn_LISTEN_SOCK_CPOS_MAX) \<Longrightarrow>
   idle_when_seen P n s p c \<Longrightarrow> to_visit s p \<le> n \<Longrightarrow> \<exists>s'. scan_conns P n s = Some s' \<and> mfind (c_PosConnMap s') p = None"
proof (induction n arbitrary: s)
  case 0
  with to_visit_pos [of s p] show ?case by simp
next
  case (Suc n)
  have t: "m_itrCurCheckConn s = Some p \<Longrightarrow> fst (sys_time (c_os s)) - m_LastActTime c > m_TimeOut s"
    using Suc.prems(4) by (simp add: idle_when_seen_step)
  obtain s1 where s1: "CheckConn P s = Some s1" "conn_wf s1"
    "mfind (c_PosConnMap s1) p = None \<or> mfind (c_PosConnMap s1) p = Some c \<and> to_visit s1 p < to_visit s p"
    using to_visit_step [OF Suc.prems(1-3) t] by blast
  from s1(3) have "\<exists>s'. scan_conns P n s1 = Some s' \<and> mfind (c_PosConnMap s') p = None"
  proof
    assume "mfind (c_PosConnMap s1) p = None"
    from scan_conns_gone [OF s1(2) this] show ?thesis by blast
  next
    assume a: "mfind (c_PosConnMap s1) p = Some c \<and> to_visit s1 p < to_visit s p"
    have "idle_when_seen P n s1 p c" using Suc.prems(4) s1(1) by (simp add: idle_when_seen_step)
    with a Suc.prems(3,5) s1(2) show ?thesis by (intro Suc.IH) simp_all
  qed
  with s1(1) show ?case by simp
qed

text \<open>The entry of the user is the one the notice describes, and the user is not on this server.\<close>

definition notice_kept :: "conn \<Rightarrow> LoginData \<Rightarrow> ShmGnsInfo \<Rightarrow> bool" where
  "notice_kept s d x \<longleftrightarrow> HL_GetData (m_GnsInfoMap s) (ld_UserID d) x = Some (HL_SUCCESS, remote_entry d GNS_USER_STATUS_ACTIVE)
     \<and> list_all (\<lambda>(p, c). m_UserID c \<noteq> ld_UserID d) (c_PosConnMap s)"

section \<open>Properties\<close>

text \<open>
  C3: the consistency of connections and users in every state the server reaches by events, scans
  and admitted packets: a connection is authenticated exactly when it has a user, a user has one
  connection, whose active entry names it, the checks the server makes when it scans the table
  find nothing wrong, and the table passes its verification.
\<close>
theorem server_consistent:
  assumes "conn_consistent s" "(server_step P)\<^sup>*\<^sup>* s s'"
  shows "(\<forall>p c. mfind (c_PosConnMap s') p = Some c \<longrightarrow> m_ConnPos c = p \<and> (m_ConnType c = CONN_AUTH \<longleftrightarrow> m_UserID c \<noteq> 0)
        \<and> (m_UserID c \<noteq> 0 \<longrightarrow> (\<exists>g. HL_GetData (m_GnsInfoMap s') (m_UserID c) d = Some (HL_SUCCESS, g)
              \<and> gns_ServerID g = m_ServerID s' \<and> gns_Status g = GNS_USER_STATUS_ACTIVE \<and> gns_ConnPos g = p)))
    \<and> (\<forall>p q c c'. mfind (c_PosConnMap s') p = Some c \<and> mfind (c_PosConnMap s') q = Some c' \<and> m_UserID c = m_UserID c' \<and> m_UserID c \<noteq> 0 \<longrightarrow> p = q)
    \<and> (\<forall>u g. u \<noteq> 0 \<and> HL_GetData (m_GnsInfoMap s') u d = Some (HL_SUCCESS, g) \<longrightarrow> gns_check s' u g)
    \<and> HL_Verify (m_GnsInfoMap s') = Some 0"
proof -
  from server_steps_consistent [OF assms(2,1)] obtain M where wf: "conn_wf s'" and inv: "gns_inv s' M"
    by (auto simp: conn_consistent_def)
  note ok = gns_invD(2) [OF inv] and rel = gns_invD(1) [OF inv]
  have get: "HL_GetData (m_GnsInfoMap s') u d = Some (HL_SUCCESS, g) \<longleftrightarrow> M u = Some g" for u g
    using HL_GetData_rel [OF rel, of u d] by (auto simp: hl_codes split: option.splits)
  have "gns_check s' u g" if "u \<noteq> 0" "M u = Some g" for u g
    using gns_okD(5) [OF ok that(2)] gns_okD(2) [OF ok, of "gns_ConnPos g"] that
    by (fastforce simp: gns_check_def here_def Let_def split: option.split)
  moreover have "HL_Verify (m_GnsInfoMap s') = Some 0" using rel HL_Verify_inv by (auto simp: hl_rel_def)
  moreover have "p = q" if "mfind (c_PosConnMap s') p = Some c" "mfind (c_PosConnMap s') q = Some c'" "m_UserID c = m_UserID c'" "m_UserID c \<noteq> 0" for p q c c'
    using gns_okD(2) [OF ok that(1,4)] gns_okD(2) [OF ok that(2)] that(3,4) by auto
  moreover have "m_ConnPos c = p \<and> (m_ConnType c = CONN_AUTH \<longleftrightarrow> m_UserID c \<noteq> 0)
      \<and> (m_UserID c \<noteq> 0 \<longrightarrow> (\<exists>g. M (m_UserID c) = Some g \<and> gns_ServerID g = m_ServerID s' \<and> gns_Status g = GNS_USER_STATUS_ACTIVE \<and> gns_ConnPos g = p))"
    if "mfind (c_PosConnMap s') p = Some c" for p c
    using gns_okD(2,3) [OF ok that] conn_wfD(2) [OF wf that] unfolding here_def by blast
  ultimately show ?thesis unfolding get by (intro conjI allI impI) blast+
qed

text \<open>
  C11: a run of the event loop refines the step relation: when the packets it takes from its queue
  are admitted, it goes from its first to its last state by such steps, so that connections and
  users are consistent again at the end.
\<close>
theorem Conn_Run_refines_steps:
  assumes "Conn_Run P s rounds = Some L" "let (t, s1) = ccall EvOther s in run_admits P \<lparr>cl_conn = s1, LastStateTime = t\<rparr> rounds"
  shows "(server_step P)\<^sup>*\<^sup>* s (cl_conn L) \<and> (conn_consistent s \<longrightarrow> conn_consistent (cl_conn L))"
proof -
  let ?L = "\<lparr>cl_conn = s\<lparr>c_os := os_call EvOther (c_os s)\<rparr>, LastStateTime = os_ret (c_os s) (os_tick (c_os s))\<rparr>"
  have "Conn_Run_loop P ?L rounds = Some L" "run_admits P ?L rounds" using assms by (simp_all add: Conn_Run_def ccall_eq)
  from Run_loop_steps [OF this] have "(server_step P)\<^sup>*\<^sup>* (s\<lparr>c_os := os_call EvOther (c_os s)\<rparr>) (cl_conn L)" by simp
  then have "(server_step P)\<^sup>*\<^sup>* s (cl_conn L)" by (rule converse_rtranclp_into_rtranclp [of "server_step P", OF server_step_os])
  with server_steps_consistent show ?thesis by blast
qed

lemma Conn_Run_wf:
  assumes "conn_wf s" "Conn_Run P s rounds = Some L"
  shows "conn_wf (cl_conn L)"
proof -
  let ?L = "\<lparr>cl_conn = s\<lparr>c_os := os_call EvOther (c_os s)\<rparr>, LastStateTime = os_ret (c_os s) (os_tick (c_os s))\<rparr>"
  have "Conn_Run_loop P ?L rounds = Some L" using assms(2) by (simp add: Conn_Run_def ccall_eq)
  moreover have "conn_wf (cl_conn ?L)" using wf_sends [OF assms(1) sends_os] by simp
  ultimately show ?thesis using conn_rounds.loop_R by blast
qed

text \<open>
  C10: whatever arrives, a run of the event loop leaves well-formed tables: connections filed under
  their positions, a valid iterator, a user table that passes its verification, and a scan
  position inside it; and both scans return in the state it leaves.
\<close>
theorem Conn_Run_keeps_tables:
  assumes "conn_wf s" "Conn_Run P s rounds = Some L"
  shows "conn_wf (cl_conn L) \<and> HL_Verify (m_GnsInfoMap (cl_conn L)) = Some 0
    \<and> CheckConn P (cl_conn L) \<noteq> None \<and> CheckValid (cl_conn L) \<noteq> None"
proof -
  have wf: "conn_wf (cl_conn L)" by (rule Conn_Run_wf [OF assms])
  obtain M where "hl_rel (m_GnsInfoMap (cl_conn L)) M" using conn_wfD(4) [OF wf] by blast
  then have "HL_Verify (m_GnsInfoMap (cl_conn L)) = Some 0" using HL_Verify_inv by (auto simp: hl_rel_def)
  with wf wf.CheckConn_I [OF wf, of P] wf_CheckValid [OF wf] show ?thesis by auto
qed

text \<open>
  C30: the function that deals with a packet of another server returns for every packet that is at least as long
  as its header, and leaves well-formed tables: no operation on the user table leaves its arrays or runs for ever,
  whatever the packet says, and the table passes its verification. A shorter packet, whose negative length reaches
  \<open>memcpy\<close> or \<open>ParseFromArray\<close>, is undefined. The log line of \<open>ReleaseConn\<close> that reads an erased iterator is not part of
  the definitions.
\<close>
theorem DealPkg_defined:
  assumes "conn_wf s"
  shows "if short_packet n then DealPkg P s n = None
    else \<exists>r s'. DealPkg P s n = Some (r, s') \<and> conn_wf s' \<and> HL_Verify (m_GnsInfoMap s') = Some 0"
proof (cases "short_packet n")
  case True
  then show ?thesis using DealPkg_short [OF True, of P s] by simp
next
  case False
  then obtain r s' where D: "DealPkg P s n = Some (r, s')" "conn_wf s'" using wf.DealPkg_I [OF assms False, of P] by auto
  obtain M where "hl_rel (m_GnsInfoMap s') M" using conn_wfD(4) [OF D(2)] by blast
  then have "HL_Verify (m_GnsInfoMap s') = Some 0" using HL_Verify_inv by (auto simp: hl_rel_def)
  with D False show ?thesis by simp
qed

text \<open>
  C12: a connection that has been idle for longer than the timeout is released: when the clock says so at the
  moment the scan stands at it, the scan gets to it within twice the number of connections and two steps, wherever
  its iterator stands, whatever the other system calls answer.
\<close>
theorem idle_conn_released:
  assumes "conn_wf s" "mfind (c_PosConnMap s) p = Some c" "p < Conn_LISTEN_SOCK_CPOS_MIN \<or> Conn_LISTEN_SOCK_CPOS_MAX < p"
    and "idle_when_seen P n s p c" "2 * length (c_PosConnMap s) + 1 \<le> n"
  shows "\<exists>s'. scan_conns P n s = Some s' \<and> mfind (c_PosConnMap s') p = None"
  using assms to_visit_bound [of s p] by (intro scan_conns_releases) (auto simp: not_le)

text \<open>
  C17: a login notice of another server that finds the user known or the table with room returns;
  the newer of the entry and the notice is kept, the notice when they are equally old, and when it
  is the notice no connection of this server has the user any more.
\<close>
theorem notice_newest_wins:
  assumes "gns_inv s M" "ld_ServerID d \<noteq> m_ServerID s" "M (ld_UserID d) \<noteq> None \<or> has_room s M" "ld_UserID d \<noteq> 0"
  shows "\<exists>s'. notice_one P s d = Some s'
    \<and> (case M (ld_UserID d) of
          Some g \<Rightarrow> if gns_LastActiveTime g > ld_LastActiveTime d
                   then HL_GetData (m_GnsInfoMap s') (ld_UserID d) x = Some (HL_SUCCESS, g) else notice_kept s' d x
        | None \<Rightarrow> notice_kept s' d x)"
proof -
  let ?u = "ld_UserID d"
  obtain s' where s': "notice_one P s d = Some s'" "gns_inv s' (noticed s d M)" "steady s s'"
    using notice_one_gns [OF assms(1,2), of P] by blast
  note ok = gns_invD(2) [OF s'(2)]
  have get: "HL_GetData (m_GnsInfoMap s') ?u x = Some (HL_SUCCESS, g)" if "noticed s d M ?u = Some g" for g
    using HL_GetData_rel [OF gns_invD(1) [OF s'(2)], of ?u x] that by simp
  have "notice_kept s' d x" if k: "noticed s d M ?u = Some (remote_entry d GNS_USER_STATUS_ACTIVE)"
  proof -
    have "\<not> here (m_ServerID s') (remote_entry d GNS_USER_STATUS_ACTIVE)"
      using assms(2) s'(3) by (simp add: here_def remote_entry_def steady_def)
    then have "m_UserID c \<noteq> ?u" if "mfind (c_PosConnMap s') p = Some c" for p c
      using gns_okD(2) [OF ok that] assms(4) k by auto
    with get [OF k] mem_mfind [OF gns_okD(1) [OF ok]] show ?thesis by (auto simp: notice_kept_def list_all_iff)
  qed
  with s'(1) get assms(3) show ?thesis
    by (cases "M ?u") (auto simp: noticed_def not_le not_less)
qed

text \<open>
  C32: a login answer for the user who is already logged in on the same connection (the connection
  server does not refuse a second login request) closes that very connection and leaves the user
  marked as active on it: the check of the table then fails.
\<close>
theorem relogin_leaves_stale_entry:
  assumes "conn_consistent s" "mfind (c_PosConnMap s) (hi_ConnPos H) = Some c" "m_UserID c \<noteq> 0"
  shows "\<exists>s' g. login_ok P s H (m_UserID c) c = Some s' \<and> mfind (c_PosConnMap s') (hi_ConnPos H) = None
    \<and> HL_GetData (m_GnsInfoMap s') (m_UserID c) d = Some (HL_SUCCESS, g)
    \<and> gns_ServerID g = m_ServerID s' \<and> gns_Status g = GNS_USER_STATUS_ACTIVE \<and> gns_ConnPos g = hi_ConnPos H
    \<and> \<not> gns_check s' (m_UserID c) g"
proof -
  let ?u = "m_UserID c" and ?p = "hi_ConnPos H"
  let ?s = "login_start s H ?u c"
  let ?Q = "\<lambda>s1. mfind (c_PosConnMap s1) ?p = None \<and> m_ServerID s1 = m_ServerID s \<and> (\<exists>M g. hl_rel (m_GnsInfoMap s1) M \<and> M ?u = Some g
    \<and> gns_ServerID g = m_ServerID s \<and> gns_Status g = GNS_USER_STATUS_ACTIVE \<and> gns_ConnPos g = ?p)"
  obtain M where inv: "gns_inv s M" using assms(1) by (auto simp: conn_consistent_def)
  then obtain g where g: "M ?u = Some g" "here (m_ServerID s) g" "gns_ConnPos g = ?p"
    using gns_okD(2) [OF gns_invD(2) [OF inv] assms(2,3)] by blast
  have rel: "hl_rel (m_GnsInfoMap ?s) M" using gns_invD(1) [OF inv] by (simp add: login_start_def)
  obtain x where x: "HL_Get (m_GnsInfoMap ?s) ?u = Some x" "0 < x" "HL_deref (m_GnsInfoMap ?s) x = Some g"
    using HL_Get_rel [OF rel, of ?u] g(1) by auto
  have f: "m_ServerID ?s = m_ServerID s" "mfind (c_PosConnMap ?s) ?p = Some (c\<lparr>m_ConnType := CONN_AUTH, m_UserID := ?u\<rparr>)"
    using assms(2) by (simp_all add: login_start_def)
  have "\<exists>s1. login_gns P ?s ?u ?p t = Some s1 \<and> ?Q s1" for t
  proof -
    obtain s1 t1 where s1: "kick_user P ?s ?u g = Some s1" "hl_rel (m_GnsInfoMap s1) (left_map (m_ServerID s) ?p ?u t1 M)"
      "mfind (c_PosConnMap s1) ?p = None" "steady ?s s1" "HL_Get (m_GnsInfoMap s1) ?u = Some x"
      using ReleaseConn_eff [OF rel, of P ?p "c\<lparr>m_ConnType := CONN_AUTH, m_UserID := ?u\<rparr>" False] f g(3) assms(3) x(1)
      by (auto simp: kick_user_def)
    have "left_map (m_ServerID s) ?p ?u t1 M ?u = Some (inactive (m_ServerID s) ?p t1 g)" using g(1) by (simp add: left_map_def)
    from gns_set_rel [OF s1(2,5) x(2) this, of ?p "m_ServerID s" GNS_USER_STATUS_ACTIVE t] obtain h where
      h: "gns_set s1 x ?p (m_ServerID s) GNS_USER_STATUS_ACTIVE t = Some (s1\<lparr>m_GnsInfoMap := h\<rparr>)" "\<exists>M g. hl_rel h M \<and> M ?u = Some g
        \<and> gns_ServerID g = m_ServerID s \<and> gns_Status g = GNS_USER_STATUS_ACTIVE \<and> gns_ConnPos g = ?p"
      by fastforce
    have "m_ServerID s1 = m_ServerID s" using s1(4) f(1) by (simp add: steady_def)
    with h s1(1,3) x g(2) f(1) show ?thesis
      by (intro exI [of _ "s1\<lparr>m_GnsInfoMap := h\<rparr>"]) (simp add: login_gns_def here_def)
  qed
  from login_ok_sends [of P s H ?u c ?Q, OF this] obtain s1 s2 where S: "login_ok P s H ?u c = Some s2" "?Q s1" "sends s1 s2" by blast
  have s2: "c_PosConnMap s2 = c_PosConnMap s1" "m_ServerID s2 = m_ServerID s1" "m_GnsInfoMap s2 = m_GnsInfoMap s1"
    using S(3) by (auto simp: sends_def)
  from S(2) obtain M1 g1 where "hl_rel (m_GnsInfoMap s1) M1" "M1 ?u = Some g1" "gns_ServerID g1 = m_ServerID s"
    "gns_Status g1 = GNS_USER_STATUS_ACTIVE" "gns_ConnPos g1 = ?p" by blast
  with S(1,2) s2 HL_GetData_rel [OF this(1), of ?u d] show ?thesis
    by (intro exI [of _ s2] exI [of _ g1]) (simp add: gns_check_def)
qed

section \<open>Examples\<close>

lemma srv_example_wf: "conn_wf (srv_example rs)" "gns_inv (srv_example rs) [7 \<mapsto> gns7]"
proof -
  show "conn_wf (srv_example rs)" using srv_example_consistent by (simp add: conn_consistent_def)
  show "gns_inv (srv_example rs) [7 \<mapsto> gns7]" by (rule srv_example_inv)
qed

text \<open>User 7 hangs up.\<close>

theorem server_consistent_witness:
  "\<exists>s'. conn_handle_event cpb_example (srv_example []) (501, EPOLLHUP) = Some s'
     \<and> (\<forall>u g. u \<noteq> 0 \<and> HL_GetData (m_GnsInfoMap s') u gns7 = Some (HL_SUCCESS, g) \<longrightarrow> gns_check s' u g)
     \<and> HL_Verify (m_GnsInfoMap s') = Some 0"
proof -
  have "\<exists>s'. conn_handle_event cpb_example (srv_example []) (501, EPOLLHUP) = Some s'"
    using wf_release [OF srv_example_wf(1), of cpb_example "[]" 501 "client 501 CONN_AUTH 7" True]
    by (auto simp: conn_handle_event_def conn_cpos_defs EPOLLHUP_def EPOLLERR_def)
  then obtain s' where S: "conn_handle_event cpb_example (srv_example []) (501, EPOLLHUP) = Some s'" by blast
  then have "(server_step cpb_example)\<^sup>*\<^sup>* (srv_example []) s'" by (intro r_into_rtranclp server_step.event)
  from server_consistent [OF srv_example_consistent this, of gns7] S show ?thesis by blast
qed

text \<open>A round in which nothing arrives.\<close>

lemma no_others [simp]: "conn_others [] 0 s = s"
  by (simp add: conn_others_def others_put_def others_take_def)

lemma quiet_round:
  assumes "conn_wf s" "sq_rel (m_RecvQueue s) []" "os_ret (c_os s) (os_tick (c_os s)) = 0" "cl_conn L = s"
  shows "\<exists>L'. conn_round P L ([], [], 0) = Some L'" "drain_admits P 100 s"
proof -
  have O: "OutQueue_int (m_RecvQueue s) buf (int XY_PKG_MAX_LEN) True 0 = (E_SHM_QUEUE_EMPTY, buf, int XY_PKG_MAX_LEN, m_RecvQueue s)" for buf
    using OutQueue_empty [OF assms(2), of True 0] by (simp add: OutQueue_int_def XY_PKG_MAX_LEN_def shm_codes)
  let ?s = "s\<lparr>c_os := os_call EvOther (c_os s)\<rparr>"
  have "drain_admits P (Suc n) s" "conn_drain P (Suc n) s = Some ?s" for n
    using O assms(3) by (simp_all add: ccall_eq shm_codes Let_def)
  from this [of 99] have D: "drain_admits P 100 s" "conn_drain P 100 s = Some ?s" by simp_all
  show "drain_admits P 100 s" by (rule D)
  define s3 where "s3 = (let (t, s) = ccall EvOther ?s in if t - LastStateTime L \<ge> m_StateTime s then snd (Conn_SendStateMessage P s) else s)"
  have "sends s s3" using sends_trans [OF sends_os SendStateMessage_sends] by (simp add: s3_def ccall_eq)
  then have w3: "conn_wf s3" by (rule wf_sends [OF assms(1)])
  obtain s4 where C: "CheckConn P s3 = Some s4" "conn_wf s4" using wf.CheckConn_I [OF w3] by blast
  obtain s5 where V: "CheckValid s4 = Some s5" using wf_CheckValid [OF C(2)] by blast
  show "\<exists>L'. conn_round P L ([], [], 0) = Some L'"
    using D(2) C(1) V assms(4) by (auto simp: conn_round_def s3_def ccall_eq Let_def split: if_splits)
qed

lemma srv_example_run:
  "\<exists>L. Conn_Run cpb_example (srv_example []) [([], [], 0)] = Some L"
  "let (t, s1) = ccall EvOther (srv_example []) in run_admits cpb_example \<lparr>cl_conn = s1, LastStateTime = t\<rparr> [([], [], 0)]"
proof -
  let ?s = "srv_example []\<lparr>c_os := os_call EvOther (os_example [])\<rparr>"
  let ?L = "\<lparr>cl_conn = ?s, LastStateTime = os_ret (os_example []) (os_tick (os_example []))\<rparr>"
  have "conn_wf ?s" using wf_sends [OF srv_example_wf(1) sends_os] by simp
  moreover have "os_ret (c_os ?s) (os_tick (c_os ?s)) = 0" by (simp add: os_example_def)
  ultimately have q: "\<exists>L'. conn_round cpb_example ?L ([], [], 0) = Some L'" "drain_admits cpb_example 100 ?s"
    using quiet_round [of ?s ?L cpb_example] queue_empty_rel by simp_all
  then show "\<exists>L. Conn_Run cpb_example (srv_example []) [([], [], 0)] = Some L"
    by (auto simp: Conn_Run_def ccall_eq)
  show "let (t, s1) = ccall EvOther (srv_example []) in run_admits cpb_example \<lparr>cl_conn = s1, LastStateTime = t\<rparr> [([], [], 0)]"
    using q by (auto simp: ccall_eq split: option.split)
qed

theorem Conn_Run_refines_steps_witness:
  "\<exists>L. Conn_Run cpb_example (srv_example []) [([], [], 0)] = Some L \<and> conn_consistent (cl_conn L)"
proof -
  obtain L where L: "Conn_Run cpb_example (srv_example []) [([], [], 0)] = Some L" using srv_example_run(1) by blast
  from Conn_Run_refines_steps [OF L srv_example_run(2)] L srv_example_consistent show ?thesis by blast
qed

theorem Conn_Run_keeps_tables_witness:
  "\<exists>L. Conn_Run cpb_example (srv_example []) [([], [], 0)] = Some L \<and> HL_Verify (m_GnsInfoMap (cl_conn L)) = Some 0"
proof -
  obtain L where L: "Conn_Run cpb_example (srv_example []) [([], [], 0)] = Some L" using srv_example_run(1) by blast
  from Conn_Run_keeps_tables [OF srv_example_wf(1) L] L show ?thesis by blast
qed

theorem DealPkg_defined_witness:
  "DealPkg cpb_example (srv_example []) 5 = None \<and> DealPkg cpb_example (srv_example []) 40 \<noteq> None"
proof -
  have "short_packet 5" "\<not> short_packet 40" by (simp_all add: short_packet_def XYHeaderIn_GetHeaderLen_def)
  with DealPkg_defined [OF srv_example_wf(1), of 5 cpb_example "[]"] DealPkg_defined [OF srv_example_wf(1), of 40 cpb_example "[]"]
  show ?thesis by auto
qed

text \<open>The clock answers 100 when the scan asks at the connection of user 7; all other calls return 0.\<close>

theorem idle_conn_released_witness:
  "\<exists>s'. scan_conns cpb_example 7 (srv_example [100]) = Some s' \<and> mfind (c_PosConnMap s') 501 = None"
proof -
  let ?s = "\<lambda>k. srv_example [100]\<lparr>m_itrCurCheckConn := Some k\<rparr>"
  have st: "CheckConn cpb_example (srv_example [100]) = Some (?s 100)" "CheckConn cpb_example (?s 100) = Some (?s 501)"
    by (simp_all add: CheckConn_def conn_cpos_defs first_key_def next_key_def mkeys_def)
  have wf: "conn_wf (?s 501)"
    using wf.CheckConn_I [OF srv_example_wf(1), of cpb_example "[100]"] st wf.CheckConn_I [of "?s 100" cpb_example] by auto
  have f: "m_itrCurCheckConn (?s 501) = Some 501" "mfind (c_PosConnMap (?s 501)) 501 = Some (client 501 CONN_AUTH 7)" by simp_all
  have "os_ret (c_os (?s 501)) (os_tick (c_os (?s 501))) = 100" by (simp add: os_example_def)
  then obtain s3 where s3: "CheckConn cpb_example (?s 501) = Some s3" "conn_wf s3" "mfind (c_PosConnMap s3) 501 = None"
    using CheckConn_visit [OF wf f, of cpb_example] by (auto simp: conn_cpos_defs)
  have "idle_when_seen cpb_example (Suc (Suc (Suc 4))) (srv_example [100]) 501 (client 501 CONN_AUTH 7)"
    by (simp only: idle_when_seen_step st s3(1) option.case) (simp add: idle_when_seen_gone [OF s3(2,3)] sys_time_def sys_int_def os_example_def)
  then have "idle_when_seen cpb_example 7 (srv_example [100]) 501 (client 501 CONN_AUTH 7)" by (simp add: numeral_eq_Suc)
  moreover have "mfind (c_PosConnMap (srv_example [100])) 501 = Some (client 501 CONN_AUTH 7)" by simp
  ultimately show ?thesis
    using srv_example_wf(1) by (intro idle_conn_released) (simp_all add: conn_cpos_defs)
qed

theorem notice_newest_wins_witness:
  "\<exists>s'. notice_one cpb_example (srv_example []) \<lparr>ld_UserID = 7, ld_ServerID = 102, ld_ConnPos = 600, ld_LastActiveTime = 50\<rparr> = Some s'
     \<and> notice_kept s' \<lparr>ld_UserID = 7, ld_ServerID = 102, ld_ConnPos = 600, ld_LastActiveTime = 50\<rparr> gns7"
  using notice_newest_wins [OF srv_example_wf(2), of "\<lparr>ld_UserID = 7, ld_ServerID = 102, ld_ConnPos = 600, ld_LastActiveTime = 50\<rparr>" "[]" cpb_example gns7]
  by (auto simp: gns7_def)

theorem relogin_leaves_stale_entry_witness:
  "\<exists>s' g. login_ok cpb_example (srv_example []) (XYHeaderIn_new\<lparr>hi_ConnPos := 501\<rparr>) 7 (client 501 CONN_AUTH 7) = Some s'
     \<and> mfind (c_PosConnMap s') 501 = None \<and> gns_Status g = GNS_USER_STATUS_ACTIVE \<and> \<not> gns_check s' 7 g"
proof -
  have "mfind (c_PosConnMap (srv_example [])) (hi_ConnPos (XYHeaderIn_new\<lparr>hi_ConnPos := 501\<rparr>)) = Some (client 501 CONN_AUTH 7)" by simp
  from relogin_leaves_stale_entry [OF srv_example_consistent this, of cpb_example gns7] show ?thesis by auto
qed

end
