(* ===== verification/ConnInit.thy ===== *)
theory ConnInit
  imports ConnRun Setup
begin

text \<open>
  The start of the connection server: \<open>CConn::Init\<close> reads the configuration, opens the queues and the
  listening sockets, attaches the shared table of users, tells the other connection servers which
  users its last run left there, empties the table and asks the others for theirs.

  The theory shows that \<open>Init\<close>, when it returns 0, leaves a state in which connections and users are
  consistent, so that the invariants of the event loop hold from the start on.
\<close>

section \<open>Surroundings\<close>

text \<open>
  Beside files and queues, the segment of the user table: the results of \<open>Create\<close> and \<open>Attach\<close>, the
  magic bytes at its head and the table behind the head, as the pointers of the hash table will see it;
  \<open>None\<close>: no memory. \<open>env_magic\<close> are the 32 bytes at the address of the constant \<open>GNS_MEM_MAGIC\<close>, which has only 28.
\<close>

record conn_surroundings = surroundings +
  env_gns :: "int \<Rightarrow> int \<Rightarrow> shm_create \<times> bool \<times> (byte list \<times> ShmGnsInfo hashlist) option"
  env_magic :: "byte list"

definition GNS_MEM_HEAD_SIZE :: int where "GNS_MEM_HEAD_SIZE = 256"

text \<open>The size of a data node with a 64-bit key and a \<open>ShmGnsInfo\<close>, and the zeroed value.\<close>

definition GNS_NODE_SIZE :: int where "GNS_NODE_SIZE = 48"

definition ShmGnsInfo_new :: ShmGnsInfo where
  "ShmGnsInfo_new = \<lparr>gns_UserID = 0, gns_ServerID = 0, gns_ConnPos = 0, gns_Status = 0, gns_LastActiveTime = 0\<rparr>"

section \<open>Reading the configuration\<close>

record conn_conf =
  cf_Listen :: string
  cf_BusConfPath :: string
  cf_GnsShmKey :: int
  cf_GnsShmSize :: int
  cf_ModuleName :: string

definition conn_read_conf :: "'a surroundings_scheme \<Rightarrow> string \<Rightarrow> conn \<Rightarrow> (conn_conf \<times> conn) option option" where
  "conn_read_conf E pConfFile s = do {
     f \<leftarrow> open_ini E pConfFile;
     if \<not> IsValid f then Some None
     else do {
       (_, sid) \<leftarrow> GetInt f ''CONN'' ''ServerID'' 0 (m_ServerID s);
       (_, ListenStr) \<leftarrow> GetString f ''CONN'' ''Listen'' [] 1024;
       (_, tmo) \<leftarrow> GetInt f ''CONN'' ''TimeOut'' 600 (m_TimeOut s);
       (_, st) \<leftarrow> GetInt f ''CONN'' ''StateTime'' 0 (m_StateTime s);
       (_, BusConfPath) \<leftarrow> GetString f ''CONN'' ''BusConfPath'' [] 256;
       (_, key) \<leftarrow> GetInt f ''CONN'' ''GnsShmKey'' 0 0;
       (_, sz) \<leftarrow> GetInt f ''CONN'' ''GnsShmSize'' 0 0;
       (_, n) \<leftarrow> GetInt f ''CONN'' ''NodeNum'' 0 (m_MaxGnsNodeNum s);
       (_, ModuleName) \<leftarrow> GetString f ''LOG'' ''ModuleName'' ''conn'' 256;
       (_, LogLocal) \<leftarrow> GetInt f ''LOG'' ''LogLocal'' 1 0;
       (_, LogLevel) \<leftarrow> GetInt f ''LOG'' ''LogLevel'' 3 0;
       (_, LogPath) \<leftarrow> GetString f ''LOG'' ''LogPath'' ''./log'' 1024;
       Some (Some (\<lparr>cf_Listen = ListenStr, cf_BusConfPath = BusConfPath, cf_GnsShmKey = key, cf_GnsShmSize = sz, cf_ModuleName = ModuleName\<rparr>,
         s\<lparr>m_ServerID := sid, m_TimeOut := tmo, m_StateTime := st, m_MaxGnsNodeNum := n\<rparr>))
     }
   }"

text \<open>
  One address of the list, \<open>ip:port\<close>: \<open>Some None\<close> is the error return. The parts are copied to buffers of
  32 and 16 bytes without a check of their lengths.
\<close>

definition parse_addr :: "'a surroundings_scheme \<Rightarrow> string \<Rightarrow> (u32 \<times> u16) option option" where
  "parse_addr E tok =
     (let a = dropWhile (\<lambda>c. c = CHR '' '') tok; ip = takeWhile (\<lambda>c. c \<noteq> CHR '':'') a
      in if CHR '':'' \<notin> set a then Some None
         else let port = drop (length ip + 1) a
              in if length ip \<ge> 32 \<or> length port \<ge> 16 then None
                 else do {
                   n \<leftarrow> atoi port;
                   let LocalPort = (word_of_int n :: u16);
                   Some (if LocalPort = 0 then None else Some (env_inet_addr E ip, LocalPort))
                 })"

fun parse_addrs :: "'a surroundings_scheme \<Rightarrow> string list \<Rightarrow> (u32 \<times> u16) list option option" where
  "parse_addrs E [] = Some (Some [])"
| "parse_addrs E (tok # toks) = do {
     a \<leftarrow> parse_addr E tok;
     case a of
       None \<Rightarrow> Some None
     | Some a \<Rightarrow> map_option (map_option (\<lambda>as. a # as)) (parse_addrs E toks)
   }"

section \<open>Listening\<close>

definition conn_listen_one :: "conn \<Rightarrow> u32 \<Rightarrow> u32 \<times> u16 \<Rightarrow> int \<times> conn" where
  "conn_listen_one s pos a =
     (let (CurListenSockID, s) = ccall EvOther s
      in if CurListenSockID = -1 then (-1, s)
         else let (r, s) = ccall EvOther s in if r = -1 then (-1, s)
         else let addr = \<lparr>sin_addr = fst a, sin_port = htons (snd a)\<rparr>;
                  (r, s) = ccall EvOther s in if r = -1 then (-1, s)
         else let (r, s) = ccall EvOther s in if r = -1 then (-1, s)
         else let (r, s) = ccall (EvEpoll CtlAdd CurListenSockID False pos) s
         in if r \<noteq> 0 then (-1, s)
         else conn_add s pos CurListenSockID sockaddr0 addr CONN_UNAUTH)"

fun conn_listen :: "conn \<Rightarrow> u32 \<Rightarrow> (u32 \<times> u16) list \<Rightarrow> int \<times> conn" where
  "conn_listen s i [] = (0, s)"
| "conn_listen s i (a # as) =
     (let (r, s) = conn_listen_one s (Conn_LISTEN_SOCK_CPOS_MIN + i) a in if r \<noteq> 0 then (-1, s) else conn_listen s (i + 1) as)"

section \<open>The table of users\<close>

text \<open>
  \<open>Clear\<close> writes the whole table. Its size is computed in \<open>int\<close>: when that wraps around, the check against the
  size of the segment passes and the table reaches beyond the segment (\<open>None\<close>).
\<close>

definition clear_gns :: "int \<Rightarrow> int \<Rightarrow> ShmGnsInfo hashlist \<Rightarrow> ShmGnsInfo hashlist option" where
  "clear_gns GnsShmSize n h =
     (if GNS_MEM_HEAD_SIZE + 20 + 12 * n + GNS_NODE_SIZE * n > GnsShmSize then None
      else Some (snd (HL_Clear ShmGnsInfo_new h)))"

text \<open>The table in the segment, cleared when the magic bytes differ.\<close>

definition open_gns :: "'a conn_surroundings_scheme \<Rightarrow> int \<Rightarrow> int \<Rightarrow> int \<Rightarrow> (int \<times> ShmGnsInfo hashlist option) option" where
  "open_gns E GnsShmKey GnsShmSize n =
     (let GnsInfoMemSize = CalcSize GNS_NODE_SIZE n n; GnsMemNeed = int32 (GnsInfoMemSize + GNS_MEM_HEAD_SIZE)
      in if GnsMemNeed > GnsShmSize then Some (-1, None)
         else case env_gns E GnsShmKey GnsShmSize of (create, attach, mem) \<Rightarrow>
           if create = ShmError \<or> \<not> attach then Some (-1, None)
           else case mem of
             None \<Rightarrow> Some (-1, None)
           | Some (magic, table) \<Rightarrow>
               (let (r, h) = HL_Init GNS_NODE_SIZE table GnsInfoMemSize n n
                in if r \<noteq> 0 then Some (-1, None)
                   else do {
                     h \<leftarrow> (if magic \<noteq> env_magic E then clear_gns GnsShmSize n h else Some h);
                     v \<leftarrow> HL_Verify h;
                     Some (if v \<noteq> 0 then (-1, None) else (0, Some h))
                   }))"

definition send_disconnect :: "conn_pb \<Rightarrow> conn \<Rightarrow> LoginData list \<Rightarrow> conn" where
  "send_disconnect P s data =
     (let (t, s) = ccall EvOther s
      in snd (Send2Server s (conn_header s Cmd_Disconnect 0 0 0 t) GROUP_CONN TO_GRP_ALLNOME 0 (ser_LoginDisconnect P data)))"

definition send_sync_req :: "conn_pb \<Rightarrow> conn \<Rightarrow> conn" where
  "send_sync_req P s =
     (let (t, s) = ccall EvOther s
      in snd (Send2Server s (conn_header s Cmd_LoginSync_Req 0 0 0 t) GROUP_CONN TO_GRP_ALLNOME 0 (ser_LoginSyncReq P (m_ServerID s))))"

text \<open>The users the last run left, then an empty table, then the request for the users of the others.\<close>

definition announce :: "conn_pb \<Rightarrow> int \<Rightarrow> conn \<Rightarrow> conn option" where
  "announce P GnsShmSize s = do {
     (h, vctData) \<leftarrow> ProcessAll_upto (MemFullCallBackAll (m_ServerID s)) (nat (m_MaxGnsNodeNum s)) (m_GnsInfoMap s) [];
     let s = send_batches (send_disconnect P) (s\<lparr>m_GnsInfoMap := h\<rparr>) [] 0 vctData;
     h \<leftarrow> clear_gns GnsShmSize (m_MaxGnsNodeNum s) (m_GnsInfoMap s);
     Some (send_sync_req P (s\<lparr>m_GnsInfoMap := h\<rparr>))
   }"

section \<open>Init\<close>

text \<open>The keys and sizes of the queue to the bus and of the own queue.\<close>

definition read_queues :: "inifile \<Rightarrow> conn \<Rightarrow> ((int \<times> int) \<times> (int \<times> int)) option" where
  "read_queues BusFile s = do {
     (_, skey) \<leftarrow> GetInt BusFile ''BUS_GLOBAL'' ''GCIMKey'' 0 0;
     (_, ssz) \<leftarrow> GetInt BusFile ''BUS_GLOBAL'' ''GCIMSize'' 0 0;
     (_, rkey) \<leftarrow> GetInt BusFile (Format_d ''SERVER_'' (word_of_int (m_ServerID s))) ''QueueKey'' 0 0;
     (_, rsz) \<leftarrow> GetInt BusFile (Format_d ''SERVER_'' (word_of_int (m_ServerID s))) ''QueueSize'' 0 0;
     Some ((skey, ssz), (rkey, rsz))
   }"

definition conn_open_queues :: "'a surroundings_scheme \<Rightarrow> int \<times> int \<Rightarrow> int \<times> int \<Rightarrow> conn \<Rightarrow> (int \<times> conn) option" where
  "conn_open_queues E snd_q rcv_q s = do {
     (r, q) \<leftarrow> open_queue E (fst rcv_q) (snd rcv_q);
     if r \<noteq> 0 then Some (-1, s)
     else do {
       let s = (case q of None \<Rightarrow> s | Some q \<Rightarrow> s\<lparr>m_RecvQueue := q\<rparr>);
       (r, q) \<leftarrow> open_queue E (fst snd_q) (snd snd_q);
       if r \<noteq> 0 then Some (-1, s)
       else Some (0, case q of None \<Rightarrow> s | Some q \<Rightarrow> s\<lparr>m_SendQueue := q\<rparr>)
     }
   }"

definition conn_tables :: "'a conn_surroundings_scheme \<Rightarrow> conn_pb \<Rightarrow> conn_conf \<Rightarrow> conn \<Rightarrow> (int \<times> conn) option" where
  "conn_tables E P cf s =
     (if cf_GnsShmKey cf = 0 \<or> cf_GnsShmSize cf = 0 \<or> m_MaxGnsNodeNum s = 0 then Some (-1, s)
      else do {
        (r, h) \<leftarrow> open_gns E (cf_GnsShmKey cf) (cf_GnsShmSize cf) (m_MaxGnsNodeNum s);
        case h of
          None \<Rightarrow> Some (-1, s)
        | Some h \<Rightarrow> map_option (\<lambda>s. (0, s)) (announce P (cf_GnsShmSize cf) (s\<lparr>m_GnsInfoMap := h\<rparr>))
      })"

definition conn_start :: "'a conn_surroundings_scheme \<Rightarrow> conn_pb \<Rightarrow> conn_conf \<Rightarrow> (u32 \<times> u16) list \<Rightarrow> conn \<Rightarrow> (int \<times> conn) option" where
  "conn_start E P cf addrs s =
     (let (fd, s) = ccall EvOther s; s = s\<lparr>c_EpollFD := fd\<rparr>
      in if fd = -1 then Some (-1, s)
         else let (r, s) = conn_listen s 0 addrs in if r \<noteq> 0 then Some (-1, s) else conn_tables E P cf s)"

definition Conn_Init :: "'a conn_surroundings_scheme \<Rightarrow> conn_pb \<Rightarrow> string \<Rightarrow> conn \<Rightarrow> (int \<times> conn) option" where
  "Conn_Init E P pConfFile s = do {
     conf \<leftarrow> conn_read_conf E pConfFile s;
     case conf of
       None \<Rightarrow> Some (-1, s)
     | Some (cf, s) \<Rightarrow>
         if cf_BusConfPath cf = [] then Some (-1, s)
         else do {
           BusFile \<leftarrow> open_ini E (cf_BusConfPath cf);
           if \<not> IsValid BusFile then Some (-1, s)
           else do {
             (snd_q, rcv_q) \<leftarrow> read_queues BusFile s;
             if cf_ModuleName cf = [] then Some (-1, s)
             else do {
               addrs \<leftarrow> parse_addrs E (strtok_all (CHR '','') (cf_Listen cf));
               case addrs of
                 None \<Rightarrow> Some (-1, s)
               | Some as \<Rightarrow>
                   if as = [] then Some (-1, s)
                   else do {
                     (r, s) \<leftarrow> conn_open_queues E snd_q rcv_q s;
                     if r \<noteq> 0 then Some (-1, s) else conn_start E P cf as s
                   }
             }
           }
         }
   }"

section \<open>The listening sockets\<close>

text \<open>The connections of a server that has just started: nobody has logged in.\<close>

definition fresh :: "conn \<Rightarrow> bool" where
  "fresh s \<longleftrightarrow> smap_ok (c_PosConnMap s) \<and> m_itrCurCheckConn s = None \<and> m_CheckConnPos s = 0
     \<and> (\<forall>p c. mfind (c_PosConnMap s) p = Some c \<longrightarrow> m_ConnPos c = p \<and> m_ConnType c = CONN_UNAUTH \<and> m_UserID c = 0)"

lemma conn_listen_one_0:
  assumes "conn_listen_one s p a = (0, s')"
  shows "\<exists>w c. mfind (c_PosConnMap s) p = None \<and> s' = s\<lparr>c_os := w, c_PosConnMap := minsert p c (c_PosConnMap s)\<rparr>
    \<and> m_ConnPos c = p \<and> m_ConnType c = CONN_UNAUTH \<and> m_UserID c = 0"
proof -
  obtain w sock la where A: "conn_add (s\<lparr>c_os := w\<rparr>) p sock sockaddr0 la CONN_UNAUTH = (0, s')"
    using assms by (auto simp: conn_listen_one_def ccall_eq Let_def split: if_splits)
  then have n: "mfind (c_PosConnMap s) p = None"
    by (auto simp: conn_add_def Let_def split: if_splits prod.splits)
  then have "mfind (c_PosConnMap (s\<lparr>c_os := w\<rparr>)) p = None" by simp
  from conn_add_free [OF this, of sock sockaddr0 la CONN_UNAUTH] A obtain w' c where
    c: "s' = s\<lparr>c_os := w\<rparr>\<lparr>c_os := w', c_PosConnMap := minsert p c (c_PosConnMap (s\<lparr>c_os := w\<rparr>))\<rparr>"
      "m_ConnPos c = p" "m_ConnType c = CONN_UNAUTH" "m_UserID c = 0"
    by (metis prod.inject)
  then have "s' = s\<lparr>c_os := w', c_PosConnMap := minsert p c (c_PosConnMap s)\<rparr>" by simp
  with c n show ?thesis by blast
qed

definition same_but_conns :: "conn \<Rightarrow> conn \<Rightarrow> bool" where
  "same_but_conns s s' \<longleftrightarrow> (\<exists>w m. s' = s\<lparr>c_os := w, c_PosConnMap := m\<rparr>)"

lemma conn_listen_ok:
  assumes "conn_listen s i as = (0, s')" "fresh s"
  shows "fresh s' \<and> same_but_conns s s' \<and> (\<forall>p. mfind (c_PosConnMap s) p \<noteq> None \<longrightarrow> mfind (c_PosConnMap s') p \<noteq> None)
    \<and> (\<forall>j<length as. mfind (c_PosConnMap s') (Conn_LISTEN_SOCK_CPOS_MIN + (i + of_nat j)) \<noteq> None)"
  using assms
proof (induction as arbitrary: s i)
  case Nil
  have "same_but_conns s s"
    unfolding same_but_conns_def by (intro exI [of _ "c_os s"] exI [of _ "c_PosConnMap s"]) simp
  then show ?case using Nil by simp
next
  case (Cons a as)
  let ?p = "Conn_LISTEN_SOCK_CPOS_MIN + i"
  obtain s1 where s1: "conn_listen_one s ?p a = (0, s1)" "conn_listen s1 (i + 1) as = (0, s')"
    using Cons.prems(1) by (auto split: prod.splits if_splits)
  from conn_listen_one_0 [OF s1(1)] obtain w c where
    c: "mfind (c_PosConnMap s) ?p = None" "s1 = s\<lparr>c_os := w, c_PosConnMap := minsert ?p c (c_PosConnMap s)\<rparr>"
      "m_ConnPos c = ?p" "m_ConnType c = CONN_UNAUTH" "m_UserID c = 0" by blast
  have ok: "smap_ok (c_PosConnMap s)" using Cons.prems(2) by (simp add: fresh_def)
  have f: "mfind (c_PosConnMap s1) q = (if q = ?p then Some c else mfind (c_PosConnMap s) q)" for q
    using ok c(1) by (simp add: c(2) mfind_minsert)
  have m: "smap_ok (c_PosConnMap s1)" "m_itrCurCheckConn s1 = m_itrCurCheckConn s" "m_CheckConnPos s1 = m_CheckConnPos s"
    using smap_ok_minsert [OF ok] by (simp_all add: c(2))
  have "fresh s1" using Cons.prems(2) c(3-5) unfolding fresh_def m f by (simp add: m(1))
  note IH = Cons.IH [OF s1(2) this]
  have "same_but_conns s s'" using IH unfolding same_but_conns_def c(2) by auto
  moreover have "mfind (c_PosConnMap s') (Conn_LISTEN_SOCK_CPOS_MIN + (i + of_nat j)) \<noteq> None" if "j < length (a # as)" for j
  proof (cases j)
    case 0
    then show ?thesis using IH f [of ?p] by simp
  next
    case (Suc k)
    then have "i + 1 + of_nat k = i + of_nat j" by simp
    with Suc that IH show ?thesis by (metis Suc_less_SucD length_Cons)
  qed
  ultimately show ?case using IH f by simp
qed

section \<open>The table of users\<close>

lemma ProcessAll_head:
  "ProcessAll_upto cb n h p = Some (h', p') \<Longrightarrow> m_pstHead h' = m_pstHead h"
  by (induction n arbitrary: h' p') (auto simp: HL_ProcessAll_def split: Option.bind_splits if_splits)

text \<open>What is collected from a well-formed table: the users that are active on this server.\<close>

definition login_data :: "ShmGnsInfo \<Rightarrow> LoginData" where
  "login_data g = \<lparr>ld_UserID = gns_UserID g, ld_ServerID = gns_ServerID g, ld_ConnPos = gns_ConnPos g,
     ld_LastActiveTime = gns_LastActiveTime g\<rparr>"

definition left_behind :: "int \<Rightarrow> (u64 \<rightharpoonup> ShmGnsInfo) \<Rightarrow> LoginData set" where
  "left_behind me M = login_data ` {g \<in> ran M. gns_ServerID g = me \<and> gns_Status g = GNS_USER_STATUS_ACTIVE}"

lemma collect_left_behind:
  assumes "hl_rel h M" "n = nat (iIndexNodeNum (m_pstHead h))"
  shows "\<exists>xs. ProcessAll_upto (MemFullCallBackAll me) n h [] = Some (h, xs) \<and> set xs = left_behind me M"
proof -
  obtain cs fs where inv: "hl_inv h cs fs" and M: "M = lookup h cs" using assms(1) by (rule hl_relE)
  let ?e = "\<lambda>x. (key_at (m_pstData h) x, Data (m_pstData h ! nat x))"
  define act where "act g \<longleftrightarrow> gns_ServerID g = me \<and> gns_Status g = GNS_USER_STATUS_ACTIVE" for g :: ShmGnsInfo
  define g where "g k d acc = (if act d then acc @ [login_data d] else acc)" for k :: u64 and d :: ShmGnsInfo and acc
  have cb: "MemFullCallBackAll me = (\<lambda>k d acc. (d, g k d acc))"
    by (intro ext) (simp add: MemFullCallBackAll_def g_def login_data_def act_def)
  have fold: "fold (\<lambda>x. g (key_at (m_pstData h) x) (Data (m_pstData h ! nat x))) ys acc
      = acc @ map login_data (filter act (map (\<lambda>x. Data (m_pstData h ! nat x)) ys))" for ys acc
    by (induction ys arbitrary: acc) (auto simp: g_def)
  have n: "n = length cs" using inv assms(2) by (auto simp: hl_inv_def)
  have d: "distinct (map fst (map ?e (concat cs)))" "map_of (map ?e (concat cs)) = M"
    using hl_entries [OF inv] M by (simp_all add: comp_def)
  have "ran M = snd ` set (map ?e (concat cs))" using ran_distinct [OF d(1)] unfolding d(2) .
  then have r: "set (map (\<lambda>x. Data (m_pstData h ! nat x)) (concat cs)) = ran M" by (simp add: image_image)
  let ?xs = "map login_data (filter act (map (\<lambda>x. Data (m_pstData h ! nat x)) (concat cs)))"
  have "set ?xs = left_behind me M" unfolding left_behind_def set_map [of login_data] set_filter r act_def by simp
  moreover have "ProcessAll_upto (MemFullCallBackAll me) n h [] = Some (h, ?xs)"
    using ProcessAll_upto_collect [OF inv order.refl, of g "[]"] unfolding cb n fold by simp
  ultimately show ?thesis by blast
qed

lemma open_gns_shape:
  assumes "open_gns E key sz n = Some (0, Some h)"
  shows "iIndexNodeNum (m_pstHead h) = n \<and> iTotalDataNodeNum (m_pstHead h) = n \<and> 2 \<le> n"
  using assms
  by (auto simp: open_gns_def Let_def HL_Init_def clear_gns_def HL_Clear_def hl_codes
      split: if_splits prod.splits option.splits Option.bind_splits)

section \<open>The announcements\<close>

lemma send_disconnect_sends: "sends s (send_disconnect P s xs)"
  and send_sync_req_sends: "sends s (send_sync_req P s)"
  unfolding send_disconnect_def send_sync_req_def ccall_eq Let_def prod.case
  by (rule sends_trans [OF sends_os Send2Server_sends])+

text \<open>The last batch carries the whole list, because the message is not emptied in between.\<close>

lemma send_batches_last:
  assumes "\<And>s xs. sends s (send s xs)" "ds \<noteq> []"
  shows "\<exists>s0. sends s s0 \<and> send_batches send s acc j ds = send s0 (acc @ ds)"
  using assms(2)
proof (induction ds arbitrary: s acc j)
  case (Cons d ds)
  show ?case
  proof (cases "ds = []")
    case False
    let ?s = "if j + 1 > 1000 then send s (acc @ [d]) else s"
    let ?j = "if j + 1 > 1000 then 0 else j + 1"
    have "sends s ?s" using assms(1) by simp
    moreover have "send_batches send s acc j (d # ds) = send_batches send ?s (acc @ [d]) ?j ds" using False by (simp add: Let_def)
    moreover obtain s0 where "sends ?s s0" "send_batches send ?s (acc @ [d]) ?j ds = send s0 (acc @ d # ds)"
      using Cons.IH [OF False, of ?s "acc @ [d]" ?j] by auto
    ultimately show ?thesis using sends_trans by metis
  qed auto
qed simp

definition announced :: "conn_pb \<Rightarrow> conn \<Rightarrow> LoginData list \<Rightarrow> conn \<Rightarrow> bool" where
  "announced P s xs s' \<longleftrightarrow> (if xs = [] then s' = s else \<exists>s0. sends s s0 \<and> s' = send_disconnect P s0 xs)"

lemma announced_batches: "announced P s xs (send_batches (send_disconnect P) s [] 0 xs)"
  using send_batches_last [of "send_disconnect P" xs s "[]" 0] send_disconnect_sends by (auto simp: announced_def)

lemma announced_sends: "announced P s xs s' \<Longrightarrow> sends s s'"
  using send_disconnect_sends sends_trans by (auto simp: announced_def split: if_splits)

lemma announce_cases:
  assumes "announce P sz s = Some s'"
  obtains h xs s1 where "ProcessAll_upto (MemFullCallBackAll (m_ServerID s)) (nat (m_MaxGnsNodeNum s)) (m_GnsInfoMap s) [] = Some (h, xs)"
    "announced P (s\<lparr>m_GnsInfoMap := h\<rparr>) xs s1" "s' = send_sync_req P (s1\<lparr>m_GnsInfoMap := snd (HL_Clear ShmGnsInfo_new h)\<rparr>)"
proof -
  obtain h xs where P: "ProcessAll_upto (MemFullCallBackAll (m_ServerID s)) (nat (m_MaxGnsNodeNum s)) (m_GnsInfoMap s) [] = Some (h, xs)"
    using assms by (auto simp: announce_def split: Option.bind_splits)
  define s1 where "s1 = send_batches (send_disconnect P) (s\<lparr>m_GnsInfoMap := h\<rparr>) [] 0 xs"
  have a: "announced P (s\<lparr>m_GnsInfoMap := h\<rparr>) xs s1" unfolding s1_def by (rule announced_batches)
  from announced_sends [OF this] have "m_GnsInfoMap s1 = h" by (auto simp: sends_def)
  then have "s' = send_sync_req P (s1\<lparr>m_GnsInfoMap := snd (HL_Clear ShmGnsInfo_new h)\<rparr>)"
    using assms P by (auto simp: announce_def Let_def clear_gns_def s1_def [symmetric] split: if_splits)
  with P a that show ?thesis by blast
qed

lemma send_sync_req_table: "m_GnsInfoMap (send_sync_req P s) = m_GnsInfoMap s"
  using send_sync_req_sends [of s P] by (auto simp: sends_def)

lemma announce_ok:
  assumes "announce P sz s = Some s'" "fresh s" "iIndexNodeNum (m_pstHead (m_GnsInfoMap s)) = m_MaxGnsNodeNum s"
    "iTotalDataNodeNum (m_pstHead (m_GnsInfoMap s)) = m_MaxGnsNodeNum s" "2 \<le> m_MaxGnsNodeNum s" "m_MaxGnsNodeNum s < 2 ^ 31"
  shows "conn_consistent s' \<and> hl_rel (m_GnsInfoMap s') Map.empty \<and> c_PosConnMap s' = c_PosConnMap s
    \<and> sends (s\<lparr>m_GnsInfoMap := m_GnsInfoMap s'\<rparr>) s'"
proof -
  obtain h xs s1 where P: "ProcessAll_upto (MemFullCallBackAll (m_ServerID s)) (nat (m_MaxGnsNodeNum s)) (m_GnsInfoMap s) [] = Some (h, xs)"
    and A: "announced P (s\<lparr>m_GnsInfoMap := h\<rparr>) xs s1" and S: "s' = send_sync_req P (s1\<lparr>m_GnsInfoMap := snd (HL_Clear ShmGnsInfo_new h)\<rparr>)"
    using announce_cases [OF assms(1)] .
  define h2 where "h2 = snd (HL_Clear ShmGnsInfo_new h)"
  obtain q w where s1': "s1 = s\<lparr>m_GnsInfoMap := h, m_SendQueue := q, c_os := w\<rparr>"
    using announced_sends [OF A] by (auto simp: sends_def)
  obtain q' w' where s': "s' = s1\<lparr>m_GnsInfoMap := h2, m_SendQueue := q', c_os := w'\<rparr>"
    using send_sync_req_sends [of "s1\<lparr>m_GnsInfoMap := h2\<rparr>" P] S by (auto simp: sends_def h2_def)
  have hd: "m_pstHead h = m_pstHead (m_GnsInfoMap s)" by (rule ProcessAll_head [OF P])
  have rel: "hl_rel h2 Map.empty" unfolding h2_def using assms(3-6) by (intro HL_Clear_rel) (simp_all add: hd)
  have ix: "int (length (m_pstIndex h2)) = m_MaxGnsNodeNum s" using assms(3,5) by (simp add: h2_def HL_Clear_def Let_def hd)
  have wf: "conn_wf s'" using assms(2,5) rel ix unfolding conn_wf_def fresh_def by (auto simp: s' s1')
  have "gns_inv s' Map.empty"
    using rel assms(2) unfolding gns_inv_def gns_ok_def fresh_def by (auto simp: s' s1' CONN_UNAUTH_def CONN_AUTH_def)
  moreover have "sends (s\<lparr>m_GnsInfoMap := m_GnsInfoMap s'\<rparr>) s'" by (rule sendsI [where q = q' and w = w']) (simp add: s' s1')
  ultimately show ?thesis using wf rel by (auto simp: conn_consistent_def s' s1')
qed

section \<open>From the start on\<close>

lemma conn_open_queues_0:
  assumes "segments_ok E" "conn_open_queues E a b s = Some (0, s')"
  shows "\<exists>q q' ms. s' = s\<lparr>m_RecvQueue := q, m_SendQueue := q'\<rparr> \<and> sq_rel q ms"
proof -
  obtain q q' where Q: "open_queue E (fst b) (snd b) = Some (0, q)" "open_queue E (fst a) (snd a) = Some (0, q')"
    and s': "s' = (case q' of None \<Rightarrow> case q of None \<Rightarrow> s | Some q \<Rightarrow> s\<lparr>m_RecvQueue := q\<rparr>
      | Some q' \<Rightarrow> (case q of None \<Rightarrow> s | Some q \<Rightarrow> s\<lparr>m_RecvQueue := q\<rparr>)\<lparr>m_SendQueue := q'\<rparr>)"
    using assms(2) by (auto simp: conn_open_queues_def Let_def split: Option.bind_splits if_splits)
  obtain p p' where p: "q = Some p" "q' = Some p'" using open_queue_0 [OF Q(1)] open_queue_0 [OF Q(2)] by blast
  obtain ms where "sq_rel p ms" using assms(1) Q(1) p unfolding segments_ok_def by blast
  with s' p show ?thesis by auto
qed

lemma conn_start_0:
  assumes "conn_start E P cf as s = Some (0, s')" "fresh s" "m_MaxGnsNodeNum s < 2 ^ 31" "as \<noteq> []"
  shows "\<exists>s1 h. open_gns E (cf_GnsShmKey cf) (cf_GnsShmSize cf) (m_MaxGnsNodeNum s) = Some (0, Some h)
    \<and> announce P (cf_GnsShmSize cf) (s1\<lparr>m_GnsInfoMap := h\<rparr>) = Some s' \<and> fresh (s1\<lparr>m_GnsInfoMap := h\<rparr>)
    \<and> (\<exists>fd w m. s1 = s\<lparr>c_EpollFD := fd, c_os := w, c_PosConnMap := m\<rparr>) \<and> mfind (c_PosConnMap s1) Conn_LISTEN_SOCK_CPOS_MIN \<noteq> None"
proof -
  define s0 where "s0 = s\<lparr>c_os := os_call EvOther (c_os s), c_EpollFD := os_ret (c_os s) (os_tick (c_os s))\<rparr>"
  obtain s1 where L: "conn_listen s0 0 as = (0, s1)"
    and G: "conn_tables E P cf s1 = Some (0, s')"
    using assms(1) by (auto simp: conn_start_def ccall_eq Let_def s0_def split: prod.splits if_splits)
  have "fresh s0" using assms(2) by (simp add: fresh_def s0_def)
  note A = conn_listen_ok [OF L this]
  then obtain w m where s1: "s1 = s0\<lparr>c_os := w, c_PosConnMap := m\<rparr>" by (auto simp: same_but_conns_def)
  then have n: "m_MaxGnsNodeNum s1 = m_MaxGnsNodeNum s" by (simp add: s0_def)
  obtain h where h: "open_gns E (cf_GnsShmKey cf) (cf_GnsShmSize cf) (m_MaxGnsNodeNum s) = Some (0, Some h)"
    "announce P (cf_GnsShmSize cf) (s1\<lparr>m_GnsInfoMap := h\<rparr>) = Some s'"
    using G unfolding n [symmetric]
    by (auto simp: conn_tables_def open_gns_def Let_def split: Option.bind_splits option.splits if_splits prod.splits)
  have "fresh (s1\<lparr>m_GnsInfoMap := h\<rparr>)" using A by (simp add: fresh_def)
  moreover have "mfind (c_PosConnMap s1) Conn_LISTEN_SOCK_CPOS_MIN \<noteq> None"
  proof -
    have "mfind (c_PosConnMap s1) (Conn_LISTEN_SOCK_CPOS_MIN + (0 + of_nat 0)) \<noteq> None" using A assms(4) by blast
    then show ?thesis by simp
  qed
  moreover have "\<exists>fd w m. s1 = s\<lparr>c_EpollFD := fd, c_os := w, c_PosConnMap := m\<rparr>"
    by (intro exI [of _ "os_ret (c_os s) (os_tick (c_os s))"] exI [of _ w] exI [of _ m]) (simp add: s1 s0_def)
  ultimately show ?thesis using h by blast
qed

lemma GetInt_bound:
  assumes "GetInt f sec item d old = Some (r, v)" "d < 2 ^ 31" "old < 2 ^ 31"
  shows "v < 2 ^ 31"
proof -
  have "sint (w :: u32) < 2 ^ 31" for w using sint_lt [of w] by simp
  then show ?thesis
    using assms by (auto simp: GetInt_def scan_hex_def atoi_def Let_def split: if_splits Option.bind_splits prod.splits)
qed

lemma Conn_Init_0:
  assumes "Conn_Init E P path (Conn_new rq sq buf n gns w) = Some (0, s')" "n < 2 ^ 31"
  shows "\<exists>cf as s0 s a b. conn_start E P cf as s = Some (0, s') \<and> conn_open_queues E a b s0 = Some (0, s) \<and> as \<noteq> []
    \<and> fresh s0 \<and> m_MaxGnsNodeNum s0 < 2 ^ 31"
proof -
  let ?s = "Conn_new rq sq buf n gns w"
  obtain cf s0 where C: "conn_read_conf E path ?s = Some (Some (cf, s0))"
    using assms(1) by (auto simp: Conn_Init_def split: Option.bind_splits option.splits)
  obtain as s a b where A: "conn_start E P cf as s = Some (0, s')" "conn_open_queues E a b s0 = Some (0, s)" "as \<noteq> []"
    using assms(1) C by (auto simp: Conn_Init_def split: Option.bind_splits option.splits if_splits)
  have "fresh s0 \<and> m_MaxGnsNodeNum s0 < 2 ^ 31"
    using C assms(2) GetInt_bound
    by (auto simp: conn_read_conf_def Conn_new_def fresh_def split: Option.bind_splits if_splits)
  with A show ?thesis by blast
qed

text \<open>
  C28: When \<open>Init\<close> of the connection server returns 0, connections and users are consistent, the table of users is empty, the
  queue from the bus is well-formed, and the first listening socket is open; and whatever arrives, the
  tables are well-formed after every run of the event loop from there. A queue in a segment that was there
  before is one that such a queue has left.
\<close>
theorem Conn_Init_establishes:
  assumes "segments_ok E" "n < 2 ^ 31" "Conn_Init E P path (Conn_new rq sq buf n gns w) = Some (0, s)"
  shows "conn_consistent s \<and> hl_rel (m_GnsInfoMap s) Map.empty \<and> (\<exists>ms. sq_rel (m_RecvQueue s) ms)
    \<and> mfind (c_PosConnMap s) Conn_LISTEN_SOCK_CPOS_MIN \<noteq> None
    \<and> (\<forall>rounds L. Conn_Run P s rounds = Some L \<longrightarrow> conn_wf (cl_conn L))"
proof -
  obtain cf as s0 s1 a b where S: "conn_start E P cf as s1 = Some (0, s)" "conn_open_queues E a b s0 = Some (0, s1)" "as \<noteq> []"
    and s0: "fresh s0" "m_MaxGnsNodeNum s0 < 2 ^ 31" using Conn_Init_0 [OF assms(3,2)] by blast
  obtain q q' ms where s1: "s1 = s0\<lparr>m_RecvQueue := q, m_SendQueue := q'\<rparr>" "sq_rel q ms"
    using conn_open_queues_0 [OF assms(1) S(2)] by blast
  then have f: "fresh s1" "m_MaxGnsNodeNum s1 < 2 ^ 31" using s0 by (simp_all add: fresh_def)
  from conn_start_0 [OF S(1) f S(3)] obtain s2 h fd w' m where
    h: "open_gns E (cf_GnsShmKey cf) (cf_GnsShmSize cf) (m_MaxGnsNodeNum s1) = Some (0, Some h)"
      "announce P (cf_GnsShmSize cf) (s2\<lparr>m_GnsInfoMap := h\<rparr>) = Some s" "fresh (s2\<lparr>m_GnsInfoMap := h\<rparr>)"
    and s2: "s2 = s1\<lparr>c_EpollFD := fd, c_os := w', c_PosConnMap := m\<rparr>" "mfind (c_PosConnMap s2) Conn_LISTEN_SOCK_CPOS_MIN \<noteq> None" by blast
  have "conn_consistent s \<and> hl_rel (m_GnsInfoMap s) Map.empty \<and> c_PosConnMap s = c_PosConnMap (s2\<lparr>m_GnsInfoMap := h\<rparr>)
      \<and> sends (s2\<lparr>m_GnsInfoMap := h\<rparr>\<lparr>m_GnsInfoMap := m_GnsInfoMap s\<rparr>) s"
    using open_gns_shape [OF h(1)] f(2) by (intro announce_ok [OF h(2,3)]) (simp_all add: s2(1))
  moreover from this obtain q2 w2 where "s = s2\<lparr>m_GnsInfoMap := m_GnsInfoMap s, m_SendQueue := q2, c_os := w2\<rparr>"
    by (auto simp: sends_def)
  then have "m_RecvQueue s = m_RecvQueue s2" by (metis conn.select_convs(9) conn.surjective conn.update_convs(10,13,14))
  moreover have "conn_wf (cl_conn L)" if "conn_consistent s" "Conn_Run P s rounds = Some L" for rounds L
    using that Conn_Run_wf by (auto simp: conn_consistent_def)
  ultimately show ?thesis using s1(2) s2(2) by (auto simp: s2(1) s1(1))
qed

lemma HL_Init_rel:
  assumes "HL_Init dsz h sz n n = (0, h')" "hl_rel h M" "iIndexNodeNum (m_pstHead h) = n" "iTotalDataNodeNum (m_pstHead h) = n"
  shows "hl_rel h' M"
proof -
  have h': "h' = h\<lparr>m_pstHead := (m_pstHead h)\<lparr>iSize := sz\<rparr>, m_iIndexNodeNum := n, m_iDataNodeNum := n\<rparr>"
    using assms(1,3,4) by (auto simp: HL_Init_def Let_def hl_codes split: if_splits)
  have "Hash h' k = Hash h k" for k by (simp add: Hash_def h')
  then have b: "bucket_ok h' i c = bucket_ok h i c" and l: "lookup h' cs = lookup h cs" for i c cs
    by (auto simp: bucket_ok_def lookup_def fun_eq_iff h')
  have "hl_inv h' cs fs = hl_inv h cs fs" for cs fs unfolding hl_inv_def b by (simp add: h')
  moreover have "iUsedDataNodeNum (m_pstHead h') = iUsedDataNodeNum (m_pstHead h)" by (simp add: h')
  ultimately show ?thesis using assms(2) unfolding hl_rel_def l by simp
qed

lemma open_gns_rel:
  assumes "open_gns E key sz n = Some (0, Some h)" "env_gns E key sz = (ShmExist, True, Some (env_magic E, table))"
    "hl_rel table M" "iIndexNodeNum (m_pstHead table) = n" "iTotalDataNodeNum (m_pstHead table) = n"
  shows "hl_rel h M"
proof -
  have "HL_Init GNS_NODE_SIZE table (CalcSize GNS_NODE_SIZE n n) n n = (0, h)"
    using assms(1,2) by (auto simp: open_gns_def Let_def split: if_splits prod.splits Option.bind_splits)
  then show ?thesis by (rule HL_Init_rel [OF _ assms(3-5)])
qed

text \<open>
  the segment of the last run of this server still holds its table of users. A successful
  \<open>Init\<close> with the same table size first reports to the other connection servers every user that run left
  active on this server: if there are any, a message with all of them is sent (after smaller ones when there
  are more than a thousand); then it asks for the users of the others.
\<close>
lemma Conn_Init_announces:
  assumes "segments_ok E" "n < 2 ^ 31" "Conn_Init E P path (Conn_new rq sq buf n gns w) = Some (0, s)"
    and "\<And>key sz. env_gns E key sz = (ShmExist, True, Some (env_magic E, table))" "hl_rel table M"
    and "iIndexNodeNum (m_pstHead table) = m_MaxGnsNodeNum s" "iTotalDataNodeNum (m_pstHead table) = m_MaxGnsNodeNum s"
  shows "\<exists>xs s1 s2. set xs = left_behind (m_ServerID s) M \<and> s = send_sync_req P (s2\<lparr>m_GnsInfoMap := m_GnsInfoMap s\<rparr>)
    \<and> (if xs = [] then s2 = s1 else \<exists>s0. sends s1 s0 \<and> s2 = send_disconnect P s0 xs)"
proof -
  obtain cf as s0 s1 a b where S: "conn_start E P cf as s1 = Some (0, s)" "conn_open_queues E a b s0 = Some (0, s1)" "as \<noteq> []"
    and s0: "fresh s0" "m_MaxGnsNodeNum s0 < 2 ^ 31" using Conn_Init_0 [OF assms(3,2)] by blast
  obtain q q' where s1: "s1 = s0\<lparr>m_RecvQueue := q, m_SendQueue := q'\<rparr>"
    using conn_open_queues_0 [OF assms(1) S(2)] by blast
  then have f: "fresh s1" "m_MaxGnsNodeNum s1 < 2 ^ 31" using s0 by (simp_all add: fresh_def)
  from conn_start_0 [OF S(1) f S(3)] obtain s2 h fd w' m where
    h: "open_gns E (cf_GnsShmKey cf) (cf_GnsShmSize cf) (m_MaxGnsNodeNum s1) = Some (0, Some h)"
      "announce P (cf_GnsShmSize cf) (s2\<lparr>m_GnsInfoMap := h\<rparr>) = Some s"
    and s2: "s2 = s1\<lparr>c_EpollFD := fd, c_os := w', c_PosConnMap := m\<rparr>" by blast
  let ?s = "s2\<lparr>m_GnsInfoMap := h\<rparr>"
  obtain h1 xs s3 where P: "ProcessAll_upto (MemFullCallBackAll (m_ServerID ?s)) (nat (m_MaxGnsNodeNum ?s)) (m_GnsInfoMap ?s) [] = Some (h1, xs)"
    and A: "announced P (?s\<lparr>m_GnsInfoMap := h1\<rparr>) xs s3"
    and s: "s = send_sync_req P (s3\<lparr>m_GnsInfoMap := snd (HL_Clear ShmGnsInfo_new h1)\<rparr>)"
    using announce_cases [OF h(2)] .
  have same: "m_MaxGnsNodeNum s = m_MaxGnsNodeNum s1" "m_ServerID s = m_ServerID ?s"
    using announced_sends [OF A] send_sync_req_sends [of "s3\<lparr>m_GnsInfoMap := snd (HL_Clear ShmGnsInfo_new h1)\<rparr>" P]
    by (auto simp: s sends_def s2)
  have rel: "hl_rel h M" using open_gns_rel [OF h(1) assms(4,5)] assms(6,7) by (simp add: same(1))
  have ix: "nat (m_MaxGnsNodeNum ?s) = nat (iIndexNodeNum (m_pstHead h))" using open_gns_shape [OF h(1)] by (simp add: s2)
  have "set xs = left_behind (m_ServerID s) M"
    using collect_left_behind [OF rel ix, of "m_ServerID s"] P by (auto simp: same(2))
  moreover have "s = send_sync_req P (s3\<lparr>m_GnsInfoMap := m_GnsInfoMap s\<rparr>)" using s by (simp add: send_sync_req_table)
  ultimately show ?thesis using A unfolding announced_def by blast
qed

section \<open>An example\<close>

text \<open>A server that was stopped while user 7 was logged in.\<close>

definition conn_conf_text :: string where
  "conn_conf_text = ''[CONN]'' @ [LF] @ ''ServerID=101'' @ [LF] @ ''Listen=h:5'' @ [LF] @ ''BusConfPath=b'' @ [LF] @
     ''GnsShmKey=1'' @ [LF] @ ''GnsShmSize=456'' @ [LF] @ ''NodeNum=3'' @ [LF]"

definition conn_net_text :: string where
  "conn_net_text = ''[BUS_GLOBAL]'' @ [LF] @ ''GCIMKey=1'' @ [LF] @ ''GCIMSize=64'' @ [LF] @
     ''[SERVER_101]'' @ [LF] @ ''QueueKey=2'' @ [LF] @ ''QueueSize=64'' @ [LF]"

definition conn_env :: conn_surroundings where
  "conn_env = \<lparr>env_file = (\<lambda>p. let t = (if p = ''b'' then conn_net_text else conn_conf_text) in (Some (int (length t)), True, Some t)),
     env_inet_addr = (\<lambda>_. 5), env_shm = (\<lambda>_ _. (ShmSuccess, True, replicate 16 0, True)),
     env_gns = (\<lambda>_ _. (ShmExist, True, Some (replicate 32 7, gns_example))), env_magic = replicate 32 7\<rparr>"

definition conn_conf_file :: inifile where
  "conn_conf_file = \<lparr>m_szBuffer = Some conn_conf_text, m_iSize = int (length conn_conf_text)\<rparr>"

definition conn_net_file :: inifile where
  "conn_net_file = \<lparr>m_szBuffer = Some conn_net_text, m_iSize = int (length conn_net_text)\<rparr>"

lemma conn_files: "open_ini conn_env ''c'' = Some conn_conf_file" "open_ini conn_env ''b'' = Some conn_net_file"
proof -
  have t: "ini_text conn_conf_text" "ini_text conn_net_text"
    by (simp_all add: ini_text_def conn_conf_text_def conn_net_text_def char_defs)
  show "open_ini conn_env ''c'' = Some conn_conf_file" "open_ini conn_env ''b'' = Some conn_net_file"
    using CIniFile_text [OF t(1)] CIniFile_text [OF t(2)]
    by (simp_all add: open_ini_def conn_env_def conn_conf_file_def conn_net_file_def)
qed

lemma conn_conf_values:
  "IsValid conn_conf_file" "GetInt conn_conf_file ''CONN'' ''ServerID'' 0 0 = Some (0, 101)"
  "GetString conn_conf_file ''CONN'' ''Listen'' [] 1024 = Some (0, ''h:5'')"
  "GetInt conn_conf_file ''CONN'' ''TimeOut'' 600 0 = Some (-401, 600)" "GetInt conn_conf_file ''CONN'' ''StateTime'' 0 0 = Some (-401, 0)"
  "GetString conn_conf_file ''CONN'' ''BusConfPath'' [] 256 = Some (0, ''b'')"
  "GetInt conn_conf_file ''CONN'' ''GnsShmKey'' 0 0 = Some (0, 1)" "GetInt conn_conf_file ''CONN'' ''GnsShmSize'' 0 0 = Some (0, 456)"
  "GetInt conn_conf_file ''CONN'' ''NodeNum'' 0 0 = Some (0, 3)"
  by code_simp+

lemma conn_log_values:
  "GetString conn_conf_file ''LOG'' ''ModuleName'' ''conn'' 256 = Some (-401, ''conn'')"
  "GetInt conn_conf_file ''LOG'' ''LogLocal'' 1 0 = Some (-401, 1)" "GetInt conn_conf_file ''LOG'' ''LogLevel'' 3 0 = Some (-401, 3)"
  "GetString conn_conf_file ''LOG'' ''LogPath'' ''./log'' 1024 = Some (-401, ''./log'')"
  by code_simp+

lemma conn_net_values:
  "IsValid conn_net_file" "GetInt conn_net_file ''BUS_GLOBAL'' ''GCIMKey'' 0 0 = Some (0, 1)"
  "GetInt conn_net_file ''BUS_GLOBAL'' ''GCIMSize'' 0 0 = Some (0, 64)"
  "GetInt conn_net_file (Format_d ''SERVER_'' 101) ''QueueKey'' 0 0 = Some (0, 2)"
  "GetInt conn_net_file (Format_d ''SERVER_'' 101) ''QueueSize'' 0 0 = Some (0, 64)"
  by code_simp+

lemma conn_addr_value: "parse_addrs conn_env (strtok_all (CHR '','') ''h:5'') = Some (Some [(5, 5)])"
  by code_simp

lemma conn_env_segments: "segments_ok conn_env"
  using new_segments_ok [of conn_env "replicate 16 0"] by (simp add: conn_env_def)

definition conn_started :: conn where
  "conn_started = Conn_new queue_empty queue_empty [] 0 gns_example (os_example [])"

lemma conn_open_gns_example: "\<exists>h. open_gns conn_env 1 456 3 = Some (0, Some h) \<and> hl_rel h [7 \<mapsto> gns7]"
proof -
  define h where "h = snd (HL_Init GNS_NODE_SIZE gns_example 200 3 3)"
  have i: "HL_Init GNS_NODE_SIZE gns_example 200 3 3 = (0, h)"
    by (simp add: h_def HL_Init_def CalcSize_def GNS_NODE_SIZE_def int32_def hl_codes)
  have "iIndexNodeNum (m_pstHead gns_example) = 3" using gns_example_rel(1,2) by (auto simp: hl_rel_def hl_inv_def)
  then have r: "hl_rel h [7 \<mapsto> gns7]" by (intro HL_Init_rel [OF i gns_example_rel(1)]) (simp_all add: gns_example_rel)
  then have v: "HL_Verify h = Some 0" using HL_Verify_inv by (auto simp: hl_rel_def)
  have "CalcSize GNS_NODE_SIZE 3 3 = 200" by (simp add: CalcSize_def GNS_NODE_SIZE_def int32_def)
  then have "open_gns conn_env 1 456 3 = Some (0, Some h)"
    by (simp add: open_gns_def conn_env_def i v GNS_MEM_HEAD_SIZE_def int32_def)
  with r show ?thesis by blast
qed

lemma announce_returns:
  assumes "hl_rel (m_GnsInfoMap s) M" "iIndexNodeNum (m_pstHead (m_GnsInfoMap s)) = m_MaxGnsNodeNum s"
    "GNS_MEM_HEAD_SIZE + 20 + 12 * m_MaxGnsNodeNum s + GNS_NODE_SIZE * m_MaxGnsNodeNum s \<le> sz"
  shows "\<exists>s'. announce P sz s = Some s' \<and> m_MaxGnsNodeNum s' = m_MaxGnsNodeNum s \<and> m_ServerID s' = m_ServerID s"
proof -
  obtain xs where P: "ProcessAll_upto (MemFullCallBackAll (m_ServerID s)) (nat (m_MaxGnsNodeNum s)) (m_GnsInfoMap s) [] = Some (m_GnsInfoMap s, xs)"
    using collect_left_behind [OF assms(1), of "nat (m_MaxGnsNodeNum s)" "m_ServerID s"] assms(2) by auto
  define s1 where "s1 = send_batches (send_disconnect P) s [] 0 xs"
  have s1: "sends s s1" unfolding s1_def by (rule announced_sends [OF announced_batches])
  let ?s = "s1\<lparr>m_GnsInfoMap := snd (HL_Clear ShmGnsInfo_new (m_GnsInfoMap s1))\<rparr>"
  have "m_MaxGnsNodeNum s1 = m_MaxGnsNodeNum s" "m_ServerID s1 = m_ServerID s" using s1 by (auto simp: sends_def)
  moreover from this have "announce P sz s = Some (send_sync_req P ?s)"
    using P assms(3) by (simp add: announce_def Let_def clear_gns_def s1_def [symmetric])
  ultimately show ?thesis using send_sync_req_sends [of ?s P] by (auto simp: sends_def)
qed

lemma conn_init_example:
  "\<exists>s. Conn_Init conn_env cpb_example ''c'' conn_started = Some (0, s) \<and> m_MaxGnsNodeNum s = 3 \<and> m_ServerID s = 101"
proof -
  let ?cf = "\<lparr>cf_Listen = ''h:5'', cf_BusConfPath = ''b'', cf_GnsShmKey = 1, cf_GnsShmSize = 456, cf_ModuleName = ''conn''\<rparr>"
  define s0 where "s0 = conn_started\<lparr>m_ServerID := 101, m_TimeOut := 600, m_StateTime := 0, m_MaxGnsNodeNum := 3\<rparr>"
  have c: "conn_read_conf conn_env ''c'' conn_started = Some (Some (?cf, s0))"
    by (simp add: conn_read_conf_def conn_files conn_conf_values conn_log_values conn_started_def Conn_new_def s0_def)
  have q: "read_queues conn_net_file s0 = Some ((1, 64), (2, 64))"
    by (simp add: read_queues_def conn_net_values s0_def)
  obtain qq where o: "open_queue conn_env k 64 = Some (0, Some qq)" for k
    by (auto simp: open_queue_def conn_env_def Queue_Init_def shm_codes Let_def)
  then obtain s1 where s1: "conn_open_queues conn_env (1, 64) (2, 64) s0 = Some (0, s1)"
      "s1 = s0\<lparr>m_RecvQueue := qq, m_SendQueue := qq\<rparr>" by (simp add: conn_open_queues_def)
  obtain w c where L: "conn_listen (s1\<lparr>c_os := os_call EvOther (c_os s1), c_EpollFD := 0\<rparr>) 0 [(5, 5)]
      = (0, s1\<lparr>c_EpollFD := 0, c_os := w, c_PosConnMap := c\<rparr>)"
    by (simp add: conn_listen_one_def ccall_eq conn_add_def Connx_new_def sys_time_def sys_int_def s1(2) s0_def conn_started_def Conn_new_def os_example_def os_call_def)
  define s2 where "s2 = s1\<lparr>c_EpollFD := 0, c_os := w, c_PosConnMap := c\<rparr>"
  have r0: "os_ret (c_os s1) (os_tick (c_os s1)) = 0"
    by (simp add: s1(2) s0_def conn_started_def Conn_new_def os_example_def)
  have n: "m_MaxGnsNodeNum s2 = 3" "m_ServerID s2 = 101" by (simp_all add: s2_def s1(2) s0_def)
  obtain h where h: "open_gns conn_env 1 456 3 = Some (0, Some h)" "hl_rel h [7 \<mapsto> gns7]" using conn_open_gns_example by blast
  obtain s3 where s3: "announce cpb_example 456 (s2\<lparr>m_GnsInfoMap := h\<rparr>) = Some s3" "m_MaxGnsNodeNum s3 = 3" "m_ServerID s3 = 101"
    using announce_returns [of "s2\<lparr>m_GnsInfoMap := h\<rparr>" _ 456 cpb_example] h open_gns_shape [OF h(1)]
    by (auto simp: n GNS_MEM_HEAD_SIZE_def GNS_NODE_SIZE_def)
  have "conn_tables conn_env cpb_example ?cf s2 = Some (0, s3)" by (simp add: conn_tables_def n h s3)
  then have "conn_start conn_env cpb_example ?cf [(5, 5)] s1 = Some (0, s3)"
    using L by (simp add: conn_start_def ccall_eq r0 s2_def)
  then show ?thesis
    using s3 c q s1(1) by (auto simp: Conn_Init_def conn_files conn_net_values conn_addr_value)
qed

theorem Conn_Init_establishes_witness:
  "\<exists>s. Conn_Init conn_env cpb_example ''c'' (Conn_new queue_empty queue_empty [] 0 gns_example (os_example [])) = Some (0, s)
     \<and> conn_consistent s \<and> (\<forall>rounds L. Conn_Run cpb_example s rounds = Some L \<longrightarrow> conn_wf (cl_conn L))"
proof -
  obtain s where s: "Conn_Init conn_env cpb_example ''c'' conn_started = Some (0, s)" using conn_init_example by blast
  from Conn_Init_establishes [OF conn_env_segments _ s [unfolded conn_started_def]] s show ?thesis by (simp add: conn_started_def)
qed

lemma Conn_Init_announces_witness:
  "\<exists>s xs s1 s2. Conn_Init conn_env cpb_example ''c'' (Conn_new queue_empty queue_empty [] 0 gns_example (os_example [])) = Some (0, s)
     \<and> set xs = {login_data gns7} \<and> sends s1 s2 \<and> s = send_sync_req cpb_example ((send_disconnect cpb_example s2 xs)\<lparr>m_GnsInfoMap := m_GnsInfoMap s\<rparr>)"
proof -
  obtain s where s: "Conn_Init conn_env cpb_example ''c'' conn_started = Some (0, s)" "m_MaxGnsNodeNum s = 3" "m_ServerID s = 101"
    using conn_init_example by blast
  have i: "iIndexNodeNum (m_pstHead gns_example) = 3" using gns_example_rel(1,2) by (auto simp: hl_rel_def hl_inv_def)
  have "left_behind 101 [7 \<mapsto> gns7] = {login_data gns7}"
    by (auto simp: left_behind_def gns7_def GNS_USER_STATUS_ACTIVE_def)
  moreover have "env_gns conn_env key sz = (ShmExist, True, Some (env_magic conn_env, gns_example))" for key sz by (simp add: conn_env_def)
  ultimately obtain xs s1 s2 where "set xs = {login_data gns7}" "s = send_sync_req cpb_example (s2\<lparr>m_GnsInfoMap := m_GnsInfoMap s\<rparr>)"
    "if xs = [] then s2 = s1 else \<exists>s0. sends s1 s0 \<and> s2 = send_disconnect cpb_example s0 xs"
    using Conn_Init_announces [OF conn_env_segments _ s(1) [unfolded conn_started_def], of gns_example "[7 \<mapsto> gns7]"]
      gns_example_rel i s by auto
  then show ?thesis using s(1) [unfolded conn_started_def] by (cases "xs = []") auto
qed

end
