(* ===== verification/Mysql.thy ===== *)
theory Mysql
  imports Setup HashList
begin

text \<open>
  The wrapper \<open>CMySQL\<close> of the database client (\<^verbatim>\<open>mmlib/mysql/mysql_wrap.cpp\<close>) with the methods the servers call, and
  the SQL text they build with \<open>snprintf\<close>. The client library itself is a parameter: the functions of its
  interface, on the state \<open>'w\<close> of the databases and the open handles; handles are numbered.
\<close>

section \<open>The client library\<close>

text \<open>A row is a list of fields, \<open>None\<close> for the SQL \<open>NULL\<close>.\<close>

type_synonym sqlrow = "string option list"

record dbaccess =
  sHost :: string
  sUser :: string
  sPasswd :: string
  sDB :: string
  nPort :: u32

record 'w mysql_api =
  mysql_init :: "nat \<Rightarrow> 'w \<Rightarrow> bool \<times> 'w"
  mysql_real_connect :: "nat \<Rightarrow> dbaccess \<Rightarrow> 'w \<Rightarrow> bool \<times> 'w"
  mysql_close :: "nat \<Rightarrow> 'w \<Rightarrow> 'w"
  mysql_ping :: "nat \<Rightarrow> 'w \<Rightarrow> int \<times> 'w"
  mysql_real_query :: "nat \<Rightarrow> string \<Rightarrow> 'w \<Rightarrow> int \<times> 'w"
  mysql_store_result :: "nat \<Rightarrow> 'w \<Rightarrow> sqlrow list option \<times> 'w"
  mysql_real_escape_string :: "nat \<Rightarrow> string \<Rightarrow> 'w \<Rightarrow> string"

section \<open>The wrapper\<close>

text \<open>
  \<open>m_pRes\<close>: the constructor leaves it uninitialised; a result has the rows still to fetch and the row fetched
  last. \<open>m_MySQLInfo\<close> keeps the access data for a reconnection in arrays of 100 bytes.
\<close>

datatype mysql_res = ResUninit | ResNull | Res "sqlrow list" "sqlrow option"

record mysql =
  m_nAutoCommit :: int
  m_bInit :: bool
  m_pRes :: mysql_res
  m_MySQLInfo :: dbaccess

definition CMySQL :: mysql where
  "CMySQL = \<lparr>m_nAutoCommit = 1, m_bInit = False, m_pRes = ResUninit,
     m_MySQLInfo = \<lparr>sHost = [], sUser = [], sPasswd = [], sDB = [], nPort = 0\<rparr>\<rparr>"

definition MySQL_Connect :: "'w mysql_api \<Rightarrow> nat \<Rightarrow> dbaccess \<Rightarrow> mysql \<Rightarrow> 'w \<Rightarrow> int \<times> mysql \<times> 'w" where
  "MySQL_Connect A i acc m w =
     (let (ok, w) = mysql_init A i w
      in if \<not> ok then (-1, m, w)
         else let m = m\<lparr>m_bInit := True\<rparr>; (ok, w) = mysql_real_connect A i acc w
         in if \<not> ok then (-2, m, mysql_close A i w)
         else (0, m\<lparr>m_MySQLInfo := \<lparr>sHost = take 100 (sHost acc), sUser = take 100 (sUser acc),
                 sPasswd = take 100 (sPasswd acc), sDB = take 100 (sDB acc), nPort = nPort acc\<rparr>\<rparr>, w))"

definition MySQL_Disconnect :: "'w mysql_api \<Rightarrow> nat \<Rightarrow> mysql \<Rightarrow> 'w \<Rightarrow> 'w" where
  "MySQL_Disconnect A i m w = (if m_bInit m then mysql_close A i w else w)"

text \<open>
  The part both \<open>Query\<close> methods start with: a ping, and a new connection when it fails. A stored value that fills
  its array has no terminating zero, so it cannot be passed on (\<open>None\<close>).
\<close>

definition terminated :: "dbaccess \<Rightarrow> bool" where
  "terminated acc \<longleftrightarrow> length (sHost acc) < 100 \<and> length (sUser acc) < 100 \<and> length (sPasswd acc) < 100 \<and> length (sDB acc) < 100"

definition ensure_valid :: "'w mysql_api \<Rightarrow> nat \<Rightarrow> mysql \<Rightarrow> 'w \<Rightarrow> (bool \<times> mysql \<times> 'w) option" where
  "ensure_valid A i m w =
     (let (r, w) = mysql_ping A i w
      in if r = 0 then Some (True, m, w)
         else if \<not> terminated (m_MySQLInfo m) then None
         else let (r, m, w) = MySQL_Connect A i (m_MySQLInfo m) m w in Some (r = 0, m, w))"

text \<open>
  \<open>mysql_real_query\<close> reads as many characters as it is told from where the statement starts; a length beyond the array that holds the
  statement is a read outside of it (\<open>None\<close>).
\<close>

definition read_sql :: "string \<Rightarrow> nat \<Rightarrow> string option" where
  "read_sql sSQL nSQLLen = (if nSQLLen \<le> length sSQL then Some (take nSQLLen sSQL) else None)"

definition run_sql :: "'w mysql_api \<Rightarrow> nat \<Rightarrow> string \<times> nat \<Rightarrow> mysql \<Rightarrow> 'w \<Rightarrow> (int \<times> 'w) option" where
  "run_sql A i sql m w = do {
     txt \<leftarrow> read_sql (fst sql) (snd sql);
     let (r, w) = mysql_real_query A i txt w;
     Some (if r \<noteq> 0 then (-1, w)
           else if m_nAutoCommit m = 0
           then let (r, w) = mysql_real_query A i ''commit'' w in if r \<noteq> 0 then (-2, w) else (0, w)
           else (0, w))
   }"

text \<open>The two arguments of both methods, the array with the statement and the length, are a pair.\<close>

definition MySQL_Query :: "'w mysql_api \<Rightarrow> nat \<Rightarrow> string \<times> nat \<Rightarrow> mysql \<Rightarrow> 'w \<Rightarrow> (int \<times> mysql \<times> 'w) option" where
  "MySQL_Query A i sql m w = do {
     (ok, m, w) \<leftarrow> ensure_valid A i m w;
     if \<not> ok then Some (-3, m, w) else do { (r, w) \<leftarrow> run_sql A i sql m w; Some (r, m, w) }
   }"

text \<open>The overload for queries with a result; \<open>nCount\<close> keeps its value on an error.\<close>

definition MySQL_Select :: "'w mysql_api \<Rightarrow> nat \<Rightarrow> string \<times> nat \<Rightarrow> int \<Rightarrow> mysql \<Rightarrow> 'w \<Rightarrow> (int \<times> int \<times> mysql \<times> 'w) option" where
  "MySQL_Select A i sql nCount m w = do {
     (ok, m, w) \<leftarrow> ensure_valid A i m w;
     if \<not> ok then Some (-3, nCount, m, w)
     else do {
       (r, w) \<leftarrow> run_sql A i sql m w;
       if r \<noteq> 0 then Some (r, nCount, m, w)
       else let (res, w) = mysql_store_result A i w
            in case res of
                 None \<Rightarrow> Some (-3, nCount, m\<lparr>m_pRes := ResNull\<rparr>, w)
               | Some rows \<Rightarrow> Some (0, int32 (int (length rows)), m\<lparr>m_pRes := Res rows None\<rparr>, w)
     }
   }"

definition MySQL_FetchRecord :: "mysql \<Rightarrow> (sqlrow option \<times> mysql) option" where
  "MySQL_FetchRecord m =
     (case m_pRes m of
        ResUninit \<Rightarrow> None
      | ResNull \<Rightarrow> Some (None, m)
      | Res [] _ \<Rightarrow> Some (None, m\<lparr>m_pRes := Res [] None\<rparr>)
      | Res (row # rows) _ \<Rightarrow> Some (Some row, m\<lparr>m_pRes := Res rows (Some row)\<rparr>))"

text \<open>The lengths of the fields of the row fetched last.\<close>

definition field_len :: "string option \<Rightarrow> nat" where
  "field_len f = (case f of None \<Rightarrow> 0 | Some s \<Rightarrow> length s)"

definition MySQL_FetchLength :: "mysql \<Rightarrow> nat list option option" where
  "MySQL_FetchLength m =
     (case m_pRes m of
        ResUninit \<Rightarrow> None
      | ResNull \<Rightarrow> Some None
      | Res _ cur \<Rightarrow> Some (map_option (map field_len) cur))"

definition MySQL_ReleaseRes :: "mysql \<Rightarrow> mysql option" where
  "MySQL_ReleaseRes m = (case m_pRes m of ResUninit \<Rightarrow> None | _ \<Rightarrow> Some (m\<lparr>m_pRes := ResNull\<rparr>))"

definition MySQL_EscapeString :: "'w mysql_api \<Rightarrow> nat \<Rightarrow> string \<Rightarrow> 'w \<Rightarrow> string" where
  "MySQL_EscapeString A i sFrom w = mysql_real_escape_string A i sFrom w"

text \<open>
  The value the servers read: \<open>CurRow[0]\<close> with \<open>pCurRowLen[0]\<close>. The outer \<open>None\<close> is a row that is not there or has no
  field; the inner one the code's error case, a \<open>NULL\<close> or empty value.
\<close>

definition first_field :: "mysql \<Rightarrow> (string option \<times> mysql) option" where
  "first_field m = do {
     (CurRow, m) \<leftarrow> MySQL_FetchRecord m;
     pCurRowLen \<leftarrow> MySQL_FetchLength m;
     case (CurRow, pCurRowLen) of
       (Some (f # _), Some (n # _)) \<Rightarrow> Some (if f = None \<or> n = 0 then None else f, m)
     | _ \<Rightarrow> None
   }"

section \<open>Text of statements\<close>

definition c_str :: "string \<Rightarrow> string" where
  "c_str s = takeWhile (\<lambda>c. c \<noteq> NUL) s"

text \<open>
  \<open>char SqlStr[n] = {0}; int SqlLen = snprintf(SqlStr, sizeof(SqlStr), ...)\<close>, as they are passed to \<open>Query\<close>: the array holds at most
  \<open>n - 1\<close> characters of the text and zeros behind them, but the length \<open>snprintf\<close> returns is that of the whole text.
\<close>

definition sql_arg :: "nat \<Rightarrow> string \<Rightarrow> string \<times> nat" where
  "sql_arg n txt = (take (n - 1) txt @ replicate (n - length (take (n - 1) txt)) NUL, length txt)"

text \<open>A \<open>std::string\<close> and its length.\<close>

definition sql_str :: "string \<Rightarrow> string \<times> nat" where
  "sql_str txt = (txt, length txt)"

text \<open>\<open>snprintf(dst, n, "%s", s.c_str())\<close>: what the array holds as a C string.\<close>

definition print_s :: "nat \<Rightarrow> string \<Rightarrow> string" where
  "print_s n s = take (n - 1) (c_str s)"

section \<open>Databases of the servers\<close>

text \<open>\<open>DBConfig\<close> with the access data grouped; users are spread over two databases of two tables each.\<close>

record DBConfig =
  db_Access :: dbaccess
  TableName :: string

definition DBConfig_new :: DBConfig where
  "DBConfig_new = \<lparr>db_Access = \<lparr>sHost = [], sUser = [], sPasswd = [], sDB = [], nPort = 0\<rparr>, TableName = []\<rparr>"

definition GetUserDBIndex :: "u64 \<Rightarrow> nat" where
  "GetUserDBIndex UserID = unat (UserID mod 2)"

definition GetUserTableIndex :: "u64 \<Rightarrow> nat" where
  "GetUserTableIndex UserID = unat ((UserID div 10) mod 2)"

text \<open>The section \<open>DB_i\<close> of the database file, and the connection to a database.\<close>

definition read_db :: "inifile \<Rightarrow> nat \<Rightarrow> DBConfig \<Rightarrow> DBConfig option" where
  "read_db DBFile i cfg = do {
     let str = Format_d ''DB_'' (of_nat i);
     (_, Host) \<leftarrow> GetString DBFile str ''Host'' [] 32;
     (_, Port) \<leftarrow> GetInt DBFile str ''Port'' 0 (sint (nPort (db_Access cfg)));
     (_, User) \<leftarrow> GetString DBFile str ''User'' [] 256;
     (_, Pass) \<leftarrow> GetString DBFile str ''Pass'' [] 256;
     (_, DB) \<leftarrow> GetString DBFile str ''DB'' [] 256;
     (_, Table) \<leftarrow> GetString DBFile str ''Table'' [] 256;
     Some \<lparr>db_Access = \<lparr>sHost = Host, sUser = User, sPasswd = Pass, sDB = DB, nPort = word_of_int Port\<rparr>, TableName = Table\<rparr>
   }"

definition read_dbs :: "inifile \<Rightarrow> DBConfig list \<Rightarrow> DBConfig list option" where
  "read_dbs DBFile cfgs = do {
     c0 \<leftarrow> read_db DBFile 0 (cfgs ! 0);
     c1 \<leftarrow> read_db DBFile 1 (cfgs ! 1);
     Some [c0, c1]
   }"

text \<open>The connections are opened one after the other; the first failure ends the loop.\<close>

definition connect_dbs :: "'w mysql_api \<Rightarrow> DBConfig list \<Rightarrow> mysql list \<Rightarrow> 'w \<Rightarrow> int \<times> mysql list \<times> 'w" where
  "connect_dbs A cfgs ms w =
     (let (r, m0, w) = MySQL_Connect A 0 (db_Access (cfgs ! 0)) (ms ! 0) w
      in if r \<noteq> 0 then (-1, [m0, ms ! 1], w)
         else let (r, m1, w) = MySQL_Connect A 1 (db_Access (cfgs ! 1)) (ms ! 1) w
              in (if r \<noteq> 0 then -1 else 0, [m0, m1], w))"

section \<open>Lemmas\<close>

lemma shard_bounds [simp]: "GetUserDBIndex u < 2" "GetUserTableIndex u < 2"
  by (simp_all add: GetUserDBIndex_def GetUserTableIndex_def unat_mod)

lemma first_field_Res:
  "m_pRes m = Res ((f # fs) # rows) c \<Longrightarrow>
   first_field m = Some (if field_len f = 0 then None else f, m\<lparr>m_pRes := Res rows (Some (f # fs))\<rparr>)"
  by (cases f) (auto simp: first_field_def MySQL_FetchRecord_def MySQL_FetchLength_def field_len_def)

lemma print_s_length: "0 < n \<Longrightarrow> length (print_s n s) < n"
  by (auto simp: print_s_def)

lemma c_str_id: "NUL \<notin> set s \<Longrightarrow> c_str s = s"
  unfolding c_str_def by (subst takeWhile_eq_all_conv) auto

lemma print_s_fits: "length s < n \<Longrightarrow> NUL \<notin> set s \<Longrightarrow> print_s n s = s"
  by (simp add: print_s_def c_str_id)

text \<open>What is read of a statement: the text when it fits, and beyond the array when it has more characters than that.\<close>

definition sql_text :: "string \<times> nat \<Rightarrow> string option" where
  "sql_text sql = read_sql (fst sql) (snd sql)"

lemma sql_arg_fits: "length txt < n \<Longrightarrow> sql_text (sql_arg n txt) = Some txt"
  by (simp add: sql_text_def sql_arg_def read_sql_def)

lemma sql_str_text [simp]: "sql_text (sql_str txt) = Some txt"
  by (simp add: sql_text_def sql_str_def read_sql_def)

lemma sql_arg_overread: "0 < n \<Longrightarrow> sql_text (sql_arg n txt) = None \<longleftrightarrow> n < length txt"
  by (auto simp: sql_text_def sql_arg_def read_sql_def)

lemma run_sql_None: "run_sql A i sql m w = None \<longleftrightarrow> sql_text sql = None"
  by (simp add: run_sql_def sql_text_def bind_eq_None_conv case_prod_unfold Let_def)

lemma run_sql_Some:
  "sql_text sql = Some txt \<Longrightarrow> run_sql A i sql m w =
     (let (r, w) = mysql_real_query A i txt w
      in Some (if r \<noteq> 0 then (-1, w)
               else if m_nAutoCommit m = 0
               then let (r, w) = mysql_real_query A i ''commit'' w in if r \<noteq> 0 then (-2, w) else (0, w)
               else (0, w)))"
  by (simp add: run_sql_def sql_text_def)

text \<open>What the configuration leaves in the arrays is terminated.\<close>

definition cfg_ok :: "DBConfig \<Rightarrow> bool" where
  "cfg_ok c \<longleftrightarrow> length (sDB (db_Access c)) < 256 \<and> length (TableName c) < 256"

definition cfgs_ok :: "DBConfig list \<Rightarrow> bool" where
  "cfgs_ok cs \<longleftrightarrow> length cs = 2 \<and> (\<forall>c\<in>set cs. cfg_ok c)"

lemma cfgs_okD: "cfgs_ok cs \<Longrightarrow> length (sDB (db_Access (cs ! GetUserDBIndex u))) < 256 \<and> length (TableName (cs ! GetUserDBIndex u)) < 256"
  by (simp add: cfgs_ok_def cfg_ok_def)

lemma read_db_cfg_ok:
  assumes "read_db f i cfg = Some c"
  shows "cfg_ok c"
proof -
  obtain r1 db r2 tab where G: "GetString f (Format_d ''DB_'' (of_nat i)) ''DB'' [] 256 = Some (r1, db)"
    "GetString f (Format_d ''DB_'' (of_nat i)) ''Table'' [] 256 = Some (r2, tab)" "sDB (db_Access c) = db" "TableName c = tab"
    using assms unfolding read_db_def Let_def by (clarsimp simp: Option.bind_eq_Some_conv)
  have "Format_d ''DB_'' (of_nat i) \<noteq> []" by (simp add: Format_d_def)
  from GetString_ends [OF this, of "''DB''" "[]" 256 f] GetString_ends [OF this, of "''Table''" "[]" 256 f] G
  show ?thesis by (auto simp: cfg_ok_def)
qed

lemma read_dbs_ok: "read_dbs f cfgs = Some cs \<Longrightarrow> cfgs_ok cs"
  by (auto simp: read_dbs_def cfgs_ok_def read_db_cfg_ok split: Option.bind_splits)

end
