(* ===== verification/Server.thy ===== *)
theory Server
  imports Conn Setup
begin

text \<open>
  What the authentication server (\<^verbatim>\<open>auth/auth_proc.cpp\<close>) and the user server (\<^verbatim>\<open>user/user_proc.cpp\<close>) have in common: both take
  packets from their queue on the bus and put their answers in the queue to the bus, and both report to the bus that they
  are there. The two classes have these methods in the same words; here they are operations on the common part of the
  two states, and the two theories give them the names of the classes.
\<close>

section \<open>State\<close>

record server =
  sv_ServerID :: u32
  sv_StateTime :: int
  sv_SendQueue :: shmqueue
  sv_RecvQueue :: shmqueue
  sv_os :: os

definition scall :: "event \<Rightarrow> 'a server_scheme \<Rightarrow> int \<times> 'a server_scheme" where
  "scall ev s = (let (r, w) = sys_int ev (sv_os s) in (r, s\<lparr>sv_os := w\<rparr>))"

definition GetServerID :: "'a server_scheme \<Rightarrow> int" where
  "GetServerID s = sint (sv_ServerID s)"

section \<open>Sending\<close>

definition sv_queue :: "'a server_scheme \<Rightarrow> byte list \<Rightarrow> u32 \<Rightarrow> int \<times> 'a server_scheme" where
  "sv_queue s buf PkgLen =
     (let (lockret, s) = scall EvOther s; (r, q) = InQueue (sv_SendQueue s) buf PkgLen True lockret;
          s = s\<lparr>sv_SendQueue := q\<rparr>
      in if r = E_SHM_QUEUE_FULL then (-1, s) else if r \<noteq> 0 then (-1, s) else (0, s))"

definition sv_header :: "'a server_scheme \<Rightarrow> nat \<Rightarrow> u32 \<Rightarrow> u32 \<Rightarrow> byte \<Rightarrow> byte \<Rightarrow> BusHeader" where
  "sv_header s n CmdID DstID SendType Flag = BusHeader_new
     \<lparr>bh_PkgLen := of_nat n, bh_CmdID := CmdID, bh_SrcID := word_of_int (GetServerID s),
      bh_DstID := DstID, bh_SendType := SendType, bh_Flag := Flag\<rparr>"

definition sv_Send2Server :: "'a server_scheme \<Rightarrow> XYHeaderIn \<Rightarrow> u32 \<Rightarrow> byte \<Rightarrow> byte \<Rightarrow> byte list \<Rightarrow> int \<times> 'a server_scheme" where
  "sv_Send2Server s Header DstID SendType Flag body =
     (let HeaderLen = BusHeader_GetHeaderLen + XYHeaderIn_GetHeaderLen; PkgLen = HeaderLen + length body;
          buf = replicate HeaderLen 0 @ body;
          buf = fst (BusHeader_Write (sv_header s PkgLen Cmd_Transfer DstID SendType Flag) buf 0);
          buf = fst (XYHeaderIn_Write Header buf BusHeader_GetHeaderLen)
      in if length body > XY_PKG_MAX_LEN - HeaderLen then (-1, s)
         else sv_queue s buf (of_nat PkgLen))"

text \<open>\<open>ser\<close> serialises the message \<open>StateChangeMsg\<close>: the server and its state.\<close>

definition sv_SendStateMessage :: "(int \<Rightarrow> int \<Rightarrow> byte list) \<Rightarrow> 'a server_scheme \<Rightarrow> int \<times> 'a server_scheme" where
  "sv_SendStateMessage ser s =
     (let HeaderLen = BusHeader_GetHeaderLen; body = ser (GetServerID s) BUS_SVR_ONLINE; PkgLen = HeaderLen + length body;
          CurBusHeader = sv_header s PkgLen Cmd_StateChange 0 TO_SRV 0
      in if length body > XY_PKG_MAX_LEN - HeaderLen then (-1, s)
         else sv_queue s (fst (BusHeader_Write CurBusHeader (replicate HeaderLen 0 @ body) 0)) (of_nat PkgLen))"

text \<open>The header of an answer to the packet with header \<open>HeaderIn\<close>: same request, connection and user.\<close>

definition reply_header :: "'a server_scheme \<Rightarrow> XYHeaderIn \<Rightarrow> u32 \<Rightarrow> u32 \<Rightarrow> int \<Rightarrow> XYHeaderIn" where
  "reply_header s HeaderIn SrcID CmdID t = XYHeaderIn_new
     \<lparr>hi_SrcID := SrcID, hi_CmdID := CmdID, hi_SN := hi_SN HeaderIn, hi_ConnPos := hi_ConnPos HeaderIn,
      hi_UserID := hi_UserID HeaderIn, hi_PkgTime := word_of_int t, hi_Ret := 0\<rparr>"

text \<open>The answers: \<open>time(NULL)\<close>, the header, \<open>Send2Server\<close> to the sender.\<close>

definition sv_reply :: "'a server_scheme \<Rightarrow> XYHeaderIn \<Rightarrow> u32 \<Rightarrow> byte list \<Rightarrow> int \<times> 'a server_scheme" where
  "sv_reply s HeaderIn CmdID body =
     (let (t, s) = scall EvOther s
      in sv_Send2Server s (reply_header s HeaderIn (word_of_int (GetServerID s)) CmdID t) (hi_SrcID HeaderIn) TO_SRV 0 body)"

section \<open>Receiving\<close>

text \<open>\<open>OutQueue\<close> on the own queue: the result, and the buffer after it.\<close>

definition sv_receive :: "'a server_scheme \<Rightarrow> byte list \<Rightarrow> int \<times> byte list \<times> int \<times> 'a server_scheme" where
  "sv_receive s buf =
     (let (lockret, s) = scall EvOther s;
          (Ret, buf, RecvLen, q) = OutQueue_int (sv_RecvQueue s) buf (int XY_PKG_MAX_LEN) True lockret
      in (Ret, buf, RecvLen, s\<lparr>sv_RecvQueue := q\<rparr>))"

text \<open>The report to the bus, when it is due.\<close>

definition sv_report :: "(int \<Rightarrow> int \<Rightarrow> byte list) \<Rightarrow> int \<Rightarrow> 'a server_scheme \<Rightarrow> int \<times> 'a server_scheme" where
  "sv_report ser LastTime s =
     (let (NowTime, s) = scall EvOther s
      in if NowTime - LastTime \<ge> sv_StateTime s then (NowTime, snd (sv_SendStateMessage ser s)) else (LastTime, s))"

section \<open>The queues of a server\<close>

text \<open>The keys and sizes of the queue to the bus and of the own queue.\<close>

definition sv_read_queues :: "inifile \<Rightarrow> 'a server_scheme \<Rightarrow> ((int \<times> int) \<times> (int \<times> int)) option" where
  "sv_read_queues BusFile s = do {
     let strServer = Format_d ''SERVER_'' (sv_ServerID s);
     (_, skey) \<leftarrow> GetInt BusFile ''BUS_GLOBAL'' ''GCIMKey'' 0 0;
     (_, ssz) \<leftarrow> GetInt BusFile ''BUS_GLOBAL'' ''GCIMSize'' 0 0;
     (_, rkey) \<leftarrow> GetInt BusFile strServer ''QueueKey'' 0 0;
     (_, rsz) \<leftarrow> GetInt BusFile strServer ''QueueSize'' 0 0;
     Some ((skey, ssz), (rkey, rsz))
   }"

text \<open>One queue: an error when its key or size is 0 or \<open>CShmQueue::Init\<close> fails.\<close>

definition need_queue :: "'b surroundings_scheme \<Rightarrow> int \<times> int \<Rightarrow> shmqueue option option" where
  "need_queue E kz =
     (if fst kz = 0 \<or> snd kz = 0 then Some None
      else do {
        (r, q) \<leftarrow> open_queue E (fst kz) (snd kz);
        Some (if r \<noteq> 0 then None else q)
      })"

section \<open>Lemmas\<close>

lemma scall_eq: "scall ev s = (os_ret (sv_os s) (os_tick (sv_os s)), s\<lparr>sv_os := os_call ev (sv_os s)\<rparr>)"
  by (simp add: scall_def sys_int_def)

text \<open>Sending and receiving change only the queues and the operating system.\<close>

definition sv_sends :: "'a server_scheme \<Rightarrow> 'a server_scheme \<Rightarrow> bool" where
  "sv_sends s s' \<longleftrightarrow> (\<exists>q w. s' = s\<lparr>sv_SendQueue := q, sv_os := w\<rparr>)"

lemma sv_sendsI: "s' = s\<lparr>sv_SendQueue := q, sv_os := w\<rparr> \<Longrightarrow> sv_sends s s'"
  unfolding sv_sends_def by blast

lemma sv_sends_refl [simp, intro]: "sv_sends s s"
  unfolding sv_sends_def by (intro exI [of _ "sv_SendQueue s"] exI [of _ "sv_os s"]) simp

lemma sv_sends_os [simp]: "sv_sends s (s\<lparr>sv_os := w\<rparr>)"
  unfolding sv_sends_def by (intro exI [of _ "sv_SendQueue s"] exI [of _ w]) simp

lemma sv_sends_trans: "sv_sends s s' \<Longrightarrow> sv_sends s' s'' \<Longrightarrow> sv_sends s s''"
  by (clarsimp simp: sv_sends_def) (metis sv_sendsI sv_sends_def)

lemma sv_sends_fields:
  "sv_sends s s' \<Longrightarrow> sv_ServerID s' = sv_ServerID s \<and> sv_StateTime s' = sv_StateTime s \<and> sv_RecvQueue s' = sv_RecvQueue s
     \<and> server.more s' = server.more s"
  by (auto simp: sv_sends_def)

lemma sv_queue_sends [simp]: "sv_sends s (snd (sv_queue s buf n))"
proof -
  have "sv_sends s (s\<lparr>sv_os := w, sv_SendQueue := q\<rparr>)" for w q by (rule sv_sendsI [where q = q and w = w]) simp
  then show ?thesis by (simp add: sv_queue_def scall_eq Let_def case_prod_unfold)
qed

lemma sv_Send2Server_sends [simp]: "sv_sends s (snd (sv_Send2Server s h d t f body))"
  by (simp add: sv_Send2Server_def Let_def)

lemma sv_SendStateMessage_sends [simp]: "sv_sends s (snd (sv_SendStateMessage ser s))"
  by (simp add: sv_SendStateMessage_def Let_def)

lemma sv_reply_sends [simp]: "sv_sends s (snd (sv_reply s H c body))"
proof -
  have "sv_sends s (s\<lparr>sv_os := os_call EvOther (sv_os s)\<rparr>)" by simp
  from sv_sends_trans [OF this sv_Send2Server_sends] show ?thesis by (simp add: sv_reply_def scall_eq)
qed

lemma sv_report_sends [simp]: "sv_sends s (snd (sv_report ser t s))"
proof -
  have "sv_sends s (s\<lparr>sv_os := os_call EvOther (sv_os s)\<rparr>)" by simp
  from sv_sends_trans [OF this sv_SendStateMessage_sends] this show ?thesis by (simp add: sv_report_def scall_eq)
qed

text \<open>The packet \<open>Send2Server\<close> builds, and that it is queued whole or not at all.\<close>

definition sv_packet :: "'a server_scheme \<Rightarrow> u32 \<Rightarrow> XYHeaderIn \<Rightarrow> byte list \<Rightarrow> byte list" where
  "sv_packet s d H body = BusHeader_bytes (sv_header s (60 + length body) Cmd_Transfer d TO_SRV 0) @ XYHeaderIn_bytes H @ body"

lemmas sv_lens = BusHeader_GetHeaderLen_def XYHeaderIn_GetHeaderLen_def

definition queue_room :: "shmqueue \<Rightarrow> byte list list \<Rightarrow> byte list \<Rightarrow> bool" where
  "queue_room q ms m \<longleftrightarrow> queue_bytes ms + length m + 4 < length (qdata q)"

text \<open>The answer of the operating system to the call after the next \<open>k\<close>.\<close>

definition answer :: "'a server_scheme \<Rightarrow> nat \<Rightarrow> int" where
  "answer s k = os_ret (sv_os s) (os_tick (sv_os s) + k)"

lemma scall_answer: "scall ev s = (answer s 0, s\<lparr>sv_os := os_call ev (sv_os s)\<rparr>)"
  by (simp add: scall_eq answer_def)

lemma answer_call [simp]: "answer (s\<lparr>sv_os := os_call ev (sv_os s)\<rparr>) k = answer s (Suc k)"
  by (simp add: answer_def os_call_def)

text \<open>A message goes to the end of a queue that can be locked and has room, and is given out whole.\<close>

lemma queue_put:
  assumes "sq_rel q ms" "buf \<noteq> []" "length buf < 2 ^ 32 - 4"
  shows "\<exists>q'. InQueue q buf (of_nat (length buf)) True l
      = (if l \<noteq> 0 then E_SHM_QUEUE_INLOCK else if queue_room q ms buf then SHM_SUCCESS else E_SHM_QUEUE_FULL, q')
    \<and> sq_rel q' (if l = 0 \<and> queue_room q ms buf then ms @ [buf] else ms)"
proof -
  have n: "unat (of_nat (length buf) :: u32) = length buf" using assms(3) by (simp add: unat_u32_of_nat)
  show ?thesis
  proof (cases "l = 0")
    case True
    with InQueue_cases [OF assms(1), of "of_nat (length buf)" buf True l] assms n
    have I: "InQueue q buf (of_nat (length buf)) True l = (if queue_room q ms buf
      then (SHM_SUCCESS, AddTail (CopyDataInQueue q buf (of_nat (length buf)) (uiTail q)) (of_nat (length buf) + 4)) else (E_SHM_QUEUE_FULL, q))"
      by (simp add: queue_room_def)
    show ?thesis
      using InQueue_result [OF assms(1), of buf "of_nat (length buf)" True l] n assms True
      unfolding I by (auto simp: shm_codes)
  next
    case False
    then show ?thesis using assms(1) by (simp add: InQueue_def)
  qed
qed

lemma queue_get:
  assumes "sq_rel q (m # ms)" "length m \<le> XY_PKG_MAX_LEN"
  shows "\<exists>q'. OutQueue_int q buf (int XY_PKG_MAX_LEN) True 0 = (0, memcpy_to buf 0 m, int (length m), q') \<and> sq_rel q' ms"
proof -
  have n: "unat (of_nat (length m) :: u32) = length m" "sint (of_nat (length m) :: u32) = int (length m)"
    using assms(2) by (simp_all add: XY_PKG_MAX_LEN_def unat_u32_of_nat signed_of_nat signed_take_bit_int_eq_self)
  have d: "unat (word_of_int (int XY_PKG_MAX_LEN) :: u32) = XY_PKG_MAX_LEN" by (simp add: XY_PKG_MAX_LEN_def)
  show ?thesis
    using OutQueue_Cons [OF assms(1), of True 0 buf "word_of_int (int XY_PKG_MAX_LEN)"] sq_rel_AddHead [OF assms(1)] assms(2)
    by (simp add: OutQueue_int_def d n shm_codes) (simp add: XY_PKG_MAX_LEN_def)
qed

lemma sv_queue_result:
  assumes "sq_rel (sv_SendQueue s) ms" "buf \<noteq> []" "length buf \<le> XY_PKG_MAX_LEN" "sv_queue s buf (of_nat (length buf)) = (r, s')"
  shows "sq_rel (sv_SendQueue s') (if answer s 0 = 0 \<and> queue_room (sv_SendQueue s) ms buf then ms @ [buf] else ms)"
proof -
  have "length buf < 2 ^ 32 - 4" using assms(3) by (simp add: XY_PKG_MAX_LEN_def)
  from queue_put [OF assms(1,2) this, of "answer s 0"] assms(4) show ?thesis
    by (auto simp: sv_queue_def scall_answer Let_def split: if_splits)
qed

lemma sv_Send2Server_eq:
  "sv_Send2Server s H d TO_SRV 0 body =
     (if length body > XY_PKG_MAX_LEN - 60 then (-1, s)
      else sv_queue s (sv_packet s d H body) (of_nat (length (sv_packet s d H body))))"
proof -
  have "fst (XYHeaderIn_Write H (fst (BusHeader_Write (sv_header s (60 + length body) Cmd_Transfer d TO_SRV 0) (replicate 60 0 @ body) 0)) 26)
      = sv_packet s d H body"
    by (simp add: BusHeader_Write_eq XYHeaderIn_Write_eq memcpy_to_def sv_packet_def)
  then show ?thesis by (simp add: sv_Send2Server_def sv_lens Let_def sv_packet_def)
qed

text \<open>
  \<open>sv_sent s k d H body ms s'\<close>: from \<open>s\<close> to \<open>s'\<close>, with \<open>k\<close> system calls before the one that locks the queue, the packet was added to the
  messages \<open>ms\<close> of the queue to the bus, or was dropped because the queue could not be locked or has no room.
\<close>

definition sv_sent :: "'a server_scheme \<Rightarrow> nat \<Rightarrow> u32 \<Rightarrow> XYHeaderIn \<Rightarrow> byte list \<Rightarrow> byte list list \<Rightarrow> 'a server_scheme \<Rightarrow> bool" where
  "sv_sent s k d H body ms s' \<longleftrightarrow> sq_rel (sv_SendQueue s')
     (if answer s k = 0 \<and> length body \<le> XY_PKG_MAX_LEN - 60 \<and> queue_room (sv_SendQueue s) ms (sv_packet s d H body)
      then ms @ [sv_packet s d H body] else ms)"

lemma sv_Send2Server_sent:
  assumes "sq_rel (sv_SendQueue s) ms"
  shows "sv_sent s 0 d H body ms (snd (sv_Send2Server s H d TO_SRV 0 body))"
proof (cases "length body > XY_PKG_MAX_LEN - 60")
  case True
  with assms show ?thesis by (simp add: sv_Send2Server_eq sv_sent_def)
next
  case False
  let ?p = "sv_packet s d H body"
  have "?p \<noteq> []" "length ?p \<le> XY_PKG_MAX_LEN"
    using False by (auto simp: sv_packet_def XY_PKG_MAX_LEN_def dest: arg_cong [of _ _ length])
  from sv_queue_result [OF assms this] False show ?thesis
    by (cases "sv_queue s ?p (of_nat (length ?p))") (simp add: sv_Send2Server_eq sv_sent_def)
qed

lemma sv_sent_os: "sv_sent (s\<lparr>sv_os := os_call ev (sv_os s)\<rparr>) k d H body ms s' = sv_sent s (Suc k) d H body ms s'"
  by (simp add: sv_sent_def sv_packet_def sv_header_def GetServerID_def)

lemma sv_reply_sent:
  assumes "sq_rel (sv_SendQueue s) ms"
  shows "sv_sent s 1 (hi_SrcID H) (reply_header s H (sv_ServerID s) c (answer s 0)) body ms (snd (sv_reply s H c body))"
proof -
  let ?s = "s\<lparr>sv_os := os_call EvOther (sv_os s)\<rparr>"
  have "sq_rel (sv_SendQueue ?s) ms" using assms(1) by simp
  from sv_Send2Server_sent [OF this, of "hi_SrcID H" "reply_header ?s H (sv_ServerID s) c (answer s 0)" body] show ?thesis
    by (simp add: sv_reply_def scall_answer GetServerID_def sv_sent_os reply_header_def)
qed

text \<open>A new queue of \<open>n\<close> bytes.\<close>

definition queue_of :: "nat \<Rightarrow> shmqueue" where
  "queue_of n = \<lparr>uiHead = 0, uiTail = 0, qdata = replicate n 0, m_QueueDataSize = of_nat n, m_pMsgPeekBuf = None\<rparr>"

lemma queue_of_rel: "0 < n \<Longrightarrow> n \<le> 2 ^ 31 \<Longrightarrow> sq_rel (queue_of n) []"
  by (simp add: sq_rel_def sq_wf_def sq_at_def queue_of_def ring_used_def ring_read_def unat_u32_of_nat)

lemma length_sv_packet [simp]: "length (sv_packet s d H body) = 60 + length body"
  by (simp add: sv_packet_def)

end
