(* ===== verification/AuthSpec.thy ===== *)
theory AuthSpec
  imports Auth
begin

text \<open>
  What the authentication server promises: one map from users to passwords, answered over the spread of the accounts
  over databases and tables, and one answer per request to the server it came from.
\<close>

section \<open>The accounts\<close>

text \<open>Database, table, user. The account of a user is where the two index functions say.\<close>

type_synonym tables = "nat \<Rightarrow> nat \<Rightarrow> u64 \<rightharpoonup> string"

definition accounts :: "tables \<Rightarrow> u64 \<rightharpoonup> string" where
  "accounts T u = T (GetUserDBIndex u) (GetUserTableIndex u) u"

definition put :: "tables \<Rightarrow> nat \<Rightarrow> nat \<Rightarrow> u64 \<Rightarrow> string \<Rightarrow> tables" where
  "put T i t u p = T(i := (T i)(t := (T i t)(u \<mapsto> p)))"

lemma accounts_put: "accounts (put T (GetUserDBIndex u) (GetUserTableIndex u) u p) = (accounts T)(u \<mapsto> p)"
  by (auto simp: accounts_def put_def fun_eq_iff)

text \<open>A password that is the same text inside the quotes of a statement.\<close>

definition plain :: "string \<Rightarrow> bool" where
  "plain p \<longleftrightarrow> NUL \<notin> set p \<and> QUOTE \<notin> set p \<and> CHR 0x5C \<notin> set p"

text \<open>
  What the server relies on of the database: it answers, \<open>select\<close> gives the rows of the table with that user, and \<open>insert\<close> adds the
  row unless there is one with this user, which is the key of the table. \<open>D w T\<close>: the database in state \<open>w\<close> holds the tables \<open>T\<close>.
\<close>

definition account_db :: "'w mysql_api \<Rightarrow> DBConfig list \<Rightarrow> ('w \<Rightarrow> tables \<Rightarrow> bool) \<Rightarrow> bool" where
  "account_db A cfgs D \<longleftrightarrow> (\<forall>w T. D w T \<longrightarrow> (\<forall>i<2.
     (\<exists>w'. mysql_ping A i w = (0, w') \<and> D w' T)
     \<and> (\<forall>t<2. \<forall>u. \<exists>w1 w2. mysql_real_query A i (select_sql (cfgs ! i) t u) w = (0, w1)
          \<and> mysql_store_result A i w1 = (Some (case T i t u of None \<Rightarrow> [] | Some p \<Rightarrow> [[Some p]]), w2) \<and> D w2 T)
     \<and> (\<forall>t<2. \<forall>u p. plain p \<longrightarrow> (\<exists>r w1. mysql_real_query A i (insert_sql (cfgs ! i) t u p) w = (r, w1)
          \<and> (if T i t u = None then r = 0 \<and> D w1 (put T i t u p) else r \<noteq> 0 \<and> D w1 T)))))"

lemma account_dbD:
  assumes "account_db A cfgs D" "D w T" "i < 2"
  shows "\<exists>w'. mysql_ping A i w = (0, w') \<and> D w' T"
    and "t < 2 \<Longrightarrow> \<exists>w1 w2. mysql_real_query A i (select_sql (cfgs ! i) t u) w = (0, w1)
          \<and> mysql_store_result A i w1 = (Some (case T i t u of None \<Rightarrow> [] | Some p \<Rightarrow> [[Some p]]), w2) \<and> D w2 T"
    and "t < 2 \<Longrightarrow> plain p \<Longrightarrow> \<exists>r w1. mysql_real_query A i (insert_sql (cfgs ! i) t u p) w = (r, w1)
          \<and> (if T i t u = None then r = 0 \<and> D w1 (put T i t u p) else r \<noteq> 0 \<and> D w1 T)"
  using assms unfolding account_db_def by blast+

section \<open>The statements fit their buffers\<close>

lemma table_name_length: "cfg_ok c \<Longrightarrow> t < 2 \<Longrightarrow> length (table_name c t) \<le> 513"
  by (simp add: table_name_def cfg_ok_def dec_digit)

lemma select_fits: "cfg_ok c \<Longrightarrow> t < 2 \<Longrightarrow> sql_text (sql_arg 1024 (select_sql c t u)) = Some (select_sql c t u)"
  using table_name_length [of c t] dec_u64_length [of u] by (intro sql_arg_fits) (simp add: select_sql_def)

lemma insert_fits:
  "cfg_ok c \<Longrightarrow> t < 2 \<Longrightarrow> length p \<le> 440 \<Longrightarrow> sql_text (sql_arg 1024 (insert_sql c t u p)) = Some (insert_sql c t u p)"
  using table_name_length [of c t] dec_u64_length [of u] length_takeWhile_le [of "\<lambda>c. c \<noteq> NUL" p]
  by (intro sql_arg_fits) (simp add: insert_sql_def c_str_def)

section \<open>LoginCheck and Register\<close>

text \<open>The connections as they are between requests.\<close>

definition conns_ok :: "mysql list \<Rightarrow> bool" where
  "conns_ok ms \<longleftrightarrow> length ms = 2 \<and> (\<forall>m\<in>set ms. m_nAutoCommit m = 1)"

definition auth_ok :: "'w mysql_api \<Rightarrow> ('w \<Rightarrow> tables \<Rightarrow> bool) \<Rightarrow> 'w auth \<Rightarrow> tables \<Rightarrow> bool" where
  "auth_ok A D s T \<longleftrightarrow> cfgs_ok (m_DBConfig s) \<and> conns_ok (m_DBConn s) \<and> account_db A (m_DBConfig s) D \<and> D (a_db s) T"

lemma conns_ok_nth: "conns_ok ms \<Longrightarrow> i < 2 \<Longrightarrow> m_nAutoCommit (ms ! i) = 1"
  by (simp add: conns_ok_def)

lemma conns_ok_update: "conns_ok ms \<Longrightarrow> m_nAutoCommit m = 1 \<Longrightarrow> conns_ok (ms[i := m])"
  by (auto simp: conns_ok_def dest: set_update_subset_insert [THEN subsetD])

lemma cfgs_ok_nth: "cfgs_ok cs \<Longrightarrow> i < 2 \<Longrightarrow> cfg_ok (cs ! i)"
  by (simp add: cfgs_ok_def)

definition check_passwd :: "string option \<Rightarrow> string \<Rightarrow> int" where
  "check_passwd a p = (case a of None \<Rightarrow> 2 | Some q \<Rightarrow> if q = [] then 1 else if q = p then 0 else 2)"

text \<open>The state of the server but for its connections to the databases.\<close>

definition db_step :: "'w auth \<Rightarrow> 'w auth \<Rightarrow> bool" where
  "db_step s s' \<longleftrightarrow> (\<exists>ms w. s' = s\<lparr>m_DBConn := ms, a_db := w\<rparr>)"

lemma LoginCheck_ok:
  assumes "auth_ok A D s T"
  shows "\<exists>ms w. LoginCheck A s u p plat = Some (check_passwd (accounts T u) p, s\<lparr>m_DBConn := ms, a_db := w\<rparr>)
    \<and> auth_ok A D (s\<lparr>m_DBConn := ms, a_db := w\<rparr>) T"
proof -
  let ?i = "GetUserDBIndex u" and ?t = "GetUserTableIndex u"
  have ok: "cfgs_ok (m_DBConfig s)" "conns_ok (m_DBConn s)" "account_db A (m_DBConfig s) D" "D (a_db s) T"
    using assms by (auto simp: auth_ok_def)
  define m where "m = m_DBConn s ! ?i"
  have m: "m_nAutoCommit m = 1" "length (m_DBConn s) = 2" using ok(2) by (simp_all add: m_def conns_ok_nth conns_ok_def)
  obtain w0 where w0: "mysql_ping A ?i (a_db s) = (0, w0)" "D w0 T" using account_dbD(1) [OF ok(3,4)] shard_bounds by blast
  obtain w1 w2 where w: "mysql_real_query A ?i (select_sql (m_DBConfig s ! ?i) ?t u) w0 = (0, w1)"
    "mysql_store_result A ?i w1 = (Some (case accounts T u of None \<Rightarrow> [] | Some p \<Rightarrow> [[Some p]]), w2)" "D w2 T"
    using account_dbD(2) [OF ok(3) w0(2)] shard_bounds unfolding accounts_def by blast
  note S = select_fits [OF cfgs_ok_nth [OF ok(1) shard_bounds(1)] shard_bounds(2), of u u u]
  have ok': "auth_ok A D (s\<lparr>m_DBConn := (m_DBConn s)[?i := m'], a_db := w2\<rparr>) T" if "m_nAutoCommit m' = 1" for m'
    using ok w(3) that by (simp add: auth_ok_def conns_ok_update)
  show ?thesis
  proof (cases "accounts T u")
    case None
    then have "LoginCheck A s u p plat = Some (2, s\<lparr>m_DBConn := (m_DBConn s)[?i := m\<lparr>m_pRes := Res [] None\<rparr>], a_db := w2\<rparr>)"
      using w w0 m by (simp add: LoginCheck_def run_sql_Some [OF S] MySQL_Select_def ensure_valid_def int32_def m_def Let_def)
    with None ok' [of "m\<lparr>m_pRes := Res [] None\<rparr>"] m show ?thesis by (auto simp: check_passwd_def)
  next
    case (Some q)
    let ?m = "m\<lparr>m_pRes := Res [] (Some [Some q])\<rparr>"
    have f: "first_field (m\<lparr>m_pRes := Res [[Some q]] None\<rparr>) = Some (if q = [] then None else Some q, ?m)"
      by (simp add: first_field_Res [of _ _ "[]" "[]" None] field_len_def)
    have "LoginCheck A s u p plat
        = Some (check_passwd (Some q) p, s\<lparr>m_DBConn := (m_DBConn s)[?i := ?m], a_db := w2\<rparr>)"
      using Some w w0 m f
      by (simp add: LoginCheck_def run_sql_Some [OF S] MySQL_Select_def ensure_valid_def int32_def m_def check_passwd_def Let_def)
    with Some ok' [of ?m] m show ?thesis by auto
  qed
qed

lemma Register_ok:
  assumes "auth_ok A D s T" "plain p" "length p \<le> 440"
  defines "u \<equiv> word_of_int (os_ret (sv_os s) (os_tick (sv_os s)))"
  shows "\<exists>ms w T'. Register A s p = Some (if accounts T u = None then 0 else 1, u, s\<lparr>sv_os := os_call EvOther (sv_os s), m_DBConn := ms, a_db := w\<rparr>)
    \<and> auth_ok A D (s\<lparr>sv_os := os_call EvOther (sv_os s), m_DBConn := ms, a_db := w\<rparr>) T'
    \<and> accounts T' = (if accounts T u = None then (accounts T)(u \<mapsto> p) else accounts T)"
proof -
  let ?i = "GetUserDBIndex u" and ?t = "GetUserTableIndex u"
  have ok: "cfgs_ok (m_DBConfig s)" "conns_ok (m_DBConn s)" "account_db A (m_DBConfig s) D" "D (a_db s) T"
    using assms(1) by (auto simp: auth_ok_def)
  have m: "m_nAutoCommit (m_DBConn s ! ?i) = 1" "length (m_DBConn s) = 2" using ok(2) by (simp_all add: conns_ok_nth conns_ok_def)
  obtain w0 where w0: "mysql_ping A ?i (a_db s) = (0, w0)" "D w0 T" using account_dbD(1) [OF ok(3,4)] shard_bounds by blast
  obtain r w1 where w: "mysql_real_query A ?i (insert_sql (m_DBConfig s ! ?i) ?t u p) w0 = (r, w1)"
    "if accounts T u = None then r = 0 \<and> D w1 (put T ?i ?t u p) else r \<noteq> 0 \<and> D w1 T"
    using account_dbD(3) [OF ok(3) w0(2) _ _ assms(2)] shard_bounds unfolding accounts_def by blast
  note S = insert_fits [OF cfgs_ok_nth [OF ok(1) shard_bounds(1)] shard_bounds(2) assms(3), of u u u]
  let ?s = "s\<lparr>sv_os := os_call EvOther (sv_os s), m_DBConn := (m_DBConn s)[?i := m_DBConn s ! ?i], a_db := w1\<rparr>"
  have R: "Register A s p = Some (if accounts T u = None then 0 else 1, u, ?s)"
    using w w0 m by (auto simp: Register_def scall_eq u_def [symmetric] run_sql_Some [OF S] MySQL_Query_def ensure_valid_def Let_def split: if_splits)
  have "auth_ok A D ?s (if accounts T u = None then put T ?i ?t u p else T)"
    using ok w(2) by (auto simp: auth_ok_def split: if_splits)
  moreover have "accounts (if accounts T u = None then put T ?i ?t u p else T) = (if accounts T u = None then (accounts T)(u \<mapsto> p) else accounts T)"
    by (simp add: accounts_put)
  ultimately show ?thesis using R by (intro exI conjI)
qed

section \<open>Refinement of a map of accounts\<close>

datatype auth_op = ARegister string | ALogin u64 string int

datatype auth_result = ARegistered int u64 | AChecked int | AStuck

fun auth_step :: "'w mysql_api \<Rightarrow> 'w auth \<Rightarrow> auth_op \<Rightarrow> auth_result \<times> 'w auth" where
  "auth_step A s (ARegister p) = (case Register A s p of Some (r, u, s') \<Rightarrow> (ARegistered r u, s') | None \<Rightarrow> (AStuck, s))"
| "auth_step A s (ALogin u p plat) = (case LoginCheck A s u p plat of Some (r, s') \<Rightarrow> (AChecked r, s') | None \<Rightarrow> (AStuck, s))"

text \<open>The map with a clock: a registration takes the time as the number of the user and fails when it is taken.\<close>

fun account_step :: "(u64 \<rightharpoonup> string) \<times> os \<Rightarrow> auth_op \<Rightarrow> auth_result \<times> (u64 \<rightharpoonup> string) \<times> os" where
  "account_step (acc, w) (ARegister p) =
     (let (t, w) = sys_time w; u = word_of_int t
      in if acc u = None then (ARegistered 0 u, acc(u \<mapsto> p), w) else (ARegistered 1 u, acc, w))"
| "account_step (acc, w) (ALogin u p plat) = (AChecked (check_passwd (acc u) p), acc, w)"

fun auth_op_ok :: "auth_op \<Rightarrow> bool" where
  "auth_op_ok (ARegister p) \<longleftrightarrow> plain p \<and> length p \<le> 440"
| "auth_op_ok (ALogin u p plat) \<longleftrightarrow> True"

definition auth_rel :: "'w mysql_api \<Rightarrow> ('w \<Rightarrow> tables \<Rightarrow> bool) \<Rightarrow> 'w auth \<Rightarrow> (u64 \<rightharpoonup> string) \<times> os \<Rightarrow> bool" where
  "auth_rel A D s a \<longleftrightarrow> (\<exists>T. auth_ok A D s T \<and> a = (accounts T, sv_os s))"

interpretation auth: simulation "auth_rel A D" "auth_step A" account_step auth_op_ok for A D
proof
  fix s a e assume "auth_rel A D s a" and ok: "auth_op_ok e"
  then obtain T where T: "auth_ok A D s T" "a = (accounts T, sv_os s)" by (auto simp: auth_rel_def)
  show "fst (auth_step A s e) = fst (account_step a e) \<and> auth_rel A D (snd (auth_step A s e)) (snd (account_step a e))"
  proof (cases e)
    case (ARegister p)
    let ?u = "word_of_int (os_ret (sv_os s) (os_tick (sv_os s)))"
    obtain ms w T' where R: "Register A s p = Some (if accounts T ?u = None then 0 else 1, ?u, s\<lparr>sv_os := os_call EvOther (sv_os s), m_DBConn := ms, a_db := w\<rparr>)"
      "auth_ok A D (s\<lparr>sv_os := os_call EvOther (sv_os s), m_DBConn := ms, a_db := w\<rparr>) T'"
      "accounts T' = (if accounts T ?u = None then (accounts T)(?u \<mapsto> p) else accounts T)"
      using Register_ok [OF T(1), of p] ok ARegister by auto
    then show ?thesis using ARegister T(2) by (auto simp: auth_rel_def sys_time_def sys_int_def Let_def)
  next
    case (ALogin u p plat)
    with LoginCheck_ok [OF T(1), of u p plat] T show ?thesis by (auto simp: auth_rel_def)
  qed
qed


section \<open>Answers\<close>

lemma auth_reply_eq:
  "(let (t, s) = scall EvOther s
    in Auth_Send2Server s (reply_header s H (word_of_int (GetServerID s)) c t) (hi_SrcID H) TO_SRV 0 body) = sv_reply s H c body"
  by (simp add: sv_reply_def Auth_Send2Server_def)







section \<open>The start of the server\<close>

lemma MySQL_Connect_commit: "MySQL_Connect A i acc m w = (r, m', w') \<Longrightarrow> m_nAutoCommit m' = m_nAutoCommit m"
  by (auto simp: MySQL_Connect_def Let_def split: prod.splits if_splits)

lemma connect_dbs_ok: "connect_dbs A cfgs [CMySQL, CMySQL] w = (r, ms, w') \<Longrightarrow> conns_ok ms"
  by (auto simp: connect_dbs_def conns_ok_def CMySQL_def Let_def dest!: MySQL_Connect_commit split: prod.splits if_splits)

text \<open>\<open>Init\<close> leaves configurations that fit their arrays and open connections, as the properties ask for.\<close>

lemma need_queue_rel: "segments_ok E \<Longrightarrow> need_queue E kz = Some (Some q) \<Longrightarrow> \<exists>ms. sq_rel q ms"
  by (auto simp: need_queue_def segments_ok_def split: if_splits Option.bind_splits)

lemma auth_open_queues_ok:
  assumes "segments_ok E" "auth_open_queues E a b s = Some (True, s')"
  shows "\<exists>ms. sq_rel (sv_SendQueue s') ms" "\<exists>q q'. s' = s\<lparr>sv_RecvQueue := q, sv_SendQueue := q'\<rparr>"
proof -
  obtain q q' where "s' = s\<lparr>sv_RecvQueue := q, sv_SendQueue := q'\<rparr>" "need_queue E a = Some (Some q')"
    using assms(2) by (auto simp: auth_open_queues_def Let_def split: if_splits Option.bind_splits option.splits)
  then show "\<exists>ms. sq_rel (sv_SendQueue s') ms" "\<exists>q q'. s' = s\<lparr>sv_RecvQueue := q, sv_SendQueue := q'\<rparr>"
    using need_queue_rel [OF assms(1)] by auto
qed

lemma auth_open_dbs_ok:
  assumes "auth_open_dbs E A path s = Some (0, s')" "m_DBConn s = [CMySQL, CMySQL]"
  shows "cfgs_ok (m_DBConfig s') \<and> conns_ok (m_DBConn s') \<and> sv_SendQueue s' = sv_SendQueue s"
proof -
  obtain f cfgs ms w where "read_dbs f (m_DBConfig s) = Some cfgs" "connect_dbs A cfgs (m_DBConn s) (a_db s) = (0, ms, w)"
    "s' = s\<lparr>m_DBConfig := cfgs, m_DBConn := ms, a_db := w\<rparr>"
    using assms(1) by (auto simp: auth_open_dbs_def split: if_splits Option.bind_splits prod.splits)
  then show ?thesis using read_dbs_ok connect_dbs_ok assms(2) by auto
qed

lemma Auth_Init_ok:
  assumes "segments_ok E" "Auth_Init E A path (Auth_new sq rq w db) = Some (0, s)"
  shows "cfgs_ok (m_DBConfig s) \<and> conns_ok (m_DBConn s) \<and> (\<exists>ms. sq_rel (sv_SendQueue s) ms)"
proof -
  obtain c s0 a b s1 where I: "auth_read_conf E path (Auth_new sq rq w db) = Some (Some (c, s0))"
    "auth_open_queues E a b s0 = Some (True, s1)" "auth_open_dbs E A (fst (snd c)) s1 = Some (0, s)"
    using assms(2) by (auto simp: Auth_Init_def split: Option.bind_splits option.splits if_splits)
  have "m_DBConn s0 = [CMySQL, CMySQL]"
    using I(1) by (auto simp: auth_read_conf_def Auth_new_def split: Option.bind_splits if_splits)
  then have "m_DBConn s1 = [CMySQL, CMySQL]" using auth_open_queues_ok(2) [OF assms(1) I(2)] by auto
  from auth_open_dbs_ok [OF I(3) this] auth_open_queues_ok(1) [OF assms(1) I(2)] show ?thesis by simp
qed

section \<open>Long passwords\<close>

text \<open>
  C40: When the connection is alive or can be made again, \<open>Register\<close> reads beyond the array with the statement for exactly the passwords that
  make the statement longer than the 1024 bytes of the array, because the length it passes on is that of the whole text. When the statement
  is shorter than the array, the database gets the whole of it, and the result is 0 when the database accepts it and 1 when it does not. When
  there is no connection nothing is read, and the result is 1 for every password.
\<close>
theorem Register_overread_iff:
  fixes s :: "'w auth"
  defines "u \<equiv> word_of_int (answer s 0)"
  defines "i \<equiv> GetUserDBIndex u"
  defines "n \<equiv> length (sDB (db_Access (m_DBConfig s ! i))) + length (TableName (m_DBConfig s ! i)) + length (dec_nat (unat u))"
  assumes "ensure_valid A i (m_DBConn s ! i) (a_db s) = Some (ok, m, w)" "m_nAutoCommit m = 1"
  shows "(Register A s p = None \<longleftrightarrow> ok \<and> n + length (c_str p) > 978)
    \<and> (\<not> ok \<longrightarrow> (\<exists>s'. Register A s p = Some (1, u, s')))
    \<and> (ok \<and> n + length (c_str p) < 978 \<longrightarrow> (\<exists>s'. Register A s p
         = Some (if fst (mysql_real_query A i (insert_sql (m_DBConfig s ! i) (GetUserTableIndex u) u p) w) = 0 then 0 else 1, u, s')))"
proof -
  let ?sql = "insert_sql (m_DBConfig s ! i) (GetUserTableIndex u) u p"
  have l: "length ?sql = 46 + (n + length (c_str p))"
    by (simp add: n_def insert_sql_def table_name_def dec_digit)
  have R: "Register A s p = (if \<not> ok then Some (1, u, snd (scall EvOther s)\<lparr>m_DBConn := (m_DBConn s)[i := m], a_db := w\<rparr>)
      else do { (r, w') \<leftarrow> run_sql A i (sql_arg 1024 ?sql) m w;
                Some (if r \<noteq> 0 then 1 else 0, u, snd (scall EvOther s)\<lparr>m_DBConn := (m_DBConn s)[i := m], a_db := w'\<rparr>) })"
    using assms(4) by (simp add: Register_def scall_answer u_def [symmetric] i_def [symmetric] MySQL_Query_def Let_def case_prod_unfold)
  have "run_sql A i (sql_arg 1024 ?sql) m w = None \<longleftrightarrow> n + length (c_str p) > 978"
    unfolding run_sql_None using sql_arg_overread [of 1024 ?sql] l by simp
  moreover have "run_sql A i (sql_arg 1024 ?sql) m w
      = Some (if fst (mysql_real_query A i ?sql w) = 0 then 0 else -1, snd (mysql_real_query A i ?sql w))" if "n + length (c_str p) < 978"
    using that l sql_arg_fits [of ?sql 1024] assms(5) by (simp add: run_sql_Some case_prod_unfold Let_def)
  ultimately show ?thesis by (simp add: R bind_eq_None_conv case_prod_unfold)
qed

section \<open>An example\<close>

text \<open>
  A database that reads the two statements: the tables and the rows of the last query. It shows that what the properties ask of a
  database can be had.
\<close>

definition strip :: "string \<Rightarrow> string \<Rightarrow> string option" where
  "strip pre s = (if take (length pre) s = pre then Some (drop (length pre) s) else None)"

definition number :: "string \<Rightarrow> nat \<times> string" where
  "number s = (nat (digits_val 10 s), drop (length (digits 10 s)) s)"

definition mini_select :: "nat \<Rightarrow> string \<Rightarrow> tables \<Rightarrow> sqlrow list option" where
  "mini_select i sql T = do {
     r \<leftarrow> strip ''select passwd from d.t_'' sql;
     let (t, r) = number r;
     r \<leftarrow> strip '' where userid='' r;
     Some (case T i t (of_nat (fst (number r))) of None \<Rightarrow> [] | Some p \<Rightarrow> [[Some p]])
   }"

definition mini_insert :: "nat \<Rightarrow> string \<Rightarrow> tables \<Rightarrow> tables option" where
  "mini_insert i sql T = do {
     r \<leftarrow> strip ''insert into d.t_'' sql;
     let (t, r) = number r;
     r \<leftarrow> strip '' (userid, passwd) values ('' r;
     let (u, r) = number r;
     r \<leftarrow> strip ('', '' @ [QUOTE]) r;
     if T i t (of_nat u) = None then Some (put T i t (of_nat u) (takeWhile (\<lambda>c. c \<noteq> QUOTE) r)) else None
   }"

definition mini_api :: "(tables \<times> sqlrow list option) mysql_api" where
  "mini_api = \<lparr>mysql_init = (\<lambda>_ w. (True, w)), mysql_real_connect = (\<lambda>_ _ w. (True, w)), mysql_close = (\<lambda>_ w. w),
     mysql_ping = (\<lambda>_ w. (0, w)),
     mysql_real_query = (\<lambda>i sql (T, res). case mini_select i sql T of
        Some rows \<Rightarrow> (0, (T, Some rows))
      | None \<Rightarrow> (case mini_insert i sql T of Some T \<Rightarrow> (0, (T, None)) | None \<Rightarrow> (1, (T, None)))),
     mysql_store_result = (\<lambda>_ (T, res). (res, (T, None))),
     mysql_real_escape_string = (\<lambda>_ s _. s)\<rparr>"

definition mini_cfg :: DBConfig where
  "mini_cfg = \<lparr>db_Access = \<lparr>sHost = ''h'', sUser = ''u'', sPasswd = ''p'', sDB = ''d'', nPort = 3306\<rparr>, TableName = ''t''\<rparr>"

lemma strip_append [simp]: "strip pre (pre @ r) = Some r"
  by (simp add: strip_def)

lemma number_dec: "(r = [] \<or> digit_val (hd r) \<ge> 10) \<Longrightarrow> number (dec_nat n @ r) = (n, r)"
  by (simp add: number_def digits_val_def digits_dec dec_value)



lemma mini_insert_sql:
  assumes "plain p"
  shows "mini_select i (insert_sql mini_cfg t u p) T = None"
    and "mini_insert i (insert_sql mini_cfg t u p) T = (if T i t u = None then Some (put T i t u p) else None)"
proof -
  have c: "c_str p = p" using assms by (simp add: plain_def c_str_id)
  have e: "insert_sql mini_cfg t u p = ''insert into d.t_'' @ dec_nat t @ '' (userid, passwd) values ('' @ dec_nat (unat u) @ ('', '' @ [QUOTE]) @ p @ [QUOTE] @ '')''"
    by (simp add: insert_sql_def table_name_def mini_cfg_def c)
  show "mini_select i (insert_sql mini_cfg t u p) T = None"
    unfolding mini_select_def e by (simp add: strip_def)
  have p: "takeWhile (\<lambda>c. c \<noteq> QUOTE) (p @ [QUOTE] @ '')'') = p"
    using assms by (subst takeWhile_append2) (auto simp: plain_def)
  have n: "number (dec_nat t @ '' (userid, passwd) values ('' @ r) = (t, '' (userid, passwd) values ('' @ r)"
    "number (dec_nat (unat u) @ ('', '' @ [QUOTE]) @ r) = (unat u, ('', '' @ [QUOTE]) @ r)" for r
    by (subst number_dec; simp add: digit_val_def)+
  show "mini_insert i (insert_sql mini_cfg t u p) T = (if T i t u = None then Some (put T i t u p) else None)"
    unfolding mini_insert_def e strip_append Option.bind.bind_lunit Let_def n prod.case p by simp
qed


definition auth_example :: "int list \<Rightarrow> (tables \<times> sqlrow list option) auth" where
  "auth_example rs = (Auth_new (queue_of 128) (queue_of 128) (os_example rs) (\<lambda>_ _. Map.empty, None))
     \<lparr>sv_ServerID := 201, m_DBConfig := [mini_cfg, mini_cfg]\<rparr>"






theorem Register_overread_iff_witness:
  "Register mini_api (auth_example [25]) (replicate 975 (CHR ''x'')) = None
   \<and> (\<exists>s'. Register mini_api (auth_example [25]) (replicate 973 (CHR ''x'')) = Some (0, 25, s'))"
proof -
  have u: "answer (auth_example [25]) 0 = 25" "m_DBConfig (auth_example [25]) ! GetUserDBIndex 25 = mini_cfg"
    by (simp_all add: answer_def auth_example_def Auth_new_def os_example_def GetUserDBIndex_def)
  have c: "length (c_str (replicate n (CHR ''x''))) = n" for n by (subst c_str_id) (auto simp: NUL_def)
  have v: "ensure_valid mini_api (GetUserDBIndex 25) (m_DBConn (auth_example [25]) ! GetUserDBIndex 25) (a_db (auth_example [25]))
      = Some (True, CMySQL, (\<lambda>_ _. Map.empty, None))" "m_nAutoCommit CMySQL = 1"
    by (simp_all add: ensure_valid_def mini_api_def auth_example_def Auth_new_def GetUserDBIndex_def CMySQL_def)
  have p: "plain (replicate 973 (CHR ''x''))" by (auto simp: plain_def NUL_def QUOTE_def)
  have "fst (mysql_real_query mini_api (GetUserDBIndex 25) (insert_sql mini_cfg (GetUserTableIndex 25) 25 (replicate 973 (CHR ''x''))) (\<lambda>_ _. Map.empty, None)) = 0"
    by (simp add: mini_api_def mini_insert_sql [OF p])
  moreover note Register_overread_iff [of mini_api "auth_example [25]", unfolded u word_of_int_numeral, OF v, of "replicate 975 (CHR ''x'')"]
    Register_overread_iff [of mini_api "auth_example [25]", unfolded u word_of_int_numeral, OF v, of "replicate 973 (CHR ''x'')"]
  moreover have "length (sDB (db_Access mini_cfg)) = 1" "length (TableName mini_cfg) = 1" by (simp_all add: mini_cfg_def)
  ultimately show ?thesis by (simp add: c dec_nat.simps)
qed

end
