(* ===== verification/UserShm.thy ===== *)
theory UserShm
  imports Server Mysql
begin

text \<open>
  The table of users in shared memory (\<open>CUserShmApi\<close>, \<^verbatim>\<open>user/user_shm_api.cpp\<close>), which the user server, the processes that load users
  from the database and those that write them back all map. The file locks are taken and released inside each operation and their results
  ignored; an operation is one step here. An operation that asks the clock takes the answers of the operating system.

  The theory shows that the table is a finite map of users, where a friend request is put, and what the scan for inactive users removes.
\<close>

section \<open>Users\<close>

text \<open>Character arrays are the C strings they hold.\<close>

record FriendInfo =
  fr_UserID :: u64
  RemarkName :: string
  SeeStatus :: byte

record RequestInfo =
  rq_UserID :: u64
  rq_NickName :: string
  rq_RequestTime :: u64
  rq_IsValid :: byte

record ShmUserInfo =
  ui_UserID :: u64
  ui_Status :: int
  ui_LastActiveTime :: u64
  ui_NickName :: string
  ui_Level :: int
  ui_VipLevel :: int
  ui_Sex :: byte
  ui_Birthday :: u64
  ui_TelNo :: string
  ui_Address :: string
  ui_EMail :: string
  ui_PersonalNote :: string
  FriendList :: "FriendInfo list"
  RequestList :: "RequestInfo list"

definition MAX_NAME_LENGTH :: nat where "MAX_NAME_LENGTH = 24"
definition MAX_FRIEND_NUM :: nat where "MAX_FRIEND_NUM = 200"
definition MAX_REQUEST_NUM :: nat where "MAX_REQUEST_NUM = 50"
definition MAX_PERSONAL_NOTE_LENGTH :: nat where "MAX_PERSONAL_NOTE_LENGTH = 256"
definition MAX_TELNO_LENGTH :: nat where "MAX_TELNO_LENGTH = 11"
definition MAX_ADDR_LENGTH :: nat where "MAX_ADDR_LENGTH = 256"
definition MAX_EMAIL_LENGTH :: nat where "MAX_EMAIL_LENGTH = 64"
definition USER_INVALID_TIME :: int where "USER_INVALID_TIME = 86400"
definition USER_STATUS_LOADED :: int where "USER_STATUS_LOADED = 2"
definition USER_MEM_HEAD_SIZE :: int where "USER_MEM_HEAD_SIZE = 256"

lemmas user_lens = MAX_NAME_LENGTH_def MAX_PERSONAL_NOTE_LENGTH_def MAX_TELNO_LENGTH_def MAX_ADDR_LENGTH_def MAX_EMAIL_LENGTH_def

definition FriendInfo_new :: FriendInfo where
  "FriendInfo_new = \<lparr>fr_UserID = 0, RemarkName = [], SeeStatus = 0\<rparr>"

definition RequestInfo_new :: RequestInfo where
  "RequestInfo_new = \<lparr>rq_UserID = 0, rq_NickName = [], rq_RequestTime = 0, rq_IsValid = 0\<rparr>"

definition ShmUserInfo_new :: ShmUserInfo where
  "ShmUserInfo_new = \<lparr>ui_UserID = 0, ui_Status = 0, ui_LastActiveTime = 0, ui_NickName = [], ui_Level = 0, ui_VipLevel = 0, ui_Sex = 0,
     ui_Birthday = 0, ui_TelNo = [], ui_Address = [], ui_EMail = [], ui_PersonalNote = [],
     FriendList = replicate MAX_FRIEND_NUM FriendInfo_new, RequestList = replicate MAX_REQUEST_NUM RequestInfo_new\<rparr>"

section \<open>Operations\<close>

record usershm =
  m_CheckUserPos :: int
  m_MaxUserNodeNum :: int
  m_UserInfoMap :: "ShmUserInfo hashlist"

definition InsertUserInfo :: "usershm \<Rightarrow> ShmUserInfo \<Rightarrow> (int \<times> usershm) option" where
  "InsertUserInfo us Info =
     (if ui_UserID Info = 0 then Some (-1, us)
      else do {
        (Ret, h) \<leftarrow> HL_Insert (m_UserInfoMap us) (ui_UserID Info) Info;
        let us = us\<lparr>m_UserInfoMap := h\<rparr>;
        Some (if Ret \<noteq> 0 then -1 else 0, us)
      })"

definition RemoveUserInfo :: "usershm \<Rightarrow> u64 \<Rightarrow> (int \<times> usershm) option" where
  "RemoveUserInfo us UserID = do {
     (Ret, h) \<leftarrow> HL_Remove (m_UserInfoMap us) UserID;
     let us = us\<lparr>m_UserInfoMap := h\<rparr>;
     Some (if Ret \<noteq> 0 then -1 else 0, us)
   }"

text \<open>The comparison is unsigned.\<close>

definition inactive_since :: "int \<Rightarrow> ShmUserInfo \<Rightarrow> bool" where
  "inactive_since now Info \<longleftrightarrow> word_of_int (now - USER_INVALID_TIME) > ui_LastActiveTime Info"

definition RemoveUserInfoWhenInValid :: "usershm \<Rightarrow> os \<Rightarrow> u64 \<Rightarrow> (int \<times> usershm \<times> os) option" where
  "RemoveUserInfoWhenInValid us w UserID = do {
     pCurUserInfo \<leftarrow> HL_Get (m_UserInfoMap us) UserID;
     if pCurUserInfo = 0 then Some (-1, us, w)
     else do {
       Info \<leftarrow> HL_deref (m_UserInfoMap us) pCurUserInfo;
       let (nowTime, w) = sys_time w;
       if \<not> inactive_since nowTime Info then Some (0, us, w)
       else do { (Ret, us) \<leftarrow> RemoveUserInfo us UserID; Some (Ret, us, w) }
     }
   }"

definition GetUserInfo :: "usershm \<Rightarrow> u64 \<Rightarrow> ShmUserInfo \<Rightarrow> (int \<times> ShmUserInfo) option" where
  "GetUserInfo us UserID Info = do {
     (Ret, Info) \<leftarrow> HL_GetData (m_UserInfoMap us) UserID Info;
     Some (if Ret \<noteq> 0 then -1 else 0, Info)
   }"

definition UpdateUserInfo :: "usershm \<Rightarrow> ShmUserInfo \<Rightarrow> (int \<times> usershm) option" where
  "UpdateUserInfo us newUserInfo = do {
     (Ret, h) \<leftarrow> HL_Update (m_UserInfoMap us) (ui_UserID newUserInfo) newUserInfo;
     let us = us\<lparr>m_UserInfoMap := h\<rparr>;
     Some (if Ret \<noteq> 0 then -1 else 0, us)
   }"

text \<open>The callback of the scan asks the clock on every call: the private data are the answers to come and the users collected.\<close>

definition User_MemFullCallBack :: "u64 \<Rightarrow> ShmUserInfo \<Rightarrow> os \<times> u64 list \<Rightarrow> ShmUserInfo \<times> os \<times> u64 list" where
  "User_MemFullCallBack UserID CurUserInfo p =
     (let (w, pVct) = p; (nowTime, w) = sys_time w
      in (CurUserInfo, w, if inactive_since nowTime CurUserInfo then pVct @ [UserID] else pVct))"

definition CheckUserIsValid :: "usershm \<Rightarrow> os \<Rightarrow> u64 list \<Rightarrow> (usershm \<times> os \<times> u64 list) option" where
  "CheckUserIsValid us w pVct = do {
     (_, h, w, pVct) \<leftarrow> HL_ProcessAll User_MemFullCallBack (m_UserInfoMap us) (m_CheckUserPos us) (w, pVct);
     Some (us\<lparr>m_UserInfoMap := h, m_CheckUserPos := (m_CheckUserPos us + 1) mod m_MaxUserNodeNum us\<rparr>, w, pVct)
   }"

text \<open>The slot of the list of requests a new request is put in: the first that is free, else the one the loop ends with.\<close>

fun request_slot :: "nat \<Rightarrow> nat \<Rightarrow> u64 \<Rightarrow> RequestInfo list \<Rightarrow> nat" where
  "request_slot i Index MaxRequestTime [] = Index"
| "request_slot i Index MaxRequestTime (Request # rs) =
     (if rq_UserID Request = 0 \<or> rq_IsValid Request = 0 then i
      else if rq_RequestTime Request > MaxRequestTime then request_slot (i + 1) i (rq_RequestTime Request) rs
      else request_slot (i + 1) Index MaxRequestTime rs)"

definition put_request :: "int \<Rightarrow> int \<Rightarrow> u64 \<Rightarrow> string \<Rightarrow> ShmUserInfo \<Rightarrow> ShmUserInfo" where
  "put_request t1 t2 UserID strNickName Info =
     (let Index = request_slot 0 0 0 (RequestList Info); Request = RequestList Info ! Index
      in Info\<lparr>RequestList := (RequestList Info)[Index := Request\<lparr>rq_UserID := UserID,
                rq_NickName := print_s MAX_NAME_LENGTH strNickName, rq_RequestTime := word_of_int t1\<rparr>],
              ui_LastActiveTime := word_of_int t2\<rparr>)"

definition AddFriendReq :: "usershm \<Rightarrow> os \<Rightarrow> u64 \<Rightarrow> u64 \<Rightarrow> string \<Rightarrow> (int \<times> usershm \<times> os) option" where
  "AddFriendReq us w UserID OtherUserID strNickName = do {
     pCurUserInfo \<leftarrow> HL_Get (m_UserInfoMap us) OtherUserID;
     if pCurUserInfo = 0 then Some (-1, us, w)
     else do {
       Info \<leftarrow> HL_deref (m_UserInfoMap us) pCurUserInfo;
       let (t1, w) = sys_time w;
       let (t2, w) = sys_time w;
       h \<leftarrow> HL_assign (m_UserInfoMap us) pCurUserInfo (put_request t1 t2 UserID strNickName Info);
       Some (0, us\<lparr>m_UserInfoMap := h\<rparr>, w)
     }
   }"

section \<open>Init\<close>

text \<open>
  The segment of the table, as for the connection server: the magic bytes at its head and the table behind the head. \<open>env_user_magic\<close> are
  the 32 bytes at the address of \<open>USER_MEM_MAGIC\<close>, which has 29. \<open>env_lock\<close>: the lock file can be opened.
\<close>

record user_surroundings = surroundings +
  env_user :: "int \<Rightarrow> int \<Rightarrow> shm_create \<times> bool \<times> (byte list \<times> ShmUserInfo hashlist) option"
  env_user_magic :: "byte list"
  env_lock :: "string \<Rightarrow> bool"

text \<open>The size of a data node: the key, the link and the packed \<open>ShmUserInfo\<close> of 9298 bytes, aligned for the key.\<close>

definition USER_NODE_SIZE :: int where "USER_NODE_SIZE = 9312"

text \<open>\<open>Clear\<close> of a table whose size wrapped around in the check writes beyond the segment (\<open>None\<close>).\<close>

definition clear_users :: "int \<Rightarrow> int \<Rightarrow> ShmUserInfo hashlist \<Rightarrow> ShmUserInfo hashlist option" where
  "clear_users UserShmSize n h =
     (if USER_MEM_HEAD_SIZE + 20 + 12 * n + USER_NODE_SIZE * n > UserShmSize then None
      else Some (snd (HL_Clear ShmUserInfo_new h)))"

definition open_users :: "'a user_surroundings_scheme \<Rightarrow> int \<Rightarrow> int \<Rightarrow> int \<Rightarrow> ShmUserInfo hashlist option option" where
  "open_users E UserShmKey UserShmSize n =
     (let UserInfoMemSize = CalcSize USER_NODE_SIZE n n; UserMemNeed = int32 (UserInfoMemSize + USER_MEM_HEAD_SIZE)
      in if UserMemNeed > UserShmSize then Some None
         else case env_user E UserShmKey UserShmSize of (create, attach, mem) \<Rightarrow>
           if create = ShmError \<or> \<not> attach then Some None
           else case mem of
             None \<Rightarrow> Some None
           | Some (magic, table) \<Rightarrow>
               (let (r, h) = HL_Init USER_NODE_SIZE table UserInfoMemSize n n
                in if r \<noteq> 0 then Some None
                   else do {
                     h \<leftarrow> (if magic \<noteq> env_user_magic E then clear_users UserShmSize n h else Some h);
                     v \<leftarrow> HL_Verify h;
                     Some (if v \<noteq> 0 then None else Some h)
                   }))"

definition UserShm_Init :: "'a user_surroundings_scheme \<Rightarrow> string \<Rightarrow> usershm \<Rightarrow> (int \<times> usershm) option" where
  "UserShm_Init E pConfFile us = do {
     f \<leftarrow> open_ini E pConfFile;
     if \<not> IsValid f then Some (-1, us)
     else do {
       (_, UserShmKey) \<leftarrow> GetInt f ''USER'' ''UserShmKey'' 0 0;
       (_, UserShmSize) \<leftarrow> GetInt f ''USER'' ''UserShmSize'' 0 0;
       (_, n) \<leftarrow> GetInt f ''USER'' ''NodeNum'' 0 (m_MaxUserNodeNum us);
       (_, UserLockPath) \<leftarrow> GetString f ''USER'' ''UserLockPath'' ''user.lock'' 256;
       let us = us\<lparr>m_MaxUserNodeNum := n\<rparr>;
       if UserShmKey = 0 \<or> UserShmSize = 0 \<or> n = 0 then Some (-1, us)
       else do {
         h \<leftarrow> open_users E UserShmKey UserShmSize n;
         case h of
           None \<Rightarrow> Some (-1, us)
         | Some h \<Rightarrow> let us = us\<lparr>m_UserInfoMap := h\<rparr> in Some (if env_lock E UserLockPath then 0 else -1, us)
       }
     }
   }"

end
