(* ===== verification/User.thy ===== *)
theory User
  imports UserShm
begin

text \<open>
  The user server \<open>CUser\<close> (\<^verbatim>\<open>user/user_proc.cpp\<close>) and the two kinds of processes beside it: \<open>CLoaderUser\<close> (\<^verbatim>\<open>user/loader_user.cpp\<close>) loads
  users from the database into the shared table, \<open>CWriterUser\<close> (\<^verbatim>\<open>user/writer_user.cpp\<close>) writes them back. The server never waits for the
  database: a request for a user who is not in the table goes to the loader with the whole packet, and is dealt with again when the loader
  gives it back.

  An operation has result \<open>None\<close> where the C++ code does not return or its behaviour is undefined.
\<close>

section \<open>Messages\<close>

text \<open>
  The messages of \<^verbatim>\<open>mm.proto\<close>, \<^verbatim>\<open>app.proto\<close> and \<^verbatim>\<open>bus.proto\<close> the three processes parse and serialise. A parser of a packet gets the size argument
  and the bytes there; the request in \<open>LoadUserInfoRsp\<close> is empty when it is absent.
\<close>

record DBUserInfo =
  dbu_userid :: u64
  dbu_nickname :: string
  dbu_level :: u32
  dbu_viplevel :: u32
  dbu_sex :: int
  dbu_birthday :: u64
  dbu_telno :: string
  dbu_address :: string
  dbu_email :: string
  dbu_personalnote :: string

record user_pb =
  parse_UserRegisterReq :: "int \<Rightarrow> byte list \<Rightarrow> (u64 \<times> RegisterInfo) option"
  parse_AddFriendReq :: "int \<Rightarrow> byte list \<Rightarrow> u64 option"
  parse_UserAddFriendReq :: "int \<Rightarrow> byte list \<Rightarrow> (u64 \<times> string \<times> u64) option"
  parse_LoadUserInfoReq :: "byte list \<Rightarrow> (u64 \<times> byte list) option"
  parse_LoadUserInfoRsp :: "byte list \<Rightarrow> (int \<times> byte list) option"
  parse_WriteUserInfoReq :: "byte list \<Rightarrow> u64 option"
  parse_DBUserInfo :: "string \<Rightarrow> DBUserInfo option"
  ser_UserRegisterRsp :: "u64 \<Rightarrow> int \<Rightarrow> byte list"
  ser_AddFriendRsp :: "int \<Rightarrow> byte list"
  ser_UserAddFriendReq :: "u64 \<Rightarrow> string \<Rightarrow> u64 \<Rightarrow> byte list"
  ser_LoadUserInfoReq :: "u64 \<Rightarrow> byte list \<Rightarrow> byte list"
  ser_LoadUserInfoRsp :: "int \<Rightarrow> byte list \<Rightarrow> byte list"
  ser_WriteUserInfoReq :: "u64 \<Rightarrow> byte list"
  ser_DBUserInfo :: "DBUserInfo \<Rightarrow> string option"
  ser_UserState :: "int \<Rightarrow> int \<Rightarrow> byte list"

definition Cmd_User_AddFriend_Req :: u32 where "Cmd_User_AddFriend_Req = 0x00040003"
definition Cmd_User_AddFriend_Rsp :: u32 where "Cmd_User_AddFriend_Rsp = 0x00040004"
definition Cmd_User_AddFriend_Req2 :: u32 where "Cmd_User_AddFriend_Req2 = 0x00040005"

lemmas user_cmd_defs = Cmd_User_AddFriend_Req_def Cmd_User_AddFriend_Rsp_def Cmd_User_AddFriend_Req2_def Cmd_User_Register_Req_def

section \<open>State\<close>

record user = server +
  m_LoaderSendQueue :: shmqueue
  m_LoaderRecvQueue :: shmqueue
  m_WriterQueue :: shmqueue
  m_UserShm :: usershm

definition User_new :: "shmqueue \<Rightarrow> os \<Rightarrow> ShmUserInfo hashlist \<Rightarrow> user" where
  "User_new q w h = \<lparr>sv_ServerID = 0, sv_StateTime = 0, sv_SendQueue = q, sv_RecvQueue = q, sv_os = w,
     m_LoaderSendQueue = q, m_LoaderRecvQueue = q, m_WriterQueue = q,
     m_UserShm = \<lparr>m_CheckUserPos = 0, m_MaxUserNodeNum = 0, m_UserInfoMap = h\<rparr>\<rparr>"

section \<open>Sending\<close>

definition User_Send2Server :: "user \<Rightarrow> XYHeaderIn \<Rightarrow> u32 \<Rightarrow> byte \<Rightarrow> byte \<Rightarrow> byte list \<Rightarrow> int \<times> user" where
  "User_Send2Server s Header DstID SendType Flag body = sv_Send2Server s Header DstID SendType Flag body"

definition User_SendStateMessage :: "user_pb \<Rightarrow> user \<Rightarrow> int \<times> user" where
  "User_SendStateMessage P s = sv_SendStateMessage (ser_UserState P) s"

text \<open>Messages that do not fit the buffer they are serialised to are not sent.\<close>

definition LoadUserInfo :: "user_pb \<Rightarrow> user \<Rightarrow> u64 \<Rightarrow> byte list \<Rightarrow> int \<times> user" where
  "LoadUserInfo P s UserID strRequest =
     (let body = ser_LoadUserInfoReq P UserID strRequest
      in if length body > XY_PKG_MAX_LEN then (-1, s)
         else let (lockret, s) = scall EvOther s;
                  (Ret, q) = InQueue (m_LoaderSendQueue s) body (of_nat (length body)) True lockret;
                  s = s\<lparr>m_LoaderSendQueue := q\<rparr>
              in (if Ret \<noteq> SHM_SUCCESS then -1 else 0, s))"

text \<open>0: the user is in the table, 1: the user is being loaded, -1: error.\<close>

definition LoadUserInfoWhileNotExist :: "user_pb \<Rightarrow> user \<Rightarrow> u64 \<Rightarrow> byte list \<Rightarrow> (int \<times> user) option" where
  "LoadUserInfoWhileNotExist P s UserID strRequest = do {
     (Ret, Info) \<leftarrow> GetUserInfo (m_UserShm s) UserID ShmUserInfo_new;
     if Ret \<noteq> 0
     then let (Ret, s) = LoadUserInfo P s UserID strRequest in Some (if Ret \<noteq> 0 then -1 else 1, s)
     else Some (0, s)
   }"

definition WriteUserInfo :: "user_pb \<Rightarrow> user \<Rightarrow> u64 \<Rightarrow> int \<times> user" where
  "WriteUserInfo P s UserID =
     (let body = ser_WriteUserInfoReq P UserID
      in if length body > 256 then (-1, s)
         else let (lockret, s) = scall EvOther s;
                  (Ret, q) = InQueue (m_WriterQueue s) body (of_nat (length body)) True lockret;
                  s = s\<lparr>m_WriterQueue := q\<rparr>
              in (if Ret \<noteq> SHM_SUCCESS then -1 else 0, s))"

section \<open>Packets\<close>

text \<open>\<open>Sex % 2\<close> has the sign of \<open>Sex\<close>.\<close>

definition registered :: "u64 \<Rightarrow> RegisterInfo \<Rightarrow> int \<Rightarrow> ShmUserInfo" where
  "registered UserID r t = ShmUserInfo_new
     \<lparr>ui_UserID := UserID, ui_LastActiveTime := word_of_int t, ui_NickName := print_s MAX_NAME_LENGTH (ri_nickname r),
      ui_Level := 0, ui_VipLevel := 0, ui_Sex := word_of_int (if ri_sex r < 0 then - (- ri_sex r mod 2) else ri_sex r mod 2),
      ui_Birthday := ri_birthday r, ui_TelNo := print_s MAX_TELNO_LENGTH (ri_telno r),
      ui_Address := print_s MAX_ADDR_LENGTH (ri_address r), ui_EMail := print_s MAX_EMAIL_LENGTH (ri_email r)\<rparr>"

text \<open>The answer is 0 also when the user could not be inserted.\<close>

definition user_register :: "user_pb \<Rightarrow> user \<Rightarrow> XYHeaderIn \<Rightarrow> int \<Rightarrow> byte list \<Rightarrow> (int \<times> user) option" where
  "user_register P s HeaderIn n body =
     (case parse_UserRegisterReq P n body of
        None \<Rightarrow> Some (-1, s)
      | Some (UserID, r) \<Rightarrow> do {
          let (t, s) = scall EvOther s;
          (_, us) \<leftarrow> InsertUserInfo (m_UserShm s) (registered UserID r t);
          let s = snd (WriteUserInfo P (s\<lparr>m_UserShm := us\<rparr>) UserID);
          Some (0, snd (sv_reply s HeaderIn Cmd_User_Register_Rsp (ser_UserRegisterRsp P UserID 0)))
        })"

text \<open>
  The request reaches the user \<open>OtherUserID\<close> of this server: what the two requests for a friend have in common. \<open>pkt\<close> is the whole packet,
  which goes to the loader when the user is not in the table.
\<close>

definition add_friend_here :: "user_pb \<Rightarrow> user \<Rightarrow> XYHeaderIn \<Rightarrow> byte list \<Rightarrow> u64 \<Rightarrow> string \<Rightarrow> u64 \<Rightarrow> (int \<times> user) option" where
  "add_friend_here P s HeaderIn pkt UserID strNickName OtherUserID = do {
     (Ret, s) \<leftarrow> LoadUserInfoWhileNotExist P s OtherUserID pkt;
     if Ret = 1 then Some (0, s)
     else if Ret \<noteq> 0 then Some (-1, s)
     else do {
       (Ret, us, w) \<leftarrow> AddFriendReq (m_UserShm s) (sv_os s) UserID OtherUserID strNickName;
       let s = s\<lparr>m_UserShm := us, sv_os := w\<rparr>;
       if Ret \<noteq> 0 then Some (-1, s)
       else let s = snd (WriteUserInfo P s OtherUserID)
            in Some (0, snd (sv_reply s HeaderIn Cmd_User_AddFriend_Rsp (ser_AddFriendRsp P 0)))
     }
   }"

text \<open>A request for a friend on another server: that server answers, so it gets the sender of the request in the header.\<close>

definition add_friend_there :: "user_pb \<Rightarrow> user \<Rightarrow> XYHeaderIn \<Rightarrow> u64 \<Rightarrow> string \<Rightarrow> u64 \<Rightarrow> int \<Rightarrow> user" where
  "add_friend_there P s HeaderIn UserID NickName OtherUserID ServerID =
     (let (t, s) = scall EvOther s
      in snd (User_Send2Server s (reply_header s HeaderIn (hi_SrcID HeaderIn) Cmd_User_AddFriend_Req2 t) (word_of_int ServerID) TO_SRV 0
                (ser_UserAddFriendReq P UserID NickName OtherUserID)))"

definition user_add_friend :: "user_pb \<Rightarrow> user \<Rightarrow> XYHeaderIn \<Rightarrow> int \<Rightarrow> byte list \<Rightarrow> byte list \<Rightarrow> (int \<times> user) option" where
  "user_add_friend P s HeaderIn n body pkt =
     (case parse_AddFriendReq P n body of
        None \<Rightarrow> Some (-1, s)
      | Some OtherUserID \<Rightarrow>
          do {
            let UserID = hi_UserID HeaderIn;
            (Ret, s) \<leftarrow> LoadUserInfoWhileNotExist P s UserID pkt;
            if Ret = 1 then Some (0, s)
            else if Ret \<noteq> 0 then Some (-1, s)
            else do {
              (Ret, CurUserInfo) \<leftarrow> GetUserInfo (m_UserShm s) UserID ShmUserInfo_new;
              if Ret \<noteq> 0 then Some (-1, s)
              else let ServerID = GetUserServer OtherUserID
                   in if ServerID = GetServerID s
                      then add_friend_here P s HeaderIn pkt UserID (ui_NickName CurUserInfo) OtherUserID
                      else Some (0, add_friend_there P s HeaderIn UserID (ui_NickName CurUserInfo) OtherUserID ServerID)
            }
          })"

definition user_add_friend2 :: "user_pb \<Rightarrow> user \<Rightarrow> XYHeaderIn \<Rightarrow> int \<Rightarrow> byte list \<Rightarrow> byte list \<Rightarrow> (int \<times> user) option" where
  "user_add_friend2 P s HeaderIn n body pkt =
     (case parse_UserAddFriendReq P n body of
        None \<Rightarrow> Some (-1, s)
      | Some (UserID1, strNickName, UserID2) \<Rightarrow>
          add_friend_here P s HeaderIn pkt UserID1 strNickName UserID2)"

text \<open>
  \<open>buf\<close> are the bytes from \<open>pCurBuffPos\<close> on. A packet that is shorter than its header gives \<open>ParseFromArray\<close> a negative size, for which
  nothing is promised (\<open>None\<close>).
\<close>

definition User_DealPkg :: "user_pb \<Rightarrow> user \<Rightarrow> byte list \<Rightarrow> int \<Rightarrow> (int \<times> user) option" where
  "User_DealPkg P s buf PkgLen =
     (let HeaderIn = fst (XYHeaderIn_Read buf 0); n = PkgLen - int XYHeaderIn_GetHeaderLen;
          body = mem_read buf XYHeaderIn_GetHeaderLen (nat n); pkt = mem_read buf 0 (nat PkgLen); CmdID = hi_CmdID HeaderIn
      in if CmdID \<in> {Cmd_User_Register_Req, Cmd_User_AddFriend_Req, Cmd_User_AddFriend_Req2} \<and> n < 0 then None
         else if CmdID = Cmd_User_Register_Req then user_register P s HeaderIn n body
         else if CmdID = Cmd_User_AddFriend_Req then user_add_friend P s HeaderIn n body pkt
         else if CmdID = Cmd_User_AddFriend_Req2 then user_add_friend2 P s HeaderIn n body pkt
         else Some (0, s))"

section \<open>The loop\<close>

fun remove_invalid :: "user \<Rightarrow> u64 list \<Rightarrow> user option" where
  "remove_invalid s [] = Some s"
| "remove_invalid s (u # us) = do {
     (_, m, w) \<leftarrow> RemoveUserInfoWhenInValid (m_UserShm s) (sv_os s) u;
     remove_invalid (s\<lparr>m_UserShm := m, sv_os := w\<rparr>) us
   }"

definition User_CheckValid :: "user \<Rightarrow> user option" where
  "User_CheckValid s = do {
     (m, w, vctUserID) \<leftarrow> CheckUserIsValid (m_UserShm s) (sv_os s) [];
     remove_invalid (s\<lparr>m_UserShm := m, sv_os := w\<rparr>) vctUserID
   }"

text \<open>
  Receiving from the loader: a request it gives back is dealt with like a packet of the bus, unless it could not load the user. The packet
  is read from a string of its size, so it must have a header.
\<close>

definition user_from_loader :: "user_pb \<Rightarrow> user \<Rightarrow> byte list \<Rightarrow> (int \<times> user) option" where
  "user_from_loader P s msg =
     (case parse_LoadUserInfoRsp P msg of
        None \<Rightarrow> Some (-1, s)
      | Some (Result, strRequest) \<Rightarrow>
          if Result \<noteq> 0 then Some (-1, s)
          else if length strRequest + 1 < XYHeaderIn_GetHeaderLen then None
          else User_DealPkg P s (strRequest @ [0]) (int (length strRequest)))"

definition loader_receive :: "user \<Rightarrow> byte list \<Rightarrow> int \<times> byte list \<times> int \<times> user" where
  "loader_receive s buf =
     (let (lockret, s) = scall EvOther s;
          (Ret, buf, RecvLen, q) = OutQueue_int (m_LoaderRecvQueue s) buf (int XY_PKG_MAX_LEN) True lockret
      in (Ret, buf, RecvLen, s\<lparr>m_LoaderRecvQueue := q\<rparr>))"

record user_loop =
  ul_user :: user
  ul_buf :: "byte list"
  ul_LastStateTime :: int

text \<open>Each of the two receiving parts of a round: \<open>Some (go, empty, L)\<close>, where \<open>go\<close> is off after a \<open>continue\<close>.\<close>

definition round_bus :: "user_pb \<Rightarrow> user_loop \<Rightarrow> (bool \<times> bool \<times> user_loop) option" where
  "round_bus P L =
     (let (Ret, buf, RecvLen, s) = sv_receive (ul_user L) (ul_buf L); L = L\<lparr>ul_user := s, ul_buf := buf\<rparr>
      in if Ret = E_SHM_QUEUE_EMPTY then Some (True, True, L)
         else if Ret \<noteq> 0 then Some (False, True, L)
         else do {
           (r, s) \<leftarrow> User_DealPkg P s (drop BusHeader_GetHeaderLen buf) (RecvLen - int BusHeader_GetHeaderLen);
           Some (r = 0, False, L\<lparr>ul_user := s\<rparr>)
         })"

definition round_loader :: "user_pb \<Rightarrow> user_loop \<Rightarrow> (bool \<times> bool \<times> user_loop) option" where
  "round_loader P L =
     (let (Ret, buf, RecvLen, s) = loader_receive (ul_user L) (ul_buf L); L = L\<lparr>ul_user := s, ul_buf := buf\<rparr>
      in if Ret = E_SHM_QUEUE_EMPTY then Some (True, True, L)
         else if Ret \<noteq> 0 then Some (False, True, L)
         else do {
           (r, s) \<leftarrow> user_from_loader P s (mem_read buf 0 (nat RecvLen));
           Some (r = 0, False, L\<lparr>ul_user := s\<rparr>)
         })"

definition round_end :: "user_pb \<Rightarrow> user_loop \<Rightarrow> bool \<Rightarrow> user_loop option" where
  "round_end P L EmptyFlag = do {
     let (t, s) = sv_report (ser_UserState P) (ul_LastStateTime L) (ul_user L);
     s \<leftarrow> User_CheckValid s;
     Some (L\<lparr>ul_user := (if EmptyFlag then snd (scall EvOther s) else s), ul_LastStateTime := t\<rparr>)
   }"

definition user_round :: "user_pb \<Rightarrow> user_loop \<Rightarrow> user_loop option" where
  "user_round P L = do {
     (go, e1, L) \<leftarrow> round_bus P L;
     if \<not> go then Some L
     else do {
       (go, e2, L) \<leftarrow> round_loader P L;
       if \<not> go then Some L else round_end P L (e1 \<and> e2)
     }
   }"

fun User_Run_loop :: "user_pb \<Rightarrow> user_loop \<Rightarrow> nat \<Rightarrow> user_loop option" where
  "User_Run_loop P L 0 = Some L"
| "User_Run_loop P L (Suc n) = (case user_round P L of None \<Rightarrow> None | Some L \<Rightarrow> User_Run_loop P L n)"

definition User_Run :: "user_pb \<Rightarrow> user \<Rightarrow> byte list \<Rightarrow> nat \<Rightarrow> user_loop option" where
  "User_Run P s pRecvBuff n =
     (let (t, s) = scall EvOther s in User_Run_loop P \<lparr>ul_user = s, ul_buf = pRecvBuff, ul_LastStateTime = t\<rparr> n)"

section \<open>Init\<close>

record user_conf =
  uc_BusConfPath :: string
  uc_LoaderSend :: "int \<times> int"
  uc_LoaderRecv :: "int \<times> int"
  uc_Writer :: "int \<times> int"
  uc_ModuleName :: string

definition user_read_conf :: "'a surroundings_scheme \<Rightarrow> string \<Rightarrow> user \<Rightarrow> (user_conf \<times> user) option option" where
  "user_read_conf E pConfFile s = do {
     f \<leftarrow> open_ini E pConfFile;
     if \<not> IsValid f then Some None
     else do {
       (_, sid) \<leftarrow> GetInt f ''USER'' ''ServerID'' 0 (GetServerID s);
       (_, BusConfPath) \<leftarrow> GetString f ''USER'' ''BusConfPath'' [] 256;
       (_, st) \<leftarrow> GetInt f ''USER'' ''StateTime'' 0 (sv_StateTime s);
       (_, lsk) \<leftarrow> GetInt f ''USER'' ''LoaderSendShmKey'' 0 0;
       (_, lsz) \<leftarrow> GetInt f ''USER'' ''LoaderSendShmSize'' 0 0;
       (_, lrk) \<leftarrow> GetInt f ''USER'' ''LoaderRecvShmKey'' 0 0;
       (_, lrz) \<leftarrow> GetInt f ''USER'' ''LoaderRecvShmSize'' 0 0;
       (_, wk) \<leftarrow> GetInt f ''USER'' ''WriterShmKey'' 0 0;
       (_, wz) \<leftarrow> GetInt f ''USER'' ''WriterShmSize'' 0 0;
       (_, ModuleName) \<leftarrow> GetString f ''LOG'' ''ModuleName'' ''user'' 256;
       (_, LogLocal) \<leftarrow> GetInt f ''LOG'' ''LogLocal'' 1 0;
       (_, LogLevel) \<leftarrow> GetInt f ''LOG'' ''LogLevel'' 3 0;
       (_, LogPath) \<leftarrow> GetString f ''LOG'' ''LogPath'' ''/dev/null'' 1024;
       Some (Some (\<lparr>uc_BusConfPath = BusConfPath, uc_LoaderSend = (lsk, lsz), uc_LoaderRecv = (lrk, lrz), uc_Writer = (wk, wz),
                    uc_ModuleName = ModuleName\<rparr>, s\<lparr>sv_ServerID := word_of_int sid, sv_StateTime := st\<rparr>))
     }
   }"

text \<open>The five queues, in this order; the first that cannot be had ends \<open>Init\<close>.\<close>

definition user_open_queues :: "'a surroundings_scheme \<Rightarrow> user_conf \<Rightarrow> int \<times> int \<Rightarrow> int \<times> int \<Rightarrow> user \<Rightarrow> (bool \<times> user) option" where
  "user_open_queues E cf snd_q rcv_q s = do {
     q \<leftarrow> need_queue E rcv_q;
     case q of None \<Rightarrow> Some (False, s) | Some q \<Rightarrow> do {
       let s = s\<lparr>sv_RecvQueue := q\<rparr>;
       q \<leftarrow> need_queue E snd_q;
       case q of None \<Rightarrow> Some (False, s) | Some q \<Rightarrow> do {
         let s = s\<lparr>sv_SendQueue := q\<rparr>;
         q \<leftarrow> need_queue E (uc_LoaderSend cf);
         case q of None \<Rightarrow> Some (False, s) | Some q \<Rightarrow> do {
           let s = s\<lparr>m_LoaderSendQueue := q\<rparr>;
           q \<leftarrow> need_queue E (uc_LoaderRecv cf);
           case q of None \<Rightarrow> Some (False, s) | Some q \<Rightarrow> do {
             let s = s\<lparr>m_LoaderRecvQueue := q\<rparr>;
             q \<leftarrow> need_queue E (uc_Writer cf);
             Some (case q of None \<Rightarrow> (False, s) | Some q \<Rightarrow> (True, s\<lparr>m_WriterQueue := q\<rparr>))
           }
         }
       }
     }
   }"

definition User_Init :: "'a user_surroundings_scheme \<Rightarrow> string \<Rightarrow> user \<Rightarrow> (int \<times> user) option" where
  "User_Init E pConfFile s = do {
     conf \<leftarrow> user_read_conf E pConfFile s;
     case conf of
       None \<Rightarrow> Some (-1, s)
     | Some (cf, s) \<Rightarrow>
         if sv_ServerID s = 0 \<or> uc_BusConfPath cf = [] \<or> uc_ModuleName cf = [] then Some (-1, s)
         else do {
           BusFile \<leftarrow> open_ini E (uc_BusConfPath cf);
           if \<not> IsValid BusFile then Some (-1, s)
           else do {
             (snd_q, rcv_q) \<leftarrow> sv_read_queues BusFile s;
             (ok, s) \<leftarrow> user_open_queues E cf snd_q rcv_q s;
             if \<not> ok then Some (-1, s)
             else do {
               (Ret, us) \<leftarrow> UserShm_Init E pConfFile (m_UserShm s);
               Some (if Ret \<noteq> 0 then -1 else 0, s\<lparr>m_UserShm := us\<rparr>)
             }
           }
         }
   }"

end
