(* ===== verification/UserStore.thy ===== *)
theory UserStore
  imports User
begin

text \<open>
  The processes that load users from the database (\<open>CLoaderUser\<close>) and write them back (\<open>CWriterUser\<close>). Each maps the table of users and has
  its own connections to the two databases.
\<close>

section \<open>State\<close>

record 'w loader =
  l_LoaderRecvQueue :: shmqueue
  l_LoaderSendQueue :: shmqueue
  l_UserShm :: usershm
  l_DBConfig :: "DBConfig list"
  l_DBConn :: "mysql list"
  l_db :: 'w
  l_os :: os

record 'w writer =
  w_WriterQueue :: shmqueue
  w_UserShm :: usershm
  w_DBConfig :: "DBConfig list"
  w_DBConn :: "mysql list"
  w_db :: 'w
  w_os :: os

section \<open>Loading\<close>

text \<open>
  \<open>snprintf(dst, n, s.c_str())\<close>: the text from the database is the format. \<open>%%\<close> prints a percent sign, any other conversion
  reads an argument that is not there (\<open>None\<close>).
\<close>

fun format_only :: "string \<Rightarrow> string option" where
  "format_only [] = Some []"
| "format_only (c # cs) =
     (if c \<noteq> CHR ''%'' then map_option (\<lambda>r. c # r) (format_only cs)
      else case cs of
        [] \<Rightarrow> None
      | d # ds \<Rightarrow> if d = CHR ''%'' then map_option (\<lambda>r. CHR ''%'' # r) (format_only ds) else None)"

definition print_fmt :: "nat \<Rightarrow> string \<Rightarrow> string option" where
  "print_fmt n s = map_option (take (n - 1)) (format_only (c_str s))"

text \<open>The birthday, the friends and the requests of the message are not read.\<close>

definition UserProtoString2Struct :: "user_pb \<Rightarrow> int \<Rightarrow> ShmUserInfo \<Rightarrow> string \<Rightarrow> (int \<times> ShmUserInfo) option" where
  "UserProtoString2Struct P t CurUserInfo strProto =
     (case parse_DBUserInfo P strProto of
        None \<Rightarrow> Some (-1, CurUserInfo)
      | Some User \<Rightarrow> do {
          NickName \<leftarrow> print_fmt MAX_NAME_LENGTH (dbu_nickname User);
          TelNo \<leftarrow> print_fmt MAX_TELNO_LENGTH (dbu_telno User);
          Address \<leftarrow> print_fmt MAX_ADDR_LENGTH (dbu_address User);
          EMail \<leftarrow> print_fmt MAX_EMAIL_LENGTH (dbu_email User);
          PersonalNote \<leftarrow> print_fmt MAX_PERSONAL_NOTE_LENGTH (dbu_personalnote User);
          Some (0, CurUserInfo\<lparr>ui_UserID := dbu_userid User, ui_Status := USER_STATUS_LOADED, ui_LastActiveTime := word_of_int t,
                    ui_NickName := NickName, ui_Level := sint (dbu_level User), ui_VipLevel := sint (dbu_viplevel User),
                    ui_Sex := word_of_int (dbu_sex User), ui_TelNo := TelNo, ui_Address := Address, ui_EMail := EMail,
                    ui_PersonalNote := PersonalNote\<rparr>)
        })"

definition load_sql :: "DBConfig \<Rightarrow> nat \<Rightarrow> u64 \<Rightarrow> string" where
  "load_sql cfg t UserID = ''select data from '' @ sDB (db_Access cfg) @ ''.'' @ TableName cfg @ ''_'' @ dec_nat t
     @ '' where id='' @ dec_nat (unat UserID) @ '' limit 1''"

text \<open>The body of \<open>do ... while (false)\<close>: 0, or -1 where it breaks. The array for the statement has 256 bytes.\<close>

definition load_user :: "'w mysql_api \<Rightarrow> user_pb \<Rightarrow> 'w loader \<Rightarrow> u64 \<Rightarrow> (int \<times> 'w loader) option" where
  "load_user A P s UserID = do {
     let DBIndex = GetUserDBIndex UserID;
     let TableIndex = GetUserTableIndex UserID;
     let sql = sql_arg 256 (load_sql (l_DBConfig s ! DBIndex) TableIndex UserID);
     (Ret, RecNum, m, w) \<leftarrow> MySQL_Select A DBIndex sql 0 (l_DBConn s ! DBIndex) (l_db s);
     let s = s\<lparr>l_DBConn := (l_DBConn s)[DBIndex := m], l_db := w\<rparr>;
     if Ret \<noteq> 0 then Some (-1, s)
     else if RecNum \<noteq> 1 then Some (-1, s)
     else do {
       (data, m) \<leftarrow> first_field m;
       let s = s\<lparr>l_DBConn := (l_DBConn s)[DBIndex := m]\<rparr>;
       case data of
         None \<Rightarrow> Some (-1, s)
       | Some strProto \<Rightarrow> do {
           let (t, w) = sys_time (l_os s);
           (Ret, CurUserInfo) \<leftarrow> UserProtoString2Struct P t ShmUserInfo_new strProto;
           let s = (if parse_DBUserInfo P strProto = None then s else s\<lparr>l_os := w\<rparr>);
           if Ret \<noteq> 0 then Some (-1, s)
           else do {
             (Ret, us) \<leftarrow> InsertUserInfo (l_UserShm s) CurUserInfo;
             Some (if Ret \<noteq> 0 then -1 else 0, s\<lparr>l_UserShm := us\<rparr>)
           }
         }
     }
   }"

definition ProcessLoaderUserInfo :: "'w mysql_api \<Rightarrow> user_pb \<Rightarrow> 'w loader \<Rightarrow> u64 \<Rightarrow> byte list \<Rightarrow> (int \<times> 'w loader) option" where
  "ProcessLoaderUserInfo A P s UserID strRequest = do {
     (Result, s) \<leftarrow> load_user A P s UserID;
     let DBIndex = GetUserDBIndex UserID;
     m \<leftarrow> MySQL_ReleaseRes (l_DBConn s ! DBIndex);
     let s = s\<lparr>l_DBConn := (l_DBConn s)[DBIndex := m]\<rparr>;
     let body = ser_LoadUserInfoRsp P Result strRequest;
     if length body > XY_PKG_MAX_LEN + 16 then Some (-1, s)
     else let (lockret, w) = sys_int EvOther (l_os s);
              (Ret, q) = InQueue (l_LoaderSendQueue s) body (of_nat (length body)) True lockret;
              s = s\<lparr>l_os := w, l_LoaderSendQueue := q\<rparr>
          in Some (if Ret \<noteq> SHM_SUCCESS then -1 else 0, s)
   }"

text \<open>One round of the loop of \<open>Entity\<close>; \<open>Inl\<close> is its return of -1.\<close>

definition loader_round :: "'w mysql_api \<Rightarrow> user_pb \<Rightarrow> 'w loader \<Rightarrow> (int + 'w loader) option" where
  "loader_round A P s = do {
     let (lockret, w) = sys_int EvOther (l_os s);
     let (Ret, buf, RecvLen, q) = OutQueue_int (l_LoaderRecvQueue s) (replicate XY_PKG_MAX_LEN 0) (int XY_PKG_MAX_LEN) True lockret;
     let s = s\<lparr>l_os := w, l_LoaderRecvQueue := q\<rparr>;
     if Ret \<noteq> SHM_SUCCESS then Some (Inr (s\<lparr>l_os := snd (sys_int EvOther (l_os s))\<rparr>))
     else case parse_LoadUserInfoReq P (mem_read buf 0 (nat RecvLen)) of
       None \<Rightarrow> Some (Inl (-1))
     | Some (UserID, strRequest) \<Rightarrow> map_option (\<lambda>(r, s). Inr s) (ProcessLoaderUserInfo A P s UserID strRequest)
   }"

fun Loader_loop :: "'w mysql_api \<Rightarrow> user_pb \<Rightarrow> 'w loader \<Rightarrow> nat \<Rightarrow> (int \<times> 'w loader) option" where
  "Loader_loop A P s 0 = Some (0, s)"
| "Loader_loop A P s (Suc n) =
     (case loader_round A P s of None \<Rightarrow> None | Some (Inl e) \<Rightarrow> Some (e, s) | Some (Inr s) \<Rightarrow> Loader_loop A P s n)"

definition Loader_Entity :: "'w mysql_api \<Rightarrow> user_pb \<Rightarrow> 'w loader \<Rightarrow> nat \<Rightarrow> (int \<times> 'w loader) option" where
  "Loader_Entity A P s n =
     (let (r, ms, w) = connect_dbs A (l_DBConfig s) (l_DBConn s) (l_db s); s = s\<lparr>l_DBConn := ms, l_db := w\<rparr>
      in if r \<noteq> 0 then Some (-1, s) else Loader_loop A P s n)"

definition Loader_Init :: "'a user_surroundings_scheme \<Rightarrow> string \<Rightarrow> 'w loader \<Rightarrow> (int \<times> 'w loader) option" where
  "Loader_Init E pConfFile s = do {
     CurConf \<leftarrow> open_ini E pConfFile;
     if \<not> IsValid CurConf then Some (-1, s)
     else do {
       (_, ProcNum) \<leftarrow> GetInt CurConf ''LOADER'' ''ProcNum'' 1 0;
       (_, rk) \<leftarrow> GetInt CurConf ''LOADER'' ''LoaderRecvShmKey'' 0 0;
       (_, rz) \<leftarrow> GetInt CurConf ''LOADER'' ''LoaderRecvShmSize'' 0 0;
       (_, sk) \<leftarrow> GetInt CurConf ''LOADER'' ''LoaderSendShmKey'' 0 0;
       (_, sz) \<leftarrow> GetInt CurConf ''LOADER'' ''LoaderSendShmSize'' 0 0;
       (_, DBConfPath) \<leftarrow> GetString CurConf ''LOADER'' ''DBConfPath'' [] 256;
       (_, UserConfPath) \<leftarrow> GetString CurConf ''LOADER'' ''UserConfPath'' [] 256;
       (_, LogLocal) \<leftarrow> GetInt CurConf ''LOADER'' ''LogLocal'' 0 0;
       (_, ModuleName) \<leftarrow> GetString CurConf ''LOADER'' ''ModuleName'' ''loader'' 32;
       (_, LogLevel) \<leftarrow> GetInt CurConf ''LOADER'' ''LogLevel'' 3 3;
       (_, LogPath) \<leftarrow> GetString CurConf ''LOADER'' ''LogPath'' ''log'' 256;
       (Ret, us) \<leftarrow> UserShm_Init E UserConfPath (l_UserShm s);
       let s = s\<lparr>l_UserShm := us\<rparr>;
       if Ret \<noteq> 0 then Some (-1, s)
       else do {
         q \<leftarrow> need_queue E (rk, rz);
         case q of None \<Rightarrow> Some (-1, s) | Some q \<Rightarrow> do {
           let s = s\<lparr>l_LoaderRecvQueue := q\<rparr>;
           q \<leftarrow> need_queue E (sk, sz);
           case q of None \<Rightarrow> Some (-1, s) | Some q \<Rightarrow> do {
             let s = s\<lparr>l_LoaderSendQueue := q\<rparr>;
             DBFile \<leftarrow> open_ini E DBConfPath;
             if \<not> IsValid DBFile then Some (-1, s)
             else do {
               cfgs \<leftarrow> read_dbs DBFile (l_DBConfig s);
               Some (0, s\<lparr>l_DBConfig := cfgs\<rparr>)
             }
           }
         }
       }
     }
   }"

section \<open>Writing back\<close>

text \<open>The friends and the requests are not written.\<close>

definition Struct2ProtoStringUser :: "user_pb \<Rightarrow> ShmUserInfo \<Rightarrow> int \<times> string" where
  "Struct2ProtoStringUser P u =
     (case ser_DBUserInfo P \<lparr>dbu_userid = ui_UserID u, dbu_nickname = ui_NickName u, dbu_level = word_of_int (ui_Level u),
             dbu_viplevel = word_of_int (ui_VipLevel u), dbu_sex = sint (ui_Sex u), dbu_birthday = ui_Birthday u, dbu_telno = ui_TelNo u,
             dbu_address = ui_Address u, dbu_email = ui_EMail u, dbu_personalnote = ui_PersonalNote u\<rparr> of
        None \<Rightarrow> (-1, [])
      | Some strProto \<Rightarrow> (0, strProto))"

definition CheckUserInfoValid :: "u64 \<Rightarrow> ShmUserInfo \<Rightarrow> int" where
  "CheckUserInfoValid UserID u = (if UserID \<noteq> ui_UserID u then 1 else if ui_UserID u = 0 then 2 else 0)"

definition SHM_USER_INFO_SIZE :: nat where "SHM_USER_INFO_SIZE = 9298"

definition replace_sql :: "DBConfig \<Rightarrow> nat \<Rightarrow> u64 \<Rightarrow> string \<Rightarrow> string" where
  "replace_sql cfg t UserID val = ''REPLACE INTO '' @ sDB (db_Access cfg) @ ''.'' @ TableName cfg @ ''_'' @ dec_nat t
     @ '' values ( '' @ dec_nat (unat UserID) @ '','' @ [CHR 0x27] @ val @ [CHR 0x27] @ '')''"

text \<open>
  \<open>EscapeString\<close> writes its result and a zero to an array of the size of a \<open>ShmUserInfo\<close>; a longer result has overwritten what follows
  (\<open>None\<close>) before its length is checked. It is then used as a C string.
\<close>

definition ProcessWriterUserInfo :: "'w mysql_api \<Rightarrow> user_pb \<Rightarrow> 'w writer \<Rightarrow> u64 \<Rightarrow> (int \<times> 'w writer) option" where
  "ProcessWriterUserInfo A P s UserID = do {
     (Ret, CurUserInfo) \<leftarrow> GetUserInfo (w_UserShm s) UserID ShmUserInfo_new;
     if Ret \<noteq> 0 then Some (-1, s)
     else if CheckUserInfoValid UserID CurUserInfo \<noteq> 0 then Some (-1, s)
     else do {
       let DBIndex = GetUserDBIndex UserID;
       let TableIndex = GetUserTableIndex UserID;
       let (Ret, strProto) = Struct2ProtoStringUser P CurUserInfo;
       if Ret \<noteq> 0 then Some (-3, s)
       else do {
         let szValString = MySQL_EscapeString A DBIndex strProto (w_db s);
         if length szValString \<ge> SHM_USER_INFO_SIZE then None
         else do {
           let strSql = replace_sql (w_DBConfig s ! DBIndex) TableIndex UserID (c_str szValString);
           (Ret, m, w) \<leftarrow> MySQL_Query A DBIndex (sql_str strSql) (w_DBConn s ! DBIndex) (w_db s);
           Some (if Ret \<noteq> 0 then -2 else 0, s\<lparr>w_DBConn := (w_DBConn s)[DBIndex := m], w_db := w\<rparr>)
         }
       }
     }
   }"

definition writer_round :: "'w mysql_api \<Rightarrow> user_pb \<Rightarrow> 'w writer \<Rightarrow> (int + 'w writer) option" where
  "writer_round A P s = do {
     let (lockret, w) = sys_int EvOther (w_os s);
     let (Ret, buf, RecvLen, q) = OutQueue_int (w_WriterQueue s) (replicate 128 0) 128 True lockret;
     let s = s\<lparr>w_os := w, w_WriterQueue := q\<rparr>;
     if Ret \<noteq> SHM_SUCCESS then Some (Inr (s\<lparr>w_os := snd (sys_int EvOther (w_os s))\<rparr>))
     else case parse_WriteUserInfoReq P (mem_read buf 0 (nat RecvLen)) of
       None \<Rightarrow> Some (Inl (-1))
     | Some UserID \<Rightarrow> map_option (\<lambda>(r, s). Inr s) (ProcessWriterUserInfo A P s UserID)
   }"

fun Writer_loop :: "'w mysql_api \<Rightarrow> user_pb \<Rightarrow> 'w writer \<Rightarrow> nat \<Rightarrow> (int \<times> 'w writer) option" where
  "Writer_loop A P s 0 = Some (0, s)"
| "Writer_loop A P s (Suc n) =
     (case writer_round A P s of None \<Rightarrow> None | Some (Inl e) \<Rightarrow> Some (e, s) | Some (Inr s) \<Rightarrow> Writer_loop A P s n)"

definition Writer_Entity :: "'w mysql_api \<Rightarrow> user_pb \<Rightarrow> 'w writer \<Rightarrow> nat \<Rightarrow> (int \<times> 'w writer) option" where
  "Writer_Entity A P s n =
     (let (r, ms, w) = connect_dbs A (w_DBConfig s) (w_DBConn s) (w_db s); s = s\<lparr>w_DBConn := ms, w_db := w\<rparr>
      in if r \<noteq> 0 then Some (-1, s) else Writer_loop A P s n)"

definition Writer_Init :: "'a user_surroundings_scheme \<Rightarrow> string \<Rightarrow> 'w writer \<Rightarrow> (int \<times> 'w writer) option" where
  "Writer_Init E pConfFile s = do {
     CurConf \<leftarrow> open_ini E pConfFile;
     if \<not> IsValid CurConf then Some (-1, s)
     else do {
       (_, ProcNum) \<leftarrow> GetInt CurConf ''WRITER'' ''ProcNum'' 1 0;
       (_, wk) \<leftarrow> GetInt CurConf ''WRITER'' ''WriterShmKey'' 0 0;
       (_, wz) \<leftarrow> GetInt CurConf ''WRITER'' ''WriterShmSize'' 0 0;
       (_, DBConfPath) \<leftarrow> GetString CurConf ''WRITER'' ''DBConfPath'' [] 256;
       (_, UserConfPath) \<leftarrow> GetString CurConf ''WRITER'' ''UserConfPath'' [] 256;
       (_, LogLocal) \<leftarrow> GetInt CurConf ''WRITER'' ''LogLocal'' 0 0;
       (_, ModuleName) \<leftarrow> GetString CurConf ''WRITER'' ''ModuleName'' ''writer'' 32;
       (_, LogLevel) \<leftarrow> GetInt CurConf ''WRITER'' ''LogLevel'' 3 3;
       (_, LogPath) \<leftarrow> GetString CurConf ''WRITER'' ''LogPath'' ''log'' 256;
       (Ret, us) \<leftarrow> UserShm_Init E UserConfPath (w_UserShm s);
       let s = s\<lparr>w_UserShm := us\<rparr>;
       if Ret \<noteq> 0 then Some (-1, s)
       else do {
         q \<leftarrow> need_queue E (wk, wz);
         case q of None \<Rightarrow> Some (-1, s) | Some q \<Rightarrow> do {
           let s = s\<lparr>w_WriterQueue := q\<rparr>;
           DBFile \<leftarrow> open_ini E DBConfPath;
           if \<not> IsValid DBFile then Some (-1, s)
           else do {
             cfgs \<leftarrow> read_dbs DBFile (w_DBConfig s);
             Some (0, s\<lparr>w_DBConfig := cfgs\<rparr>)
           }
         }
       }
     }
   }"

end
