(* ===== verification/UserSpec.thy ===== *)
theory UserSpec
  imports UserStore
begin

text \<open>
  The user server over its table: the table is a map of users, the entries are well-formed whatever arrives, and a request for a user who is
  not in the table is dealt with when the loader has brought the user in.
\<close>

section \<open>The table as a map\<close>

definition us_rel :: "int \<Rightarrow> usershm \<Rightarrow> (u64 \<rightharpoonup> ShmUserInfo) \<Rightarrow> bool" where
  "us_rel cap us M \<longleftrightarrow> hl_cap_rel cap (m_UserInfoMap us) M
     \<and> m_MaxUserNodeNum us = int (length (m_pstIndex (m_UserInfoMap us)))
     \<and> 0 \<le> m_CheckUserPos us \<and> m_CheckUserPos us < m_MaxUserNodeNum us"

lemma us_relI:
  "us_rel cap us M \<Longrightarrow> hl_cap_rel cap h M' \<Longrightarrow> length (m_pstIndex h) = length (m_pstIndex (m_UserInfoMap us)) \<Longrightarrow>
   us_rel cap (us\<lparr>m_UserInfoMap := h\<rparr>) M'"
  by (simp add: us_rel_def)

lemma us_rel_hl: "us_rel cap us M \<Longrightarrow> hl_rel (m_UserInfoMap us) M"
  by (simp add: us_rel_def hl_cap_rel_def)

text \<open>The scan goes on where it was.\<close>

definition same_scan :: "usershm \<Rightarrow> usershm \<Rightarrow> bool" where
  "same_scan us us' \<longleftrightarrow> m_CheckUserPos us' = m_CheckUserPos us \<and> m_MaxUserNodeNum us' = m_MaxUserNodeNum us"

lemma same_scan_simps [simp]: "same_scan us us" "same_scan us (us'\<lparr>m_UserInfoMap := h\<rparr>) = same_scan us us'"
  by (simp_all add: same_scan_def)

lemma same_scan_trans: "same_scan us us' \<Longrightarrow> same_scan us' us'' \<Longrightarrow> same_scan us us''"
  by (simp add: same_scan_def)

definition user_insert :: "int \<Rightarrow> (u64 \<rightharpoonup> ShmUserInfo) \<Rightarrow> ShmUserInfo \<Rightarrow> int \<times> (u64 \<rightharpoonup> ShmUserInfo)" where
  "user_insert cap M i =
     (if ui_UserID i = 0 \<or> ui_UserID i \<in> dom M \<or> int (card (dom M)) + 1 \<ge> cap then (-1, M) else (0, M(ui_UserID i \<mapsto> i)))"

lemma InsertUserInfo_ok:
  assumes "us_rel cap us M"
  shows "\<exists>us'. InsertUserInfo us i = Some (fst (user_insert cap M i), us') \<and> us_rel cap us' (snd (user_insert cap M i))"
proof (cases "ui_UserID i = 0")
  case True
  with assms show ?thesis by (simp add: InsertUserInfo_def user_insert_def)
next
  case False
  obtain h where h: "HL_Insert (m_UserInfoMap us) (ui_UserID i) i = Some (fst (map_insert cap M (ui_UserID i) i), h)"
    "hl_cap_rel cap h (snd (map_insert cap M (ui_UserID i) i))"
    using HL_Insert_map [of cap "m_UserInfoMap us" M "ui_UserID i" i] assms by (auto simp: us_rel_def)
  have e: "fst (user_insert cap M i) = (if fst (map_insert cap M (ui_UserID i) i) \<noteq> 0 then -1 else 0)"
    "snd (user_insert cap M i) = snd (map_insert cap M (ui_UserID i) i)"
    using False by (simp_all add: user_insert_def map_insert_def hl_codes)
  have "InsertUserInfo us i = Some (fst (user_insert cap M i), us\<lparr>m_UserInfoMap := h\<rparr>)"
    unfolding e InsertUserInfo_def h(1) using False by (simp add: Let_def)
  with us_relI [OF assms h(2) HL_Insert_shape [OF h(1)]] show ?thesis by (auto simp: e(2))
qed

lemma RemoveUserInfo_ok:
  assumes "us_rel cap us M"
  shows "\<exists>us'. RemoveUserInfo us u = Some (if u \<in> dom M then 0 else -1, us') \<and> us_rel cap us' (M(u := None)) \<and> same_scan us us'"
proof -
  obtain r h where h: "HL_Remove (m_UserInfoMap us) u = Some (r, h)" "r = 0 \<longleftrightarrow> u \<in> dom M" "hl_cap_rel cap h (M(u := None))"
    using HL_Remove_rel [OF us_rel_hl [OF assms], of u] assms by (auto simp: us_rel_def hl_cap_rel_def hl_codes split: if_splits)
  from us_relI [OF assms h(3) HL_Remove_shape [OF h(1)]] h(1,2) show ?thesis by (auto simp: RemoveUserInfo_def)
qed

lemma GetUserInfo_ok:
  assumes "us_rel cap us M"
  shows "GetUserInfo us u d = Some (case M u of None \<Rightarrow> (-1, d) | Some i \<Rightarrow> (0, i))"
  using HL_GetData_rel [OF us_rel_hl [OF assms], of u d] by (auto simp: GetUserInfo_def hl_codes split: option.splits)

lemma UpdateUserInfo_ok:
  assumes "us_rel cap us M"
  shows "\<exists>us'. UpdateUserInfo us i = Some (if ui_UserID i \<in> dom M then 0 else -1, us')
    \<and> us_rel cap us' (if ui_UserID i \<in> dom M then M(ui_UserID i \<mapsto> i) else M)"
proof -
  let ?u = "ui_UserID i"
  obtain r h where h: "HL_Update (m_UserInfoMap us) ?u i = Some (r, h)" "r = 0 \<longleftrightarrow> ?u \<in> dom M" "hl_cap_rel cap h (if ?u \<in> dom M then M(?u \<mapsto> i) else M)"
    using HL_Update_rel [OF us_rel_hl [OF assms], of ?u i] assms by (auto simp: us_rel_def hl_cap_rel_def hl_codes split: if_splits)
  have "length (m_pstIndex h) = length (m_pstIndex (m_UserInfoMap us))"
    using h(1) by (auto simp: HL_Update_def dest: HL_assign_shape split: Option.bind_splits if_splits)
  from us_relI [OF assms h(3) this] h(1,2) show ?thesis by (auto simp: UpdateUserInfo_def)
qed

lemma RemoveUserInfoWhenInValid_ok:
  assumes "us_rel cap us M"
  shows "\<exists>us'. RemoveUserInfoWhenInValid us w u = Some (case M u of None \<Rightarrow> (-1, us', w) | Some i \<Rightarrow> (0, us', snd (sys_time w)))
    \<and> us_rel cap us' (case M u of Some i \<Rightarrow> if inactive_since (fst (sys_time w)) i then M(u := None) else M | None \<Rightarrow> M)
    \<and> same_scan us us'"
proof -
  obtain x where x: "HL_Get (m_UserInfoMap us) u = Some x" "case M u of None \<Rightarrow> x = 0 | Some d \<Rightarrow> 0 < x \<and> HL_deref (m_UserInfoMap us) x = Some d"
    using HL_Get_rel [OF us_rel_hl [OF assms]] by blast
  show ?thesis
  proof (cases "M u")
    case None
    with x assms show ?thesis by (simp add: RemoveUserInfoWhenInValid_def)
  next
    case (Some i)
    obtain us' where us': "RemoveUserInfo us u = Some (0, us')" "us_rel cap us' (M(u := None))" "same_scan us us'"
      using RemoveUserInfo_ok [OF assms, of u] Some by (auto simp: domIff)
    show ?thesis using Some x us' assms by (auto simp: RemoveUserInfoWhenInValid_def case_prod_unfold Let_def)
  qed
qed

lemma AddFriendReq_ok:
  fixes w :: os
  assumes "us_rel cap us M"
  defines "t1 \<equiv> os_ret w (os_tick w)" and "t2 \<equiv> os_ret w (Suc (os_tick w))" and "w2 \<equiv> snd (sys_time (snd (sys_time w)))"
  shows "\<exists>us'. AddFriendReq us w u v nick = Some (case M v of None \<Rightarrow> (-1, us', w) | Some i \<Rightarrow> (0, us', w2))
    \<and> us_rel cap us' (case M v of None \<Rightarrow> M | Some i \<Rightarrow> M(v \<mapsto> put_request t1 t2 u nick i))"
proof -
  obtain x where x: "HL_Get (m_UserInfoMap us) v = Some x" "case M v of None \<Rightarrow> x = 0 | Some d \<Rightarrow> 0 < x \<and> HL_deref (m_UserInfoMap us) x = Some d"
    using HL_Get_rel [OF us_rel_hl [OF assms(1)]] by blast
  show ?thesis
  proof (cases "M v")
    case None
    with x assms show ?thesis by (simp add: AddFriendReq_def)
  next
    case (Some i)
    then have p: "0 < x" "HL_deref (m_UserInfoMap us) x = Some i" using x by auto
    obtain h where h: "HL_assign (m_UserInfoMap us) x (put_request t1 t2 u nick i) = Some h" "hl_cap_rel cap h (M(v \<mapsto> put_request t1 t2 u nick i))"
      using HL_assign_rel [OF us_rel_hl [OF assms(1)] x(1) p(1), of "put_request t1 t2 u nick i"] assms(1)
      by (auto simp: us_rel_def hl_cap_rel_def)
    have t: "sys_time w = (t1, os_call EvOther w)" "sys_time (os_call EvOther w) = (t2, w2)"
      by (simp_all add: sys_time_def sys_int_def t1_def t2_def w2_def os_call_def)
    from us_relI [OF assms(1) h(2)] HL_assign_shape [OF h(1)] Some x p h(1) t show ?thesis by (auto simp: AddFriendReq_def)
  qed
qed

section \<open>The scan for inactive users\<close>

text \<open>The users of the chain the scan has come to, whose turn it is to be checked.\<close>

lemma CheckUserIsValid_ok:
  assumes "us_rel cap us M"
  shows "\<exists>us' w' xs. CheckUserIsValid us w vs = Some (us', w', vs @ xs) \<and> us_rel cap us' M \<and> os_ret w' = os_ret w
    \<and> us' = us\<lparr>m_CheckUserPos := (m_CheckUserPos us + 1) mod m_MaxUserNodeNum us\<rparr>
    \<and> (\<forall>u\<in>set xs. \<exists>i n. M u = Some i \<and> inactive_since (os_ret w n) i)
    \<and> (\<forall>u i. M u = Some i \<and> Hash (m_UserInfoMap us) u = m_CheckUserPos us \<and> (\<forall>n. inactive_since (os_ret w n) i) \<longrightarrow> u \<in> set xs)"
proof -
  let ?h = "m_UserInfoMap us" and ?k = "nat (m_CheckUserPos us)"
  obtain cs fs where inv: "hl_inv ?h cs fs" and M: "M = lookup ?h cs" using us_rel_hl [OF assms] by (rule hl_relE)
  have k: "?k < length cs" "m_CheckUserPos us = int ?k" using assms inv by (auto simp: us_rel_def hl_inv_def)
  define key where "key = key_at (m_pstData ?h)"
  define dat where "dat x = Data (m_pstData ?h ! nat x)" for x
  define g where "g u i p = (case sys_time (fst p) of (t, w) \<Rightarrow> (w, if inactive_since t i then snd p @ [u] else snd p))"
    for u :: u64 and i and p :: "os \<times> u64 list"
  have cb: "User_MemFullCallBack = (\<lambda>u i p. (i, g u i p))"
    by (intro ext) (simp add: User_MemFullCallBack_def g_def case_prod_unfold Let_def)
  have fold: "\<exists>w' xs. fold (\<lambda>x. g (key x) (dat x)) ys (w, vs) = (w', vs @ xs) \<and> os_ret w' = os_ret w
      \<and> (\<forall>u\<in>set xs. \<exists>x\<in>set ys. \<exists>n. u = key x \<and> inactive_since (os_ret w n) (dat x))
      \<and> (\<forall>x\<in>set ys. (\<forall>n. inactive_since (os_ret w n) (dat x)) \<longrightarrow> key x \<in> set xs)" for ys w vs
  proof (induction ys arbitrary: w vs)
    case (Cons y ys)
    have g: "g (key y) (dat y) (w, vs) = (os_call EvOther w, if inactive_since (os_ret w (os_tick w)) (dat y) then vs @ [key y] else vs)"
      by (simp add: g_def sys_time_def sys_int_def)
    from Cons.IH [of "os_call EvOther w" "if inactive_since (os_ret w (os_tick w)) (dat y) then vs @ [key y] else vs"]
    show ?case by (auto simp: g os_call_def split: if_splits)
  qed simp
  have chain: "M (key x) = Some (dat x)" if "x \<in> set (cs ! ?k)" for x
  proof -
    have e: "distinct (map key (concat cs))" "map_of (map (\<lambda>x. (key x, dat x)) (concat cs)) = M"
      using hl_entries [OF inv] M unfolding key_def dat_def by blast+
    have "x \<in> set (concat cs)" using that k(1) by (auto intro: nth_mem)
    then have "map_of (map (\<lambda>x. (key x, dat x)) (concat cs)) (key x) = Some (dat x)"
      using e(1) by (intro map_of_is_SomeI) (auto simp: comp_def)
    then show ?thesis by (simp add: e(2))
  qed
  have bucket: "\<exists>x\<in>set (cs ! ?k). u = key x \<and> i = dat x" if "M u = Some i" "Hash ?h u = m_CheckUserPos us" for u i
  proof -
    have "bucket_lookup (m_pstData ?h) (cs ! ?k) u = Some i" using that M by (simp add: lookup_def)
    then show ?thesis unfolding bucket_lookup_map_of key_def dat_def by (auto dest!: map_of_SomeD)
  qed
  obtain w' xs where F: "fold (\<lambda>x. g (key x) (dat x)) (cs ! ?k) (w, vs) = (w', vs @ xs)" "os_ret w' = os_ret w"
    "\<forall>u\<in>set xs. \<exists>x\<in>set (cs ! ?k). \<exists>n. u = key x \<and> inactive_since (os_ret w n) (dat x)"
    "\<forall>x\<in>set (cs ! ?k). (\<forall>n. inactive_since (os_ret w n) (dat x)) \<longrightarrow> key x \<in> set xs" using fold by blast
  let ?us = "us\<lparr>m_CheckUserPos := (m_CheckUserPos us + 1) mod m_MaxUserNodeNum us\<rparr>"
  have "CheckUserIsValid us w vs = Some (?us, w', vs @ xs)"
    using HL_ProcessAll_collect [OF inv k(1), of g "(w, vs)"] F(1) k(2) by (simp add: CheckUserIsValid_def cb key_def dat_def)
  moreover have "0 < m_MaxUserNodeNum us" using assms by (auto simp: us_rel_def)
  then have "us_rel cap ?us M" using assms unfolding us_rel_def by simp
  moreover have "\<forall>u\<in>set xs. \<exists>i n. M u = Some i \<and> inactive_since (os_ret w n) i" using F(3) chain by fastforce
  moreover have "\<forall>u i. M u = Some i \<and> Hash ?h u = m_CheckUserPos us \<and> (\<forall>n. inactive_since (os_ret w n) i) \<longrightarrow> u \<in> set xs"
    using F(4) bucket by blast
  ultimately show ?thesis using F(2) by blast
qed

section \<open>Well-formed users\<close>

text \<open>
  An entry of the table: its texts fit their arrays, its lists have their lengths, and of the requests only the first is ever used: no
  request is marked as valid, so the search for a free slot ends at once.
\<close>

definition text_ok :: "nat \<Rightarrow> string \<Rightarrow> bool" where
  "text_ok n t \<longleftrightarrow> length t < n \<and> NUL \<notin> set t"

definition request_ok :: "RequestInfo \<Rightarrow> bool" where
  "request_ok r \<longleftrightarrow> text_ok MAX_NAME_LENGTH (rq_NickName r) \<and> rq_IsValid r = 0"

definition int_ok :: "int \<Rightarrow> bool" where
  "int_ok k \<longleftrightarrow> - (2 ^ 31) \<le> k \<and> k < 2 ^ 31"

definition info_ok :: "u64 \<Rightarrow> ShmUserInfo \<Rightarrow> bool" where
  "info_ok u i \<longleftrightarrow> ui_UserID i = u \<and> u \<noteq> 0 \<and> text_ok MAX_NAME_LENGTH (ui_NickName i) \<and> text_ok MAX_TELNO_LENGTH (ui_TelNo i)
     \<and> text_ok MAX_ADDR_LENGTH (ui_Address i) \<and> text_ok MAX_EMAIL_LENGTH (ui_EMail i) \<and> text_ok MAX_PERSONAL_NOTE_LENGTH (ui_PersonalNote i)
     \<and> int_ok (ui_Level i) \<and> int_ok (ui_VipLevel i) \<and> length (FriendList i) = MAX_FRIEND_NUM
     \<and> (\<exists>r. RequestList i = r # replicate (MAX_REQUEST_NUM - 1) RequestInfo_new \<and> request_ok r)"

definition table_ok :: "(u64 \<rightharpoonup> ShmUserInfo) \<Rightarrow> bool" where
  "table_ok M \<longleftrightarrow> (\<forall>u i. M u = Some i \<longrightarrow> info_ok u i)"

lemma table_ok_empty [simp]: "table_ok Map.empty"
  by (simp add: table_ok_def)

lemma table_ok_upd: "table_ok M \<Longrightarrow> info_ok u i \<Longrightarrow> table_ok (M(u \<mapsto> i))"
  by (simp add: table_ok_def)

lemma table_ok_del: "table_ok M \<Longrightarrow> table_ok (M(u := None))"
  by (simp add: table_ok_def)

lemma table_ok_insert: "table_ok M \<Longrightarrow> (ui_UserID i \<noteq> 0 \<Longrightarrow> info_ok (ui_UserID i) i) \<Longrightarrow> table_ok (snd (user_insert cap M i))"
  by (auto simp: user_insert_def intro: table_ok_upd)

lemma new_requests: "RequestList ShmUserInfo_new = RequestInfo_new # replicate (MAX_REQUEST_NUM - 1) RequestInfo_new" "request_ok RequestInfo_new"
  by (simp_all add: ShmUserInfo_new_def MAX_REQUEST_NUM_def request_ok_def RequestInfo_new_def MAX_NAME_LENGTH_def text_ok_def numeral_eq_Suc)

lemma c_str_NUL: "NUL \<notin> set (c_str s)"
  by (auto simp: c_str_def dest: set_takeWhileD)

lemma print_s_ok: "0 < n \<Longrightarrow> text_ok n (print_s n s)"
  using print_s_length [of n s] c_str_NUL [of s] by (auto simp: text_ok_def print_s_def dest: in_set_takeD)

lemma print_s_oks [simp]: "text_ok MAX_NAME_LENGTH (print_s MAX_NAME_LENGTH s)" "text_ok MAX_TELNO_LENGTH (print_s MAX_TELNO_LENGTH s)"
  "text_ok MAX_ADDR_LENGTH (print_s MAX_ADDR_LENGTH s)" "text_ok MAX_EMAIL_LENGTH (print_s MAX_EMAIL_LENGTH s)"
  by (rule print_s_ok, simp add: user_lens)+

lemma registered_ok: "u \<noteq> 0 \<Longrightarrow> info_ok u (registered u r t)"
  using new_requests by (simp add: info_ok_def registered_def) (simp add: ShmUserInfo_new_def MAX_PERSONAL_NOTE_LENGTH_def text_ok_def int_ok_def)

lemma registered_UserID [simp]: "ui_UserID (registered u r t) = u"
  by (simp add: registered_def)

lemma format_only_chars: "format_only s = Some t \<Longrightarrow> set t \<subseteq> set s"
proof (induction s arbitrary: t rule: format_only.induct)
  case (2 c cs)
  consider r where "c \<noteq> CHR ''%''" "format_only cs = Some r" "t = c # r"
    | ds r where "c = CHR ''%''" "cs = CHR ''%'' # ds" "format_only ds = Some r" "t = CHR ''%'' # r"
    using 2(3) by (simp split: if_splits list.splits) (metis+)?
  then show ?case
  proof cases
    case 1
    with 2(1) [OF 1(1,2)] show ?thesis by auto
  next
    case 2
    have "set r \<subseteq> set ds" by (rule "2.IH"(2)) (simp_all add: 2)
    then show ?thesis unfolding 2 by auto
  qed
qed simp

lemma print_fmt_ok: "print_fmt n s = Some t \<Longrightarrow> 0 < n \<Longrightarrow> text_ok n t"
  using c_str_NUL [of s] by (auto simp: print_fmt_def text_ok_def dest!: format_only_chars in_set_takeD)

lemma sint_ok [simp]: "int_ok (sint (w :: u32))"
  using sint_range_size [of w] by (simp add: int_ok_def word_size)

lemma loaded_cases:
  assumes "UserProtoString2Struct P t ShmUserInfo_new d = Some (0, i)"
  obtains User n tel a e p where "parse_DBUserInfo P d = Some User" "print_fmt MAX_NAME_LENGTH (dbu_nickname User) = Some n"
    "print_fmt MAX_TELNO_LENGTH (dbu_telno User) = Some tel" "print_fmt MAX_ADDR_LENGTH (dbu_address User) = Some a"
    "print_fmt MAX_EMAIL_LENGTH (dbu_email User) = Some e" "print_fmt MAX_PERSONAL_NOTE_LENGTH (dbu_personalnote User) = Some p"
    "i = ShmUserInfo_new\<lparr>ui_UserID := dbu_userid User, ui_Status := USER_STATUS_LOADED, ui_LastActiveTime := word_of_int t,
       ui_NickName := n, ui_Level := sint (dbu_level User), ui_VipLevel := sint (dbu_viplevel User),
       ui_Sex := word_of_int (dbu_sex User), ui_TelNo := tel, ui_Address := a, ui_EMail := e, ui_PersonalNote := p\<rparr>"
  using assms unfolding UserProtoString2Struct_def
  by (cases "parse_DBUserInfo P d") (simp, clarsimp simp: Option.bind_eq_Some_conv)

lemma loaded_ok:
  assumes "UserProtoString2Struct P t ShmUserInfo_new d = Some (0, i)" "ui_UserID i \<noteq> 0"
  shows "info_ok (ui_UserID i) i"
proof -
  have f: "length (FriendList ShmUserInfo_new) = MAX_FRIEND_NUM" by (simp add: ShmUserInfo_new_def)
  from assms(1) obtain User n tel a e p where "parse_DBUserInfo P d = Some User" and L: "print_fmt MAX_NAME_LENGTH (dbu_nickname User) = Some n"
    "print_fmt MAX_TELNO_LENGTH (dbu_telno User) = Some tel" "print_fmt MAX_ADDR_LENGTH (dbu_address User) = Some a"
    "print_fmt MAX_EMAIL_LENGTH (dbu_email User) = Some e" "print_fmt MAX_PERSONAL_NOTE_LENGTH (dbu_personalnote User) = Some p"
    and I: "i = ShmUserInfo_new\<lparr>ui_UserID := dbu_userid User, ui_Status := USER_STATUS_LOADED, ui_LastActiveTime := word_of_int t,
       ui_NickName := n, ui_Level := sint (dbu_level User), ui_VipLevel := sint (dbu_viplevel User),
       ui_Sex := word_of_int (dbu_sex User), ui_TelNo := tel, ui_Address := a, ui_EMail := e, ui_PersonalNote := p\<rparr>"
    by (rule loaded_cases)
  have i: "ui_NickName i = n" "ui_TelNo i = tel" "ui_Address i = a" "ui_EMail i = e" "ui_PersonalNote i = p"
    "ui_Level i = sint (dbu_level User)" "ui_VipLevel i = sint (dbu_viplevel User)"
    "FriendList i = FriendList ShmUserInfo_new" "RequestList i = RequestList ShmUserInfo_new" by (simp_all add: I)
  note len = L [THEN print_fmt_ok]
  show ?thesis using len assms(2) new_requests unfolding info_ok_def i f by (simp add: user_lens)
qed

text \<open>Where no request is marked as valid, the new one replaces the first.\<close>

lemma request_slot_0: "rq_IsValid r = 0 \<Longrightarrow> request_slot 0 0 0 (r # rs) = 0"
  by simp

lemma put_request_first:
  assumes "info_ok v i"
  shows "put_request t1 t2 u nick i = i\<lparr>RequestList := (hd (RequestList i))\<lparr>rq_UserID := u, rq_NickName := print_s MAX_NAME_LENGTH nick,
      rq_RequestTime := word_of_int t1\<rparr> # replicate (MAX_REQUEST_NUM - 1) RequestInfo_new, ui_LastActiveTime := word_of_int t2\<rparr>"
proof -
  obtain r where "RequestList i = r # replicate (MAX_REQUEST_NUM - 1) RequestInfo_new" "rq_IsValid r = 0"
    using assms by (auto simp: info_ok_def request_ok_def)
  then show ?thesis by (simp add: put_request_def)
qed

lemma put_request_ok: "info_ok v i \<Longrightarrow> info_ok v (put_request t1 t2 u nick i)"
  by (simp add: put_request_first) (auto simp: info_ok_def request_ok_def)

section \<open>The server keeps the table well-formed\<close>

definition user_ok :: "int \<Rightarrow> usershm \<Rightarrow> bool" where
  "user_ok cap us \<longleftrightarrow> (\<exists>M. us_rel cap us M \<and> table_ok M)"

lemma user_okE:
  assumes "user_ok cap us"
  obtains M where "us_rel cap us M" "table_ok M"
  using assms by (auto simp: user_ok_def)

lemma InsertUserInfo_wf:
  assumes "InsertUserInfo us i = Some (r, us')" "user_ok cap us" "ui_UserID i \<noteq> 0 \<Longrightarrow> info_ok (ui_UserID i) i"
  shows "user_ok cap us'"
proof -
  obtain M where M: "us_rel cap us M" "table_ok M" using assms(2) by (rule user_okE)
  with InsertUserInfo_ok [OF M(1), of i] table_ok_insert [OF M(2) assms(3)] assms(1) show ?thesis by (auto simp: user_ok_def)
qed

lemma AddFriendReq_wf:
  assumes "AddFriendReq us w u v nick = Some (r, us', w')" "user_ok cap us"
  shows "user_ok cap us'"
proof -
  obtain M where M: "us_rel cap us M" "table_ok M" using assms(2) by (rule user_okE)
  show ?thesis
  proof (cases "M v")
    case None
    with AddFriendReq_ok [OF M(1), of w u v nick] M assms(1) show ?thesis by (auto simp: user_ok_def)
  next
    case (Some i)
    then have "info_ok v i" using M(2) by (simp add: table_ok_def)
    with Some AddFriendReq_ok [OF M(1), of w u v nick] table_ok_upd [OF M(2) put_request_ok] assms(1) show ?thesis
      by (auto simp: user_ok_def)
  qed
qed

text \<open>\<open>Init\<close> on a segment that is new makes an empty table.\<close>

lemma open_users_cleared:
  assumes "open_users E k sz n = Some (Some h)" "env_user E k sz = (c, a, Some (magic, table))" "magic \<noteq> env_user_magic E" "n < 2 ^ 31"
  shows "user_ok n \<lparr>m_CheckUserPos = 0, m_MaxUserNodeNum = n, m_UserInfoMap = h\<rparr>"
proof -
  obtain h0 where I: "HL_Init USER_NODE_SIZE table (CalcSize USER_NODE_SIZE n n) n n = (0, h0)" "h = snd (HL_Clear ShmUserInfo_new h0)"
    using assms(1-3) by (auto simp: open_users_def clear_users_def Let_def split: if_splits prod.splits Option.bind_splits)
  then have n: "iIndexNodeNum (m_pstHead h0) = n" "iTotalDataNodeNum (m_pstHead h0) = n" "2 \<le> n"
    by (auto simp: HL_Init_def Let_def hl_codes split: if_splits)
  have r: "hl_rel h Map.empty" using n assms(4) unfolding I(2) by (intro HL_Clear_rel) simp_all
  have "iTotalDataNodeNum (m_pstHead h) = n" "iIndexNodeNum (m_pstHead h) = n" by (simp_all add: I(2) n HL_Clear_def Let_def)
  then have "us_rel n \<lparr>m_CheckUserPos = 0, m_MaxUserNodeNum = n, m_UserInfoMap = h\<rparr> Map.empty"
    using r n(3) hl_rel_index [OF r] by (simp add: us_rel_def hl_cap_rel_def)
  then show ?thesis by (auto simp: user_ok_def)
qed

text \<open>Sending does not touch the table.\<close>

lemma sv_sends_shm: "sv_sends s s' \<Longrightarrow> m_UserShm s' = m_UserShm s"
  by (auto simp: sv_sends_def)

lemma sv_reply_shm [simp]: "m_UserShm (snd (sv_reply s H c b)) = m_UserShm s"
  by (rule sv_sends_shm) simp

lemma sv_report_shm [simp]: "m_UserShm (snd (sv_report ser t s)) = m_UserShm s"
  by (rule sv_sends_shm) simp

lemma WriteUserInfo_shm [simp]: "m_UserShm (snd (WriteUserInfo P s u)) = m_UserShm s"
  by (simp add: WriteUserInfo_def scall_eq Let_def case_prod_unfold)

lemma LoadUserInfo_shm [simp]: "m_UserShm (snd (LoadUserInfo P s u r)) = m_UserShm s"
  by (simp add: LoadUserInfo_def scall_eq Let_def case_prod_unfold)

lemma LoadWhileNotExist_shm: "LoadUserInfoWhileNotExist P s u r = Some (x, s') \<Longrightarrow> m_UserShm s' = m_UserShm s"
  using LoadUserInfo_shm [of P s u r] by (auto simp: LoadUserInfoWhileNotExist_def case_prod_unfold Let_def split: Option.bind_splits if_splits)

lemma add_friend_there_shm [simp]: "m_UserShm (add_friend_there P s H u n v srv) = m_UserShm s"
proof -
  let ?s = "s\<lparr>sv_os := os_call EvOther (sv_os s)\<rparr>"
  have "m_UserShm (snd (sv_Send2Server ?s h d TO_SRV 0 b)) = m_UserShm ?s" for h d b by (rule sv_sends_shm) simp
  then show ?thesis by (simp add: add_friend_there_def User_Send2Server_def scall_eq)
qed

section \<open>Removal of inactive users\<close>

text \<open>What the removal of a list of users does to the map: it takes out only users who are inactive by the clock.\<close>

definition expires :: "(nat \<Rightarrow> int) \<Rightarrow> (u64 \<rightharpoonup> ShmUserInfo) \<Rightarrow> (u64 \<rightharpoonup> ShmUserInfo) \<Rightarrow> bool" where
  "expires clk M M' \<longleftrightarrow> (\<forall>u. M' u = M u \<or> M' u = None \<and> (\<exists>i n. M u = Some i \<and> inactive_since (clk n) i))"

lemma expires_refl [simp]: "expires clk M M"
  by (simp add: expires_def)

lemma expires_trans: "expires clk M M' \<Longrightarrow> expires clk M' M'' \<Longrightarrow> expires clk M M''"
  unfolding expires_def by (metis option.distinct(1))

lemma expires_ok: "expires clk M M' \<Longrightarrow> table_ok M \<Longrightarrow> table_ok M'"
  unfolding expires_def table_ok_def by (metis option.distinct(1))

lemma remove_one_expires:
  "expires clk M (case M u of Some i \<Rightarrow> if inactive_since (clk n) i then M(u := None) else M | None \<Rightarrow> M)"
  by (auto simp: expires_def split: option.splits)

lemma expires_None: "expires clk M M' \<Longrightarrow> M u = None \<Longrightarrow> M' u = None"
  unfolding expires_def by (metis option.distinct(1))

lemma expires_Some: "expires clk M M' \<Longrightarrow> M' u = Some i \<Longrightarrow> M u = Some i"
  unfolding expires_def by (metis option.distinct(1))

lemma remove_invalid_ok:
  assumes "us_rel cap (m_UserShm s) M"
  shows "\<exists>s' M'. remove_invalid s us = Some s' \<and> us_rel cap (m_UserShm s') M' \<and> expires (os_ret (sv_os s)) M M'
    \<and> os_ret (sv_os s') = os_ret (sv_os s) \<and> same_scan (m_UserShm s) (m_UserShm s')
    \<and> (\<forall>u\<in>set us. (\<forall>i n. M u = Some i \<longrightarrow> inactive_since (os_ret (sv_os s) n) i) \<longrightarrow> M' u = None)"
  using assms
proof (induction us arbitrary: s M)
  case Nil
  then show ?case by (auto intro: exI [of _ M])
next
  case (Cons v us)
  let ?M = "case M v of Some i \<Rightarrow> if inactive_since (fst (sys_time (sv_os s))) i then M(v := None) else M | None \<Rightarrow> M"
  obtain c m w where R: "RemoveUserInfoWhenInValid (m_UserShm s) (sv_os s) v = Some (c, m, w)" "us_rel cap m ?M" "same_scan (m_UserShm s) m"
    "os_ret w = os_ret (sv_os s)"
    using RemoveUserInfoWhenInValid_ok [OF Cons.prems, of "sv_os s" v]
    by (cases "M v") (auto simp: sys_time_def sys_int_def os_call_def)
  let ?s = "s\<lparr>m_UserShm := m, sv_os := w\<rparr>"
  have e: "expires (os_ret (sv_os s)) M ?M"
    using remove_one_expires [where clk = "os_ret (sv_os s)" and M = M and u = v and n = "os_tick (sv_os s)"]
    unfolding sys_time_def sys_int_def fst_conv .
  have "us_rel cap (m_UserShm ?s) ?M" using R(2) by simp
  from Cons.IH [OF this] obtain s' M' where IH: "remove_invalid ?s us = Some s'" "us_rel cap (m_UserShm s') M'"
    "expires (os_ret (sv_os s)) ?M M'" "os_ret (sv_os s') = os_ret (sv_os s)" "same_scan m (m_UserShm s')"
    "\<forall>u\<in>set us. (\<forall>i n. ?M u = Some i \<longrightarrow> inactive_since (os_ret (sv_os s) n) i) \<longrightarrow> M' u = None" by (auto simp: R(4))
  have gone: "M' u = None" if "u \<in> set (v # us)" "\<forall>i n. M u = Some i \<longrightarrow> inactive_since (os_ret (sv_os s) n) i" for u
  proof (cases "u = v")
    case True
    then have "?M u = None" using that(2) by (auto simp: sys_time_def sys_int_def split: option.splits)
    then show ?thesis using expires_None [OF IH(3)] by blast
  next
    case False
    then have "u \<in> set us" "\<forall>i n. ?M u = Some i \<longrightarrow> inactive_since (os_ret (sv_os s) n) i" using that expires_Some [OF e] by auto
    then show ?thesis using IH(6) by blast
  qed
  have "remove_invalid s (v # us) = Some s'" using R(1) IH(1) by simp
  then show ?case using IH(2,4) expires_trans [OF e IH(3)] same_scan_trans [OF R(3) IH(5)] gone by blast
qed

lemma us_rel_index: "us_rel cap us M \<Longrightarrow> iIndexNodeNum (m_pstHead (m_UserInfoMap us)) = m_MaxUserNodeNum us"
  by (auto simp: us_rel_def hl_cap_rel_def dest: hl_rel_index)

lemma us_rel_Hash: "us_rel cap us M \<Longrightarrow> 0 \<le> Hash (m_UserInfoMap us) u \<and> Hash (m_UserInfoMap us) u < m_MaxUserNodeNum us"
  using us_rel_hl [of cap us M] by (auto simp: us_rel_def elim!: hl_relE elim: Hash_range [of _ _ _ u])

text \<open>One step of the scan: it takes out only inactive users, and all of those in the chain it has come to.\<close>

lemma User_CheckValid_ok:
  assumes "us_rel cap (m_UserShm s) M"
  shows "\<exists>s' M'. User_CheckValid s = Some s' \<and> us_rel cap (m_UserShm s') M' \<and> expires (os_ret (sv_os s)) M M'
    \<and> os_ret (sv_os s') = os_ret (sv_os s) \<and> m_MaxUserNodeNum (m_UserShm s') = m_MaxUserNodeNum (m_UserShm s)
    \<and> m_CheckUserPos (m_UserShm s') = (m_CheckUserPos (m_UserShm s) + 1) mod m_MaxUserNodeNum (m_UserShm s)
    \<and> (\<forall>u i. M u = Some i \<and> Hash (m_UserInfoMap (m_UserShm s)) u = m_CheckUserPos (m_UserShm s)
          \<and> (\<forall>n. inactive_since (os_ret (sv_os s) n) i) \<longrightarrow> M' u = None)"
proof -
  obtain us w xs where C: "CheckUserIsValid (m_UserShm s) (sv_os s) [] = Some (us, w, xs)" "us_rel cap us M" "os_ret w = os_ret (sv_os s)"
    "us = (m_UserShm s)\<lparr>m_CheckUserPos := (m_CheckUserPos (m_UserShm s) + 1) mod m_MaxUserNodeNum (m_UserShm s)\<rparr>"
    "\<forall>u i. M u = Some i \<and> Hash (m_UserInfoMap (m_UserShm s)) u = m_CheckUserPos (m_UserShm s) \<and> (\<forall>n. inactive_since (os_ret (sv_os s) n) i) \<longrightarrow> u \<in> set xs"
    using CheckUserIsValid_ok [OF assms, of "sv_os s" "[]"] by auto
  have "us_rel cap (m_UserShm (s\<lparr>m_UserShm := us, sv_os := w\<rparr>)) M" using C(2) by simp
  from remove_invalid_ok [OF this, of xs] obtain s' M' where R: "remove_invalid (s\<lparr>m_UserShm := us, sv_os := w\<rparr>) xs = Some s'"
    "us_rel cap (m_UserShm s') M'" "expires (os_ret (sv_os s)) M M'" "os_ret (sv_os s') = os_ret (sv_os s)" "same_scan us (m_UserShm s')"
    "\<forall>u\<in>set xs. (\<forall>i n. M u = Some i \<longrightarrow> inactive_since (os_ret (sv_os s) n) i) \<longrightarrow> M' u = None" by (auto simp: C(3))
  have "User_CheckValid s = Some s'" using C(1) R(1) by (simp add: User_CheckValid_def)
  moreover have "m_MaxUserNodeNum (m_UserShm s') = m_MaxUserNodeNum (m_UserShm s)"
    "m_CheckUserPos (m_UserShm s') = (m_CheckUserPos (m_UserShm s) + 1) mod m_MaxUserNodeNum (m_UserShm s)"
    using R(5) by (simp_all add: same_scan_def C(4))
  moreover have "M' u = None" if "M u = Some i" "Hash (m_UserInfoMap (m_UserShm s)) u = m_CheckUserPos (m_UserShm s)"
    "\<forall>n. inactive_since (os_ret (sv_os s) n) i" for u i
    using that C(5) R(6) by (metis option.inject)
  ultimately show ?thesis using R(2-4) by blast
qed

lemma User_CheckValid_wf: "User_CheckValid s = Some s' \<Longrightarrow> user_ok cap (m_UserShm s) \<Longrightarrow> user_ok cap (m_UserShm s')"
proof (elim user_okE)
  fix M assume "User_CheckValid s = Some s'" "us_rel cap (m_UserShm s) M" "table_ok M"
  with User_CheckValid_ok [of cap s M] expires_ok [of "os_ret (sv_os s)" M] show ?thesis unfolding user_ok_def by fastforce
qed

lemma scall_shm [simp]: "m_UserShm (snd (scall ev s)) = m_UserShm s"
  by (simp add: scall_eq)

lemma sv_receive_shm: "sv_receive s buf = (r, b, n, s') \<Longrightarrow> m_UserShm s' = m_UserShm s"
  by (auto simp: sv_receive_def scall_eq Let_def split: prod.splits)

lemma loader_receive_shm: "loader_receive s buf = (r, b, n, s') \<Longrightarrow> m_UserShm s' = m_UserShm s"
  by (auto simp: loader_receive_def scall_eq Let_def split: prod.splits)

section \<open>What the processes do to the table\<close>

text \<open>
  The server and the loaders change the table only by its operations: a property of the table that insertion of a well-formed user, a request
  for a friend and the scan keep holds over all their rounds.
\<close>

locale user_table =
  fixes ok :: "usershm \<Rightarrow> bool"
  assumes insert_keeps: "InsertUserInfo us i = Some (r, us') \<Longrightarrow> ok us \<Longrightarrow> (ui_UserID i \<noteq> 0 \<Longrightarrow> info_ok (ui_UserID i) i) \<Longrightarrow> ok us'"
    and add_keeps: "AddFriendReq us w u v nick = Some (r, us', w') \<Longrightarrow> ok us \<Longrightarrow> ok us'"
    and scan_keeps: "User_CheckValid s = Some s' \<Longrightarrow> ok (m_UserShm s) \<Longrightarrow> ok (m_UserShm s')"
begin

lemma user_register_keeps:
  assumes "user_register P s H n body = Some (r, s')" "ok (m_UserShm s)"
  shows "ok (m_UserShm s')"
proof (cases "parse_UserRegisterReq P n body")
  case None
  with assms show ?thesis by (simp add: user_register_def)
next
  case (Some p)
  let ?t = "os_ret (sv_os s) (os_tick (sv_os s))"
  obtain us c where I: "InsertUserInfo (m_UserShm s) (registered (fst p) (snd p) ?t) = Some (c, us)" "m_UserShm s' = us"
    using assms(1) Some by (auto simp: user_register_def scall_eq Let_def case_prod_unfold split: Option.bind_splits)
  from insert_keeps [OF I(1) assms(2)] registered_ok show ?thesis by (simp add: I(2))
qed

lemma add_friend_here_keeps:
  assumes "add_friend_here P s H pkt u nick v = Some (r, s')" "ok (m_UserShm s)"
  shows "ok (m_UserShm s')"
proof -
  obtain x s1 where L: "LoadUserInfoWhileNotExist P s v pkt = Some (x, s1)"
    using assms(1) by (auto simp: add_friend_here_def split: Option.bind_splits)
  have s1: "ok (m_UserShm s1)" using LoadWhileNotExist_shm [OF L] assms(2) by simp
  show ?thesis
  proof (cases "x = 0")
    case False
    with L s1 assms(1) show ?thesis by (auto simp: add_friend_here_def split: if_splits)
  next
    case True
    with L assms(1) obtain c us w where A: "AddFriendReq (m_UserShm s1) (sv_os s1) u v nick = Some (c, us, w)" "m_UserShm s' = us"
      by (auto simp: add_friend_here_def Let_def split: Option.bind_splits if_splits)
    from add_keeps [OF A(1) s1] show ?thesis by (simp add: A(2))
  qed
qed

lemma user_add_friend_keeps:
  assumes "user_add_friend P s H n body pkt = Some (r, s')" "ok (m_UserShm s)"
  shows "ok (m_UserShm s')"
proof (cases "parse_AddFriendReq P n body")
  case None
  with assms show ?thesis by (simp add: user_add_friend_def)
next
  case (Some v)
  with assms(1) obtain x s1 where L: "LoadUserInfoWhileNotExist P s (hi_UserID H) pkt = Some (x, s1)"
    by (auto simp: user_add_friend_def Let_def split: Option.bind_splits if_splits)
  have s1: "ok (m_UserShm s1)" using LoadWhileNotExist_shm [OF L] assms(2) by simp
  show ?thesis
  proof (cases "x = 0")
    case False
    with Some L s1 assms(1) show ?thesis by (auto simp: user_add_friend_def Let_def split: if_splits)
  next
    case True
    with Some L assms(1) obtain c i where G: "GetUserInfo (m_UserShm s1) (hi_UserID H) ShmUserInfo_new = Some (c, i)"
      and R: "if c \<noteq> 0 then s' = s1 else if GetUserServer v = GetServerID s1
        then add_friend_here P s1 H pkt (hi_UserID H) (ui_NickName i) v = Some (r, s')
        else s' = add_friend_there P s1 H (hi_UserID H) (ui_NickName i) v (GetUserServer v)"
      by (auto simp: user_add_friend_def Let_def split: Option.bind_splits if_splits)
    then show ?thesis using s1 add_friend_here_keeps by (auto split: if_splits)
  qed
qed

lemma User_DealPkg_keeps:
  assumes "User_DealPkg P s buf n = Some (r, s')" "ok (m_UserShm s)"
  shows "ok (m_UserShm s')"
  using assms user_register_keeps user_add_friend_keeps add_friend_here_keeps
  by (auto simp: User_DealPkg_def user_add_friend2_def Let_def split: if_splits option.splits)

lemma user_from_loader_keeps:
  "user_from_loader P s msg = Some (r, s') \<Longrightarrow> ok (m_UserShm s) \<Longrightarrow> ok (m_UserShm s')"
  by (auto simp: user_from_loader_def intro: User_DealPkg_keeps split: option.splits if_splits)

lemma round_bus_keeps:
  assumes "round_bus P L = Some (go, e, L')" "ok (m_UserShm (ul_user L))"
  shows "ok (m_UserShm (ul_user L'))"
proof -
  obtain r b n s where R: "sv_receive (ul_user L) (ul_buf L) = (r, b, n, s)" by (metis prod_cases4)
  have s: "ok (m_UserShm s)" using sv_receive_shm [OF R] assms(2) by simp
  show ?thesis using assms(1) s User_DealPkg_keeps [OF _ s]
    by (auto simp: round_bus_def R Let_def split: if_splits Option.bind_splits)
qed

lemma round_loader_keeps:
  assumes "round_loader P L = Some (go, e, L')" "ok (m_UserShm (ul_user L))"
  shows "ok (m_UserShm (ul_user L'))"
proof -
  obtain r b n s where R: "loader_receive (ul_user L) (ul_buf L) = (r, b, n, s)" by (metis prod_cases4)
  have s: "ok (m_UserShm s)" using loader_receive_shm [OF R] assms(2) by simp
  show ?thesis using assms(1) s user_from_loader_keeps [OF _ s]
    by (auto simp: round_loader_def R Let_def split: if_splits Option.bind_splits)
qed

lemma round_end_keeps:
  assumes "round_end P L e = Some L'" "ok (m_UserShm (ul_user L))"
  shows "ok (m_UserShm (ul_user L'))"
proof -
  obtain s where "User_CheckValid (snd (sv_report (ser_UserState P) (ul_LastStateTime L) (ul_user L))) = Some s" "m_UserShm (ul_user L') = m_UserShm s"
    using assms(1) by (auto simp: round_end_def case_prod_unfold Let_def split: Option.bind_splits if_splits)
  then show ?thesis using scan_keeps [of _ s] assms(2) by simp
qed

lemma user_round_keeps: "user_round P L = Some L' \<Longrightarrow> ok (m_UserShm (ul_user L)) \<Longrightarrow> ok (m_UserShm (ul_user L'))"
  by (auto simp: user_round_def split: Option.bind_splits if_splits dest!: round_bus_keeps round_loader_keeps round_end_keeps)

lemma User_Run_loop_keeps: "User_Run_loop P L n = Some L' \<Longrightarrow> ok (m_UserShm (ul_user L)) \<Longrightarrow> ok (m_UserShm (ul_user L'))"
  by (induction P L n rule: User_Run_loop.induct) (auto dest: user_round_keeps split: option.splits)

lemma load_user_keeps:
  assumes "load_user A P s u = Some (r, s')" "ok (l_UserShm s)"
  shows "ok (l_UserShm s')"
proof -
  have "l_UserShm s' = l_UserShm s \<or> (\<exists>t d i c. UserProtoString2Struct P t ShmUserInfo_new d = Some (0, i)
      \<and> InsertUserInfo (l_UserShm s) i = Some (c, l_UserShm s'))"
    using assms(1) unfolding load_user_def Let_def
    by (auto simp: case_prod_unfold split: if_splits Option.bind_splits option.splits)
  then show ?thesis using assms(2) insert_keeps loaded_ok by metis
qed

lemma ProcessLoaderUserInfo_keeps:
  assumes "ProcessLoaderUserInfo A P s u req = Some (r, s')" "ok (l_UserShm s)"
  shows "ok (l_UserShm s')"
proof -
  obtain c s1 where L: "load_user A P s u = Some (c, s1)" using assms(1) by (auto simp: ProcessLoaderUserInfo_def split: Option.bind_splits)
  from load_user_keeps [OF L assms(2)] assms(1) L show ?thesis
    by (auto simp: ProcessLoaderUserInfo_def Let_def split: Option.bind_splits if_splits prod.splits)
qed

lemma loader_round_keeps:
  assumes "loader_round A P s = Some (Inr s')" "ok (l_UserShm s)"
  shows "ok (l_UserShm s')"
  using assms ProcessLoaderUserInfo_keeps unfolding loader_round_def Let_def
  by (fastforce split: if_splits prod.splits option.splits)

lemma Loader_loop_keeps: "Loader_loop A P s n = Some (r, s') \<Longrightarrow> ok (l_UserShm s) \<Longrightarrow> ok (l_UserShm s')"
  by (induction A P s n rule: Loader_loop.induct) (auto dest: loader_round_keeps split: option.splits sum.splits)

lemma User_Run_keeps: "User_Run P s buf n = Some L \<Longrightarrow> ok (m_UserShm s) \<Longrightarrow> ok (m_UserShm (ul_user L))"
  by (auto simp: User_Run_def scall_eq elim: User_Run_loop_keeps)

lemma Loader_Entity_keeps: "Loader_Entity A P s n = Some (r, s') \<Longrightarrow> ok (l_UserShm s) \<Longrightarrow> ok (l_UserShm s')"
  by (auto simp: Loader_Entity_def Let_def elim: Loader_loop_keeps split: prod.splits if_splits)

end

interpretation typed: user_table "user_ok cap" for cap
  by unfold_locales (fact InsertUserInfo_wf AddFriendReq_wf User_CheckValid_wf)+

text \<open>
  C14: Every entry of the table of users is well-formed, whatever packets and messages arrive: it is stored under its own user ID,
  which is not 0, its texts fit their arrays with the terminating zero, its lists have their lengths, and no request for a friend is marked
  as valid. Any number of rounds of the user server and of the processes that load users keep it so.
\<close>
theorem user_table_typed:
  assumes "user_ok cap us"
  shows "(\<forall>P s buf n L. m_UserShm s = us \<and> User_Run P s buf n = Some L \<longrightarrow> user_ok cap (m_UserShm (ul_user L)))
    \<and> (\<forall>A P (s :: 'w loader) n r s'. l_UserShm s = us \<and> Loader_Entity A P s n = Some (r, s') \<longrightarrow> user_ok cap (l_UserShm s'))"
  using assms by (auto dest: typed.User_Run_keeps typed.Loader_Entity_keeps)

section \<open>Inactive users leave\<close>

text \<open>The scan over the rounds of the loop.\<close>

fun check_rounds :: "nat \<Rightarrow> user \<Rightarrow> user option" where
  "check_rounds 0 s = Some s"
| "check_rounds (Suc n) s = (case User_CheckValid s of None \<Rightarrow> None | Some s \<Rightarrow> check_rounds n s)"

definition scan_pos :: "user \<Rightarrow> nat \<Rightarrow> int" where
  "scan_pos s k = (m_CheckUserPos (m_UserShm s) + int k) mod m_MaxUserNodeNum (m_UserShm s)"

lemma check_rounds_ok:
  assumes "us_rel cap (m_UserShm s) M"
  shows "\<exists>s' M'. check_rounds n s = Some s' \<and> us_rel cap (m_UserShm s') M' \<and> expires (os_ret (sv_os s)) M M'
    \<and> (\<forall>u i. M u = Some i \<and> (\<exists>k<n. Hash (m_UserInfoMap (m_UserShm s)) u = scan_pos s k)
          \<and> (\<forall>n. inactive_since (os_ret (sv_os s) n) i) \<longrightarrow> M' u = None)"
  using assms
proof (induction n arbitrary: s M)
  case 0
  then show ?case by (auto intro: exI [of _ M])
next
  case (Suc n)
  obtain s1 M1 where S: "User_CheckValid s = Some s1" "us_rel cap (m_UserShm s1) M1" "expires (os_ret (sv_os s)) M M1"
    "os_ret (sv_os s1) = os_ret (sv_os s)" "m_MaxUserNodeNum (m_UserShm s1) = m_MaxUserNodeNum (m_UserShm s)"
    "m_CheckUserPos (m_UserShm s1) = (m_CheckUserPos (m_UserShm s) + 1) mod m_MaxUserNodeNum (m_UserShm s)"
    "\<forall>u i. M u = Some i \<and> Hash (m_UserInfoMap (m_UserShm s)) u = m_CheckUserPos (m_UserShm s)
          \<and> (\<forall>n. inactive_since (os_ret (sv_os s) n) i) \<longrightarrow> M1 u = None"
    using User_CheckValid_ok [OF Suc.prems] by blast
  obtain s' M' where IH: "check_rounds n s1 = Some s'" "us_rel cap (m_UserShm s') M'" "expires (os_ret (sv_os s)) M1 M'"
    "\<forall>u i. M1 u = Some i \<and> (\<exists>k<n. Hash (m_UserInfoMap (m_UserShm s1)) u = scan_pos s1 k)
          \<and> (\<forall>n. inactive_since (os_ret (sv_os s) n) i) \<longrightarrow> M' u = None"
    using Suc.IH [OF S(2)] unfolding S(4) by blast
  have h: "Hash (m_UserInfoMap (m_UserShm s1)) u = Hash (m_UserInfoMap (m_UserShm s)) u" for u
    using us_rel_index [OF Suc.prems] us_rel_index [OF S(2)] S(5) by (intro Hash_head) simp
  have p: "scan_pos s1 k = scan_pos s (Suc k)" for k
    unfolding scan_pos_def S(5,6) mod_add_left_eq by (simp add: algebra_simps)
  have p0: "scan_pos s 0 = m_CheckUserPos (m_UserShm s)" using Suc.prems by (simp add: scan_pos_def us_rel_def)
  have "M' u = None" if "M u = Some i" "k < Suc n" "Hash (m_UserInfoMap (m_UserShm s)) u = scan_pos s k"
    "\<forall>n. inactive_since (os_ret (sv_os s) n) i" for u i k
  proof (cases "M1 u")
    case None
    then show ?thesis using expires_None [OF IH(3)] by blast
  next
    case (Some j)
    then have "j = i" using expires_Some [OF S(3) Some] that(1) by simp
    moreover from Some that S(7) p0 have "k \<noteq> 0" by (metis option.distinct(1))
    ultimately show ?thesis using IH(4) Some that p h by (cases k) auto
  qed
  then show ?case using S(1) IH(1,2) expires_trans [OF S(3) IH(3)] by auto
qed

text \<open>
  C16: A user who is inactive is out of the table when the scan has gone once around it, that is after as many rounds of the
  loop as the table has nodes, wherever the scan starts; nobody else leaves, and those who stay are unchanged.
\<close>
theorem inactive_users_leave:
  assumes "us_rel cap (m_UserShm s) M" "m_MaxUserNodeNum (m_UserShm s) \<le> int n"
  shows "\<exists>s' M'. check_rounds n s = Some s' \<and> us_rel cap (m_UserShm s') M'
    \<and> (\<forall>u i. M u = Some i \<and> (\<forall>k. inactive_since (os_ret (sv_os s) k) i) \<longrightarrow> M' u = None)
    \<and> (\<forall>u. M' u = M u \<or> (\<exists>i k. M u = Some i \<and> inactive_since (os_ret (sv_os s) k) i \<and> M' u = None))"
proof -
  let ?us = "m_UserShm s"
  obtain s' M' where C: "check_rounds n s = Some s'" "us_rel cap (m_UserShm s') M'" "expires (os_ret (sv_os s)) M M'"
    "\<forall>u i. M u = Some i \<and> (\<exists>k<n. Hash (m_UserInfoMap ?us) u = scan_pos s k)
          \<and> (\<forall>n. inactive_since (os_ret (sv_os s) n) i) \<longrightarrow> M' u = None"
    using check_rounds_ok [OF assms(1)] by blast
  have reach: "\<exists>k<n. Hash (m_UserInfoMap ?us) u = scan_pos s k" for u
  proof -
    let ?N = "m_MaxUserNodeNum ?us" and ?h = "Hash (m_UserInfoMap ?us) u"
    have N: "0 < ?N" "0 \<le> ?h" "?h < ?N"
      using us_rel_Hash [OF assms(1), of u] by auto
    let ?k = "nat ((?h - m_CheckUserPos ?us) mod ?N)"
    have "int ?k = (?h - m_CheckUserPos ?us) mod ?N" using N by simp
    then have "scan_pos s ?k = ?h" using N by (simp add: scan_pos_def mod_add_right_eq)
    moreover have "?k < n" using N(1) assms(2) pos_mod_bound [of ?N] by (smt (verit) nat_less_iff pos_mod_sign)
    ultimately show ?thesis by metis
  qed
  show ?thesis using C reach by (intro exI [of _ s'] exI [of _ M']) (auto simp: expires_def)
qed

section \<open>An example\<close>

definition users_example :: usershm where
  "users_example = \<lparr>m_CheckUserPos = 1, m_MaxUserNodeNum = 3,
     m_UserInfoMap = snd (HL_Clear ShmUserInfo_new \<lparr>m_pstHead = \<lparr>iSize = 28000, iTotalDataNodeNum = 3, iUsedDataNodeNum = 0,
       iIndexNodeNum = 3, ipFreeDataNodeList = 0\<rparr>, m_pstIndex = [], m_pstData = [], m_iIndexNodeNum = 3, m_iDataNodeNum = 3\<rparr>)\<rparr>"

lemma users_example_rel: "us_rel 3 users_example Map.empty"
proof -
  have "hl_cap_rel 3 (m_UserInfoMap users_example) Map.empty"
    unfolding hl_cap_rel_def users_example_def usershm.simps
    by (intro conjI HL_Clear_rel) (simp_all add: HL_Clear_def)
  then show ?thesis by (simp add: us_rel_def users_example_def HL_Clear_def)
qed

definition reg_example :: RegisterInfo where
  "reg_example = \<lparr>ri_passwd = ''abc'', ri_nickname = ''joe'', ri_sex = 1, ri_birthday = 5, ri_telno = ''13800138000'', ri_address = ''a'', ri_email = ''e''\<rparr>"

lemma joe_inserted:
  "\<exists>us. InsertUserInfo users_example (registered 7 reg_example 1000) = Some (0, us) \<and> us_rel 3 us [7 \<mapsto> registered 7 reg_example 1000]"
  using InsertUserInfo_ok [OF users_example_rel, of "registered 7 reg_example 1000"] by (simp add: user_insert_def)

theorem user_table_typed_witness:
  "\<exists>us. InsertUserInfo users_example (registered 7 reg_example 1000) = Some (0, us) \<and> user_ok 3 us
    \<and> (\<forall>P s buf n L. m_UserShm s = us \<and> User_Run P s buf n = Some L \<longrightarrow> user_ok 3 (m_UserShm (ul_user L)))"
proof -
  obtain us where us: "InsertUserInfo users_example (registered 7 reg_example 1000) = Some (0, us)" "us_rel 3 us [7 \<mapsto> registered 7 reg_example 1000]"
    using joe_inserted by blast
  have "table_ok [7 \<mapsto> registered 7 reg_example 1000]" by (rule table_ok_upd) (simp_all add: registered_ok)
  with us(2) have ok: "user_ok 3 us" by (auto simp: user_ok_def)
  from user_table_typed [OF this] us(1) ok show ?thesis by blast
qed

text \<open>The user was active at time 1000, the clock says 200000.\<close>

definition server_example :: "usershm \<Rightarrow> int \<Rightarrow> user" where
  "server_example us t = (User_new (queue_of 256) \<lparr>os_ret = (\<lambda>_. t), os_errno = (\<lambda>_. 0), os_data = (\<lambda>_. []), os_addr = (\<lambda>_. sockaddr0),
     os_tick = 0, os_trace = []\<rparr> (m_UserInfoMap us))\<lparr>m_UserShm := us\<rparr>"

theorem inactive_users_leave_witness:
  "\<exists>us s'. InsertUserInfo users_example (registered 7 reg_example 1000) = Some (0, us)
     \<and> check_rounds 3 (server_example us 200000) = Some s' \<and> GetUserInfo (m_UserShm s') 7 ShmUserInfo_new = Some (-1, ShmUserInfo_new)"
proof -
  let ?i = "registered 7 reg_example 1000"
  obtain us where us: "InsertUserInfo users_example ?i = Some (0, us)" "us_rel 3 us [7 \<mapsto> ?i]" using joe_inserted by blast
  let ?s = "server_example us 200000"
  have s: "m_UserShm ?s = us" "os_ret (sv_os ?s) = (\<lambda>_. 200000)" by (simp_all add: server_example_def User_new_def)
  have N: "m_MaxUserNodeNum us = 3" using us(1) by (auto simp: InsertUserInfo_def users_example_def Let_def split: if_splits Option.bind_splits)
  have old: "inactive_since 200000 ?i" by (simp add: inactive_since_def USER_INVALID_TIME_def registered_def)
  obtain s' M' where C: "check_rounds 3 ?s = Some s'" "us_rel 3 (m_UserShm s') M'"
    "\<forall>u i. [7 \<mapsto> ?i] u = Some i \<and> (\<forall>k::nat. inactive_since 200000 i) \<longrightarrow> M' u = None"
    using inactive_users_leave [of 3 ?s "[7 \<mapsto> ?i]" 3] us(2) N by (auto simp: s)
  then have "M' 7 = None" using old by simp
  with GetUserInfo_ok [OF C(2), of 7 ShmUserInfo_new] C(1) us(1) show ?thesis by auto
qed

end
