(* ===== verification/UserReplay.thy ===== *)
theory UserReplay
  imports UserSpec AuthSpec
begin

text \<open>
  The user server together with the processes beside it: what one process writes to the database another loads back, and a request for a
  user who is not in the table is dealt with when the loader has brought the user in.
\<close>

section \<open>The database of users\<close>

text \<open>
  What the two processes rely on of the database: it answers, \<open>select\<close> gives the row of the user, and \<open>REPLACE\<close> with a text that
  \<open>mysql_real_escape_string\<close> has escaped stores the text. An escaped text has no zero byte. \<open>D w T\<close>: the database in state \<open>w\<close> holds the
  tables \<open>T\<close>.
\<close>

definition user_db :: "'w mysql_api \<Rightarrow> DBConfig list \<Rightarrow> ('w \<Rightarrow> tables \<Rightarrow> bool) \<Rightarrow> bool" where
  "user_db A cfgs D \<longleftrightarrow> (\<forall>w T. D w T \<longrightarrow> (\<forall>i<2.
     (\<exists>w'. mysql_ping A i w = (0, w') \<and> D w' T)
     \<and> (\<forall>x w'. NUL \<notin> set (mysql_real_escape_string A i x w'))
     \<and> (\<forall>t<2. \<forall>u. \<exists>w1 w2. mysql_real_query A i (load_sql (cfgs ! i) t u) w = (0, w1)
          \<and> mysql_store_result A i w1 = (Some (case T i t u of None \<Rightarrow> [] | Some p \<Rightarrow> [[Some p]]), w2) \<and> D w2 T)
     \<and> (\<forall>t<2. \<forall>u x w'. \<exists>w1. mysql_real_query A i (replace_sql (cfgs ! i) t u (mysql_real_escape_string A i x w')) w = (0, w1)
          \<and> D w1 (put T i t u x))))"

lemma user_dbD:
  assumes "user_db A cfgs D" "D w T" "i < 2"
  shows "\<exists>w'. mysql_ping A i w = (0, w') \<and> D w' T" and "NUL \<notin> set (mysql_real_escape_string A i x w')"
    and "t < 2 \<Longrightarrow> \<exists>w1 w2. mysql_real_query A i (load_sql (cfgs ! i) t u) w = (0, w1)
          \<and> mysql_store_result A i w1 = (Some (case T i t u of None \<Rightarrow> [] | Some p \<Rightarrow> [[Some p]]), w2) \<and> D w2 T"
    and "t < 2 \<Longrightarrow> \<exists>w1. mysql_real_query A i (replace_sql (cfgs ! i) t u (mysql_real_escape_string A i x w')) w = (0, w1)
          \<and> D w1 (put T i t u x)"
  using assms unfolding user_db_def by blast+

text \<open>The statement that loads a user fits its array of 256 bytes when the two names are not too long.\<close>

definition short_names :: "DBConfig list \<Rightarrow> bool" where
  "short_names cfgs \<longleftrightarrow> (\<forall>i<2. length (sDB (db_Access (cfgs ! i))) + length (TableName (cfgs ! i)) \<le> 197)"

lemma load_sql_fits:
  assumes "short_names cfgs" "i < 2" "t < 2"
  shows "sql_text (sql_arg 256 (load_sql (cfgs ! i) t u)) = Some (load_sql (cfgs ! i) t u)"
proof (rule sql_arg_fits)
  have "length (sDB (db_Access (cfgs ! i))) + length (TableName (cfgs ! i)) \<le> 197" using assms by (simp add: short_names_def)
  then show "length (load_sql (cfgs ! i) t u) < 256" using dec_u64_length [of u] assms(3) by (simp add: load_sql_def dec_digit)
qed

lemma MySQL_Select_row:
  assumes "sql_text sql = Some txt" "mysql_ping A i w = (0, w0)" "mysql_real_query A i txt w0 = (0, w1)" "mysql_store_result A i w1 = (Some [[Some x]], w2)"
    "m_nAutoCommit m = 1"
  shows "MySQL_Select A i sql n m w = Some (0, 1, m\<lparr>m_pRes := Res [[Some x]] None\<rparr>, w2)"
  using assms by (simp add: MySQL_Select_def ensure_valid_def run_sql_Some int32_def)

lemma MySQL_Query_done:
  assumes "sql_text sql = Some txt" "mysql_ping A i w = (0, w0)" "mysql_real_query A i txt w0 = (0, w1)" "m_nAutoCommit m = 1"
  shows "MySQL_Query A i sql m w = Some (0, m, w1)"
  using assms by (simp add: MySQL_Query_def ensure_valid_def run_sql_Some)

section \<open>Loading a user\<close>

lemma format_only_plain: "CHR ''%'' \<notin> set s \<Longrightarrow> format_only s = Some s"
  by (induction s) auto

lemma print_fmt_plain: "CHR ''%'' \<notin> set s \<Longrightarrow> print_fmt n s = Some (print_s n s)"
  by (subst print_fmt_def, subst format_only_plain) (auto simp: print_s_def c_str_def dest: set_takeWhileD)

definition no_percent :: "DBUserInfo \<Rightarrow> bool" where
  "no_percent d \<longleftrightarrow> CHR ''%'' \<notin> set (dbu_nickname d) \<union> set (dbu_telno d) \<union> set (dbu_address d) \<union> set (dbu_email d) \<union> set (dbu_personalnote d)"

text \<open>The user the loader makes of a message without percent signs.\<close>

definition loaded :: "int \<Rightarrow> DBUserInfo \<Rightarrow> ShmUserInfo" where
  "loaded t d = ShmUserInfo_new\<lparr>ui_UserID := dbu_userid d, ui_Status := USER_STATUS_LOADED, ui_LastActiveTime := word_of_int t,
     ui_NickName := print_s MAX_NAME_LENGTH (dbu_nickname d), ui_Level := sint (dbu_level d), ui_VipLevel := sint (dbu_viplevel d),
     ui_Sex := word_of_int (dbu_sex d), ui_TelNo := print_s MAX_TELNO_LENGTH (dbu_telno d),
     ui_Address := print_s MAX_ADDR_LENGTH (dbu_address d), ui_EMail := print_s MAX_EMAIL_LENGTH (dbu_email d),
     ui_PersonalNote := print_s MAX_PERSONAL_NOTE_LENGTH (dbu_personalnote d)\<rparr>"

lemma UserProtoString2Struct_plain:
  assumes "parse_DBUserInfo P x = Some d" "no_percent d"
  shows "UserProtoString2Struct P t ShmUserInfo_new x = Some (0, loaded t d)"
  using assms by (simp add: UserProtoString2Struct_def print_fmt_plain no_percent_def loaded_def)

lemma loaded_UserID [simp]: "ui_UserID (loaded t d) = dbu_userid d"
  by (simp add: loaded_def)

definition loader_ok :: "'w mysql_api \<Rightarrow> ('w \<Rightarrow> tables \<Rightarrow> bool) \<Rightarrow> 'w loader \<Rightarrow> tables \<Rightarrow> bool" where
  "loader_ok A D l T \<longleftrightarrow> user_db A (l_DBConfig l) D \<and> short_names (l_DBConfig l) \<and> conns_ok (l_DBConn l) \<and> D (l_db l) T"

lemma loader_ok_simps [simp]:
  "loader_ok A D (l\<lparr>l_os := w\<rparr>) T = loader_ok A D l T" "loader_ok A D (l\<lparr>l_LoaderRecvQueue := q\<rparr>) T = loader_ok A D l T"
  "loader_ok A D (l\<lparr>l_LoaderSendQueue := q\<rparr>) T = loader_ok A D l T" "loader_ok A D (l\<lparr>l_UserShm := us\<rparr>) T = loader_ok A D l T"
  by (simp_all add: loader_ok_def)

lemma load_user_ok:
  assumes "loader_ok A D l T" "us_rel cap (l_UserShm l) M" "M u = None" "int (card (dom M)) + 1 < cap" "u \<noteq> 0"
    and "accounts T u = Some x" "x \<noteq> []" "parse_DBUserInfo P x = Some d" "dbu_userid d = u" "no_percent d"
  shows "\<exists>ms w us. load_user A P l u = Some (0, l\<lparr>l_DBConn := ms, l_db := w, l_os := snd (sys_time (l_os l)), l_UserShm := us\<rparr>)
    \<and> conns_ok ms \<and> D w T \<and> m_pRes (ms ! GetUserDBIndex u) \<noteq> ResUninit
    \<and> us_rel cap us (M(u \<mapsto> loaded (fst (sys_time (l_os l))) d))"
proof -
  let ?i = "GetUserDBIndex u" and ?t = "GetUserTableIndex u" and ?n = "loaded (fst (sys_time (l_os l))) d"
  have ok: "user_db A (l_DBConfig l) D" "short_names (l_DBConfig l)" "conns_ok (l_DBConn l)" "D (l_db l) T"
    using assms(1) by (auto simp: loader_ok_def)
  define m where "m = l_DBConn l ! ?i"
  have m: "m_nAutoCommit m = 1" "length (l_DBConn l) = 2" using ok(3) by (simp_all add: m_def conns_ok_nth conns_ok_def)
  obtain w0 where w0: "mysql_ping A ?i (l_db l) = (0, w0)" "D w0 T" using user_dbD(1) [OF ok(1,4)] shard_bounds by blast
  obtain w1 w2 where w: "mysql_real_query A ?i (load_sql (l_DBConfig l ! ?i) ?t u) w0 = (0, w1)"
    "mysql_store_result A ?i w1 = (Some [[Some x]], w2)" "D w2 T"
    using user_dbD(3) [OF ok(1) w0(2), of ?i ?t u] shard_bounds assms(6) by (auto simp: accounts_def)
  let ?m = "m\<lparr>m_pRes := Res [] (Some [Some x])\<rparr>"
  have f: "first_field (m\<lparr>m_pRes := Res [[Some x]] None\<rparr>) = Some (Some x, ?m)"
    using assms(7) by (subst first_field_Res) (auto simp: field_len_def)
  obtain us where us: "InsertUserInfo (l_UserShm l) ?n = Some (0, us)" "us_rel cap us (M(u \<mapsto> ?n))"
    using InsertUserInfo_ok [OF assms(2), of ?n] assms(3-5,9) by (auto simp: user_insert_def domIff)
  have "load_user A P l u = Some (0, l\<lparr>l_DBConn := (l_DBConn l)[?i := ?m], l_db := w2, l_os := snd (sys_time (l_os l)), l_UserShm := us\<rparr>)"
    using MySQL_Select_row [OF load_sql_fits [OF ok(2) shard_bounds] w0(1) w(1,2) m(1)] f us(1) UserProtoString2Struct_plain [OF assms(8,10)] assms(8) m(2)
    unfolding load_user_def m_def
    by (simp add: case_prod_unfold Let_def)
  moreover have "conns_ok ((l_DBConn l)[?i := ?m])" using conns_ok_update [OF ok(3)] m by simp
  ultimately show ?thesis using us(2) w(3) m(2)
    by (intro exI [of _ "(l_DBConn l)[?i := ?m]"] exI [of _ w2] exI [of _ us]) simp
qed

section \<open>Writing a user back\<close>

text \<open>What is written of a user, and what the user is after being loaded again.\<close>

definition profile :: "ShmUserInfo \<Rightarrow> DBUserInfo" where
  "profile i = \<lparr>dbu_userid = ui_UserID i, dbu_nickname = ui_NickName i, dbu_level = word_of_int (ui_Level i),
     dbu_viplevel = word_of_int (ui_VipLevel i), dbu_sex = sint (ui_Sex i), dbu_birthday = ui_Birthday i, dbu_telno = ui_TelNo i,
     dbu_address = ui_Address i, dbu_email = ui_EMail i, dbu_personalnote = ui_PersonalNote i\<rparr>"

definition restored :: "int \<Rightarrow> ShmUserInfo \<Rightarrow> ShmUserInfo" where
  "restored t i = i\<lparr>ui_Status := USER_STATUS_LOADED, ui_LastActiveTime := word_of_int t, ui_Birthday := 0,
     FriendList := FriendList ShmUserInfo_new, RequestList := RequestList ShmUserInfo_new\<rparr>"

lemma int_ok_word: "int_ok k \<Longrightarrow> sint (word_of_int k :: u32) = k"
  unfolding int_ok_def by (subst sint_sbintrunc', rule signed_take_bit_int_eq_self) simp_all

lemma text_ok_print: "text_ok n t \<Longrightarrow> print_s n t = t"
  by (simp add: text_ok_def print_s_fits)

lemma loaded_profile:
  assumes "info_ok u i"
  shows "loaded t (profile i) = restored t i"
  using assms by (cases i) (simp add: loaded_def profile_def restored_def info_ok_def text_ok_print int_ok_word, simp add: ShmUserInfo_new_def)

lemma ProcessWriterUserInfo_ok:
  assumes "user_db A (w_DBConfig s) D" "conns_ok (w_DBConn s)" "D (w_db s) T" "us_rel cap (w_UserShm s) M" "M u = Some i" "info_ok u i"
    and "ser_DBUserInfo P (profile i) = Some x" "length (mysql_real_escape_string A (GetUserDBIndex u) x (w_db s)) < SHM_USER_INFO_SIZE"
  shows "\<exists>ms w. ProcessWriterUserInfo A P s u = Some (0, s\<lparr>w_DBConn := ms, w_db := w\<rparr>) \<and> conns_ok ms
    \<and> D w (put T (GetUserDBIndex u) (GetUserTableIndex u) u x)"
proof -
  let ?i = "GetUserDBIndex u" and ?t = "GetUserTableIndex u" and ?e = "mysql_real_escape_string A (GetUserDBIndex u) x (w_db s)"
  have g: "GetUserInfo (w_UserShm s) u ShmUserInfo_new = Some (0, i)" using GetUserInfo_ok [OF assms(4)] assms(5) by simp
  have v: "CheckUserInfoValid u i = 0" using assms(6) by (simp add: CheckUserInfoValid_def info_ok_def)
  have p: "Struct2ProtoStringUser P i = (0, x)" using assms(7) by (simp add: Struct2ProtoStringUser_def profile_def)
  have c: "c_str ?e = ?e" using user_dbD(2) [OF assms(1,3), of ?i x "w_db s"] by (simp add: c_str_id)
  obtain w0 where w0: "mysql_ping A ?i (w_db s) = (0, w0)" "D w0 T" using user_dbD(1) [OF assms(1,3)] shard_bounds by blast
  obtain w1 where w1: "mysql_real_query A ?i (replace_sql (w_DBConfig s ! ?i) ?t u ?e) w0 = (0, w1)" "D w1 (put T ?i ?t u x)"
    using user_dbD(4) [OF assms(1) w0(2), of ?i ?t u x "w_db s"] shard_bounds by blast
  have m: "m_nAutoCommit (w_DBConn s ! ?i) = 1" "length (w_DBConn s) = 2" using assms(2) by (simp_all add: conns_ok_nth conns_ok_def)
  have "ProcessWriterUserInfo A P s u = Some (0, s\<lparr>w_DBConn := (w_DBConn s)[?i := w_DBConn s ! ?i], w_db := w1\<rparr>)"
    using MySQL_Query_done [OF sql_str_text w0(1) w1(1) m(1)] assms(8) by (simp add: ProcessWriterUserInfo_def g v p c MySQL_EscapeString_def)
  then show ?thesis using w1(2) assms(2) by (intro exI [of _ "w_DBConn s"] exI [of _ w1]) simp
qed

text \<open>
  C13: A user whose texts hold no percent sign and who is written to the database and loaded again by another process has the profile he had: the
  names, the levels, the sex, the number, the addresses and the note. The birthday is lost, since the loader does not read it, and so are the
  friends and the requests, which are not written. The other users of the database and of the table stay as they are. A percent sign would not
  come back, because the loader uses the texts as formats. The serialised profile is not empty and, escaped, fits into the array of the writer;
  the database answers every call, its names leave room for the statements, and the table of the process that loads has room and does not
  hold the user.
\<close>
theorem written_user_loads_back:
  assumes "user_db A cfgs D" "short_names cfgs"
    and "w_DBConfig s = cfgs" "conns_ok (w_DBConn s)" "D (w_db s) T" "us_rel cap (w_UserShm s) M" "M u = Some i" "info_ok u i"
    and "ser_DBUserInfo P (profile i) = Some x" "x \<noteq> []" "parse_DBUserInfo P x = Some (profile i)" "no_percent (profile i)"
    and "length (mysql_real_escape_string A (GetUserDBIndex u) x (w_db s)) < SHM_USER_INFO_SIZE"
    and "l_DBConfig l = cfgs" "conns_ok (l_DBConn l)" "us_rel cap' (l_UserShm l) M'" "M' u = None" "int (card (dom M')) + 1 < cap'"
  shows "\<exists>s' T' l'. ProcessWriterUserInfo A P s u = Some (0, s') \<and> D (w_db s') T' \<and> accounts T' = (accounts T)(u \<mapsto> x)
    \<and> load_user A P (l\<lparr>l_db := w_db s'\<rparr>) u = Some (0, l') \<and> us_rel cap' (l_UserShm l') (M'(u \<mapsto> restored (fst (sys_time (l_os l))) i))"
proof -
  let ?T = "put T (GetUserDBIndex u) (GetUserTableIndex u) u x"
  have db: "user_db A (w_DBConfig s) D" using assms(1,3) by simp
  obtain ms w where W: "ProcessWriterUserInfo A P s u = Some (0, s\<lparr>w_DBConn := ms, w_db := w\<rparr>)" "D w ?T"
    using ProcessWriterUserInfo_ok [OF db assms(4-9,13)] by blast
  have lok: "loader_ok A D (l\<lparr>l_db := w\<rparr>) ?T" using assms(1,2,14,15) W(2) by (simp add: loader_ok_def)
  have "us_rel cap' (l_UserShm (l\<lparr>l_db := w\<rparr>)) M'" "accounts ?T u = Some x" "u \<noteq> 0" "dbu_userid (profile i) = u"
    using assms(8,16) by (simp_all add: accounts_put info_ok_def profile_def)
  from load_user_ok [OF lok this(1) assms(17,18) this(3,2) assms(10,11) this(4) assms(12)] obtain l' where
    "load_user A P (l\<lparr>l_db := w\<rparr>) u = Some (0, l')" "us_rel cap' (l_UserShm l') (M'(u \<mapsto> restored (fst (sys_time (l_os l))) i))"
    by (auto simp: loaded_profile [OF assms(8)])
  then show ?thesis using W by (intro exI [of _ "s\<lparr>w_DBConn := ms, w_db := w\<rparr>"] exI [of _ ?T] exI [of _ l']) (simp add: accounts_put)
qed

section \<open>A request for a user who is not in the table\<close>

text \<open>
  \<open>later k s s'\<close>: from \<open>s\<close> to \<open>s'\<close> there were \<open>k\<close> system calls, and nothing was sent.
\<close>

definition later :: "nat \<Rightarrow> 'a server_scheme \<Rightarrow> 'a server_scheme \<Rightarrow> bool" where
  "later k s s' \<longleftrightarrow> os_ret (sv_os s') = os_ret (sv_os s) \<and> os_tick (sv_os s') = os_tick (sv_os s) + k \<and> sv_ServerID s' = sv_ServerID s
     \<and> sv_SendQueue s' = sv_SendQueue s"

lemma later_answer: "later k s s' \<Longrightarrow> answer s' j = answer s (k + j)"
  by (simp add: later_def answer_def add.assoc)

lemma later_packet: "later k s s' \<Longrightarrow> sv_packet s' d H b = sv_packet s d H b"
  by (simp add: sv_packet_def sv_header_def GetServerID_def later_def)

lemma later_sent: "later k s s' \<Longrightarrow> sv_sent s' j d H b ms s'' = sv_sent s (k + j) d H b ms s''"
  using later_answer [of k s s' j] later_packet [of k s s' d H b] by (simp add: sv_sent_def later_def)

lemma later_reply: "later k s s' \<Longrightarrow> reply_header s' H i c t = reply_header s H i c t"
  by (simp add: reply_header_def)

lemma later_trans: "later k s s' \<Longrightarrow> later j s' s'' \<Longrightarrow> later (k + j) s s''"
  by (simp add: later_def)

lemma scall_later: "later 1 s (snd (scall ev s))"
  by (simp add: later_def scall_eq os_call_def)

text \<open>The packet as the server reads it: at the front of a buffer.\<close>

lemma User_DealPkg_friend2:
  assumes "take (34 + length body) buf = XYHeaderIn_bytes H @ body" "hi_CmdID H = Cmd_User_AddFriend_Req2"
    "parse_UserAddFriendReq P (int (length body)) body = Some (u, nick, v)"
  shows "User_DealPkg P s buf (int (34 + length body)) = add_friend_here P s H (XYHeaderIn_bytes H @ body) u nick v"
proof -
  have b: "buf = XYHeaderIn_bytes H @ body @ drop (34 + length body) buf" using append_take_drop_id [of "34 + length body" buf] assms(1) by simp
  have "XYHeaderIn_Read buf 0 = (H, 34)" by (subst b) (rule xyin.rd_packet)
  moreover have "mem_read buf 34 (length body) = body" by (subst b) (simp add: mem_read_def)
  ultimately show ?thesis using assms
    by (simp add: User_DealPkg_def XYHeaderIn_GetHeaderLen_def user_add_friend2_def user_cmd_defs mem_read_def nat_add_distrib)
qed

text \<open>A user who is there: the request is put with the user, the user is written back and the sender gets the answer.\<close>

lemma WriteUserInfo_later:
  assumes "length (ser_WriteUserInfoReq P v) \<le> 256"
  shows "later 1 s (snd (WriteUserInfo P s v))"
  using assms by (simp add: WriteUserInfo_def scall_eq Let_def case_prod_unfold later_def os_call_def)

lemma add_friend_here_present:
  assumes "us_rel cap (m_UserShm s) M" "M v = Some i" "sq_rel (sv_SendQueue s) ms" "length (ser_WriteUserInfoReq P v) \<le> 256"
  shows "\<exists>s'. add_friend_here P s H pkt u nick v = Some (0, s')
    \<and> us_rel cap (m_UserShm s') (M(v \<mapsto> put_request (answer s 0) (answer s 1) u nick i))
    \<and> sv_sent s 4 (hi_SrcID H) (reply_header s H (sv_ServerID s) Cmd_User_AddFriend_Rsp (answer s 3)) (ser_AddFriendRsp P 0) ms s'"
proof -
  let ?w2 = "snd (sys_time (snd (sys_time (sv_os s))))"
  have L: "LoadUserInfoWhileNotExist P s v pkt = Some (0, s)"
    using GetUserInfo_ok [OF assms(1), of v] assms(2) by (simp add: LoadUserInfoWhileNotExist_def)
  obtain us where us: "AddFriendReq (m_UserShm s) (sv_os s) u v nick = Some (0, us, ?w2)"
    "us_rel cap us (M(v \<mapsto> put_request (answer s 0) (answer s 1) u nick i))"
    using AddFriendReq_ok [OF assms(1), of "sv_os s" u v nick] assms(2) by (auto simp: answer_def)
  define s1 where "s1 = s\<lparr>m_UserShm := us, sv_os := ?w2\<rparr>"
  define s2 where "s2 = snd (WriteUserInfo P s1 v)"
  have "later 2 s s1" by (simp add: later_def s1_def sys_time_def sys_int_def os_call_def)
  then have l: "later 3 s s2" using later_trans [OF _ WriteUserInfo_later [OF assms(4)], of 2 s s1] by (simp add: s2_def)
  then have q: "sq_rel (sv_SendQueue s2) ms" "sv_ServerID s2 = sv_ServerID s" using assms(3) by (simp_all add: later_def)
  let ?s' = "snd (sv_reply s2 H Cmd_User_AddFriend_Rsp (ser_AddFriendRsp P 0))"
  have "add_friend_here P s H pkt u nick v = Some (0, ?s')"
    using us(1) by (simp add: add_friend_here_def L s1_def s2_def Let_def)
  moreover have "m_UserShm ?s' = us" by (simp add: s2_def s1_def)
  moreover note sv_reply_sent [OF q(1), of H Cmd_User_AddFriend_Rsp "ser_AddFriendRsp P 0"]
  ultimately show ?thesis using us(2) by (simp add: later_sent [OF l] later_answer [OF l] later_reply [OF l] q(2))
qed

text \<open>A user who is not there: the packet goes to the loader.\<close>

lemma add_friend_here_absent:
  fixes P v pkt
  defines "req \<equiv> ser_LoadUserInfoReq P v pkt"
  assumes "us_rel cap (m_UserShm s) M" "M v = None" "sq_rel (m_LoaderSendQueue s) qs" "answer s 0 = 0"
    "req \<noteq> []" "length req \<le> XY_PKG_MAX_LEN" "queue_room (m_LoaderSendQueue s) qs req"
  shows "\<exists>q. add_friend_here P s H pkt u nick v = Some (0, s\<lparr>sv_os := os_call EvOther (sv_os s), m_LoaderSendQueue := q\<rparr>)
    \<and> sq_rel q (qs @ [req])"
proof -
  have n: "length req < 2 ^ 32 - 4" using assms(7) by (simp add: XY_PKG_MAX_LEN_def)
  obtain q where q: "InQueue (m_LoaderSendQueue s) req (of_nat (length req)) True 0 = (SHM_SUCCESS, q)" "sq_rel q (qs @ [req])"
    using queue_put [OF assms(4,6) n, of 0] assms(8) by auto
  have "LoadUserInfo P s v pkt = (0, s\<lparr>sv_os := os_call EvOther (sv_os s), m_LoaderSendQueue := q\<rparr>)"
    using q(1) assms(5,7) by (simp add: LoadUserInfo_def scall_answer req_def)
  then have "LoadUserInfoWhileNotExist P s v pkt = Some (1, s\<lparr>sv_os := os_call EvOther (sv_os s), m_LoaderSendQueue := q\<rparr>)"
    using GetUserInfo_ok [OF assms(2), of v] assms(3) by (simp add: LoadUserInfoWhileNotExist_def)
  then show ?thesis using q(2) by (auto simp: add_friend_here_def)
qed

definition loader_answer :: "'w loader \<Rightarrow> nat \<Rightarrow> int" where
  "loader_answer l k = os_ret (l_os l) (os_tick (l_os l) + k)"

text \<open>The loader gives the packet back when it has brought the user in.\<close>

lemma loader_round_ok:
  fixes P v pkt
  defines "req \<equiv> ser_LoadUserInfoReq P v pkt" and "rsp \<equiv> ser_LoadUserInfoRsp P 0 pkt"
  assumes "loader_ok A D l T" "us_rel cap (l_UserShm l) M" "M v = None" "int (card (dom M)) + 1 < cap" "v \<noteq> 0"
    and "accounts T v = Some x" "x \<noteq> []" "parse_DBUserInfo P x = Some d" "dbu_userid d = v" "no_percent d"
    and "sq_rel (l_LoaderRecvQueue l) [req]" "length req \<le> XY_PKG_MAX_LEN" "parse_LoadUserInfoReq P req = Some (v, pkt)"
    and "sq_rel (l_LoaderSendQueue l) rs" "rsp \<noteq> []" "length rsp \<le> XY_PKG_MAX_LEN" "queue_room (l_LoaderSendQueue l) rs rsp"
    and "loader_answer l 0 = 0" "loader_answer l 2 = 0"
  shows "\<exists>l'. loader_round A P l = Some (Inr l') \<and> us_rel cap (l_UserShm l') (M(v \<mapsto> loaded (loader_answer l 1) d))
    \<and> sq_rel (l_LoaderSendQueue l') (rs @ [rsp])"
proof -
  let ?buf = "replicate XY_PKG_MAX_LEN 0"
  obtain q where q: "OutQueue_int (l_LoaderRecvQueue l) ?buf (int XY_PKG_MAX_LEN) True 0 = (0, memcpy_to ?buf 0 req, int (length req), q)"
    using queue_get [OF assms(13,14), of ?buf] by blast
  define l1 where "l1 = l\<lparr>l_os := os_call EvOther (l_os l), l_LoaderRecvQueue := q\<rparr>"
  have l1: "loader_ok A D l1 T" "us_rel cap (l_UserShm l1) M" using assms(3,4) by (simp_all add: l1_def)
  have t: "sys_time (l_os l1) = (loader_answer l 1, os_call EvOther (l_os l1))"
    by (simp add: l1_def sys_time_def sys_int_def loader_answer_def os_call_def)
  obtain ms w us where L: "load_user A P l1 v = Some (0, l1\<lparr>l_DBConn := ms, l_db := w, l_os := os_call EvOther (l_os l1), l_UserShm := us\<rparr>)"
    "m_pRes (ms ! GetUserDBIndex v) \<noteq> ResUninit" "us_rel cap us (M(v \<mapsto> loaded (loader_answer l 1) d))"
    using load_user_ok [OF l1 assms(5-12)] unfolding t by auto
  obtain m where m: "MySQL_ReleaseRes (ms ! GetUserDBIndex v) = Some m"
    using L(2) by (cases "m_pRes (ms ! GetUserDBIndex v)") (auto simp: MySQL_ReleaseRes_def)
  have n: "length rsp < 2 ^ 32 - 4" using assms(18) by (simp add: XY_PKG_MAX_LEN_def)
  obtain q' where q': "InQueue (l_LoaderSendQueue l) rsp (of_nat (length rsp)) True 0 = (SHM_SUCCESS, q')" "sq_rel q' (rs @ [rsp])"
    using queue_put [OF assms(16,17) n, of 0] assms(19) by auto
  have s0: "sys_int EvOther (l_os l) = (0, os_call EvOther (l_os l))" using assms(20) by (simp add: sys_int_def loader_answer_def)
  have s2: "fst (sys_int EvOther (os_call EvOther (l_os l1))) = 0" using assms(21) by (simp add: sys_int_def loader_answer_def l1_def os_call_def)
  define l2 where "l2 = l1\<lparr>l_DBConn := ms[GetUserDBIndex v := m], l_db := w, l_UserShm := us,
      l_os := snd (sys_int EvOther (os_call EvOther (l_os l1))), l_LoaderSendQueue := q'\<rparr>"
  have "ProcessLoaderUserInfo A P l1 v pkt = Some (0, l2)"
    using L(1) m q'(1) s2 assms(18) unfolding l1_def [symmetric]
    by (simp add: ProcessLoaderUserInfo_def rsp_def l2_def case_prod_unfold Let_def) (simp add: l1_def)
  moreover have "mem_read (memcpy_to ?buf 0 req) 0 (length req) = req" by (simp add: mem_read_def memcpy_to_def)
  ultimately have "loader_round A P l = Some (Inr l2)"
    using s0 q assms(15) unfolding l1_def by (simp add: loader_round_def shm_codes)
  then show ?thesis using L(3) q'(2) by (intro exI [of _ l2]) (simp add: l2_def)
qed

text \<open>The server gets the packet back.\<close>

lemma round_loader_ok:
  fixes P pkt
  defines "rsp \<equiv> ser_LoadUserInfoRsp P 0 pkt"
  assumes "sq_rel (m_LoaderRecvQueue s) (rsp # rs)" "length rsp \<le> XY_PKG_MAX_LEN" "parse_LoadUserInfoRsp P rsp = Some (0, pkt)"
    and "answer s 0 = 0" "33 \<le> length pkt"
  shows "\<exists>q. sq_rel q rs \<and> round_loader P \<lparr>ul_user = s, ul_buf = buf, ul_LastStateTime = t\<rparr>
      = do { (r, s) \<leftarrow> User_DealPkg P (s\<lparr>sv_os := os_call EvOther (sv_os s), m_LoaderRecvQueue := q\<rparr>) (pkt @ [0]) (int (length pkt));
             Some (r = 0, False, \<lparr>ul_user = s, ul_buf = memcpy_to buf 0 rsp, ul_LastStateTime = t\<rparr>) }"
proof -
  obtain q where q: "OutQueue_int (m_LoaderRecvQueue s) buf (int XY_PKG_MAX_LEN) True 0 = (0, memcpy_to buf 0 rsp, int (length rsp), q)" "sq_rel q rs"
    using queue_get [OF assms(2,3), of buf] by blast
  have "mem_read (memcpy_to buf 0 rsp) 0 (length rsp) = rsp" by (simp add: mem_read_def memcpy_to_def)
  then have "round_loader P \<lparr>ul_user = s, ul_buf = buf, ul_LastStateTime = t\<rparr>
      = do { (r, s) \<leftarrow> User_DealPkg P (s\<lparr>sv_os := os_call EvOther (sv_os s), m_LoaderRecvQueue := q\<rparr>) (pkt @ [0]) (int (length pkt));
             Some (r = 0, False, \<lparr>ul_user = s, ul_buf = memcpy_to buf 0 rsp, ul_LastStateTime = t\<rparr>) }"
    using q(1) assms(4-6) by (simp add: round_loader_def loader_receive_def scall_answer user_from_loader_def XYHeaderIn_GetHeaderLen_def shm_codes)
  with q(2) show ?thesis by blast
qed

lemma User_DealPkg_packet:
  assumes "hi_CmdID H = Cmd_User_AddFriend_Req2" "parse_UserAddFriendReq P (int (length body)) body = Some (u, nick, v)"
    "pkt = XYHeaderIn_bytes H @ body" "take (length pkt) b = pkt"
  shows "User_DealPkg P s b (int (length pkt)) = add_friend_here P s H pkt u nick v"
  using User_DealPkg_friend2 [of body b H P u nick v s] assms by simp

lemma round_loader_present:
  fixes P pkt
  defines "rsp \<equiv> ser_LoadUserInfoRsp P 0 pkt"
  assumes H: "hi_CmdID H = Cmd_User_AddFriend_Req2" "parse_UserAddFriendReq P (int (length body)) body = Some (u, nick, v)" "pkt = XYHeaderIn_bytes H @ body"
    and q: "sq_rel (m_LoaderRecvQueue s) [rsp]" "length rsp \<le> XY_PKG_MAX_LEN" "parse_LoadUserInfoRsp P rsp = Some (0, pkt)" "answer s 0 = 0"
    and M: "us_rel cap (m_UserShm s) M" "M v = Some i" "sq_rel (sv_SendQueue s) ms" "length (ser_WriteUserInfoReq P v) \<le> 256"
  shows "\<exists>L. round_loader P \<lparr>ul_user = s, ul_buf = buf, ul_LastStateTime = t\<rparr> = Some (True, False, L)
    \<and> us_rel cap (m_UserShm (ul_user L)) (M(v \<mapsto> put_request (answer s 1) (answer s 2) u nick i))
    \<and> sv_sent s 5 (hi_SrcID H) (reply_header s H (sv_ServerID s) Cmd_User_AddFriend_Rsp (answer s 4)) (ser_AddFriendRsp P 0) ms (ul_user L)"
proof -
  have "33 \<le> length pkt" by (simp add: H(3))
  from round_loader_ok [of s P pkt "[]", folded rsp_def, OF q this] obtain q' where
    R: "round_loader P \<lparr>ul_user = s, ul_buf = buf, ul_LastStateTime = t\<rparr>
      = do { (r, s) \<leftarrow> User_DealPkg P (s\<lparr>sv_os := os_call EvOther (sv_os s), m_LoaderRecvQueue := q'\<rparr>) (pkt @ [0]) (int (length pkt));
             Some (r = 0, False, \<lparr>ul_user = s, ul_buf = memcpy_to buf 0 rsp, ul_LastStateTime = t\<rparr>) }"
    by blast
  define s1 where "s1 = s\<lparr>sv_os := os_call EvOther (sv_os s), m_LoaderRecvQueue := q'\<rparr>"
  have l: "later 1 s s1" by (simp add: later_def s1_def os_call_def)
  have s1: "us_rel cap (m_UserShm s1) M" "sq_rel (sv_SendQueue s1) ms" "sv_ServerID s1 = sv_ServerID s" using M by (simp_all add: s1_def)
  obtain s2 where s2: "add_friend_here P s1 H pkt u nick v = Some (0, s2)"
    "us_rel cap (m_UserShm s2) (M(v \<mapsto> put_request (answer s 1) (answer s 2) u nick i))"
    "sv_sent s 5 (hi_SrcID H) (reply_header s H (sv_ServerID s) Cmd_User_AddFriend_Rsp (answer s 4)) (ser_AddFriendRsp P 0) ms s2"
    using add_friend_here_present [OF s1(1) M(2) s1(2) M(4), of H pkt u nick]
    by (auto simp: later_answer [OF l] later_sent [OF l] later_reply [OF l] s1(3) numeral_2_eq_2)
  then show ?thesis unfolding R s1_def [symmetric] by (simp add: User_DealPkg_packet [OF H])
qed

text \<open>
  C6: A request to add a friend, from another server, for a user who is in the database and not in the table is not lost while the user is loaded:
  the server gives the whole packet to the loader and goes on, the loader puts the user into the table and gives the packet back, and when the
  server gets it the request is put with the user and the answer goes to the sender of the packet. This is for one packet: the queues between
  the server and the loader are empty, can be locked and have room for it, and the table has room for one more user. The database answers every
  call and has a row that is not empty and can be parsed as the profile of this user, whose texts hold no percent sign (the loader uses them
  as formats); the names of the database and of the table leave room for the loader's statement in its array.
\<close>
theorem request_survives_loading:
  fixes H P body s l v
  defines "pkt \<equiv> XYHeaderIn_bytes H @ body"
  defines "req \<equiv> ser_LoadUserInfoReq P v pkt" and "rsp \<equiv> ser_LoadUserInfoRsp P 0 pkt"
  assumes "us_rel cap (m_UserShm s) M" "M v = None" "int (card (dom M)) + 1 < cap" "v \<noteq> 0"
    and "hi_CmdID H = Cmd_User_AddFriend_Req2" "parse_UserAddFriendReq P (int (length body)) body = Some (u, nick, v)"
    and "parse_LoadUserInfoReq P req = Some (v, pkt)" "req \<noteq> []" "length req \<le> XY_PKG_MAX_LEN"
    and "parse_LoadUserInfoRsp P rsp = Some (0, pkt)" "rsp \<noteq> []" "length rsp \<le> XY_PKG_MAX_LEN" "length (ser_WriteUserInfoReq P v) \<le> 256"
    and "loader_ok A D l T" "accounts T v = Some x" "x \<noteq> []" "parse_DBUserInfo P x = Some d" "dbu_userid d = v" "no_percent d"
    and "sq_rel (m_LoaderSendQueue s) []" "queue_room (m_LoaderSendQueue s) [] req" "answer s 0 = 0" "answer s 1 = 0"
    and "sq_rel (l_LoaderSendQueue l) []" "queue_room (l_LoaderSendQueue l) [] rsp" "loader_answer l 0 = 0" "loader_answer l 2 = 0"
    and "sq_rel (sv_SendQueue s) ms"
  shows "\<exists>s1 l1 L. User_DealPkg P s pkt (int (length pkt)) = Some (0, s1) \<and> m_UserShm s1 = m_UserShm s
    \<and> loader_round A P (l\<lparr>l_LoaderRecvQueue := m_LoaderSendQueue s1, l_UserShm := m_UserShm s1\<rparr>) = Some (Inr l1)
    \<and> round_loader P \<lparr>ul_user = s1\<lparr>m_LoaderRecvQueue := l_LoaderSendQueue l1, m_UserShm := l_UserShm l1\<rparr>, ul_buf = buf, ul_LastStateTime = t\<rparr>
        = Some (True, False, L)
    \<and> us_rel cap (m_UserShm (ul_user L)) (M(v \<mapsto> put_request (answer s 2) (answer s 3) u nick (loaded (loader_answer l 1) d)))
    \<and> sv_sent s 6 (hi_SrcID H) (reply_header s H (sv_ServerID s) Cmd_User_AddFriend_Rsp (answer s 5)) (ser_AddFriendRsp P 0) ms (ul_user L)"
proof -
  have H: "hi_CmdID H = Cmd_User_AddFriend_Req2" "parse_UserAddFriendReq P (int (length body)) body = Some (u, nick, v)" "pkt = XYHeaderIn_bytes H @ body"
    using assms(8,9) by (simp_all add: pkt_def)
  obtain q where q: "add_friend_here P s H pkt u nick v = Some (0, s\<lparr>sv_os := os_call EvOther (sv_os s), m_LoaderSendQueue := q\<rparr>)" "sq_rel q [req]"
    using add_friend_here_absent [OF assms(4,5,23,25), where P = P and pkt = pkt and H = H and u = u and nick = nick] assms(11,12,24)
    unfolding req_def by auto
  define s1 where "s1 = s\<lparr>sv_os := os_call EvOther (sv_os s), m_LoaderSendQueue := q\<rparr>"
  define l0 where "l0 = l\<lparr>l_LoaderRecvQueue := m_LoaderSendQueue s1, l_UserShm := m_UserShm s1\<rparr>"
  have l0: "loader_ok A D l0 T" "us_rel cap (l_UserShm l0) M" "sq_rel (l_LoaderRecvQueue l0) [req]" "sq_rel (l_LoaderSendQueue l0) []"
    "queue_room (l_LoaderSendQueue l0) [] rsp" "loader_answer l0 k = loader_answer l k" for k
    using assms(4,17,27,28) q(2) by (simp_all add: l0_def s1_def loader_answer_def)
  obtain l1 where l1: "loader_round A P l0 = Some (Inr l1)" "us_rel cap (l_UserShm l1) (M(v \<mapsto> loaded (loader_answer l 1) d))"
    "sq_rel (l_LoaderSendQueue l1) [rsp]"
    using loader_round_ok [of A D l0 T cap M v x P d pkt "[]", folded req_def rsp_def, OF l0(1,2) assms(5-7,18-22) l0(3) assms(12,10) l0(4) assms(14,15) l0(5)]
      assms(29,30) unfolding l0(6) by auto
  define s2 where "s2 = s1\<lparr>m_LoaderRecvQueue := l_LoaderSendQueue l1, m_UserShm := l_UserShm l1\<rparr>"
  have l: "later 1 s s2" by (simp add: later_def s2_def s1_def os_call_def)
  have s2: "sq_rel (m_LoaderRecvQueue s2) [rsp]" "answer s2 0 = 0" "us_rel cap (m_UserShm s2) (M(v \<mapsto> loaded (loader_answer l 1) d))"
    "sq_rel (sv_SendQueue s2) ms" "sv_ServerID s2 = sv_ServerID s"
    using l1(2,3) assms(26,31) later_answer [OF l, of 0] by (simp_all add: s2_def s1_def)
  obtain L where L: "round_loader P \<lparr>ul_user = s2, ul_buf = buf, ul_LastStateTime = t\<rparr> = Some (True, False, L)"
    "us_rel cap (m_UserShm (ul_user L)) (M(v \<mapsto> put_request (answer s 2) (answer s 3) u nick (loaded (loader_answer l 1) d)))"
    "sv_sent s 6 (hi_SrcID H) (reply_header s H (sv_ServerID s) Cmd_User_AddFriend_Rsp (answer s 5)) (ser_AddFriendRsp P 0) ms (ul_user L)"
    using round_loader_present [OF H, of s2, folded rsp_def, OF s2(1) assms(15,13) s2(2,3) _ s2(4) assms(16), of "loaded (loader_answer l 1) d" buf t]
    by (auto simp: later_answer [OF l] later_sent [OF l] later_reply [OF l] s2(5) numeral_2_eq_2 eval_nat_numeral)
  have "User_DealPkg P s pkt (int (length pkt)) = Some (0, s1)" "m_UserShm s1 = m_UserShm s"
    using q(1) User_DealPkg_packet [OF H, of pkt s] by (simp_all add: s1_def)
  then show ?thesis using l1(1) L unfolding l0_def s2_def by blast
qed

section \<open>An example\<close>

text \<open>A database that reads the two statements, with the escapes of \<open>mysql_real_escape_string\<close> for the zero byte, the quote and the backslash.\<close>

definition esc_char :: "char \<Rightarrow> string" where
  "esc_char c = (if c = NUL then [CHR 0x5C, CHR ''0''] else if c = QUOTE then [CHR 0x5C, QUOTE] else if c = CHR 0x5C then [CHR 0x5C, CHR 0x5C] else [c])"

fun quoted :: "string \<Rightarrow> string" where
  "quoted (c # d # cs) = (if c = QUOTE then [] else if c = CHR 0x5C then (if d = CHR ''0'' then NUL else d) # quoted cs else c # quoted (d # cs))"
| "quoted _ = []"

definition store_select :: "nat \<Rightarrow> string \<Rightarrow> tables \<Rightarrow> sqlrow list option" where
  "store_select i sql T = do {
     r \<leftarrow> strip ''select data from d.t_'' sql;
     let (t, r) = number r;
     r \<leftarrow> strip '' where id='' r;
     Some (case T i t (of_nat (fst (number r))) of None \<Rightarrow> [] | Some p \<Rightarrow> [[Some p]])
   }"

definition store_replace :: "nat \<Rightarrow> string \<Rightarrow> tables \<Rightarrow> tables option" where
  "store_replace i sql T = do {
     r \<leftarrow> strip ''REPLACE INTO d.t_'' sql;
     let (t, r) = number r;
     r \<leftarrow> strip '' values ( '' r;
     let (u, r) = number r;
     r \<leftarrow> strip ('','' @ [QUOTE]) r;
     Some (put T i t (of_nat u) (quoted r))
   }"

definition store_api :: "(tables \<times> sqlrow list option) mysql_api" where
  "store_api = mini_api\<lparr>mysql_real_query := (\<lambda>i sql (T, res). case store_select i sql T of
        Some rows \<Rightarrow> (0, (T, Some rows))
      | None \<Rightarrow> (case store_replace i sql T of Some T \<Rightarrow> (0, (T, None)) | None \<Rightarrow> (1, (T, None)))),
     mysql_real_escape_string := (\<lambda>_ s _. concat (map esc_char s))\<rparr>"

lemma quoted_esc: "quoted (concat (map esc_char x) @ QUOTE # c # r) = x"
proof (induction x)
  case Nil
  then show ?case by simp
next
  case (Cons a x)
  obtain d e where "concat (map esc_char x) @ QUOTE # c # r = d # e" by (cases "concat (map esc_char x)") auto
  with Cons show ?case by (auto simp: esc_char_def [of a] NUL_def QUOTE_def)
qed

lemma store_select_sql: "store_select i (load_sql mini_cfg t u) T = Some (case T i t u of None \<Rightarrow> [] | Some p \<Rightarrow> [[Some p]])"
proof -
  have e: "load_sql mini_cfg t u = ''select data from d.t_'' @ dec_nat t @ '' where id='' @ dec_nat (unat u) @ '' limit 1''"
    by (simp add: load_sql_def mini_cfg_def)
  have n: "number (dec_nat t @ '' where id='' @ r) = (t, '' where id='' @ r)" "number (dec_nat (unat u) @ '' limit 1'') = (unat u, '' limit 1'')" for r
    by (subst number_dec; simp add: digit_val_def)+
  show ?thesis unfolding store_select_def e strip_append Option.bind.bind_lunit Let_def n prod.case by simp
qed

lemma store_replace_sql:
  "store_select i (replace_sql mini_cfg t u (concat (map esc_char x))) T = None"
  "store_replace i (replace_sql mini_cfg t u (concat (map esc_char x))) T = Some (put T i t u x)"
proof -
  have e: "replace_sql mini_cfg t u (concat (map esc_char x)) = ''REPLACE INTO d.t_'' @ dec_nat t @ '' values ( '' @ dec_nat (unat u)
      @ ('','' @ [QUOTE]) @ concat (map esc_char x) @ QUOTE # CHR '')'' # []"
    by (simp add: replace_sql_def mini_cfg_def QUOTE_def)
  have n: "number (dec_nat t @ '' values ( '' @ r) = (t, '' values ( '' @ r)"
    "number (dec_nat (unat u) @ ('','' @ [QUOTE]) @ r) = (unat u, ('','' @ [QUOTE]) @ r)" for r
    by (subst number_dec; simp add: digit_val_def)+
  show "store_select i (replace_sql mini_cfg t u (concat (map esc_char x))) T = None" unfolding store_select_def e by (simp add: strip_def)
  show "store_replace i (replace_sql mini_cfg t u (concat (map esc_char x))) T = Some (put T i t u x)"
    unfolding store_replace_def e strip_append Option.bind.bind_lunit Let_def n prod.case quoted_esc by simp
qed

lemma store_user_db: "user_db store_api [mini_cfg, mini_cfg] (\<lambda>w T. fst w = T)"
proof -
  have c: "[mini_cfg, mini_cfg] ! i = mini_cfg" if "i < 2" for i using that by (auto simp: less_2_cases_iff)
  have "NUL \<notin> set (concat (map esc_char x))" for x by (induction x) (auto simp: esc_char_def NUL_def QUOTE_def)
  then show ?thesis unfolding user_db_def by (auto simp: c store_api_def mini_api_def store_select_sql store_replace_sql)
qed

definition loader_example :: "usershm \<Rightarrow> (tables \<times> sqlrow list option) loader" where
  "loader_example us = \<lparr>l_LoaderRecvQueue = queue_of 256, l_LoaderSendQueue = queue_of 256, l_UserShm = us, l_DBConfig = [mini_cfg, mini_cfg],
     l_DBConn = [CMySQL, CMySQL], l_db = (\<lambda>_ _. [7 \<mapsto> ''joe''], None), l_os = os_example []\<rparr>"

definition writer_example :: "usershm \<Rightarrow> (tables \<times> sqlrow list option) writer" where
  "writer_example us = \<lparr>w_WriterQueue = queue_of 256, w_UserShm = us, w_DBConfig = [mini_cfg, mini_cfg],
     w_DBConn = [CMySQL, CMySQL], w_db = (\<lambda>_ _. Map.empty, None), w_os = os_example []\<rparr>"

lemma loader_example_ok: "loader_ok store_api (\<lambda>w T. fst w = T) (loader_example us) (\<lambda>_ _. [7 \<mapsto> ''joe''])"
proof -
  have "short_names [mini_cfg, mini_cfg]" by (auto simp: short_names_def mini_cfg_def less_2_cases_iff)
  then show ?thesis using store_user_db by (simp add: loader_ok_def loader_example_def conns_ok_def CMySQL_def)
qed

definition joe :: ShmUserInfo where
  "joe = registered 7 reg_example 1000"

definition upb_example :: user_pb where
  "upb_example = \<lparr>parse_UserRegisterReq = (\<lambda>_ _. None), parse_AddFriendReq = (\<lambda>_ _. None), parse_UserAddFriendReq = (\<lambda>_ _. Some (9, ''ann'', 7)),
     parse_LoadUserInfoReq = (\<lambda>b. case b of [] \<Rightarrow> None | c # r \<Rightarrow> Some (ucast c, r)),
     parse_LoadUserInfoRsp = (\<lambda>b. case b of [] \<Rightarrow> None | c # r \<Rightarrow> Some (sint c, r)),
     parse_WriteUserInfoReq = (\<lambda>_. None), parse_DBUserInfo = (\<lambda>x. if x = ''joe'' then Some (profile joe) else None),
     ser_UserRegisterRsp = (\<lambda>_ _. []), ser_AddFriendRsp = (\<lambda>r. [word_of_int r]), ser_UserAddFriendReq = (\<lambda>_ _ _. []),
     ser_LoadUserInfoReq = (\<lambda>u r. ucast u # r), ser_LoadUserInfoRsp = (\<lambda>r b. word_of_int r # b), ser_WriteUserInfoReq = (\<lambda>u. [ucast u]),
     ser_DBUserInfo = (\<lambda>d. Some ''joe''), ser_UserState = (\<lambda>_ _. [])\<rparr>"

lemma joe_ok: "info_ok 7 joe" "no_percent (profile joe)" "dbu_userid (profile joe) = 7"
  by (simp_all add: joe_def registered_ok)
     (simp_all add: no_percent_def profile_def registered_def reg_example_def print_s_def c_str_def NUL_def user_lens ShmUserInfo_new_def)

theorem written_user_loads_back_witness:
  "\<exists>us s' l'. InsertUserInfo users_example joe = Some (0, us)
     \<and> ProcessWriterUserInfo store_api upb_example (writer_example us) 7 = Some (0, s')
     \<and> load_user store_api upb_example ((loader_example users_example)\<lparr>l_db := w_db s'\<rparr>) 7 = Some (0, l')
     \<and> GetUserInfo (l_UserShm l') 7 ShmUserInfo_new
         = Some (0, joe\<lparr>ui_Status := USER_STATUS_LOADED, ui_LastActiveTime := 0, ui_Birthday := 0\<rparr>)"
proof -
  obtain us where us: "InsertUserInfo users_example joe = Some (0, us)" "us_rel 3 us [7 \<mapsto> joe]" using joe_inserted by (auto simp: joe_def)
  have db: "short_names [mini_cfg, mini_cfg]" "conns_ok (w_DBConn (writer_example us))" "conns_ok (l_DBConn (loader_example users_example))"
    using loader_example_ok [of users_example] by (simp_all add: loader_ok_def loader_example_def writer_example_def)
  have e: "mysql_real_escape_string store_api i ''joe'' w = ''joe''" for i w by (simp add: store_api_def esc_char_def NUL_def QUOTE_def)
  have x: "ser_DBUserInfo upb_example (profile joe) = Some ''joe''" "parse_DBUserInfo upb_example ''joe'' = Some (profile joe)"
    "length (mysql_real_escape_string store_api (GetUserDBIndex 7) ''joe'' (w_db (writer_example us))) < SHM_USER_INFO_SIZE"
    unfolding e by (simp_all add: upb_example_def SHM_USER_INFO_SIZE_def)
  have u: "us_rel 3 (w_UserShm (writer_example us)) [7 \<mapsto> joe]" "us_rel 3 (l_UserShm (loader_example users_example)) Map.empty"
    using us(2) users_example_rel by (simp_all add: writer_example_def loader_example_def)
  obtain s' l' where "ProcessWriterUserInfo store_api upb_example (writer_example us) 7 = Some (0, s')"
    "load_user store_api upb_example ((loader_example users_example)\<lparr>l_db := w_db s'\<rparr>) 7 = Some (0, l')"
    and l': "us_rel 3 (l_UserShm l') [7 \<mapsto> restored (fst (sys_time (l_os (loader_example users_example)))) joe]"
    using written_user_loads_back [OF store_user_db db(1) _ db(2) _ u(1) _ joe_ok(1) x(1) _ x(2) joe_ok(2) x(3) _ db(3) u(2)]
    by (auto simp: writer_example_def loader_example_def)
  moreover have "restored (fst (sys_time (l_os (loader_example users_example)))) joe
      = joe\<lparr>ui_Status := USER_STATUS_LOADED, ui_LastActiveTime := 0, ui_Birthday := 0\<rparr>"
    by (simp add: restored_def joe_def registered_def loader_example_def os_example_def sys_time_def sys_int_def)
  ultimately show ?thesis using us(1) GetUserInfo_ok [OF l', of 7 ShmUserInfo_new] by auto
qed

definition friend_header :: XYHeaderIn where
  "friend_header = XYHeaderIn_new\<lparr>hi_SrcID := 301, hi_CmdID := Cmd_User_AddFriend_Req2, hi_SN := 9, hi_ConnPos := 501\<rparr>"

lemma example_room: "length m < 252 \<Longrightarrow> queue_room (queue_of 256) [] m"
  by (simp add: queue_room_def queue_of_def)

theorem request_survives_loading_witness:
  "\<exists>s1 l1 L i. User_DealPkg upb_example (server_example users_example 0) (XYHeaderIn_bytes friend_header @ [5]) 35 = Some (0, s1)
     \<and> loader_round store_api upb_example ((loader_example users_example)\<lparr>l_LoaderRecvQueue := m_LoaderSendQueue s1, l_UserShm := m_UserShm s1\<rparr>) = Some (Inr l1)
     \<and> round_loader upb_example \<lparr>ul_user = s1\<lparr>m_LoaderRecvQueue := l_LoaderSendQueue l1, m_UserShm := l_UserShm l1\<rparr>, ul_buf = [], ul_LastStateTime = 0\<rparr>
         = Some (True, False, L)
     \<and> GetUserInfo (m_UserShm (ul_user L)) 7 ShmUserInfo_new = Some (0, i) \<and> rq_UserID (hd (RequestList i)) = 9
     \<and> sq_rel (sv_SendQueue (ul_user L)) [sv_packet (server_example users_example 0) 301
         (reply_header (server_example users_example 0) friend_header 0 Cmd_User_AddFriend_Rsp 0) [0]]"
proof -
  let ?s = "server_example users_example 0" and ?l = "loader_example users_example" and ?pkt = "XYHeaderIn_bytes friend_header @ [5]"
  have s: "us_rel 3 (m_UserShm ?s) Map.empty" "sq_rel (m_LoaderSendQueue ?s) []" "sq_rel (sv_SendQueue ?s) []" "answer ?s k = 0" "sv_ServerID ?s = 0"
    "queue_room (m_LoaderSendQueue ?s) [] (ser_LoadUserInfoReq upb_example 7 ?pkt)" for k
    using users_example_rel example_room by (simp_all add: server_example_def User_new_def queue_of_rel answer_def upb_example_def)
  have l: "sq_rel (l_LoaderSendQueue ?l) []" "loader_answer ?l k = 0" "queue_room (l_LoaderSendQueue ?l) [] (ser_LoadUserInfoRsp upb_example 0 ?pkt)" for k
    using example_room by (simp_all add: loader_example_def queue_of_rel loader_answer_def os_example_def upb_example_def)
  obtain s1 l1 L where R: "User_DealPkg upb_example ?s ?pkt 35 = Some (0, s1)"
    "loader_round store_api upb_example (?l\<lparr>l_LoaderRecvQueue := m_LoaderSendQueue s1, l_UserShm := m_UserShm s1\<rparr>) = Some (Inr l1)"
    "round_loader upb_example \<lparr>ul_user = s1\<lparr>m_LoaderRecvQueue := l_LoaderSendQueue l1, m_UserShm := l_UserShm l1\<rparr>, ul_buf = [], ul_LastStateTime = 0\<rparr>
       = Some (True, False, L)"
    "us_rel 3 (m_UserShm (ul_user L)) [7 \<mapsto> put_request 0 0 9 ''ann'' (loaded 0 (profile joe))]"
    "sv_sent ?s 6 (hi_SrcID friend_header) (reply_header ?s friend_header 0 Cmd_User_AddFriend_Rsp 0) (ser_AddFriendRsp upb_example 0) [] (ul_user L)"
    using request_survives_loading [of 3 ?s Map.empty 7 friend_header upb_example "[5]" 9 "''ann''" store_api "\<lambda>w T. fst w = T" ?l
        "\<lambda>_ _. [7 \<mapsto> ''joe'']" "''joe''" "profile joe" "[]" "[]" 0] s l loader_example_ok joe_ok(2,3)
    by (simp add: friend_header_def upb_example_def accounts_def XY_PKG_MAX_LEN_def) blast
  have "loaded 0 (profile joe) = restored 0 joe" by (rule loaded_profile [OF joe_ok(1)])
  then have "rq_UserID (hd (RequestList (put_request 0 0 9 ''ann'' (loaded 0 (profile joe))))) = 9"
    using new_requests by (simp add: put_request_def restored_def RequestInfo_new_def)
  moreover have "sq_rel (sv_SendQueue (ul_user L)) [sv_packet ?s 301 (reply_header ?s friend_header 0 Cmd_User_AddFriend_Rsp 0) [0]]"
    using R(5) s(4) by (simp add: sv_sent_def friend_header_def upb_example_def queue_room_def XY_PKG_MAX_LEN_def)
       (simp add: server_example_def User_new_def queue_of_def)
  ultimately show ?thesis using R(1-3) GetUserInfo_ok [OF R(4), of 7 ShmUserInfo_new] by auto
qed

end
