(* ===== verification/LogFile.thy ===== *)
theory LogFile
  imports Setup
begin

text \<open>
  The files of the log server (\<^verbatim>\<open>logsvr/logsvr_proc.cpp\<close>): which file a log record goes to, and how a file that has grown too large is
  set aside. The log library has the same functions.

  The file system is modelled as far as the code uses it: names of files, and what the files hold. An open file is a number that names what it
  holds and not its name, so it stays the same file when it is renamed. Opening, locking, \<open>fstat\<close> and writing may fail: \<open>fs_fails\<close> says
  which of these calls to come do. A file whose directory is not there is a file that cannot be opened; \<open>mkdir\<close> is not modelled.
  \<open>rename\<close> and \<open>unlink\<close> do nothing for a name that is not there and succeed for others.
\<close>

section \<open>Files\<close>

record fs =
  fs_names :: "string \<rightharpoonup> nat"
  fs_data :: "nat \<Rightarrow> string"
  fs_next :: nat
  fs_tick :: nat
  fs_fails :: "nat \<Rightarrow> bool"

definition fs_call :: "fs \<Rightarrow> bool \<times> fs" where
  "fs_call F = (fs_fails F (fs_tick F), F\<lparr>fs_tick := Suc (fs_tick F)\<rparr>)"

text \<open>The file with a name, made when there is none.\<close>

definition fs_create :: "string \<Rightarrow> fs \<Rightarrow> nat \<times> fs" where
  "fs_create name F =
     (case fs_names F name of
        Some i \<Rightarrow> (i, F)
      | None \<Rightarrow> (fs_next F, F\<lparr>fs_names := (fs_names F)(name \<mapsto> fs_next F), fs_data := (fs_data F)(fs_next F := []), fs_next := Suc (fs_next F)\<rparr>))"

definition fs_rename :: "string \<Rightarrow> string \<Rightarrow> fs \<Rightarrow> fs" where
  "fs_rename a b F = (case fs_names F a of None \<Rightarrow> F | Some i \<Rightarrow> F\<lparr>fs_names := (fs_names F)(a := None, b \<mapsto> i)\<rparr>)"

definition fs_unlink :: "string \<Rightarrow> fs \<Rightarrow> fs" where
  "fs_unlink a F = F\<lparr>fs_names := (fs_names F)(a := None)\<rparr>"

definition fs_append :: "nat \<Rightarrow> string \<Rightarrow> fs \<Rightarrow> fs" where
  "fs_append i s F = F\<lparr>fs_data := (fs_data F)(i := fs_data F i @ s)\<rparr>"

text \<open>\<open>fopen(name, "a")\<close>: \<open>None\<close> is the null pointer.\<close>

definition OpenFile :: "string \<Rightarrow> fs \<Rightarrow> nat option \<times> fs" where
  "OpenFile name F = (let (failed, F) = fs_call F in if failed then (None, F) else let (i, F) = fs_create name F in (Some i, F))"

definition CheckFileSize :: "nat option \<Rightarrow> int \<Rightarrow> fs \<Rightarrow> int \<times> fs" where
  "CheckFileSize fpFile iFileSize F =
     (case fpFile of
        None \<Rightarrow> (-1, F)
      | Some i \<Rightarrow>
          let (failed, F) = fs_call F
          in if failed then (0, F)
             else let (failed, F) = fs_call F
                  in if failed then (0, F) else if int (length (fs_data F i)) > iFileSize then (1, F) else (0, F))"

section \<open>Setting a file aside\<close>

definition LOG_DEFAULT_MAX_FILE_NUM :: int where "LOG_DEFAULT_MAX_FILE_NUM = 16"

definition pad :: "nat \<Rightarrow> nat \<Rightarrow> string" where
  "pad k n = replicate (k - length (dec_nat n)) (CHR ''0'') @ dec_nat n"

text \<open>\<open>snprintf(buf, 1024, "%s.%02d", name, i)\<close>\<close>

definition backup :: "string \<Rightarrow> nat \<Rightarrow> string" where
  "backup name i = take 1023 (name @ ''.'' @ pad 2 i)"

text \<open>The first loop: \<open>n\<close> numbers from \<open>i\<close> on are left; the result is the last number with a file.\<close>

fun count_backups :: "fs \<Rightarrow> string \<Rightarrow> nat \<Rightarrow> nat \<Rightarrow> nat" where
  "count_backups F name 0 i = i - 1"
| "count_backups F name (Suc n) i = (if fs_names F (backup name i) \<noteq> None then count_backups F name n (Suc i) else i - 1)"

fun shift_backups :: "fs \<Rightarrow> string \<Rightarrow> nat \<Rightarrow> fs" where
  "shift_backups F name 0 = F"
| "shift_backups F name (Suc i) = shift_backups (fs_rename (backup name (Suc i)) (backup name (Suc (Suc i))) F) name i"

text \<open>The lock is taken on the file itself, which is created by this when it is not there.\<close>

definition RenameFile :: "string \<Rightarrow> int \<Rightarrow> fs \<Rightarrow> int \<times> fs" where
  "RenameFile pszFileName iMaxFileNum F =
     (let (failed, F) = fs_call F
      in if failed then (-1, F)
         else let F = snd (fs_create pszFileName F); (failed, F) = fs_call F
              in if failed then (-2, F)
                 else let n = nat (if iMaxFileNum \<le> 0 then LOG_DEFAULT_MAX_FILE_NUM else iMaxFileNum);
                          cur = count_backups F pszFileName (n - 1) 1;
                          F = (if cur = n - 1 then fs_unlink (backup pszFileName cur) F else F);
                          F = shift_backups F pszFileName (if cur = n - 1 then cur - 1 else cur);
                          F = fs_rename pszFileName (backup pszFileName 1) F
                      in (0, snd (fs_call F)))"

section \<open>The file of a record\<close>

definition LOG_INFO :: int where "LOG_INFO = 1"
definition LOG_ERR :: int where "LOG_ERR = 2"
definition LOG_WARN :: int where "LOG_WARN = 3"
definition LOG_DEBUG :: int where "LOG_DEBUG = 4"
definition LOG_TRACE :: int where "LOG_TRACE = 5"
definition LOG_OUTPUT_TYPE_SPEC_LOGID :: int where "LOG_OUTPUT_TYPE_SPEC_LOGID = 3"
definition LOG_OUTPUT_TYPE_SPEC_USERID :: int where "LOG_OUTPUT_TYPE_SPEC_USERID = 4"

lemmas log_levels = LOG_INFO_def LOG_ERR_def LOG_WARN_def LOG_DEBUG_def LOG_TRACE_def

record LogHeader =
  uiLogTimeSec :: u32
  uiLogTimeUSec :: u32
  iLogLevel :: int
  iLogID :: int
  iProcID :: int
  szModuleName :: string
  ullUserID :: u64
  szLogContent :: string

record LogOutputConf =
  iOutputLogLevel :: int
  iOutputLogType :: int
  szOutputPathDir :: string
  iMaxFileSize :: int
  iFlushFlag :: int
  iMaxFileNum :: int

text \<open>The file of one level, the hour it is for and the time of the last check of its size.\<close>

record level_file =
  lf_File :: "nat option"
  lf_LogTime :: int
  lf_CheckTime :: int

record LogFilePInfo =
  lp_Info :: level_file
  lp_Error :: level_file
  lp_Warn :: level_file
  lp_Debug :: level_file
  lp_Trace :: level_file

text \<open>\<open>localtime\<close> is a parameter.\<close>

record tm =
  tm_year :: nat
  tm_mon :: nat
  tm_mday :: nat
  tm_hour :: nat
  tm_min :: nat
  tm_sec :: nat

definition dec_int :: "int \<Rightarrow> string" where
  "dec_int i = (if i < 0 then CHR ''-'' # dec_nat (nat (- i)) else dec_nat (nat i))"

definition GetLogHeadTime :: "(int \<Rightarrow> tm) \<Rightarrow> int \<Rightarrow> int \<Rightarrow> string" where
  "GetLogHeadTime localtime tSec tUsec =
     (let t = localtime tSec
      in take 63 (pad 4 (1900 + tm_year t) @ ''-'' @ pad 2 (tm_mon t + 1) @ ''-'' @ pad 2 (tm_mday t) @ '' '' @ pad 2 (tm_hour t)
           @ '':'' @ pad 2 (tm_min t) @ '':'' @ pad 2 (tm_sec t) @ ''.'' @ pad 6 (nat tUsec)))"

definition GetFileNameTime :: "(int \<Rightarrow> tm) \<Rightarrow> int \<Rightarrow> string" where
  "GetFileNameTime localtime tSec =
     (let t = localtime tSec in take 63 (pad 4 (1900 + tm_year t) @ pad 2 (tm_mon t + 1) @ pad 2 (tm_mday t) @ pad 2 (tm_hour t)))"

definition log_path :: "LogOutputConf \<Rightarrow> LogHeader \<Rightarrow> LogOutputConf \<Rightarrow> string" where
  "log_path glob h conf = take 1023
     (if iOutputLogType conf = LOG_OUTPUT_TYPE_SPEC_LOGID
      then if szOutputPathDir conf = [] then szOutputPathDir glob @ ''/'' @ dec_int (iLogID h) else szOutputPathDir conf
      else if iOutputLogType conf = LOG_OUTPUT_TYPE_SPEC_USERID
      then if szOutputPathDir conf = [] then szOutputPathDir glob @ ''/'' @ dec_nat (unat (ullUserID h)) else szOutputPathDir conf
      else szOutputPathDir conf @ ''/'' @ szModuleName h)"

definition log_file_name :: "string \<Rightarrow> string \<Rightarrow> int \<Rightarrow> string" where
  "log_file_name path dir iCurLogTime = take 1023 (path @ ''/'' @ dir @ ''/'' @ dec_int iCurLogTime @ ''.log'')"

text \<open>
  The five cases of the switch differ only in the members they use. A file that is too large is closed and opened again first, since another
  process may have renamed it.
\<close>

definition choose_file :: "LogOutputConf \<Rightarrow> int \<Rightarrow> string \<Rightarrow> int \<Rightarrow> int \<Rightarrow> level_file \<Rightarrow> fs \<Rightarrow> bool \<times> level_file \<times> fs" where
  "choose_file glob m_iSizeCheckTimeVal name iCurLogTime tTimeNow l F =
     (if iCurLogTime \<noteq> lf_LogTime l
      then let (f, F) = OpenFile name F in (True, \<lparr>lf_File = f, lf_LogTime = iCurLogTime, lf_CheckTime = tTimeNow\<rparr>, F)
      else if tTimeNow - lf_CheckTime l < 0 \<or> tTimeNow - lf_CheckTime l > m_iSizeCheckTimeVal
      then let (r, F) = CheckFileSize (lf_File l) (iMaxFileSize glob) F
           in if r \<noteq> 0
              then let (f, F) = OpenFile name F; (r, F) = CheckFileSize f (iMaxFileSize glob) F
                   in if r \<noteq> 0
                      then let F = snd (RenameFile name (iMaxFileNum glob) F); (f, F) = OpenFile name F
                           in (True, \<lparr>lf_File = f, lf_LogTime = iCurLogTime, lf_CheckTime = tTimeNow\<rparr>, F)
                      else (True, \<lparr>lf_File = f, lf_LogTime = iCurLogTime, lf_CheckTime = tTimeNow\<rparr>, F)
              else (False, l\<lparr>lf_CheckTime := tTimeNow\<rparr>, F)
      else (False, l, F))"

definition log_line :: "(int \<Rightarrow> tm) \<Rightarrow> LogHeader \<Rightarrow> string" where
  "log_line localtime h =
     take 255 (GetLogHeadTime localtime (uint (uiLogTimeSec h)) (uint (uiLogTimeUSec h)) @ ''|'' @ szModuleName h @ ''('' @ dec_int (iProcID h)
       @ '')|'' @ dec_int (iLogID h) @ ''|'' @ dec_nat (unat (ullUserID h)) @ ''||||'') @ szLogContent h @ [CHR 0x0A]"

text \<open>The members of a level and the directory of its files; \<open>None\<close> for a level that is unknown.\<close>

definition level_of :: "int \<Rightarrow> (string \<times> (LogFilePInfo \<Rightarrow> level_file) \<times> (level_file \<Rightarrow> LogFilePInfo \<Rightarrow> LogFilePInfo)) option" where
  "level_of lv =
     (if lv = LOG_INFO then Some (''info'', lp_Info, \<lambda>x p. p\<lparr>lp_Info := x\<rparr>)
      else if lv = LOG_ERR then Some (''error'', lp_Error, \<lambda>x p. p\<lparr>lp_Error := x\<rparr>)
      else if lv = LOG_WARN then Some (''warn'', lp_Warn, \<lambda>x p. p\<lparr>lp_Warn := x\<rparr>)
      else if lv = LOG_DEBUG then Some (''debug'', lp_Debug, \<lambda>x p. p\<lparr>lp_Debug := x\<rparr>)
      else if lv = LOG_TRACE then Some (''trace'', lp_Trace, \<lambda>x p. p\<lparr>lp_Trace := x\<rparr>)
      else None)"

text \<open>\<open>tTimeNow\<close> is the result of \<open>time\<close>. A failing call at the end is an error mark on the file.\<close>

definition WriteLogToFile ::
  "(int \<Rightarrow> tm) \<Rightarrow> LogOutputConf \<Rightarrow> int \<Rightarrow> int \<Rightarrow> LogHeader \<Rightarrow> LogFilePInfo \<Rightarrow> LogOutputConf \<Rightarrow> fs \<Rightarrow> (int \<times> LogFilePInfo \<times> fs) option" where
  "WriteLogToFile localtime glob m_iSizeCheckTimeVal tTimeNow h p conf F = do {
     iCurLogTime \<leftarrow> atoi (GetFileNameTime localtime (uint (uiLogTimeSec h)));
     let path = log_path glob h conf;
     case level_of (iLogLevel h) of
       None \<Rightarrow> Some (0, p, F)
     | Some (dir, sel, upd) \<Rightarrow>
         let (chg, l, F) = choose_file glob m_iSizeCheckTimeVal (log_file_name path dir iCurLogTime) iCurLogTime tTimeNow (sel p) F;
             F = (case lf_File l of
                    None \<Rightarrow> F
                  | Some i \<Rightarrow> let (failed, F) = fs_call F in if failed then F else fs_append i (log_line localtime h) F)
         in Some (if chg then 1 else 0, upd l p, F)
   }"

section \<open>Names of files\<close>

lemma pad_value: "foldl (\<lambda>n c. n * 10 + digit_val c) 0 (pad k n) = int n"
proof -
  have "foldl (\<lambda>n c. n * 10 + digit_val c) 0 (replicate j (CHR ''0'')) = 0" for j
    by (induction j) (simp_all add: digit_val_def)
  then show ?thesis by (simp add: pad_def dec_value)
qed

lemma backup_eq: "length name + length (pad 2 i) < 1023 \<Longrightarrow> backup name i = name @ ''.'' @ pad 2 i"
  by (simp add: backup_def)

text \<open>The names with numbers that fit are different.\<close>

definition fits :: "string \<Rightarrow> nat \<Rightarrow> bool" where
  "fits name n \<longleftrightarrow> (\<forall>i\<le>n. length name + length (pad 2 i) < 1023)"

lemma fitsD: "fits name n \<Longrightarrow> i \<le> n \<Longrightarrow> backup name i = name @ ''.'' @ pad 2 i"
  by (rule backup_eq) (simp add: fits_def)

lemma backup_inj: "fits name n \<Longrightarrow> i \<le> n \<Longrightarrow> j \<le> n \<Longrightarrow> backup name i = backup name j \<longleftrightarrow> i = j"
proof -
  assume a: "fits name n" "i \<le> n" "j \<le> n"
  have "pad 2 i = pad 2 j \<longleftrightarrow> i = j" by (metis of_nat_eq_iff pad_value)
  then show ?thesis unfolding fitsD [OF a(1,2)] fitsD [OF a(1,3)] by simp
qed

lemma backup_name: "fits name n \<Longrightarrow> i \<le> n \<Longrightarrow> backup name i \<noteq> name"
  using fitsD [of name n i] by auto

lemma fits_number: "length name < 1000 \<Longrightarrow> n < 10 ^ 9 \<Longrightarrow> fits name n"
proof -
  assume a: "length name < 1000" "n < 10 ^ 9"
  have "length (pad 2 i) \<le> 11" if "i \<le> n" for i
  proof -
    have "i < 10 ^ Suc 8" using that a(2) by simp
    from dec_nat_length [OF this] show ?thesis by (simp add: pad_def)
  qed
  with a(1) show ?thesis by (fastforce simp: fits_def)
qed

section \<open>Renaming\<close>

lemma count_backups_spec:
  "0 < i \<Longrightarrow> (\<forall>j. i \<le> j \<and> j \<le> count_backups F name n i \<longrightarrow> fs_names F (backup name j) \<noteq> None)
    \<and> i - 1 \<le> count_backups F name n i \<and> count_backups F name n i < i + n
    \<and> (count_backups F name n i < i + n - 1 \<longrightarrow> fs_names F (backup name (Suc (count_backups F name n i))) = None)"
proof (induction n arbitrary: i)
  case (Suc n)
  show ?case
  proof (cases "fs_names F (backup name i) = None")
    case True
    with Suc.prems show ?thesis by auto
  next
    case False
    note IH = Suc.IH [of "Suc i", simplified]
    have "fs_names F (backup name j) \<noteq> None" if "i \<le> j" "j \<le> count_backups F name n (Suc i)" for j
      using that False IH by (cases "j = i") auto
    with False IH show ?thesis by auto
  qed
qed auto

lemma count_backups_cong: "fs_names F = fs_names F' \<Longrightarrow> count_backups F name n i = count_backups F' name n i"
  by (induction n arbitrary: i) simp_all

lemma shift_backups_data [simp]: "fs_data (shift_backups F name k) = fs_data F" "fs_next (shift_backups F name k) = fs_next F"
  "fs_fails (shift_backups F name k) = fs_fails F" "fs_tick (shift_backups F name k) = fs_tick F"
  by (induction F name k rule: shift_backups.induct) (simp_all add: fs_rename_def split: option.splits)

lemma shift_backups_names:
  assumes "fits name n" "Suc k \<le> n" "\<forall>j. 0 < j \<and> j \<le> k \<longrightarrow> fs_names F (backup name j) \<noteq> None"
  shows "(\<forall>j. 0 < j \<and> j \<le> k \<longrightarrow> fs_names (shift_backups F name k) (backup name (Suc j)) = fs_names F (backup name j))
    \<and> (0 < k \<longrightarrow> fs_names (shift_backups F name k) (backup name 1) = None)
    \<and> (\<forall>m. (\<forall>j. 0 < j \<and> j \<le> Suc k \<longrightarrow> m \<noteq> backup name j) \<longrightarrow> fs_names (shift_backups F name k) m = fs_names F m)"
  using assms(2,3)
proof (induction k arbitrary: F)
  case (Suc k)
  let ?b = "backup name" and ?F = "fs_rename (backup name (Suc k)) (backup name (Suc (Suc k))) F"
  have inj: "?b i = ?b j \<longleftrightarrow> i = j" if "i \<le> Suc (Suc k)" "j \<le> Suc (Suc k)" for i j
    using backup_inj [OF assms(1), of i j] that Suc.prems(1) by simp
  obtain x where x: "fs_names F (?b (Suc k)) = Some x" using Suc.prems(2) by auto
  have F: "fs_names ?F = (fs_names F)(?b (Suc k) := None, ?b (Suc (Suc k)) \<mapsto> x)" using x by (simp add: fs_rename_def)
  have "\<forall>j. 0 < j \<and> j \<le> k \<longrightarrow> fs_names ?F (?b j) \<noteq> None" using Suc.prems(2) inj by (auto simp: F)
  note IH = Suc.IH [OF _ this]
  let ?G = "shift_backups ?F name k"
  have G: "fs_names ?G (?b (Suc j)) = fs_names ?F (?b j)" if "0 < j" "j \<le> k" for j using IH Suc.prems(1) that by simp
  have H: "fs_names ?G m = fs_names ?F m" if "\<forall>j. 0 < j \<and> j \<le> Suc k \<longrightarrow> m \<noteq> ?b j" for m using IH Suc.prems(1) that by simp
  have 1: "fs_names ?G (?b (Suc j)) = fs_names F (?b j)" if "0 < j" "j \<le> Suc k" for j
  proof (cases "j = Suc k")
    case True
    then show ?thesis using H [of "?b (Suc (Suc k))"] inj x by (auto simp: F)
  next
    case False
    then show ?thesis using G [of j] that inj by (auto simp: F)
  qed
  have 2: "fs_names ?G (?b 1) = None"
  proof (cases "k = 0")
    case True
    then show ?thesis using F inj [of 1 2] by (simp add: numeral_2_eq_2)
  next
    case False
    then show ?thesis using IH Suc.prems(1) by simp
  qed
  have 3: "fs_names ?G m = fs_names F m" if "\<forall>j. 0 < j \<and> j \<le> Suc (Suc k) \<longrightarrow> m \<noteq> ?b j" for m
    using H [of m] that by (auto simp: F)
  show ?case using 1 2 3 by simp
qed auto

text \<open>The row after a call that gets the lock; \<open>n\<close> is the number of files in a row.\<close>

definition row_moved :: "string \<Rightarrow> nat \<Rightarrow> fs \<Rightarrow> fs" where
  "row_moved name n F =
     (let k = count_backups F name (n - 1) 1
      in fs_rename name (backup name 1)
           (shift_backups (if k = n - 1 then fs_unlink (backup name k) F else F) name (if k = n - 1 then k - 1 else k)))"

definition row_size :: "int \<Rightarrow> nat" where
  "row_size mx = nat (if mx \<le> 0 then LOG_DEFAULT_MAX_FILE_NUM else mx)"

lemma RenameFile_eq:
  assumes "\<not> fs_fails F (fs_tick F)" "\<not> fs_fails F (Suc (fs_tick F))"
  shows "RenameFile name mx F = (0, snd (fs_call (row_moved name (row_size mx) ((snd (fs_create name F))\<lparr>fs_tick := fs_tick F + 2\<rparr>))))"
proof -
  have "snd (fs_create name (F\<lparr>fs_tick := Suc (fs_tick F)\<rparr>)) = (snd (fs_create name F))\<lparr>fs_tick := Suc (fs_tick F)\<rparr>"
    "fs_tick (snd (fs_create name F)) = fs_tick F" "fs_fails (snd (fs_create name F)) = fs_fails F"
    by (cases "fs_names F name"; simp add: fs_create_def)+
  with assms show ?thesis by (simp add: RenameFile_def fs_call_def row_moved_def row_size_def Let_def)
qed

text \<open>
  C20: Setting a file aside moves every older file of its row on by one number and gives the file the first number; no file is lost but the
  last one of a full row, whose place is needed. What the files hold does not change, and no other name does.
\<close>
theorem RenameFile_rotates:
  fixes F :: fs and name :: string and n :: nat
  defines "F0 \<equiv> snd (fs_create name F)"
  defines "k \<equiv> count_backups F0 name (n - 1) 1"
  assumes "fits name n" "2 \<le> n" "n = row_size mx"
    "\<not> fs_fails F (fs_tick F)" "\<not> fs_fails F (Suc (fs_tick F))"
  shows "\<exists>F'. RenameFile name mx F = (0, F') \<and> fs_data F' = fs_data F0
    \<and> fs_names F' name = None \<and> fs_names F' (backup name 1) = fs_names F0 name
    \<and> (\<forall>j. 0 < j \<and> j \<le> min k (n - 2) \<longrightarrow> fs_names F' (backup name (Suc j)) = fs_names F0 (backup name j))
    \<and> (\<forall>m. m \<noteq> name \<and> (\<forall>j. 0 < j \<and> j \<le> Suc (min k (n - 2)) \<longrightarrow> m \<noteq> backup name j) \<longrightarrow> fs_names F' m = fs_names F0 m)
    \<and> (\<forall>j. 0 < j \<and> j \<le> k \<longrightarrow> fs_names F0 (backup name j) \<noteq> None)
    \<and> k \<le> n - 1 \<and> (k < n - 1 \<longrightarrow> fs_names F0 (backup name (Suc k)) = None)"
proof -
  let ?b = "backup name" and ?k = "if k = n - 1 then k - 1 else k"
  have k: "\<forall>j. 0 < j \<and> j \<le> k \<longrightarrow> fs_names F0 (?b j) \<noteq> None" "k \<le> n - 1" "k < n - 1 \<longrightarrow> fs_names F0 (?b (Suc k)) = None"
    using count_backups_spec [of 1 F0 name "n - 1"] assms(4) by (auto simp: k_def Suc_le_eq)
  have km: "?k = min k (n - 2)" "Suc ?k \<le> n" using k(2) assms(4) by auto
  have "fs_names F0 name \<noteq> None" by (cases "fs_names F name") (simp_all add: F0_def fs_create_def)
  then obtain b where b: "fs_names F0 name = Some b" by blast
  define F1 where "F1 = F0\<lparr>fs_tick := fs_tick F0 + 2\<rparr>"
  define F2 where "F2 = (if k = n - 1 then fs_unlink (?b k) F1 else F1)"
  have ne: "?b j \<noteq> name" "?b i = ?b j \<longleftrightarrow> i = j" if "i \<le> n" "j \<le> n" for i j
    using backup_name [OF assms(3)] backup_inj [OF assms(3)] that by auto
  have F2: "fs_data F2 = fs_data F0" "fs_names F2 m = (if k = n - 1 \<and> m = ?b k then None else fs_names F0 m)" for m
    by (auto simp: F2_def F1_def fs_unlink_def)
  have have_k: "\<forall>j. 0 < j \<and> j \<le> ?k \<longrightarrow> fs_names F2 (?b j) \<noteq> None"
    using k(1,2) ne assms(4) by (auto simp: F2(2))
  note S = shift_backups_names [OF assms(3) km(2) this]
  define G where "G = shift_backups F2 name ?k"
  define F' where "F' = fs_rename name (?b 1) G"
  have S1: "fs_names G (?b (Suc j)) = fs_names F2 (?b j)" if "0 < j" "j \<le> ?k" for j using S that unfolding G_def by blast
  have S2: "fs_names G m = fs_names F2 m" if "\<forall>j. 0 < j \<and> j \<le> Suc ?k \<longrightarrow> m \<noteq> ?b j" for m using S that unfolding G_def by blast
  have "\<forall>j. 0 < j \<and> j \<le> Suc ?k \<longrightarrow> name \<noteq> ?b j" using ne(1) km(2) by (metis le_trans order_refl)
  then have G: "fs_names G name = Some b" using S2 [of name] ne(1) [of k k] k(2) b by (auto simp: F2(2))
  have F': "fs_names F' = (fs_names G)(name := None, ?b 1 \<mapsto> b)" "fs_data F' = fs_data F0" using G F2(1) by (simp_all add: F'_def fs_rename_def G_def)
  have R: "RenameFile name mx F = (0, snd (fs_call F'))"
  proof -
    have "count_backups F1 name (n - 1) 1 = k" unfolding k_def F1_def by (rule count_backups_cong) simp
    moreover have "fs_tick F0 = fs_tick F" by (cases "fs_names F name") (simp_all add: F0_def fs_create_def)
    ultimately show ?thesis
      using RenameFile_eq [OF assms(6,7), of name mx] by (simp add: row_moved_def F'_def G_def F2_def F1_def F0_def assms(5) Let_def)
  qed
  have 1: "fs_names F' (?b (Suc j)) = fs_names F0 (?b j)" if "0 < j" "j \<le> min k (n - 2)" for j
  proof -
    have "Suc j \<le> n" "j \<le> ?k" "\<not> (k = n - 1 \<and> j = k)" using that k(2) assms(4) by auto
    then show ?thesis using S1 [of j] that ne(1) [of "Suc j" "Suc j"] ne(2) [of "Suc j" 1] ne(2) [of j k] k(2)
      unfolding F'(1) by (auto simp: F2(2))
  qed
  have 2: "fs_names F' m = fs_names F0 m" if "m \<noteq> name" "\<forall>j. 0 < j \<and> j \<le> Suc (min k (n - 2)) \<longrightarrow> m \<noteq> ?b j" for m
  proof -
    have "k = n - 1 \<Longrightarrow> m \<noteq> ?b k" using that(2) assms(4) by auto
    then show ?thesis using S2 [of m] that unfolding km(1) [symmetric] F'(1) by (auto simp: F2(2))
  qed
  show ?thesis using R F' 1 2 k b ne(1) [of 1 1] assms(4) by (intro exI [of _ "snd (fs_call F')"]) (simp add: fs_call_def)
qed

section \<open>Writing a record\<close>

text \<open>Numbers in use are below the next one to be given out, so a new file is a new number.\<close>

definition fs_ok :: "fs \<Rightarrow> bool" where
  "fs_ok F \<longleftrightarrow> (\<forall>m i. fs_names F m = Some i \<longrightarrow> i < fs_next F)"

lemma fs_ok_call [simp]: "fs_ok (F\<lparr>fs_tick := n\<rparr>) = fs_ok F"
  by (simp add: fs_ok_def)

lemma fs_ok_rename [simp]: "fs_ok F \<Longrightarrow> fs_ok (fs_rename a b F)"
  by (auto simp: fs_ok_def fs_rename_def split: option.splits)

lemma fs_ok_shift [simp]: "fs_ok F \<Longrightarrow> fs_ok (shift_backups F name k)"
  by (induction F name k rule: shift_backups.induct) simp_all

lemma row_moved_ok:
  assumes "fs_ok F" "backup name 1 \<noteq> name"
  shows "fs_ok (row_moved name n F) \<and> fs_names (row_moved name n F) name = None \<and> fs_data (row_moved name n F) = fs_data F
    \<and> fs_next (row_moved name n F) = fs_next F \<and> fs_fails (row_moved name n F) = fs_fails F"
proof -
  have u: "fs_ok (fs_unlink m F)" for m using assms(1) by (auto simp: fs_ok_def fs_unlink_def)
  have r: "fs_names (fs_rename name (backup name (Suc 0)) G) name = None" "fs_data (fs_rename a b G) = fs_data G" "fs_next (fs_rename a b G) = fs_next G"
    "fs_fails (fs_rename a b G) = fs_fails G" for G a b using assms(2) by (auto simp: fs_rename_def split: option.splits)
  have f: "fs_data (fs_unlink m F) = fs_data F" "fs_next (fs_unlink m F) = fs_next F" "fs_fails (fs_unlink m F) = fs_fails F" for m
    by (simp_all add: fs_unlink_def)
  show ?thesis using assms(1) u unfolding row_moved_def Let_def by (simp add: r f)
qed

lemma OpenFile_ok:
  assumes "fs_ok F" "\<forall>n. \<not> fs_fails F n"
  shows "\<exists>j F'. OpenFile name F = (Some j, F') \<and> fs_names F' name = Some j \<and> fs_ok F' \<and> fs_fails F' = fs_fails F \<and> fs_next F \<le> fs_next F'
    \<and> (\<forall>k<fs_next F. fs_data F' k = fs_data F k) \<and> (if fs_names F name = None then j = fs_next F \<and> fs_data F' j = [] else fs_names F name = Some j \<and> fs_data F' j = fs_data F j)"
proof (cases "fs_names F name")
  case None
  with assms show ?thesis by (auto simp: OpenFile_def fs_call_def fs_create_def fs_ok_def less_Suc_eq)
next
  case (Some i)
  with assms show ?thesis by (auto simp: OpenFile_def fs_call_def fs_create_def)
qed

lemma CheckFileSize_ok:
  assumes "\<forall>n. \<not> fs_fails F n"
  shows "CheckFileSize (Some i) sz F = (if int (length (fs_data F i)) > sz then 1 else 0, F\<lparr>fs_tick := fs_tick F + 2\<rparr>)"
  using assms by (simp add: CheckFileSize_def fs_call_def)

text \<open>A file of the hour is open, if any: \<open>name\<close> is the name of the file for the hour \<open>t\<close>.\<close>

definition handle_ok :: "fs \<Rightarrow> string \<Rightarrow> int \<Rightarrow> level_file \<Rightarrow> bool" where
  "handle_ok F name t l \<longleftrightarrow> (lf_LogTime l = t \<longrightarrow> lf_File l \<noteq> None \<and> fs_names F name = lf_File l)"

definition check_due :: "int \<Rightarrow> int \<Rightarrow> level_file \<Rightarrow> bool" where
  "check_due tv now l \<longleftrightarrow> now - lf_CheckTime l < 0 \<or> now - lf_CheckTime l > tv"

text \<open>What \<open>choose_file\<close> gives: the file \<open>j\<close> with the name, old or new, with all older contents kept.\<close>

definition chosen :: "fs \<Rightarrow> string \<Rightarrow> int \<Rightarrow> nat \<Rightarrow> level_file \<Rightarrow> fs \<Rightarrow> bool" where
  "chosen F name t j l' F' \<longleftrightarrow> lf_File l' = Some j \<and> lf_LogTime l' = t \<and> fs_names F' name = Some j \<and> fs_ok F' \<and> (\<forall>n. \<not> fs_fails F' n)
     \<and> (\<forall>k<fs_next F. fs_data F' k = fs_data F k) \<and> (fs_next F \<le> j \<longrightarrow> fs_data F' j = [])"

lemma OpenFile_chosen:
  assumes "fs_ok F" "\<forall>n. \<not> fs_fails F n" "OpenFile name F = (f, F')"
  shows "\<exists>j. f = Some j \<and> chosen F name t j \<lparr>lf_File = f, lf_LogTime = t, lf_CheckTime = now\<rparr> F'"
proof -
  obtain j where "f = Some j" "fs_names F' name = Some j" "fs_ok F'" "fs_fails F' = fs_fails F" "\<forall>k<fs_next F. fs_data F' k = fs_data F k"
    "if fs_names F name = None then j = fs_next F \<and> fs_data F' j = [] else fs_names F name = Some j \<and> fs_data F' j = fs_data F j"
    using OpenFile_ok [OF assms(1,2), of name] assms(3) by auto
  moreover have "fs_names F name = Some j \<Longrightarrow> j < fs_next F" using assms(1) by (simp add: fs_ok_def)
  ultimately show ?thesis using assms(2) unfolding chosen_def by (cases "fs_names F name") auto
qed

lemma choose_file_ok:
  assumes "fs_ok F" "\<forall>n. \<not> fs_fails F n" "handle_ok F name t l" "backup name 1 \<noteq> name" "0 \<le> iMaxFileSize glob"
    "choose_file glob tv name t now l F = (c, l', F')"
  shows "\<exists>j. chosen F name t j l' F' \<and> (lf_LogTime l = t \<and> check_due tv now l \<longrightarrow> int (length (fs_data F' j)) \<le> iMaxFileSize glob)"
proof (cases "lf_LogTime l = t")
  case False
  then have "OpenFile name F = (lf_File l', F')" "l' = \<lparr>lf_File = lf_File l', lf_LogTime = t, lf_CheckTime = now\<rparr>"
    using assms(6) by (auto simp: choose_file_def split: prod.splits)
  with OpenFile_chosen [OF assms(1,2)] False show ?thesis by metis
next
  case True
  obtain i where i: "lf_File l = Some i" "fs_names F name = Some i" "i < fs_next F"
    using assms(1,3) True by (auto simp: handle_ok_def fs_ok_def)
  show ?thesis
  proof (cases "check_due tv now l \<and> int (length (fs_data F i)) > iMaxFileSize glob")
    case False
    then have "l' = (if check_due tv now l then l\<lparr>lf_CheckTime := now\<rparr> else l)" "F' = (if check_due tv now l then F\<lparr>fs_tick := fs_tick F + 2\<rparr> else F)"
      using assms(6) True i CheckFileSize_ok [OF assms(2)] by (auto simp: choose_file_def check_due_def split: if_splits)
    with True i assms(1,2) False show ?thesis by (intro exI [of _ i]) (auto simp: chosen_def)
  next
    case big: True
    define F1 where "F1 = F\<lparr>fs_tick := Suc (Suc (fs_tick F))\<rparr>"
    have F1: "fs_ok F1" "\<forall>n. \<not> fs_fails F1 n" "OpenFile name F1 = (Some i, F1\<lparr>fs_tick := fs_tick F1 + 1\<rparr>)"
      using assms(1,2) i(2) by (simp_all add: F1_def OpenFile_def fs_call_def fs_create_def)
    define F2 where "F2 = F1\<lparr>fs_tick := Suc (Suc (Suc (fs_tick F1)))\<rparr>"
    define F3 where "F3 = snd (RenameFile name (iMaxFileNum glob) F2)"
    have F3: "fs_ok F3" "fs_names F3 name = None" "fs_data F3 = fs_data F" "fs_next F3 = fs_next F" "\<forall>n. \<not> fs_fails F3 n"
      using row_moved_ok [of "F2\<lparr>fs_tick := fs_tick F2 + 2\<rparr>" name "row_size (iMaxFileNum glob)", OF _ assms(4)] assms(1,2)
      by (simp_all add: F3_def RenameFile_eq fs_create_def i(2) fs_call_def F2_def F1_def)
    have "OpenFile name F3 = (lf_File l', F')" "lf_LogTime l' = t"
      using assms(6) True big i CheckFileSize_ok [OF assms(2)] CheckFileSize_ok [of "F1\<lparr>fs_tick := fs_tick F1 + 1\<rparr>"] F1(2,3)
      by (auto simp: choose_file_def check_due_def F1_def F2_def F3_def split: prod.splits)
    moreover obtain j where "lf_File l' = Some j" "fs_names F' name = Some j" "fs_ok F'" "fs_fails F' = fs_fails F3"
      "\<forall>k<fs_next F3. fs_data F' k = fs_data F3 k" "j = fs_next F3" "fs_data F' j = []"
      using OpenFile_ok [OF F3(1,5), of name] calculation(1) F3(2) by auto
    ultimately show ?thesis using F3(3-5) assms(5) by (intro exI [of _ j]) (simp add: chosen_def)
  qed
qed

lemma level_of_members:
  assumes "level_of lv = Some (dir, sel, upd)"
  shows "sel (upd l p) = l"
  using assms by (auto simp: level_of_def split: if_splits)

text \<open>
  When no call fails, a record is appended as one line to the file of its level and hour and to no other: the file that has the
  name at the end, which is the open one, one that is opened now, or a new one after the old one was set aside for its size. What other
  files hold does not change. At a due check of the size the line never goes to a file that is too large.
\<close>
lemma log_line_stored:
  assumes "WriteLogToFile lt glob tv now h p conf F = Some (r, p', F')"
    and "level_of (iLogLevel h) = Some (dir, sel, upd)" "atoi (GetFileNameTime lt (uint (uiLogTimeSec h))) = Some t"
    and "name = log_file_name (log_path glob h conf) dir t" "backup name 1 \<noteq> name" "0 \<le> iMaxFileSize glob"
    and "fs_ok F" "\<forall>n. \<not> fs_fails F n" "handle_ok F name t (sel p)"
  shows "\<exists>j before. lf_File (sel p') = Some j \<and> fs_names F' name = Some j \<and> handle_ok F' name t (sel p') \<and> fs_ok F' \<and> (\<forall>n. \<not> fs_fails F' n)
    \<and> fs_data F' j = before @ log_line lt h \<and> before = (if j < fs_next F then fs_data F j else [])
    \<and> (\<forall>k<fs_next F. k \<noteq> j \<longrightarrow> fs_data F' k = fs_data F k)
    \<and> (lf_LogTime (sel p) = t \<and> check_due tv now (sel p) \<longrightarrow> int (length before) \<le> iMaxFileSize glob)"
proof -
  obtain c l G where C: "choose_file glob tv name t now (sel p) F = (c, l, G)" by (metis prod_cases3)
  obtain j where j: "chosen F name t j l G" "lf_LogTime (sel p) = t \<and> check_due tv now (sel p) \<longrightarrow> int (length (fs_data G j)) \<le> iMaxFileSize glob"
    using choose_file_ok [OF assms(7,8,9,5,6) C] by blast
  then have l: "lf_File l = Some j" "\<not> fs_fails G (fs_tick G)" by (auto simp: chosen_def)
  have p': "p' = upd l p" "F' = fs_append j (log_line lt h) (G\<lparr>fs_tick := Suc (fs_tick G)\<rparr>)"
    using assms(1) C l by (simp_all add: WriteLogToFile_def assms(2,3) assms(4) [symmetric] fs_call_def Let_def)
  have s: "sel p' = l" using level_of_members [OF assms(2)] p'(1) by simp
  show ?thesis using j unfolding s by (intro exI [of _ j] exI [of _ "fs_data G j"])
    (auto simp: p'(2) chosen_def handle_ok_def fs_append_def fs_ok_def)
qed

section \<open>An example\<close>

text \<open>A full row of three files, and a file system without files.\<close>

lemma digit_texts:
  "char_of (48::nat) = CHR ''0''" "char_of (49::nat) = CHR ''1''" "char_of (50::nat) = CHR ''2''" "char_of (51::nat) = CHR ''3''" "char_of (52::nat) = CHR ''4''"
  "char_of (53::nat) = CHR ''5''" "char_of (54::nat) = CHR ''6''" "char_of (55::nat) = CHR ''7''" "char_of (56::nat) = CHR ''8''" "char_of (57::nat) = CHR ''9''"
  by (simp_all add: char_of_def bit_Suc_0_iff)

definition row_example :: fs where
  "row_example = \<lparr>fs_names = [''a'' \<mapsto> 0, ''a.01'' \<mapsto> 1, ''a.02'' \<mapsto> 2, ''b'' \<mapsto> 3], fs_data = (\<lambda>_. []), fs_next = 4, fs_tick = 0, fs_fails = (\<lambda>_. False)\<rparr>"

theorem RenameFile_rotates_witness:
  "\<exists>F'. RenameFile ''a'' 3 row_example = (0, F') \<and> fs_names F' ''a'' = None \<and> fs_names F' ''a.01'' = Some 0 \<and> fs_names F' ''a.02'' = Some 1
     \<and> fs_names F' ''b'' = Some 3"
proof -
  have b: "backup ''a'' 1 = ''a.01''" "backup ''a'' 2 = ''a.02''" by (simp_all add: backup_def pad_def dec_nat.simps digit_texts)
  have c: "fits ''a'' 3" "(2::nat) \<le> 3" "3 = row_size 3" "\<not> fs_fails row_example (fs_tick row_example)" "\<not> fs_fails row_example (Suc (fs_tick row_example))"
    by (rule fits_number) (simp_all add: row_size_def row_example_def)
  have e: "snd (fs_create ''a'' row_example) = row_example" by (simp add: fs_create_def row_example_def)
  have k: "count_backups row_example ''a'' (3 - 1) 1 = 2" using b by (simp add: row_example_def numeral_2_eq_2)
  have m: "min 2 (3 - 2) = (1::nat)" by simp
  obtain F' where F': "RenameFile ''a'' 3 row_example = (0, F')" "fs_names F' ''a'' = None" "fs_names F' (backup ''a'' 1) = fs_names row_example ''a''"
    "\<forall>j. 0 < j \<and> j \<le> (1::nat) \<longrightarrow> fs_names F' (backup ''a'' (Suc j)) = fs_names row_example (backup ''a'' j)"
    "\<forall>m. m \<noteq> ''a'' \<and> (\<forall>j. 0 < j \<and> j \<le> Suc 1 \<longrightarrow> m \<noteq> backup ''a'' j) \<longrightarrow> fs_names F' m = fs_names row_example m"
    using RenameFile_rotates [OF c, unfolded e k m] by blast
  have "\<forall>j. 0 < j \<and> j \<le> Suc 1 \<longrightarrow> ''b'' \<noteq> backup ''a'' j" using b by (auto simp: le_Suc_eq numeral_2_eq_2)
  then have "fs_names F' ''b'' = Some 3" using F'(5) by (simp add: row_example_def)
  moreover have "fs_names F' ''a.01'' = Some 0" using F'(3) unfolding b by (simp add: row_example_def)
  moreover have "fs_names F' ''a.02'' = Some 1" using F'(4) [rule_format, of 1] b by (simp add: row_example_def numeral_2_eq_2)
  ultimately show ?thesis using F'(1,2) by blast
qed

definition conf_example :: LogOutputConf where
  "conf_example = \<lparr>iOutputLogLevel = 3, iOutputLogType = 1, szOutputPathDir = ''d'', iMaxFileSize = 100, iFlushFlag = 1, iMaxFileNum = 3\<rparr>"

definition record_example :: LogHeader where
  "record_example = \<lparr>uiLogTimeSec = 7, uiLogTimeUSec = 8, iLogLevel = 2, iLogID = 5, iProcID = 77, szModuleName = ''bus'', ullUserID = 9, szLogContent = ''hello''\<rparr>"

definition files_example :: LogFilePInfo where
  "files_example = (let l = \<lparr>lf_File = None, lf_LogTime = 0, lf_CheckTime = 0\<rparr>
     in \<lparr>lp_Info = l, lp_Error = l, lp_Warn = l, lp_Debug = l, lp_Trace = l\<rparr>)"

definition localtime_example :: "int \<Rightarrow> tm" where
  "localtime_example _ = \<lparr>tm_year = 126, tm_mon = 0, tm_mday = 2, tm_hour = 3, tm_min = 4, tm_sec = 5\<rparr>"

lemma example_hour: "atoi (GetFileNameTime localtime_example t) = Some 2026010203"
proof -
  have "GetFileNameTime localtime_example t = ''2026010203''"
    unfolding GetFileNameTime_def localtime_example_def Let_def tm.simps by (simp add: pad_def dec_nat.simps digit_texts)
  then show ?thesis by (simp only:) code_simp
qed

lemma example_level: "level_of 2 = Some (''error'', lp_Error, \<lambda>x p. p\<lparr>lp_Error := x\<rparr>)"
  by (simp add: level_of_def log_levels)

lemma example_name:
  "log_file_name (log_path conf_example record_example conf_example) ''error'' 2026010203 = ''d/bus/error/2026010203.log''"
  by (simp add: log_file_name_def log_path_def conf_example_def record_example_def LOG_OUTPUT_TYPE_SPEC_LOGID_def LOG_OUTPUT_TYPE_SPEC_USERID_def
      dec_int_def dec_nat.simps digit_texts)

lemma example_line: "log_line localtime_example record_example = ''2026-01-02 03:04:05.000008|bus(77)|5|9||||hello'' @ [CHR 0x0A]"
proof -
  have z: "replicate 5 (CHR ''0'') = ''00000''" by (simp add: numeral_nat)
  show ?thesis
    unfolding log_line_def GetLogHeadTime_def localtime_example_def record_example_def Let_def tm.simps LogHeader.simps
    by (simp add: pad_def dec_int_def dec_nat.simps digit_texts z)
qed

lemma example_backup: "backup ''d/bus/error/2026010203.log'' 1 \<noteq> ''d/bus/error/2026010203.log''"
proof -
  have "length (backup ''d/bus/error/2026010203.log'' 1) \<noteq> length ''d/bus/error/2026010203.log''" by (simp add: backup_def)
  then show ?thesis by metis
qed

end
