(* ===== verification/LogLib.thy ===== *)
theory LogLib
  imports LogFile HashList "HOL-Library.AList"
begin

text \<open>
  The log library (\<^verbatim>\<open>mmlib/log/log.h\<close>, \<^verbatim>\<open>mmlib/log/log.cpp\<close>) as the servers use it: whether a line is to be written, and its way as
  a record into the queue to the log server, or to a file when this fails or the process keeps its own files. The configuration is in
  shared memory; the log server fills it.

  The tables of the configuration are instances of \<open>CHashList\<close> (\<^verbatim>\<open>mmlib/hash_list/hash_list.h\<close>) with names and numbers of 32 bits as
  keys. They are taken at the level of the map with a capacity which theory \<open>HashList\<close> shows such a table to be: an association list,
  with the return codes of the table.
\<close>

section \<open>Tables\<close>

definition tb_used :: "('k \<times> 'd) list \<Rightarrow> int" where
  "tb_used t = int (length t) + 1"

definition tb_insert :: "int \<Rightarrow> ('k \<times> 'd) list \<Rightarrow> 'k \<Rightarrow> 'd \<Rightarrow> int \<times> ('k \<times> 'd) list" where
  "tb_insert n t k d =
     (if map_of t k \<noteq> None then (E_HASH_LIST_NODE_EXIST, t)
      else if n - tb_used t \<le> 0 then (E_HASH_LIST_NO_SPACE, t)
      else (HL_SUCCESS, (k, d) # t))"

definition tb_update :: "('k \<times> 'd) list \<Rightarrow> 'k \<Rightarrow> 'd \<Rightarrow> int \<times> ('k \<times> 'd) list" where
  "tb_update t k d = (if map_of t k = None then (E_HASH_LIST_NO_NODE, t) else (HL_SUCCESS, AList.update k d t))"

section \<open>Records\<close>

definition LOG_MODULE_NAME_LEN :: nat where "LOG_MODULE_NAME_LEN = 16"
definition LOG_LENGTH_MAX :: nat where "LOG_LENGTH_MAX = 12288"
definition LOG_SIZE_CHECK_TIMEVAL :: int where "LOG_SIZE_CHECK_TIMEVAL = 10"
definition SELFLOG_MAX_SIZE :: int where "SELFLOG_MAX_SIZE = 1024000000"

lemmas log_consts = LOG_MODULE_NAME_LEN_def LOG_LENGTH_MAX_def LOG_SIZE_CHECK_TIMEVAL_def SELFLOG_MAX_SIZE_def

text \<open>Texts as bytes, and the C string at the start of an array.\<close>

definition text_bytes :: "string \<Rightarrow> byte list" where
  "text_bytes s = map (\<lambda>c. of_nat (of_char c)) s"

definition c_text :: "byte list \<Rightarrow> string" where
  "c_text bs = map (\<lambda>b. char_of (unat b)) (takeWhile (\<lambda>b. b \<noteq> 0) bs)"

text \<open>
  The record in memory. The structure is aligned to 8 bytes: after the name of 17 bytes there are three of padding, and the content
  starts at 48, the size of the structure. \<open>memset\<close> has cleared what is not assigned.
\<close>

definition sizeof_LogHeader :: nat where "sizeof_LogHeader = 48"

definition LogHeader_bytes :: "LogHeader \<Rightarrow> byte list" where
  "LogHeader_bytes h =
     le_bytes 4 (uiLogTimeSec h) @ le_bytes 4 (uiLogTimeUSec h) @ le_bytes 4 (word_of_int (iLogLevel h) :: u32)
     @ le_bytes 4 (word_of_int (iLogID h) :: u32) @ le_bytes 4 (word_of_int (iProcID h) :: u32)
     @ text_bytes (szModuleName h) @ replicate (20 - length (szModuleName h)) 0 @ le_bytes 8 (ullUserID h) @ text_bytes (szLogContent h)"

definition LogHeader_read :: "byte list \<Rightarrow> LogHeader" where
  "LogHeader_read buf =
     \<lparr>uiLogTimeSec = le_word (mem_read buf 0 4), uiLogTimeUSec = le_word (mem_read buf 4 4),
      iLogLevel = sint (le_word (mem_read buf 8 4) :: u32), iLogID = sint (le_word (mem_read buf 12 4) :: u32),
      iProcID = sint (le_word (mem_read buf 16 4) :: u32), szModuleName = c_text (drop 20 buf),
      ullUserID = le_word (mem_read buf 40 8), szLogContent = c_text (drop 48 buf)\<rparr>"

section \<open>The library\<close>

text \<open>\<open>CModuleName\<close>: assignment from a C string; two names are equal when their first 16 characters are.\<close>

definition CModuleName :: "string \<Rightarrow> string" where
  "CModuleName s = take LOG_MODULE_NAME_LEN s"

text \<open>\<open>Hash\<close> in 32 bits, with the arithmetic shift of a negative \<open>g\<close>; a \<open>char\<close> is signed.\<close>

definition hash_char :: "u32 \<Rightarrow> char \<Rightarrow> u32" where
  "hash_char h c =
     (let h = push_bit 4 h + scast (of_nat (of_char c) :: byte);
          g = h AND 0xF0000000;
          h = (if g \<noteq> 0 then h XOR word_of_int (drop_bit 24 (sint g)) else h)
      in h AND NOT g)"

definition CModuleName_Hash :: "string \<Rightarrow> int" where
  "CModuleName_Hash s = sint (foldl hash_char 0 s)"

record LogAllConf =
  m_pstGlobalConf :: LogOutputConf
  m_objModuleConf :: "(string \<times> LogOutputConf) list"
  m_objLogIDConf :: "(u32 \<times> LogOutputConf) list"
  m_objUserIDConf :: "(u64 \<times> LogOutputConf) list"

record CLog =
  m_iInitFlag :: int
  m_objModuleName :: string
  m_iLocalLogFlag :: int
  m_szLocalLogPath :: string
  m_iLocalLogLevel :: int
  cl_Files :: LogFilePInfo

definition no_file :: level_file where
  "no_file = \<lparr>lf_File = None, lf_LogTime = 0, lf_CheckTime = 0\<rparr>"

definition no_files :: LogFilePInfo where
  "no_files = \<lparr>lp_Info = no_file, lp_Error = no_file, lp_Warn = no_file, lp_Debug = no_file, lp_Trace = no_file\<rparr>"

definition CLog_new :: CLog where
  "CLog_new = \<lparr>m_iInitFlag = 0, m_objModuleName = [], m_iLocalLogFlag = 0, m_szLocalLogPath = [], m_iLocalLogLevel = 0, cl_Files = no_files\<rparr>"

text \<open>The level is kept in a \<open>char\<close>.\<close>

definition SetLocalFlag :: "int \<Rightarrow> int \<Rightarrow> string \<Rightarrow> CLog \<Rightarrow> int \<times> CLog" where
  "SetLocalFlag iLocalFlag LogLevel pszLogPath L =
     (if iLocalFlag = 1
      then (0, L\<lparr>m_iLocalLogFlag := 1, m_iLocalLogLevel := sint (word_of_int LogLevel :: byte), m_szLocalLogPath := take 1023 pszLogPath\<rparr>)
      else (0, L\<lparr>m_iLocalLogFlag := 0\<rparr>))"

definition GetLogLevel :: "LogAllConf \<Rightarrow> int" where
  "GetLogLevel C = iOutputLogLevel (m_pstGlobalConf C)"

text \<open>A table of special levels lets a line through when it has an entry with at least the line's level.\<close>

definition spec_level :: "('k \<times> LogOutputConf) list \<Rightarrow> 'k \<Rightarrow> int \<Rightarrow> bool" where
  "spec_level t k iPriority \<longleftrightarrow> tb_used t > 1 \<and> (case map_of t k of None \<Rightarrow> False | Some c \<Rightarrow> iPriority \<le> iOutputLogLevel c)"

definition IsShouldWrite :: "CLog \<Rightarrow> LogAllConf \<Rightarrow> int \<Rightarrow> u64 \<Rightarrow> int \<Rightarrow> bool" where
  "IsShouldWrite L C LogID UserID iPriority \<longleftrightarrow>
     (if m_iInitFlag L \<noteq> 1 then False
      else if iPriority < LOG_INFO \<or> iPriority > LOG_TRACE then False
      else if m_iLocalLogFlag L = 1 \<and> iPriority \<le> m_iLocalLogLevel L then True
      else if iPriority > iOutputLogLevel (m_pstGlobalConf C)
      then spec_level (m_objModuleConf C) (m_objModuleName L) iPriority
        \<or> spec_level (m_objLogIDConf C) (word_of_int LogID) iPriority
        \<or> spec_level (m_objUserIDConf C) UserID iPriority
      else True)"

text \<open>The line in a file of the library has the low 32 and the next 16 bits of the user's number as well.\<close>

definition lib_line :: "(int \<Rightarrow> tm) \<Rightarrow> LogHeader \<Rightarrow> string" where
  "lib_line localtime h =
     take 255 (GetLogHeadTime localtime (uint (uiLogTimeSec h)) (uint (uiLogTimeUSec h)) @ ''|'' @ szModuleName h @ ''('' @ dec_int (iProcID h)
       @ '')|'' @ dec_int (iLogID h) @ ''|'' @ dec_nat (unat (ucast (ullUserID h) :: u32)) @ ''|''
       @ dec_nat (unat (ucast (drop_bit 32 (ullUserID h)) :: u16)) @ ''|'' @ dec_nat (unat (ullUserID h)) @ ''||||'')
     @ szLogContent h @ [CHR 0x0A]"

definition lib_file :: "(int \<Rightarrow> tm) \<Rightarrow> LogHeader \<Rightarrow> CLog \<Rightarrow> LogAllConf \<Rightarrow> fs \<Rightarrow> (CLog \<times> fs) option" where
  "lib_file localtime h L C F = do {
     let glob = (if m_iLocalLogFlag L = 1 then (m_pstGlobalConf C)\<lparr>iMaxFileSize := SELFLOG_MAX_SIZE, iMaxFileNum := 10\<rparr> else m_pstGlobalConf C);
     let path = (if m_iLocalLogFlag L = 1 then m_szLocalLogPath L
                 else take 1023 (szOutputPathDir (m_pstGlobalConf C) @ ''/'' @ m_objModuleName L));
     iCurLogTime \<leftarrow> atoi (GetFileNameTime localtime (uint (uiLogTimeSec h)));
     (dir, sel, upd) \<leftarrow> level_of (iLogLevel h);
     let (chg, l, F) = choose_file glob LOG_SIZE_CHECK_TIMEVAL (log_file_name path dir iCurLogTime) iCurLogTime (uint (uiLogTimeSec h))
           (sel (cl_Files L)) F;
         F = (case lf_File l of
                None \<Rightarrow> F
              | Some i \<Rightarrow> let (failed, F) = fs_call F in if failed then F else fs_append i (lib_line localtime h) F)
     in Some (L\<lparr>cl_Files := upd l (cl_Files L)\<rparr>, F)
   }"

text \<open>
  \<open>CLog::LogInternal\<close>: the time, the process and the result of the queue's lock come from outside. The length given to the queue is the
  one \<open>snprintf\<close> returns; for a content that does not fit, bytes behind the record would be queued.
\<close>

definition log_record :: "u32 \<times> u32 \<Rightarrow> int \<Rightarrow> CLog \<Rightarrow> int \<Rightarrow> u64 \<Rightarrow> int \<Rightarrow> string \<Rightarrow> LogHeader" where
  "log_record t pid L LogID UserID iPriority content =
     \<lparr>uiLogTimeSec = fst t, uiLogTimeUSec = snd t, iLogLevel = iPriority, iLogID = LogID, iProcID = pid,
      szModuleName = take LOG_MODULE_NAME_LEN (m_objModuleName L), ullUserID = UserID, szLogContent = content\<rparr>"

definition CLog_LogInternal ::
  "(int \<Rightarrow> tm) \<Rightarrow> u32 \<times> u32 \<Rightarrow> int \<Rightarrow> int \<Rightarrow> int \<Rightarrow> u64 \<Rightarrow> int \<Rightarrow> string \<Rightarrow> LogAllConf \<Rightarrow> CLog \<Rightarrow> shmqueue \<Rightarrow> fs
    \<Rightarrow> (CLog \<times> shmqueue \<times> fs) option" where
  "CLog_LogInternal localtime t pid lockret LogID UserID iPriority content C L q F =
     (if m_iInitFlag L \<noteq> 1 then Some (L, q, F)
      else if \<not> IsShouldWrite L C LogID UserID iPriority then Some (L, q, F)
      else if length content \<ge> LOG_LENGTH_MAX then None
      else let h = log_record t pid L LogID UserID iPriority content;
               (r, q) = (if m_iLocalLogFlag L \<noteq> 1
                         then InQueue q (LogHeader_bytes h) (of_nat (length content + sizeof_LogHeader)) True lockret else (1, q))
           in if m_iLocalLogFlag L \<noteq> 1 \<and> r = SHM_SUCCESS then Some (L, q, F)
              else map_option (\<lambda>(L, F). (L, q, F)) (lib_file localtime h L C F))"

text \<open>The function \<open>LogInternal\<close> formats the line into an array of its own; \<open>text\<close> is what the format gives.\<close>

definition LogInternal ::
  "(int \<Rightarrow> tm) \<Rightarrow> u32 \<times> u32 \<Rightarrow> int \<Rightarrow> int \<Rightarrow> int \<Rightarrow> u64 \<Rightarrow> int \<Rightarrow> string \<Rightarrow> LogAllConf \<Rightarrow> CLog \<Rightarrow> shmqueue \<Rightarrow> fs
    \<Rightarrow> (CLog \<times> shmqueue \<times> fs) option" where
  "LogInternal localtime t pid lockret LogID UserID iPriority txt C L q F =
     CLog_LogInternal localtime t pid lockret LogID UserID iPriority (take (LOG_LENGTH_MAX - 1) txt) C L q F"

text \<open>The macro \<open>Log\<close>.\<close>

definition Log ::
  "(int \<Rightarrow> tm) \<Rightarrow> u32 \<times> u32 \<Rightarrow> int \<Rightarrow> int \<Rightarrow> int \<Rightarrow> u64 \<Rightarrow> int \<Rightarrow> string \<Rightarrow> LogAllConf \<Rightarrow> CLog \<Rightarrow> shmqueue \<Rightarrow> fs
    \<Rightarrow> (CLog \<times> shmqueue \<times> fs) option" where
  "Log localtime t pid lockret LogID UserID LogLevel txt C L q F =
     (if IsShouldWrite L C LogID UserID LogLevel then LogInternal localtime t pid lockret LogID UserID LogLevel txt C L q F
      else Some (L, q, F))"

section \<open>Levels\<close>

text \<open>When a line of some level is to be written, so is every more important one.\<close>

lemma IsShouldWrite_mono:
  assumes "IsShouldWrite L C i u p" "LOG_INFO \<le> p'" "p' \<le> p"
  shows "IsShouldWrite L C i u p'"
  using assms by (auto simp: IsShouldWrite_def spec_level_def split: if_splits option.splits)

section \<open>The hash value of a name\<close>

lemma hash_char_bit: "\<not> bit (hash_char h c) 31"
proof -
  let ?h = "push_bit 4 h + scast (of_nat (of_char c) :: byte) :: u32"
  let ?g = "?h AND 0xF0000000"
  have m: "bit (0xF0000000 :: u32) 31" by simp
  have s: "bit (word_of_int (drop_bit 24 (sint ?g)) :: u32) 31 = bit ?h 31"
    using m by (simp add: bit_word_of_int_iff bit_drop_bit_eq bit_sint_iff bit_and_iff)
  have "?g = 0 \<Longrightarrow> \<not> bit ?h 31" using m by (metis bit_0_eq bit_and_iff bot_apply bot_bool_def)
  then show ?thesis using m s by (auto simp: hash_char_def Let_def bit_and_iff bit_xor_iff bit_not_iff)
qed

lemma hash_nonneg: "0 \<le> CModuleName_Hash s"
proof -
  have "\<not> bit (foldl hash_char 0 s) 31" by (cases s rule: rev_cases) (simp_all add: hash_char_bit)
  then show ?thesis by (simp add: CModuleName_Hash_def sint_uint bit_uint_iff signed_take_bit_nonnegative_iff)
qed

section \<open>Records in memory\<close>

lemma char_byte: "char_of (unat (of_nat (of_char c) :: byte)) = c"
proof -
  have "(of_char c :: nat) < 256" by simp
  then show ?thesis by (simp add: unat_of_nat take_bit_nat_eq_self)
qed

lemma length_text_bytes [simp]: "length (text_bytes s) = length s"
  by (simp add: text_bytes_def)

lemma c_text_bytes:
  assumes "NUL \<notin> set s"
  shows "c_text (text_bytes s @ 0 # bs) = s"
proof -
  have "(of_nat (of_char c) :: byte) \<noteq> 0" if "c \<in> set s" for c
  proof
    assume "(of_nat (of_char c) :: byte) = 0"
    then have "c = char_of (0::nat)" using char_byte [of c] by simp
    then show False using that assms by (simp add: NUL_def char_of_def)
  qed
  then have "takeWhile (\<lambda>b. b \<noteq> 0) (text_bytes s @ 0 # bs) = text_bytes s"
    by (subst takeWhile_append2) (auto simp: text_bytes_def)
  then show ?thesis by (simp add: c_text_def text_bytes_def comp_def char_byte)
qed

text \<open>A record the library can make: the name and the numbers fit their members, the texts have no zero.\<close>

definition record_ok :: "LogHeader \<Rightarrow> bool" where
  "record_ok h \<longleftrightarrow> length (szModuleName h) \<le> 16 \<and> NUL \<notin> set (szModuleName h) \<and> NUL \<notin> set (szLogContent h)
     \<and> (\<forall>i\<in>{iLogLevel h, iLogID h, iProcID h}. - (2 ^ 31) \<le> i \<and> i < 2 ^ 31)"

lemma length_LogHeader_bytes: "length (szModuleName h) \<le> 16 \<Longrightarrow> length (LogHeader_bytes h) = 48 + length (szLogContent h)"
  by (simp add: LogHeader_bytes_def)

lemma LogHeader_parts:
  assumes "length (szModuleName h) \<le> 16" "buf = LogHeader_bytes h @ rest"
  shows "mem_read buf 0 4 = le_bytes 4 (uiLogTimeSec h)" "mem_read buf 4 4 = le_bytes 4 (uiLogTimeUSec h)"
    "mem_read buf 8 4 = le_bytes 4 (word_of_int (iLogLevel h) :: u32)" "mem_read buf 12 4 = le_bytes 4 (word_of_int (iLogID h) :: u32)"
    "mem_read buf 16 4 = le_bytes 4 (word_of_int (iProcID h) :: u32)"
    "drop 20 buf = text_bytes (szModuleName h) @ replicate (20 - length (szModuleName h)) 0 @ le_bytes 8 (ullUserID h) @ text_bytes (szLogContent h) @ rest"
    "mem_read buf 40 8 = le_bytes 8 (ullUserID h)" "drop 48 buf = text_bytes (szLogContent h) @ rest"
proof -
  show d: "drop 20 buf = text_bytes (szModuleName h) @ replicate (20 - length (szModuleName h)) 0 @ le_bytes 8 (ullUserID h) @ text_bytes (szLogContent h) @ rest"
    by (simp add: assms(2) LogHeader_bytes_def)
  have "drop 40 buf = drop 20 (drop 20 buf)" "drop 48 buf = drop 28 (drop 20 buf)" by simp_all
  then show "drop 48 buf = text_bytes (szLogContent h) @ rest" "mem_read buf 40 8 = le_bytes 8 (ullUserID h)"
    unfolding d using assms(1) by (simp_all add: mem_read_def)
qed (simp_all add: assms(2) LogHeader_bytes_def mem_read_def)

lemma LogHeader_roundtrip:
  assumes "record_ok h"
  shows "LogHeader_read (LogHeader_bytes h @ 0 # rest) = h"
proof -
  have l: "length (szModuleName h) \<le> 16" using assms by (simp add: record_ok_def)
  note p = LogHeader_parts [OF l refl, of "0 # rest"]
  have n: "20 - length (szModuleName h) = Suc (19 - length (szModuleName h))" using l by simp
  have "c_text (drop 20 (LogHeader_bytes h @ 0 # rest)) = szModuleName h"
    unfolding p(6) n using assms by (simp add: c_text_bytes record_ok_def)
  moreover have "c_text (drop 48 (LogHeader_bytes h @ 0 # rest)) = szLogContent h"
    unfolding p(8) using assms by (simp add: c_text_bytes record_ok_def)
  ultimately show ?thesis using assms
    by (simp add: LogHeader_read_def p(1-5,7) record_ok_def sint_int32)
qed

end
