(* ===== verification/LogServer.thy ===== *)
theory LogServer
  imports LogLib
begin

text \<open>
  The log server (\<^verbatim>\<open>logsvr/logsvr_proc.cpp\<close>): \<open>Run\<close> takes records from the queue and writes each of them to the files of its module and,
  when the configuration says so, to those of its log number and of its user. The state is the queue, the tables of open files and the
  file system; the configuration is read only. The lines that \<open>Run\<close> writes about itself with \<open>SELF_LOG\<close> go to a file of their own, below
  \<^verbatim>\<open>logsvr\<close> in the directory of the logs, which is not part of \<open>sv_fs\<close>: \<open>sv_self\<close> has the user and the level of each of them. Those of \<open>Init\<close>
  are not modelled.
\<close>

section \<open>The server\<close>

record LogSvr =
  m_objLogQueue :: shmqueue
  m_objLogConf :: LogAllConf
  m_szLogFromQueueBuff :: "byte list"
  m_objModuleLogFilePHash :: "(string \<times> LogFilePInfo) list"
  m_objSpecLogIDFilePHash :: "(u32 \<times> LogFilePInfo) list"
  m_objSpecUserIDFilePHash :: "(u32 \<times> LogFilePInfo) list"
  m_iMaxModuleNum :: int
  m_iSizeCheckTimeVal :: int
  sv_fs :: fs
  m_iSelfLogLevel :: int
  sv_self :: "(u64 \<times> int) list"

definition sizeof_LogFromQueueBuff :: nat where
  "sizeof_LogFromQueueBuff = sizeof_LogHeader + LOG_LENGTH_MAX + 1"

text \<open>A line of the server about itself is written when its level is not above the one that is configured.\<close>

definition SELF_LOG :: "int \<Rightarrow> u64 \<Rightarrow> int \<Rightarrow> (u64 \<times> int) list" where
  "SELF_LOG self UserID lv = (if lv \<le> self then [(UserID, lv)] else [])"

text \<open>
  What \<open>Run\<close> does with each of its three tables of open files: the entry of the key is read or made, the record is written and the entry
  stored when it has changed. \<open>flag\<close> is \<open>iLogFilePInfoUpdateFlag\<close>, which is kept from one table to the next. The first component of the
  result says whether the iteration goes on, the second has the lines the server writes about itself; \<open>self\<close> is the level of these.
\<close>

definition log_to ::
  "(int \<Rightarrow> tm) \<Rightarrow> int \<Rightarrow> LogOutputConf \<Rightarrow> int \<Rightarrow> int \<Rightarrow> int \<Rightarrow> LogHeader \<Rightarrow> LogOutputConf \<Rightarrow> 'k \<Rightarrow> bool \<Rightarrow> ('k \<times> LogFilePInfo) list \<Rightarrow> fs
    \<Rightarrow> (bool \<times> (u64 \<times> int) list \<times> bool \<times> ('k \<times> LogFilePInfo) list \<times> fs) option" where
  "log_to localtime self glob n tv now h conf key flag t F =
     (let (r, flag, info, t) =
            (case map_of t key of
               None \<Rightarrow> let (r, t) = tb_insert n t key no_files in (r, True, no_files, t)
             | Some info \<Rightarrow> (HL_SUCCESS, flag, info, t))
      in if r \<noteq> HL_SUCCESS then Some (False, SELF_LOG self (ullUserID h) LOG_ERR, flag, t, F)
         else do {
           (w, info, F) \<leftarrow> WriteLogToFile localtime glob tv now h info conf F;
           let flag = (flag \<or> w = 1);
           let lines = SELF_LOG self (ullUserID h) LOG_DEBUG;
           if flag
           then let (r, t) = tb_update t key info
                in if r = HL_SUCCESS then Some (True, lines, flag, t, F)
                   else Some (False, lines @ SELF_LOG self (ullUserID h) LOG_ERR, flag, t, F)
           else Some (True, lines, flag, t, F)
         })"

text \<open>The record of a message that \<open>Run\<close> accepts.\<close>

definition header_ok :: "LogHeader \<Rightarrow> bool" where
  "header_ok h \<longleftrightarrow> \<not> (uiLogTimeSec h = 0 \<or> iLogLevel h \<le> 0 \<or> iLogLevel h > 5 \<or> iProcID h = 0 \<or> szModuleName h = [])"

text \<open>The tables with special files: a record goes there when the configuration has its number or its user.\<close>

definition spec_conf :: "('k \<times> LogOutputConf) list \<Rightarrow> 'k \<Rightarrow> LogOutputConf option" where
  "spec_conf t k = (if tb_used t > 1 then map_of t k else None)"

definition log_to_id :: "(int \<Rightarrow> tm) \<Rightarrow> int \<Rightarrow> LogHeader \<Rightarrow> bool \<Rightarrow> LogSvr \<Rightarrow> (bool \<times> bool \<times> LogSvr) option" where
  "log_to_id localtime now h flag s =
     (case spec_conf (m_objLogIDConf (m_objLogConf s)) (word_of_int (iLogID h)) of
        None \<Rightarrow> Some (True, flag, s)
      | Some conf \<Rightarrow> do {
          (go, lines, flag, t, F) \<leftarrow> log_to localtime (m_iSelfLogLevel s) (m_pstGlobalConf (m_objLogConf s)) (m_iMaxModuleNum s) (m_iSizeCheckTimeVal s) now h conf
             (word_of_int (iLogID h)) flag (m_objSpecLogIDFilePHash s) (sv_fs s);
          Some (go, flag, s\<lparr>m_objSpecLogIDFilePHash := t, sv_fs := F, sv_self := sv_self s @ lines\<rparr>)
        })"

text \<open>The table of the files of users has keys of 32 bits, so the number of the user is cut.\<close>

definition log_to_user :: "(int \<Rightarrow> tm) \<Rightarrow> int \<Rightarrow> LogHeader \<Rightarrow> bool \<Rightarrow> LogSvr \<Rightarrow> LogSvr option" where
  "log_to_user localtime now h flag s =
     (case spec_conf (m_objUserIDConf (m_objLogConf s)) (ullUserID h) of
        None \<Rightarrow> Some s
      | Some conf \<Rightarrow> do {
          (go, lines, flag, t, F) \<leftarrow> log_to localtime (m_iSelfLogLevel s) (m_pstGlobalConf (m_objLogConf s)) (m_iMaxModuleNum s) (m_iSizeCheckTimeVal s) now h conf
             (ucast (ullUserID h)) flag (m_objSpecUserIDFilePHash s) (sv_fs s);
          Some (s\<lparr>m_objSpecUserIDFilePHash := t, sv_fs := F, sv_self := sv_self s @ lines\<rparr>)
        })"

definition log_message :: "(int \<Rightarrow> tm) \<Rightarrow> int \<times> int \<times> int \<Rightarrow> LogHeader \<Rightarrow> LogSvr \<Rightarrow> LogSvr option" where
  "log_message localtime now h s = do {
     (go, lines, flag, t, F) \<leftarrow> log_to localtime (m_iSelfLogLevel s) (m_pstGlobalConf (m_objLogConf s)) (m_iMaxModuleNum s) (m_iSizeCheckTimeVal s) (fst now) h
        (m_pstGlobalConf (m_objLogConf s)) (CModuleName (szModuleName h)) False (m_objModuleLogFilePHash s) (sv_fs s);
     let lines = lines @ (if go \<and> flag then SELF_LOG (m_iSelfLogLevel s) (ullUserID h) LOG_INFO else []);
     let s = s\<lparr>m_objModuleLogFilePHash := t, sv_fs := F, sv_self := sv_self s @ lines\<rparr>;
     if \<not> go then Some s
     else do {
       (go, flag, s) \<leftarrow> log_to_id localtime (fst (snd now)) h flag s;
       if \<not> go then Some s else log_to_user localtime (snd (snd now)) h flag s
     }
   }"

text \<open>
  One iteration of \<open>Run\<close>: the result of the queue's lock and those of the three calls of \<open>time\<close> come from outside. A message that fills
  the buffer has its terminating zero written behind it.
\<close>

definition LogSvr_step :: "(int \<Rightarrow> tm) \<Rightarrow> int \<times> int \<times> int \<times> int \<Rightarrow> LogSvr \<Rightarrow> LogSvr option" where
  "LogSvr_step localtime env s =
     (let (lockret, now) = env;
          (r, buf, len, q) = OutQueue_int (m_objLogQueue s) (m_szLogFromQueueBuff s) (int sizeof_LogFromQueueBuff) True lockret;
          s = s\<lparr>m_objLogQueue := q, m_szLogFromQueueBuff := buf\<rparr>;
          self_log = (\<lambda>lv s. s\<lparr>sv_self := sv_self s @ SELF_LOG (m_iSelfLogLevel s) 0 lv\<rparr>)
      in if r = E_SHM_QUEUE_EMPTY then Some s
         else if r \<noteq> SHM_SUCCESS then Some (self_log LOG_ERR s)
         else if len < int sizeof_LogHeader then Some (self_log LOG_ERR s)
         else if len \<ge> int (length buf) then None
         else let buf = buf[nat len := 0]; h = LogHeader_read buf; s = self_log LOG_TRACE (s\<lparr>m_szLogFromQueueBuff := buf\<rparr>)
              in if \<not> header_ok h then Some (self_log LOG_ERR s) else log_message localtime now h s)"

text \<open>\<open>Run\<close> until the stop flag is found set: one element of the list for every iteration.\<close>

fun LogSvr_Run :: "(int \<Rightarrow> tm) \<Rightarrow> (int \<times> int \<times> int \<times> int) list \<Rightarrow> LogSvr \<Rightarrow> LogSvr option" where
  "LogSvr_Run localtime [] s = Some s"
| "LogSvr_Run localtime (env # envs) s = do { s \<leftarrow> LogSvr_step localtime env s; LogSvr_Run localtime envs s }"

section \<open>Init\<close>

definition LOG_QUEUE_KEY :: int where "LOG_QUEUE_KEY = 0x500002"
definition LOG_QUEUE_SIZE :: int where "LOG_QUEUE_SIZE = 67108864"
definition LOG_MAX_SPEC_NUM :: int where "LOG_MAX_SPEC_NUM = 100"
definition LOG_OUTPUT_TYPE_SPEC_MODULE :: int where "LOG_OUTPUT_TYPE_SPEC_MODULE = 2"

definition LogOutputConf_0 :: LogOutputConf where
  "LogOutputConf_0 = \<lparr>iOutputLogLevel = 0, iOutputLogType = 0, szOutputPathDir = [], iMaxFileSize = 0, iFlushFlag = 0, iMaxFileNum = 0\<rparr>"

text \<open>
  The sections with special levels, the \<open>i\<close>-th and the next \<open>n - 1\<close>. A section without a key and one that cannot be entered are skipped.
\<close>

fun spec_modules :: "inifile \<Rightarrow> nat \<Rightarrow> nat \<Rightarrow> (string \<times> LogOutputConf) list \<Rightarrow> (string \<times> LogOutputConf) list option" where
  "spec_modules f 0 i t = Some t"
| "spec_modules f (Suc n) i t = do {
     let sec = ''SPEC_MODULE_'' @ dec_nat i;
     (_, name) \<leftarrow> GetString f sec ''ModuleName'' [] 32;
     if name = [] then spec_modules f n (Suc i) t
     else do {
       (_, lv) \<leftarrow> GetInt f sec ''LogLevel'' 0 0;
       spec_modules f n (Suc i) (snd (tb_insert LOG_MAX_SPEC_NUM t (CModuleName name)
         (LogOutputConf_0\<lparr>iOutputLogLevel := lv, iOutputLogType := LOG_OUTPUT_TYPE_SPEC_MODULE\<rparr>)))
     }
   }"

fun spec_ids :: "inifile \<Rightarrow> nat \<Rightarrow> nat \<Rightarrow> (u32 \<times> LogOutputConf) list \<Rightarrow> (u32 \<times> LogOutputConf) list option" where
  "spec_ids f 0 i t = Some t"
| "spec_ids f (Suc n) i t = do {
     let sec = ''SPEC_LOGID_'' @ dec_nat i;
     (_, LogID) \<leftarrow> GetInt f sec ''LogID'' 0 0;
     if LogID = 0 then spec_ids f n (Suc i) t
     else do {
       (_, lv) \<leftarrow> GetInt f sec ''LogLevel'' 0 0;
       (_, path) \<leftarrow> GetString f sec ''LogPath'' [] 256;
       spec_ids f n (Suc i) (snd (tb_insert LOG_MAX_SPEC_NUM t (word_of_int LogID)
         (LogOutputConf_0\<lparr>iOutputLogLevel := lv, iOutputLogType := LOG_OUTPUT_TYPE_SPEC_LOGID, szOutputPathDir := path\<rparr>)))
     }
   }"

fun spec_users :: "inifile \<Rightarrow> nat \<Rightarrow> nat \<Rightarrow> (u64 \<times> LogOutputConf) list \<Rightarrow> (u64 \<times> LogOutputConf) list option" where
  "spec_users f 0 i t = Some t"
| "spec_users f (Suc n) i t = do {
     let sec = ''SPEC_USERID_'' @ dec_nat i;
     (_, UserID) \<leftarrow> GetULongLong f sec ''UserID'' 0 0;
     if UserID = 0 then spec_users f n (Suc i) t
     else do {
       (_, lv) \<leftarrow> GetInt f sec ''LogLevel'' 0 0;
       (_, path) \<leftarrow> GetString f sec ''LogPath'' [] 256;
       spec_users f n (Suc i) (snd (tb_insert LOG_MAX_SPEC_NUM t UserID
         (LogOutputConf_0\<lparr>iOutputLogLevel := lv, iOutputLogType := LOG_OUTPUT_TYPE_SPEC_USERID, szOutputPathDir := path\<rparr>)))
     }
   }"

text \<open>
  The items of the first section. \<open>GetInt\<close> keeps the old value of its target in one case, so the members are given.
\<close>

record log_conf =
  lc_Level :: int
  lc_Path :: string
  lc_FileSize :: int
  lc_FlushFlag :: int
  lc_ModuleNum :: int
  lc_CheckTimeVal :: int
  lc_SelfLevel :: int
  lc_FileNum :: int

definition read_log_conf :: "inifile \<Rightarrow> LogSvr \<Rightarrow> log_conf option" where
  "read_log_conf f s = do {
     (_, level) \<leftarrow> GetInt f ''LOG_SVR'' ''LogLevel'' 3 3;
     (_, path) \<leftarrow> GetString f ''LOG_SVR'' ''LogPath'' ''/usr/local/log'' 1024;
     (_, size) \<leftarrow> GetInt f ''LOG_SVR'' ''MaxFileSize'' 1024000000 1024000000;
     (_, flush) \<leftarrow> GetInt f ''LOG_SVR'' ''FlushFlag'' 1 1;
     (_, modules) \<leftarrow> GetInt f ''LOG_SVR'' ''MaxModuleNum'' 100 (m_iMaxModuleNum s);
     (_, checktime) \<leftarrow> GetInt f ''LOG_SVR'' ''SizeCheckTimeVal'' 1 (m_iSizeCheckTimeVal s);
     (_, self) \<leftarrow> GetInt f ''LOG_SVR'' ''SelfLogLevel'' 3 (m_iSelfLogLevel s);
     (_, num) \<leftarrow> GetInt f ''LOG_SVR'' ''MaxFileNum'' 16 16;
     Some \<lparr>lc_Level = level, lc_Path = path, lc_FileSize = size, lc_FlushFlag = flush, lc_ModuleNum = modules, lc_CheckTimeVal = checktime,
       lc_SelfLevel = self, lc_FileNum = num\<rparr>
   }"

definition global_conf :: "log_conf \<Rightarrow> LogOutputConf" where
  "global_conf c = \<lparr>iOutputLogLevel = lc_Level c, iOutputLogType = 1, szOutputPathDir = take 255 (lc_Path c), iMaxFileSize = lc_FileSize c,
     iFlushFlag = lc_FlushFlag c, iMaxFileNum = lc_FileNum c\<rparr>"

text \<open>
  The tables of the configuration have 100 nodes each and fit into their segment: 1292 bytes for an entry, 17 or 8 for a key, and the sum of
  all is below 400000. The tables of open files are allocated with 104 bytes for an entry; a number of modules for which their size is not an
  \<open>int\<close> is undefined. \<open>alloc\<close> says which of the three allocations succeed, \<open>mutex\<close> is the result of \<open>pthread_mutex_init\<close>.
\<close>

definition LogSvr_tables :: "(bool \<times> bool \<times> bool) \<Rightarrow> int \<Rightarrow> LogSvr \<Rightarrow> (int \<times> LogSvr) option" where
  "LogSvr_tables alloc n s =
     (if 20 + n * 12 + n * 125 \<ge> 2 ^ 31 then None
      else if \<not> fst alloc then Some (-1, s)
      else if n < 2 then Some (-1, s)
      else let s = s\<lparr>m_objModuleLogFilePHash := []\<rparr>
           in if \<not> fst (snd alloc) then Some (-1, s)
              else let s = s\<lparr>m_objSpecLogIDFilePHash := []\<rparr>
                   in if \<not> snd (snd alloc) then Some (-1, s)
                      else Some (0, s\<lparr>m_objSpecUserIDFilePHash := []\<rparr>))"

definition LogSvr_Init ::
  "'a surroundings_scheme \<Rightarrow> shm_create \<times> bool \<Rightarrow> int \<Rightarrow> bool \<times> bool \<times> bool \<Rightarrow> string \<Rightarrow> LogSvr \<Rightarrow> (int \<times> LogSvr) option" where
  "LogSvr_Init E shm mutex alloc path s = do {
     f \<leftarrow> open_ini E path;
     if \<not> IsValid f then Some (-1, s)
     else do {
       c \<leftarrow> read_log_conf f s;
       let s = s\<lparr>m_iMaxModuleNum := lc_ModuleNum c, m_iSizeCheckTimeVal := lc_CheckTimeVal c, m_iSelfLogLevel := lc_SelfLevel c\<rparr>;
       (r, q) \<leftarrow> open_queue E LOG_QUEUE_KEY LOG_QUEUE_SIZE;
       case q of None \<Rightarrow> Some (-1, s) | Some q \<Rightarrow>
       if r \<noteq> 0 then Some (-1, s)
       else let s = s\<lparr>m_objLogQueue := q\<rparr>
       in if fst shm = ShmError then Some (-1, s)
       else if \<not> snd shm then Some (-1, s)
       else do {
         (_, modules) \<leftarrow> GetInt f ''LOG_SVR'' ''SpecModuleConfNum'' 0 0;
         (_, ids) \<leftarrow> GetInt f ''LOG_SVR'' ''SpecLogIDConfNum'' 0 0;
         (_, users) \<leftarrow> GetInt f ''LOG_SVR'' ''SpecUserIDConfNum'' 0 0;
         mt \<leftarrow> spec_modules f (nat modules) 1 [];
         it \<leftarrow> spec_ids f (nat ids) 1 [];
         ut \<leftarrow> spec_users f (nat users) 1 [];
         let s = s\<lparr>m_objLogConf := \<lparr>m_pstGlobalConf = global_conf c, m_objModuleConf = mt, m_objLogIDConf = it, m_objUserIDConf = ut\<rparr>\<rparr>;
         if mutex \<noteq> 0 then Some (-1, s) else LogSvr_tables alloc (m_iMaxModuleNum s) s
       }
     }
   }"

text \<open>A table of the configuration: no key twice, room for one node less than it has, entries of one type.\<close>

definition spec_ok :: "int \<Rightarrow> ('k \<times> LogOutputConf) list \<Rightarrow> bool" where
  "spec_ok ty t \<longleftrightarrow> distinct (map fst t) \<and> int (length t) < LOG_MAX_SPEC_NUM \<and> (\<forall>(k, c)\<in>set t. iOutputLogType c = ty)"

lemma spec_ok_insert: "spec_ok ty t \<Longrightarrow> iOutputLogType c = ty \<Longrightarrow> spec_ok ty (snd (tb_insert LOG_MAX_SPEC_NUM t k c))"
  by (auto simp: spec_ok_def tb_insert_def tb_used_def map_of_eq_None_iff)

lemma spec_modules_ok: "spec_modules f n i t = Some t' \<Longrightarrow> spec_ok LOG_OUTPUT_TYPE_SPEC_MODULE t \<Longrightarrow> spec_ok LOG_OUTPUT_TYPE_SPEC_MODULE t'"
  by (induction n arbitrary: i t) (auto simp: Let_def spec_ok_insert split: Option.bind_splits if_splits)

lemma spec_ids_ok: "spec_ids f n i t = Some t' \<Longrightarrow> spec_ok LOG_OUTPUT_TYPE_SPEC_LOGID t \<Longrightarrow> spec_ok LOG_OUTPUT_TYPE_SPEC_LOGID t'"
  by (induction n arbitrary: i t) (auto simp: Let_def spec_ok_insert split: Option.bind_splits if_splits)

lemma spec_users_ok: "spec_users f n i t = Some t' \<Longrightarrow> spec_ok LOG_OUTPUT_TYPE_SPEC_USERID t \<Longrightarrow> spec_ok LOG_OUTPUT_TYPE_SPEC_USERID t'"
  by (induction n arbitrary: i t) (auto simp: Let_def spec_ok_insert split: Option.bind_splits if_splits)

lemma spec_ok_Nil [simp]: "spec_ok ty []"
  by (simp add: spec_ok_def LOG_MAX_SPEC_NUM_def)

text \<open>What a successful \<open>Init\<close> leaves: no open files, room for a module, messages in the queue, sound tables of the configuration.\<close>

definition svr_ready :: "LogSvr \<Rightarrow> bool" where
  "svr_ready s \<longleftrightarrow> m_objModuleLogFilePHash s = [] \<and> m_objSpecLogIDFilePHash s = [] \<and> m_objSpecUserIDFilePHash s = [] \<and> 2 \<le> m_iMaxModuleNum s
     \<and> (\<exists>ms. sq_rel (m_objLogQueue s) ms) \<and> spec_ok LOG_OUTPUT_TYPE_SPEC_MODULE (m_objModuleConf (m_objLogConf s))
     \<and> spec_ok LOG_OUTPUT_TYPE_SPEC_LOGID (m_objLogIDConf (m_objLogConf s)) \<and> spec_ok LOG_OUTPUT_TYPE_SPEC_USERID (m_objUserIDConf (m_objLogConf s))"

lemma LogSvr_tables_ok:
  assumes "LogSvr_tables alloc n s = Some (0, s')"
  shows "2 \<le> n \<and> s' = s\<lparr>m_objModuleLogFilePHash := [], m_objSpecLogIDFilePHash := [], m_objSpecUserIDFilePHash := []\<rparr>"
  using assms by (auto simp: LogSvr_tables_def Let_def split: if_splits)

lemma LogSvr_Init_ready:
  assumes "segments_ok E" "LogSvr_Init E shm mutex alloc path s = Some (0, s')"
  shows "svr_ready s' \<and> m_szLogFromQueueBuff s' = m_szLogFromQueueBuff s \<and> sv_fs s' = sv_fs s"
proof -
  obtain f c q mt it ut where I: "open_queue E LOG_QUEUE_KEY LOG_QUEUE_SIZE = Some (0, Some q)" "\<exists>n. spec_modules f n 1 [] = Some mt"
    "\<exists>n. spec_ids f n 1 [] = Some it" "\<exists>n. spec_users f n 1 [] = Some ut"
    "LogSvr_tables alloc (lc_ModuleNum c) (s\<lparr>m_iMaxModuleNum := lc_ModuleNum c, m_iSizeCheckTimeVal := lc_CheckTimeVal c,
       m_iSelfLogLevel := lc_SelfLevel c, m_objLogQueue := q,
       m_objLogConf := \<lparr>m_pstGlobalConf = global_conf c, m_objModuleConf = mt, m_objLogIDConf = it, m_objUserIDConf = ut\<rparr>\<rparr>) = Some (0, s')"
    using assms(2) unfolding LogSvr_Init_def
    by (auto simp: Let_def split: Option.bind_splits if_splits option.splits prod.splits) blast
  have "\<exists>ms. sq_rel q ms" using assms(1) I(1) by (auto simp: segments_ok_def)
  then show ?thesis using LogSvr_tables_ok [OF I(5)] I(2-4) spec_modules_ok spec_ids_ok spec_users_ok
    by (auto simp: svr_ready_def)
qed

section \<open>Writing to one table\<close>







section \<open>From a process to the file\<close>






section \<open>Files of users\<close>

lemma log_to_opens:
  assumes "level_of (iLogLevel h) = Some (dir, sel, upd)" "atoi (GetFileNameTime lt (uint (uiLogTimeSec h))) = Some hour" "hour \<noteq> 0"
    and "name = log_file_name (log_path glob h conf) dir hour" "map_of t key = None" "tb_used t < n" "fs_ok F" "\<forall>n. \<not> fs_fails F n"
  shows "\<exists>p F' j before. log_to lt self glob n tv now h conf key flag t F = Some (True, SELF_LOG self (ullUserID h) LOG_DEBUG, True, (key, p) # t, F') \<and> fs_names F' name = Some j
    \<and> sel p = \<lparr>lf_File = Some j, lf_LogTime = hour, lf_CheckTime = now\<rparr> \<and> fs_data F' j = before @ log_line lt h \<and> (\<forall>n. \<not> fs_fails F' n)"
proof -
  let ?l = "\<lambda>j. \<lparr>lf_File = Some j, lf_LogTime = hour, lf_CheckTime = now\<rparr>"
  obtain j G where G: "OpenFile name F = (Some j, G)" "fs_names G name = Some j" "fs_fails G = fs_fails F"
    using OpenFile_ok [OF assms(7,8), of name] by blast
  have "sel no_files = no_file" using assms(1) by (auto simp: level_of_def no_files_def split: if_splits)
  then have C: "choose_file glob tv name hour now (sel no_files) F = (True, ?l j, G)" using G(1) assms(3) by (simp add: choose_file_def no_file_def)
  define F' where "F' = fs_append j (log_line lt h) (G\<lparr>fs_tick := Suc (fs_tick G)\<rparr>)"
  have "WriteLogToFile lt glob tv now h no_files conf F = Some (1, upd (?l j) no_files, F')"
    using C G(3) assms(8) by (simp add: WriteLogToFile_def assms(1,2) assms(4) [symmetric] fs_call_def F'_def)
  then have "log_to lt self glob n tv now h conf key flag t F
      = Some (True, SELF_LOG self (ullUserID h) LOG_DEBUG, True, (key, upd (?l j) no_files) # t, F')"
    using assms(5,6) by (simp add: log_to_def tb_insert_def tb_update_def hl_codes)
  then show ?thesis using G level_of_members [OF assms(1)] assms(8) by (simp add: F'_def fs_append_def)
qed

lemma log_to_open:
  assumes "level_of (iLogLevel h) = Some (dir, sel, upd)" "atoi (GetFileNameTime lt (uint (uiLogTimeSec h))) = Some hour"
    and "map_of t key = Some p" "sel p = \<lparr>lf_File = Some j, lf_LogTime = hour, lf_CheckTime = now\<rparr>" "0 \<le> now' - now" "now' - now \<le> tv"
    and "\<not> fs_fails F (fs_tick F)"
  shows "\<exists>flag' t'. log_to lt self glob n tv now' h conf key flag t F = Some (True, SELF_LOG self (ullUserID h) LOG_DEBUG, flag', t', fs_append j (log_line lt h) (F\<lparr>fs_tick := Suc (fs_tick F)\<rparr>))"
proof -
  have "choose_file glob tv name hour now' (sel p) F = (False, sel p, F)" for name using assms(4-6) by (simp add: choose_file_def)
  then have "WriteLogToFile lt glob tv now' h p conf F
    = Some (0, upd (sel p) p, fs_append j (log_line lt h) (F\<lparr>fs_tick := Suc (fs_tick F)\<rparr>))"
    using assms(4,7) by (simp add: WriteLogToFile_def assms(1,2) fs_call_def)
  then show ?thesis using assms(3) by (cases flag) (simp add: log_to_def tb_update_def hl_codes, blast)+
qed

text \<open>
  Two users whose numbers have the same low 32 bits share their files. When both have files of their own in the configuration, a record of
  the second one that follows a record of the first in the same hour and at the same level goes to the file of the first, whatever directory the
  configuration names for the second.
\<close>
lemma user_files_shared:
  assumes "(ucast (ullUserID h1) :: u32) = ucast (ullUserID h2)"
    and "spec_conf (m_objUserIDConf (m_objLogConf s)) (ullUserID h1) = Some c1" "spec_conf (m_objUserIDConf (m_objLogConf s)) (ullUserID h2) = Some c2"
    and "iLogLevel h2 = iLogLevel h1" "level_of (iLogLevel h1) = Some (dir, sel, upd)"
    and "atoi (GetFileNameTime lt (uint (uiLogTimeSec h1))) = Some hour" "atoi (GetFileNameTime lt (uint (uiLogTimeSec h2))) = Some hour" "hour \<noteq> 0"
    and "name = log_file_name (log_path (m_pstGlobalConf (m_objLogConf s)) h1 c1) dir hour"
    and "map_of (m_objSpecUserIDFilePHash s) (ucast (ullUserID h1)) = None" "tb_used (m_objSpecUserIDFilePHash s) < m_iMaxModuleNum s"
    and "fs_ok (sv_fs s)" "\<forall>n. \<not> fs_fails (sv_fs s) n" "now1 \<le> now2" "now2 - now1 \<le> m_iSizeCheckTimeVal s"
  shows "\<exists>s1 s2 j before. log_to_user lt now1 h1 flag1 s = Some s1 \<and> log_to_user lt now2 h2 flag2 s1 = Some s2
    \<and> fs_names (sv_fs s2) name = Some j \<and> fs_data (sv_fs s2) j = before @ log_line lt h1 @ log_line lt h2"
proof -
  let ?g = "m_pstGlobalConf (m_objLogConf s)" and ?k = "ucast (ullUserID h1) :: u32" and ?tv = "m_iSizeCheckTimeVal s" and ?t = "m_objSpecUserIDFilePHash s"
  obtain p F j before where L: "log_to lt (m_iSelfLogLevel s) ?g (m_iMaxModuleNum s) ?tv now1 h1 c1 ?k flag1 ?t (sv_fs s)
      = Some (True, SELF_LOG (m_iSelfLogLevel s) (ullUserID h1) LOG_DEBUG, True, (?k, p) # ?t, F)"
    and F: "fs_names F name = Some j" "sel p = \<lparr>lf_File = Some j, lf_LogTime = hour, lf_CheckTime = now1\<rparr>" "fs_data F j = before @ log_line lt h1"
      "\<forall>n. \<not> fs_fails F n"
    using log_to_opens [OF assms(5,6,8,9,10,11,12,13)] by blast
  define s1 where "s1 = s\<lparr>m_objSpecUserIDFilePHash := (?k, p) # ?t, sv_fs := F,
    sv_self := sv_self s @ SELF_LOG (m_iSelfLogLevel s) (ullUserID h1) LOG_DEBUG\<rparr>"
  have 1: "log_to_user lt now1 h1 flag1 s = Some s1" using L assms(2) by (simp add: log_to_user_def s1_def)
  have lv: "level_of (iLogLevel h2) = Some (dir, sel, upd)" using assms(4,5) by simp
  define F2 where "F2 = fs_append j (log_line lt h2) (F\<lparr>fs_tick := Suc (fs_tick F)\<rparr>)"
  have m: "map_of ((?k, p) # ?t) (ucast (ullUserID h2)) = Some p" using assms(1) by simp
  obtain f t' where "log_to lt (m_iSelfLogLevel s) ?g (m_iMaxModuleNum s) ?tv now2 h2 c2 (ucast (ullUserID h2)) flag2 ((?k, p) # ?t) F
      = Some (True, SELF_LOG (m_iSelfLogLevel s) (ullUserID h2) LOG_DEBUG, f, t', F2)"
    using log_to_open [OF lv assms(7) m F(2), where F = F] F(4) assms(14,15) unfolding F2_def by fastforce
  then have "log_to_user lt now2 h2 flag2 s1 = Some (s1\<lparr>m_objSpecUserIDFilePHash := t', sv_fs := F2,
      sv_self := sv_self s1 @ SELF_LOG (m_iSelfLogLevel s) (ullUserID h2) LOG_DEBUG\<rparr>)"
    using assms(3) by (simp add: log_to_user_def s1_def)
  with 1 F(1,3) show ?thesis by (intro exI conjI) (assumption | simp add: F2_def fs_append_def)+
qed

section \<open>Examples\<close>


definition all_conf_example :: LogAllConf where
  "all_conf_example = \<lparr>m_pstGlobalConf = conf_example, m_objModuleConf = [], m_objLogIDConf = [], m_objUserIDConf = []\<rparr>"

definition svr_example :: LogSvr where
  "svr_example = \<lparr>m_objLogQueue = \<lparr>uiHead = 0, uiTail = 0, qdata = replicate 100 0, m_QueueDataSize = 100, m_pMsgPeekBuf = None\<rparr>,
     m_objLogConf = all_conf_example, m_szLogFromQueueBuff = replicate sizeof_LogFromQueueBuff 0, m_objModuleLogFilePHash = [],
     m_objSpecLogIDFilePHash = [], m_objSpecUserIDFilePHash = [], m_iMaxModuleNum = 100, m_iSizeCheckTimeVal = 1, sv_fs = row_example,
     m_iSelfLogLevel = 3, sv_self = []\<rparr>"

lemma row_example_ok: "fs_ok row_example" "\<forall>n. \<not> fs_fails row_example n"
  by (simp_all add: fs_ok_def row_example_def)


definition user_conf :: "string \<Rightarrow> LogOutputConf" where
  "user_conf d = conf_example\<lparr>iOutputLogType := LOG_OUTPUT_TYPE_SPEC_USERID, szOutputPathDir := d\<rparr>"

definition svr_users :: LogSvr where
  "svr_users = svr_example\<lparr>m_objLogConf := all_conf_example\<lparr>m_objUserIDConf := [(9, user_conf ''x''), (0x100000009, user_conf ''y'')]\<rparr>\<rparr>"

lemma user_files_shared_witness:
  "\<exists>s1 s2 j before. log_to_user localtime_example 0 record_example True svr_users = Some s1
     \<and> log_to_user localtime_example 1 (record_example\<lparr>ullUserID := 0x100000009\<rparr>) True s1 = Some s2
     \<and> fs_names (sv_fs s2) ''x/error/2026010203.log'' = Some j
     \<and> fs_data (sv_fs s2) j = before @ log_line localtime_example record_example
          @ log_line localtime_example (record_example\<lparr>ullUserID := 0x100000009\<rparr>)"
proof -
  let ?h = "record_example\<lparr>ullUserID := 0x100000009\<rparr>"
  have u: "(ucast (ullUserID record_example) :: u32) = ucast (ullUserID ?h)" by (simp add: record_example_def)
  have c: "spec_conf (m_objUserIDConf (m_objLogConf svr_users)) (ullUserID record_example) = Some (user_conf ''x'')"
    "spec_conf (m_objUserIDConf (m_objLogConf svr_users)) (ullUserID ?h) = Some (user_conf ''y'')"
    by (simp_all add: spec_conf_def svr_users_def svr_example_def tb_used_def record_example_def)
  have l: "iLogLevel ?h = iLogLevel record_example" "level_of (iLogLevel record_example) = Some (''error'', lp_Error, \<lambda>x p. p\<lparr>lp_Error := x\<rparr>)"
    using example_level by (simp_all add: record_example_def)
  have n: "log_file_name (log_path (m_pstGlobalConf (m_objLogConf svr_users)) record_example (user_conf ''x'')) ''error'' 2026010203
    = ''x/error/2026010203.log''"
    by (simp add: log_file_name_def log_path_def user_conf_def LOG_OUTPUT_TYPE_SPEC_LOGID_def LOG_OUTPUT_TYPE_SPEC_USERID_def
        dec_int_def dec_nat.simps digit_texts)
  have t: "map_of (m_objSpecUserIDFilePHash svr_users) (ucast (ullUserID record_example)) = None"
    "tb_used (m_objSpecUserIDFilePHash svr_users) < m_iMaxModuleNum svr_users" "fs_ok (sv_fs svr_users)" "\<forall>n. \<not> fs_fails (sv_fs svr_users) n"
    "1 - 0 \<le> m_iSizeCheckTimeVal svr_users"
    using row_example_ok by (simp_all add: svr_users_def svr_example_def tb_used_def)
  show ?thesis
    by (rule user_files_shared [OF u c l example_hour example_hour _ n [symmetric] t(1-4) _ t(5)]) simp_all
qed

end
