(* ===== verification/MemPool.thy ===== *)
theory MemPool
  imports Ring HashList
begin

text \<open>
  The pool of nodes of one size \<open>CFixedsizeMemPool\<close> (\<^verbatim>\<open>mmlib/mem_pool/fixedsize_mem_pool.h\<close>). The memory is a header, a ring of the free
  nodes' numbers, a bit per node that says whether it is in use, and the nodes. A pointer to a node is its number in the array of nodes;
  where the code computes with the address, the offset in bytes is used and \<open>sz\<close> is the size of a node. \<open>None\<close> stands for an access
  outside an array and for a division by zero.

  The pool is a queue of free nodes: a node is taken from the front and a released one is put at the end. One node is never given
  out and one free node always stays behind.
\<close>

section \<open>Memory\<close>

record 'd fmp =
  iMemSize :: int
  iNodeNum :: nat
  iUsedNodeNum :: int
  iFreeHead :: nat
  iFreeTail :: nat
  m_piFreeList :: "nat list"
  m_pucUsedBit :: "byte list"
  m_pDataBuff :: "'d list"
  m_iGetNextPos :: nat

definition E_NODE_NUM :: int where "E_NODE_NUM = -101"
definition E_MEM_SIZE :: int where "E_MEM_SIZE = -102"
definition E_DATAP_ERR :: int where "E_DATAP_ERR = -103"
definition E_VERIFY_CYCLE_LIST_ERR :: int where "E_VERIFY_CYCLE_LIST_ERR = -104"
definition E_VERIFY_USEDNODE_NUM :: int where "E_VERIFY_USEDNODE_NUM = -105"
definition E_VERIFY_USEDBIT_FLAG :: int where "E_VERIFY_USEDBIT_FLAG = -106"

lemmas fmp_codes = E_NODE_NUM_def E_MEM_SIZE_def E_DATAP_ERR_def E_VERIFY_CYCLE_LIST_ERR_def E_VERIFY_USEDNODE_NUM_def E_VERIFY_USEDBIT_FLAG_def

definition nget :: "'a list \<Rightarrow> nat \<Rightarrow> 'a option" where
  "nget xs i = (if i < length xs then Some (xs ! i) else None)"

section \<open>Operations\<close>

definition CalculateMemSize :: "int \<Rightarrow> int \<Rightarrow> int" where
  "CalculateMemSize sz n = int32 (20 + 4 * n + sz * n + (n + 7) div 8)"

text \<open>
  \<open>Init\<close> is given the memory as the arrays its pointers denote after their assignment; \<open>zero\<close> is a cleared node. For a number of nodes
  of 0 it is computed from the size, in the unsigned arithmetic of \<open>sizeof\<close>.
\<close>

definition FMP_Init :: "int \<Rightarrow> 'd \<Rightarrow> bool \<Rightarrow> int \<Rightarrow> int \<Rightarrow> int \<Rightarrow> 'd fmp \<Rightarrow> int \<times> 'd fmp" where
  "FMP_Init sz zero null MemSize NodeNum iClearFlag p =
     (if NodeNum < 0 then (E_NODE_NUM, p)
      else let n = (if NodeNum = 0 then int32 (uint ((word_of_int MemSize - 20 :: u64) div word_of_int (5 + sz))) else NodeNum)
      in if null then (E_MEM_SIZE, p)
      else if MemSize < CalculateMemSize sz n then (E_MEM_SIZE, p)
      else if iClearFlag = 1
      then (0, p\<lparr>iMemSize := MemSize, iNodeNum := nat n, iUsedNodeNum := 0, iFreeHead := 0, iFreeTail := nat (n - 1),
                m_piFreeList := [0..<nat n], m_pucUsedBit := replicate (nat ((n + 7) div 8)) 0, m_pDataBuff := replicate (nat n) zero\<rparr>)
      else if iMemSize p \<noteq> MemSize then (E_MEM_SIZE, p)
      else if int (iNodeNum p) \<noteq> n then (E_NODE_NUM, p)
      else (0, p))"

definition used_bit :: "byte list \<Rightarrow> nat \<Rightarrow> bool option" where
  "used_bit bits i = map_option (\<lambda>b. b AND push_bit (i mod 8) 1 \<noteq> 0) (nget bits (i div 8))"

definition set_used :: "byte list \<Rightarrow> nat \<Rightarrow> byte list option" where
  "set_used bits i = map_option (\<lambda>b. bits[i div 8 := b OR push_bit (i mod 8) 1]) (nget bits (i div 8))"

definition clear_used :: "byte list \<Rightarrow> nat \<Rightarrow> byte list option" where
  "clear_used bits i = map_option (\<lambda>b. bits[i div 8 := b AND NOT (push_bit (i mod 8) 1)]) (nget bits (i div 8))"

fun count_used :: "byte list \<Rightarrow> nat \<Rightarrow> int option" where
  "count_used bits 0 = Some 0"
| "count_used bits (Suc n) = do { c \<leftarrow> count_used bits n; u \<leftarrow> used_bit bits n; Some (if u then c + 1 else c) }"

definition FMP_Verify :: "'d fmp \<Rightarrow> int option" where
  "FMP_Verify p =
     (let n = iNodeNum p
      in if length (m_piFreeList p) < n then None
         else if list_ex (\<lambda>x. x \<ge> n) (take n (m_piFreeList p)) then Some E_VERIFY_CYCLE_LIST_ERR
         else if n = 0 then None
         else if int n - ((int (iFreeTail p) + int n - int (iFreeHead p)) mod int n + 1) \<noteq> iUsedNodeNum p then Some E_VERIFY_USEDNODE_NUM
         else do {
           c \<leftarrow> count_used (m_pucUsedBit p) n;
           Some (if c \<noteq> iUsedNodeNum p then E_VERIFY_USEDBIT_FLAG else 0)
         })"

definition AllocateNode :: "'d fmp \<Rightarrow> (nat option \<times> 'd fmp) option" where
  "AllocateNode p =
     (let n = iNodeNum p
      in if n = 0 then None
         else if (iFreeHead p + 1) mod n = iFreeTail p then Some (None, p)
         else do {
           i \<leftarrow> nget (m_piFreeList p) (iFreeHead p);
           bits \<leftarrow> set_used (m_pucUsedBit p) i;
           Some (Some i, p\<lparr>m_pucUsedBit := bits, iFreeHead := (iFreeHead p + 1) mod n, iUsedNodeNum := iUsedNodeNum p + 1\<rparr>)
         })"

definition ReleaseNode :: "int \<Rightarrow> int \<Rightarrow> 'd fmp \<Rightarrow> (int \<times> 'd fmp) option" where
  "ReleaseNode sz off p =
     (if off < 0 \<or> off > int (iNodeNum p) * sz \<or> off mod sz \<noteq> 0 then Some (E_DATAP_ERR, p)
      else let iMaskPos = nat (off div sz)
           in do {
             u \<leftarrow> used_bit (m_pucUsedBit p) iMaskPos;
             if \<not> u then Some (0, p)
             else if iFreeTail p \<ge> length (m_piFreeList p) then None
             else do {
               bits \<leftarrow> clear_used (m_pucUsedBit p) iMaskPos;
               Some (0, p\<lparr>m_piFreeList := (m_piFreeList p)[iFreeTail p := iMaskPos], m_pucUsedBit := bits,
                          iFreeTail := (iFreeTail p + 1) mod iNodeNum p, iUsedNodeNum := iUsedNodeNum p - 1\<rparr>)
             }
           })"

text \<open>The loop of \<open>GetNextNode\<close> over the \<open>k\<close> nodes from \<open>i\<close> on.\<close>

fun next_used :: "byte list \<Rightarrow> nat \<Rightarrow> nat \<Rightarrow> nat option option" where
  "next_used bits 0 i = Some None"
| "next_used bits (Suc k) i = do { u \<leftarrow> used_bit bits i; if u then Some (Some i) else next_used bits k (Suc i) }"

definition GetNextNode :: "int \<Rightarrow> 'd fmp \<Rightarrow> (nat option \<times> 'd fmp) option" where
  "GetNextNode iFirstNodeFlag p =
     (let p = (if iFirstNodeFlag \<noteq> 0 then p\<lparr>m_iGetNextPos := 0\<rparr> else p)
      in do {
        r \<leftarrow> next_used (m_pucUsedBit p) (iNodeNum p - m_iGetNextPos p) (m_iGetNextPos p);
        Some (case r of None \<Rightarrow> (None, p) | Some i \<Rightarrow> (Some i, p\<lparr>m_iGetNextPos := i + 1\<rparr>))
      })"

text \<open>\<open>VerifyData\<close> is given the offset of the node from the start of the pool's memory; the remainder is taken of unsigned 64 bits.\<close>

definition VerifyData :: "int \<Rightarrow> int \<Rightarrow> 'd fmp \<Rightarrow> int" where
  "VerifyData sz iMemOffSet p =
     (let n = int (iNodeNum p); iDataOffSet = int32 (iMemOffSet - 20 - (4 * n - (n + 7) div 8))
      in if uint (word_of_int iDataOffSet :: u64) mod sz = 0 then 0 else -1)"

section \<open>Bits\<close>

definition is_used :: "byte list \<Rightarrow> nat \<Rightarrow> bool" where
  "is_used bits i \<longleftrightarrow> bit (bits ! (i div 8)) (i mod 8)"

lemma used_bit_eq: "i div 8 < length bits \<Longrightarrow> used_bit bits i = Some (is_used bits i)"
  by (simp add: used_bit_def nget_def and_exp_eq_0_iff_not_bit is_used_def)

lemma same_bit: "j = i \<longleftrightarrow> j div 8 = i div 8 \<and> j mod 8 = i mod 8" for i j :: nat
  by (metis div_mult_mod_eq)

lemma is_used_update:
  "i div 8 < length bits \<Longrightarrow> is_used (bits[i div 8 := b]) j = (if j div 8 = i div 8 then bit b (j mod 8) else is_used bits j)"
  by (simp add: is_used_def nth_list_update)

lemma set_used_eq:
  assumes "i div 8 < length bits"
  shows "\<exists>b. set_used bits i = Some b \<and> length b = length bits \<and> (\<forall>j. is_used b j = (j = i \<or> is_used bits j))"
proof -
  have "bit (bits ! (i div 8) OR push_bit (i mod 8) 1) (j mod 8) = (j mod 8 = i mod 8 \<or> bit (bits ! (i div 8)) (j mod 8))" for j
    by (auto simp: bit_or_iff bit_exp_iff)
  then show ?thesis using assms same_bit [of _ i]
    by (simp add: set_used_def nget_def is_used_update) (auto simp: is_used_def)
qed

lemma clear_used_eq:
  assumes "i div 8 < length bits"
  shows "\<exists>b. clear_used bits i = Some b \<and> length b = length bits \<and> (\<forall>j. is_used b j = (j \<noteq> i \<and> is_used bits j))"
proof -
  have "bit (bits ! (i div 8) AND NOT (push_bit (i mod 8) 1)) (j mod 8) = (j mod 8 \<noteq> i mod 8 \<and> bit (bits ! (i div 8)) (j mod 8))" for j
    by (auto simp: bit_and_iff bit_not_iff bit_exp_iff)
  then show ?thesis using assms same_bit [of _ i]
    by (simp add: clear_used_def nget_def is_used_update) (auto simp: is_used_def)
qed

lemma count_used_eq: "n \<le> 8 * length bits \<Longrightarrow> count_used bits n = Some (int (card {i. i < n \<and> is_used bits i}))"
proof (induction n)
  case (Suc n)
  have "{i. i < Suc n \<and> is_used bits i} = {i. i < n \<and> is_used bits i} \<union> (if is_used bits n then {n} else {})" by (auto simp: less_Suc_eq)
  with Suc show ?case by (simp add: used_bit_eq)
qed simp

section \<open>The queue of free nodes\<close>

text \<open>
  \<open>pool_rel n p fs\<close>: the pool \<open>p\<close> of \<open>n\<close> nodes has the free nodes \<open>fs\<close>, oldest first. The last node is in no ring and never in use.
\<close>

definition pool_rel :: "nat \<Rightarrow> 'd fmp \<Rightarrow> nat list \<Rightarrow> bool" where
  "pool_rel n p fs \<longleftrightarrow> iNodeNum p = n \<and> 2 \<le> n \<and> length (m_piFreeList p) = n \<and> length (m_pucUsedBit p) = (n + 7) div 8 \<and> length (m_pDataBuff p) = n
     \<and> iFreeHead p < n \<and> iFreeTail p < n \<and> ring_read (m_piFreeList p) (iFreeHead p) (ring_used n (iFreeHead p) (iFreeTail p)) = fs
     \<and> fs \<noteq> [] \<and> distinct fs \<and> set fs \<subseteq> {..<n - 1} \<and> iUsedNodeNum p = int (n - 1 - length fs)
     \<and> (\<forall>i. i div 8 < (n + 7) div 8 \<longrightarrow> is_used (m_pucUsedBit p) i = (i < n - 1 \<and> i \<notin> set fs)) \<and> (\<forall>x\<in>set (m_piFreeList p). x < n)"

lemma ring_used_0: "h < n \<Longrightarrow> t < n \<Longrightarrow> ring_used n h t = 0 \<longleftrightarrow> h = t"
  by (auto simp: ring_used_def)

lemma ring_used_1:
  assumes "h < n" "t < n" "ring_used n h t \<noteq> 0"
  shows "(h + 1) mod n = t \<longleftrightarrow> ring_used n h t = 1"
proof -
  have "ring_used n ((h + 1) mod n) t = ring_used n h t - 1" using assms by (intro ring_used_add_head) simp_all
  moreover have "(h + 1) mod n < n" using assms by (intro mod_less_divisor) simp
  ultimately show ?thesis using ring_used_0 [of "(h + 1) mod n" n t] assms(2,3) by auto
qed

lemma ring_read_Suc: "h < length d \<Longrightarrow> ring_read d h (Suc k) = d ! h # ring_read d (Suc h mod length d) k"
proof -
  assume "h < length d"
  moreover have "ring_read d (Suc h mod length d) k = ring_read d (h + 1) k" using ring_read_mod [of d "Suc h" k] by simp
  moreover have "ring_read d h 1 = [d ! (h mod length d)]" by (simp add: ring_read_def)
  ultimately show ?thesis using ring_read_add [of d h 1 k] by simp
qed

lemma ring_read_snoc:
  assumes "h < length d" "t < length d" "ring_used (length d) h t < length d"
  shows "ring_read (d[t := x]) h (Suc (ring_used (length d) h t)) = ring_read d h (ring_used (length d) h t) @ [x]"
proof -
  have "d[t := x] = ring_write d t [x]"
    using assms ring_write_linear [of t "[x]" d] by (simp add: memcpy_to_def upd_conv_take_nth_drop)
  then show ?thesis using ring_read_append_block [of h d "ring_used (length d) h t" "[x]"] ring_used_tail [OF assms(1,2)] assms by simp
qed

lemma pool_length: "pool_rel n p fs \<Longrightarrow> length fs \<le> n - 1 \<and> length fs = ring_used n (iFreeHead p) (iFreeTail p)"
proof -
  assume p: "pool_rel n p fs"
  then have "card (set fs) \<le> card {..<n - 1}" by (intro card_mono) (simp_all add: pool_rel_def)
  then have "length fs \<le> n - 1" using p distinct_card [of fs] by (simp add: pool_rel_def)
  then show ?thesis using p length_ring(1) [of "m_piFreeList p"] by (auto simp: pool_rel_def)
qed

lemma node_bit: "i < n \<Longrightarrow> i div 8 < (n + 7) div 8" for i n :: nat
  using div_le_mono [of "i + 8" "n + 7" 8] by simp

lemma AllocateNode_last: "pool_rel n p [x] \<Longrightarrow> AllocateNode p = Some (None, p)"
  using pool_length [of n p "[x]"] ring_used_1 [of "iFreeHead p" n "iFreeTail p"] by (auto simp: pool_rel_def AllocateNode_def)

lemma AllocateNode_rel:
  assumes "pool_rel n p (x # fs)" "fs \<noteq> []"
  shows "\<exists>p'. AllocateNode p = Some (Some x, p') \<and> pool_rel n p' fs \<and> m_pDataBuff p' = m_pDataBuff p \<and> x < n - 1"
proof -
  let ?h = "iFreeHead p" and ?t = "iFreeTail p" and ?d = "m_piFreeList p"
  have p: "iNodeNum p = n" "2 \<le> n" "length ?d = n" "?h < n" "?t < n" "ring_used n ?h ?t = Suc (length fs)" "x < n - 1" "length fs < n - 1"
    "length (m_pucUsedBit p) = (n + 7) div 8" "x \<notin> set fs"
    using assms pool_length [OF assms(1)] by (auto simp: pool_rel_def)
  have r: "ring_read ?d ?h (Suc (length fs)) = x # fs" using assms(1) p(6) by (simp add: pool_rel_def)
  then have rs: "?d ! ?h = x" "ring_read ?d (Suc ?h mod n) (length fs) = fs" using ring_read_Suc [of ?h ?d "length fs"] p by simp_all
  obtain b where b: "set_used (m_pucUsedBit p) x = Some b" "length b = (n + 7) div 8" "\<forall>j. is_used b j = (j = x \<or> is_used (m_pucUsedBit p) j)"
    using set_used_eq [of x "m_pucUsedBit p"] node_bit [of x n] p by auto
  have nf: "(?h + 1) mod n \<noteq> ?t" using ring_used_1 [of ?h n ?t] p(4-6) assms(2) by simp
  have u: "ring_used n (Suc ?h mod n) ?t = length fs" using ring_used_add_head [of ?h n ?t 1] p by simp
  let ?p = "p\<lparr>m_pucUsedBit := b, iFreeHead := Suc ?h mod n, iUsedNodeNum := iUsedNodeNum p + 1\<rparr>"
  have "AllocateNode p = Some (Some x, ?p)" using p(1-4) nf b(1) rs(1) by (simp add: AllocateNode_def nget_def)
  moreover have "pool_rel n ?p fs"
    using assms p u rs(2) b by (auto simp: pool_rel_def)
  ultimately show ?thesis using p(7) by auto
qed

lemma ReleaseNode_rel:
  assumes "pool_rel n p fs" "0 < sz" "i < n"
  shows "\<exists>p'. ReleaseNode sz (int i * sz) p = Some (0, p') \<and> m_pDataBuff p' = m_pDataBuff p
    \<and> pool_rel n p' (if i < n - 1 \<and> i \<notin> set fs then fs @ [i] else fs) \<and> (i < n - 1 \<and> i \<notin> set fs \<or> p' = p)"
proof -
  let ?h = "iFreeHead p" and ?t = "iFreeTail p" and ?d = "m_piFreeList p"
  have p: "iNodeNum p = n" "2 \<le> n" "length ?d = n" "?h < n" "?t < n" "ring_used n ?h ?t = length fs" "length fs \<le> n - 1"
    "length (m_pucUsedBit p) = (n + 7) div 8" "distinct fs"
    using assms pool_length [OF assms(1)] by (auto simp: pool_rel_def)
  have c: "used_bit (m_pucUsedBit p) i = Some (i < n - 1 \<and> i \<notin> set fs)"
    using used_bit_eq [of i "m_pucUsedBit p"] node_bit [OF assms(3)] p(8) assms(1) by (simp add: pool_rel_def)
  have o: "int i * sz \<le> int n * sz" "0 \<le> int i * sz" using assms(2,3) by simp_all
  show ?thesis
  proof (cases "i < n - 1 \<and> i \<notin> set fs")
    case False
    then show ?thesis using c o assms p(1) by (auto simp: ReleaseNode_def mult_less_0_iff)
  next
    case True
    obtain b where b: "clear_used (m_pucUsedBit p) i = Some b" "length b = (n + 7) div 8" "\<forall>j. is_used b j = (j \<noteq> i \<and> is_used (m_pucUsedBit p) j)"
      using clear_used_eq [of i "m_pucUsedBit p"] node_bit [OF assms(3)] p by auto
    have "set (i # fs) \<subseteq> {..<n - 1}" using True assms(1) by (auto simp: pool_rel_def)
    then have l: "Suc (length fs) \<le> n - 1" using True p(9) card_mono [of "{..<n - 1}" "set (i # fs)"] by (simp add: distinct_card)
    have "ring_used n ?h ((?t + 1) mod n) = length fs + 1" using ring_used_add_tail [of ?h n ?t 1] p l by simp
    then have u: "ring_used n ?h (Suc ?t mod n) = Suc (length fs)" by simp
    have rr: "ring_read (?d[?t := i]) ?h (Suc (length fs)) = fs @ [i]"
      using ring_read_snoc [of ?h ?d ?t i] p l assms(1) by (simp add: pool_rel_def)
    let ?p = "p\<lparr>m_piFreeList := ?d[?t := i], m_pucUsedBit := b, iFreeTail := Suc ?t mod n, iUsedNodeNum := iUsedNodeNum p - 1\<rparr>"
    have "pool_rel n ?p (fs @ [i])"
      using rr assms True p u l b set_update_subset_insert [of ?d ?t i] by (auto simp: pool_rel_def)
    moreover have "ReleaseNode sz (int i * sz) p = Some (0, ?p)" using c o assms(2) p True b(1) by (simp add: ReleaseNode_def mult_less_0_iff)
    ultimately show ?thesis using True by simp
  qed
qed

lemma FMP_Verify_rel:
  assumes "pool_rel n p fs"
  shows "FMP_Verify p = Some 0"
proof -
  have p: "iNodeNum p = n" "2 \<le> n" "length (m_piFreeList p) = n" "length (m_pucUsedBit p) = (n + 7) div 8" "iFreeHead p < n" "iFreeTail p < n"
    "set fs \<subseteq> {..<n - 1}" "distinct fs" "\<forall>x\<in>set (m_piFreeList p). x < n" "iUsedNodeNum p = int (n - 1 - length fs)" "length fs \<le> n - 1"
    "ring_used n (iFreeHead p) (iFreeTail p) = length fs"
    using assms pool_length [OF assms] by (simp_all add: pool_rel_def)
  have "{i. i < n \<and> is_used (m_pucUsedBit p) i} = {..<n - 1} - set fs"
    using assms node_bit [of _ n] by (auto simp: pool_rel_def)
  then have "count_used (m_pucUsedBit p) n = Some (int (n - 1 - length fs))"
    using p count_used_eq [of n "m_pucUsedBit p"] by (simp add: card_Diff_subset distinct_card)
  moreover have "(int (iFreeTail p) + int n - int (iFreeHead p)) mod int n = int (length fs)"
  proof -
    have "int (iFreeTail p) + int n - int (iFreeHead p) = int (length fs) + (if iFreeHead p \<le> iFreeTail p then int n else 0)"
      using p(5,6,12) by (auto simp: ring_used_def split: if_splits)
    then show ?thesis using p(2,11) by simp
  qed
  ultimately show ?thesis using p by (auto simp: FMP_Verify_def list_ex_iff)
qed

lemma FMP_Init_rel:
  assumes "0 < sz" "2 \<le> n" "20 + 4 * int n + sz * int n + (int n + 7) div 8 < 2 ^ 31"
    and "20 + 4 * int n + sz * int n + (int n + 7) div 8 \<le> mem"
  shows "fst (FMP_Init sz z False mem (int n) 1 p) = 0 \<and> pool_rel n (snd (FMP_Init sz z False mem (int n) 1 p)) [0..<n - 1]"
proof -
  have "CalculateMemSize sz (int n) = 20 + 4 * int n + sz * int n + (int n + 7) div 8"
    using assms(1,3) unfolding CalculateMemSize_def int32_def by (subst sint_int32) simp_all
  moreover have "nat ((int n + 7) div 8) = (n + 7) div 8" by (simp add: nat_div_distrib nat_add_distrib)
  moreover have "ring_read [0..<n] 0 (n - 1) = [0..<n - 1]" by (subst ring_read_linear) (simp_all add: mem_read_def)
  ultimately show ?thesis using assms by (auto simp: FMP_Init_def pool_rel_def ring_used_def is_used_def nat_diff_distrib)
qed

section \<open>The pool as a queue\<close>

datatype pool_op = PAlloc | PRelease int | PVerify

datatype pool_res = RNode "nat option" | RCode int | RUndefined

fun pool_step :: "int \<Rightarrow> 'd fmp \<Rightarrow> pool_op \<Rightarrow> pool_res \<times> 'd fmp" where
  "pool_step sz p PAlloc = (case AllocateNode p of None \<Rightarrow> (RUndefined, p) | Some (r, p') \<Rightarrow> (RNode r, p'))"
| "pool_step sz p (PRelease off) = (case ReleaseNode sz off p of None \<Rightarrow> (RUndefined, p) | Some (r, p') \<Rightarrow> (RCode r, p'))"
| "pool_step sz p PVerify = (case FMP_Verify p of None \<Rightarrow> (RUndefined, p) | Some r \<Rightarrow> (RCode r, p))"

fun free_step :: "nat \<Rightarrow> int \<Rightarrow> nat list \<Rightarrow> pool_op \<Rightarrow> pool_res \<times> nat list" where
  "free_step n sz fs PAlloc = (if length fs \<le> 1 then (RNode None, fs) else (RNode (Some (hd fs)), tl fs))"
| "free_step n sz fs (PRelease off) =
     (if off < 0 \<or> off > int n * sz \<or> off mod sz \<noteq> 0 then (RCode E_DATAP_ERR, fs)
      else let i = nat (off div sz) in (RCode 0, if i < n - 1 \<and> i \<notin> set fs then fs @ [i] else fs))"
| "free_step n sz fs PVerify = (RCode 0, fs)"

text \<open>The address one past the last node passes the check; its bit is in the map only when the number of nodes is not a multiple of 8.\<close>

definition pool_op_ok :: "nat \<Rightarrow> int \<Rightarrow> pool_op \<Rightarrow> bool" where
  "pool_op_ok n sz e \<longleftrightarrow> (case e of PRelease off \<Rightarrow> off = int n * sz \<longrightarrow> n mod 8 \<noteq> 0 | _ \<Rightarrow> True)"

lemma ReleaseNode_end:
  assumes "pool_rel n p fs" "0 < sz"
  shows "ReleaseNode sz (int n * sz) p = (if n mod 8 = 0 then None else Some (0, p))"
proof -
  have b: "n div 8 < (n + 7) div 8 \<longleftrightarrow> n mod 8 \<noteq> 0" by presburger
  have p: "iNodeNum p = n" "length (m_pucUsedBit p) = (n + 7) div 8" using assms(1) by (simp_all add: pool_rel_def)
  have "n mod 8 \<noteq> 0 \<Longrightarrow> used_bit (m_pucUsedBit p) n = Some False"
    using used_bit_eq [of n "m_pucUsedBit p"] b p(2) assms(1) by (auto simp: pool_rel_def)
  moreover have "n mod 8 = 0 \<Longrightarrow> used_bit (m_pucUsedBit p) n = None" using b p(2) by (auto simp: used_bit_def nget_def)
  ultimately show ?thesis using assms(2) p(1) by (auto simp: ReleaseNode_def mult_less_0_iff)
qed

lemma ReleaseNode_cases:
  assumes "pool_rel n p fs" "0 < sz" "pool_op_ok n sz (PRelease off)"
  shows "\<exists>r p'. ReleaseNode sz off p = Some (r, p') \<and> RCode r = fst (free_step n sz fs (PRelease off)) \<and> pool_rel n p' (snd (free_step n sz fs (PRelease off)))"
proof (cases "off < 0 \<or> off > int n * sz \<or> off mod sz \<noteq> 0")
  case True
  moreover have "iNodeNum p = n" using assms(1) by (simp add: pool_rel_def)
  ultimately show ?thesis using assms(1) by (simp add: ReleaseNode_def)
next
  case False
  define i where "i = nat (off div sz)"
  have "0 \<le> off div sz" "off div sz * sz = off" using False assms(2) div_mult_mod_eq [of off sz] by (simp_all add: pos_imp_zdiv_nonneg_iff)
  then have off: "off = int i * sz" by (simp add: i_def)
  then have "i \<le> n" using False assms(2) by simp
  moreover have f: "free_step n sz fs (PRelease off) = (RCode 0, if i < n - 1 \<and> i \<notin> set fs then fs @ [i] else fs)"
    using False by (simp add: i_def Let_def)
  ultimately consider "i < n" | "i = n" by linarith
  then show ?thesis
  proof cases
    case 1
    then show ?thesis using ReleaseNode_rel [OF assms(1,2) 1, folded off] unfolding f by auto
  next
    case 2
    then have "n mod 8 \<noteq> 0" using assms(3) off by (simp add: pool_op_ok_def)
    then show ?thesis using ReleaseNode_end [OF assms(1,2)] assms(1) 2 off unfolding f by auto
  qed
qed

interpretation fmp: simulation "\<lambda>p fs. 0 < sz \<and> pool_rel n p fs" "pool_step sz" "free_step n sz" "pool_op_ok n sz" for sz n
proof
  fix p :: "'d fmp" and fs e assume R: "0 < sz \<and> pool_rel n p fs" and ok: "pool_op_ok n sz e"
  show "fst (pool_step sz p e) = fst (free_step n sz fs e) \<and> 0 < sz \<and> pool_rel n (snd (pool_step sz p e)) (snd (free_step n sz fs e))"
  proof (cases e)
    case PAlloc
    have "fs \<noteq> []" using R by (simp add: pool_rel_def)
    then obtain x xs where fs: "fs = x # xs" by (cases fs) auto
    show ?thesis
    proof (cases "xs = []")
      case True
      then show ?thesis using R PAlloc fs AllocateNode_last [of n p x] by simp
    next
      case False
      then show ?thesis using R PAlloc fs AllocateNode_rel [of n p x xs] by (cases xs) auto
    qed
  next
    case (PRelease off)
    then show ?thesis using R ok ReleaseNode_cases [of n p fs sz off] by (auto simp del: free_step.simps)
  next
    case PVerify
    then show ?thesis using R FMP_Verify_rel [of n p fs] by simp
  qed
qed

text \<open>
  C23: A pool of \<open>n\<close> nodes that was cleared answers every sequence of allocations, releases and verifications like a queue that starts with the
  nodes 0 to \<open>n - 2\<close>: an allocation takes the oldest free node unless it is the only one, a release of a node in use puts it at the end, a second
  release and a wrong address change nothing, and \<open>Verify\<close> accepts every state. So no node is given out twice, the last one never, and at most
  \<open>n - 2\<close> at a time.
\<close>
theorem pool_refines_queue:
  assumes "0 < sz" "2 \<le> n" "20 + 4 * int n + sz * int n + (int n + 7) div 8 < 2 ^ 31" "20 + 4 * int n + sz * int n + (int n + 7) div 8 \<le> mem"
    and "\<forall>e\<in>set es. pool_op_ok n sz e"
  shows "fst (run (pool_step sz) (snd (FMP_Init sz z False mem (int n) 1 p)) es) = fst (run (free_step n sz) [0..<n - 1] es)"
  using fmp.run_sim [OF conjI [OF assms(1) conjunct2 [OF FMP_Init_rel [OF assms(1-4)]]] assms(5)] by (rule conjunct1)

definition mem_example :: "nat fmp" where
  "mem_example = \<lparr>iMemSize = 0, iNodeNum = 0, iUsedNodeNum = 0, iFreeHead = 0, iFreeTail = 0, m_piFreeList = [], m_pucUsedBit = [], m_pDataBuff = [],
     m_iGetNextPos = 0\<rparr>"

theorem pool_refines_queue_witness:
  "fst (run (pool_step 8) (snd (FMP_Init 8 0 False 100 4 1 mem_example)) [PAlloc, PAlloc, PAlloc, PRelease 0, PRelease 0, PVerify, PAlloc, PAlloc])
     = [RNode (Some 0), RNode (Some 1), RNode None, RCode 0, RCode 0, RCode 0, RNode (Some 2), RNode None]"
proof -
  let ?es = "[PAlloc, PAlloc, PAlloc, PRelease 0, PRelease 0, PVerify, PAlloc, PAlloc]"
  have "fst (run (pool_step 8) (snd (FMP_Init 8 0 False 100 (int 4) 1 mem_example)) ?es) = fst (run (free_step 4 8) [0..<4 - 1] ?es)"
    by (rule pool_refines_queue) (simp_all add: pool_op_ok_def)
  also have "\<dots> = [RNode (Some 0), RNode (Some 1), RNode None, RCode 0, RCode 0, RCode 0, RNode (Some 2), RNode None]" by code_simp
  finally show ?thesis by simp
qed

section \<open>Walking over the nodes in use\<close>

lemma next_used_eq:
  "i + k \<le> 8 * length bits \<Longrightarrow> next_used bits k i = Some (case filter (is_used bits) [i..<i + k] of [] \<Rightarrow> None | j # _ \<Rightarrow> Some j)"
proof (induction k arbitrary: i)
  case (Suc k)
  have "used_bit bits i = Some (is_used bits i)" using Suc.prems by (intro used_bit_eq) simp
  with Suc.IH [of "Suc i"] Suc.prems show ?case by (simp add: upt_conv_Cons del: upt_Suc)
qed simp

lemma filter_upt_tl: "filter P [a..<n] = x # xs \<Longrightarrow> xs = filter P [Suc x..<n]"
proof (induction "n - a" arbitrary: a)
  case (Suc k)
  then have "[a..<n] = a # [Suc a..<n]" by (intro upt_conv_Cons) simp
  then show ?case using Suc(1) [of "Suc a"] Suc(2,3) by (auto split: if_splits)
qed simp

text \<open>The nodes a caller gets who goes on until there is none.\<close>

fun walk :: "nat \<Rightarrow> int \<Rightarrow> 'd fmp \<Rightarrow> nat list option" where
  "walk 0 f p = None"
| "walk (Suc k) f p = do { (r, p) \<leftarrow> GetNextNode f p; case r of None \<Rightarrow> Some [] | Some i \<Rightarrow> map_option ((#) i) (walk k 0 p) }"

lemma GetNextNode_eq:
  assumes "iNodeNum p \<le> 8 * length (m_pucUsedBit p)"
  shows "GetNextNode 0 p = Some (case filter (is_used (m_pucUsedBit p)) [m_iGetNextPos p..<iNodeNum p] of
    [] \<Rightarrow> (None, p) | i # _ \<Rightarrow> (Some i, p\<lparr>m_iGetNextPos := Suc i\<rparr>))"
proof (cases "m_iGetNextPos p \<le> iNodeNum p")
  case True
  then show ?thesis using next_used_eq [of "m_iGetNextPos p" "iNodeNum p - m_iGetNextPos p" "m_pucUsedBit p"] assms
    by (simp add: GetNextNode_def split: list.splits)
qed (simp add: GetNextNode_def)

lemma walk_eq:
  assumes "iNodeNum p \<le> 8 * length (m_pucUsedBit p)" "filter (is_used (m_pucUsedBit p)) [m_iGetNextPos p..<iNodeNum p] = us" "length us < k"
  shows "walk k 0 p = Some us"
  using assms
proof (induction us arbitrary: p k)
  case Nil
  then show ?case by (cases k) (simp_all add: GetNextNode_eq)
next
  case (Cons u us)
  then obtain j where k: "k = Suc j" by (cases k) auto
  have "walk j 0 (p\<lparr>m_iGetNextPos := Suc u\<rparr>) = Some us"
    using Cons.prems k filter_upt_tl [OF Cons.prems(2)] by (intro Cons.IH) simp_all
  then show ?case using Cons.prems(1,2) k by (simp add: GetNextNode_eq)
qed

text \<open>A walk that starts with the first node ends and visits exactly the nodes in use, in the order of the memory.\<close>

lemma walk_visits:
  assumes "pool_rel n p fs"
  shows "walk (Suc n) 1 p = Some (filter (\<lambda>i. i \<notin> set fs) [0..<n - 1])"
proof -
  let ?p = "p\<lparr>m_iGetNextPos := 0\<rparr>" and ?us = "filter (\<lambda>i. i \<notin> set fs) [0..<n - 1]"
  have n: "[0..<n] = [0..<n - 1] @ [n - 1]" using assms upt_Suc_append [of 0 "n - 1"] by (simp add: pool_rel_def)
  have "filter (is_used (m_pucUsedBit p)) [0..<n - 1] = ?us" using assms node_bit [of _ n] by (intro filter_cong) (auto simp: pool_rel_def)
  moreover have "\<not> is_used (m_pucUsedBit p) (n - 1)" using assms node_bit [of "n - 1" n] by (auto simp: pool_rel_def)
  ultimately have "filter (is_used (m_pucUsedBit ?p)) [m_iGetNextPos ?p..<iNodeNum ?p] = ?us" using n assms by (simp add: pool_rel_def)
  moreover have "length ?us < Suc n" using length_filter_le [of "\<lambda>i. i \<notin> set fs" "[0..<n - 1]"] by simp
  moreover have "iNodeNum ?p \<le> 8 * length (m_pucUsedBit ?p)" using assms by (simp add: pool_rel_def)
  ultimately have "walk (Suc n) 0 ?p = Some ?us" by (intro walk_eq) simp_all
  moreover have "GetNextNode 1 p = GetNextNode 0 ?p" by (simp add: GetNextNode_def)
  ultimately show ?thesis by simp
qed

section \<open>Checking an address\<close>

lemma small_int:
  assumes "0 \<le> i" "i < 2 ^ 31"
  shows "int32 i = i" "uint (word_of_int i :: u64) = i"
  using assms by (simp_all add: int32_def sint_int32 uint_word_of_int_eq take_bit_int_eq_self)

text \<open>
  \<open>VerifyData\<close> subtracts the map of the bits with the wrong sign. It accepts the address of a node exactly when twice the size of that map is
  a multiple of the size of a node, and so rejects every node of most pools.
\<close>
lemma VerifyData_accepts_iff:
  assumes "pool_rel n p fs" "i < n" "0 < sz" "20 + 4 * int n + sz * int n + 2 * ((int n + 7) div 8) < 2 ^ 31"
  shows "VerifyData sz (20 + 4 * int n + (int n + 7) div 8 + int i * sz) p = 0 \<longleftrightarrow> sz dvd 2 * ((int n + 7) div 8)"
proof -
  let ?b = "(int n + 7) div 8"
  define d where "d = 2 * ?b + int i * sz"
  have "int i * sz \<le> int n * sz" using assms(2,3) by simp
  moreover have "sz * int n = int n * sz" "0 \<le> int i * sz" "0 \<le> ?b" using assms(3) by simp_all
  ultimately have "0 \<le> d" "d < 2 ^ 31" using assms(4) unfolding d_def by linarith+
  note r = small_int [OF this]
  have e: "20 + 4 * int n + ?b + int i * sz - 20 - (4 * int n - ?b) = d" by (simp add: d_def)
  have "VerifyData sz (20 + 4 * int n + ?b + int i * sz) p = (if d mod sz = 0 then 0 else -1)"
    using assms(1) unfolding VerifyData_def Let_def pool_rel_def by (simp only: e r)
  moreover have "d mod sz = 0 \<longleftrightarrow> sz dvd 2 * ?b" by (simp add: d_def dvd_eq_mod_eq_0)
  ultimately show ?thesis by simp
qed

lemma VerifyData_accepts_iff_witness:
  "VerifyData 8 (20 + 4 * int 4 + (int 4 + 7) div 8 + int 1 * 8) (snd (FMP_Init 8 (0::nat) False 100 (int 4) 1 mem_example)) \<noteq> 0"
proof -
  have "pool_rel 4 (snd (FMP_Init 8 (0::nat) False 100 (int 4) 1 mem_example)) [0..<4 - 1]"
    by (rule conjunct2 [OF FMP_Init_rel]) simp_all
  from VerifyData_accepts_iff [OF this, of 1 8] show ?thesis by simp
qed

end
