(* ===== verification/MapPool.thy ===== *)
theory MapPool
  imports MemPool
begin

text \<open>
  The maps \<open>CMemPool\<close> (\<^verbatim>\<open>mmlib/mem_pool/mem_pool.h\<close>) that share one pool of blocks. A map is a chain of blocks with up to 50 keys and values
  each; its handle is the number of the first block. The object has one current map. Pointers to blocks are their numbers in the pool, and
  \<open>- 1\<close> ends a chain. \<open>None\<close> stands for an access outside an array and for a chain without an end.
\<close>

section \<open>Memory\<close>

definition MAP_BLOCK_DATA_NUM :: nat where "MAP_BLOCK_DATA_NUM = 50"

record ('k, 'v) DataBlock =
  iUsedDataNum :: nat
  iNextHandle :: int
  astKey :: "'k list"
  astData :: "'v list"

record ('k, 'v) mempool =
  m_objFMP :: "('k, 'v) DataBlock fmp"
  m_iMapHandle :: int
  m_pHeadDataBlock :: int
  m_iFMPInitFlag :: int

definition MEM_POOL_INIT_FAILED :: int where "MEM_POOL_INIT_FAILED = -101"
definition MEM_POOL_VERIFY_FAILED :: int where "MEM_POOL_VERIFY_FAILED = -102"
definition MEM_POOL_NOT_INITED :: int where "MEM_POOL_NOT_INITED = -103"
definition INVALID_MAP_HANDLE :: int where "INVALID_MAP_HANDLE = -104"
definition NODE_NOT_EXIST :: int where "NODE_NOT_EXIST = -105"
definition NODE_EXIST :: int where "NODE_EXIST = -106"
definition MEM_POOL_ALLOCATE_FAILED :: int where "MEM_POOL_ALLOCATE_FAILED = -107"
definition MEM_POOL_RELEASE_FAILED :: int where "MEM_POOL_RELEASE_FAILED = -108"

lemmas map_codes = MEM_POOL_INIT_FAILED_def MEM_POOL_VERIFY_FAILED_def MEM_POOL_NOT_INITED_def INVALID_MAP_HANDLE_def NODE_NOT_EXIST_def
  NODE_EXIST_def MEM_POOL_ALLOCATE_FAILED_def MEM_POOL_RELEASE_FAILED_def

text \<open>A block after \<open>memset\<close> and the assignment of \<open>iNextHandle\<close>; \<open>k0\<close> and \<open>v0\<close> are the cleared key and value.\<close>

definition new_block :: "'k \<Rightarrow> 'v \<Rightarrow> ('k, 'v) DataBlock" where
  "new_block k0 v0 = \<lparr>iUsedDataNum = 0, iNextHandle = -1, astKey = replicate MAP_BLOCK_DATA_NUM k0, astData = replicate MAP_BLOCK_DATA_NUM v0\<rparr>"

definition set_block :: "nat \<Rightarrow> ('k, 'v) DataBlock \<Rightarrow> ('k, 'v) DataBlock fmp \<Rightarrow> ('k, 'v) DataBlock fmp" where
  "set_block i b p = p\<lparr>m_pDataBuff := (m_pDataBuff p)[i := b]\<rparr>"

section \<open>Operations\<close>

definition InitMemPool :: "int \<Rightarrow> ('k, 'v) DataBlock \<Rightarrow> bool \<Rightarrow> int \<Rightarrow> int \<Rightarrow> int \<Rightarrow> ('k, 'v) mempool \<Rightarrow> int \<times> ('k, 'v) mempool" where
  "InitMemPool sz zero null MemSize NodeNum iClearFlag M =
     (let (r, p) = FMP_Init sz zero null MemSize NodeNum iClearFlag (m_objFMP M); M = M\<lparr>m_objFMP := p\<rparr>
      in if r \<noteq> 0 then (MEM_POOL_INIT_FAILED, M) else (0, M\<lparr>m_iFMPInitFlag := 1\<rparr>))"

definition VerifyMemPool :: "('k, 'v) mempool \<Rightarrow> int option" where
  "VerifyMemPool M =
     (if m_iFMPInitFlag M \<noteq> 1 then Some MEM_POOL_NOT_INITED
      else map_option (\<lambda>r. if r \<noteq> 0 then MEM_POOL_VERIFY_FAILED else 0) (FMP_Verify (m_objFMP M)))"

definition NewMap :: "'k \<Rightarrow> 'v \<Rightarrow> ('k, 'v) mempool \<Rightarrow> (int \<times> ('k, 'v) mempool) option" where
  "NewMap k0 v0 M =
     (if m_iFMPInitFlag M \<noteq> 1 then Some (MEM_POOL_NOT_INITED, M)
      else do {
        (node, p) \<leftarrow> AllocateNode (m_objFMP M);
        case node of
          None \<Rightarrow> Some (MEM_POOL_ALLOCATE_FAILED, M\<lparr>m_objFMP := p\<rparr>)
        | Some i \<Rightarrow>
            if i \<ge> length (m_pDataBuff p) then None
            else Some (int i, M\<lparr>m_objFMP := set_block i (new_block k0 v0) p, m_iMapHandle := int i, m_pHeadDataBlock := int i\<rparr>)
      })"

partial_function (option) release_chain :: "int \<Rightarrow> int \<Rightarrow> ('k, 'v) DataBlock fmp \<Rightarrow> (int \<times> ('k, 'v) DataBlock fmp) option" where
  "release_chain sz h p =
     (if h = -1 then Some (0, p)
      else do {
        b \<leftarrow> arr_get (m_pDataBuff p) h;
        (r, p) \<leftarrow> ReleaseNode sz (h * sz) p;
        if r \<noteq> 0 then Some (MEM_POOL_RELEASE_FAILED, p) else release_chain sz (iNextHandle b) p
      })"

definition handle_valid :: "int \<Rightarrow> ('k, 'v) mempool \<Rightarrow> bool" where
  "handle_valid h M \<longleftrightarrow> \<not> (h < 0 \<or> h \<ge> int (iNodeNum (m_objFMP M)))"

definition ReleaseMap :: "int \<Rightarrow> ('k, 'v) mempool \<Rightarrow> (int \<times> ('k, 'v) mempool) option" where
  "ReleaseMap sz M =
     (if m_iFMPInitFlag M \<noteq> 1 then Some (MEM_POOL_NOT_INITED, M)
      else if \<not> handle_valid (m_iMapHandle M) M then Some (INVALID_MAP_HANDLE, M)
      else do {
        (r, p) \<leftarrow> release_chain sz (m_pHeadDataBlock M) (m_objFMP M);
        let M = M\<lparr>m_objFMP := p\<rparr>;
        Some (if r \<noteq> 0 then (r, M) else (0, M\<lparr>m_iMapHandle := -1\<rparr>))
      })"

definition InitWithHandle :: "int \<Rightarrow> ('k, 'v) mempool \<Rightarrow> int \<times> ('k, 'v) mempool" where
  "InitWithHandle iMapHandle M =
     (if m_iFMPInitFlag M \<noteq> 1 then (MEM_POOL_NOT_INITED, M)
      else if \<not> handle_valid iMapHandle M then (INVALID_MAP_HANDLE, M)
      else (0, M\<lparr>m_iMapHandle := iMapHandle, m_pHeadDataBlock := iMapHandle\<rparr>))"

text \<open>The place of a key in a block, and in the chain from \<open>h\<close> on.\<close>

definition find_in :: "('k, 'v) DataBlock \<Rightarrow> 'k \<Rightarrow> nat option option" where
  "find_in b Key = (if iUsedDataNum b > length (astKey b) then None else Some (find (\<lambda>i. astKey b ! i = Key) [0..<iUsedDataNum b]))"

partial_function (option) find_key :: "('k, 'v) DataBlock list \<Rightarrow> 'k \<Rightarrow> int \<Rightarrow> (int \<times> nat) option option" where
  "find_key D Key h =
     (if h = -1 then Some None
      else do {
        b \<leftarrow> arr_get D h;
        f \<leftarrow> find_in b Key;
        case f of Some i \<Rightarrow> Some (Some (h, i)) | None \<Rightarrow> find_key D Key (iNextHandle b)
      })"

text \<open>\<open>GetNode\<close> gives the address of the value; here it is the value.\<close>

definition GetNode :: "'k \<Rightarrow> ('k, 'v) mempool \<Rightarrow> (int \<times> 'v option) option" where
  "GetNode Key M =
     (if m_iFMPInitFlag M \<noteq> 1 then Some (MEM_POOL_NOT_INITED, None)
      else if \<not> handle_valid (m_iMapHandle M) M then Some (INVALID_MAP_HANDLE, None)
      else do {
        f \<leftarrow> find_key (m_pDataBuff (m_objFMP M)) Key (m_pHeadDataBlock M);
        case f of
          None \<Rightarrow> Some (NODE_NOT_EXIST, None)
        | Some (h, i) \<Rightarrow> do { b \<leftarrow> arr_get (m_pDataBuff (m_objFMP M)) h; v \<leftarrow> nget (astData b) i; Some (0, Some v) }
      })"

partial_function (option) all_data :: "('k, 'v) DataBlock list \<Rightarrow> int \<Rightarrow> 'v list option" where
  "all_data D h =
     (if h = -1 then Some []
      else do {
        b \<leftarrow> arr_get D h;
        if iUsedDataNum b > length (astData b) then None else do { vs \<leftarrow> all_data D (iNextHandle b); Some (take (iUsedDataNum b) (astData b) @ vs) }
      })"

definition GetAllNode :: "('k, 'v) mempool \<Rightarrow> (int \<times> 'v list option) option" where
  "GetAllNode M =
     (if m_iFMPInitFlag M \<noteq> 1 then Some (MEM_POOL_NOT_INITED, None)
      else if \<not> handle_valid (m_iMapHandle M) M then Some (INVALID_MAP_HANDLE, None)
      else map_option (\<lambda>vs. (0, Some vs)) (all_data (m_pDataBuff (m_objFMP M)) (m_pHeadDataBlock M)))"

text \<open>The loop of \<open>InsertNode\<close>: \<open>Inl\<close> when the key is there, otherwise the last block of the chain.\<close>

partial_function (option) insert_scan :: "('k, 'v) DataBlock list \<Rightarrow> 'k \<Rightarrow> int \<Rightarrow> int \<Rightarrow> (unit + int) option" where
  "insert_scan D Key pLast h =
     (if h = -1 then Some (Inr pLast)
      else do {
        b \<leftarrow> arr_get D h;
        f \<leftarrow> find_in b Key;
        case f of Some i \<Rightarrow> Some (Inl ()) | None \<Rightarrow> insert_scan D Key h (iNextHandle b)
      })"

definition put_entry :: "nat \<Rightarrow> 'k \<Rightarrow> 'v \<Rightarrow> ('k, 'v) DataBlock fmp \<Rightarrow> ('k, 'v) DataBlock fmp option" where
  "put_entry i Key Val p = do {
     b \<leftarrow> nget (m_pDataBuff p) i;
     let iDataNum = iUsedDataNum b;
     if iDataNum \<ge> length (astKey b) \<or> iDataNum \<ge> length (astData b) then None
     else Some (set_block i (b\<lparr>astKey := (astKey b)[iDataNum := Key], astData := (astData b)[iDataNum := Val], iUsedDataNum := Suc iDataNum\<rparr>) p)
   }"

definition InsertNode :: "'k \<Rightarrow> 'v \<Rightarrow> 'k \<Rightarrow> 'v \<Rightarrow> ('k, 'v) mempool \<Rightarrow> (int \<times> ('k, 'v) mempool) option" where
  "InsertNode k0 v0 Key Val M =
     (if m_iFMPInitFlag M \<noteq> 1 then Some (MEM_POOL_NOT_INITED, M)
      else if \<not> handle_valid (m_iMapHandle M) M then Some (INVALID_MAP_HANDLE, M)
      else do {
        s \<leftarrow> insert_scan (m_pDataBuff (m_objFMP M)) Key (-1) (m_pHeadDataBlock M);
        case s of
          Inl _ \<Rightarrow> Some (NODE_EXIST, M)
        | Inr l \<Rightarrow> do {
            b \<leftarrow> arr_get (m_pDataBuff (m_objFMP M)) l;
            if iUsedDataNum b = MAP_BLOCK_DATA_NUM
            then do {
              (node, p) \<leftarrow> AllocateNode (m_objFMP M);
              case node of
                None \<Rightarrow> Some (MEM_POOL_ALLOCATE_FAILED, M\<lparr>m_objFMP := p\<rparr>)
              | Some i \<Rightarrow>
                  if i \<ge> length (m_pDataBuff p) then None
                  else do {
                    let p = set_block i (new_block k0 v0) p;
                    let p = set_block (nat l) ((m_pDataBuff p ! nat l)\<lparr>iNextHandle := int i\<rparr>) p;
                    p \<leftarrow> put_entry i Key Val p;
                    Some (0, M\<lparr>m_objFMP := p\<rparr>)
                  }
            }
            else do { p \<leftarrow> put_entry (nat l) Key Val (m_objFMP M); Some (0, M\<lparr>m_objFMP := p\<rparr>) }
          }
      })"

section \<open>Chains\<close>

fun mchain :: "('k, 'v) DataBlock list \<Rightarrow> int \<Rightarrow> nat list \<Rightarrow> bool" where
  "mchain D h [] \<longleftrightarrow> h = -1"
| "mchain D h (x # xs) \<longleftrightarrow> h = int x \<and> x < length D \<and> mchain D (iNextHandle (D ! x)) xs"

definition block_ok :: "('k, 'v) DataBlock \<Rightarrow> bool" where
  "block_ok b \<longleftrightarrow> iUsedDataNum b \<le> MAP_BLOCK_DATA_NUM \<and> length (astKey b) = MAP_BLOCK_DATA_NUM \<and> length (astData b) = MAP_BLOCK_DATA_NUM"

definition block_entries :: "('k, 'v) DataBlock \<Rightarrow> ('k \<times> 'v) list" where
  "block_entries b = zip (take (iUsedDataNum b) (astKey b)) (take (iUsedDataNum b) (astData b))"

text \<open>The entries of a map in the order of their insertion.\<close>

definition entries :: "('k, 'v) DataBlock list \<Rightarrow> nat list \<Rightarrow> ('k \<times> 'v) list" where
  "entries D xs = concat (map (\<lambda>x. block_entries (D ! x)) xs)"

definition map_chain :: "('k, 'v) DataBlock list \<Rightarrow> nat list \<Rightarrow> bool" where
  "map_chain D xs \<longleftrightarrow> xs \<noteq> [] \<and> mchain D (int (hd xs)) xs \<and> distinct xs \<and> (\<forall>x\<in>set xs. block_ok (D ! x))
     \<and> (\<forall>x\<in>set (butlast xs). iUsedDataNum (D ! x) = MAP_BLOCK_DATA_NUM) \<and> distinct (map fst (entries D xs))"

lemma mchain_range: "mchain D h xs \<Longrightarrow> x \<in> set xs \<Longrightarrow> x < length D"
  by (induction xs arbitrary: h) auto

lemma mchain_cong:
  "mchain D h xs \<Longrightarrow> length D' = length D \<Longrightarrow> (\<And>x. x \<in> set xs \<Longrightarrow> iNextHandle (D' ! x) = iNextHandle (D ! x)) \<Longrightarrow> mchain D' h xs"
  by (induction xs arbitrary: h) auto

lemma entries_cong: "(\<And>x. x \<in> set xs \<Longrightarrow> D' ! x = D ! x) \<Longrightarrow> entries D' xs = entries D xs"
  by (auto simp: entries_def intro!: arg_cong [where f = concat])

lemma map_chain_cong:
  assumes "map_chain D xs" "length D' = length D" "\<And>x. x \<in> set xs \<Longrightarrow> D' ! x = D ! x"
  shows "map_chain D' xs" "entries D' xs = entries D xs"
proof -
  show e: "entries D' xs = entries D xs" by (rule entries_cong) (rule assms(3))
  have m: "mchain D (int (hd xs)) xs" using assms(1) by (simp add: map_chain_def)
  have "mchain D' (int (hd xs)) xs" by (rule mchain_cong [OF m assms(2)]) (simp only: assms(3))
  moreover have "\<forall>x\<in>set xs. block_ok (D' ! x)" using assms(1) by (auto simp: map_chain_def assms(3))
  moreover have "\<forall>x\<in>set (butlast xs). iUsedDataNum (D' ! x) = MAP_BLOCK_DATA_NUM"
    using assms(1) by (auto simp: map_chain_def assms(3) [OF in_set_butlastD])
  moreover have "distinct (map fst (entries D' xs))" using assms(1) unfolding e by (simp add: map_chain_def)
  ultimately show "map_chain D' xs" using assms(1) unfolding map_chain_def by blast
qed

lemma entries_simps [simp]: "entries D [] = []" "entries D (x # xs) = block_entries (D ! x) @ entries D xs"
  "entries D (xs @ ys) = entries D xs @ entries D ys"
  by (simp_all add: entries_def)

lemma find_snoc: "find P (xs @ [x]) = (case find P xs of None \<Rightarrow> if P x then Some x else None | Some y \<Rightarrow> Some y)"
  by (induction xs) auto

lemma find_in_eq:
  assumes "block_ok b"
  shows "find_in b k = Some (find (\<lambda>i. astKey b ! i = k) [0..<iUsedDataNum b])"
    and "map_of (block_entries b) k = map_option ((!) (astData b)) (find (\<lambda>i. astKey b ! i = k) [0..<iUsedDataNum b])"
proof -
  have l: "iUsedDataNum b \<le> length (astKey b)" "iUsedDataNum b \<le> length (astData b)" using assms by (simp_all add: block_ok_def)
  then show "find_in b k = Some (find (\<lambda>i. astKey b ! i = k) [0..<iUsedDataNum b])" by (simp add: find_in_def)
  have "map_of (zip (take n (astKey b)) (take n (astData b))) k = map_option ((!) (astData b)) (find (\<lambda>i. astKey b ! i = k) [0..<n])"
    if "n \<le> iUsedDataNum b" for n
    using that
  proof (induction n)
    case (Suc n)
    then have n: "n < length (astKey b)" "n < length (astData b)" using l by simp_all
    have m: "map_of (zip (take n (astKey b)) (take n (astData b))) k = map_option ((!) (astData b)) (find (\<lambda>i. astKey b ! i = k) [0..<n])"
      using Suc.IH Suc.prems by simp
    show ?case using n
      by (cases "find (\<lambda>i. astKey b ! i = k) [0..<n]") (simp_all add: take_Suc_conv_app_nth find_snoc map_add_def m)
  qed simp
  then show "map_of (block_entries b) k = map_option ((!) (astData b)) (find (\<lambda>i. astKey b ! i = k) [0..<iUsedDataNum b])"
    by (simp add: block_entries_def)
qed

lemma find_key_eq:
  assumes "mchain D h xs" "\<forall>x\<in>set xs. block_ok (D ! x)"
  shows "\<exists>f. find_key D k h = Some f \<and> map_of (entries D xs) k = map_option (\<lambda>(h, i). astData (D ! nat h) ! i) f
    \<and> (\<forall>h i. f = Some (h, i) \<longrightarrow> 0 \<le> h \<and> nat h \<in> set xs \<and> i < iUsedDataNum (D ! nat h))"
  using assms
proof (induction xs arbitrary: h)
  case Nil
  then show ?case by (simp add: find_key.simps)
next
  case (Cons x xs)
  have g: "arr_get D h = Some (D ! x)" "h \<noteq> -1" using Cons.prems(1) by simp_all
  note f = find_in_eq [of "D ! x" k]
  show ?case
  proof (cases "find (\<lambda>i. astKey (D ! x) ! i = k) [0..<iUsedDataNum (D ! x)]")
    case None
    then show ?thesis using Cons.IH [of "iNextHandle (D ! x)"] Cons.prems f g by (subst find_key.simps) (auto simp: map_add_def)
  next
    case (Some i)
    then have "i < iUsedDataNum (D ! x)" by (auto simp: find_Some_iff)
    with Some show ?thesis using Cons.prems f g by (subst find_key.simps) (auto simp: map_add_def)
  qed
qed

lemma insert_scan_eq:
  assumes "mchain D h xs" "\<forall>x\<in>set xs. block_ok (D ! x)"
  shows "insert_scan D k l h = Some (if k \<in> fst ` set (entries D xs) then Inl () else Inr (if xs = [] then l else int (last xs)))"
  using assms
proof (induction xs arbitrary: h l)
  case Nil
  then show ?case by (simp add: insert_scan.simps)
next
  case (Cons x xs)
  have g: "arr_get D h = Some (D ! x)" "h \<noteq> -1" "h = int x" using Cons.prems(1) by simp_all
  note f = find_in_eq [of "D ! x" k]
  have m: "k \<in> fst ` set (block_entries (D ! x)) \<longleftrightarrow> find (\<lambda>i. astKey (D ! x) ! i = k) [0..<iUsedDataNum (D ! x)] \<noteq> None"
    using f(2) Cons.prems(2) map_of_eq_None_iff [of "block_entries (D ! x)" k] by (cases "find (\<lambda>i. astKey (D ! x) ! i = k) [0..<iUsedDataNum (D ! x)]") auto
  show ?case using Cons.IH [of "iNextHandle (D ! x)" h] Cons.prems f g m
    by (subst insert_scan.simps) (auto simp: image_Un split: option.splits)
qed

section \<open>The maps of a pool\<close>

text \<open>
  \<open>C\<close> gives for the handle of every map the blocks of its chain. Chains are disjoint and have exactly the blocks in use; \<open>fs\<close> are the free
  ones.
\<close>

definition chains_ok :: "('k, 'v) DataBlock list \<Rightarrow> (nat \<rightharpoonup> nat list) \<Rightarrow> bool" where
  "chains_ok D C \<longleftrightarrow> (\<forall>h xs. C h = Some xs \<longrightarrow> hd xs = h \<and> map_chain D xs)
     \<and> (\<forall>h h' xs ys. C h = Some xs \<and> C h' = Some ys \<and> h \<noteq> h' \<longrightarrow> set xs \<inter> set ys = {})"

definition mp_inv :: "nat \<Rightarrow> ('k, 'v) mempool \<Rightarrow> (nat \<rightharpoonup> nat list) \<Rightarrow> nat list \<Rightarrow> bool" where
  "mp_inv n M C fs \<longleftrightarrow> m_iFMPInitFlag M = 1 \<and> pool_rel n (m_objFMP M) fs \<and> chains_ok (m_pDataBuff (m_objFMP M)) C
     \<and> (\<Union>xs\<in>ran C. set xs) = {..<n - 1} - set fs"

abbreviation blocks :: "('k, 'v) mempool \<Rightarrow> ('k, 'v) DataBlock list" where
  "blocks M \<equiv> m_pDataBuff (m_objFMP M)"

definition current :: "('k, 'v) mempool \<Rightarrow> nat \<Rightarrow> bool" where
  "current M h \<longleftrightarrow> m_iMapHandle M = int h \<and> m_pHeadDataBlock M = int h"

definition content :: "('k, 'v) mempool \<Rightarrow> (nat \<rightharpoonup> nat list) \<Rightarrow> nat \<Rightarrow> ('k \<rightharpoonup> 'v) option" where
  "content M C h = map_option (\<lambda>xs. map_of (entries (blocks M) xs)) (C h)"

lemma mp_invD:
  assumes "mp_inv n M C fs" "C h = Some xs"
  shows "m_iFMPInitFlag M = 1" "pool_rel n (m_objFMP M) fs" "length (blocks M) = n" "iNodeNum (m_objFMP M) = n" "map_chain (blocks M) xs" "hd xs = h"
    "xs \<noteq> []" "mchain (blocks M) (int h) xs" "\<forall>x\<in>set xs. block_ok (blocks M ! x)" "handle_valid (int h) M" "set xs \<inter> set fs = {}" "set xs \<subseteq> {..<n - 1}"
proof -
  show m: "m_iFMPInitFlag M = 1" "pool_rel n (m_objFMP M) fs" "length (blocks M) = n" "iNodeNum (m_objFMP M) = n" "map_chain (blocks M) xs" "hd xs = h"
    using assms by (auto simp: mp_inv_def pool_rel_def chains_ok_def)
  then show c: "xs \<noteq> []" "mchain (blocks M) (int h) xs" "\<forall>x\<in>set xs. block_ok (blocks M ! x)" by (auto simp: map_chain_def)
  have "set xs \<subseteq> (\<Union>xs\<in>ran C. set xs)" using assms(2) by (auto simp: ran_def)
  then show u: "set xs \<inter> set fs = {}" "set xs \<subseteq> {..<n - 1}" using assms(1) by (auto simp: mp_inv_def)
  show "handle_valid (int h) M" using u(2) c(1) m(4,6) hd_in_set [OF c(1)] by (auto simp: handle_valid_def)
qed

lemma chains_ok_update:
  assumes "chains_ok D C" "length D' = length D" "\<And>y. y \<notin> set xs \<Longrightarrow> D' ! y = D ! y" "map_chain D' xs" "hd xs = h"
    and "\<And>h' ys. h' \<noteq> h \<Longrightarrow> C h' = Some ys \<Longrightarrow> set xs \<inter> set ys = {}"
  shows "chains_ok D' (C(h \<mapsto> xs))" "\<And>h' ys. h' \<noteq> h \<Longrightarrow> C h' = Some ys \<Longrightarrow> entries D' ys = entries D ys"
proof -
  have o: "map_chain D' ys \<and> entries D' ys = entries D ys \<and> hd ys = h'" if "h' \<noteq> h" "C h' = Some ys" for h' ys
  proof -
    have "map_chain D ys" "hd ys = h'" using assms(1) that(2) by (auto simp: chains_ok_def)
    moreover have "D' ! y = D ! y" if "y \<in> set ys" for y using assms(3) assms(6) [OF \<open>h' \<noteq> h\<close> \<open>C h' = Some ys\<close>] that by auto
    ultimately show ?thesis using map_chain_cong [of D ys D'] assms(2) by auto
  qed
  then show "\<And>h' ys. h' \<noteq> h \<Longrightarrow> C h' = Some ys \<Longrightarrow> entries D' ys = entries D ys" by blast
  have d: "set ys \<inter> set zs = {}" if "C h1 = Some ys" "C h2 = Some zs" "h1 \<noteq> h2" for h1 h2 ys zs
    using assms(1) that unfolding chains_ok_def by blast
  show "chains_ok D' (C(h \<mapsto> xs))"
    unfolding chains_ok_def
  proof (intro conjI allI impI)
    fix h' ys assume "(C(h \<mapsto> xs)) h' = Some ys"
    then show "hd ys = h'" "map_chain D' ys" using o [of h' ys] assms(4,5) by (auto split: if_splits)
  next
    fix h1 h2 ys zs assume "(C(h \<mapsto> xs)) h1 = Some ys \<and> (C(h \<mapsto> xs)) h2 = Some zs \<and> h1 \<noteq> h2"
    then show "set ys \<inter> set zs = {}" using assms(6) [of h1 ys] assms(6) [of h2 zs] d [of h1 ys h2 zs] by (auto split: if_splits)
  qed
qed

lemma GetNode_eq:
  assumes "mp_inv n M C fs" "C h = Some xs" "current M h"
  shows "GetNode k M = Some (case map_of (entries (blocks M) xs) k of None \<Rightarrow> (NODE_NOT_EXIST, None) | Some v \<Rightarrow> (0, Some v))"
proof -
  note I = mp_invD [OF assms(1,2)]
  obtain f where f: "find_key (blocks M) k (int h) = Some f" "map_of (entries (blocks M) xs) k = map_option (\<lambda>(h, i). astData (blocks M ! nat h) ! i) f"
    "\<forall>h i. f = Some (h, i) \<longrightarrow> 0 \<le> h \<and> nat h \<in> set xs \<and> i < iUsedDataNum (blocks M ! nat h)"
    using find_key_eq [OF I(8,9)] by blast
  show ?thesis
  proof (cases f)
    case None
    then show ?thesis using f I assms(3) by (simp add: GetNode_def current_def)
  next
    case (Some hi)
    obtain y i where hi: "hi = (y, i)" by (cases hi)
    then have y: "0 \<le> y" "nat y \<in> set xs" "i < iUsedDataNum (blocks M ! nat y)" using f(3) Some by auto
    then have "nat y < n" "block_ok (blocks M ! nat y)" using I(9,12) by auto
    then have "arr_get (blocks M) y = Some (blocks M ! nat y)" "i < length (astData (blocks M ! nat y))"
      using y I(3) by (auto simp: arr_get_def block_ok_def)
    then show ?thesis using f Some hi I assms(3) by (simp add: GetNode_def current_def nget_def)
  qed
qed

lemma all_data_eq:
  assumes "mchain D h xs" "\<forall>x\<in>set xs. block_ok (D ! x)"
  shows "all_data D h = Some (map snd (entries D xs))"
  using assms
proof (induction xs arbitrary: h)
  case Nil
  then show ?case by (simp add: all_data.simps)
next
  case (Cons x xs)
  have "arr_get D h = Some (D ! x)" "h \<noteq> -1" using Cons.prems(1) by simp_all
  moreover have "iUsedDataNum (D ! x) \<le> length (astData (D ! x))" "length (astKey (D ! x)) = length (astData (D ! x))"
    using Cons.prems(2) by (auto simp: block_ok_def)
  moreover from this have "map snd (block_entries (D ! x)) = take (iUsedDataNum (D ! x)) (astData (D ! x))" by (simp add: block_entries_def)
  ultimately show ?case using Cons.IH [of "iNextHandle (D ! x)"] Cons.prems by (subst all_data.simps) simp
qed

text \<open>\<open>GetAllNode\<close> gives the values in the order of their insertion.\<close>

lemma GetAllNode_eq:
  assumes "mp_inv n M C fs" "C h = Some xs" "current M h"
  shows "GetAllNode M = Some (0, Some (map snd (entries (blocks M) xs)))"
  using mp_invD [OF assms(1,2)] assms(3) all_data_eq [of "blocks M" "int h" xs] by (simp add: GetAllNode_def current_def)

section \<open>Inserting\<close>

definition grown :: "'k \<Rightarrow> 'v \<Rightarrow> ('k, 'v) DataBlock \<Rightarrow> ('k, 'v) DataBlock" where
  "grown k v b = b\<lparr>astKey := (astKey b)[iUsedDataNum b := k], astData := (astData b)[iUsedDataNum b := v], iUsedDataNum := Suc (iUsedDataNum b)\<rparr>"

lemma grown_block:
  assumes "block_ok b" "iUsedDataNum b < MAP_BLOCK_DATA_NUM"
  shows "block_ok (grown k v b)" "block_entries (grown k v b) = block_entries b @ [(k, v)]" "iNextHandle (grown k v b) = iNextHandle b"
  using assms by (simp_all add: grown_def block_ok_def block_entries_def take_Suc_conv_app_nth nth_list_update)

lemma put_entry_eq:
  assumes "i < length (m_pDataBuff p)" "block_ok (m_pDataBuff p ! i)" "iUsedDataNum (m_pDataBuff p ! i) < MAP_BLOCK_DATA_NUM"
  shows "put_entry i k v p = Some (set_block i (grown k v (m_pDataBuff p ! i)) p)"
  using assms by (simp add: put_entry_def nget_def grown_def block_ok_def Let_def)

lemma new_block_ok: "block_ok (new_block k0 v0)" "block_entries (new_block k0 v0) = []" "iUsedDataNum (new_block k0 v0) = 0" "iNextHandle (new_block k0 v0) = -1"
  by (simp_all add: new_block_def block_ok_def block_entries_def)

lemma pool_rel_set_block: "pool_rel n (set_block i b p) fs = pool_rel n p fs"
  by (simp add: pool_rel_def set_block_def)

text \<open>A chain whose last block grows, and one that gets a block.\<close>

lemma map_chain_grow:
  assumes "map_chain D (xs @ [l])" "iUsedDataNum (D ! l) < MAP_BLOCK_DATA_NUM" "k \<notin> fst ` set (entries D (xs @ [l]))"
  shows "map_chain (D[l := grown k v (D ! l)]) (xs @ [l]) \<and> entries (D[l := grown k v (D ! l)]) (xs @ [l]) = entries D (xs @ [l]) @ [(k, v)]"
proof -
  let ?D = "D[l := grown k v (D ! l)]"
  have c: "mchain D (int (hd (xs @ [l]))) (xs @ [l])" "distinct (xs @ [l])" "block_ok (D ! l)" "\<forall>x\<in>set xs. block_ok (D ! x)"
    "\<forall>x\<in>set xs. iUsedDataNum (D ! x) = MAP_BLOCK_DATA_NUM" "distinct (map fst (entries D (xs @ [l])))"
    using assms(1) by (auto simp: map_chain_def)
  have l: "l < length D" using mchain_range [OF c(1)] by simp
  note g = grown_block [OF c(3) assms(2), of k v]
  have o: "?D ! x = D ! x" if "x \<in> set xs" for x
  proof -
    have "l \<noteq> x" using c(2) that by auto
    then show ?thesis by simp
  qed
  have e: "entries ?D xs = entries D xs" by (rule entries_cong) (rule o)
  have "mchain ?D (int (hd (xs @ [l]))) (xs @ [l])" by (rule mchain_cong [OF c(1)]) (use o l g in auto)
  moreover have E: "entries ?D (xs @ [l]) = entries D (xs @ [l]) @ [(k, v)]" using e g l by simp
  moreover have "distinct (map fst (entries ?D (xs @ [l])))" unfolding E using c(6) assms(3) by (auto simp: image_iff)
  moreover have "\<forall>x\<in>set (xs @ [l]). block_ok (?D ! x)" "\<forall>x\<in>set (butlast (xs @ [l])). iUsedDataNum (?D ! x) = MAP_BLOCK_DATA_NUM"
    using c(4,5) o g l by auto
  ultimately show ?thesis using c(2) unfolding map_chain_def by blast
qed

lemma mchain_snoc:
  "mchain D h (xs @ [l]) \<Longrightarrow> l \<notin> set xs \<Longrightarrow> i < length D \<Longrightarrow> i \<notin> set (xs @ [l]) \<Longrightarrow> iNextHandle b = -1
    \<Longrightarrow> mchain (D[i := b, l := (D ! l)\<lparr>iNextHandle := int i\<rparr>]) h (xs @ [l, i])"
  by (induction xs arbitrary: h) auto

lemma map_chain_link:
  assumes "map_chain D (xs @ [l])" "iUsedDataNum (D ! l) = MAP_BLOCK_DATA_NUM" "i < length D" "i \<notin> set (xs @ [l])"
    and "D' = D[i := new_block k0 v0, l := (D ! l)\<lparr>iNextHandle := int i\<rparr>]"
  shows "map_chain D' (xs @ [l, i]) \<and> entries D' (xs @ [l, i]) = entries D (xs @ [l])"
proof -
  have c: "mchain D (int (hd (xs @ [l]))) (xs @ [l])" "distinct (xs @ [l])" "\<forall>x\<in>set (xs @ [l]). block_ok (D ! x)"
    "\<forall>x\<in>set xs. iUsedDataNum (D ! x) = MAP_BLOCK_DATA_NUM" "distinct (map fst (entries D (xs @ [l])))"
    using assms(1) by (auto simp: map_chain_def)
  have l: "l < length D" using mchain_range [OF c(1)] by simp
  have o: "D' ! x = D ! x" if "x \<in> set xs" for x
  proof -
    have "l \<noteq> x" "i \<noteq> x" using c(2) assms(4) that by auto
    then show ?thesis by (simp add: assms(5))
  qed
  have n: "D' ! i = new_block k0 v0" "D' ! l = (D ! l)\<lparr>iNextHandle := int i\<rparr>" using assms(3,4,5) l by auto
  have "entries D' xs = entries D xs" by (rule entries_cong) (rule o)
  then have E: "entries D' (xs @ [l, i]) = entries D (xs @ [l])" by (simp add: n new_block_ok block_entries_def)
  moreover have "mchain D' (int (hd (xs @ [l, i]))) (xs @ [l, i])"
    unfolding assms(5) using mchain_snoc [OF c(1) _ assms(3,4) new_block_ok(4)] c(2) by (cases xs) auto
  moreover have "\<forall>x\<in>set (xs @ [l, i]). block_ok (D' ! x)"
    using c(3) o n new_block_ok(1) [of k0 v0] by (auto simp: block_ok_def)
  moreover have "\<forall>x\<in>set (butlast (xs @ [l, i])). iUsedDataNum (D' ! x) = MAP_BLOCK_DATA_NUM"
    using c(4) o n assms(2) by (auto simp: butlast_append)
  moreover have "distinct (map fst (entries D' (xs @ [l, i])))" unfolding E by (rule c(5))
  ultimately show ?thesis using c(2) assms(4) unfolding map_chain_def by auto
qed

lemma entries_full:
  assumes "map_chain D (xs @ [l])"
  shows "length (entries D (xs @ [l])) = MAP_BLOCK_DATA_NUM * length (xs @ [l]) \<longleftrightarrow> iUsedDataNum (D ! l) = MAP_BLOCK_DATA_NUM"
proof -
  have b: "length (block_entries (D ! x)) = iUsedDataNum (D ! x)" if "x \<in> set (xs @ [l])" for x
    using assms that by (auto simp: map_chain_def block_entries_def block_ok_def)
  have "length (entries D ys) = MAP_BLOCK_DATA_NUM * length ys" if "set ys \<subseteq> set xs" for ys
    using that
  proof (induction ys)
    case (Cons y ys)
    then show ?case using b [of y] assms by (auto simp: map_chain_def)
  qed simp
  then show ?thesis using b [of l] by simp
qed

text \<open>What a map gets when the invariant is kept and only its own blocks and new ones change.\<close>

lemma mp_inv_update:
  assumes "mp_inv n M C fs" "C h = Some xs" "pool_rel n p fs'" "set xs \<subseteq> set xs'" "set xs' - set xs = set fs - set fs'" "set fs' \<subseteq> set fs"
    and "length (m_pDataBuff p) = n" "\<And>y. y \<notin> set xs' \<Longrightarrow> m_pDataBuff p ! y = blocks M ! y" "map_chain (m_pDataBuff p) xs'" "hd xs' = h"
  shows "mp_inv n (M\<lparr>m_objFMP := p\<rparr>) (C(h \<mapsto> xs')) fs'"
    and "content (M\<lparr>m_objFMP := p\<rparr>) (C(h \<mapsto> xs')) = (content M C)(h \<mapsto> map_of (entries (m_pDataBuff p) xs'))"
proof -
  note I = mp_invD [OF assms(1,2)]
  have u: "(\<Union>xs\<in>ran C. set xs) = {..<n - 1} - set fs" and c: "chains_ok (blocks M) C" using assms(1) by (simp_all add: mp_inv_def)
  have d: "set xs' \<inter> set ys = {}" if "h' \<noteq> h" "C h' = Some ys" for h' ys
  proof -
    have "set xs \<inter> set ys = {}" using c that assms(2) unfolding chains_ok_def by metis
    moreover have "set ys \<inter> set fs = {}" using u that(2) by (auto simp: ran_def)
    ultimately show ?thesis using assms(5) by blast
  qed
  have len: "length (m_pDataBuff p) = length (blocks M)" using assms(7) I(3) by simp
  have k: "chains_ok (m_pDataBuff p) (C(h \<mapsto> xs'))" using chains_ok_update(1) [OF c len assms(8,9,10)] d by blast
  have D: "set fs \<subseteq> {..<n - 1}" using I(2) by (simp add: pool_rel_def)
  have "(\<Union>xs\<in>ran (C(h \<mapsto> xs')). set xs) = (\<Union>xs\<in>ran C. set xs) \<union> set xs'"
  proof -
    have "(\<Union>ys\<in>ran (C(h \<mapsto> xs')). set ys) = set xs' \<union> (\<Union>h'\<in>dom C - {h}. set (the (C h')))"
      by (auto simp: ran_def dom_def split: if_splits)
    moreover have "(\<Union>ys\<in>ran C. set ys) = set xs \<union> (\<Union>h'\<in>dom C - {h}. set (the (C h')))"
      using assms(2) by (auto simp: ran_def dom_def)
    ultimately show ?thesis using assms(4) by auto
  qed
  also have "\<dots> = {..<n - 1} - set fs'" using u assms(4-6) D I(11,12) by auto
  finally show "mp_inv n (M\<lparr>m_objFMP := p\<rparr>) (C(h \<mapsto> xs')) fs'"
    using I(1) assms(3) k by (simp add: mp_inv_def)
  show "content (M\<lparr>m_objFMP := p\<rparr>) (C(h \<mapsto> xs')) = (content M C)(h \<mapsto> map_of (entries (m_pDataBuff p) xs'))"
  proof
    fix g
    show "content (M\<lparr>m_objFMP := p\<rparr>) (C(h \<mapsto> xs')) g = ((content M C)(h \<mapsto> map_of (entries (m_pDataBuff p) xs'))) g"
    proof (cases "C g")
      case (Some ys)
      then have "g \<noteq> h \<Longrightarrow> entries (m_pDataBuff p) ys = entries (blocks M) ys"
        using chains_ok_update(2) [of "blocks M" C "m_pDataBuff p" xs' h g ys] c len assms(8-10) d by blast
      with Some show ?thesis by (simp add: content_def)
    qed (simp add: content_def)
  qed
qed

lemma map_of_snoc: "k \<notin> fst ` set es \<Longrightarrow> map_of (es @ [(k, v)]) = (map_of es)(k \<mapsto> v)"
  using map_of_eq_None_iff [of es k] by (auto simp: map_add_def fun_eq_iff split: option.splits)

lemma current_fmp [simp]: "current (M\<lparr>m_objFMP := p\<rparr>) h = current M h"
  by (simp add: current_def)

lemma InsertNode_grow:
  assumes "mp_inv n M C fs" "C h = Some (xs @ [l])" "current M h" "k \<notin> fst ` set (entries (blocks M) (xs @ [l]))"
    and "iUsedDataNum (blocks M ! l) \<noteq> MAP_BLOCK_DATA_NUM"
  shows "\<exists>M'. InsertNode k0 v0 k v M = Some (0, M') \<and> current M' h \<and> mp_inv n M' C fs
    \<and> content M' C = (content M C)(h \<mapsto> (map_of (entries (blocks M) (xs @ [l])))(k \<mapsto> v))"
proof -
  note I = mp_invD [OF assms(1,2)]
  let ?p = "set_block l (grown k v (blocks M ! l)) (m_objFMP M)"
  have l: "l < length (blocks M)" "block_ok (blocks M ! l)" using I(9) mchain_range [OF I(8)] by auto
  then have u: "iUsedDataNum (blocks M ! l) < MAP_BLOCK_DATA_NUM" using assms(5) by (auto simp: block_ok_def)
  note g = map_chain_grow [OF I(5) u assms(4), of v]
  have D: "m_pDataBuff ?p = (blocks M)[l := grown k v (blocks M ! l)]" by (simp add: set_block_def)
  have "InsertNode k0 v0 k v M = Some (0, M\<lparr>m_objFMP := ?p\<rparr>)"
    using I(1,10) assms(3-5) insert_scan_eq [OF I(8,9), of k "-1"] l put_entry_eq [of l "m_objFMP M" k v] u
    by (simp add: InsertNode_def current_def arr_get_def)
  moreover have "pool_rel n ?p fs" using I(2) by (simp add: pool_rel_set_block)
  note U = mp_inv_update [OF assms(1,2) this subset_refl _ subset_refl]
  have "mp_inv n (M\<lparr>m_objFMP := ?p\<rparr>) (C(h \<mapsto> xs @ [l])) fs"
    and "content (M\<lparr>m_objFMP := ?p\<rparr>) (C(h \<mapsto> xs @ [l])) = (content M C)(h \<mapsto> map_of (entries (m_pDataBuff ?p) (xs @ [l])))"
    using g I(3,6) by (intro U; simp add: D)+
  moreover have "C(h \<mapsto> xs @ [l]) = C" using assms(2) by auto
  ultimately show ?thesis using assms(3) g map_of_snoc [OF assms(4), of v]
    by (intro exI [of _ "M\<lparr>m_objFMP := ?p\<rparr>"]) (simp del: entries_simps map_of_append add: D)
qed

lemma InsertNode_link:
  assumes "mp_inv n M C (i # fs)" "fs \<noteq> []" "C h = Some (xs @ [l])" "current M h" "k \<notin> fst ` set (entries (blocks M) (xs @ [l]))"
    and "iUsedDataNum (blocks M ! l) = MAP_BLOCK_DATA_NUM"
  shows "\<exists>M'. InsertNode k0 v0 k v M = Some (0, M') \<and> current M' h \<and> mp_inv n M' (C(h \<mapsto> xs @ [l, i])) fs
    \<and> content M' (C(h \<mapsto> xs @ [l, i])) = (content M C)(h \<mapsto> (map_of (entries (blocks M) (xs @ [l])))(k \<mapsto> v))"
proof -
  note I = mp_invD [OF assms(1,3)]
  obtain p where p: "AllocateNode (m_objFMP M) = Some (Some i, p)" "pool_rel n p fs" "m_pDataBuff p = blocks M" "i < n - 1"
    using AllocateNode_rel [OF I(2) assms(2)] by blast
  define D where "D = (blocks M)[i := new_block k0 v0, l := (blocks M ! l)\<lparr>iNextHandle := int i\<rparr>]"
  have l: "l < length (blocks M)" "block_ok (blocks M ! l)" using I(9) mchain_range [OF I(8)] by auto
  have i: "i < length (blocks M)" "i \<notin> set (xs @ [l])" "l \<noteq> i" using p(4) I(3,11) by auto
  have L: "map_chain D (xs @ [l, i])" "entries D (xs @ [l, i]) = entries (blocks M) (xs @ [l])"
    using map_chain_link [OF I(5) assms(6) i(1,2) D_def] by simp_all
  have b: "D ! i = new_block k0 v0" "length D = n" using i l I(3) by (simp_all add: D_def)
  define p2 where "p2 = set_block l ((blocks M ! l)\<lparr>iNextHandle := int i\<rparr>) (set_block i (new_block k0 v0) p)"
  have p2: "m_pDataBuff p2 = D" "pool_rel n p2 fs" using p(2,3) by (simp_all add: p2_def D_def set_block_def pool_rel_def)
  let ?p = "set_block i (grown k v (new_block k0 v0)) p2"
  have P: "m_pDataBuff ?p = D[i := grown k v (D ! i)]" using p2 b by (simp add: set_block_def)
  have "put_entry i k v p2 = Some ?p"
    using put_entry_eq [of i p2 k v] p2 b i I(3) new_block_ok [of k0 v0] by (simp add: MAP_BLOCK_DATA_NUM_def)
  moreover have "m_pDataBuff (set_block i (new_block k0 v0) p) ! l = blocks M ! l" using i(3) p(3) by (simp add: set_block_def)
  ultimately have R: "InsertNode k0 v0 k v M = Some (0, M\<lparr>m_objFMP := ?p\<rparr>)"
    using I(1,10) assms(4-6) insert_scan_eq [OF I(8,9), of k "-1"] l i p(1,3)
    by (simp add: InsertNode_def current_def arr_get_def p2_def)
  have G: "map_chain (m_pDataBuff ?p) (xs @ [l, i])" "entries (m_pDataBuff ?p) (xs @ [l, i]) = entries (blocks M) (xs @ [l]) @ [(k, v)]"
    using map_chain_grow [of D "xs @ [l]" i k v] L assms(5) b new_block_ok(3) [of k0 v0]
    by (simp_all del: entries_simps add: P MAP_BLOCK_DATA_NUM_def)
  have O: "m_pDataBuff ?p ! y = blocks M ! y" if "y \<notin> set (xs @ [l, i])" for y using that by (auto simp: P D_def)
  have "set (xs @ [l, i]) - set (xs @ [l]) = set (i # fs) - set fs" using i I(2) by (auto simp: pool_rel_def)
  moreover have "hd (xs @ [l, i]) = h" using I(6) by (cases xs) simp_all
  moreover have "pool_rel n ?p fs" "length (m_pDataBuff ?p) = n" using p2 b P by (simp_all add: pool_rel_set_block)
  moreover have "set (xs @ [l]) \<subseteq> set (xs @ [l, i])" "set fs \<subseteq> set (i # fs)" by auto
  ultimately have U: "mp_inv n (M\<lparr>m_objFMP := ?p\<rparr>) (C(h \<mapsto> xs @ [l, i])) fs"
    "content (M\<lparr>m_objFMP := ?p\<rparr>) (C(h \<mapsto> xs @ [l, i])) = (content M C)(h \<mapsto> map_of (entries (m_pDataBuff ?p) (xs @ [l, i])))"
    using mp_inv_update [OF assms(1,3) _ _ _ _ _ O G(1)] by blast+
  then show ?thesis using R assms(4) G(2) map_of_snoc [OF assms(5), of v] 
    by (intro exI [of _ "M\<lparr>m_objFMP := ?p\<rparr>"]) (simp del: entries_simps map_of_append)
qed

lemma InsertNode_full:
  assumes "mp_inv n M C [i]" "C h = Some (xs @ [l])" "current M h" "k \<notin> fst ` set (entries (blocks M) (xs @ [l]))"
    and "iUsedDataNum (blocks M ! l) = MAP_BLOCK_DATA_NUM"
  shows "InsertNode k0 v0 k v M = Some (MEM_POOL_ALLOCATE_FAILED, M)"
proof -
  note I = mp_invD [OF assms(1,2)]
  have "l < length (blocks M)" using mchain_range [OF I(8)] by auto
  then show ?thesis using I(1,10) assms(3-5) insert_scan_eq [OF I(8,9), of k "-1"] AllocateNode_last [OF I(2)]
    by (simp add: InsertNode_def current_def arr_get_def)
qed

lemma InsertNode_exists:
  assumes "mp_inv n M C fs" "C h = Some xs" "current M h" "k \<in> fst ` set (entries (blocks M) xs)"
  shows "InsertNode k0 v0 k v M = Some (NODE_EXIST, M)"
  using mp_invD [OF assms(1,2)] assms(3,4) insert_scan_eq [of "blocks M" "int h" xs k "-1"] by (simp add: InsertNode_def current_def)

text \<open>
  C21: \<open>InsertNode\<close> on the current map \<open>h\<close> of a pool. A key that is there is refused and nothing changes. A new key is refused only when all blocks of the
  map are full and one free block is left; then nothing changes either. Otherwise the map has the new entry, and every other map of the pool has the
  entries it had.
\<close>
theorem InsertNode_spec:
  assumes "mp_inv n M C fs" "C h = Some xs" "current M h"
  shows "\<exists>r M' C' fs'. InsertNode k0 v0 k v M = Some (r, M') \<and> current M' h \<and> mp_inv n M' C' fs'
    \<and> (r, content M' C') =
        (let m = map_of (entries (blocks M) xs)
         in if k \<in> dom m then (NODE_EXIST, content M C)
            else if length (entries (blocks M) xs) = MAP_BLOCK_DATA_NUM * length xs \<and> length fs = 1 then (MEM_POOL_ALLOCATE_FAILED, content M C)
            else (0, (content M C)(h \<mapsto> m(k \<mapsto> v))))"
proof -
  note I = mp_invD [OF assms(1,2)]
  obtain ys l where xs: "xs = ys @ [l]" using I(7) by (cases xs rule: rev_cases) auto
  have d: "dom (map_of (entries (blocks M) xs)) = fst ` set (entries (blocks M) xs)" by (rule dom_map_of_conv_image_fst)
  note f = entries_full [OF I(5) [unfolded xs], folded xs]
  obtain i fs' where fs: "fs = i # fs'" using I(2) by (cases fs) (auto simp: pool_rel_def)
  consider "k \<in> fst ` set (entries (blocks M) xs)" | "k \<notin> fst ` set (entries (blocks M) xs)" "iUsedDataNum (blocks M ! l) \<noteq> MAP_BLOCK_DATA_NUM"
    | "k \<notin> fst ` set (entries (blocks M) xs)" "iUsedDataNum (blocks M ! l) = MAP_BLOCK_DATA_NUM" "fs' = []"
    | "k \<notin> fst ` set (entries (blocks M) xs)" "iUsedDataNum (blocks M ! l) = MAP_BLOCK_DATA_NUM" "fs' \<noteq> []" by blast
  then show ?thesis
  proof cases
    case 1
    then show ?thesis using InsertNode_exists [OF assms 1] assms(1,3) by (auto simp: d)
  next
    case 2
    then show ?thesis using InsertNode_grow [OF assms(1) assms(2,3) [unfolded xs], folded xs, OF 2, of k0 v0 v] f by (auto simp: d Let_def)
  next
    case 3
    then show ?thesis
      using InsertNode_full [OF assms(1) [unfolded fs 3(3)] assms(2,3) [unfolded xs], folded xs, OF 3(1,2), of k0 v0 v] f fs assms(1,3)
      by (auto simp: d Let_def)
  next
    case 4
    then show ?thesis
      using InsertNode_link [OF assms(1) [unfolded fs] 4(3) assms(2,3) [unfolded xs], folded xs, OF 4(1,2), of k0 v0 v] f fs
      by (auto simp: d Let_def)
  qed
qed

section \<open>New maps and released ones\<close>

lemma InitMemPool_inv:
  assumes "0 < sz" "2 \<le> n" "20 + 4 * int n + sz * int n + (int n + 7) div 8 < 2 ^ 31"
    and "20 + 4 * int n + sz * int n + (int n + 7) div 8 \<le> mem"
  shows "\<exists>M'. InitMemPool sz z False mem (int n) 1 M = (0, M') \<and> mp_inv n M' Map.empty [0..<n - 1]"
proof -
  obtain p where "FMP_Init sz z False mem (int n) 1 (m_objFMP M) = (0, p)" "pool_rel n p [0..<n - 1]"
    using FMP_Init_rel [OF assms, of z "m_objFMP M"] by (cases "FMP_Init sz z False mem (int n) 1 (m_objFMP M)") auto
  then show ?thesis by (auto simp: InitMemPool_def mp_inv_def chains_ok_def)
qed

lemma NewMap_last: "mp_inv n M C [i] \<Longrightarrow> NewMap k0 v0 M = Some (MEM_POOL_ALLOCATE_FAILED, M)"
  using AllocateNode_last [of n "m_objFMP M" i] by (simp add: NewMap_def mp_inv_def)

lemma NewMap_eq:
  assumes "mp_inv n M C (i # fs)" "fs \<noteq> []"
  shows "\<exists>M'. NewMap k0 v0 M = Some (int i, M') \<and> current M' i \<and> mp_inv n M' (C(i \<mapsto> [i])) fs \<and> C i = None
    \<and> content M' (C(i \<mapsto> [i])) = (content M C)(i \<mapsto> Map.empty)"
proof -
  have I: "pool_rel n (m_objFMP M) (i # fs)" "m_iFMPInitFlag M = 1" "chains_ok (blocks M) C" "(\<Union>xs\<in>ran C. set xs) = {..<n - 1} - set (i # fs)"
    using assms(1) by (simp_all add: mp_inv_def)
  obtain p where p: "AllocateNode (m_objFMP M) = Some (Some i, p)" "pool_rel n p fs" "m_pDataBuff p = blocks M" "i < n - 1"
    using AllocateNode_rel [OF I(1) assms(2)] by blast
  have l: "length (blocks M) = n" using I(1) by (simp add: pool_rel_def)
  let ?D = "(blocks M)[i := new_block k0 v0]"
  define M' where "M' = M\<lparr>m_objFMP := set_block i (new_block k0 v0) p, m_iMapHandle := int i, m_pHeadDataBlock := int i\<rparr>"
  have M': "blocks M' = ?D" by (simp add: M'_def set_block_def p(3))
  have u: "i \<notin> set ys" if "C h' = Some ys" for h' ys using I(4) that by (auto simp: ran_def)
  have hd: "ys \<noteq> []" "hd ys = h'" if "C h' = Some ys" for h' ys using I(3) that by (auto simp: chains_ok_def map_chain_def)
  have c: "C i = None" using u [of i] hd [of i] by (cases "C i") auto
  have D: "\<And>y. y \<notin> set [i] \<Longrightarrow> ?D ! y = blocks M ! y" by auto
  have m: "map_chain ?D [i]" using p(4) l new_block_ok [of k0 v0] by (simp add: map_chain_def)
  have U: "chains_ok ?D (C(i \<mapsto> [i]))" "\<And>h' ys. h' \<noteq> i \<Longrightarrow> C h' = Some ys \<Longrightarrow> entries ?D ys = entries (blocks M) ys"
    using chains_ok_update [OF I(3) _ D m] u by auto
  have "i < n" using p(4) by simp
  then have "NewMap k0 v0 M = Some (int i, M')" using I(2) p(1,3) l by (simp add: NewMap_def M'_def)
  moreover have "mp_inv n M' (C(i \<mapsto> [i])) fs"
  proof -
    have "(\<Union>xs\<in>ran (C(i \<mapsto> [i])). set xs) = {..<n - 1} - set fs" using I(1,4) c p(4) by (auto simp: pool_rel_def)
    then show ?thesis using I(2) p(2) U(1) by (simp add: mp_inv_def M' ) (simp add: M'_def pool_rel_set_block)
  qed
  moreover have "content M' (C(i \<mapsto> [i])) g = ((content M C)(i \<mapsto> Map.empty)) g" for g
    using U(2) [of g] p(4) l new_block_ok [of k0 v0] by (cases "C g") (auto simp: content_def M')
  ultimately show ?thesis using c by (auto simp: current_def M'_def)
qed

lemma release_chain_eq:
  assumes "pool_rel n p fs" "mchain (m_pDataBuff p) h xs" "distinct xs" "set xs \<inter> set fs = {}" "set xs \<subseteq> {..<n - 1}" "0 < sz"
  shows "\<exists>p'. release_chain sz h p = Some (0, p') \<and> pool_rel n p' (fs @ xs) \<and> m_pDataBuff p' = m_pDataBuff p"
  using assms
proof (induction xs arbitrary: h p fs)
  case Nil
  then show ?case by (simp add: release_chain.simps)
next
  case (Cons x xs)
  have x: "h = int x" "arr_get (m_pDataBuff p) h = Some (m_pDataBuff p ! x)" "h \<noteq> -1" "x < n - 1" "x \<notin> set fs" using Cons.prems(2,4,5) by simp_all
  moreover have "x < n" using x(4) by simp
  ultimately obtain p1 where p1: "ReleaseNode sz (h * sz) p = Some (0, p1)" "m_pDataBuff p1 = m_pDataBuff p" "pool_rel n p1 (fs @ [x])"
    using ReleaseNode_rel [OF Cons.prems(1,6), of x] by auto
  obtain p2 where "release_chain sz (iNextHandle (m_pDataBuff p ! x)) p1 = Some (0, p2)" "pool_rel n p2 (fs @ x # xs)" "m_pDataBuff p2 = m_pDataBuff p1"
    using Cons.IH [OF p1(3), of "iNextHandle (m_pDataBuff p ! x)"] Cons.prems p1(2) by auto
  then show ?case using x p1 by (subst release_chain.simps) simp
qed

text \<open>
  C22: \<open>ReleaseMap\<close> ends and succeeds on the current map of a pool. Its blocks become free, in the order of the chain, the handle is no longer a map,
  and all other maps have the entries they had.
\<close>
theorem ReleaseMap_spec:
  assumes "mp_inv n M C fs" "C h = Some xs" "current M h" "0 < sz"
  shows "\<exists>M'. ReleaseMap sz M = Some (0, M') \<and> m_iMapHandle M' = -1 \<and> mp_inv n M' (C(h := None)) (fs @ xs)
    \<and> content M' (C(h := None)) = (content M C)(h := None)"
proof -
  note I = mp_invD [OF assms(1,2)]
  have u: "(\<Union>xs\<in>ran C. set xs) = {..<n - 1} - set fs" and c: "chains_ok (blocks M) C" using assms(1) by (simp_all add: mp_inv_def)
  have "distinct xs" using I(5) by (simp add: map_chain_def)
  then obtain p where p: "release_chain sz (int h) (m_objFMP M) = Some (0, p)" "pool_rel n p (fs @ xs)" "m_pDataBuff p = blocks M"
    using release_chain_eq [OF I(2,8) _ I(11,12) assms(4)] by blast
  let ?M = "M\<lparr>m_objFMP := p, m_iMapHandle := -1\<rparr>"
  have "ReleaseMap sz M = Some (0, ?M)" using I(1,10) assms(3) p(1) by (simp add: ReleaseMap_def current_def)
  moreover have "(\<Union>ys\<in>ran (C(h := None)). set ys) = (\<Union>ys\<in>ran C. set ys) - set xs"
  proof -
    have "set xs \<inter> set ys = {}" if "C g = Some ys" "g \<noteq> h" for g ys using c that assms(2) unfolding chains_ok_def by metis
    then show ?thesis using assms(2) by (auto simp: ran_def split: if_splits) (metis option.inject)+
  qed
  then have "mp_inv n ?M (C(h := None)) (fs @ xs)" using I(1) c u p by (auto simp: mp_inv_def chains_ok_def)
  moreover have "content ?M (C(h := None)) = (content M C)(h := None)" using p(3) by (auto simp: content_def)
  ultimately show ?thesis by auto
qed

definition maps_example :: "(nat, nat) mempool" where
  "maps_example = \<lparr>m_objFMP = \<lparr>iMemSize = 0, iNodeNum = 0, iUsedNodeNum = 0, iFreeHead = 0, iFreeTail = 0, m_piFreeList = [], m_pucUsedBit = [],
     m_pDataBuff = [], m_iGetNextPos = 0\<rparr>, m_iMapHandle = -1, m_pHeadDataBlock = -1, m_iFMPInitFlag = 0\<rparr>"

text \<open>A pool of five blocks after two maps were made; the second is the current one.\<close>

lemma maps_example_inv:
  "\<exists>M1 M2. NewMap 0 0 (snd (InitMemPool 808 (new_block 0 0) False 5000 5 1 maps_example)) = Some (0, M1) \<and> NewMap 0 0 M1 = Some (1, M2)
    \<and> current M2 1 \<and> mp_inv 5 M2 [0 \<mapsto> [0], 1 \<mapsto> [1]] [2, 3]
    \<and> content M2 [0 \<mapsto> [0], 1 \<mapsto> [1]] = [0 \<mapsto> Map.empty, 1 \<mapsto> Map.empty]"
proof -
  have u: "[0..<5 - 1] = [0::nat, 1, 2, 3]" by code_simp
  obtain M0 where M0: "InitMemPool 808 (new_block 0 0) False 5000 5 1 maps_example = (0, M0)" "mp_inv 5 M0 Map.empty [0, 1, 2, 3]"
    using InitMemPool_inv [of 808 5 5000 "new_block 0 0" maps_example] unfolding u by auto
  obtain M1 where M1: "NewMap 0 0 M0 = Some (0, M1)" "mp_inv 5 M1 [0 \<mapsto> [0]] [1, 2, 3]" "content M1 [0 \<mapsto> [0]] = (content M0 Map.empty)(0 \<mapsto> Map.empty)"
    using NewMap_eq [OF M0(2), of 0 0] by auto
  obtain M2 where "NewMap 0 0 M1 = Some (1, M2)" "current M2 1" "mp_inv 5 M2 [0 \<mapsto> [0], 1 \<mapsto> [1]] [2, 3]"
    "content M2 [0 \<mapsto> [0], 1 \<mapsto> [1]] = (content M1 [0 \<mapsto> [0]])(1 \<mapsto> Map.empty)"
    using NewMap_eq [OF M1(2), of 0 0] by auto
  moreover have "content M0 Map.empty = Map.empty" by (simp add: content_def fun_eq_iff)
  ultimately show ?thesis using M0(1) M1(1,3) by auto
qed

theorem InsertNode_spec_witness:
  "\<exists>M2 M3 C. NewMap 0 0 (the (map_option snd (NewMap 0 0 (snd (InitMemPool 808 (new_block 0 0) False 5000 5 1 maps_example))))) = Some (1, M2)
    \<and> InsertNode 0 0 7 42 M2 = Some (0, M3) \<and> content M3 C = [0 \<mapsto> Map.empty, 1 \<mapsto> [7 \<mapsto> 42]]"
proof -
  obtain M1 M2 where M: "NewMap 0 0 (snd (InitMemPool 808 (new_block 0 0) False 5000 5 1 maps_example)) = Some (0, M1)" "NewMap 0 0 M1 = Some (1, M2)"
    "current M2 1" "mp_inv 5 M2 [0 \<mapsto> [0], 1 \<mapsto> [1]] [2, 3]" "content M2 [0 \<mapsto> [0], 1 \<mapsto> [1]] = [0 \<mapsto> Map.empty, 1 \<mapsto> Map.empty]"
    using maps_example_inv by blast
  have "content M2 [0 \<mapsto> [0], 1 \<mapsto> [1]] 1 = Some (map_of (entries (blocks M2) [1]))" by (simp add: content_def)
  then have "map_of (entries (blocks M2) [1]) = Map.empty" unfolding M(5) by simp
  then show ?thesis using InsertNode_spec [OF M(4) _ M(3), of "[1]" 0 0 7 42] M(1,2,5) by auto
qed

theorem ReleaseMap_spec_witness:
  "\<exists>M2 M3. NewMap 0 0 (the (map_option snd (NewMap 0 0 (snd (InitMemPool 808 (new_block 0 0) False 5000 5 1 maps_example))))) = Some (1, M2)
    \<and> ReleaseMap 808 M2 = Some (0, M3) \<and> content M3 [0 \<mapsto> [0]] = [0 \<mapsto> Map.empty] \<and> mp_inv 5 M3 [0 \<mapsto> [0]] [2, 3, 1]"
proof -
  obtain M1 M2 where M: "NewMap 0 0 (snd (InitMemPool 808 (new_block 0 0) False 5000 5 1 maps_example)) = Some (0, M1)" "NewMap 0 0 M1 = Some (1, M2)"
    "current M2 1" "mp_inv 5 M2 [0 \<mapsto> [0], 1 \<mapsto> [1]] [2, 3]" "content M2 [0 \<mapsto> [0], 1 \<mapsto> [1]] = [0 \<mapsto> Map.empty, 1 \<mapsto> Map.empty]"
    using maps_example_inv by blast
  have "[0::nat \<mapsto> [0::nat], 1 \<mapsto> [1]](1 := None) = [0 \<mapsto> [0]]" "[0::nat \<mapsto> Map.empty :: nat \<Rightarrow> nat option, 1 \<mapsto> Map.empty](1 := None) = [0 \<mapsto> Map.empty]" by auto
  then show ?thesis using ReleaseMap_spec [OF M(4) _ M(3), of "[1]" 808] M(1,2,5) by auto
qed

end
