(* ===== verification/MmapQueue.thy ===== *)
theory MmapQueue
  imports Ring HashList
begin

text \<open>
  The queue \<open>CMmapQueue\<close> in memory shared with child processes (\<^verbatim>\<open>mmlib/mmap_queue/mmap_queue.cpp\<close>). The header is behind the ring; only this class writes
  it, so that its offsets are inside the ring. A message is stored with a block head (its offset, its length in 16 bits, two bytes of padding with
  any contents) and six bytes that mark its end. \<open>None\<close> stands for a call that waits for the semaphore and for a copy outside a buffer.
\<close>

section \<open>Memory\<close>

record mmq =
  mq_Mem :: "byte list"
  mq_Len :: nat
  mq_Head :: nat
  mq_Tail :: nat
  mq_Num :: u32
  mq_QueueSize :: nat
  mq_Sem :: nat

definition E_MMAP_QUEUE_SEMLOCK :: int where "E_MMAP_QUEUE_SEMLOCK = -601"
definition E_MMAP_QUEUE_MMAP :: int where "E_MMAP_QUEUE_MMAP = -602"
definition E_MMAP_QUEUE_ERROR :: int where "E_MMAP_QUEUE_ERROR = -603"
definition E_MMAP_QUEUE_FULL :: int where "E_MMAP_QUEUE_FULL = -604"
definition E_MMAP_QUEUE_EMPTY :: int where "E_MMAP_QUEUE_EMPTY = -605"

definition szTail :: "byte list" where "szTail = replicate 6 0xAA"

definition BlockHead_bytes :: "nat \<Rightarrow> int \<Rightarrow> byte list \<Rightarrow> byte list" where
  "BlockHead_bytes iIndex iLen pad = le_bytes 4 (of_nat iIndex :: u32) @ le_bytes 2 (word_of_int iLen :: u16) @ pad"

section \<open>Operations\<close>

text \<open>The results of creating the semaphore and of \<open>mmap\<close> are arguments; a new semaphore has the value 1.\<close>

definition mmq_Init :: "bool \<Rightarrow> bool \<Rightarrow> nat \<Rightarrow> mmq \<Rightarrow> int \<times> mmq" where
  "mmq_Init sem_ok mmap_ok aiSize q =
     (let q = q\<lparr>mq_QueueSize := aiSize\<rparr>
      in if \<not> sem_ok then (E_MMAP_QUEUE_SEMLOCK, q)
         else let q = q\<lparr>mq_Sem := 1\<rparr>
         in if \<not> mmap_ok then (E_MMAP_QUEUE_MMAP, q)
         else (0, q\<lparr>mq_Mem := replicate aiSize 0, mq_Len := aiSize, mq_Head := 0, mq_Tail := 0, mq_Num := 0\<rparr>))"

text \<open>
  One part of a message, in one or two copies, with \<open>liIndex\<close> and \<open>liLeft\<close> after it; \<open>n\<close> is the length of the ring. The three parts of a message are
  written and read in the same way.
\<close>

definition put_part :: "nat \<Rightarrow> byte list \<Rightarrow> byte list \<times> nat \<times> nat \<Rightarrow> byte list \<times> nat \<times> nat" where
  "put_part n bs s =
     (let (mem, liIndex, liLeft) = s
      in if liLeft \<ge> length bs then (memcpy_to mem liIndex bs, (liIndex + length bs) mod n, liLeft - length bs)
         else let mem = memcpy_to (memcpy_to mem liIndex (take liLeft bs)) 0 (drop liLeft bs); liIndex = (length bs - liLeft) mod n
              in (mem, liIndex, n - liIndex))"

definition get_part :: "nat \<Rightarrow> byte list \<Rightarrow> nat \<Rightarrow> nat \<times> nat \<Rightarrow> byte list \<times> nat \<times> nat" where
  "get_part n mem k s =
     (let (liIndex, liLeft) = s
      in if liLeft < k then let i = (k - liLeft) mod n in (mem_read mem liIndex liLeft @ mem_read mem 0 (k - liLeft), i, n - i)
         else (mem_read mem liIndex k, (liIndex + k) mod n, liLeft - k))"

definition liFreeSpace :: "mmq \<Rightarrow> nat" where
  "liFreeSpace q =
     (if mq_Head q < mq_Tail q \<or> mq_Head q = mq_Tail q \<and> mq_Num q = 0 then mq_Len q - (mq_Tail q - mq_Head q)
      else if mq_Head q > mq_Tail q then mq_Head q - mq_Tail q else 0)"

definition put_block :: "byte list \<Rightarrow> byte list \<Rightarrow> int \<Rightarrow> mmq \<Rightarrow> mmq" where
  "put_block pad bs iDataLen q =
     (let liIndex = mq_Tail q; liLeft = mq_Len q - mq_Tail q; need = length bs + 14; head = BlockHead_bytes liIndex iDataLen pad;
          mem = (if mq_Head q > mq_Tail q \<or> liLeft \<ge> need
                 then memcpy_to (memcpy_to (memcpy_to (mq_Mem q) liIndex head) (liIndex + 8) bs) (liIndex + 8 + length bs) szTail
                 else fst (put_part (mq_Len q) szTail (put_part (mq_Len q) bs (put_part (mq_Len q) head (mq_Mem q, liIndex, liLeft)))))
      in q\<lparr>mq_Mem := mem, mq_Tail := (mq_Tail q + need) mod mq_Len q, mq_Num := mq_Num q + 1\<rparr>)"

text \<open>\<open>iDataLen + sizeof(BlockHead) + sizeof(szTail)\<close> is computed in 64 bits without sign. The semaphore is taken and given back.\<close>

definition mmq_InQueue :: "byte list \<Rightarrow> byte list \<Rightarrow> int \<Rightarrow> mmq \<Rightarrow> (int \<times> mmq) option" where
  "mmq_InQueue pad pData iDataLen q =
     (if mq_Sem q = 0 then None
      else if int (liFreeSpace q) < uint (word_of_int iDataLen + 14 :: u64) then Some (E_MMAP_QUEUE_FULL, q)
      else if iDataLen < 0 \<or> int (length pData) < iDataLen then None
      else Some (0, put_block pad (take (nat iDataLen) pData) iDataLen q))"

text \<open>
  The branch for a message that does not fit into the buffer, or whose head is wrong, clears the queue and returns without giving the semaphore
  back. The semaphore is taken with \<open>SEM_UNDO\<close>: the kernel gives it back when the process that took it ends. The data is what is in the buffer
  for the results 0 and \<open>- 1\<close>.
\<close>

definition mmq_OutQueue :: "int \<Rightarrow> bool \<Rightarrow> mmq \<Rightarrow> (int \<times> byte list option \<times> mmq) option" where
  "mmq_OutQueue iBufLen null q =
     (if mq_Sem q = 0 then None
      else if mq_Num q = 0 \<and> mq_Head q = mq_Tail q then Some (E_MMAP_QUEUE_EMPTY, None, q)
      else let n = mq_Len q; (head, liIndex, _) = get_part n (mq_Mem q) 8 (mq_Head q, n - mq_Head q);
               iIndex = le_word (take 4 head) :: u32; iLen = unat (le_word (take 2 (drop 4 head)) :: u16)
           in if iBufLen < int iLen \<or> iIndex \<noteq> of_nat (mq_Head q) \<or> null
              then Some (E_MMAP_QUEUE_ERROR, None,
                         q\<lparr>mq_Len := mq_QueueSize q, mq_Head := 0, mq_Tail := 0, mq_Num := 0, mq_Sem := mq_Sem q - 1\<rparr>)
              else let (data, s) = get_part n (mq_Mem q) iLen (liIndex, n - liIndex); (szGetData, _) = get_part n (mq_Mem q) 6 s;
                       q = q\<lparr>mq_Head := (mq_Head q + iLen + 14) mod n, mq_Num := mq_Num q - 1\<rparr>
                   in Some (if szGetData \<noteq> szTail then -1 else 0, Some data, q))"

definition mmq_GetNum :: "mmq \<Rightarrow> int option" where
  "mmq_GetNum q = (if mq_Sem q = 0 then None else Some (sint (mq_Num q)))"

definition mmq_process_ends :: "mmq \<Rightarrow> mmq" where
  "mmq_process_ends q = (if mq_Sem q = 0 then q\<lparr>mq_Sem := 1\<rparr> else q)"

section \<open>Parts of a message in the ring\<close>

text \<open>Where a copy goes on: at the end of the ring the index is 0 and there are either 0 or all bytes left.\<close>

definition part_at :: "nat \<Rightarrow> nat \<Rightarrow> nat \<Rightarrow> bool" where
  "part_at n i l \<longleftrightarrow> i < n \<and> (l = n - i \<or> i = 0 \<and> l = 0)"

lemma put_part_ring:
  assumes "part_at n i l" "length mem = n" "length bs \<le> n"
  shows "\<exists>l'. put_part n bs (mem, i, l) = (ring_write mem i bs, (i + length bs) mod n, l') \<and> part_at n ((i + length bs) mod n) l'"
proof -
  consider "l = n - i" "length bs \<le> l" | "l = n - i" "l < length bs" | "i = 0" "l = 0" "0 < n"
    using assms(1) by (auto simp: part_at_def) linarith
  then show ?thesis
  proof cases
    case 1
    then show ?thesis using assms by (auto simp: put_part_def part_at_def ring_write_linear mod_if)
  next
    case 2
    then have "(i + length bs) mod n = length bs - l" using assms by (auto simp: part_at_def mod_if)
    moreover have "(length bs - l) mod n = length bs - l" using 2 assms by (auto simp: part_at_def)
    ultimately show ?thesis using 2 assms ring_write_wrap [of i mem bs] by (auto simp: put_part_def part_at_def)
  next
    case 3
    then show ?thesis using assms ring_write_linear [of 0 bs mem] by (auto simp: put_part_def part_at_def Let_def)
  qed
qed

lemma get_part_ring:
  assumes "part_at n i l" "length mem = n" "k \<le> n"
  shows "\<exists>l'. get_part n mem k (i, l) = (ring_read mem i k, (i + k) mod n, l') \<and> part_at n ((i + k) mod n) l'"
proof -
  consider "l = n - i" "k \<le> l" | "l = n - i" "l < k" | "i = 0" "l = 0" "0 < n"
    using assms(1) by (auto simp: part_at_def) linarith
  then show ?thesis
  proof cases
    case 1
    then show ?thesis using assms by (auto simp: get_part_def part_at_def ring_read_linear mod_if)
  next
    case 2
    then have "(i + k) mod n = k - l" using assms by (auto simp: part_at_def mod_if)
    moreover have "(k - l) mod n = k - l" using 2 assms by (auto simp: part_at_def)
    ultimately show ?thesis using 2 assms ring_read_wrap [of i mem k] by (auto simp: get_part_def part_at_def Let_def)
  next
    case 3
    then show ?thesis using assms ring_read_linear [of 0 k mem] by (auto simp: get_part_def part_at_def Let_def)
  qed
qed

lemma ring_write_append:
  assumes "i < length mem" "length xs + length ys \<le> length mem"
  shows "ring_write (ring_write mem i xs) ((i + length xs) mod length mem) ys = ring_write mem i (xs @ ys)"
proof (rule nth_equalityI)
  fix j assume "j < length (ring_write (ring_write mem i xs) ((i + length xs) mod length mem) ys)"
  then have j: "j < length mem" by simp
  let ?n = "length mem" and ?k = "(j + length mem - i) mod length mem"
  have k: "?k < ?n" using j by (intro mod_less_divisor) linarith
  have "(i + ?k) mod ?n = j" using j assms(1) by (simp add: ring_pos)
  with ring_distance [OF assms(1) _ k, of "length xs"] assms(2)
  have "(j + ?n - (i + length xs) mod ?n) mod ?n = (if length xs \<le> ?k then ?k - length xs else ?n + ?k - length xs)" by simp
  then show "ring_write (ring_write mem i xs) ((i + length xs) mod ?n) ys ! j = ring_write mem i (xs @ ys) ! j"
    using j k assms(2) by (auto simp: nth_ring_write nth_append)
qed simp

section \<open>The messages in the ring\<close>

definition mm_frame :: "nat \<Rightarrow> byte list \<times> byte list \<Rightarrow> byte list" where
  "mm_frame i x = BlockHead_bytes i (int (length (fst x))) (snd x) @ fst x @ szTail"

text \<open>Messages with the padding of their heads, stored from position \<open>i\<close> of a ring of length \<open>n\<close> on, and their size.\<close>

fun mm_frames :: "nat \<Rightarrow> nat \<Rightarrow> (byte list \<times> byte list) list \<Rightarrow> byte list" where
  "mm_frames n i [] = []"
| "mm_frames n i (x # xs) = mm_frame i x @ mm_frames n ((i + length (fst x) + 14) mod n) xs"

definition mm_size :: "byte list list \<Rightarrow> nat" where
  "mm_size ms = sum_list (map (\<lambda>m. length m + 14) ms)"

lemma mm_size_simps [simp]: "mm_size [] = 0" "mm_size (m # ms) = length m + 14 + mm_size ms" "mm_size (ms @ ms') = mm_size ms + mm_size ms'"
  by (simp_all add: mm_size_def)

lemma mm_size_length: "14 * length ms \<le> mm_size ms"
  by (induction ms) simp_all

lemma mm_frames_append: "i < n \<Longrightarrow> mm_frames n i (xs @ ys) = mm_frames n i xs @ mm_frames n ((i + mm_size (map fst xs)) mod n) ys"
proof (induction xs arbitrary: i)
  case (Cons x xs)
  moreover from this have "(i + length (fst x) + 14) mod n < n" by (intro mod_less_divisor) simp
  ultimately show ?case by (simp add: mod_add_left_eq add.assoc)
qed simp

definition mm_rel :: "nat \<Rightarrow> mmq \<Rightarrow> (byte list \<times> byte list) list \<Rightarrow> bool" where
  "mm_rel n q xs \<longleftrightarrow> mq_Len q = n \<and> length (mq_Mem q) = n \<and> mq_QueueSize q = n \<and> 0 < n \<and> n < 2 ^ 31 \<and> mq_Head q < n
     \<and> mm_size (map fst xs) \<le> n \<and> mq_Tail q = (mq_Head q + mm_size (map fst xs)) mod n \<and> mq_Num q = of_nat (length xs) \<and> mq_Sem q = 1
     \<and> (\<forall>x\<in>set xs. length (fst x) < 65536 \<and> length (snd x) = 2)
     \<and> ring_read (mq_Mem q) (mq_Head q) (mm_size (map fst xs)) = mm_frames n (mq_Head q) xs"

lemma length_mm_frame: "length (snd x) = 2 \<Longrightarrow> length (mm_frame i x) = length (fst x) + 14"
  by (simp add: mm_frame_def BlockHead_bytes_def szTail_def)

lemma mm_num:
  assumes "mm_rel n q xs"
  shows "unat (mq_Num q) = length xs" "sint (mq_Num q) = int (length xs)" "mq_Num q = 0 \<longleftrightarrow> xs = []"
proof -
  have l: "length xs < 2 ^ 31" using assms mm_size_length [of "map fst xs"] by (simp add: mm_rel_def)
  then show u: "unat (mq_Num q) = length xs" using assms by (simp add: mm_rel_def unat_u32_of_nat)
  show "mq_Num q = 0 \<longleftrightarrow> xs = []" using u by (metis length_0_conv unat_eq_zero)
  show "sint (mq_Num q) = int (length xs)"
    using u l sint_int32 [of "int (length xs)"] assms by (simp add: mm_rel_def)
qed

lemma mm_free: "mm_rel n q xs \<Longrightarrow> liFreeSpace q = n - mm_size (map fst xs)"
proof -
  assume R: "mm_rel n q xs"
  let ?h = "mq_Head q" and ?u = "mm_size (map fst xs)"
  have r: "mq_Len q = n" "?h < n" "?u \<le> n" "mq_Tail q = (?h + ?u) mod n" using R by (simp_all add: mm_rel_def)
  have t: "mq_Tail q = (if ?h + ?u < n then ?h + ?u else ?h + ?u - n)" using r mod_wrap [of "?h + ?u" n] by simp
  have "?u = 0 \<longleftrightarrow> xs = []" by (cases xs) simp_all
  with mm_num(3) [OF R] t r show ?thesis by (auto simp: liFreeSpace_def)
qed

lemma put_block_ring:
  assumes "mm_rel n q xs" "mm_size (map fst xs) + length bs + 14 \<le> n" "length pad = 2"
  shows "mq_Mem (put_block pad bs (int (length bs)) q) = ring_write (mq_Mem q) (mq_Tail q) (mm_frame (mq_Tail q) (bs, pad))"
proof -
  let ?h = "mq_Head q" and ?t = "mq_Tail q" and ?u = "mm_size (map fst xs)" and ?m = "mq_Mem q"
  let ?H = "BlockHead_bytes ?t (int (length bs)) pad"
  have r: "mq_Len q = n" "?h < n" "?u \<le> n" "?t = (?h + ?u) mod n" "length ?m = n" "?t < n" using assms(1) by (simp_all add: mm_rel_def)
  have H: "length ?H = 8" "length szTail = 6" using assms(3) by (simp_all add: BlockHead_bytes_def szTail_def)
  show ?thesis
  proof (cases "?h > ?t \<or> n - ?t \<ge> length bs + 14")
    case True
    have "?t = (if ?h + ?u < n then ?h + ?u else ?h + ?u - n)" using r mod_wrap [of "?h + ?u" n] by simp
    then have f: "?t + (length bs + 14) \<le> n" using True r(2) assms(2) by (auto split: if_splits)
    have "memcpy_to (memcpy_to (memcpy_to ?m ?t ?H) (?t + 8) bs) (?t + 8 + length bs) szTail = memcpy_to ?m ?t (?H @ bs @ szTail)"
      using memcpy_to_append [of ?t ?m ?H bs] memcpy_to_append [of ?t ?m "?H @ bs" szTail] H f r(5) by (simp add: add.assoc)
    also have "\<dots> = ring_write ?m ?t (?H @ bs @ szTail)" using f r H by (intro ring_write_linear) simp_all
    finally show ?thesis using True r(1) by (simp add: put_block_def Let_def mm_frame_def)
  next
    case False
    have at: "part_at n ?t (n - ?t)" using r(6) by (simp add: part_at_def)
    obtain l1 where 1: "put_part n ?H (?m, ?t, n - ?t) = (ring_write ?m ?t ?H, (?t + 8) mod n, l1)" "part_at n ((?t + 8) mod n) l1"
      using put_part_ring [OF at r(5), of ?H] H assms(2) by auto
    obtain l2 where 2: "put_part n bs (ring_write ?m ?t ?H, (?t + 8) mod n, l1)
      = (ring_write (ring_write ?m ?t ?H) ((?t + 8) mod n) bs, ((?t + 8) mod n + length bs) mod n, l2)" "part_at n (((?t + 8) mod n + length bs) mod n) l2"
      using put_part_ring [OF 1(2), of "ring_write ?m ?t ?H" bs] r(5) assms(2) by auto
    have 3: "fst (put_part n szTail (ring_write (ring_write ?m ?t ?H) ((?t + 8) mod n) bs, ((?t + 8) mod n + length bs) mod n, l2))
      = ring_write (ring_write (ring_write ?m ?t ?H) ((?t + 8) mod n) bs) (((?t + 8) mod n + length bs) mod n) szTail"
      using put_part_ring [OF 2(2), of "ring_write (ring_write ?m ?t ?H) ((?t + 8) mod n) bs" szTail] r(5) assms(2) H by auto
    have "ring_write (ring_write ?m ?t ?H) ((?t + 8) mod n) bs = ring_write ?m ?t (?H @ bs)"
      using ring_write_append [of ?t ?m ?H bs] r(5,6) assms(2) H by simp
    moreover have "ring_write (ring_write ?m ?t (?H @ bs)) (((?t + 8) mod n + length bs) mod n) szTail = ring_write ?m ?t (?H @ bs @ szTail)"
      using ring_write_append [of ?t ?m "?H @ bs" szTail] r(5,6) assms(2) H by (simp add: mod_add_left_eq add.assoc)
    ultimately show ?thesis using False r(1) 1(1) 2(1) 3 by (simp add: put_block_def Let_def mm_frame_def)
  qed
qed

lemma put_block_rel:
  assumes "mm_rel n q xs" "mm_size (map fst xs) + length bs + 14 \<le> n" "length pad = 2" "length bs < 65536"
  shows "mm_rel n (put_block pad bs (int (length bs)) q) (xs @ [(bs, pad)])"
proof -
  let ?q = "put_block pad bs (int (length bs)) q" and ?h = "mq_Head q" and ?u = "mm_size (map fst xs)" and ?f = "mm_frame (mq_Tail q) (bs, pad)"
  have r: "mq_Len q = n" "?h < n" "mq_Tail q = (?h + ?u) mod n" "length (mq_Mem q) = n" "ring_read (mq_Mem q) ?h ?u = mm_frames n ?h xs" "mq_Num q = of_nat (length xs)"
    using assms(1) by (simp_all add: mm_rel_def)
  have f: "length ?f = length bs + 14" using length_mm_frame [of "(bs, pad)"] assms(3) by simp
  note m = put_block_ring [OF assms(1-3)]
  have "ring_read (mq_Mem ?q) ?h (?u + length ?f) = ring_read (mq_Mem q) ?h ?u @ ?f"
    unfolding m r(3) using ring_read_append_block [of ?h "mq_Mem q" ?u ?f] f r assms(2) by simp
  then have "ring_read (mq_Mem ?q) ?h (?u + (length bs + 14)) = mm_frames n ?h (xs @ [(bs, pad)])"
    using r(2,3,5) f by (simp add: mm_frames_append)
  moreover have "mq_Len ?q = n" "mq_Head ?q = ?h" "mq_QueueSize ?q = mq_QueueSize q" "mq_Sem ?q = mq_Sem q" "mq_Num ?q = mq_Num q + 1"
    "mq_Tail ?q = (mq_Tail q + (length bs + 14)) mod n"
    using r(1) by (simp_all add: put_block_def Let_def)
  moreover have "((?h + ?u) mod n + (length bs + 14)) mod n = (?h + (?u + (length bs + 14))) mod n" by (simp add: mod_add_left_eq add.assoc)
  ultimately show ?thesis using assms r m by (auto simp: mm_rel_def)
qed

section \<open>Taking a message out\<close>

lemma BlockHead_read:
  assumes "length m < 65536" "length pad = 2"
  shows "le_word (take 4 (BlockHead_bytes i (int (length m)) pad)) = (of_nat i :: u32)"
    "unat (le_word (take 2 (drop 4 (BlockHead_bytes i (int (length m)) pad))) :: u16) = length m"
  using assms by (simp_all add: BlockHead_bytes_def unat_of_nat take_bit_nat_eq_self)

lemma mm_first:
  assumes "mm_rel n q ((m, pad) # xs)"
  shows "ring_read (mq_Mem q) (mq_Head q) 8 = BlockHead_bytes (mq_Head q) (int (length m)) pad"
    "ring_read (mq_Mem q) (mq_Head q + 8) (length m) = m" "ring_read (mq_Mem q) (mq_Head q + 8 + length m) 6 = szTail"
    "ring_read (mq_Mem q) (mq_Head q + (length m + 14)) (mm_size (map fst xs)) = mm_frames n ((mq_Head q + length m + 14) mod n) xs"
proof -
  let ?r = "ring_read (mq_Mem q)" and ?h = "mq_Head q"
  have "?r ?h (8 + (length m + (6 + mm_size (map fst xs))))
    = BlockHead_bytes ?h (int (length m)) pad @ m @ szTail @ mm_frames n ((?h + length m + 14) mod n) xs" and p: "length pad = 2"
    using assms by (simp_all add: mm_rel_def mm_frame_def add_ac)
  then have "?r ?h 8 @ ?r (?h + 8) (length m) @ ?r (?h + 8 + length m) 6 @ ?r (?h + 8 + length m + 6) (mm_size (map fst xs))
    = BlockHead_bytes ?h (int (length m)) pad @ m @ szTail @ mm_frames n ((?h + length m + 14) mod n) xs"
    by (simp only: ring_read_add append_assoc)
  moreover have "length (BlockHead_bytes ?h (int (length m)) pad) = 8" "length szTail = 6" using p by (simp_all add: BlockHead_bytes_def szTail_def)
  ultimately show "?r ?h 8 = BlockHead_bytes ?h (int (length m)) pad" "?r (?h + 8) (length m) = m" "?r (?h + 8 + length m) 6 = szTail"
    "?r (?h + (length m + 14)) (mm_size (map fst xs)) = mm_frames n ((?h + length m + 14) mod n) xs"
    by (simp_all add: add_ac)
qed

lemma mm_OutQueue_Cons:
  assumes "mm_rel n q ((m, pad) # xs)"
  shows "\<exists>q'. mmq_OutQueue b False q = (if b < int (length m) then Some (E_MMAP_QUEUE_ERROR, None, q') else Some (0, Some m, q'))
    \<and> (if b < int (length m) then mq_Sem q' = 0 \<and> mm_rel n (q'\<lparr>mq_Sem := 1\<rparr>) [] else mm_rel n q' xs)"
proof -
  let ?h = "mq_Head q" and ?m = "mq_Mem q"
  have r: "mq_Len q = n" "?h < n" "length ?m = n" "mq_Sem q = 1" "length m < 65536" "length pad = 2" "length m + 14 \<le> n" "0 < n"
    using assms by (simp_all add: mm_rel_def)
  note F = mm_first [OF assms]
  have at: "part_at n i (n - i)" if "i < n" for i using that by (simp add: part_at_def)
  obtain l1 where 1: "get_part n ?m 8 (?h, n - ?h) = (BlockHead_bytes ?h (int (length m)) pad, (?h + 8) mod n, l1)"
    using get_part_ring [OF at [OF r(2)] r(3), of 8] F(1) r(7) by auto
  have i8: "(?h + 8) mod n < n" using r(8) by simp
  obtain l2 where 2: "get_part n ?m (length m) ((?h + 8) mod n, n - (?h + 8) mod n) = (m, ((?h + 8) mod n + length m) mod n, l2)"
    "part_at n (((?h + 8) mod n + length m) mod n) l2"
    using get_part_ring [OF at [OF i8] r(3), of "length m"] F(2) r(3,7) ring_read_mod [of ?m "?h + 8" "length m"] by auto
  have e: "((?h + 8) mod n + length m) mod n = (?h + 8 + length m) mod n" by (simp add: mod_add_left_eq)
  obtain l3 where 3: "get_part n ?m 6 (((?h + 8) mod n + length m) mod n, l2) = (szTail, l3)"
    using get_part_ring [OF 2(2) r(3), of 6] F(3) r(3,7) ring_read_mod [of ?m "?h + 8 + length m" 6] unfolding e by auto
  note B = BlockHead_read [OF r(5,6), of ?h]
  from arg_cong [OF B(2), of int]
  have B': "uint (le_word (take 2 (drop 4 (BlockHead_bytes ?h (int (length m)) pad))) :: u16) = int (length m)" by simp
  have ne: "mq_Num q \<noteq> 0" using mm_num(3) [OF assms] by simp
  have O: "mmq_OutQueue b False q = (if b < int (length m)
      then Some (E_MMAP_QUEUE_ERROR, None, q\<lparr>mq_Len := mq_QueueSize q, mq_Head := 0, mq_Tail := 0, mq_Num := 0, mq_Sem := mq_Sem q - 1\<rparr>)
      else Some (0, Some m, q\<lparr>mq_Head := (?h + length m + 14) mod n, mq_Num := mq_Num q - 1\<rparr>))"
    unfolding mmq_OutQueue_def using ne r(1,4) by (simp add: 1 2(1) 3 B B' Let_def)
  have "mm_rel n (q\<lparr>mq_Head := (?h + length m + 14) mod n, mq_Num := mq_Num q - 1\<rparr>) xs"
  proof -
    have "ring_read ?m ((?h + length m + 14) mod n) (mm_size (map fst xs)) = mm_frames n ((?h + length m + 14) mod n) xs"
      using F(4) ring_read_mod [of ?m "?h + length m + 14" "mm_size (map fst xs)"] r(3) by (simp add: add.assoc)
    moreover have "mq_Tail q = ((?h + length m + 14) mod n + mm_size (map fst xs)) mod n"
      using assms unfolding mod_add_left_eq by (simp add: mm_rel_def add.assoc)
    ultimately show ?thesis using assms by (simp add: mm_rel_def)
  qed
  moreover have "mm_rel n (q\<lparr>mq_Len := mq_QueueSize q, mq_Head := 0, mq_Tail := 0, mq_Num := 0, mq_Sem := 1\<rparr>) []"
    using assms by (simp add: mm_rel_def)
  ultimately show ?thesis using O r(4) by (cases "b < int (length m)") auto
qed

section \<open>The queue as a list of messages\<close>

text \<open>\<open>MExit\<close>: the process that holds the semaphore, if any, ends.\<close>

datatype mm_op = MPut "byte list" "byte list" | MGet int | MNum | MExit

datatype mm_res = MRes int "byte list option" | MBlocked

fun mm_step :: "mmq \<Rightarrow> mm_op \<Rightarrow> mm_res \<times> mmq" where
  "mm_step q (MPut pad m) = (case mmq_InQueue pad m (int (length m)) q of None \<Rightarrow> (MBlocked, q) | Some (r, q') \<Rightarrow> (MRes r None, q'))"
| "mm_step q (MGet b) = (case mmq_OutQueue b False q of None \<Rightarrow> (MBlocked, q) | Some (r, d, q') \<Rightarrow> (MRes r d, q'))"
| "mm_step q MNum = (case mmq_GetNum q of None \<Rightarrow> (MBlocked, q) | Some r \<Rightarrow> (MRes r None, q))"
| "mm_step q MExit = (MRes 0 None, mmq_process_ends q)"

text \<open>The specification: the messages in the queue, or \<open>None\<close> when it is empty and a process has not given the semaphore back.\<close>

fun mm_fifo :: "nat \<Rightarrow> byte list list option \<Rightarrow> mm_op \<Rightarrow> mm_res \<times> byte list list option" where
  "mm_fifo n None e = (if e = MExit then (MRes 0 None, Some []) else (MBlocked, None))"
| "mm_fifo n (Some ms) MExit = (MRes 0 None, Some ms)"
| "mm_fifo n (Some ms) (MPut pad m) = (if n < mm_size ms + length m + 14 then (MRes E_MMAP_QUEUE_FULL None, Some ms) else (MRes 0 None, Some (ms @ [m])))"
| "mm_fifo n (Some []) (MGet b) = (MRes E_MMAP_QUEUE_EMPTY None, Some [])"
| "mm_fifo n (Some (m # ms)) (MGet b) = (if b < int (length m) then (MRes E_MMAP_QUEUE_ERROR None, None) else (MRes 0 (Some m), Some ms))"
| "mm_fifo n (Some ms) MNum = (MRes (int (length ms)) None, Some ms)"

definition mm_abs :: "nat \<Rightarrow> mmq \<Rightarrow> byte list list option \<Rightarrow> bool" where
  "mm_abs n q a \<longleftrightarrow> (case a of None \<Rightarrow> mq_Sem q = 0 \<and> mm_rel n (q\<lparr>mq_Sem := 1\<rparr>) [] | Some ms \<Rightarrow> \<exists>xs. mm_rel n q xs \<and> map fst xs = ms)"

fun mm_op_ok :: "mm_op \<Rightarrow> bool" where
  "mm_op_ok (MPut pad m) \<longleftrightarrow> length m < 65536 \<and> length pad = 2"
| "mm_op_ok _ \<longleftrightarrow> True"

lemma InQueue_eq:
  assumes "mm_rel n q xs" "length m < 65536"
  shows "mmq_InQueue pad m (int (length m)) q = (if n < mm_size (map fst xs) + length m + 14 then Some (E_MMAP_QUEUE_FULL, q)
    else Some (0, put_block pad m (int (length m)) q))"
proof -
  have "uint (word_of_int (int (length m)) + 14 :: u64) = int (length m) + 14"
  proof -
    have "(word_of_int (int (length m)) + 14 :: u64) = word_of_int (int (length m) + 14)" by simp
    moreover have "uint (word_of_int (int (length m) + 14) :: u64) = int (length m) + 14"
      using assms(2) by (simp only: uint_word_of_int_eq) (simp add: take_bit_int_eq_self)
    ultimately show ?thesis by simp
  qed
  then show ?thesis using assms mm_free [OF assms(1)] by (auto simp: mmq_InQueue_def mm_rel_def)
qed

interpretation mmq: simulation "mm_abs n" mm_step "mm_fifo n" mm_op_ok for n
proof
  fix q a e assume R: "mm_abs n q a" and ok: "mm_op_ok e"
  show "fst (mm_step q e) = fst (mm_fifo n a e) \<and> mm_abs n (snd (mm_step q e)) (snd (mm_fifo n a e))"
  proof (cases a)
    case None
    then have "mq_Sem q = 0" "mm_rel n (q\<lparr>mq_Sem := 1\<rparr>) []" using R by (simp_all add: mm_abs_def)
    then show ?thesis using None
      by (cases e) (simp_all add: mm_abs_def mmq_InQueue_def mmq_OutQueue_def mmq_GetNum_def mmq_process_ends_def)
  next
    case (Some ms)
    then obtain xs where xs: "mm_rel n q xs" "map fst xs = ms" using R by (auto simp: mm_abs_def)
    show ?thesis
    proof (cases e)
      case (MPut pad m)
      show ?thesis
      proof (cases "n < mm_size ms + length m + 14")
        case True
        then show ?thesis using MPut Some xs ok R InQueue_eq [OF xs(1), of m pad] by simp
      next
        case False
        then have "mm_rel n (put_block pad m (int (length m)) q) (xs @ [(m, pad)])" using MPut ok xs by (intro put_block_rel) simp_all
        then show ?thesis using MPut Some xs ok False InQueue_eq [OF xs(1), of m pad]
          by (auto simp: mm_abs_def intro!: exI [of _ "xs @ [(m, pad)]"])
      qed
    next
      case (MGet b)
      show ?thesis
      proof (cases xs)
        case Nil
        then have "mq_Num q = 0" "mq_Head q = mq_Tail q" "mq_Sem q = 1" using xs(1) by (simp_all add: mm_rel_def)
        then show ?thesis using MGet Some xs Nil by (auto simp: mmq_OutQueue_def mm_abs_def)
      next
        case (Cons x xs')
        obtain m pad where x: "x = (m, pad)" by (cases x)
        obtain q' where "mmq_OutQueue b False q = (if b < int (length m) then Some (E_MMAP_QUEUE_ERROR, None, q') else Some (0, Some m, q'))"
          "if b < int (length m) then mq_Sem q' = 0 \<and> mm_rel n (q'\<lparr>mq_Sem := 1\<rparr>) [] else mm_rel n q' xs'"
          using mm_OutQueue_Cons [OF xs(1) [unfolded Cons x], of b] by blast
        then show ?thesis using MGet Some Cons x xs(2) by (auto simp: mm_abs_def)
      qed
    next
      case MNum
      have "mq_Sem q = 1" using xs(1) by (simp add: mm_rel_def)
      then show ?thesis using MNum Some xs mm_num(2) [OF xs(1)] by (cases ms) (auto simp: mm_abs_def mmq_GetNum_def)
    next
      case MExit
      have "mq_Sem q = 1" using xs(1) by (simp add: mm_rel_def)
      then show ?thesis using MExit Some R by (simp add: mmq_process_ends_def)
    qed
  qed
qed

lemma mmq_Init_rel: "0 < n \<Longrightarrow> n < 2 ^ 31 \<Longrightarrow> mm_rel n (snd (mmq_Init True True n q)) []"
  by (simp add: mmq_Init_def mm_rel_def)

text \<open>
  C24: A new queue of \<open>n\<close> bytes answers every sequence of operations with messages shorter than 65536 bytes like a list of messages that takes a message
  when it and 14 bytes fit, across every wrap-around and up to the last byte. Taking a message with a buffer that is too short loses all messages,
  and from then on no operation returns until the process that did it ends, because it does not give the semaphore back.
\<close>
theorem mmap_queue_refines_fifo:
  assumes "0 < n" "n < 2 ^ 31" "\<forall>e\<in>set es. mm_op_ok e"
  shows "fst (run mm_step (snd (mmq_Init True True n q)) es) = fst (run (mm_fifo n) (Some []) es)"
proof -
  have "mm_abs n (snd (mmq_Init True True n q)) (Some [])" using mmq_Init_rel [OF assms(1,2)] by (auto simp: mm_abs_def)
  from mmq.run_sim [OF this assms(3)] show ?thesis by (rule conjunct1)
qed

definition mmq_example :: mmq where
  "mmq_example = \<lparr>mq_Mem = [], mq_Len = 0, mq_Head = 0, mq_Tail = 0, mq_Num = 0, mq_QueueSize = 0, mq_Sem = 0\<rparr>"

theorem mmap_queue_refines_fifo_witness:
  "fst (run mm_step (snd (mmq_Init True True 40 mmq_example)) [MPut [0, 0] [1, 2, 3, 4, 5, 6], MPut [0, 0] [7], MGet 100, MPut [0, 0] [8, 9], MNum, MGet 0, MNum, MExit, MNum])
     = [MRes 0 None, MRes 0 None, MRes 0 (Some [1, 2, 3, 4, 5, 6]), MRes 0 None, MRes 2 None, MRes E_MMAP_QUEUE_ERROR None, MBlocked, MRes 0 None, MRes 0 None]"
proof -
  let ?es = "[MPut [0, 0] [1, 2, 3, 4, 5, 6], MPut [0, 0] [7], MGet 100, MPut [0, 0] [8, 9], MNum, MGet 0, MNum, MExit, MNum]"
  have "fst (run mm_step (snd (mmq_Init True True 40 mmq_example)) ?es) = fst (run (mm_fifo 40) (Some []) ?es)"
    by (rule mmap_queue_refines_fifo) simp_all
  also have "\<dots> = [MRes 0 None, MRes 0 None, MRes 0 (Some [1, 2, 3, 4, 5, 6]), MRes 0 None, MRes 2 None, MRes E_MMAP_QUEUE_ERROR None, MBlocked, MRes 0 None, MRes 0 None]"
    by (simp add: mm_size_def)
  finally show ?thesis .
qed

end
