(* ===== verification/UniqQueue.thy ===== *)
theory UniqQueue
  imports ShmQueue
begin

text \<open>
  The queue \<open>CShmUniqQueue\<close> (\<^verbatim>\<open>mmlib/shm_queue/shm_uniq_queue.cpp\<close>), which keeps beside the shared queue a map of the messages that are in it, to
  refuse a message that is there already. The map is an ordinary member, so every process has its own: an operation works on the map of the process and on
  the shared queue. The error texts are not modelled.
\<close>

section \<open>Operations\<close>

definition E_SHM_QUEUE_DATAEXIST :: int where "E_SHM_QUEUE_DATAEXIST = -701"

type_synonym data_map = "byte list \<rightharpoonup> int"

text \<open>\<open>Init\<close> with the results of the shared queue's calls; \<open>None\<close> is a queue whose records have no end.\<close>

definition uq_Init :: "shm_create \<Rightarrow> bool \<Rightarrow> byte list \<Rightarrow> bool \<Rightarrow> int \<Rightarrow> int \<Rightarrow> (int \<times> data_map \<times> shmqueue option) option" where
  "uq_Init create attach mem semcreat inlock outlock =
     (case Queue_Init create attach mem semcreat of
        (Ret, None) \<Rightarrow> Some (Ret, Map.empty, None)
      | (Ret, Some q) \<Rightarrow>
          (case GetAllQueueData q [] inlock outlock of
             None \<Rightarrow> None
           | Some (Ret, vsAllData) \<Rightarrow>
               if Ret \<noteq> 0 then Some (Ret, Map.empty, Some q)
               else Some (0, foldl (\<lambda>m d. if m d = None then m(d \<mapsto> 0) else m) Map.empty vsAllData, Some q)))"

definition uq_InQueue :: "bool \<Rightarrow> byte list \<Rightarrow> int \<Rightarrow> bool \<Rightarrow> int \<Rightarrow> data_map \<times> shmqueue \<Rightarrow> int \<times> data_map \<times> shmqueue" where
  "uq_InQueue null pData iDataLen lock lockret s =
     (let (m_mQueueDataMap, q) = s
      in if null \<or> iDataLen \<le> 0 then (E_SHM_QUEUE_DATALEN, s)
         else let TmpData = take (nat iDataLen) pData
              in if m_mQueueDataMap TmpData = None
                 then let (Ret, q) = InQueue q pData (word_of_int iDataLen) lock lockret
                      in if Ret = 0 then (Ret, m_mQueueDataMap(TmpData \<mapsto> 0), q) else (Ret, m_mQueueDataMap, q)
                 else (E_SHM_QUEUE_DATAEXIST, s))"

definition uq_OutQueue :: "byte list \<Rightarrow> int \<Rightarrow> bool \<Rightarrow> int \<Rightarrow> data_map \<times> shmqueue \<Rightarrow> int \<times> byte list \<times> int \<times> data_map \<times> shmqueue" where
  "uq_OutQueue pBuf iBufLen lock lockret s =
     (let (m_mQueueDataMap, q) = s; (Ret, pBuf, iBufLen, q) = OutQueue_int q pBuf iBufLen lock lockret
      in if Ret = 0 then (Ret, pBuf, iBufLen, m_mQueueDataMap(take (nat iBufLen) pBuf := None), q)
         else if Ret = E_SHM_QUEUE_EMPTY then (E_SHM_QUEUE_EMPTY, pBuf, iBufLen, m_mQueueDataMap, q)
         else (Ret, pBuf, iBufLen, m_mQueueDataMap, q))"

definition uq_GetNum :: "shmqueue \<Rightarrow> int option" where
  "uq_GetNum q = GetNum q"

section \<open>Processes that share a queue\<close>

text \<open>An operation of process \<open>p\<close>: the message to put, or the size of the buffer to get one.\<close>

datatype uq_op = UPut "byte list" | UGet nat

type_synonym processes = "(nat \<Rightarrow> data_map) \<times> shmqueue"

fun uq_step :: "processes \<Rightarrow> nat \<times> uq_op \<Rightarrow> qres \<times> processes" where
  "uq_step (mps, q) (p, UPut m) = (let (r, mp, q) = uq_InQueue False m (int (length m)) True 0 (mps p, q) in (Code r, mps(p := mp), q))"
| "uq_step (mps, q) (p, UGet b) =
     (let (r, buf, len, mp, q) = uq_OutQueue (replicate b 0) (int b) True 0 (mps p, q)
      in (if r = 0 then Data (take (nat len) buf) else Code r, mps(p := mp), q))"

text \<open>The specification: the messages each process takes for queued, and those that are.\<close>

fun uq_spec :: "nat \<Rightarrow> (nat \<Rightarrow> byte list set) \<times> byte list list \<Rightarrow> nat \<times> uq_op \<Rightarrow> qres \<times> (nat \<Rightarrow> byte list set) \<times> byte list list" where
  "uq_spec cap (seen, ms) (p, UPut m) =
     (if m = [] then (Code E_SHM_QUEUE_DATALEN, seen, ms)
      else if m \<in> seen p then (Code E_SHM_QUEUE_DATAEXIST, seen, ms)
      else if queue_bytes ms + length m + 4 < cap then (Code 0, seen(p := insert m (seen p)), ms @ [m])
      else (Code E_SHM_QUEUE_FULL, seen, ms))"
| "uq_spec cap (seen, ms) (p, UGet b) =
     (if b = 0 then (Code E_SHM_QUEUE_PARAM, seen, ms)
      else case ms of
        [] \<Rightarrow> (Code E_SHM_QUEUE_EMPTY, seen, ms)
      | m # ms \<Rightarrow> if b < length m then (Code E_SHM_QUEUE_DATALEN, seen, ms) else (Data m, seen(p := seen p - {m}), ms))"

definition uq_rel :: "nat \<Rightarrow> processes \<Rightarrow> (nat \<Rightarrow> byte list set) \<times> byte list list \<Rightarrow> bool" where
  "uq_rel cap s a \<longleftrightarrow> sq_cap_rel cap (snd s) (snd a) \<and> (\<forall>p. fst a p = dom (fst s p))"

fun uq_op_ok :: "nat \<times> uq_op \<Rightarrow> bool" where
  "uq_op_ok (p, UPut m) \<longleftrightarrow> length m < 2 ^ 31"
| "uq_op_ok (p, UGet b) \<longleftrightarrow> b < 2 ^ 31"

lemma OutQueue_int_sim:
  assumes "sq_cap_rel cap q ms" "b < 2 ^ 31" "0 < b"
  shows "\<exists>q'. OutQueue_int q (replicate b 0) (int b) True 0 =
    (case ms of [] \<Rightarrow> (E_SHM_QUEUE_EMPTY, replicate b 0, int b, q')
     | m # _ \<Rightarrow> if b < length m then (E_SHM_QUEUE_DATALEN, replicate b 0, int b, q')
               else (0, memcpy_to (replicate b 0) 0 m, int (length m), q')) \<and> sq_cap_rel cap q' (tl ms)"
proof (cases ms)
  case Nil
  then show ?thesis using assms OutQueue_empty [of q True 0] by (auto simp: OutQueue_int_def sq_cap_rel_def shm_codes)
next
  case (Cons m ns)
  then have rel: "sq_rel q (m # ns)" using assms(1) by (simp add: sq_cap_rel_def)
  have "queue_bytes (m # ns) < length (qdata q)" "length (qdata q) \<le> 2 ^ 31"
    using rel sq_at_bound [of q "uiHead q" "m # ns"] by (simp_all add: sq_rel_def sq_wf_def)
  then have m: "length m < 2 ^ 31" by simp
  have s: "sint (of_nat (length m) :: u32) = int (length m)" using m by (simp add: signed_of_nat signed_take_bit_int_eq_self)
  have u: "unat (word_of_int (int b) :: u32) = b" using assms(2) unat_u32_of_nat [of b] by simp
  show ?thesis using Cons assms(1,3) sq_rel_AddHead [OF rel] u s
    by (auto simp: OutQueue_int_def OutQueue_Cons [OF rel] sq_cap_rel_def shm_codes)
qed

interpretation uq: simulation "uq_rel cap" uq_step "uq_spec cap" uq_op_ok for cap
proof
  fix s a and e :: "nat \<times> uq_op" assume R: "uq_rel cap s a" and ok: "uq_op_ok e"
  obtain mps q where s: "s = (mps, q)" by (cases s)
  obtain seen ms where a: "a = (seen, ms)" by (cases a)
  obtain p e' where e: "e = (p, e')" by (cases e)
  have r: "sq_cap_rel cap q ms" "\<And>p. seen p = dom (mps p)" using R s a by (simp_all add: uq_rel_def)
  show "fst (uq_step s e) = fst (uq_spec cap a e) \<and> uq_rel cap (snd (uq_step s e)) (snd (uq_spec cap a e))"
  proof (cases e')
    case (UPut m)
    have l: "length m < 2 ^ 31" using ok e UPut by simp
    have "InQueue q m (word_of_int (int (length m))) True 0 = InQueue q m (of_nat (length m)) True 0" by simp
    then have "fst (InQueue q m (word_of_int (int (length m))) True 0)
        = (if m = [] then E_SHM_QUEUE_INQUEUE_LEN else if queue_bytes ms + length m + 4 < cap then 0 else E_SHM_QUEUE_FULL)"
      "sq_cap_rel cap (snd (InQueue q m (word_of_int (int (length m))) True 0)) (if m \<noteq> [] \<and> queue_bytes ms + length m + 4 < cap then ms @ [m] else ms)"
      using ring_step_Put [OF r(1), of m] l by (auto simp: shm_codes split: prod.splits if_splits)
    then show ?thesis using s a e UPut r
      by (cases "InQueue q m (word_of_int (int (length m))) True 0")
        (auto simp: uq_InQueue_def uq_rel_def shm_codes dom_def split: if_splits)
  next
    case (UGet b)
    show ?thesis
    proof (cases "b = 0")
      case True
      then show ?thesis using s a e UGet r by (auto simp: uq_OutQueue_def OutQueue_int_def uq_rel_def shm_codes)
    next
      case False
      then obtain q' where "OutQueue_int q (replicate b 0) (int b) True 0 =
          (case ms of [] \<Rightarrow> (E_SHM_QUEUE_EMPTY, replicate b 0, int b, q')
           | m # _ \<Rightarrow> if b < length m then (E_SHM_QUEUE_DATALEN, replicate b 0, int b, q')
                     else (0, memcpy_to (replicate b 0) 0 m, int (length m), q'))" "sq_cap_rel cap q' (tl ms)"
        using OutQueue_int_sim [OF r(1), of b] ok e UGet by auto
      then show ?thesis using s a e UGet r False
        by (cases ms) (auto simp: uq_OutQueue_def uq_rel_def shm_codes memcpy_to_def)
    qed
  qed
qed

section \<open>One process and several\<close>

lemma run_keeps:
  assumes "\<And>s e. e \<in> set es \<Longrightarrow> I s \<Longrightarrow> I (snd (step s e))" "I s"
  shows "I (snd (run step s es))"
  using assms
proof (induction es arbitrary: s)
  case (Cons e es)
  have "I (snd (run step (snd (step s e)) es))" using Cons.prems by (intro Cons.IH) auto
  then show ?case by (simp add: case_prod_unfold Let_def)
qed simp

lemma run_append: "run step s (es @ es') = (fst (run step s es) @ fst (run step (snd (run step s es)) es'), snd (run step (snd (run step s es)) es'))"
  by (induction es arbitrary: s) (simp_all add: case_prod_unfold Let_def)

lemma spec_own:
  assumes "fst e = p" "distinct (snd a) \<and> set (snd a) \<subseteq> fst a p"
  shows "distinct (snd (snd (uq_spec cap a e))) \<and> set (snd (snd (uq_spec cap a e))) \<subseteq> fst (snd (uq_spec cap a e)) p"
proof -
  obtain seen ms where a: "a = (seen, ms)" by (cases a)
  obtain e' where e: "e = (p, e')" using assms(1) by (cases e) auto
  show ?thesis
  proof (cases e')
    case (UPut m)
    then show ?thesis using assms(2) a e by auto
  next
    case (UGet b)
    then show ?thesis using assms(2) a e by (cases ms) auto
  qed
qed

text \<open>
  C25: Processes that share the queue get, in every interleaving of their operations, the results of a first-in first-out queue with a set of messages for
  each process: a message of its set is refused, a message it puts is added, and a message it takes itself is removed. When only one process uses the queue,
  no message is ever in it twice.
\<close>
theorem uniq_queue_refines:
  assumes "sq_cap_rel cap q []" "\<forall>e\<in>set es. uq_op_ok e"
  shows "fst (run uq_step (\<lambda>_. Map.empty, q) es) = fst (run (uq_spec cap) (\<lambda>_. {}, []) es)
    \<and> (\<exists>ms. sq_cap_rel cap (snd (snd (run uq_step (\<lambda>_. Map.empty, q) es))) ms \<and> ((\<forall>e\<in>set es. fst e = p) \<longrightarrow> distinct ms))"
proof -
  let ?a = "snd (run (uq_spec cap) (\<lambda>_. {}, []) es)"
  have "uq_rel cap (\<lambda>_. Map.empty, q) (\<lambda>_. {}, [])" using assms(1) by (simp add: uq_rel_def)
  from uq.run_sim [OF this assms(2)]
  have R: "fst (run uq_step (\<lambda>_. Map.empty, q) es) = fst (run (uq_spec cap) (\<lambda>_. {}, []) es)" "uq_rel cap (snd (run uq_step (\<lambda>_. Map.empty, q) es)) ?a"
    by simp_all
  have "distinct (snd ?a)" if "\<forall>e\<in>set es. fst e = p"
    using run_keeps [of es "\<lambda>a. distinct (snd a) \<and> set (snd a) \<subseteq> fst a p" "uq_spec cap" "(\<lambda>_. {}, [])"] that spec_own [of _ p] by auto
  with R show ?thesis unfolding uq_rel_def by blast
qed

theorem uniq_queue_refines_witness:
  "fst (run uq_step (\<lambda>_. Map.empty, queue_example) [(1, UPut [5, 6]), (1, UPut [5, 6]), (2, UPut [5, 6]), (1, UGet 9), (1, UGet 9), (1, UPut [5, 6]), (2, UPut [5, 6])])
     = [Code 0, Code E_SHM_QUEUE_DATAEXIST, Code 0, Data [5, 6], Data [5, 6], Code 0, Code E_SHM_QUEUE_DATAEXIST]"
proof -
  let ?es = "[(1, UPut [5, 6]), (1, UPut [5, 6]), (2, UPut [5, 6]), (1, UGet 9), (1, UGet 9), (1, UPut [5, 6]), (2, UPut [5, 6])]"
  have "fst (run uq_step (\<lambda>_. Map.empty, queue_example) ?es) = fst (run (uq_spec 20) (\<lambda>_. {}, []) ?es)"
    using uniq_queue_refines [OF queue_example_rel, of ?es 0] by simp
  also have "\<dots> = [Code 0, Code E_SHM_QUEUE_DATAEXIST, Code 0, Data [5, 6], Data [5, 6], Code 0, Code E_SHM_QUEUE_DATAEXIST]" by simp
  finally show ?thesis .
qed

lemma spec_other:
  assumes "fst e \<noteq> p \<or> (\<exists>m'. snd e = UPut m')" "m \<in> fst a p"
  shows "m \<in> fst (snd (uq_spec cap a e)) p"
proof -
  obtain seen ms where a: "a = (seen, ms)" by (cases a)
  obtain p' e' where e: "e = (p', e')" by (cases e)
  show ?thesis
  proof (cases e')
    case (UPut m')
    then show ?thesis using assms(2) a e by auto
  next
    case (UGet b)
    then show ?thesis using assms a e by (cases ms) auto
  qed
qed

text \<open>
  A message that another process takes out stays in the map of the process that put it: from then on that process cannot put the same message again, for as
  long as it does not take it out itself, whatever the processes do in between and also when the queue is empty.
\<close>
lemma taken_elsewhere_refused:
  assumes "sq_cap_rel cap q []" "\<forall>e\<in>set es. uq_op_ok e" "\<forall>e\<in>set es. fst e = p \<longrightarrow> (\<exists>m'. snd e = UPut m')"
    and "m \<noteq> []" "length m < 2 ^ 31" "length m + 4 < cap"
  shows "last (fst (run uq_step (\<lambda>_. Map.empty, q) ((p, UPut m) # es @ [(p, UPut m)]))) = Code E_SHM_QUEUE_DATAEXIST"
proof -
  let ?es = "(p, UPut m) # es @ [(p, UPut m)]" and ?a = "(\<lambda>_. {}, []) :: (nat \<Rightarrow> byte list set) \<times> byte list list"
  let ?a1 = "snd (uq_spec cap ?a (p, UPut m))"
  have "uq_rel cap (\<lambda>_. Map.empty, q) ?a" using assms(1) by (simp add: uq_rel_def)
  then have R: "fst (run uq_step (\<lambda>_. Map.empty, q) ?es) = fst (run (uq_spec cap) ?a ?es)"
    using uq.run_sim [of cap "(\<lambda>_. Map.empty, q)" ?a ?es] assms(2,5) by auto
  have "m \<in> fst ?a1 p" using assms(4,6) by (simp add: queue_bytes_def)
  then have "m \<in> fst (snd (run (uq_spec cap) ?a1 es)) p"
    using run_keeps [of es "\<lambda>a. m \<in> fst a p" "uq_spec cap" ?a1] assms(3) spec_other by blast
  then have "fst (uq_spec cap (snd (run (uq_spec cap) ?a1 es)) (p, UPut m)) = Code E_SHM_QUEUE_DATAEXIST"
    using assms(4) by (cases "snd (run (uq_spec cap) ?a1 es)") simp
  moreover have "last (fst (run (uq_spec cap) ?a ?es)) = fst (uq_spec cap (snd (run (uq_spec cap) ?a1 es)) (p, UPut m))"
    by (simp add: run_append case_prod_unfold Let_def del: uq_spec.simps)
  ultimately show ?thesis unfolding R by simp
qed

lemma taken_elsewhere_refused_witness:
  "last (fst (run uq_step (\<lambda>_. Map.empty, queue_example) ((1, UPut [5, 6]) # [(2, UGet 9)] @ [(1, UPut [5, 6])]))) = Code E_SHM_QUEUE_DATAEXIST"
  by (rule taken_elsewhere_refused [OF queue_example_rel]) simp_all

text \<open>A process that attaches to a queue with messages takes exactly these for queued.\<close>

lemma uq_Init_spec:
  assumes "Queue_Init create attach mem True = (0, Some q)" "sq_rel q ms"
  shows "\<exists>mp. uq_Init create attach mem True 0 0 = Some (0, mp, Some q) \<and> dom mp = set ms"
proof -
  have "dom (foldl (\<lambda>m d. if m d = None then m(d \<mapsto> 0) else m) mp xs) = dom mp \<union> set xs" for mp :: data_map and xs
    by (induction xs arbitrary: mp) auto
  moreover have "GetAllQueueData q [] 0 0 = Some (0, ms)" using queue_scan [OF assms(2), of "[]"] by (simp add: shm_codes)
  ultimately show ?thesis using assms(1) by (simp add: uq_Init_def)
qed

end
