(* ===== verification/StrTool.thy ===== *)
theory StrTool
  imports LogLib
begin

text \<open>
  The text functions of \<open>CStrTool\<close> and \<open>CHtmlUtil\<close> (\<^verbatim>\<open>mmlib/util/util.cpp\<close>): replacing, splitting and joining, decimal and hexadecimal
  numbers, sizes with a unit, markup. A position from which a loop goes on is the rest of the text behind it. \<open>None\<close> stands for a loop that does not
  end and for an access outside a text. The functions that convert between character sets call \<open>iconv\<close> and are not modelled.
\<close>

section \<open>Replacing\<close>

partial_function (option) MyReplaceAll :: "string \<Rightarrow> string \<Rightarrow> string \<Rightarrow> string option" where
  "MyReplaceAll strInput strOld strNew =
     (case find_sub strOld strInput of
        None \<Rightarrow> Some strInput
      | Some pos \<Rightarrow> MyReplaceAll (take pos strInput @ strNew @ drop (pos + length strOld) strInput) strOld strNew)"

lemma find_sub_Some: "find_sub pat s = Some i \<Longrightarrow> i + length pat \<le> length s \<and> take (length pat) (drop i s) = pat"
proof (induction s arbitrary: i)
  case (Cons c cs)
  show ?case
  proof (cases "take (length pat) (c # cs) = pat")
    case True
    then have "length pat \<le> length (c # cs)" using length_take [of "length pat" "c # cs"] by simp
    with True Cons.prems show ?thesis by simp
  next
    case False
    with Cons show ?thesis by auto
  qed
qed (auto split: if_splits)

function StringReplace_loop :: "string \<Rightarrow> string \<Rightarrow> string \<Rightarrow> bool \<Rightarrow> string" where
  "StringReplace_loop rest sOldSub sNewSub bReplaceAll =
     (if sOldSub = [] then rest
      else case find_sub sOldSub rest of
        None \<Rightarrow> rest
      | Some iPos \<Rightarrow> take iPos rest @ sNewSub @
          (let rest' = drop (iPos + length sOldSub) rest
           in if bReplaceAll then StringReplace_loop rest' sOldSub sNewSub bReplaceAll else rest'))"
  by pat_completeness auto
termination
proof (relation "measure (\<lambda>(rest, _). length rest)")
  fix rest sOldSub sNewSub :: string and bReplaceAll iPos rest'
  assume "sOldSub \<noteq> []" "find_sub sOldSub rest = Some iPos" "rest' = drop (iPos + length sOldSub) rest"
  then show "((rest', sOldSub, sNewSub, bReplaceAll), rest, sOldSub, sNewSub, bReplaceAll) \<in> measure (\<lambda>(rest, _). length rest)"
    using find_sub_Some [of sOldSub rest iPos] by (cases sOldSub) auto
qed simp

definition StringReplace :: "string \<Rightarrow> string \<Rightarrow> string \<Rightarrow> bool \<Rightarrow> string" where
  "StringReplace sStr sOldSub sNewSub bReplaceAll = (if sOldSub = [] then sStr else StringReplace_loop sStr sOldSub sNewSub bReplaceAll)"

text \<open>Both overloads of \<open>StripString\<close>: \<open>strpbrk\<close> stops at the first zero.\<close>

definition StripString :: "string \<Rightarrow> string \<Rightarrow> char \<Rightarrow> string" where
  "StripString Str pszRemove chReplaceWith =
     (let s = takeWhile (\<lambda>c. c \<noteq> NUL) Str
      in map (\<lambda>c. if c \<in> set pszRemove then chReplaceWith else c) s @ drop (length s) Str)"

section \<open>Splitting and joining\<close>

function MySplit_loop :: "string \<Rightarrow> string \<Rightarrow> string list" where
  "MySplit_loop separator rest =
     (let w = takeWhile (\<lambda>c. c \<notin> set separator) rest; r = dropWhile (\<lambda>c. c \<notin> set separator) rest
      in if r = [] then [w]
         else let start = dropWhile (\<lambda>c. c \<in> set separator) r in w # (if start = [] then [] else MySplit_loop separator start))"
  by pat_completeness auto

lemma dropWhile_sep: "dropWhile (\<lambda>c. c \<notin> S) xs \<noteq> [] \<Longrightarrow> length (dropWhile (\<lambda>c. c \<in> S) (dropWhile (\<lambda>c. c \<notin> S) xs)) < length xs"
proof (induction xs)
  case (Cons x xs)
  then show ?case by (cases "x \<in> S") (auto intro: le_imp_less_Suc length_dropWhile_le less_SucI)
qed simp

termination MySplit_loop
  by (relation "measure (\<lambda>(_, rest). length rest)") (simp_all add: dropWhile_sep)

definition MySplit :: "string \<Rightarrow> string \<Rightarrow> string list \<Rightarrow> string list" where
  "MySplit src separator dest = (if src = [] \<or> separator = [] then dest else dest @ MySplit_loop separator src)"

text \<open>The loops of \<open>MySplit2\<close> and \<open>SplitStringUsing\<close> go on behind each separator.\<close>

function MySplit2_loop :: "string \<Rightarrow> string \<Rightarrow> string list" where
  "MySplit2_loop separator str =
     (case dropWhile (\<lambda>c. c \<notin> set separator) str of
        [] \<Rightarrow> [str]
      | _ # str' \<Rightarrow> takeWhile (\<lambda>c. c \<notin> set separator) str # MySplit2_loop separator str')"
  by pat_completeness auto

lemma dropWhile_shorter: "dropWhile P xs = y # ys \<Longrightarrow> length ys < length xs"
  using length_dropWhile_le [of P xs] by simp

termination MySplit2_loop
  by (relation "measure (\<lambda>(_, str). length str)") (simp_all add: dropWhile_shorter)

definition MySplit2 :: "string \<Rightarrow> string \<Rightarrow> string list \<Rightarrow> string list" where
  "MySplit2 src separator dest = (if src = [] \<or> separator = [] then dest else dest @ MySplit2_loop separator src)"

function SplitStringUsing_loop :: "string \<Rightarrow> string \<Rightarrow> nat \<Rightarrow> string list" where
  "SplitStringUsing_loop sFull pszDelim iBeginIndex =
     (let rest = drop iBeginIndex sFull; n = length (takeWhile (\<lambda>c. c \<notin> set pszDelim) rest)
      in if n = length rest then [rest]
         else take n rest # SplitStringUsing_loop sFull pszDelim (iBeginIndex + n + 1))"
  by pat_completeness auto
termination
proof (relation "measure (\<lambda>(sFull, _, iBeginIndex). length sFull - iBeginIndex)")
  fix sFull pszDelim :: string and iBeginIndex rest n
  assume "rest = drop iBeginIndex sFull" "n = length (takeWhile (\<lambda>c. c \<notin> set pszDelim) rest)" "n \<noteq> length rest"
  then show "((sFull, pszDelim, iBeginIndex + n + 1), sFull, pszDelim, iBeginIndex) \<in> measure (\<lambda>(sFull, _, iBeginIndex). length sFull - iBeginIndex)"
    using length_takeWhile_le [of "\<lambda>c. c \<notin> set pszDelim" rest] by auto
qed simp

text \<open>The delimiters end at their first zero; \<open>None\<close> is a null pointer.\<close>

definition SplitStringUsing :: "string \<Rightarrow> string option \<Rightarrow> string list \<Rightarrow> string list" where
  "SplitStringUsing sFull pszDelim vsResult =
     (if sFull = [] then vsResult @ [sFull]
      else case pszDelim of
        None \<Rightarrow> vsResult @ [sFull]
      | Some d \<Rightarrow> if takeWhile (\<lambda>c. c \<noteq> NUL) d = [] then vsResult @ [sFull]
                  else vsResult @ SplitStringUsing_loop sFull (takeWhile (\<lambda>c. c \<noteq> NUL) d) 0)"

fun JoinStrings_loop :: "bool \<Rightarrow> string list \<Rightarrow> string \<Rightarrow> string" where
  "JoinStrings_loop isFirst [] pszDelim = []"
| "JoinStrings_loop isFirst (x # vsItems) pszDelim = (if isFirst then [] else pszDelim) @ x @ JoinStrings_loop False vsItems pszDelim"

definition JoinStrings :: "string list \<Rightarrow> string \<Rightarrow> string" where
  "JoinStrings vsItems pszDelim = JoinStrings_loop True vsItems (takeWhile (\<lambda>c. c \<noteq> NUL) pszDelim)"

definition JsonArray2Map :: "string \<Rightarrow> string list \<Rightarrow> string list option" where
  "JsonArray2Map strJasonArray vctRst =
     (if strJasonArray = [] then Some vctRst
      else do {
        strTmp \<leftarrow> MyReplaceAll strJasonArray ''['' [];
        strTmp \<leftarrow> MyReplaceAll strTmp '']'' [];
        Some (MySplit strTmp '','' vctRst)
      })"

declare StringReplace_loop.simps [simp del] MySplit_loop.simps [simp del] MySplit2_loop.simps [simp del] SplitStringUsing_loop.simps [simp del]

section \<open>Numbers\<close>

text \<open>The \<open>do\<close> loops of \<open>SimpleItoa\<close>: digits are put in front of those that are there.\<close>

fun itoa_loop :: "nat \<Rightarrow> string \<Rightarrow> string" where
  "itoa_loop i p = (let p = char_of (48 + i mod 10) # p; i = i div 10 in if i > 0 then itoa_loop i p else p)"

declare itoa_loop.simps [simp del]

definition SimpleItoa :: "int \<Rightarrow> string" where
  "SimpleItoa i =
     (if i \<ge> 0 then itoa_loop (nat i) []
      else if i > -10 then [CHR ''-'', char_of (48 + nat (- i))]
      else let i = - (i + 10); p = [char_of (48 + nat i mod 10)]; i = i div 10 + 1 in CHR ''-'' # itoa_loop (nat i) p)"

definition hex_char :: "nat \<Rightarrow> char" where
  "hex_char n = (if n < 10 then char_of (48 + n) else char_of (55 + n))"

definition hex2 :: "byte \<Rightarrow> string" where
  "hex2 b = [hex_char (unat b div 16), hex_char (unat b mod 16)]"

definition Str2Hex :: "byte list \<Rightarrow> string" where
  "Str2Hex pvBuff = concat (map (\<lambda>b. hex2 b @ '' '') (take 10240 pvBuff))"

text \<open>\<open>strtol\<close> with base 16 of at most two characters; a prefix \<open>0x\<close> has no digit behind it and gives 0 in any case.\<close>

definition strtol16 :: "string \<Rightarrow> int" where
  "strtol16 s = (let (neg, ds) = split_sign (dropWhile isspace (takeWhile (\<lambda>c. c \<noteq> NUL) s)) in if neg then - digits_val 16 ds else digits_val 16 ds)"

fun Hex2Str_loop :: "string \<Rightarrow> byte list" where
  "Hex2Str_loop (a # b # s) = word_of_int (strtol16 [a, b]) # Hex2Str_loop s"
| "Hex2Str_loop _ = []"

text \<open>For an empty text the terminating zero is written to a vector of size 0.\<close>

definition Hex2Str :: "string \<Rightarrow> byte list option" where
  "Hex2Str pBuff = (if pBuff = [] then None else Some (Hex2Str_loop pBuff))"

fun CheckSum :: "byte list \<Rightarrow> u16" where
  "CheckSum (a # b # bs) = le_word [a, b] XOR CheckSum bs"
| "CheckSum _ = 0"

text \<open>The unit is the last character, which an empty text does not have.\<close>

definition SizeStrToNum :: "string \<Rightarrow> u64 option" where
  "SizeStrToNum pszSize =
     (if pszSize = [] then None
      else let RetSize = strtoull pszSize; SizeUnit = last pszSize
           in Some (if SizeUnit \<in> set ''Kk'' then RetSize * 1024
                    else if SizeUnit \<in> set ''Mm'' then RetSize * 1024 * 1024
                    else if SizeUnit \<in> set ''Gg'' then RetSize * 1024 * 1024 * 1024
                    else RetSize))"

section \<open>Markup\<close>

definition html_char :: "char \<Rightarrow> string" where
  "html_char c =
     (if c = CHR ''<'' then ''&lt;'' else if c = CHR ''>'' then ''&gt;'' else if c = CHR ''&'' then ''&amp;''
      else if c = CHR 0x22 then ''&quot;'' else if c = CHR 0x27 then ''&#39;'' else if c = CHR '' '' then ''&nbsp;'' else [c])"

definition simpleHtmlEncode :: "string \<Rightarrow> string" where
  "simpleHtmlEncode src = concat (map html_char src)"

section \<open>When replacing ends\<close>

lemma find_sub_None: "find_sub pat s = None \<longleftrightarrow> (\<forall>a b. s \<noteq> a @ pat @ b)"
proof (induction s)
  case (Cons c cs)
  show ?case
  proof (cases "take (length pat) (c # cs) = pat")
    case True
    then show ?thesis using append_take_drop_id [of "length pat" "c # cs"] by (metis append_Nil find_sub.simps(2) option.simps(3))
  next
    case False
    then have "(\<forall>a b. c # cs \<noteq> a @ pat @ b) \<longleftrightarrow> (\<forall>a b. cs \<noteq> a @ pat @ b)"
      by (metis append_Cons append_Nil append_eq_Cons_conv append_eq_conv_conj)
    with False Cons show ?thesis by simp
  qed
qed simp

text \<open>What is left has no part to be replaced, whenever the loop ends.\<close>

lemma MyReplaceAll_ends:
  assumes "length strNew < length strOld"
  shows "\<exists>r. MyReplaceAll s strOld strNew = Some r \<and> find_sub strOld r = None"
proof (induction "length s" arbitrary: s rule: less_induct)
  case less
  show ?case
  proof (cases "find_sub strOld s")
    case None
    then show ?thesis by (simp add: MyReplaceAll.simps)
  next
    case (Some i)
    then have "length (take i s @ strNew @ drop (i + length strOld) s) < length s"
      using find_sub_Some [OF Some] assms by (cases strOld) auto
    from less [OF this] Some show ?thesis by (subst MyReplaceAll.simps) simp
  qed
qed

lemma MyReplaceAll_result:
  assumes "MyReplaceAll s old new = Some r"
  shows "find_sub old r = None"
  by (rule MyReplaceAll.raw_induct [where P = "\<lambda>s old new r. find_sub old r = None", OF _ assms]) (auto split: option.splits)

lemma MyReplaceAll_contains:
  assumes "MyReplaceAll s old new = Some r"
  shows "find_sub old new \<noteq> None \<longrightarrow> find_sub old s = None"
proof (rule MyReplaceAll.raw_induct [where P = "\<lambda>s old new r. find_sub old new \<noteq> None \<longrightarrow> find_sub old s = None", OF _ assms], rule impI)
  fix f s old new r
  assume IH: "\<And>s old new r. f s old new = Some r \<Longrightarrow> find_sub old new \<noteq> None \<longrightarrow> find_sub old s = None"
    and f: "(case find_sub old s of None \<Rightarrow> Some s | Some pos \<Rightarrow> f (take pos s @ new @ drop (pos + length old) s) old new) = Some r"
    and n: "find_sub old new \<noteq> None"
  show "find_sub old s = None"
  proof (cases "find_sub old s")
    case (Some i)
    then have "find_sub old (take i s @ new @ drop (i + length old) s) = None" using f n IH by auto
    moreover obtain a b where "new = a @ old @ b" using n unfolding find_sub_None by blast
    then have "take i s @ new @ drop (i + length old) s = (take i s @ a) @ old @ (b @ drop (i + length old) s)" by simp
    ultimately show ?thesis unfolding find_sub_None by blast
  qed
qed

text \<open>
  C36: \<open>MyReplaceAll\<close> starts again at the beginning after each replacement. When the new text is shorter than the old one it ends, and the result has no
  occurrence of the old text. When the old text is part of the new one (or empty), it never ends for any text that has the old one.
\<close>
theorem MyReplaceAll_termination:
  "(length strNew < length strOld \<longrightarrow> (\<exists>r. MyReplaceAll s strOld strNew = Some r \<and> find_sub strOld r = None))
   \<and> (find_sub strOld strNew \<noteq> None \<and> find_sub strOld s \<noteq> None \<longrightarrow> MyReplaceAll s strOld strNew = None)"
  using MyReplaceAll_ends [of strNew strOld s] MyReplaceAll_contains [of s strOld strNew] by (cases "MyReplaceAll s strOld strNew") auto

theorem MyReplaceAll_termination_witness:
  "(\<exists>r. MyReplaceAll ''a[[b'' ''['' [] = Some r) \<and> MyReplaceAll ''one & two'' ''&'' ''&amp;'' = None"
proof
  have "length [] < length ''[''" by simp
  then show "\<exists>r. MyReplaceAll ''a[[b'' ''['' [] = Some r" using MyReplaceAll_termination [of "[]" "''[''" "''a[[b''"] by blast
  have "find_sub ''&'' ''&amp;'' \<noteq> None" "find_sub ''&'' ''one & two'' \<noteq> None" by code_simp+
  then show "MyReplaceAll ''one & two'' ''&'' ''&amp;'' = None" using MyReplaceAll_termination [of "''&amp;''" "''&''" "''one & two''"] by blast
qed

text \<open>A single character is taken out everywhere.\<close>

lemma find_char: "find_sub [c] s = None \<longleftrightarrow> c \<notin> set s"
  by (induction s) auto

lemma MyReplaceAll_char: "MyReplaceAll s [c] [] = Some (filter (\<lambda>x. x \<noteq> c) s)"
proof (induction "length s" arbitrary: s rule: less_induct)
  case less
  show ?case
  proof (cases "find_sub [c] s")
    case None
    then have "filter (\<lambda>x. x \<noteq> c) s = s" unfolding find_char by (intro filter_True) auto
    then show ?thesis using None by (simp add: MyReplaceAll.simps)
  next
    case (Some i)
    have "take (Suc 0) (drop i s) = [c]" and i: "i < length s" using find_sub_Some [OF Some] by simp_all
    then have i2: "s ! i = c" using take_Suc_conv_app_nth [of 0 "drop i s"] by simp
    have "filter (\<lambda>x. x \<noteq> c) (take i s @ drop (Suc i) s) = filter (\<lambda>x. x \<noteq> c) s"
      using arg_cong [OF id_take_nth_drop [OF i], of "filter (\<lambda>x. x \<noteq> c)"] i2 by simp
    moreover have "length (take i s @ drop (Suc i) s) < length s" using i by simp
    ultimately show ?thesis using less [of "take i s @ drop (Suc i) s"] Some by (subst MyReplaceAll.simps) simp
  qed
qed

lemma JsonArray2Map_eq:
  "s \<noteq> [] \<Longrightarrow> JsonArray2Map s v = Some (MySplit (filter (\<lambda>c. c \<noteq> CHR '']'' \<and> c \<noteq> CHR ''['') s) '','' v)"
  by (simp add: JsonArray2Map_def MyReplaceAll_char filter_filter conj_commute)

section \<open>What splitting gives\<close>

lemma SplitStringUsing_loop_eq: "i \<le> length s \<Longrightarrow> SplitStringUsing_loop s d i = MySplit2_loop d (drop i s)"
proof (induction s d i rule: SplitStringUsing_loop.induct)
  case (1 s d i)
  let ?r = "drop i s" and ?P = "\<lambda>c. c \<notin> set d"
  define n where "n = length (takeWhile ?P ?r)"
  have n: "takeWhile ?P ?r = take n ?r" "dropWhile ?P ?r = drop n ?r" unfolding n_def by (rule takeWhile_eq_take, rule dropWhile_eq_drop)
  show ?case
  proof (cases "n = length ?r")
    case True
    then show ?thesis by (subst SplitStringUsing_loop.simps, subst MySplit2_loop.simps) (simp add: n n_def [symmetric] Let_def)
  next
    case False
    then have l: "n < length ?r" using length_takeWhile_le [of ?P ?r] by (simp add: n_def)
    then have d: "drop n ?r = ?r ! n # drop (i + n + 1) s" "i + n + 1 \<le> length s" using Cons_nth_drop_Suc [of n ?r] by (simp_all add: add.commute)
    have "SplitStringUsing_loop s d (i + n + 1) = MySplit2_loop d (drop (i + n + 1) s)" by (rule 1(1) [OF refl n_def False d(2)])
    with False l d(1) show ?thesis
      by (subst SplitStringUsing_loop.simps, subst MySplit2_loop.simps) (simp add: n n_def [symmetric] Let_def)
  qed
qed

text \<open>The two functions agree but for empty arguments, where one gives the text itself and the other nothing.\<close>

lemma SplitStringUsing_MySplit2:
  "sFull \<noteq> [] \<Longrightarrow> d \<noteq> [] \<Longrightarrow> NUL \<notin> set d \<Longrightarrow> SplitStringUsing sFull (Some d) v = MySplit2 sFull d v"
proof -
  assume a: "sFull \<noteq> []" "d \<noteq> []" "NUL \<notin> set d"
  then have "takeWhile (\<lambda>c. c \<noteq> NUL) d = d" by (auto simp: takeWhile_eq_all_conv)
  with a show ?thesis using SplitStringUsing_loop_eq [of 0 sFull d] by (simp add: SplitStringUsing_def MySplit2_def del: takeWhile_eq_all_conv)
qed

text \<open>\<open>MySplit\<close> leaves out the empty pieces, but not the first one; what the comment at \<open>MySplit2\<close> calls its error.\<close>

lemma MySplit2_seps: "MySplit2_loop d str = (case dropWhile (\<lambda>c. c \<notin> set d) str of [] \<Rightarrow> [str]
    | _ # str' \<Rightarrow> takeWhile (\<lambda>c. c \<notin> set d) str # MySplit2_loop d str')"
  by (rule MySplit2_loop.simps)

lemma MySplit2_ne: "MySplit2_loop d s \<noteq> []"
  by (subst MySplit2_seps) (cases "dropWhile (\<lambda>c. c \<notin> set d) s"; simp del: dropWhile_eq_Nil_conv)

lemma MySplit2_nonempty: "filter (\<lambda>w. w \<noteq> []) (MySplit2_loop d s) = filter (\<lambda>w. w \<noteq> []) (MySplit2_loop d (dropWhile (\<lambda>c. c \<in> set d) s))"
proof (induction s)
  case (Cons c s)
  then show ?case by (cases "c \<in> set d") (simp_all add: MySplit2_loop.simps [of d "c # s"])
qed simp

lemma MySplit_loop_eq: "rest \<noteq> [] \<Longrightarrow> MySplit_loop d rest = hd (MySplit2_loop d rest) # filter (\<lambda>w. w \<noteq> []) (tl (MySplit2_loop d rest))"
proof (induction d rest rule: MySplit_loop.induct)
  case (1 d rest)
  let ?P = "\<lambda>c. c \<notin> set d" and ?Q = "\<lambda>c. c \<in> set d"
  show ?case
  proof (cases "dropWhile ?P rest")
    case Nil
    then show ?thesis using takeWhile_dropWhile_id [of ?P rest]
      by (simp add: MySplit_loop.simps [of d rest] MySplit2_seps [of d rest] Let_def del: dropWhile_eq_Nil_conv takeWhile_dropWhile_id)
  next
    case (Cons c str)
    then have c: "c \<in> set d" using hd_dropWhile [of ?P rest] by simp
    have f: "filter (\<lambda>w. w \<noteq> []) (MySplit2_loop d str) = filter (\<lambda>w. w \<noteq> []) (MySplit2_loop d (dropWhile ?Q str))" by (rule MySplit2_nonempty)
    have m2: "MySplit2_loop d rest = takeWhile ?P rest # MySplit2_loop d str" using Cons by (simp add: MySplit2_seps [of d rest])
    show ?thesis
    proof (cases "dropWhile ?Q str")
      case Nil
      have "MySplit2_loop d (dropWhile ?Q str) = [[]]" unfolding Nil by (simp add: MySplit2_loop.simps)
      then show ?thesis using Cons c Nil f m2 by (simp add: MySplit_loop.simps [of d rest] Let_def del: dropWhile_eq_Nil_conv)
    next
      case (Cons c' str')
      then have c': "c' \<notin> set d" using hd_dropWhile [of ?Q str] by simp
      have n: "dropWhile ?Q str \<noteq> []" using Cons by simp
      have "MySplit_loop d (dropWhile ?Q str) = hd (MySplit2_loop d (dropWhile ?Q str)) # filter (\<lambda>w. w \<noteq> []) (tl (MySplit2_loop d (dropWhile ?Q str)))"
        using 1(1) [OF refl refl _ refl] \<open>dropWhile ?P rest = c # str\<close> c n by simp
      moreover have "hd (MySplit2_loop d (dropWhile ?Q str)) \<noteq> []" unfolding Cons using c' by (simp add: MySplit2_seps [of d "c' # str'"] split: list.split)
      moreover have "MySplit2_loop d (dropWhile ?Q str) \<noteq> []" by (rule MySplit2_ne)
      ultimately have "MySplit_loop d (dropWhile ?Q str) = filter (\<lambda>w. w \<noteq> []) (MySplit2_loop d (dropWhile ?Q str))"
        by (cases "MySplit2_loop d (dropWhile ?Q str)") simp_all
      then show ?thesis using \<open>dropWhile ?P rest = c # str\<close> c n f m2
        by (simp add: MySplit_loop.simps [of d rest] Let_def del: dropWhile_eq_Nil_conv)
    qed
  qed
qed

lemma JoinStrings_Cons: "JoinStrings_loop True (x # xs) d = x @ JoinStrings_loop False xs d"
  by simp

lemma JoinStrings_cont: "xs \<noteq> [] \<Longrightarrow> JoinStrings_loop False xs d = d @ JoinStrings_loop True xs d"
  by (cases xs) simp_all

lemma join_split: "JoinStrings_loop True (MySplit2_loop [c] s) [c] = s"
proof (induction "[c]" s rule: MySplit2_loop.induct)
  case (1 s)
  show ?case
  proof (cases "dropWhile (\<lambda>x. x \<notin> set [c]) s")
    case Nil
    then show ?thesis by (subst MySplit2_seps) (simp del: dropWhile_eq_Nil_conv)
  next
    case (Cons x s')
    then have x: "x = c" using hd_dropWhile [of "\<lambda>x. x \<notin> set [c]" s] by simp
    have "JoinStrings_loop True (MySplit2_loop [c] s) [c] = takeWhile (\<lambda>x. x \<notin> set [c]) s @ [c] @ s'"
      using Cons 1 [OF Cons] JoinStrings_cont [OF MySplit2_ne [of "[c]" s'], of "[c]"] by (subst MySplit2_seps) simp
    also have "\<dots> = s" using takeWhile_dropWhile_id [of "\<lambda>x. x \<notin> set [c]" s] unfolding Cons x by simp
    finally show ?thesis .
  qed
qed

lemma split_join: "xs \<noteq> [] \<Longrightarrow> \<forall>x\<in>set xs. c \<notin> set x \<Longrightarrow> MySplit2_loop [c] (JoinStrings_loop True xs [c]) = xs"
proof (induction xs)
  case (Cons x xs)
  have t: "takeWhile (\<lambda>y. y \<notin> set [c]) (x @ r) = x @ takeWhile (\<lambda>y. y \<notin> set [c]) r"
    "dropWhile (\<lambda>y. y \<notin> set [c]) (x @ r) = dropWhile (\<lambda>y. y \<notin> set [c]) r" for r
    using Cons.prems(2) by (auto intro!: takeWhile_append2 dropWhile_append2)
  show ?case
  proof (cases "xs = []")
    case True
    moreover have "dropWhile (\<lambda>y. y \<notin> set [c]) x = []" using t(2) [of "[]"] by simp
    ultimately show ?thesis by (subst MySplit2_seps) (simp del: dropWhile_eq_Nil_conv)
  next
    case False
    then have "MySplit2_loop [c] (JoinStrings_loop True xs [c]) = xs" using Cons by simp
    then show ?thesis using t [of "c # JoinStrings_loop True xs [c]"] JoinStrings_cont [OF False, of "[c]"]
      by (subst MySplit2_seps) simp
  qed
qed simp

text \<open>
  Splitting at one character and joining with it are inverse to each other: the pieces of a text that is not empty, joined again, are the text, and
  splitting joined items gives the items, provided there are any, none of them has the character, and not all is empty. \<open>MySplit2\<close> gives the same
  pieces as \<open>SplitStringUsing\<close>, and \<open>MySplit\<close> those that are not empty, and the first.
\<close>
lemma split_join_inverse:
  assumes "c \<noteq> NUL" "s \<noteq> []"
  shows "JoinStrings (SplitStringUsing s (Some [c]) []) [c] = s
    \<and> (xs \<noteq> [] \<and> (\<forall>x\<in>set xs. c \<notin> set x) \<and> JoinStrings xs [c] \<noteq> [] \<longrightarrow> SplitStringUsing (JoinStrings xs [c]) (Some [c]) [] = xs)
    \<and> MySplit2 s [c] [] = SplitStringUsing s (Some [c]) []
    \<and> MySplit s [c] [] = hd (MySplit2 s [c] []) # filter (\<lambda>w. w \<noteq> []) (tl (MySplit2 s [c] []))"
proof -
  have S: "SplitStringUsing t (Some [c]) [] = MySplit2_loop [c] t" if "t \<noteq> []" for t
    using SplitStringUsing_MySplit2 [of t "[c]" "[]"] that assms(1) by (simp add: MySplit2_def)
  have J: "JoinStrings ys [c] = JoinStrings_loop True ys [c]" for ys using assms(1) by (simp add: JoinStrings_def)
  show ?thesis
    using S [OF assms(2)] S [of "JoinStrings xs [c]"] join_split [of c s] split_join [of xs c] MySplit_loop_eq [OF assms(2), of "[c]"] assms(2)
    by (simp add: J MySplit_def MySplit2_def)
qed

lemma split_join_inverse_witness:
  "JoinStrings (SplitStringUsing ''123||456'' (Some ''|'') []) ''|'' = ''123||456''
    \<and> MySplit ''123||456'' ''|'' [] = hd (MySplit2 ''123||456'' ''|'' []) # filter (\<lambda>w. w \<noteq> []) (tl (MySplit2 ''123||456'' ''|'' []))"
  using split_join_inverse [of "CHR ''|''" "''123||456''" "[]"] by (simp add: NUL_def)

section \<open>Numbers and markup\<close>

lemma itoa_loop_eq: "itoa_loop n p = dec_nat n @ p"
proof (induction n p rule: itoa_loop.induct)
  case (1 n p)
  moreover have "n div 10 = 0 \<longleftrightarrow> n < 10" by (simp add: div_eq_0_iff)
  ultimately show ?case by (cases "n < 10") (simp_all add: itoa_loop.simps [of n p] dec_nat.simps [of n] Let_def)
qed

text \<open>\<open>SimpleItoa\<close> gives the decimal representation, also of the smallest \<open>int\<close>, and stays inside the 11 characters before the terminating zero.\<close>

lemma SimpleItoa_eq:
  assumes "- (2 ^ 31) \<le> i" "i < 2 ^ 31"
  shows "SimpleItoa i = dec_int i \<and> length (SimpleItoa i) \<le> 11"
proof -
  have "SimpleItoa i = dec_int i"
  proof (cases "i \<le> -10")
    case True
    define n where "n = nat (- i)"
    have n: "i = - int n" "10 \<le> n" using True by (simp_all add: n_def)
    have "nat (- (i + 10)) = n - 10" "nat (- (i + 10) div 10 + 1) = n div 10" using n by (simp_all add: nat_div_distrib)
    moreover have "(n - 10) mod 10 = n mod 10" using n(2) le_mod_geq [of 10 n] by simp
    ultimately show ?thesis using True n by (simp add: SimpleItoa_def dec_int_def Let_def itoa_loop_eq dec_nat.simps [of n])
  next
    case False
    then show ?thesis by (auto simp: SimpleItoa_def dec_int_def itoa_loop_eq dec_nat.simps [of "nat (- i)"])
  qed
  moreover have "nat i < 10 ^ Suc 9" "nat (- i) < 10 ^ Suc 9" using assms by (simp_all add: nat_less_iff)
  then have "length (dec_int i) \<le> 11"
    using dec_nat_length [of "nat (- i)" 9] dec_nat_length [of "nat i" 9] assms by (cases "i < 0") (simp_all add: dec_int_def)
  ultimately show ?thesis by simp
qed

lemma byte_less: "unat b < 256" for b :: byte
  by (rule order.strict_trans2 [OF unsigned_less]) simp

lemma hex_char_val: "n < 16 \<Longrightarrow> digit_val (hex_char n) = int n \<and> hex_char n \<noteq> NUL \<and> \<not> isspace (hex_char n) \<and> hex_char n \<notin> {CHR ''-'', CHR ''+''}"
proof -
  assume "n < 16"
  then have "n \<in> set [0..<16]" by simp
  also have "[0..<16] = [0, 1, 2, 3, 4, 5, 6, 7, 8, 9, 10, 11, 12, 13, 14, 15::nat]" by code_simp
  finally show ?thesis
    by (simp only: list.set insert_iff empty_iff, elim disjE FalseE)
      (simp_all add: hex_char_def digit_val_def char_of_def bit_0 NUL_def isspace_def is_ws_def TAB_def CR_def LF_def)
qed

text \<open>Without its blanks the text of \<open>Str2Hex\<close> is read back by \<open>Hex2Str\<close>.\<close>

lemma strtol16_hex2: "word_of_int (strtol16 (hex2 b)) = b"
proof -
  have a: "unat b div 16 < 16" "unat b mod 16 < 16" using byte_less [of b] by (simp_all add: div_less_iff_less_mult)
  have "unat b div 16 * 16 + unat b mod 16 = unat b" by simp
  then have "int (unat b div 16) * 16 + int (unat b mod 16) = uint b" by (metis of_nat_add of_nat_mult of_nat_numeral uint_nat)
  moreover have "strtol16 (hex2 b) = int (unat b div 16) * 16 + int (unat b mod 16)"
    using hex_char_val [OF a(1)] hex_char_val [OF a(2)] a by (simp add: strtol16_def hex2_def split_sign_def digits_val_def digits_def)
  ultimately show ?thesis by simp
qed

lemma Hex2Str_hex2: "Hex2Str_loop (concat (map hex2 bs)) = bs"
  by (induction bs) (simp_all add: hex2_def strtol16_hex2 [unfolded hex2_def])

lemma Str2Hex_roundtrip:
  assumes "length bs \<le> 10240" "bs \<noteq> []"
  shows "Hex2Str (filter (\<lambda>c. c \<noteq> CHR '' '') (Str2Hex bs)) = Some bs"
proof -
  have "hex_char n \<noteq> CHR '' ''" if "n < 16" for n using hex_char_val [OF that] by (auto simp: isspace_def is_ws_def)
  then have "filter (\<lambda>c. c \<noteq> CHR '' '') (hex2 b) = hex2 b" for b
    using byte_less [of b] by (simp add: hex2_def div_less_iff_less_mult)
  then have "filter (\<lambda>c. c \<noteq> CHR '' '') (Str2Hex bs) = concat (map hex2 bs)" using assms(1) by (induction bs) (simp_all add: Str2Hex_def)
  then show ?thesis using assms(2) Hex2Str_hex2 [of bs] by (cases bs) (auto simp: Hex2Str_def hex2_def)
qed

text \<open>Encoded text has no character with a meaning in markup, and different texts stay different.\<close>

lemma html_char_prefix: "html_char c @ xs = html_char d @ ys \<Longrightarrow> c = d \<and> xs = ys"
  by (auto simp: html_char_def split: if_splits)

lemma simpleHtmlEncode_inj: "simpleHtmlEncode s = simpleHtmlEncode t \<Longrightarrow> s = t"
proof (induction s arbitrary: t)
  case Nil
  then show ?case by (cases t) (auto simp: simpleHtmlEncode_def html_char_def split: if_splits)
next
  case (Cons c s)
  then obtain d t' where t: "t = d # t'" by (cases t) (auto simp: simpleHtmlEncode_def html_char_def split: if_splits)
  with Cons.prems have "html_char c @ simpleHtmlEncode s = html_char d @ simpleHtmlEncode t'" by (simp add: simpleHtmlEncode_def)
  from html_char_prefix [OF this] Cons.IH t show ?case by simp
qed

lemma simpleHtmlEncode_safe: "set (simpleHtmlEncode s) \<inter> {CHR ''<'', CHR ''>'', CHR 0x22, CHR 0x27, CHR '' ''} = {}"
  by (induction s) (auto simp: simpleHtmlEncode_def html_char_def split: if_splits)

end
