(* ===== verification/TextCheck.thy ===== *)
theory TextCheck
  imports StrTool
begin

text \<open>
  The functions of \<open>CStrTool\<close> and \<open>CHtmlUtil\<close> (\<^verbatim>\<open>mmlib/util/util.cpp\<close>) that work on the bytes of a text: the check of names in GBK, the filter of
  UTF-8 for JSON, cutting of half characters, and hash functions. A text that ends with a zero is the list of the bytes before it.
\<close>

section \<open>Names\<close>

definition name_byte :: "byte \<Rightarrow> bool" where
  "name_byte c \<longleftrightarrow> 0x30 \<le> c \<and> c \<le> 0x39 \<or> 0x41 \<le> c \<and> c \<le> 0x5A \<or> 0x61 \<le> c \<and> c \<le> 0x7A \<or> c = 0x5F"

definition gbk_pair :: "byte \<Rightarrow> byte \<Rightarrow> bool" where
  "gbk_pair a b \<longleftrightarrow> 0xA1 \<le> a \<and> a \<le> 0xA9 \<and> 0xA1 \<le> b \<and> b \<le> 0xFE \<or> 0xB0 \<le> a \<and> a \<le> 0xF7 \<and> 0xA1 \<le> b \<and> b \<le> 0xFE
     \<or> 0x81 \<le> a \<and> a \<le> 0xA0 \<and> 0x40 \<le> b \<and> b \<le> 0xFE \<or> 0xAA \<le> a \<and> a \<le> 0xFE \<and> 0x40 \<le> b \<and> b \<le> 0xA0
     \<or> 0xA8 \<le> a \<and> a \<le> 0xA9 \<and> 0x40 \<le> b \<and> b \<le> 0xA0"

definition gbk_refused :: "byte \<Rightarrow> byte \<Rightarrow> bool" where
  "gbk_refused a b \<longleftrightarrow> a = 0xA1 \<and> b = 0xA1 \<or> a = 0xA1 \<and> b = 0xB2 \<or> a = 0xA1 \<and> b = 0xB3 \<or> a = 0xA3 \<and> b = 0xA8 \<or> a = 0xA3 \<and> b = 0xA9
     \<or> a = 0xA9 \<and> b = 0x76 \<or> a = 0xA9 \<and> b = 0x77 \<or> a = 0xA9 \<and> b = 0x7A \<or> a = 0xA9 \<and> b = 0x7B \<or> a = 0xA8 \<and> 0xA1 \<le> b \<and> b \<le> 0xC0
     \<or> 0x81 \<le> a \<and> a \<le> 0xA0 \<and> b = 0x7F \<or> 0xAA \<le> a \<and> a \<le> 0xFE \<and> b = 0x7F \<or> 0xA8 \<le> a \<and> a \<le> 0xA9 \<and> b = 0x7F"

definition MAX_CHECK_NAME_LEN :: nat where "MAX_CHECK_NAME_LEN = 1024"

text \<open>One round of the loop: whether the character is valid, what is written for it, and the rest of the text. At the end the next byte is the zero.\<close>

definition name_char :: "byte \<Rightarrow> byte list \<Rightarrow> bool \<times> byte list \<times> byte list" where
  "name_char c cs =
     (if c < 0x80 then if name_byte c then (True, [c], cs) else (False, [0x5F], cs)
      else case cs of
        [] \<Rightarrow> (False, [0x5F], cs)
      | d # ds \<Rightarrow> if gbk_pair c d then if gbk_refused c d then (False, [0xA1, 0xF5], ds) else (True, [c, d], ds) else (False, [0x5F], cs))"

lemma name_char_rest: "name_char c cs = (r, o1, rest) \<Longrightarrow> length rest \<le> length cs \<and> length o1 + length rest = Suc (length cs) \<and> o1 \<noteq> []"
  by (auto simp: name_char_def split: if_splits list.splits)

function name_loop :: "nat \<Rightarrow> byte list \<Rightarrow> bool \<times> byte list" where
  "name_loop iStrLen [] = (True, [])"
| "name_loop iStrLen (c # cs) =
     (case name_char c cs of (valid, put, rest) \<Rightarrow>
        if iStrLen + length put \<ge> MAX_CHECK_NAME_LEN then (False, put)
        else case name_loop (iStrLen + length put) rest of (r, pszOutStr) \<Rightarrow> (valid \<and> r, put @ pszOutStr))"
  by pat_completeness auto
termination
  by (relation "measure (\<lambda>(_, s). length s)") (auto dest!: name_char_rest [OF sym])

definition CheckValidNameGBK :: "byte list option \<Rightarrow> bool \<times> byte list option" where
  "CheckValidNameGBK pszInStr = (case pszInStr of None \<Rightarrow> (False, None) | Some s \<Rightarrow> let (r, pszOutStr) = name_loop 0 s in (r, Some pszOutStr))"

text \<open>A name that is accepted is written unchanged, and nothing that is written is longer than the name.\<close>

lemma name_loop_length: "length (snd (name_loop n s)) \<le> length s"
proof (induction n s rule: name_loop.induct)
  case (2 n c cs)
  obtain r put rest where c: "name_char c cs = (r, put, rest)" by (metis prod_cases3)
  have "length (snd (name_loop (n + length put) rest)) \<le> length rest" if "\<not> n + length put \<ge> MAX_CHECK_NAME_LEN"
    using 2 [OF c [symmetric] refl that] by simp
  then show ?case using c name_char_rest [OF c] by (auto split: prod.splits)
qed simp

lemma name_loop_True: "fst (name_loop n s) \<Longrightarrow> snd (name_loop n s) = s \<and> (s \<noteq> [] \<longrightarrow> n + length s < MAX_CHECK_NAME_LEN)"
proof (induction n s rule: name_loop.induct)
  case (2 n c cs)
  obtain r put rest where c: "name_char c cs = (r, put, rest)" by (metis prod_cases3)
  have l: "\<not> n + length put \<ge> MAX_CHECK_NAME_LEN" using 2(2) c by (auto split: if_splits)
  then have t: "r" "fst (name_loop (n + length put) rest)" using 2(2) c by (auto split: prod.splits)
  have "put @ rest = c # cs" using c t(1) by (auto simp: name_char_def split: if_splits list.splits)
  moreover from arg_cong [OF this, of length] have "length put + length rest = Suc (length cs)" by simp
  moreover have "snd (name_loop (n + length put) rest) = rest \<and> (rest \<noteq> [] \<longrightarrow> n + length put + length rest < MAX_CHECK_NAME_LEN)"
    using 2(1) [OF c [symmetric] refl l t(2)] by simp
  ultimately show ?case using c l by (cases "rest = []") (auto split: prod.splits)
qed simp

text \<open>What is written for a name is accepted when it is checked again.\<close>

lemma name_char_again:
  assumes "name_char c cs = (r, put, rest)"
  shows "\<exists>d ds. put = d # ds \<and> name_char d (ds @ x) = (True, put, x)"
proof -
  have "name_char 0x5F x = (True, [0x5F], x)" by (simp add: name_char_def name_byte_def)
  moreover have "name_char 0xA1 (0xF5 # x) = (True, [0xA1, 0xF5], x)" by (simp add: name_char_def gbk_pair_def gbk_refused_def)
  ultimately show ?thesis using assms unfolding name_char_def [of c] by (auto simp: name_char_def [of c] split: if_splits list.splits)
qed

lemma name_loop_again: "n + length (snd (name_loop n s)) < MAX_CHECK_NAME_LEN \<Longrightarrow> name_loop n (snd (name_loop n s)) = (True, snd (name_loop n s))"
proof (induction n s rule: name_loop.induct)
  case (2 n c cs)
  obtain r put rest where c: "name_char c cs = (r, put, rest)" by (metis prod_cases3)
  have l: "\<not> n + length put \<ge> MAX_CHECK_NAME_LEN"
  proof
    assume "n + length put \<ge> MAX_CHECK_NAME_LEN"
    then have "snd (name_loop n (c # cs)) = put" using c by simp
    then show False using 2(2) \<open>n + length put \<ge> MAX_CHECK_NAME_LEN\<close> by simp
  qed
  define x where "x = snd (name_loop (n + length put) rest)"
  have o1: "snd (name_loop n (c # cs)) = put @ x" using c l by (simp add: x_def split: prod.splits)
  then have x: "name_loop (n + length put) x = (True, x)" using 2(1) [OF c [symmetric] refl l] 2(2) by (simp add: x_def [symmetric])
  obtain d ds where d: "put = d # ds" "name_char d (ds @ x) = (True, put, x)" using name_char_again [OF c] by blast
  have "name_loop n (d # ds @ x) = (True, put @ x)" using d(2) l x by (subst name_loop.simps) simp
  then show ?case unfolding o1 using d(1) by simp
qed simp

text \<open>
  C35: \<open>CheckValidNameGBK\<close> accepts a name only when it writes the same name, of less than 1024 bytes. It never writes more bytes than the name has,
  and what it writes for a name it does not accept is accepted in turn, unless it has 1024 bytes or more.
\<close>
theorem CheckValidNameGBK_repairs:
  "case CheckValidNameGBK (Some s) of
     (_, None) \<Rightarrow> False
   | (valid, Some t) \<Rightarrow> (valid \<longrightarrow> t = s \<and> length s < 1024) \<and> length t \<le> length s
       \<and> (length t < 1024 \<longrightarrow> CheckValidNameGBK (Some t) = (True, Some t))"
  using name_loop_True [of 0 s] name_loop_length [of 0 s] name_loop_again [of 0 s]
  by (cases "s = []") (auto simp: CheckValidNameGBK_def MAX_CHECK_NAME_LEN_def split: prod.splits)

theorem CheckValidNameGBK_repairs_witness:
  "CheckValidNameGBK (Some [0x41, 0x20, 0xA1, 0xA1, 0xB0]) = (False, Some [0x41, 0x5F, 0xA1, 0xF5, 0x5F])
    \<and> CheckValidNameGBK (Some [0x41, 0x5F, 0xA1, 0xF5, 0x5F]) = (True, Some [0x41, 0x5F, 0xA1, 0xF5, 0x5F])"
proof -
  have "CheckValidNameGBK (Some [0x41, 0x20, 0xA1, 0xA1, 0xB0]) = (False, Some [0x41, 0x5F, 0xA1, 0xF5, 0x5F])" by code_simp
  then show ?thesis using CheckValidNameGBK_repairs [of "[0x41, 0x20, 0xA1, 0xA1, 0xB0]"] by simp
qed

section \<open>UTF-8 in JSON\<close>

definition nBytes :: "byte \<Rightarrow> nat option" where
  "nBytes c =
     (if c AND 0xE0 = 0xC0 then Some 1 else if c AND 0xF0 = 0xE0 then Some 2 else if c AND 0xF8 = 0xF0 then Some 3
      else if c AND 0xFC = 0xF8 then Some 4 else if c AND 0xFE = 0xFC then Some 5 else None)"

definition follows :: "byte \<Rightarrow> bool" where
  "follows c \<longleftrightarrow> c AND 0xC0 = 0x80"

definition json_ascii :: "byte \<Rightarrow> byte list" where
  "json_ascii c = (if c \<in> {0x08, 0x0C, 0x0A, 0x0D, 0x09} then [0x20] else if c = 0x22 \<or> c = 0x5C then [0x5C, c] else [c])"

function FilterUtf8ForJson :: "byte list \<Rightarrow> byte list" where
  "FilterUtf8ForJson [] = []"
| "FilterUtf8ForJson (c # cs) =
     (if c < 0x80 then json_ascii c @ FilterUtf8ForJson cs
      else case nBytes c of
        None \<Rightarrow> FilterUtf8ForJson cs
      | Some n \<Rightarrow>
          if n > length cs then FilterUtf8ForJson cs
          else if \<not> list_all follows (take n cs) then FilterUtf8ForJson cs
          else (c # take n cs) @ FilterUtf8ForJson (drop n cs))"
  by pat_completeness auto
termination by (relation "measure length") auto

text \<open>
  The units of the result: an ASCII character that is neither a quote nor a backslash nor one of the five control characters, an escaped quote or
  backslash, or a whole character of several bytes.
\<close>

definition json_unit :: "byte list \<Rightarrow> bool" where
  "json_unit u \<longleftrightarrow> (\<exists>c. u = [c] \<and> c < 0x80 \<and> c \<notin> {0x08, 0x0C, 0x0A, 0x0D, 0x09, 0x22, 0x5C}) \<or> u = [0x5C, 0x22] \<or> u = [0x5C, 0x5C]
     \<or> (\<exists>c n fs. u = c # fs \<and> \<not> c < 0x80 \<and> nBytes c = Some n \<and> length fs = n \<and> list_all follows fs)"

lemma json_ascii_unit: "c < 0x80 \<Longrightarrow> json_unit (json_ascii c)"
proof -
  assume c: "c < 0x80"
  consider "c \<in> {0x08, 0x0C, 0x0A, 0x0D, 0x09}" | "c = 0x22 \<or> c = 0x5C" | "c \<notin> {0x08, 0x0C, 0x0A, 0x0D, 0x09, 0x22, 0x5C}" by blast
  then show ?thesis
  proof cases
    case 1
    then have "json_ascii c = [0x20]" unfolding json_ascii_def by (rule if_P)
    moreover have "json_unit [0x20]" unfolding json_unit_def by (intro disjI1 exI [of _ "0x20"]) simp
    ultimately show ?thesis by simp
  next
    case 2
    then show ?thesis by (auto simp: json_ascii_def json_unit_def)
  next
    case 3
    then have "json_ascii c = [c]" unfolding json_ascii_def by simp
    then show ?thesis using 3 c unfolding json_unit_def by auto
  qed
qed

lemma FilterUtf8ForJson_units: "\<exists>us. FilterUtf8ForJson s = concat us \<and> list_all json_unit us"
proof (induction s rule: FilterUtf8ForJson.induct)
  case (2 c cs)
  have add: "\<exists>us. u @ r = concat us \<and> list_all json_unit us" if u: "json_unit u" and r: "\<exists>us. r = concat us \<and> list_all json_unit us" for u r
  proof -
    obtain us where "r = concat us" "list_all json_unit us" using r by blast
    then show ?thesis using u by (intro exI [of _ "u # us"]) simp
  qed
  show ?case
  proof (cases "c < 0x80")
    case True
    then show ?thesis using 2(1) add [OF json_ascii_unit] by simp
  next
    case False
    show ?thesis
    proof (cases "nBytes c")
      case None
      then show ?thesis using False 2(2) by simp
    next
      case (Some n)
      show ?thesis
      proof (cases "n \<le> length cs \<and> list_all follows (take n cs)")
        case True
        then have "json_unit (c # take n cs)" using False Some unfolding json_unit_def by auto
        then show ?thesis using add [of "c # take n cs"] True False Some 2(5) [OF False Some] by simp
      next
        case F: False
        then show ?thesis using False Some 2(3,4) [OF False Some] by auto
      qed
    qed
  qed
qed (auto intro: exI [of _ "[]"])

section \<open>Cutting half characters\<close>

fun cut_loop :: "byte list \<Rightarrow> byte list" where
  "cut_loop [] = []"
| "cut_loop [c] = (if c > 126 then if c < 0xA1 \<or> c > 0xF7 then [0x20] else [] else [c])"
| "cut_loop (c # d # s) = (if c > 126 then if c < 0xA1 \<or> c > 0xF7 then 0x20 # 0x20 # cut_loop s else c # d # cut_loop s else c # cut_loop (d # s))"

text \<open>The buffer is cut at its size first; a size of 0 writes before the buffer.\<close>

definition cutGBRaw :: "byte list \<Rightarrow> nat \<Rightarrow> byte list option" where
  "cutGBRaw szInfo uiMaxLen = (if uiMaxLen = 0 \<or> length szInfo < uiMaxLen then None
     else Some (cut_loop (takeWhile (\<lambda>c. c \<noteq> 0) (take (uiMaxLen - 1) szInfo))))"

definition cutGB :: "byte list \<Rightarrow> byte list option" where
  "cutGB str = cutGBRaw (takeWhile (\<lambda>c. c \<noteq> 0) str @ replicate (Suc (length str) - length (takeWhile (\<lambda>c. c \<noteq> 0) str)) 0) (Suc (length str))"

lemma cut_loop_plain: "\<not> c > 126 \<Longrightarrow> cut_loop (c # r) = c # cut_loop r"
  by (cases r) simp_all

lemma cut_loop_again: "cut_loop (cut_loop s) = cut_loop s \<and> length (cut_loop s) \<le> length s"
proof (induction s rule: cut_loop.induct)
  case (3 c d s)
  show ?case
  proof (cases "c > 126")
    case True
    then show ?thesis using 3 cut_loop_plain [of "0x20"] by auto
  next
    case False
    with cut_loop_plain [of c] 3(3) show ?thesis by simp
  qed
qed auto

section \<open>Hash functions\<close>

fun murmur_loop :: "u32 \<Rightarrow> byte list \<Rightarrow> u32 \<times> byte list" where
  "murmur_loop h (b0 # b1 # b2 # b3 # data) =
     (let m = 0x5bd1e995; k = le_word [b0, b1, b2, b3] * m; k = k XOR drop_bit 24 k; k = k * m in murmur_loop (h * m XOR k) data)"
| "murmur_loop h data = (h, data)"

definition MurmurHash2 :: "byte list \<Rightarrow> u32 \<Rightarrow> u32" where
  "MurmurHash2 key seed =
     (let m = 0x5bd1e995; (h, data) = murmur_loop (seed XOR of_nat (length key)) key;
          h = (if length data = 3 then h XOR push_bit 16 (ucast (data ! 2)) else h);
          h = (if length data \<ge> 2 then h XOR push_bit 8 (ucast (data ! 1)) else h);
          h = (if length data \<ge> 1 then (h XOR ucast (data ! 0)) * m else h);
          h = h XOR drop_bit 13 h; h = h * m
      in h XOR drop_bit 15 h)"

definition DJBHash :: "byte list \<Rightarrow> u32" where
  "DJBHash str = foldl (\<lambda>hash c. push_bit 5 hash + hash + scast c) 5381 str AND NOT (push_bit 31 1)"

definition Str_Hash :: "string \<Rightarrow> int" where
  "Str_Hash m_szModuleName = sint (foldl hash_char 0 m_szModuleName)"

definition HashStr2LongLong :: "u32 \<Rightarrow> byte list \<Rightarrow> u64" where
  "HashStr2LongLong UserFrom pszOpenID = push_bit 32 (scast UserFrom) OR ucast (MurmurHash2 pszOpenID 5381)"

lemma DJBHash_bound: "DJBHash str < 2 ^ 31"
proof -
  have "\<not> bit (DJBHash str) n" if "31 \<le> n" for n
  proof
    assume b: "bit (DJBHash str) n"
    then have "n = 31" using that bit_imp_le_length [OF b] by simp
    with b show False by (simp add: DJBHash_def bit_and_iff bit_not_iff bit_exp_iff)
  qed
  then have "n < 31" if "bit (DJBHash str) n" for n using that by (meson not_le)
  then have "take_bit 31 (DJBHash str) = DJBHash str" by (intro bit_eqI) (auto simp: bit_simps)
  then have "unat (DJBHash str) = take_bit 31 (unat (DJBHash str))" by (metis unsigned_take_bit_eq)
  then have "unat (DJBHash str) < 2 ^ 31" by (metis take_bit_nat_less_exp)
  then show ?thesis by (simp add: word_less_nat_alt)
qed

text \<open>The number of an account keeps where the user comes from in its upper half.\<close>

lemma HashStr2LongLong_from: "ucast (drop_bit 32 (HashStr2LongLong f s)) = f" and HashStr2LongLong_hash: "ucast (HashStr2LongLong f s) = MurmurHash2 s 5381"
  by (rule bit_word_eqI; auto simp: HashStr2LongLong_def bit_simps dest: bit_imp_le_length)+

end
