(* ===== verification/TimeTool.thy ===== *)
theory TimeTool
  imports LogFile Bus "HOL-Library.Signed_Division" "HOL-Library.Multiset"
begin

text \<open>
  The calendar functions of \<open>CSysTool\<close> and \<open>CTimeCmp\<close> and the weighted choice of \<open>CRandomTool\<close> (\<^verbatim>\<open>mmlib/util/util.cpp\<close>). \<open>localtime\<close>, \<open>gmtime\<close>
  and \<open>mktime\<close> are arguments; a number of seconds is an \<open>int\<close>, and \<open>sdiv\<close> is the division of C, which rounds towards zero.
\<close>

record btm = tm +
  tm_wday :: nat
  tm_yday :: nat
  tm_isdst :: int

section \<open>Days and weeks\<close>

definition IsSameDay :: "(int \<Rightarrow> btm) \<Rightarrow> int \<Rightarrow> int \<Rightarrow> bool" where
  "IsSameDay localtime t1 t2 \<longleftrightarrow> tm_yday (localtime t1) = tm_yday (localtime t2) \<and> tm_year (localtime t1) = tm_year (localtime t2)"

definition diff_local_gm :: "(int \<Rightarrow> btm) \<Rightarrow> (int \<Rightarrow> btm) \<Rightarrow> int" where
  "diff_local_gm localtime gmtime =
     (let l = localtime 0; g = gmtime 0
      in (int (tm_hour l) - int (tm_hour g)) * 60 * 60 + (int (tm_min l) - int (tm_min g)) * 60 + (int (tm_sec l) - int (tm_sec g)))"

definition diff_days :: "(int \<Rightarrow> btm) \<Rightarrow> (int \<Rightarrow> btm) \<Rightarrow> int \<Rightarrow> int \<Rightarrow> int" where
  "diff_days localtime gmtime t1 t2 =
     (let day_sec = 24 * 60 * 60; d = diff_local_gm localtime gmtime; (start, end) = (if t1 > t2 then (t2, t1) else (t1, t2))
      in (end + d) sdiv day_sec - (start + d) sdiv day_sec)"

definition IsSameWeek :: "(int \<Rightarrow> btm) \<Rightarrow> (int \<Rightarrow> btm) \<Rightarrow> int \<Rightarrow> int \<Rightarrow> bool" where
  "IsSameWeek localtime gmtime t1 t2 =
     (let dfdays = diff_days localtime gmtime t1 t2
      in if dfdays \<ge> 7 then False
         else let w1 = tm_wday (localtime t1); w2 = tm_wday (localtime t2); w1 = (if w1 = 0 then 7 else w1); w2 = (if w2 = 0 then 7 else w2)
              in if t1 > t2 then w1 \<ge> w2 else w2 \<ge> w1)"

definition NextWeek :: "(int \<Rightarrow> btm) \<Rightarrow> (btm \<Rightarrow> int) \<Rightarrow> int \<Rightarrow> int" where
  "NextWeek localtime mktime timestamp =
     (let tmOld = (localtime timestamp)\<lparr>tm_sec := 0, tm_min := 0, tm_hour := 0\<rparr>
      in mktime tmOld + ((7 - int (tm_wday tmOld)) mod 7 + 1) * (60 * 60 * 24))"

definition GetDaysInMonth :: "(int \<Rightarrow> btm) \<Rightarrow> int \<Rightarrow> nat" where
  "GetDaysInMonth localtime timestamp =
     (let y = tm_year (localtime timestamp) + 1900; m = tm_mon (localtime timestamp) + 1
      in if m = 2 then if y mod 4 = 0 \<and> y mod 100 \<noteq> 0 \<or> y mod 400 = 0 then 29 else 28
         else [31, 28, 31, 30, 31, 30, 31, 31, 30, 31, 30, 31] ! (m - 1))"

section \<open>Comparing times\<close>

text \<open>\<open>None\<close> is a division by zero.\<close>

definition CmpByHour :: "(int \<Rightarrow> btm) \<Rightarrow> int \<Rightarrow> int \<Rightarrow> int \<Rightarrow> int option" where
  "CmpByHour localtime leftTime rightTime hourNum =
     (let l = localtime leftTime; r = localtime rightTime
      in if hourNum = 0 then None
         else Some ((int (tm_year r) - int (tm_year l)) * 365 * 24 sdiv hourNum + (int (tm_yday r) - int (tm_yday l)) * 24 sdiv hourNum
                + (int (tm_hour r) - int (tm_hour l)) sdiv hourNum))"

definition CmpByDay :: "(int \<Rightarrow> btm) \<Rightarrow> int \<Rightarrow> int \<Rightarrow> int" where
  "CmpByDay localtime leftTime rightTime =
     (let l = localtime leftTime; r = localtime rightTime
      in if tm_year l > tm_year r then 1 else if tm_year l < tm_year r then -1
         else if tm_yday l = tm_yday r then 0 else if tm_yday l > tm_yday r then 1 else -1)"

text \<open>\<open>MondayTime\<close> is what \<open>mktime\<close> gives for the first Monday of 1970. The numbers of days are cut to 32 bits without sign.\<close>

definition CmpByWeek :: "int \<Rightarrow> int \<Rightarrow> int \<Rightarrow> int" where
  "CmpByWeek MondayTime leftTime rightTime =
     (let uiDiffLeft = word_of_int ((leftTime - MondayTime) sdiv (60 * 60 * 24)) :: u32;
          uiDiffRight = word_of_int ((rightTime - MondayTime) sdiv (60 * 60 * 24)) :: u32
      in sint (uiDiffLeft div 7 - uiDiffRight div 7))"

definition CmpByMonth :: "(int \<Rightarrow> btm) \<Rightarrow> int \<Rightarrow> int \<Rightarrow> int" where
  "CmpByMonth localtime leftTime rightTime =
     (let l = localtime leftTime; r = localtime rightTime
      in if tm_year l > tm_year r then 1 else if tm_year l < tm_year r then -1
         else if tm_mon l = tm_mon r then 0 else if tm_mon l > tm_mon r then 1 else -1)"

section \<open>Calendars of time zones\<close>

text \<open>
  A zone says how many seconds local time is ahead of Greenwich at each time, which may change with the seasons. The day of a time in the zone,
  and the number of its week, which starts on Monday: day 0 is a Thursday.
\<close>

definition day_of :: "(int \<Rightarrow> int) \<Rightarrow> int \<Rightarrow> int" where
  "day_of off t = (t + off t) div 86400"

definition week_of :: "(int \<Rightarrow> int) \<Rightarrow> int \<Rightarrow> int" where
  "week_of off t = (day_of off t + 3) div 7"

text \<open>The time at which the day of \<open>t\<close> starts by the clock that is in use at \<open>t\<close>.\<close>

definition midnight :: "(int \<Rightarrow> int) \<Rightarrow> int \<Rightarrow> int" where
  "midnight off t = day_of off t * 86400 - off t"

text \<open>
  What \<open>localtime\<close>, \<open>gmtime\<close> and \<open>mktime\<close> are known to do in a zone that was not behind Greenwich at time 0: \<open>mktime\<close> gives the first second of the
  day for its fields at midnight, at least when the clock was not changed since then.
\<close>

definition zone_ok :: "(int \<Rightarrow> int) \<Rightarrow> (int \<Rightarrow> btm) \<Rightarrow> (int \<Rightarrow> btm) \<Rightarrow> (btm \<Rightarrow> int) \<Rightarrow> bool" where
  "zone_ok off localtime gmtime mktime \<longleftrightarrow> 0 \<le> off 0 \<and> off 0 < 86400
     \<and> (\<forall>t\<ge>0. int (tm_wday (localtime t)) = (day_of off t + 4) mod 7
          \<and> int (tm_hour (localtime t)) * 3600 + int (tm_min (localtime t)) * 60 + int (tm_sec (localtime t)) = (t + off t) mod 86400
          \<and> int (tm_hour (gmtime t)) * 3600 + int (tm_min (gmtime t)) * 60 + int (tm_sec (gmtime t)) = t mod 86400
          \<and> (off (midnight off t) = off t \<longrightarrow> mktime ((localtime t)\<lparr>tm_sec := 0, tm_min := 0, tm_hour := 0\<rparr>) = midnight off t))"

lemma zone_diff: "zone_ok off l g mk \<Longrightarrow> diff_local_gm l g = off 0"
proof -
  assume z: "zone_ok off l g mk"
  have "int (tm_hour (l 0)) * 3600 + int (tm_min (l 0)) * 60 + int (tm_sec (l 0)) = off 0"
    "int (tm_hour (g 0)) * 3600 + int (tm_min (g 0)) * 60 + int (tm_sec (g 0)) = 0"
    using z unfolding zone_ok_def by auto
  then show ?thesis unfolding diff_local_gm_def Let_def by (simp add: algebra_simps)
qed


lemma sdiv_nonneg: "0 \<le> a \<Longrightarrow> 0 < b \<Longrightarrow> a sdiv b = a div b" for a b :: int
  by (simp add: signed_divide_int_def sgn_if)




lemma week_start: "(7 - (d + 4) mod 7) mod 7 + 1 = 7 - (d + 3) mod 7" for d :: int
proof -
  have "(d + 4) mod 7 = ((d + 3) mod 7 + 1) mod 7" using mod_add_left_eq [of "d + 3" 7 1] by (simp add: add.assoc)
  moreover have "(d + 3) mod 7 < 7" "0 \<le> (d + 3) mod 7" by simp_all
  moreover have "(6 - r) mod 7 = 6 - r" if "0 \<le> r" "r < 7" for r :: int using that by simp
  ultimately show ?thesis by (cases "(d + 3) mod 7 = 6") simp_all
qed


lemma NextWeek_eq:
  assumes "zone_ok off localtime gmtime mktime" "0 \<le> t" "off (midnight off t) = off t"
  shows "NextWeek localtime mktime t + off t = (7 * week_of off t + 4) * 86400"
proof -
  define d where "d = day_of off t"
  have "int (tm_wday (localtime t)) = (d + 4) mod 7"
    "mktime ((localtime t)\<lparr>tm_sec := 0, tm_min := 0, tm_hour := 0\<rparr>) = d * 86400 - off t"
    using assms by (simp_all add: zone_ok_def d_def midnight_def)
  then have "NextWeek localtime mktime t + off t = (d + (7 - (d + 3) mod 7)) * 86400"
    using week_start [of d] by (simp add: NextWeek_def Let_def algebra_simps)
  moreover have "d + (7 - (d + 3) mod 7) = 7 * week_of off t + 4"
    using div_mult_mod_eq [of "d + 3" 7] unfolding week_of_def d_def by linarith
  ultimately show ?thesis by simp
qed


text \<open>The clock of Berlin, with the summer time of the year 2023, and what is needed of a broken-down time.\<close>

definition off_example :: "int \<Rightarrow> int" where
  "off_example t = (if 1679792400 \<le> t \<and> t < 1698541200 then 7200 else 3600)"

definition zone_example :: "(int \<Rightarrow> int) \<Rightarrow> int \<Rightarrow> btm" where
  "zone_example off t = (let s = (t + off t) mod 86400 in
     \<lparr>tm_year = nat (day_of off t), tm_mon = 0, tm_mday = 1, tm_hour = nat (s div 3600), tm_min = nat (s mod 3600 div 60), tm_sec = nat (s mod 3600 mod 60),
      tm_wday = nat ((day_of off t + 4) mod 7), tm_yday = 0, tm_isdst = (if off t = 7200 then 1 else 0)\<rparr>)"

definition mktime_example :: "btm \<Rightarrow> int" where
  "mktime_example t = int (tm_year t) * 86400 - (if tm_isdst t = 1 then 7200 else 3600)"

lemma hms: "int (nat (s div 3600)) * 3600 + int (nat (s mod 3600 div 60)) * 60 + int (nat (s mod 3600 mod 60)) = s" if "0 \<le> s" for s :: int
  using that div_mult_mod_eq [of s 3600] div_mult_mod_eq [of "s mod 3600" 60] by (simp add: pos_imp_zdiv_nonneg_iff)

lemma zone_example_time:
  "int (tm_hour (zone_example off t)) * 3600 + int (tm_min (zone_example off t)) * 60 + int (tm_sec (zone_example off t)) = (t + off t) mod 86400"
proof -
  define s where "s = (t + off t) mod 86400"
  have "0 \<le> s" by (simp add: s_def)
  from hms [OF this] show ?thesis unfolding zone_example_def s_def [symmetric] by simp
qed

lemma zone_example_ok: "zone_ok off_example (zone_example off_example) (zone_example (\<lambda>_. 0)) mktime_example"
proof -
  have "mktime_example ((zone_example off_example t)\<lparr>tm_sec := 0, tm_min := 0, tm_hour := 0\<rparr>) = midnight off_example t" if "0 \<le> t" for t
  proof -
    have "0 \<le> day_of off_example t" using that by (simp add: day_of_def off_example_def pos_imp_zdiv_nonneg_iff)
    then show ?thesis by (simp add: mktime_example_def zone_example_def midnight_def off_example_def Let_def)
  qed
  moreover have "int (tm_wday (zone_example off_example t)) = (day_of off_example t + 4) mod 7" for t by (simp add: zone_example_def Let_def)
  moreover have "0 \<le> off_example 0 \<and> off_example 0 < 86400" by (simp add: off_example_def)
  ultimately show ?thesis using zone_example_time [of off_example] zone_example_time [of "\<lambda>_. 0"] unfolding zone_ok_def by simp
qed


text \<open>
  When the clock is changed in between, both are wrong: Monday noon in the last week of winter and half past midnight of the first Monday in summer
  time count as the same week, and from that Monday \<open>NextWeek\<close> gives one o'clock.
\<close>

lemma summer_time_breaks_weeks:
  "IsSameWeek (zone_example off_example) (zone_example (\<lambda>_. 0)) 1679310000 1679869800"
  "week_of off_example 1679869800 = week_of off_example 1679310000 + 1"
  "tm_hour (zone_example off_example (NextWeek (zone_example off_example) mktime_example 1679310000)) = 1"
proof -
  show "IsSameWeek (zone_example off_example) (zone_example (\<lambda>_. 0)) 1679310000 1679869800"
    using zone_diff [OF zone_example_ok] by (simp add: IsSameWeek_def diff_days_def zone_example_def off_example_def day_of_def Let_def sdiv_nonneg)
  show "week_of off_example 1679869800 = week_of off_example 1679310000 + 1" by (simp add: week_of_def day_of_def off_example_def)
  have "NextWeek (zone_example off_example) mktime_example 1679310000 = 1679871600"
    using NextWeek_eq [OF zone_example_ok, of 1679310000] by (simp add: off_example_def midnight_def day_of_def week_of_def)
  then show "tm_hour (zone_example off_example (NextWeek (zone_example off_example) mktime_example 1679310000)) = 1"
    by (simp add: zone_example_def off_example_def day_of_def Let_def)
qed

text \<open>A month has as many days as the calendar says.\<close>

lemma GetDaysInMonth_range: "tm_mon (localtime t) < 12 \<Longrightarrow> 28 \<le> GetDaysInMonth localtime t \<and> GetDaysInMonth localtime t \<le> 31"
proof -
  assume "tm_mon (localtime t) < 12"
  then have "tm_mon (localtime t) \<in> {0, 1, 2, 3, 4, 5, 6, 7, 8, 9, 10, 11}" by (auto simp: eval_nat_numeral less_Suc_eq)
  then show ?thesis by (elim insertE emptyE) (simp_all add: GetDaysInMonth_def Let_def)
qed

section \<open>Choosing by weight\<close>

record SWeightRandomItem =
  iID :: int
  iWeight :: int
  iExt :: int

fun weight_loop :: "int \<Rightarrow> int \<Rightarrow> SWeightRandomItem list \<Rightarrow> nat" where
  "weight_loop iRand iLeft [] = 0"
| "weight_loop iRand iLeft (x # vctItem) =
     (let iRight = iLeft + iWeight x in if iRand \<ge> iLeft \<and> iRand < iRight then 0 else Suc (weight_loop iRand iRight vctItem))"

text \<open>The iterator is the position it stands at; \<open>rnd\<close> is what \<open>rand\<close> returns. The sum of the weights is assumed to be an \<open>int\<close>.\<close>

definition WeightRandom :: "int \<Rightarrow> SWeightRandomItem list \<Rightarrow> nat" where
  "WeightRandom rnd vctItem = (let iWeithSum = (\<Sum>x\<leftarrow>vctItem. iWeight x); iRand = Random_Get 0 iWeithSum rnd in weight_loop iRand 0 vctItem)"

text \<open>\<open>rnds\<close> are the numbers \<open>rand\<close> returns, one for each round.\<close>

fun FrontWeightRandom :: "int list \<Rightarrow> SWeightRandomItem list \<Rightarrow> bool \<Rightarrow> int \<times> SWeightRandomItem list" where
  "FrontWeightRandom [] vctTmpAllItem bEnableSameRstItem = (0, [])"
| "FrontWeightRandom (rnd # rnds) vctTmpAllItem bEnableSameRstItem =
     (if vctTmpAllItem = [] then (0, [])
      else let i = WeightRandom rnd vctTmpAllItem
           in if i = length vctTmpAllItem then (-1, [])
              else let x = vctTmpAllItem ! i; all = (if bEnableSameRstItem then vctTmpAllItem else take i vctTmpAllItem @ drop (Suc i) vctTmpAllItem);
                       (r, vctRstItem) = FrontWeightRandom rnds all bEnableSameRstItem
                   in (r, x # vctRstItem))"

lemma Random_Get_bounds: "0 \<le> r \<Longrightarrow> r < 2 ^ 31 \<Longrightarrow> 0 < s \<Longrightarrow> 0 \<le> Random_Get 0 s r \<and> Random_Get 0 s r < s"
proof -
  assume a: "0 \<le> r" "r < 2 ^ 31" "0 < s"
  then have "s * r < s * 2147483648" by simp
  moreover have "s * r div 2147483648 * 2147483648 \<le> s * r"
    using div_mult_mod_eq [of "s * r" 2147483648] pos_mod_sign [of 2147483648 "s * r"] by linarith
  ultimately have "s * r div 2147483648 < s" by linarith
  then show ?thesis using a by (simp add: Random_Get_def pos_imp_zdiv_nonneg_iff)
qed

lemma weight_loop_eq:
  assumes "l \<le> v" "v < l + (\<Sum>x\<leftarrow>xs. iWeight x)" "\<forall>x\<in>set xs. 0 \<le> iWeight x"
  shows "weight_loop v l xs < length xs \<and> l + (\<Sum>x\<leftarrow>take (weight_loop v l xs) xs. iWeight x) \<le> v
    \<and> v < l + (\<Sum>x\<leftarrow>take (Suc (weight_loop v l xs)) xs. iWeight x)"
  using assms
proof (induction xs arbitrary: l)
  case (Cons x xs)
  show ?case
  proof (cases "v < l + iWeight x")
    case True
    then show ?thesis using Cons.prems by simp
  next
    case False
    then show ?thesis using Cons.IH [of "l + iWeight x"] Cons.prems by (simp add: add.assoc)
  qed
qed simp

text \<open>
  The item whose part of the interval from 0 to the sum of the weights holds the random number is chosen; so there always is one, and its weight is not 0.
\<close>

lemma WeightRandom_chooses:
  assumes "\<forall>x\<in>set xs. 0 \<le> iWeight x" "0 < (\<Sum>x\<leftarrow>xs. iWeight x)" "0 \<le> rnd" "rnd < 2 ^ 31"
  shows "WeightRandom rnd xs < length xs \<and> 0 < iWeight (xs ! WeightRandom rnd xs)"
proof -
  let ?i = "WeightRandom rnd xs"
  have i: "?i < length xs" "(\<Sum>x\<leftarrow>take ?i xs. iWeight x) < (\<Sum>x\<leftarrow>take (Suc ?i) xs. iWeight x)"
    using weight_loop_eq [of 0 "Random_Get 0 (\<Sum>x\<leftarrow>xs. iWeight x) rnd" xs] Random_Get_bounds [OF assms(3,4,2)] assms(1)
    by (auto simp: WeightRandom_def Let_def)
  show ?thesis using i take_Suc_conv_app_nth [OF i(1)] by simp
qed

text \<open>Without repetition every item is chosen at most as often as it is there.\<close>

lemma FrontWeightRandom_subset: "mset (snd (FrontWeightRandom rnds xs False)) \<subseteq># mset xs"
proof (induction rnds arbitrary: xs)
  case (Cons rnd rnds)
  show ?case
  proof (cases "xs = [] \<or> WeightRandom rnd xs = length xs")
    case True
    then show ?thesis by auto
  next
    case False
    have "weight_loop v l ys \<le> length ys" for v l ys by (induction ys arbitrary: l) (simp_all add: Let_def)
    then have i: "WeightRandom rnd xs < length xs" using False by (metis WeightRandom_def le_neq_implies_less)
    have "mset xs = add_mset (xs ! WeightRandom rnd xs) (mset (take (WeightRandom rnd xs) xs @ drop (Suc (WeightRandom rnd xs)) xs))"
      using arg_cong [OF id_take_nth_drop [OF i], of mset] by simp
    then show ?thesis using False Cons.IH [of "take (WeightRandom rnd xs) xs @ drop (Suc (WeightRandom rnd xs)) xs"]
      by (auto simp: Let_def split: prod.splits)
  qed
qed simp

end
