(* ===== verification/Spec2Isabelle.thy ===== *)
theory Spec2Isabelle
  imports Wire ShmQueue HashList ConnBuf IniFile Setup Bus BusRoute BusConn BusInit Conn ConnGns ConnInv ConnClient ConnRun ConnInit
    Mysql Server Auth AuthSpec UserShm User UserStore UserSpec UserReplay
    LogFile LogLib LogServer MemPool MapPool MmapQueue UniqQueue StrTool TextCheck TimeTool
begin

text \<open>
  \<^bold>\<open>The program.\<close> The repository holds the servers of a messaging system. Clients connect by TCP to a connection server
  (\<^verbatim>\<open>src/conn\<close>). Every server talks only to the bus of its machine (\<^verbatim>\<open>src/bus\<close>), by two queues in shared memory
  (\<^verbatim>\<open>src/mmlib/shm_queue\<close>); the buses of the machines are connected by TCP and forward a packet to a server, to one or to all members of a
  group, or to the same on another machine. The authentication server (\<^verbatim>\<open>src/auth\<close>) keeps the accounts in a database. The user server
  (\<^verbatim>\<open>src/user\<close>) keeps users in a hash table in shared memory (\<^verbatim>\<open>src/mmlib/hash_list\<close>); loader and writer processes beside it move users
  between this table and the database. The connection servers keep another such table of the users who are logged in and tell each other of
  every login. Configuration comes from files read by \<^verbatim>\<open>src/mmlib/ini_file\<close>. All servers log with \<^verbatim>\<open>src/mmlib/log\<close>, which puts records
  into one more queue; the log server (\<^verbatim>\<open>src/logsvr\<close>) takes them out and writes files.

  \<^bold>\<open>How code becomes definitions.\<close> A class is a record with the names of its members, a method is a function from the state to its result
  and the new state; names are those of the source, with the class in front where two classes have the same name. \<open>None\<close> as a result
  means that the C++ code does not return or that its behaviour is undefined (a read outside an array, an uninitialised value, a
  negative size given to \<open>memcpy\<close> or \<open>ParseFromArray\<close>); every other error is a return code, as in the source. Integers that can wrap are words of their width; \<open>int\<close> is used where the code cannot
  overflow, and \<open>int32\<close> writes a conversion out.

  What the code gets from outside is a parameter. The operating system is the record \<open>os\<close> of theory \<open>Platform\<close>: a script of the results,
  error numbers and data of the system calls to come, in order, with a trace of what was sent; theorems hold for every script. Parsing and
  serialising protocol buffer messages, the database client library, \<open>inet_addr\<close> and \<open>rand\<close>, the files and the shared memory found at
  the start are arguments; where a theorem needs their documented behaviour (a message that is serialised is parsed back, an escaped text
  is stored as it was) it has this as a hypothesis, and its witness gives concrete functions with that behaviour. Loops that search are
  recursions with a termination proof or a \<open>partial_function\<close> whose termination is a theorem. The endless loops of the servers have a number of
  rounds as argument, or a list with the events of each round; the theorems hold for every number. The processes on one machine run beside each
  other: the input of a round of the bus or of the connection server says, beside the events, which packets the others have put into its queue
  and how many they have taken out of theirs.

  \<^bold>\<open>The theories.\<close>
  \<^item> \<open>Prelude\<close>, \<open>Ring\<close>, \<open>Platform\<close>: memory as byte lists, the locales \<open>simulation\<close> (an implementation that answers like its
    specification) and \<open>event_loop\<close> (what every event keeps a loop keeps), lists used as rings, ordered maps, the operating system.
  \<^item> \<open>Wire\<close>: \<open>CBuffTool\<close> and the packet headers of \<^verbatim>\<open>include/header.h\<close> and \<^verbatim>\<open>include/bus_header.h\<close>; the locale \<open>header_codec\<close>
    gives the round trips for the three headers.
  \<^item> \<open>ShmQueue\<close>: \<open>CShmQueue\<close>; it is a bounded first-in first-out queue over every wrap-around of the ring.
  \<^item> \<open>HashList\<close>: \<open>CHashListNoLock\<close>; it is a finite map with a capacity, and no operation leaves the arrays.
  \<^item> \<open>ConnBuf\<close>: \<open>CConnInfo\<close>, a connection with the bytes still to be sent and those not yet complete; the stream is conserved.
  \<^item> \<open>IniFile\<close>, \<open>Setup\<close>: \<open>CIniFile\<close>, whose searches end and compute a reference lookup, and what the \<open>Init\<close> functions share.
  \<^item> \<open>Bus\<close>, \<open>BusRoute\<close>, \<open>BusConn\<close>, \<open>BusInit\<close>: all of \<open>CBus\<close>; where a packet goes, that packets do not depend on how the kernel cuts
    the stream (\<open>serve\<close> goes through a whole stream, \<open>feed\<close> is one chunk of it, and both are tied to the code's loop and handler), that clusters and connections stay consistent over the event loop, and that \<open>Init\<close> establishes this.
  \<^item> \<open>Conn\<close>, \<open>ConnGns\<close>, \<open>ConnInv\<close>, \<open>ConnClient\<close>, \<open>ConnRun\<close>, \<open>ConnInit\<close>: all of \<open>CConn\<close>; connections and logged-in users stay
    consistent from a successful \<open>Init\<close> on, every packet of another server is dealt with, what a client can send, that idle connections are released, that the newest login wins, and what \<open>Init\<close> announces. The locale
    \<open>conn_contract\<close> proves once what the operations keep; it is interpreted for the two invariants.
  \<^item> \<open>Mysql\<close>, \<open>Server\<close>: the wrapper \<open>CMySQL\<close>, which reads a statement only when there is a connection, and what the next two servers have in common: sending, answering, reporting to the bus.
  \<^item> \<open>Auth\<close>, \<open>AuthSpec\<close>: all of \<open>CAuth\<close>; it is a map from users to passwords and answers every request once, for plain passwords that fit the
    statement and a database that answers; for longer ones it says when the statement is read beyond its array.
  \<^item> \<open>UserShm\<close>, \<open>User\<close>, \<open>UserStore\<close>, \<open>UserSpec\<close>, \<open>UserReplay\<close>: the table \<open>CUserShmApi\<close>, the server \<open>CUser\<close>, and \<open>CLoaderUser\<close>
    and \<open>CWriterUser\<close>; the table is a map of well-formed users (locale \<open>user_table\<close>), inactive users leave it, a user whose texts hold no percent sign survives being
    written and loaded again, and a request that waits for the loader is answered.
  \<^item> \<open>LogFile\<close>, \<open>LogLib\<close>, \<open>LogServer\<close>: files and their rotation, the library \<open>CLog\<close> and the server \<open>CLogSvrProc\<close>. A file system is a
    map from names to files and from files to what they hold, in which each call may fail. Rotation loses only the oldest file of a full row, and
    a line that is logged reaches the file of its module, level and hour. Of the lines the log server writes about itself while it runs the
    state has the user and the level; their file is not part of the file system. The tables of open files are association lists with a capacity; that
    the hash table behaves like that is what \<open>HashList\<close> shows.
  \<^item> \<open>MemPool\<close>, \<open>MapPool\<close>: the pool of nodes \<open>CFixedsizeMemPool\<close>, which is a queue of free nodes, and the maps \<open>CMemPool\<close> made of its
    nodes, none of which disturbs another.
  \<^item> \<open>MmapQueue\<close>, \<open>UniqQueue\<close>: the queue \<open>CMmapQueue\<close> in mapped memory and the queue without repetitions \<open>CShmUniqQueue\<close>, each with the
    list of messages it implements; the first blocks after an error until the process ends and the kernel gives its semaphore back, the second for any interleaving of the processes that share it.
  \<^item> \<open>StrTool\<close>, \<open>TextCheck\<close>, \<open>TimeTool\<close>: the functions of \<^verbatim>\<open>mmlib/util/util.cpp\<close> on texts, bytes and times: when replacing ends, splitting and
    joining as inverses, decimal and hexadecimal numbers, names that are repaired, text that is safe in JSON and markup, weeks in a zone with or
    without summer time, and choice by weight.

  \<^bold>\<open>Not modelled.\<close> What the servers log, error texts, signals, destructors and \<open>main\<close> functions, since nothing the servers answer depends
  on them; so a call of the log library is a step of its own and not part of the other servers, and the read of an erased iterator in a log line
  of \<open>ReleaseConn\<close> (\<^verbatim>\<open>src/conn/conn.cpp:969\<close>) is not in its definition. Of the log library \<open>Open\<close>, which attaches the
  segments and reads the configuration, the lines the library writes about itself, and the text of those of the log server. The file locks of the user table
  and the semaphores of the queues: each operation on shared memory is one step, which is what the locks are for; only the result of taking a
  semaphore is an argument, since the queue looks at it. The process manager, the wrappers of shared memory and the network clients, which
  only make system calls. The library code no server calls: AMF, compression, encodings, the timer pool (which does not compile) and
  the variants of the hash table for mapped files. In \<^verbatim>\<open>mmlib/util/util.cpp\<close> the functions that only call \<open>printf\<close>, \<open>iconv\<close>, \<open>stat\<close>, \<open>fork\<close> or
  \<open>ioctl\<close>.

  \<^bold>\<open>What is next.\<close> \<open>CLog::Open\<close>, and the interleaving of the user server with several loaders.
\<close>

section \<open>The bus from its start\<close>

lemma listeners_stay:
  "listeners m m' \<Longrightarrow> listen_pos p \<Longrightarrow> mfind m p \<noteq> None \<Longrightarrow> mfind m' p \<noteq> None"
  unfolding listeners_def by (metis option.map_disc_iff)

text \<open>
  C39: a bus that starts with a successful \<open>Init\<close> and whose own cluster is configured has, after every
  run of its event loop, consistent tables of clusters and connections and both its listening sockets,
  and a send to a known cluster never fails for want of its connection (the last position of the
  cluster range excepted).
\<close>
theorem bus_started_keeps_links:
  assumes "segments_ok E" "Bus_Init E path (Bus_new q w) = Some (0, s)"
    and "mfind (m_mapClusterInfo s) (m_ClusterID s) \<noteq> None" "Bus_Run P s rounds = Some L"
  shows "link_inv (lp_bus L)
    \<and> mfind (m_PosConnMap (lp_bus L)) LISTEN_SOCK_CPOS_MIN \<noteq> None \<and> mfind (m_PosConnMap (lp_bus L)) LISTEN_UDP_CPOS_MIN \<noteq> None
    \<and> (\<forall>k info bs. mfind (m_mapClusterInfo (lp_bus L)) k = Some info \<and> ci_ConnPos info \<noteq> CLUSTER_SOCK_CPOS_MAX
         \<longrightarrow> fst (Send2Cluster (lp_bus L) info bs) \<noteq> -1)"
proof -
  let ?s = "lp_bus L"
  have t: "link_inv s" "listening s" using Bus_Init_tables [OF assms(1,2)] by (simp_all add: tables_ok_def)
  then have I: "link_inv ?s" "listeners (m_PosConnMap s) (m_PosConnMap ?s)"
    using Bus_Run_linked [OF assms(4)] by (auto simp: linked_def)
  have "mfind (m_PosConnMap s) LISTEN_SOCK_CPOS_MIN \<noteq> None" "mfind (m_PosConnMap s) LISTEN_UDP_CPOS_MIN \<noteq> None"
    using t(2) assms(3) by (auto simp: listening_def)
  then have "mfind (m_PosConnMap ?s) LISTEN_SOCK_CPOS_MIN \<noteq> None" "mfind (m_PosConnMap ?s) LISTEN_UDP_CPOS_MIN \<noteq> None"
    using listeners_stay [OF I(2)] by (simp_all add: listen_pos_def cpos_defs)
  moreover have "fst (Send2Cluster ?s info bs) \<noteq> -1"
    if "mfind (m_mapClusterInfo ?s) k = Some info" "ci_ConnPos info \<noteq> CLUSTER_SOCK_CPOS_MAX" for k info bs
    using Send2Cluster_finds [OF I(1) that, of bs] by auto
  ultimately show ?thesis using I(1) by blast
qed

theorem bus_started_keeps_links_witness:
  "\<exists>s L. Bus_Init init_env ''a'' (Bus_new queue_example init_os) = Some (0, s) \<and> Bus_Run pb_example s [] = Some L
     \<and> link_inv (lp_bus L) \<and> mfind (m_PosConnMap (lp_bus L)) LISTEN_SOCK_CPOS_MIN \<noteq> None"
proof -
  obtain s where s: "Bus_Init init_env ''a'' (Bus_new queue_example init_os) = Some (0, s)"
    "mfind (m_mapClusterInfo s) (m_ClusterID s) \<noteq> None"
    using init_example by blast
  obtain L where L: "Bus_Run pb_example s [] = Some L" by (simp add: Bus_Run_def Let_def bcall_eq)
  from bus_started_keeps_links [OF init_env_segments s L] s(1) L show ?thesis by blast
qed

end
